(* ===== verification/Prelude.thy ===== *)
theory Prelude
  imports Main "HOL-Library.Word" "HOL-Library.Monad_Syntax" "HOL-Library.Signed_Division"
begin

text \<open>
  Shared vocabulary of the development: the fixed-width integer types of
  \<open>student-distrib/types.h\<close>, conversions between C integers of different widths, and the
  generic facts on words, options and lists that the component theories use.

  \<^item> \<open>u8\<close>, \<open>u16\<close>, \<open>u32\<close> are \<open>uint8_t\<close>, \<open>uint16_t\<close>, \<open>uint32_t\<close>; addresses are \<open>u32\<close>.
  \<^item> A C \<open>int\<close> is an Isabelle \<open>int\<close>; \<open>s32\<close> is the value a 32-bit two's complement
    register holds after an operation whose mathematical result is its argument.
  \<^item> \<open>region a n\<close> is the set of the \<open>n\<close> byte addresses that start at \<open>a\<close>.
\<close>

unbundle bit_operations_syntax

type_synonym u8 = "8 word"
type_synonym u16 = "16 word"
type_synonym u32 = "32 word"
type_synonym addr = "32 word"

named_theorems frame_simps
named_theorems layout_simps

definition s32 :: "int \<Rightarrow> int" where
  "s32 x = sint (word_of_int x :: u32)"

definition region :: "addr \<Rightarrow> nat \<Rightarrow> addr set" where
  "region a n = (\<lambda>i. a + word_of_nat i) ` {..<n}"

section \<open>Words\<close>

lemma word_of_nat_inj_u32:
  assumes "i < 2 ^ 32" and "j < 2 ^ 32"
  shows "(word_of_nat i :: u32) = word_of_nat j \<longleftrightarrow> i = j"
  using assms by (simp add: word_of_nat_eq_iff take_bit_nat_eq_self)

lemma unat_word_of_nat_u32: "i < 2 ^ 32 \<Longrightarrow> unat (word_of_nat i :: u32) = i"
  by (simp add: unat_of_nat take_bit_nat_eq_self)

lemma unat_u32_lt: "unat (n :: u32) < 4294967296"
  using unsigned_less [of n, where ?'a = nat] by simp

lemma add_word_of_nat_Suc: "(a :: u32) + word_of_nat (Suc i) = a + 1 + word_of_nat i"
  by simp

lemma s32_id: "- (2 ^ 31) \<le> x \<Longrightarrow> x < 2 ^ 31 \<Longrightarrow> s32 x = x"
  by (simp add: s32_def signed_of_int signed_take_bit_int_eq_self)

lemma s32_range: "- (2 ^ 31) \<le> s32 x \<and> s32 x < 2 ^ 31"
  using sint_range_size [of "word_of_int x :: u32"] by (simp add: s32_def word_size)

lemma and_0xFF: "(x :: u32) AND 0xFF = take_bit 8 x"
  by (simp add: take_bit_eq_mask mask_eq_exp_minus_1)

lemma and_0xFFF: "(x :: u32) AND 0xFFF = take_bit 12 x"
  by (simp add: take_bit_eq_mask mask_eq_exp_minus_1)

lemma and_0x3FFFFF: "(x :: u32) AND 0x3FFFFF = take_bit 22 x"
  by (simp add: take_bit_eq_mask mask_eq_exp_minus_1)

lemma and_0x3FF: "(x :: u32) AND 0x3FF = take_bit 10 x"
  by (simp add: take_bit_eq_mask mask_eq_exp_minus_1)

lemma replicate_4: "replicate 4 x = [x, x, x, x]"
  by (simp add: numeral_eq_Suc)

section \<open>Regions\<close>

lemma region_0 [simp]: "region a 0 = {}"
  by (simp add: region_def)

lemma region_Suc: "region a (Suc n) = insert a (region (a + 1) n)"
  by (auto simp: region_def lessThan_Suc_eq_insert_0 image_image simp flip: add_word_of_nat_Suc
      simp del: of_nat_Suc)

lemma region_memI: "i < n \<Longrightarrow> a + word_of_nat i \<in> region a n"
  by (simp add: region_def)

lemma region_add: "region a (m + n) = region a m \<union> region (a + word_of_nat m) n"
  by (induction m arbitrary: a) (simp_all add: region_Suc algebra_simps)

lemma region_mono: "m \<le> n \<Longrightarrow> region a m \<subseteq> region a n"
  by (auto simp: region_def)

lemma first_notin_region_next:
  assumes "n < 2 ^ 32"
  shows "(a :: addr) \<notin> region (a + 1) n"
proof
  assume "a \<in> region (a + 1) n"
  then obtain i where i: "i < n" and eq: "a = a + word_of_nat (Suc i)"
    by (auto simp: region_def algebra_simps)
  from eq have "a + word_of_nat (Suc i) = a + word_of_nat 0"
    by (simp del: of_nat_Suc)
  then have "(word_of_nat (Suc i) :: u32) = word_of_nat 0"
    by (rule add_left_imp_eq)
  with i assms show False
    using word_of_nat_inj_u32 [of "Suc i" 0] by simp
qed

lemma unat_add_nowrap: "unat a + n \<le> 2 ^ 32 \<Longrightarrow> i < n \<Longrightarrow> unat ((a :: addr) + word_of_nat i) = unat a + i"
  by (subst unat_add_lem [THEN iffD1]) (simp_all add: unat_word_of_nat_u32)

lemma region_disjoint:
  assumes "unat a + m \<le> unat b" and "unat b + n \<le> 2 ^ 32"
  shows "region a m \<inter> region b n = {}"
proof -
  have "a + word_of_nat i \<noteq> b + word_of_nat j" if "i < m" "j < n" for i j
  proof
    assume "a + word_of_nat i = b + word_of_nat j"
    then have "unat a + i = unat b + j"
      using unat_add_nowrap [of a m i] unat_add_nowrap [of b n j] assms that by simp
    with assms(1) that show False by simp
  qed
  then show ?thesis by (auto simp: region_def)
qed

section \<open>Byte lists\<close>

definition lcopy :: "'a list \<Rightarrow> 'a list \<Rightarrow> nat \<Rightarrow> 'a list" where
  "lcopy dst src n = take n src @ drop n dst"

lemma length_lcopy [simp]: "n \<le> length src \<Longrightarrow> n \<le> length dst \<Longrightarrow> length (lcopy dst src n) = length dst"
  by (simp add: lcopy_def)

lemma lcopy_full [simp]: "length src = n \<Longrightarrow> length dst = n \<Longrightarrow> lcopy dst src n = src"
  by (simp add: lcopy_def)

end
