(* ===== verification/Machine.thy ===== *)
theory Machine
  imports Prelude
begin

text \<open>
  The machine the kernel runs on, as far as its C code can see it.

  \<^item> \<open>vmem\<close> is the memory system: physical memory, the three paging structures that
    \<open>paging.c\<close> declares as C arrays, and the addresses the linker gave the two page tables.
    A C array is a total function of its index.  \<open>paging_on\<close> is the bit that
    \<open>enable_paging\<close> sets in CR0.
  \<^item> \<open>translate\<close> is the page walk of the processor for the kernel (4 MB pages when the PS bit
    of a directory entry is set, 4 KB pages otherwise), \<open>user_access\<close> its privilege check for
    code at ring 3.  The translation lookaside buffer is not modelled: every update of a paging
    structure in the source is followed by \<open>flush_tlb\<close>.
  \<^item> \<open>ld8\<close> and \<open>st8\<close> are a load and a store through a C pointer.  \<open>None\<close> is a page
    fault, after which the interrupted C code does not go on.
  \<^item> \<open>io\<close> is the trace of port accesses, newest first.  What a device answers on a port is
    a function of that trace, given as a parameter of type \<open>device\<close>.
  \<^item> \<open>machine\<close> adds the static variables of \<open>lib.c\<close> (cursor), \<open>i8259.c\<close> (masks) and
    \<open>rtc.c\<close>, and the processor's interrupt flag.
\<close>

record vmem =
  pmem :: "u32 \<Rightarrow> u8"
  paging_on :: bool
  page_directory :: "nat \<Rightarrow> u32"
  page_table :: "nat \<Rightarrow> u32"
  user_video_page_table :: "nat \<Rightarrow> u32"
  page_table_addr :: u32
  user_video_page_table_addr :: u32

datatype io_event = Outb u16 u8 | Inb u16

type_synonym device = "io_event list \<Rightarrow> u16 \<Rightarrow> u8"

record machine =
  vm :: vmem
  io :: "io_event list"
  iflag :: bool
  screen_x :: int
  screen_y :: int
  master_mask :: u8
  slave_mask :: u8
  rate :: u32
  waiting :: u8

section \<open>Address translation\<close>

definition table_at :: "vmem \<Rightarrow> u32 \<Rightarrow> (nat \<Rightarrow> u32) option" where
  "table_at v base =
     (if base = page_table_addr v then Some (page_table v)
      else if base = user_video_page_table_addr v then Some (user_video_page_table v)
      else None)"

definition translate :: "vmem \<Rightarrow> addr \<Rightarrow> u32 option" where
  "translate v va =
     (if \<not> paging_on v then Some va
      else let pde = page_directory v (unat (drop_bit 22 va)) in
        if \<not> bit pde 0 then None
        else if bit pde 7 then Some ((pde AND 0xFFC00000) OR (va AND 0x003FFFFF))
        else (case table_at v (pde AND 0xFFFFF000) of
            None \<Rightarrow> None
          | Some t \<Rightarrow>
              (let pte = t (unat (drop_bit 12 va AND 0x3FF)) in
               if \<not> bit pte 0 then None
               else Some ((pte AND 0xFFFFF000) OR (va AND 0xFFF)))))"

definition user_access :: "vmem \<Rightarrow> addr \<Rightarrow> bool" where
  "user_access v va =
     (let pde = page_directory v (unat (drop_bit 22 va)) in
      bit pde 0 \<and> bit pde 2 \<and>
      (if bit pde 7 then True
       else (case table_at v (pde AND 0xFFFFF000) of
           None \<Rightarrow> False
         | Some t \<Rightarrow> (let pte = t (unat (drop_bit 12 va AND 0x3FF)) in bit pte 0 \<and> bit pte 2))))"

section \<open>Loads and stores\<close>

definition ld8 :: "vmem \<Rightarrow> addr \<Rightarrow> u8 option" where
  "ld8 v a = map_option (pmem v) (translate v a)"

definition st8 :: "vmem \<Rightarrow> addr \<Rightarrow> u8 \<Rightarrow> vmem option" where
  "st8 v a b = map_option (\<lambda>p. v\<lparr>pmem := (pmem v)(p := b)\<rparr>) (translate v a)"

definition word_of_bytes :: "u8 \<Rightarrow> u8 \<Rightarrow> u8 \<Rightarrow> u8 \<Rightarrow> u32" where
  "word_of_bytes b0 b1 b2 b3 =
     ucast b0 OR push_bit 8 (ucast b1) OR push_bit 16 (ucast b2) OR push_bit 24 (ucast b3)"

definition ld32 :: "vmem \<Rightarrow> addr \<Rightarrow> u32 option" where
  "ld32 v a = do {
     b0 \<leftarrow> ld8 v a;
     b1 \<leftarrow> ld8 v (a + 1);
     b2 \<leftarrow> ld8 v (a + 2);
     b3 \<leftarrow> ld8 v (a + 3);
     Some (word_of_bytes b0 b1 b2 b3)
   }"

fun st_bytes :: "vmem \<Rightarrow> addr \<Rightarrow> u8 list \<Rightarrow> vmem option" where
  "st_bytes v a [] = Some v"
| "st_bytes v a (b # bs) = do { v' \<leftarrow> st8 v a b; st_bytes v' (a + 1) bs }"

fun ld_bytes :: "vmem \<Rightarrow> addr \<Rightarrow> nat \<Rightarrow> u8 list option" where
  "ld_bytes v a 0 = Some []"
| "ld_bytes v a (Suc n) = do { b \<leftarrow> ld8 v a; bs \<leftarrow> ld_bytes v (a + 1) n; Some (b # bs) }"

section \<open>Ports\<close>

definition outb :: "u8 \<Rightarrow> u16 \<Rightarrow> machine \<Rightarrow> machine" where
  "outb data port m = m\<lparr>io := Outb port data # io m\<rparr>"

definition inb :: "device \<Rightarrow> u16 \<Rightarrow> machine \<Rightarrow> u32 \<times> machine" where
  "inb dev port m = (ucast (dev (io m) port), m\<lparr>io := Inb port # io m\<rparr>)"

definition cli :: "machine \<Rightarrow> machine" where
  "cli m = m\<lparr>iflag := False\<rparr>"

definition sti :: "machine \<Rightarrow> machine" where
  "sti m = m\<lparr>iflag := True\<rparr>"

section \<open>Memory states with the same address map\<close>

text \<open>
  \<open>same_map v v'\<close>: the two memory systems differ in the contents of physical memory only.
  Every memory routine of the kernel keeps the map.
\<close>

definition same_map :: "vmem \<Rightarrow> vmem \<Rightarrow> bool" where
  "same_map v v' \<longleftrightarrow> v' = v\<lparr>pmem := pmem v'\<rparr>"

lemma same_map_refl [simp, intro!]: "same_map v v"
  by (simp add: same_map_def)

lemma same_map_pmem [simp]: "same_map v (v\<lparr>pmem := p\<rparr>)"
  by (simp add: same_map_def)

lemma same_map_fields:
  assumes "same_map v v'"
  shows "paging_on v' = paging_on v" "page_directory v' = page_directory v"
    "page_table v' = page_table v" "user_video_page_table v' = user_video_page_table v"
    "page_table_addr v' = page_table_addr v"
    "user_video_page_table_addr v' = user_video_page_table_addr v"
  using assms unfolding same_map_def by (metis vmem.select_convs vmem.surjective vmem.update_convs(1))+

lemma same_map_trans [trans]: "same_map u v \<Longrightarrow> same_map v w \<Longrightarrow> same_map u w"
  unfolding same_map_def by (metis vmem.surjective vmem.update_convs(1))

lemma table_at_pmem [simp]: "table_at (v\<lparr>pmem := p\<rparr>) = table_at v"
  by (rule ext) (simp add: table_at_def)

lemma translate_pmem [simp]: "translate (v\<lparr>pmem := p\<rparr>) = translate v"
  by (rule ext) (simp add: translate_def Let_def)

lemma same_map_translate: "same_map v v' \<Longrightarrow> translate v' = translate v"
  by (metis same_map_def translate_pmem)

lemma ld8_pmem: "translate v a = Some p \<Longrightarrow> ld8 v a = Some (pmem v p)"
  by (simp add: ld8_def)

lemma st8_pmem: "translate v a = Some p \<Longrightarrow> st8 v a b = Some (v\<lparr>pmem := (pmem v)(p := b)\<rparr>)"
  by (simp add: st8_def)

lemma st8_same_map: "st8 v a b = Some v' \<Longrightarrow> same_map v v'"
  by (auto simp: st8_def)

lemma ld8_update:
  assumes "translate v a = Some p"
  shows "ld8 (v\<lparr>pmem := (pmem v)(p := b)\<rparr>) c = (if translate v c = Some p then Some b else ld8 v c)"
  by (cases "translate v c") (auto simp: ld8_def)

lemma ld_bytes_same_map:
  assumes "same_map v v'" and "\<And>i p. i < n \<Longrightarrow> translate v (a + word_of_nat i) = Some p \<Longrightarrow> pmem v' p = pmem v p"
  shows "ld_bytes v' a n = ld_bytes v a n"
  using assms(2)
proof (induction n arbitrary: a)
  case 0
  then show ?case by simp
next
  case (Suc n)
  have "ld8 v' a = ld8 v a"
    using Suc.prems [of 0] assms(1) by (cases "translate v a") (simp_all add: ld8_def same_map_translate)
  moreover have "ld_bytes v' (a + 1) n = ld_bytes v (a + 1) n"
    by (rule Suc.IH) (use Suc.prems [of "Suc i" for i] in \<open>simp add: add.assoc\<close>)
  ultimately show ?case by simp
qed

lemma ld_bytes_append:
  "ld_bytes v a (m + n) =
     do { xs \<leftarrow> ld_bytes v a m; ys \<leftarrow> ld_bytes v (a + word_of_nat m) n; Some (xs @ ys) }"
  by (induction m arbitrary: a) (auto simp: algebra_simps split: Option.bind_splits)

lemma ld_bytes_length: "ld_bytes v a n = Some bs \<Longrightarrow> length bs = n"
  by (induction n arbitrary: a bs) (auto split: Option.bind_splits)

lemma ld_bytes_nth: "ld_bytes v a n = Some bs \<Longrightarrow> i < n \<Longrightarrow> ld8 v (a + word_of_nat i) = Some (bs ! i)"
proof (induction n arbitrary: a bs i)
  case 0
  then show ?case by simp
next
  case (Suc n)
  then obtain b bs' where b: "ld8 v a = Some b" "ld_bytes v (a + 1) n = Some bs'" "bs = b # bs'"
    by (auto split: Option.bind_splits)
  show ?case
  proof (cases i)
    case 0
    with b show ?thesis by simp
  next
    case (Suc j)
    with Suc.IH [OF b(2), of j] Suc.prems(2) b(3) show ?thesis by (simp add: add.assoc)
  qed
qed

lemma ld_bytesI:
  assumes "length bs = n" and "\<And>i. i < n \<Longrightarrow> ld8 v (a + word_of_nat i) = Some (bs ! i)"
  shows "ld_bytes v a n = Some bs"
  using assms
proof (induction n arbitrary: a bs)
  case 0
  then show ?case by simp
next
  case (Suc n)
  then obtain b bs' where bs: "bs = b # bs'" by (cases bs) auto
  have "ld8 v a = Some b"
    using Suc.prems(2) [of 0] bs by simp
  moreover have "ld_bytes v (a + 1) n = Some bs'"
  proof (rule Suc.IH)
    show "length bs' = n" using Suc.prems(1) bs by simp
  next
    fix i assume "i < n"
    then show "ld8 v (a + 1 + word_of_nat i) = Some (bs' ! i)"
      using Suc.prems(2) [of "Suc i"] bs by (simp add: add.assoc)
  qed
  ultimately show ?case using bs by simp
qed

lemma st_bytes_append:
  "st_bytes v a (xs @ ys) = do { v1 \<leftarrow> st_bytes v a xs; st_bytes v1 (a + word_of_nat (length xs)) ys }"
  by (induction xs arbitrary: v a) (auto simp: algebra_simps split: Option.bind_splits)

lemma st_bytes_same_map: "st_bytes v a bs = Some v' \<Longrightarrow> same_map v v'"
proof (induction bs arbitrary: v a)
  case Nil
  then show ?case by simp
next
  case (Cons b bs)
  then obtain v1 where "st8 v a b = Some v1" and "st_bytes v1 (a + 1) bs = Some v'"
    by (auto split: Option.bind_splits)
  with Cons.IH show ?case by (blast intro: same_map_trans st8_same_map)
qed

text \<open>A store of a byte list changes the physical bytes its addresses translate to, only.\<close>

lemma st_bytes_frame:
  assumes "st_bytes v a bs = Some v'"
    and "\<And>i. i < length bs \<Longrightarrow> translate v (a + word_of_nat i) \<noteq> Some p"
  shows "pmem v' p = pmem v p"
  using assms
proof (induction bs arbitrary: v a)
  case Nil
  then show ?case by simp
next
  case (Cons b bs)
  from Cons.prems(1) obtain q where q: "translate v a = Some q"
    and rest: "st_bytes (v\<lparr>pmem := (pmem v)(q := b)\<rparr>) (a + 1) bs = Some v'"
    by (auto simp: st8_def split: Option.bind_splits)
  from Cons.prems(2) [of 0] q have "q \<noteq> p" by simp
  moreover have "pmem v' p = pmem (v\<lparr>pmem := (pmem v)(q := b)\<rparr>) p"
    by (rule Cons.IH [OF rest]) (use Cons.prems(2) [of "Suc i" for i] in \<open>simp add: add.assoc\<close>)
  ultimately show ?case by simp
qed

text \<open>
  \<open>mapped v A\<close>: every address of \<open>A\<close> is present and no two of them share a physical byte.
\<close>

definition mapped :: "vmem \<Rightarrow> addr set \<Rightarrow> bool" where
  "mapped v A \<longleftrightarrow> (\<forall>a\<in>A. translate v a \<noteq> None) \<and> inj_on (translate v) A"

lemma mapped_same_map: "same_map v v' \<Longrightarrow> mapped v' A = mapped v A"
  by (simp add: mapped_def same_map_translate)

lemma mapped_subset: "mapped v B \<Longrightarrow> A \<subseteq> B \<Longrightarrow> mapped v A"
  by (auto simp: mapped_def intro: inj_on_subset)

lemma ld_bytes_mapped: "mapped v (region a n) \<Longrightarrow> \<exists>bs. ld_bytes v a n = Some bs"
proof (induction n arbitrary: a)
  case 0
  then show ?case by simp
next
  case (Suc n)
  from Suc.prems obtain p where "translate v a = Some p"
    by (auto simp: mapped_def region_Suc)
  moreover obtain bs where "ld_bytes v (a + 1) n = Some bs"
    using Suc.IH [OF mapped_subset [OF Suc.prems]] by (auto simp: region_Suc)
  ultimately show ?case by (simp add: ld8_def)
qed

text \<open>A store to mapped addresses succeeds, and the stored bytes are read back.\<close>

lemma st_bytes_mapped:
  assumes "mapped v (region a (length bs))" and "length bs < 2 ^ 32"
  shows "\<exists>v'. st_bytes v a bs = Some v' \<and> ld_bytes v' a (length bs) = Some bs"
  using assms
proof (induction bs arbitrary: v a)
  case Nil
  then show ?case by simp
next
  case (Cons b bs)
  from Cons.prems(1) obtain p where p: "translate v a = Some p"
    by (auto simp: mapped_def region_Suc)
  let ?v = "v\<lparr>pmem := (pmem v)(p := b)\<rparr>"
  have "mapped ?v (region (a + 1) (length bs))"
    using Cons.prems(1) by (auto simp: mapped_def region_Suc)
  then obtain v' where v': "st_bytes ?v (a + 1) bs = Some v'" "ld_bytes v' (a + 1) (length bs) = Some bs"
    using Cons.IH [of ?v "a + 1"] Cons.prems(2) by auto
  have "pmem v' p = pmem ?v p"
  proof (rule st_bytes_frame [OF v'(1)])
    fix i assume i: "i < length bs"
    have "a + 1 + word_of_nat i \<in> region (a + 1) (length bs)" by (rule region_memI [OF i])
    moreover have "a \<notin> region (a + 1) (length bs)"
      using first_notin_region_next [of "length bs" a] Cons.prems(2) by simp
    ultimately show "translate ?v (a + 1 + word_of_nat i) \<noteq> Some p"
      using Cons.prems(1) p
      by (simp add: mapped_def region_Suc del: add_cancel_right_right) (metis imageI)
  qed
  moreover have "translate v' = translate v"
    using st_bytes_same_map [OF v'(1)] by (simp add: same_map_translate)
  ultimately have "ld8 v' a = Some b" using p by (simp add: ld8_def)
  with v' p show ?case by (simp add: st8_def)
qed

lemma ld8_st8:
  assumes "st8 v a b = Some v'"
  shows "ld8 v' c = (if translate v c = translate v a then Some b else ld8 v c)"
  using assms by (cases "translate v a") (auto simp: st8_def ld8_update)

section \<open>Windows\<close>

text \<open>
  \<open>changes A v v'\<close>: only physical bytes behind the addresses \<open>A\<close> differ.  \<open>window v a bs\<close>:
  the addresses from \<open>a\<close> on are mapped, do not wrap, and hold the bytes \<open>bs\<close>.  Stores into a
  window are list updates of its contents.
\<close>

definition changes :: "addr set \<Rightarrow> vmem \<Rightarrow> vmem \<Rightarrow> bool" where
  "changes A v v' \<longleftrightarrow> same_map v v' \<and> (\<forall>p. (\<forall>a\<in>A. translate v a \<noteq> Some p) \<longrightarrow> pmem v' p = pmem v p)"

definition window :: "vmem \<Rightarrow> addr \<Rightarrow> u8 list \<Rightarrow> bool" where
  "window v a bs \<longleftrightarrow> mapped v (region a (length bs)) \<and> unat a + length bs \<le> 2 ^ 32 \<and>
     ld_bytes v a (length bs) = Some bs"

lemma changes_refl [simp, intro!]: "changes A v v"
  by (simp add: changes_def)

lemma changes_trans [trans]: "changes A u v \<Longrightarrow> changes A v w \<Longrightarrow> changes A u w"
  by (auto simp: changes_def same_map_translate intro: same_map_trans)

lemma changes_mono: "changes A v v' \<Longrightarrow> A \<subseteq> B \<Longrightarrow> changes B v v'"
  by (auto simp: changes_def)

lemma changes_same_map: "changes A v v' \<Longrightarrow> same_map v v'"
  by (simp add: changes_def)

lemma changes_translate: "changes A v v' \<Longrightarrow> translate v' = translate v"
  by (simp add: changes_def same_map_translate)

lemma changes_mapped: "changes A v v' \<Longrightarrow> mapped v' B = mapped v B"
  by (simp add: changes_def mapped_same_map)

lemma st_bytes_changes:
  assumes "st_bytes v a bs = Some v'"
  shows "changes (region a (length bs)) v v'"
  unfolding changes_def
  using st_bytes_same_map [OF assms] st_bytes_frame [OF assms] region_memI by blast

lemma st8_changes: "st8 v a b = Some v' \<Longrightarrow> changes {a} v v'"
  using st_bytes_changes [of v a "[b]" v'] by (simp add: region_Suc)

text \<open>What is read through addresses that share no byte with \<open>A\<close> is unchanged.\<close>

definition apart :: "vmem \<Rightarrow> addr set \<Rightarrow> addr set \<Rightarrow> bool" where
  "apart v A B \<longleftrightarrow> (\<forall>a\<in>A. \<forall>b\<in>B. \<forall>p. translate v a = Some p \<longrightarrow> translate v b \<noteq> Some p)"

lemma apart_mapped: "mapped v (A \<union> B) \<Longrightarrow> A \<inter> B = {} \<Longrightarrow> apart v A B"
  unfolding apart_def mapped_def by (metis IntI Un_iff empty_iff inj_onD)

lemma apart_subset: "apart v A B \<Longrightarrow> A' \<subseteq> A \<Longrightarrow> B' \<subseteq> B \<Longrightarrow> apart v A' B'"
  unfolding apart_def by blast

lemma apart_same_map: "same_map v v' \<Longrightarrow> apart v' A B = apart v A B"
  by (simp add: apart_def same_map_translate)

lemma ld8_changes:
  assumes "changes A v v'" and "apart v A B" and "b \<in> B"
  shows "ld8 v' b = ld8 v b"
proof (cases "translate v b")
  case None
  then show ?thesis using changes_translate [OF assms(1)] by (simp add: ld8_def)
next
  case (Some p)
  then have "pmem v' p = pmem v p"
    using assms unfolding changes_def apart_def by blast
  with Some show ?thesis using changes_translate [OF assms(1)] by (simp add: ld8_def)
qed

lemma ld_bytes_changes:
  assumes "changes A v v'" and "apart v A (region b n)"
  shows "ld_bytes v' b n = ld_bytes v b n"
  using assms(2)
proof (induction n arbitrary: b)
  case 0
  then show ?case by simp
next
  case (Suc n)
  have "ld8 v' b = ld8 v b"
    by (rule ld8_changes [OF assms(1) Suc.prems]) (simp add: region_Suc)
  moreover have "ld_bytes v' (b + 1) n = ld_bytes v (b + 1) n"
    by (rule Suc.IH, rule apart_subset [OF Suc.prems]) (auto simp: region_Suc)
  ultimately show ?case by simp
qed

lemma windowD:
  assumes "window v a bs"
  shows "mapped v (region a (length bs))" "unat a + length bs \<le> 2 ^ 32" "ld_bytes v a (length bs) = Some bs"
  using assms by (simp_all add: window_def)

lemma window_exists:
  "mapped v (region a n) \<Longrightarrow> unat a + n \<le> 2 ^ 32 \<Longrightarrow> \<exists>bs. length bs = n \<and> window v a bs"
  using ld_bytes_mapped [of v a n] ld_bytes_length by (fastforce simp: window_def)

lemma window_nth: "window v a bs \<Longrightarrow> i < length bs \<Longrightarrow> ld8 v (a + word_of_nat i) = Some (bs ! i)"
  using ld_bytes_nth by (auto simp: window_def)

lemma window_translate: "window v a bs \<Longrightarrow> i < length bs \<Longrightarrow> \<exists>p. translate v (a + word_of_nat i) = Some p"
  using region_memI [of i "length bs" a] by (fastforce simp: window_def mapped_def)

lemma window_inj:
  assumes w: "window v a bs" and i: "i < length bs" and j: "j < length bs"
    and eq: "translate v (a + word_of_nat i) = translate v (a + word_of_nat j)"
  shows "i = j"
proof -
  have "inj_on (translate v) (region a (length bs))"
    using w by (simp add: window_def mapped_def)
  then have "a + word_of_nat i = a + word_of_nat j"
    using eq region_memI [OF i] region_memI [OF j] by (rule inj_onD)
  moreover have "unat (a + word_of_nat i) = unat a + i" "unat (a + word_of_nat j) = unat a + j"
    by (rule unat_add_nowrap [OF windowD(2) [OF w] i], rule unat_add_nowrap [OF windowD(2) [OF w] j])
  ultimately have "unat a + i = unat a + j" by metis
  then show ?thesis by (rule add_left_imp_eq)
qed

lemma window_st8:
  assumes w: "window v a bs" and i: "i < length bs"
  shows "\<exists>v'. st8 v (a + word_of_nat i) b = Some v' \<and> window v' a (bs[i := b]) \<and>
    changes (region a (length bs)) v v'"
proof -
  obtain p where p: "translate v (a + word_of_nat i) = Some p"
    using window_translate [OF assms] by blast
  then obtain v' where v': "st8 v (a + word_of_nat i) b = Some v'"
    by (simp add: st8_def)
  have ch: "changes (region a (length bs)) v v'"
    by (rule changes_mono [OF st8_changes [OF v']]) (use region_memI i in auto)
  have "ld_bytes v' a (length bs) = Some (bs[i := b])"
  proof (rule ld_bytesI)
    fix j assume "j < length bs"
    then show "ld8 v' (a + word_of_nat j) = Some (bs[i := b] ! j)"
      using ld8_st8 [OF v', of "a + word_of_nat j"] window_inj [OF w _ i, of j] window_nth [OF w, of j]
      by (cases "i = j") (auto simp: nth_list_update)
  qed simp
  with v' ch w show ?thesis
    using changes_mapped [OF ch] by (auto simp: window_def)
qed

lemma window_st_bytes:
  assumes "window v a bs" and "i + length cs \<le> length bs"
  shows "\<exists>v'. st_bytes v (a + word_of_nat i) cs = Some v' \<and>
    window v' a (take i bs @ cs @ drop (i + length cs) bs) \<and> changes (region a (length bs)) v v'"
  using assms
proof (induction cs arbitrary: v bs i)
  case Nil
  then show ?case by simp
next
  case (Cons c cs)
  from window_st8 [OF Cons.prems(1), of i c] Cons.prems(2)
  obtain v1 where v1: "st8 v (a + word_of_nat i) c = Some v1" "window v1 a (bs[i := c])"
    "changes (region a (length bs)) v v1" by auto
  from Cons.IH [OF v1(2), of "Suc i"] Cons.prems(2)
  obtain v2 where v2: "st_bytes v1 (a + word_of_nat (Suc i)) cs = Some v2"
    "window v2 a (take (Suc i) (bs[i := c]) @ cs @ drop (Suc i + length cs) (bs[i := c]))"
    "changes (region a (length bs)) v1 v2" by auto
  moreover have "take (Suc i) (bs[i := c]) @ cs @ drop (Suc i + length cs) (bs[i := c]) =
      take i bs @ (c # cs) @ drop (i + length (c # cs)) bs"
    using Cons.prems(2) by (simp add: take_Suc_conv_app_nth list_update_append)
  ultimately show ?case
    using v1 by (auto simp: algebra_simps intro: changes_trans)
qed

lemma window_ld_bytes:
  assumes "window v a bs" and "i + n \<le> length bs"
  shows "ld_bytes v (a + word_of_nat i) n = Some (take n (drop i bs))"
proof (rule ld_bytesI)
  fix j assume "j < n"
  then show "ld8 v (a + word_of_nat i + word_of_nat j) = Some (take n (drop i bs) ! j)"
    using window_nth [OF assms(1), of "i + j"] assms(2) by (simp add: add.assoc)
qed (use assms(2) in simp)

lemma window_changes:
  assumes "window v b bs" and "changes A v v'" and "apart v A (region b (length bs))"
  shows "window v' b bs"
  using assms ld_bytes_changes [OF assms(2,3)] changes_mapped [OF assms(2)] by (simp add: window_def)

text \<open>A machine before \<open>enable_paging\<close>: every address is its own physical address.\<close>

definition flat_vmem :: "(u32 \<Rightarrow> u8) \<Rightarrow> vmem" where
  "flat_vmem p = \<lparr>pmem = p, paging_on = False, page_directory = (\<lambda>_. 0), page_table = (\<lambda>_. 0),
     user_video_page_table = (\<lambda>_. 0), page_table_addr = 0x401000, user_video_page_table_addr = 0x402000\<rparr>"

lemma translate_flat [simp]: "translate (flat_vmem p) a = Some a"
  by (simp add: translate_def flat_vmem_def)

lemma mapped_flat [simp]: "mapped (flat_vmem p) A"
  by (simp add: mapped_def inj_on_def)

lemma pmem_flat [simp]: "pmem (flat_vmem p) = p"
  by (simp add: flat_vmem_def)

lemma ld8_flat [simp]: "ld8 (flat_vmem p) a = Some (p a)"
  by (simp add: ld8_def)

lemma st8_flat [simp]: "st8 (flat_vmem p) a b = Some (flat_vmem (p(a := b)))"
  by (simp add: st8_def) (simp add: flat_vmem_def)

definition flat_machine :: "(u32 \<Rightarrow> u8) \<Rightarrow> machine" where
  "flat_machine p = \<lparr>vm = flat_vmem p, io = [], iflag = False, screen_x = 0, screen_y = 0,
     master_mask = 0xFF, slave_mask = 0xFF, rate = 0, waiting = 0\<rparr>"

lemma flat_machine_fields [simp]:
  "vm (flat_machine p) = flat_vmem p" "io (flat_machine p) = []" "screen_x (flat_machine p) = 0"
  "screen_y (flat_machine p) = 0"
  by (simp_all add: flat_machine_def)

lemma apart_flat [simp]: "apart (flat_vmem p) A B \<longleftrightarrow> A \<inter> B = {}"
  by (auto simp: apart_def)

end
