(* ===== verification/Lib_Memory.thy ===== *)
theory Lib_Memory
  imports Machine
begin

text \<open>
  The memory routines of \<open>student-distrib/lib.c\<close> (lines 347 to 500): \<open>memset\<close>,
  \<open>memset_word\<close>, \<open>memset_dword\<close>, \<open>memcpy\<close> and \<open>memmove\<close>.  They are inline
  assembly in the source; each label of the assembly is one function here, with the registers it
  uses as arguments (\<open>edi\<close>, \<open>esi\<close> as addresses, the counters \<open>ecx\<close> and \<open>edx\<close> as
  natural numbers).  A \<open>movsl\<close> or \<open>stosl\<close> moves four bytes at once: it loads all four
  before it stores the first.

  The locale \<open>copy_routine\<close> is the contract of a copy: under the routine's own condition on
  overlap it is the same as reading all source bytes first and storing them afterwards.  It is
  interpreted for \<open>memcpy\<close> and for \<open>memmove\<close>.
\<close>

section \<open>The assembly loops\<close>

definition bytes_of_word :: "u32 \<Rightarrow> u8 list" where
  "bytes_of_word w = [ucast w, ucast (drop_bit 8 w), ucast (drop_bit 16 w), ucast (drop_bit 24 w)]"

fun rep_stosl :: "vmem \<Rightarrow> addr \<Rightarrow> u32 \<Rightarrow> nat \<Rightarrow> vmem option" where
  "rep_stosl v edi eax 0 = Some v"
| "rep_stosl v edi eax (Suc ecx) = do {
     v' \<leftarrow> st_bytes v edi (bytes_of_word eax);
     rep_stosl v' (edi + 4) eax ecx
   }"

fun memset_bottom :: "vmem \<Rightarrow> addr \<Rightarrow> u32 \<Rightarrow> nat \<Rightarrow> vmem option" where
  "memset_bottom v edi eax 0 = Some v"
| "memset_bottom v edi eax (Suc edx) = do {
     v' \<leftarrow> st8 v edi (ucast eax);
     memset_bottom v' (edi + 1) eax edx
   }"

definition memset_aligned :: "vmem \<Rightarrow> addr \<Rightarrow> u32 \<Rightarrow> nat \<Rightarrow> vmem option" where
  "memset_aligned v edi eax ecx = do {
     v' \<leftarrow> rep_stosl v edi eax (ecx div 4);
     memset_bottom v' (edi + word_of_nat (4 * (ecx div 4))) eax (ecx mod 4)
   }"

fun memset_top :: "vmem \<Rightarrow> addr \<Rightarrow> u32 \<Rightarrow> nat \<Rightarrow> vmem option" where
  "memset_top v edi eax 0 = Some v"
| "memset_top v edi eax (Suc ecx) =
     (if edi AND 3 = 0 then memset_aligned v edi eax (Suc ecx)
      else do {
        v' \<leftarrow> st8 v edi (ucast eax);
        memset_top v' (edi + 1) eax ecx
      })"

definition memset :: "vmem \<Rightarrow> addr \<Rightarrow> int \<Rightarrow> u32 \<Rightarrow> vmem option" where
  "memset v s c n =
     (let c = (word_of_int c :: u32) AND 0xFF
      in memset_top v s (push_bit 24 c OR push_bit 16 c OR push_bit 8 c OR c) (unat n))"

fun rep_stosw :: "vmem \<Rightarrow> addr \<Rightarrow> u32 \<Rightarrow> nat \<Rightarrow> vmem option" where
  "rep_stosw v edi eax 0 = Some v"
| "rep_stosw v edi eax (Suc ecx) = do {
     v' \<leftarrow> st_bytes v edi (take 2 (bytes_of_word eax));
     rep_stosw v' (edi + 2) eax ecx
   }"

definition memset_word :: "vmem \<Rightarrow> addr \<Rightarrow> int \<Rightarrow> u32 \<Rightarrow> vmem option" where
  "memset_word v s c n = rep_stosw v s (word_of_int c) (unat n)"

definition memset_dword :: "vmem \<Rightarrow> addr \<Rightarrow> int \<Rightarrow> u32 \<Rightarrow> vmem option" where
  "memset_dword v s c n = rep_stosl v s (word_of_int c) (unat n)"

fun rep_movsl :: "vmem \<Rightarrow> addr \<Rightarrow> addr \<Rightarrow> nat \<Rightarrow> vmem option" where
  "rep_movsl v edi esi 0 = Some v"
| "rep_movsl v edi esi (Suc ecx) = do {
     w \<leftarrow> ld_bytes v esi 4;
     v' \<leftarrow> st_bytes v edi w;
     rep_movsl v' (edi + 4) (esi + 4) ecx
   }"

fun memcpy_bottom :: "vmem \<Rightarrow> addr \<Rightarrow> addr \<Rightarrow> nat \<Rightarrow> vmem option" where
  "memcpy_bottom v edi esi 0 = Some v"
| "memcpy_bottom v edi esi (Suc edx) = do {
     al \<leftarrow> ld8 v esi;
     v' \<leftarrow> st8 v edi al;
     memcpy_bottom v' (edi + 1) (esi + 1) edx
   }"

definition memcpy_aligned :: "vmem \<Rightarrow> addr \<Rightarrow> addr \<Rightarrow> nat \<Rightarrow> vmem option" where
  "memcpy_aligned v edi esi ecx = do {
     v' \<leftarrow> rep_movsl v edi esi (ecx div 4);
     memcpy_bottom v' (edi + word_of_nat (4 * (ecx div 4))) (esi + word_of_nat (4 * (ecx div 4))) (ecx mod 4)
   }"

fun memcpy_top :: "vmem \<Rightarrow> addr \<Rightarrow> addr \<Rightarrow> nat \<Rightarrow> vmem option" where
  "memcpy_top v edi esi 0 = Some v"
| "memcpy_top v edi esi (Suc ecx) =
     (if edi AND 3 = 0 then memcpy_aligned v edi esi (Suc ecx)
      else do {
        al \<leftarrow> ld8 v esi;
        v' \<leftarrow> st8 v edi al;
        memcpy_top v' (edi + 1) (esi + 1) ecx
      })"

definition memcpy :: "vmem \<Rightarrow> addr \<Rightarrow> addr \<Rightarrow> u32 \<Rightarrow> vmem option" where
  "memcpy v dest src n = memcpy_top v dest src (unat n)"

text \<open>\<open>rep movsb\<close> with the direction flag clear (upwards) and set (downwards).\<close>

fun rep_movsb_up :: "vmem \<Rightarrow> addr \<Rightarrow> addr \<Rightarrow> nat \<Rightarrow> vmem option" where
  "rep_movsb_up v edi esi 0 = Some v"
| "rep_movsb_up v edi esi (Suc ecx) = do {
     b \<leftarrow> ld8 v esi;
     v' \<leftarrow> st8 v edi b;
     rep_movsb_up v' (edi + 1) (esi + 1) ecx
   }"

fun rep_movsb_down :: "vmem \<Rightarrow> addr \<Rightarrow> addr \<Rightarrow> nat \<Rightarrow> vmem option" where
  "rep_movsb_down v edi esi 0 = Some v"
| "rep_movsb_down v edi esi (Suc ecx) = do {
     b \<leftarrow> ld8 v esi;
     v' \<leftarrow> st8 v edi b;
     rep_movsb_down v' (edi - 1) (esi - 1) ecx
   }"

definition memmove :: "vmem \<Rightarrow> addr \<Rightarrow> addr \<Rightarrow> u32 \<Rightarrow> vmem option" where
  "memmove v dest src n =
     (if src \<ge> dest then rep_movsb_up v dest src (unat n)
      else rep_movsb_down v (dest + n - 1) (src + n - 1) (unat n))"

section \<open>Upward copies\<close>

text \<open>
  \<open>clear_up v d s n\<close>: no byte that an upward copy has written is a byte it still has to read.
\<close>

definition clear_up :: "vmem \<Rightarrow> addr \<Rightarrow> addr \<Rightarrow> nat \<Rightarrow> bool" where
  "clear_up v d s n \<longleftrightarrow>
     (\<forall>i < n. \<forall>j < i. \<forall>p. translate v (d + word_of_nat j) = Some p \<longrightarrow>
        translate v (s + word_of_nat i) \<noteq> Some p)"

lemma clear_upD:
  "clear_up v d s n \<Longrightarrow> j < i \<Longrightarrow> i < n \<Longrightarrow> translate v (d + word_of_nat j) = Some p \<Longrightarrow>
     translate v (s + word_of_nat i) \<noteq> Some p"
  by (simp add: clear_up_def)

lemma clear_up_shift:
  assumes "clear_up v d s (k + n)" and "same_map v v'"
  shows "clear_up v' (d + word_of_nat k) (s + word_of_nat k) n"
  unfolding clear_up_def
proof (intro allI impI)
  fix i j p
  assume "i < n" "j < i" "translate v' (d + word_of_nat k + word_of_nat j) = Some p"
  then show "translate v' (s + word_of_nat k + word_of_nat i) \<noteq> Some p"
    using clear_upD [OF assms(1), of "k + j" "k + i" p]
    by (simp add: same_map_translate [OF assms(2)] add.assoc)
qed

lemma clear_up_prefix: "clear_up v d s (m + n) \<Longrightarrow> clear_up v d s m"
  by (simp add: clear_up_def)

text \<open>Storing a prefix leaves the source bytes behind it as they were.\<close>

lemma ld_bytes_behind:
  assumes "clear_up v d s (length xs + n)" and "st_bytes v d xs = Some v'"
  shows "ld_bytes v' (s + word_of_nat (length xs)) n = ld_bytes v (s + word_of_nat (length xs)) n"
proof (rule ld_bytes_same_map)
  show "same_map v v'" using assms(2) by (rule st_bytes_same_map)
next
  fix i p
  assume i: "i < n" and p: "translate v (s + word_of_nat (length xs) + word_of_nat i) = Some p"
  show "pmem v' p = pmem v p"
  proof (rule st_bytes_frame [OF assms(2)])
    fix j assume "j < length xs"
    then show "translate v (d + word_of_nat j) \<noteq> Some p"
      using clear_upD [OF assms(1), of j "length xs + i" p] i p by (auto simp: add.assoc)
  qed
qed

text \<open>Reading and storing a prefix first, and the rest afterwards, is one read and one store.\<close>

lemma copy_split:
  assumes "clear_up v d s (m + n)"
    and "\<And>v'. same_map v v' \<Longrightarrow>
      rest v' = do { ys \<leftarrow> ld_bytes v' (s + word_of_nat m) n; st_bytes v' (d + word_of_nat m) ys }"
  shows "do { xs \<leftarrow> ld_bytes v s m; v' \<leftarrow> st_bytes v d xs; rest v' } =
         do { bs \<leftarrow> ld_bytes v s (m + n); st_bytes v d bs }"
proof (cases "ld_bytes v s m")
  case None
  then show ?thesis by (simp add: ld_bytes_append)
next
  case (Some xs)
  then have len: "length xs = m" by (rule ld_bytes_length)
  show ?thesis
  proof (cases "st_bytes v d xs")
    case None
    then show ?thesis
      using Some by (simp add: ld_bytes_append st_bytes_append split: Option.bind_splits)
  next
    case (Some v')
    have "ld_bytes v' (s + word_of_nat m) n = ld_bytes v (s + word_of_nat m) n"
      using ld_bytes_behind [of v d s xs n v'] assms(1) Some len by simp
    then show ?thesis
      using \<open>ld_bytes v s m = Some xs\<close> Some len assms(2) [OF st_bytes_same_map [OF Some]]
      by (simp add: ld_bytes_append st_bytes_append split: Option.bind_splits)
  qed
qed

lemma rep_movsb_up_eq:
  "clear_up v d s n \<Longrightarrow> rep_movsb_up v d s n = do { bs \<leftarrow> ld_bytes v s n; st_bytes v d bs }"
proof (induction n arbitrary: v d s)
  case 0
  then show ?case by simp
next
  case (Suc n)
  have rest: "rep_movsb_up v' (d + 1) (s + 1) n =
      do { ys \<leftarrow> ld_bytes v' (s + word_of_nat 1) n; st_bytes v' (d + word_of_nat 1) ys }"
    if "same_map v v'" for v'
    using Suc.IH clear_up_shift [of v d s 1 n v'] Suc.prems that by simp
  show ?case
    using copy_split [of v d s 1 n "\<lambda>v'. rep_movsb_up v' (d + 1) (s + 1) n", OF _ rest] Suc.prems
    by (simp split: Option.bind_splits)
qed

lemma memcpy_bottom_eq: "memcpy_bottom v d s n = rep_movsb_up v d s n"
  by (induction n arbitrary: v d s) simp_all

lemma rep_movsl_eq:
  "clear_up v d s (4 * n) \<Longrightarrow>
     rep_movsl v d s n = do { bs \<leftarrow> ld_bytes v s (4 * n); st_bytes v d bs }"
proof (induction n arbitrary: v d s)
  case 0
  then show ?case by simp
next
  case (Suc n)
  have prem: "clear_up v d s (4 + 4 * n)" using Suc.prems by simp
  have rest: "rep_movsl v' (d + 4) (s + 4) n =
      do { ys \<leftarrow> ld_bytes v' (s + word_of_nat 4) (4 * n); st_bytes v' (d + word_of_nat 4) ys }"
    if "same_map v v'" for v'
    using Suc.IH clear_up_shift [OF prem that] by simp
  have four: "4 * Suc n = 4 + 4 * n" by simp
  show ?case
    unfolding four by (simp only: rep_movsl.simps copy_split [OF prem rest])
qed

lemma memcpy_aligned_eq:
  assumes "clear_up v d s n"
  shows "memcpy_aligned v d s n = do { bs \<leftarrow> ld_bytes v s n; st_bytes v d bs }"
proof -
  have n: "n = 4 * (n div 4) + n mod 4" by simp
  let ?m = "4 * (n div 4)"
  have prem: "clear_up v d s (?m + n mod 4)" using assms by simp
  have rest: "memcpy_bottom v' (d + word_of_nat ?m) (s + word_of_nat ?m) (n mod 4) =
      do { ys \<leftarrow> ld_bytes v' (s + word_of_nat ?m) (n mod 4); st_bytes v' (d + word_of_nat ?m) ys }"
    if "same_map v v'" for v'
    unfolding memcpy_bottom_eq by (rule rep_movsb_up_eq [OF clear_up_shift [OF prem that]])
  show ?thesis
    using copy_split [OF prem rest] rep_movsl_eq [OF clear_up_prefix [OF prem]]
    by (simp add: memcpy_aligned_def)
qed

lemma memcpy_top_eq:
  "clear_up v d s n \<Longrightarrow> memcpy_top v d s n = do { bs \<leftarrow> ld_bytes v s n; st_bytes v d bs }"
proof (induction n arbitrary: v d s)
  case 0
  then show ?case by simp
next
  case (Suc n)
  have rest: "memcpy_top v' (d + 1) (s + 1) n =
      do { ys \<leftarrow> ld_bytes v' (s + word_of_nat 1) n; st_bytes v' (d + word_of_nat 1) ys }"
    if "same_map v v'" for v'
    using Suc.IH clear_up_shift [of v d s 1 n v'] Suc.prems that by simp
  show ?case
    using copy_split [of v d s 1 n "\<lambda>v'. memcpy_top v' (d + 1) (s + 1) n", OF _ rest] Suc.prems
      memcpy_aligned_eq [OF Suc.prems]
    by (simp split: Option.bind_splits)
qed

section \<open>Filling\<close>

lemma memset_bottom_eq: "memset_bottom v d w n = st_bytes v d (replicate n (ucast w))"
  by (induction n arbitrary: v d) simp_all

lemma rep_stosl_eq:
  "bytes_of_word w = replicate 4 b \<Longrightarrow> rep_stosl v d w n = st_bytes v d (replicate (4 * n) b)"
proof (induction n arbitrary: v d)
  case 0
  then show ?case by simp
next
  case (Suc n)
  have "replicate (4 * Suc n) b = replicate 4 b @ replicate (4 * n) b"
    by (simp flip: replicate_add)
  then show ?case using Suc by (simp add: st_bytes_append)
qed

lemma memset_aligned_eq:
  assumes "bytes_of_word w = replicate 4 b"
  shows "memset_aligned v d w n = st_bytes v d (replicate n b)"
proof -
  have "ucast w = b" using assms by (simp add: bytes_of_word_def numeral_nat)
  moreover have "replicate n b = replicate (4 * (n div 4)) b @ replicate (n mod 4) b"
    by (simp flip: replicate_add)
  ultimately show ?thesis
    using st_bytes_append [of v d "replicate (4 * (n div 4)) b" "replicate (n mod 4) b"]
    by (simp add: memset_aligned_def memset_bottom_eq rep_stosl_eq [OF assms])
qed

lemma memset_top_eq:
  assumes "bytes_of_word w = replicate 4 b"
  shows "memset_top v d w n = st_bytes v d (replicate n b)"
proof (induction n arbitrary: v d)
  case 0
  then show ?case by simp
next
  case (Suc n)
  have "ucast w = b" using assms by (simp add: bytes_of_word_def numeral_nat)
  then show ?case
    using Suc.IH memset_aligned_eq [OF assms, of v d "Suc n"] by simp
qed

lemma bytes_of_spread:
  fixes c :: u32
  assumes "take_bit 8 c = c"
  shows "bytes_of_word (push_bit 24 c OR push_bit 16 c OR push_bit 8 c OR c) = replicate 4 (ucast c)"
proof -
  have hi: "\<not> bit c k" if "8 \<le> k" for k
    using that assms by (metis bit_take_bit_iff not_le)
  have "ucast (push_bit 24 c OR push_bit 16 c OR push_bit 8 c OR c) = (ucast c :: u8)"
    by (rule bit_word_eqI) (simp only: bit_simps; auto)
  moreover have "ucast (drop_bit 8 (push_bit 24 c OR push_bit 16 c OR push_bit 8 c OR c)) = (ucast c :: u8)"
    by (rule bit_word_eqI) (simp only: bit_simps o_apply; auto simp: hi)
  moreover have "ucast (drop_bit 16 (push_bit 24 c OR push_bit 16 c OR push_bit 8 c OR c)) = (ucast c :: u8)"
    by (rule bit_word_eqI) (simp only: bit_simps o_apply; auto simp: hi)
  moreover have "ucast (drop_bit 24 (push_bit 24 c OR push_bit 16 c OR push_bit 8 c OR c)) = (ucast c :: u8)"
    by (rule bit_word_eqI) (simp only: bit_simps o_apply; auto simp: hi)
  ultimately show ?thesis
    by (simp only: bytes_of_word_def replicate_4)
qed

lemma memset_eq: "memset v s c n = st_bytes v s (replicate (unat n) (word_of_int c))"
proof -
  let ?c = "take_bit 8 (word_of_int c :: u32)"
  have "ucast ?c = (word_of_int c :: u8)"
    by (rule bit_word_eqI) (simp only: bit_simps; auto)
  moreover have "take_bit 8 ?c = ?c" by simp
  ultimately show ?thesis
    using memset_top_eq [OF bytes_of_spread [of ?c]] by (simp only: memset_def Let_def and_0xFF)
qed

section \<open>Downward copies\<close>

lemma st8_commute:
  assumes "\<And>p. translate v a = Some p \<Longrightarrow> translate v c \<noteq> Some p"
  shows "do { v' \<leftarrow> st8 v c x; st8 v' a y } = do { v' \<leftarrow> st8 v a y; st8 v' c x }"
  using assms
  by (cases "translate v a"; cases "translate v c") (auto simp: st8_def fun_upd_twist)

lemma st8_st_bytes_commute:
  assumes "\<And>i p. i < length bs \<Longrightarrow> translate v (a + word_of_nat i) = Some p \<Longrightarrow> translate v c \<noteq> Some p"
  shows "do { v' \<leftarrow> st8 v c x; st_bytes v' a bs } = do { v' \<leftarrow> st_bytes v a bs; st8 v' c x }"
  using assms
proof (induction bs arbitrary: v a)
  case Nil
  then show ?case by simp
next
  case (Cons b bs)
  have swap: "do { v' \<leftarrow> st8 v c x; st8 v' a b } = do { v' \<leftarrow> st8 v a b; st8 v' c x }"
    by (rule st8_commute) (use Cons.prems [of 0] in simp)
  have "do { v' \<leftarrow> st8 v c x; st_bytes v' a (b # bs) } =
        do { v1 \<leftarrow> do { v' \<leftarrow> st8 v c x; st8 v' a b }; st_bytes v1 (a + 1) bs }"
    by simp
  also have "\<dots> = do { v1 \<leftarrow> st8 v a b; v2 \<leftarrow> st8 v1 c x; st_bytes v2 (a + 1) bs }"
    by (simp add: swap)
  also have "\<dots> = do { v1 \<leftarrow> st8 v a b; v2 \<leftarrow> st_bytes v1 (a + 1) bs; st8 v2 c x }"
  proof (cases "st8 v a b")
    case None
    then show ?thesis by simp
  next
    case (Some v1)
    have "do { v2 \<leftarrow> st8 v1 c x; st_bytes v2 (a + 1) bs } = do { v2 \<leftarrow> st_bytes v1 (a + 1) bs; st8 v2 c x }"
    proof (rule Cons.IH)
      fix i p
      assume "i < length bs" "translate v1 (a + 1 + word_of_nat i) = Some p"
      then show "translate v1 c \<noteq> Some p"
        using Cons.prems [of "Suc i" p] by (simp add: same_map_translate [OF st8_same_map [OF Some]] add.assoc)
    qed
    with Some show ?thesis by simp
  qed
  finally show ?case by simp
qed

lemma rep_movsb_down_eq:
  assumes "\<And>i j p. i < j \<Longrightarrow> j < n \<Longrightarrow> translate v (d + word_of_nat j) = Some p \<Longrightarrow>
      translate v (s + word_of_nat i) \<noteq> Some p \<and> translate v (d + word_of_nat i) \<noteq> Some p"
  shows "rep_movsb_down v (d + word_of_nat n - 1) (s + word_of_nat n - 1) n =
      do { bs \<leftarrow> ld_bytes v s n; st_bytes v d bs }"
  using assms
proof (induction n arbitrary: v)
  case 0
  then show ?case by simp
next
  case (Suc n)
  show ?case
  proof (cases "ld8 v (s + word_of_nat n)")
    case None
    then show ?thesis using ld_bytes_append [of v s n 1] by (simp split: Option.bind_splits)
  next
    case (Some b)
    note b = Some
    have rd: "ld_bytes v s (Suc n) = map_option (\<lambda>xs. xs @ [b]) (ld_bytes v s n)"
      using ld_bytes_append [of v s n 1] b by (cases "ld_bytes v s n") simp_all
    have down: "do { v' \<leftarrow> st8 v (d + word_of_nat n) b;
                     rep_movsb_down v' (d + word_of_nat n - 1) (s + word_of_nat n - 1) n } =
                do { v' \<leftarrow> st8 v (d + word_of_nat n) b; xs \<leftarrow> ld_bytes v s n; st_bytes v' d xs }"
    proof (cases "st8 v (d + word_of_nat n) b")
      case None
      then show ?thesis by simp
    next
      case (Some v')
      then obtain q where q: "translate v (d + word_of_nat n) = Some q"
        and v': "v' = v\<lparr>pmem := (pmem v)(q := b)\<rparr>"
        by (auto simp: st8_def)
      have "rep_movsb_down v' (d + word_of_nat n - 1) (s + word_of_nat n - 1) n =
          do { bs \<leftarrow> ld_bytes v' s n; st_bytes v' d bs }"
        by (rule Suc.IH) (use Suc.prems in \<open>simp add: v'\<close>)
      moreover have "ld_bytes v' s n = ld_bytes v s n"
        by (rule ld_bytes_same_map) (use Suc.prems [of _ n q] q in \<open>auto simp: v'\<close>)
      ultimately show ?thesis using Some by simp
    qed
    have swap: "do { v' \<leftarrow> st8 v (d + word_of_nat n) b; st_bytes v' d xs } =
        do { v' \<leftarrow> st_bytes v d xs; st8 v' (d + word_of_nat n) b }" if "length xs = n" for xs
      by (rule st8_st_bytes_commute) (use Suc.prems [of _ n] that in auto)
    show ?thesis
    proof (cases "ld_bytes v s n")
      case None
      then show ?thesis using down b rd by (simp split: Option.bind_splits)
    next
      case (Some xs)
      then have "length xs = n" by (rule ld_bytes_length)
      then show ?thesis
        using down b rd Some swap [of xs] by (simp add: st_bytes_append split: Option.bind_splits)
    qed
  qed
qed

section \<open>The contract of a copy\<close>

locale copy_routine =
  fixes copy :: "vmem \<Rightarrow> addr \<Rightarrow> addr \<Rightarrow> u32 \<Rightarrow> vmem option"
    and ok :: "vmem \<Rightarrow> addr \<Rightarrow> addr \<Rightarrow> nat \<Rightarrow> bool"
  assumes copy_eq: "ok v d s (unat n) \<Longrightarrow> copy v d s n = do { bs \<leftarrow> ld_bytes v s (unat n); st_bytes v d bs }"
begin

lemma copy_keeps_map:
  assumes "ok v d s (unat n)" and "copy v d s n = Some v'"
  shows "same_map v v'"
  using assms copy_eq [OF assms(1)] by (auto split: Option.bind_splits intro: st_bytes_same_map)

lemma copy_frame:
  assumes "ok v d s (unat n)" and "copy v d s n = Some v'"
    and "\<And>i. i < unat n \<Longrightarrow> translate v (d + word_of_nat i) \<noteq> Some p"
  shows "pmem v' p = pmem v p"
proof -
  from assms(2) copy_eq [OF assms(1)] obtain bs
    where "ld_bytes v s (unat n) = Some bs" and "st_bytes v d bs = Some v'"
    by (auto split: Option.bind_splits)
  then show ?thesis
    using assms(3) by (metis st_bytes_frame ld_bytes_length)
qed

lemma copy_correct:
  assumes "ok v d s (unat n)" and "mapped v (region d (unat n))" and "mapped v (region s (unat n))"
  shows "\<exists>v' bs. copy v d s n = Some v' \<and> same_map v v' \<and>
    ld_bytes v s (unat n) = Some bs \<and> ld_bytes v' d (unat n) = Some bs"
proof -
  obtain bs where bs: "ld_bytes v s (unat n) = Some bs"
    using ld_bytes_mapped [OF assms(3)] by blast
  then have len: "length bs = unat n" by (rule ld_bytes_length)
  have "unat n < 2 ^ 32" using unsigned_less [of n] by simp
  then obtain v' where v': "st_bytes v d bs = Some v'" "ld_bytes v' d (unat n) = Some bs"
    using st_bytes_mapped [of v d bs] assms(2) len by auto
  then show ?thesis
    using copy_eq [OF assms(1)] bs st_bytes_same_map [OF v'(1)] by simp
qed

end

interpretation cpy: copy_routine memcpy clear_up
  by unfold_locales (simp add: memcpy_def memcpy_top_eq)

text \<open>
  \<open>memmove\<close> needs no condition on how source and destination overlap, only that neither wraps
  around the end of the address space and that distinct addresses are distinct bytes.
\<close>

definition move_ok :: "vmem \<Rightarrow> addr \<Rightarrow> addr \<Rightarrow> nat \<Rightarrow> bool" where
  "move_ok v d s n \<longleftrightarrow> unat d + n \<le> 2 ^ 32 \<and> unat s + n \<le> 2 ^ 32 \<and> mapped v (region d n \<union> region s n)"

lemma move_ok_eqD:
  assumes "move_ok v d s n" and "i < n" and "j < n"
    and "translate v (d + word_of_nat j) = Some p" and "translate v (s + word_of_nat i) = Some p"
  shows "unat d + j = unat s + i"
proof -
  have "d + word_of_nat j = s + word_of_nat i"
    using assms region_memI [OF assms(3), of d] region_memI [OF assms(2), of s]
    by (simp add: move_ok_def mapped_def inj_on_def)
  then show ?thesis
    using unat_add_nowrap [of d n j] unat_add_nowrap [of s n i] assms(1-3) by (simp add: move_ok_def)
qed

lemma move_ok_dest:
  assumes "move_ok v d s n" and "i < j" and "j < n" and "translate v (d + word_of_nat j) = Some p"
  shows "translate v (d + word_of_nat i) \<noteq> Some p"
proof
  assume i: "translate v (d + word_of_nat i) = Some p"
  have "inj_on (translate v) (region d n \<union> region s n)"
    using assms(1) by (simp add: move_ok_def mapped_def)
  then have "d + word_of_nat i = d + word_of_nat j"
    by (rule inj_onD) (use i assms region_memI [of i n d] region_memI [of j n d] in simp_all)
  then show False
    using unat_add_nowrap [of d n j] unat_add_nowrap [of d n i] assms(1-3) by (simp add: move_ok_def)
qed

interpretation mov: copy_routine memmove move_ok
proof
  fix v d s and n :: u32
  assume ok: "move_ok v d s (unat n)"
  show "memmove v d s n = do { bs \<leftarrow> ld_bytes v s (unat n); st_bytes v d bs }"
  proof (cases "d \<le> s")
    case True
    then have "unat d \<le> unat s" by (simp add: word_le_nat_alt)
    then have "clear_up v d s (unat n)"
      unfolding clear_up_def
    proof (intro allI impI notI)
      fix i j p
      assume "unat d \<le> unat s" "i < unat n" "j < i"
        and "translate v (d + word_of_nat j) = Some p" "translate v (s + word_of_nat i) = Some p"
      then show False using move_ok_eqD [OF ok, of i j p] by simp
    qed
    with True show ?thesis by (simp add: memmove_def rep_movsb_up_eq)
  next
    case False
    then have less: "unat s < unat d" by (simp add: word_le_nat_alt not_le)
    have "rep_movsb_down v (d + word_of_nat (unat n) - 1) (s + word_of_nat (unat n) - 1) (unat n) =
        do { bs \<leftarrow> ld_bytes v s (unat n); st_bytes v d bs }"
    proof (rule rep_movsb_down_eq, intro conjI)
      fix i j p
      assume ij: "i < j" "j < unat n" and p: "translate v (d + word_of_nat j) = Some p"
      show "translate v (s + word_of_nat i) \<noteq> Some p"
        using move_ok_eqD [OF ok, of i j p] ij p less by auto
      show "translate v (d + word_of_nat i) \<noteq> Some p"
        by (rule move_ok_dest [OF ok ij p])
    qed
    with False show ?thesis by (simp add: memmove_def)
  qed
qed

section \<open>Properties\<close>

lemma clear_up_disjoint:
  assumes "mapped v (region d n \<union> region s n)" and "region d n \<inter> region s n = {}"
  shows "clear_up v d s n"
  unfolding clear_up_def
proof (intro allI impI notI)
  fix i j p
  assume "i < n" "j < i" and p: "translate v (d + word_of_nat j) = Some p" "translate v (s + word_of_nat i) = Some p"
  then have mem: "d + word_of_nat j \<in> region d n" "s + word_of_nat i \<in> region s n"
    by (auto intro: region_memI)
  from assms(1) have "inj_on (translate v) (region d n \<union> region s n)" by (simp add: mapped_def)
  then have "d + word_of_nat j = s + word_of_nat i"
    by (rule inj_onD) (use p mem in simp_all)
  with mem assms(2) show False by auto
qed

lemma memcpy_disjoint:
  assumes "mapped v (region dest (unat n) \<union> region src (unat n))"
    and "region dest (unat n) \<inter> region src (unat n) = {}"
  shows "\<exists>v' bs. memcpy v dest src n = Some v' \<and> changes (region dest (unat n)) v v' \<and>
    ld_bytes v src (unat n) = Some bs \<and> ld_bytes v' dest (unat n) = Some bs"
proof -
  have ok: "clear_up v dest src (unat n)" using assms by (rule clear_up_disjoint)
  have m: "mapped v (region dest (unat n))" "mapped v (region src (unat n))"
    using assms(1) by (auto elim: mapped_subset)
  from cpy.copy_correct [OF ok m] obtain v' bs where v': "memcpy v dest src n = Some v'" "same_map v v'"
    "ld_bytes v src (unat n) = Some bs" "ld_bytes v' dest (unat n) = Some bs" by blast
  moreover have "changes (region dest (unat n)) v v'"
    unfolding changes_def using v' cpy.copy_frame [OF ok v'(1)] region_memI by blast
  ultimately show ?thesis by blast
qed

text \<open>
  \<open>memcpy\<close> on mapped, disjoint source and destination returns, whatever the alignment of
  the destination; afterwards the destination holds exactly the bytes the source held, and no
  physical byte outside the destination has changed.
\<close>

theorem memcpy_correct:
  assumes "mapped v (region dest (unat n) \<union> region src (unat n))"
    and "region dest (unat n) \<inter> region src (unat n) = {}"
  shows "\<exists>v' bs. memcpy v dest src n = Some v' \<and> same_map v v' \<and>
    ld_bytes v src (unat n) = Some bs \<and> ld_bytes v' dest (unat n) = Some bs \<and>
    (\<forall>p. (\<forall>i < unat n. translate v (dest + word_of_nat i) \<noteq> Some p) \<longrightarrow> pmem v' p = pmem v p)"
proof -
  have ok: "clear_up v dest src (unat n)" using assms by (rule clear_up_disjoint)
  have m: "mapped v (region dest (unat n))" "mapped v (region src (unat n))"
    using assms(1) by (auto elim: mapped_subset)
  from cpy.copy_correct [OF ok m] show ?thesis
    using cpy.copy_frame [OF ok] by blast
qed

theorem memcpy_correct_witness:
  "\<exists>v' bs. memcpy (flat_vmem (\<lambda>a. ucast a)) 0x101 0x200 7 = Some v' \<and>
    ld_bytes (flat_vmem (\<lambda>a. ucast a)) 0x200 7 = Some bs \<and> ld_bytes v' 0x101 7 = Some bs"
proof -
  have "region (0x101 :: addr) (unat (7 :: u32)) \<inter> region 0x200 (unat (7 :: u32)) = {}"
    by (rule region_disjoint) simp_all
  from memcpy_correct [OF mapped_flat this, of "\<lambda>a. ucast a"] show ?thesis by auto
qed

text \<open>
  C23: \<open>memmove\<close> is correct for overlapping source and destination too: unless one of them runs
  over the end of the address space, it returns, and the destination then holds the bytes the
  source held before the call; nothing outside the destination changes.
\<close>

theorem memmove_correct:
  assumes "mapped v (region dest (unat n) \<union> region src (unat n))"
    and "unat dest + unat n \<le> 2 ^ 32" and "unat src + unat n \<le> 2 ^ 32"
  shows "\<exists>v' bs. memmove v dest src n = Some v' \<and> same_map v v' \<and>
    ld_bytes v src (unat n) = Some bs \<and> ld_bytes v' dest (unat n) = Some bs \<and>
    (\<forall>p. (\<forall>i < unat n. translate v (dest + word_of_nat i) \<noteq> Some p) \<longrightarrow> pmem v' p = pmem v p)"
proof -
  have ok: "move_ok v dest src (unat n)" using assms by (simp add: move_ok_def)
  have m: "mapped v (region dest (unat n))" "mapped v (region src (unat n))"
    using assms(1) by (auto elim: mapped_subset)
  from mov.copy_correct [OF ok m] show ?thesis
    using mov.copy_frame [OF ok] by blast
qed

theorem memmove_correct_witness:
  "\<exists>v' bs. memmove (flat_vmem (\<lambda>a. ucast a)) 0x202 0x200 5 = Some v' \<and>
    ld_bytes (flat_vmem (\<lambda>a. ucast a)) 0x200 5 = Some bs \<and> ld_bytes v' 0x202 5 = Some bs"
  using memmove_correct [OF mapped_flat, of "0x202" 5 "0x200" "\<lambda>a. ucast a"] by auto

text \<open>
  C24: \<open>memset\<close>, which fills by four-byte stores once the destination is aligned, sets each of
  the \<open>n\<close> bytes to the low byte of \<open>c\<close> and no other byte of physical memory.
\<close>

theorem memset_correct:
  assumes "mapped v (region s (unat n))"
  shows "\<exists>v'. memset v s c n = Some v' \<and> same_map v v' \<and>
    ld_bytes v' s (unat n) = Some (replicate (unat n) (word_of_int c)) \<and>
    (\<forall>p. (\<forall>i < unat n. translate v (s + word_of_nat i) \<noteq> Some p) \<longrightarrow> pmem v' p = pmem v p)"
proof -
  let ?bs = "replicate (unat n) (word_of_int c :: u8)"
  have "unat n < 2 ^ 32" using unsigned_less [of n] by simp
  then obtain v' where v': "st_bytes v s ?bs = Some v'" "ld_bytes v' s (unat n) = Some ?bs"
    using st_bytes_mapped [of v s ?bs] assms by auto
  then show ?thesis
    using st_bytes_same_map [OF v'(1)] st_bytes_frame [OF v'(1)] by (simp add: memset_eq)
qed

theorem memset_correct_witness:
  "\<exists>v'. memset (flat_vmem (\<lambda>a. ucast a)) 0x203 (-1) 6 = Some v' \<and>
    ld_bytes v' 0x203 6 = Some (replicate 6 0xFF)"
  using memset_correct [OF mapped_flat, of "\<lambda>a. ucast a" "0x203" "-1" 6] by auto

end
