(* ===== verification/Lib_String.thy ===== *)
theory Lib_String
  imports Lib_Memory
begin

text \<open>
  The string routines of \<open>student-distrib/lib.c\<close> (lines 279 to 345 and 502 to 561).

  \<open>strlen\<close>, \<open>strncmp\<close>, \<open>strcpy\<close> and \<open>strncpy\<close> walk through memory until they meet a
  NUL byte; nothing bounds the walk, so they are \<^theory_text>\<open>partial_function (option)\<close> and \<open>None\<close>
  is a page fault (or a walk that never ends).  \<open>cstring v a bs\<close> says that the bytes \<open>bs\<close>
  and a NUL stand at \<open>a\<close>; on such memory every routine returns.

  \<open>itoa\<close> and \<open>strrev\<close> work in a caller's local array, which is a list here: the bytes of the
  array before the terminating NUL.

  The locale \<open>string_length\<close> is the contract a length routine keeps.
\<close>

definition cstring :: "vmem \<Rightarrow> addr \<Rightarrow> u8 list \<Rightarrow> bool" where
  "cstring v a bs \<longleftrightarrow> ld_bytes v a (Suc (length bs)) = Some (bs @ [0]) \<and> 0 \<notin> set bs \<and> length bs < 2 ^ 31"

section \<open>Definitions\<close>

partial_function (option) strlen_from :: "vmem \<Rightarrow> addr \<Rightarrow> u32 \<Rightarrow> u32 option" where
  "strlen_from v s len = do {
     c \<leftarrow> ld8 v (s + len);
     if c \<noteq> 0 then strlen_from v s (len + 1) else Some len
   }"

definition strlen :: "vmem \<Rightarrow> addr \<Rightarrow> u32 option" where
  "strlen v s = strlen_from v s 0"

partial_function (option) strncmp_from :: "vmem \<Rightarrow> addr \<Rightarrow> addr \<Rightarrow> u32 \<Rightarrow> u32 \<Rightarrow> int option" where
  "strncmp_from v s1 s2 n i =
     (if i < n then do {
        c1 \<leftarrow> ld8 v (s1 + i);
        c2 \<leftarrow> ld8 v (s2 + i);
        if c1 \<noteq> c2 \<or> c1 = 0 then Some (sint c1 - sint c2)
        else strncmp_from v s1 s2 n (i + 1)
      }
      else Some 0)"

definition strncmp :: "vmem \<Rightarrow> addr \<Rightarrow> addr \<Rightarrow> u32 \<Rightarrow> int option" where
  "strncmp v s1 s2 n = strncmp_from v s1 s2 n 0"

partial_function (option) strcpy_from :: "vmem \<Rightarrow> addr \<Rightarrow> addr \<Rightarrow> u32 \<Rightarrow> vmem option" where
  "strcpy_from v dest src i = do {
     c \<leftarrow> ld8 v (src + i);
     if c \<noteq> 0 then do { v' \<leftarrow> st8 v (dest + i) c; strcpy_from v' dest src (i + 1) }
     else st8 v (dest + i) 0
   }"

definition strcpy :: "vmem \<Rightarrow> addr \<Rightarrow> addr \<Rightarrow> vmem option" where
  "strcpy v dest src = strcpy_from v dest src 0"

partial_function (option) strncpy_pad :: "vmem \<Rightarrow> addr \<Rightarrow> u32 \<Rightarrow> u32 \<Rightarrow> vmem option" where
  "strncpy_pad v dest n i =
     (if i < n then do { v' \<leftarrow> st8 v (dest + i) 0; strncpy_pad v' dest n (i + 1) } else Some v)"

partial_function (option) strncpy_from :: "vmem \<Rightarrow> addr \<Rightarrow> addr \<Rightarrow> u32 \<Rightarrow> u32 \<Rightarrow> vmem option" where
  "strncpy_from v dest src n i = do {
     c \<leftarrow> ld8 v (src + i);
     if c \<noteq> 0 \<and> i < n then do { v' \<leftarrow> st8 v (dest + i) c; strncpy_from v' dest src n (i + 1) }
     else strncpy_pad v dest n i
   }"

definition strncpy :: "vmem \<Rightarrow> addr \<Rightarrow> addr \<Rightarrow> u32 \<Rightarrow> vmem option" where
  "strncpy v dest src n = strncpy_from v dest src n 0"

function strrev_loop :: "u8 list \<Rightarrow> int \<Rightarrow> int \<Rightarrow> u8 list" where
  "strrev_loop s b e =
     (if b < e then strrev_loop (s[nat e := s ! nat b, nat b := s ! nat e]) (b + 1) (e - 1) else s)"
  by pat_completeness auto
termination
  by (relation "measure (\<lambda>(s, b, e). nat (e - b))") auto

declare strrev_loop.simps [simp del]

definition strrev :: "u8 list \<Rightarrow> u8 list" where
  "strrev s = strrev_loop s 0 (int (length s) - 1)"

definition itoa_lookup :: "u8 list" where
  "itoa_lookup = map of_char ''0123456789ABCDEFGHIJKLMNOPQRSTUVWXYZ'' @ [0]"

partial_function (option) itoa_loop :: "u32 \<Rightarrow> u32 \<Rightarrow> u8 list \<Rightarrow> u8 list option" where
  "itoa_loop newval radix buf =
     (if newval > 0 then
        (if radix = 0 then None
         else if unat (newval mod radix) < length itoa_lookup then
           itoa_loop (newval div radix) radix (buf @ [itoa_lookup ! unat (newval mod radix)])
         else None)
      else Some buf)"

definition itoa :: "u32 \<Rightarrow> int \<Rightarrow> u8 list option" where
  "itoa value radix =
     (if value = 0 then Some [of_char (CHR ''0'')]
      else map_option strrev (itoa_loop value (word_of_int radix) []))"

section \<open>Strings in memory\<close>

lemma cstring_nth: "cstring v a bs \<Longrightarrow> i < length bs \<Longrightarrow> ld8 v (a + word_of_nat i) = Some (bs ! i) \<and> bs ! i \<noteq> 0"
  unfolding cstring_def using ld_bytes_nth [of v a "Suc (length bs)" "bs @ [0]" i]
  by (auto simp: nth_append) (metis nth_mem)

lemma cstring_end: "cstring v a bs \<Longrightarrow> ld8 v (a + word_of_nat (length bs)) = Some 0"
  unfolding cstring_def using ld_bytes_nth [of v a "Suc (length bs)" "bs @ [0]" "length bs"]
  by (auto simp: nth_append)

lemma cstring_Nil: "cstring v a [] \<longleftrightarrow> ld8 v a = Some 0"
  by (auto simp: cstring_def split: Option.bind_splits)

lemma cstring_Cons: "cstring v a (c # cs) \<Longrightarrow> ld8 v a = Some c \<and> c \<noteq> 0 \<and> cstring v (a + 1) cs"
  by (auto simp: cstring_def split: Option.bind_splits)

lemma cstring_changes:
  "cstring v a bs \<Longrightarrow> changes A v v' \<Longrightarrow> apart v A (region a (Suc (length bs))) \<Longrightarrow> cstring v' a bs"
  using ld_bytes_changes [of A v v' a "Suc (length bs)"] by (simp add: cstring_def)

lemma strlen_from_cstring:
  assumes "cstring v a bs"
  shows "k \<le> length bs \<Longrightarrow> strlen_from v a (word_of_nat k) = Some (word_of_nat (length bs))"
proof (induction k rule: inc_induct)
  case base
  show ?case
    by (subst strlen_from.simps) (simp add: cstring_end [OF assms])
next
  case (step k)
  from cstring_nth [OF assms, of k] step.hyps have "ld8 v (a + word_of_nat k) = Some (bs ! k)" "bs ! k \<noteq> 0"
    by auto
  with step.IH show ?case
    by (subst strlen_from.simps) (simp add: add.commute)
qed

locale string_length =
  fixes len :: "vmem \<Rightarrow> addr \<Rightarrow> u32 option"
  assumes len_cstring: "cstring v a bs \<Longrightarrow> len v a = Some (word_of_nat (length bs))"
begin

lemma len_counts: "cstring v a bs \<Longrightarrow> \<exists>n. len v a = Some n \<and> unat n = length bs"
  using len_cstring by (auto simp: cstring_def unat_word_of_nat_u32)

lemma len_string_bytes:
  assumes "cstring v a bs" and "len v a = Some n"
  shows "ld_bytes v a (unat n) = Some bs"
proof -
  from assms have "unat n = length bs" using len_counts by fastforce
  moreover have "ld_bytes v a (length bs) = Some bs"
    by (rule ld_bytesI) (use cstring_nth [OF assms(1)] in auto)
  ultimately show ?thesis by simp
qed

lemma len_unique: "cstring v a bs \<Longrightarrow> cstring v a cs \<Longrightarrow> bs = cs"
  by (metis len_cstring len_string_bytes option.inject)

end

interpretation kstrlen: string_length strlen
  by unfold_locales (use strlen_from_cstring [of _ _ _ 0] in \<open>simp add: strlen_def\<close>)

section \<open>Comparison\<close>

lemma strncmp_from_cstring:
  assumes "i \<le> unat n" and "cstring v s1 xs" and "cstring v s2 ys" and "i \<le> length xs" and "i \<le> length ys"
  shows "\<exists>r. strncmp_from v s1 s2 n (word_of_nat i) = Some r \<and>
    (r = 0 \<longleftrightarrow> take (unat n - i) (drop i xs) = take (unat n - i) (drop i ys))"
  using assms
proof (induction "unat n - i" arbitrary: i)
  case 0
  then have "\<not> (word_of_nat i :: u32) < n"
    using unat_u32_lt [of n] by (simp add: word_less_nat_alt unat_word_of_nat_u32)
  with 0 show ?case by (subst strncmp_from.simps) simp
next
  case (Suc m)
  have nb: "unat n < 2 ^ 32" using unsigned_less [of n] by simp
  have lt: "(word_of_nat i :: u32) < n"
    using Suc.hyps(2) nb by (simp add: word_less_nat_alt unat_word_of_nat_u32)
  have n: "unat n - i = Suc (unat n - Suc i)" using Suc.hyps(2) by simp
  define c where "c = (if i < length xs then xs ! i else 0)"
  define d where "d = (if i < length ys then ys ! i else 0)"
  have c: "ld8 v (s1 + word_of_nat i) = Some c" "c = 0 \<longleftrightarrow> i = length xs"
    using cstring_nth [OF Suc.prems(2), of i] cstring_end [OF Suc.prems(2)] Suc.prems(4) by (auto simp: c_def)
  have d: "ld8 v (s2 + word_of_nat i) = Some d" "d = 0 \<longleftrightarrow> i = length ys"
    using cstring_nth [OF Suc.prems(3), of i] cstring_end [OF Suc.prems(3)] Suc.prems(5) by (auto simp: d_def)
  have step: "strncmp_from v s1 s2 n (word_of_nat i) =
      (if c \<noteq> d \<or> c = 0 then Some (sint c - sint d) else strncmp_from v s1 s2 n (word_of_nat (Suc i)))"
    by (subst strncmp_from.simps) (simp add: lt c(1) d(1) add.commute)
  show ?case
  proof (cases "c = d \<and> c \<noteq> 0")
    case True
    then have i: "i < length xs" "i < length ys" and eq: "xs ! i = ys ! i"
      using c(2) d(2) Suc.prems(4,5) by (auto simp: c_def d_def split: if_splits)
    have "\<exists>r. strncmp_from v s1 s2 n (word_of_nat (Suc i)) = Some r \<and>
        (r = 0 \<longleftrightarrow> take (unat n - Suc i) (drop (Suc i) xs) = take (unat n - Suc i) (drop (Suc i) ys))"
      by (rule Suc.hyps(1)) (use Suc.hyps(2) Suc.prems i in auto)
    then obtain r where r: "strncmp_from v s1 s2 n (word_of_nat i) = Some r"
      "r = 0 \<longleftrightarrow> take (unat n - Suc i) (drop (Suc i) xs) = take (unat n - Suc i) (drop (Suc i) ys)"
      using step True by auto
    have "take (unat n - i) (drop i zs) = zs ! i # take (unat n - Suc i) (drop (Suc i) zs)"
      if "i < length zs" for zs :: "u8 list"
      using that n by (simp add: Cons_nth_drop_Suc [symmetric])
    with r i eq show ?thesis by simp
  next
    case False
    have "sint c - sint d = 0 \<longleftrightarrow> c = d" by (auto dest: signed_word_eqI)
    moreover have "take (unat n - i) (drop i xs) = take (unat n - i) (drop i ys) \<longleftrightarrow> c = d"
    proof (cases "i < length xs \<and> i < length ys")
      case True
      with False c(2) have "c \<noteq> d" by auto
      with True n show ?thesis
        by (simp add: c_def d_def Cons_nth_drop_Suc [symmetric])
    next
      case bound: False
      with Suc.prems(4,5) show ?thesis
        using c(2) d(2) n by (cases "i < length xs"; cases "i < length ys") (auto simp: Cons_nth_drop_Suc [symmetric])
    qed
    ultimately show ?thesis using False step by auto
  qed
qed

section \<open>Reversal and number formatting\<close>

text \<open>The swap loop keeps the outside of the window and reverses its inside.\<close>

lemma strrev_loop_length [simp]: "length (strrev_loop s b e) = length s"
  by (induction s b e rule: strrev_loop.induct) (simp add: strrev_loop.simps)

lemma strrev_loop_nth:
  assumes "0 \<le> b" and "e < int (length s)" and "b \<le> e + 1" and "i < length s"
  shows "strrev_loop s b e ! i = (if b \<le> int i \<and> int i \<le> e then s ! nat (b + e - int i) else s ! i)"
  using assms
proof (induction s b e rule: strrev_loop.induct)
  case (1 s b e)
  show ?case
  proof (cases "b < e")
    case True
    let ?s = "s[nat e := s ! nat b, nat b := s ! nat e]"
    have IH: "strrev_loop ?s (b + 1) (e - 1) ! i =
        (if b + 1 \<le> int i \<and> int i \<le> e - 1 then ?s ! nat (b + 1 + (e - 1) - int i) else ?s ! i)"
      by (rule "1.IH" [OF True]) (use "1.prems" True in auto)
    have inner: "?s ! nat (b + e - int i) = s ! nat (b + e - int i)" if "b < int i" "int i < e"
      using that "1.prems" by (subst nth_list_update_neq; (subst nth_list_update_neq)?) auto
    consider "int i = b" | "int i = e" | "b < int i" "int i < e" | "int i < b \<or> e < int i" by linarith
    then show ?thesis
    proof cases
      case 1
      with IH True "1.prems" show ?thesis by (auto simp: strrev_loop.simps [of s b e] nth_list_update)
    next
      case 2
      with IH True "1.prems" show ?thesis by (auto simp: strrev_loop.simps [of s b e] nth_list_update)
    next
      case 3
      with IH True inner show ?thesis by (simp add: strrev_loop.simps [of s b e])
    next
      case 4
      then have "nat e \<noteq> i" "nat b \<noteq> i" using "1.prems"(1) True by linarith+
      then have "?s ! i = s ! i" by simp
      with 4 IH True show ?thesis by (auto simp: strrev_loop.simps [of s b e])
    qed
  next
    case False
    with "1.prems" show ?thesis by (auto simp: strrev_loop.simps [of s b e] intro!: arg_cong [where f = "(!) s"])
  qed
qed

lemma strrev_eq_rev: "strrev s = rev s"
proof (rule nth_equalityI)
  show "length (strrev s) = length (rev s)" by (simp add: strrev_def)
next
  fix i assume "i < length (strrev s)"
  then have i: "i < length s" by (simp add: strrev_def)
  then have "nat (int (length s) - 1 - int i) = length s - Suc i" by linarith
  with i show "strrev s ! i = rev s ! i"
    by (simp add: strrev_def strrev_loop_nth rev_nth)
qed

lemma itoa_lookup_length [simp]: "length itoa_lookup = 37"
  by (simp add: itoa_lookup_def)

text \<open>The value a digit string stands for, most significant digit first.\<close>

definition digit_of :: "u8 \<Rightarrow> nat" where
  "digit_of c = length (takeWhile (\<lambda>b. b \<noteq> c) itoa_lookup)"

definition numeral_value :: "nat \<Rightarrow> u8 list \<Rightarrow> nat" where
  "numeral_value radix ds = foldl (\<lambda>acc c. acc * radix + digit_of c) 0 ds"

lemma digit_of_lookup: "d < 36 \<Longrightarrow> digit_of (itoa_lookup ! d) = d"
proof -
  have "\<forall>d < 36. digit_of (itoa_lookup ! d) = d" by code_simp
  then show "d < 36 \<Longrightarrow> digit_of (itoa_lookup ! d) = d" by blast
qed

lemma itoa_lookup_nz: "d < 36 \<Longrightarrow> itoa_lookup ! d \<noteq> 0"
proof -
  have "\<forall>d < 36. itoa_lookup ! d \<noteq> 0" by code_simp
  then show "d < 36 \<Longrightarrow> itoa_lookup ! d \<noteq> 0" by blast
qed

lemma numeral_value_snoc: "numeral_value r (ds @ [c]) = numeral_value r ds * r + digit_of c"
  by (simp add: numeral_value_def)

text \<open>
  The digit loop, with enough room for the value, returns the digits of \<open>newval\<close> behind the
  digits collected so far, least significant first; at most \<open>k\<close> of them when the value is below
  \<open>radix ^ k\<close>.
\<close>

lemma itoa_loop_correct:
  assumes "2 \<le> unat r" and "unat r \<le> 36" and "unat w < unat r ^ k"
  shows "\<exists>ds. itoa_loop w r buf = Some (buf @ ds) \<and> length ds \<le> k \<and>
    numeral_value (unat r) (rev ds) = unat w \<and> (w \<noteq> 0 \<longrightarrow> ds \<noteq> []) \<and> 0 \<notin> set ds"
  using assms(3)
proof (induction k arbitrary: w buf)
  case 0
  then have "w = 0" by (simp add: unat_eq_0)
  then show ?case by (subst itoa_loop.simps) (simp add: numeral_value_def)
next
  case (Suc k)
  show ?case
  proof (cases "w = 0")
    case True
    then show ?thesis by (subst itoa_loop.simps) (simp add: numeral_value_def)
  next
    case False
    let ?d = "unat (w mod r)"
    have r0: "r \<noteq> 0" using assms(1) by auto
    have d: "?d = unat w mod unat r" "unat (w div r) = unat w div unat r"
      by (simp_all add: unat_mod unat_div)
    have "unat w mod unat r < unat r" using assms(1) by (intro mod_less_divisor) simp
    with d(1) assms(2) have lt: "?d < 36" by simp
    have "unat (w div r) < unat r ^ k"
      using Suc.prems d(2) by (simp add: less_mult_imp_div_less mult.commute)
    from Suc.IH [OF this, of "buf @ [itoa_lookup ! ?d]"] obtain ds where ds:
      "itoa_loop (w div r) r (buf @ [itoa_lookup ! ?d]) = Some ((buf @ [itoa_lookup ! ?d]) @ ds)"
      "length ds \<le> k" "numeral_value (unat r) (rev ds) = unat (w div r)" "0 \<notin> set ds"
      by blast
    have "itoa_loop w r buf = Some (buf @ (itoa_lookup ! ?d # ds))"
      using False r0 lt ds(1) by (subst itoa_loop.simps) (simp add: word_gt_0)
    moreover have "numeral_value (unat r) (rev (itoa_lookup ! ?d # ds)) = unat w"
      using ds(3) d digit_of_lookup [OF lt] by (simp add: numeral_value_snoc)
    ultimately show ?thesis using ds(2,4) itoa_lookup_nz [OF lt] by (intro exI [of _ "itoa_lookup ! ?d # ds"]) simp
  qed
qed

lemma itoa_correct:
  assumes "2 \<le> radix" and "radix \<le> 36" and "unat value < nat radix ^ k" and "1 \<le> k"
  shows "\<exists>s. itoa value radix = Some s \<and> numeral_value (nat radix) s = unat value \<and> s \<noteq> [] \<and> length s \<le> k \<and> 0 \<notin> set s"
proof (cases "value = 0")
  case True
  have "digit_of (of_char (CHR ''0'')) = 0" by code_simp
  moreover have "of_char (CHR ''0'') \<noteq> (0 :: u8)" by simp
  ultimately show ?thesis using True assms(4) by (simp add: itoa_def numeral_value_def)
next
  case False
  let ?r = "word_of_int radix :: u32"
  have r: "unat ?r = nat radix"
    using assms(1,2) by (simp add: unsigned_of_int take_bit_int_eq_self)
  have "2 \<le> unat ?r" "unat ?r \<le> 36" "unat value < unat ?r ^ k"
    using assms by (simp_all add: r)
  from itoa_loop_correct [OF this, of "[]"] obtain ds where
    "itoa_loop value ?r [] = Some ds" "length ds \<le> k" "numeral_value (nat radix) (rev ds) = unat value"
    "value \<noteq> 0 \<longrightarrow> ds \<noteq> []" "0 \<notin> set ds"
    by (auto simp: r)
  with False show ?thesis by (simp add: itoa_def strrev_eq_rev)
qed

section \<open>Properties\<close>



text \<open>
  The kernel's \<open>strlen\<close> returns the number of bytes before the terminating NUL, and
  \<open>strncmp\<close> returns 0 exactly when the two strings agree on their first \<open>n\<close> bytes.
\<close>

theorem strlen_strncmp_correct:
  assumes "cstring v s1 xs" and "cstring v s2 ys"
  shows "strlen v s1 = Some (word_of_nat (length xs)) \<and>
    (\<exists>r. strncmp v s1 s2 n = Some r \<and> (r = 0 \<longleftrightarrow> take (unat n) xs = take (unat n) ys))"
  using strncmp_from_cstring [OF _ assms, of 0 n] kstrlen.len_cstring [OF assms(1)]
  by (simp add: strncmp_def)

theorem strlen_strncmp_correct_witness:
  "strlen (flat_vmem ((\<lambda>_. 0)(100 := 65, 101 := 66, 200 := 65, 201 := 67))) 100 = Some 2 \<and>
   (\<exists>r. strncmp (flat_vmem ((\<lambda>_. 0)(100 := 65, 101 := 66, 200 := 65, 201 := 67))) 100 200 2 = Some r \<and> r \<noteq> 0)"
proof -
  let ?v = "flat_vmem ((\<lambda>_. 0)(100 := 65, 101 := 66, 200 := 65, 201 := 67))"
  have "cstring ?v 100 [65, 66]" "cstring ?v 200 [65, 67]"
    by (simp_all add: cstring_def)
  from strlen_strncmp_correct [OF this, of 2] show ?thesis by auto
qed

end
