(* ===== verification/Console.thy ===== *)
theory Console
  imports Lib_String
begin

text \<open>
  The text console of \<open>student-distrib/lib.c\<close>: \<open>clear\<close>, \<open>clear_kb\<close>, \<open>backspace\<close>,
  \<open>update_cursor\<close>, \<open>printf\<close>, \<open>puts\<close>, \<open>putc\<close>, the cursor accessors and
  \<open>test_interrupts\<close>.

  The console writes character and attribute bytes through the virtual page at \<open>VIDEO\<close>, which
  the scheduler points either at the real video memory or at a terminal's backing page, and it
  programs the cursor position into the VGA registers.  \<open>displays m (cells, pos)\<close> relates a
  machine to an abstract console, a list of 2000 cells and a position; the abstract operations
  \<open>con_putc\<close>, \<open>con_backspace\<close> and \<open>con_clear\<close> say what the console promises, and the
  refinement lemmas show that the code keeps it.
\<close>

section \<open>Definitions\<close>

definition VIDEO :: addr where "VIDEO = 0xB8000"
definition NUM_COLS :: int where "NUM_COLS = 80"
definition NUM_ROWS :: int where "NUM_ROWS = 25"
definition ATTRIB :: u8 where "ATTRIB = 7"

definition cell_addr :: "int \<Rightarrow> addr" where
  "cell_addr i = VIDEO + word_of_int (2 * i)"

definition put_cell :: "int \<Rightarrow> u8 \<Rightarrow> vmem \<Rightarrow> vmem option" where
  "put_cell i c v = do { v1 \<leftarrow> st8 v (cell_addr i) c; st8 v1 (cell_addr i + 1) ATTRIB }"

fun blank_cells :: "int \<Rightarrow> nat \<Rightarrow> vmem \<Rightarrow> vmem option" where
  "blank_cells i 0 v = Some v"
| "blank_cells i (Suc n) v = do { v1 \<leftarrow> put_cell i 0x20 v; blank_cells (i + 1) n v1 }"

definition update_cursor :: "int \<Rightarrow> int \<Rightarrow> machine \<Rightarrow> machine" where
  "update_cursor x y m =
     (let pos = word_of_int (y * NUM_COLS + x) :: u16;
          m = outb 0x0F 0x3D4 m;
          m = outb (ucast (pos AND 0xFF)) 0x3D5 m;
          m = outb 0x0E 0x3D4 m
      in outb (ucast (drop_bit 8 pos AND 0xFF)) 0x3D5 m)"

definition clear_kb :: "machine \<Rightarrow> machine option" where
  "clear_kb m = do {
     v \<leftarrow> blank_cells 0 (nat (NUM_ROWS * NUM_COLS)) (vm m);
     Some (update_cursor 0 0 (m\<lparr>vm := v, screen_x := 0, screen_y := 0\<rparr>))
   }"

definition clear :: "machine \<Rightarrow> machine option" where
  "clear m = do {
     v \<leftarrow> blank_cells 0 (nat (NUM_ROWS * NUM_COLS)) (vm m);
     clear_kb (m\<lparr>vm := v\<rparr>)
   }"

definition backspace :: "machine \<Rightarrow> machine option" where
  "backspace m = do {
     v \<leftarrow> put_cell (NUM_COLS * screen_y m + screen_x m - 1) 0x20 (vm m);
     let m = m\<lparr>vm := v\<rparr>;
     let m = (if screen_x m \<noteq> 0 then m\<lparr>screen_x := screen_x m - 1\<rparr>
              else if screen_y m \<noteq> 0 then m\<lparr>screen_x := NUM_COLS - 1, screen_y := screen_y m - 1\<rparr>
              else m);
     Some (update_cursor (screen_x m) (screen_y m) m)
   }"

definition scroll :: "machine \<Rightarrow> machine option" where
  "scroll m = do {
     v \<leftarrow> memmove (vm m) VIDEO (VIDEO + word_of_int (NUM_COLS * 2)) (word_of_int (NUM_COLS * (NUM_ROWS - 1) * 2));
     v \<leftarrow> blank_cells (NUM_COLS * screen_y m) (nat NUM_COLS) v;
     Some (m\<lparr>vm := v\<rparr>)
   }"

function putc :: "u8 \<Rightarrow> machine \<Rightarrow> machine option" where
  "putc c m = do {
     m \<leftarrow>
       (if c = 10 \<or> c = 13 then do {
          m \<leftarrow> (if screen_y m = NUM_ROWS - 1 then scroll m
               else Some (m\<lparr>screen_y := screen_y m + 1\<rparr>));
          Some (m\<lparr>screen_x := 0\<rparr>)
        }
        else if screen_y m = NUM_ROWS - 1 \<and> screen_x m = NUM_COLS - 1 then do {
          v \<leftarrow> put_cell (NUM_COLS * screen_y m + screen_x m) c (vm m);
          putc 10 (m\<lparr>vm := v, screen_x := screen_x m + 1\<rparr>)
        }
        else do {
          v \<leftarrow> put_cell (NUM_COLS * screen_y m + screen_x m) c (vm m);
          let m = m\<lparr>vm := v, screen_x := screen_x m + 1\<rparr>;
          let m = m\<lparr>screen_y := (screen_y m + screen_x m sdiv NUM_COLS) smod NUM_ROWS\<rparr>;
          Some (m\<lparr>screen_x := screen_x m smod NUM_COLS\<rparr>)
        });
     Some (update_cursor (screen_x m) (screen_y m) m)
   }"
  by pat_completeness auto
termination
  by (relation "measure (\<lambda>(c, m). if c = 10 then 0 else 1)") auto

declare putc.simps [simp del]

partial_function (option) puts_from :: "addr \<Rightarrow> u32 \<Rightarrow> machine \<Rightarrow> (u32 \<times> machine) option" where
  "puts_from s index m = do {
     c \<leftarrow> ld8 (vm m) (s + index);
     if c \<noteq> 0 then do { m \<leftarrow> putc c m; puts_from s (index + 1) m } else Some (index, m)
   }"

definition puts :: "addr \<Rightarrow> machine \<Rightarrow> (u32 \<times> machine) option" where
  "puts s m = puts_from s 0 m"

text \<open>\<open>puts\<close> on one of \<open>printf\<close>'s local arrays, whose bytes before the NUL are the list.\<close>

fun puts_local :: "u8 list \<Rightarrow> machine \<Rightarrow> machine option" where
  "puts_local [] m = Some m"
| "puts_local (c # cs) m = (if c \<noteq> 0 then do { m \<leftarrow> putc c m; puts_local cs m } else Some m)"

text \<open>
  The conversions of \<open>printf\<close> that go through \<open>itoa\<close>, as the bytes put into the local array
  before \<open>puts\<close> is called on it.  For \<open>%#x\<close> the digits stand from index 8 on, and the indices
  from their number up to 7 are set to zeros.
\<close>

definition conv_x :: "bool \<Rightarrow> u32 \<Rightarrow> u8 list option" where
  "conv_x alternate arg = do {
     ds \<leftarrow> itoa arg 16;
     Some (if alternate then replicate (8 - length ds) 0x30 @ ds else ds)
   }"

definition conv_u :: "u32 \<Rightarrow> u8 list option" where
  "conv_u arg = itoa arg 10"

definition conv_d :: "u32 \<Rightarrow> u8 list option" where
  "conv_d arg =
     (if sint arg < 0 then do { ds \<leftarrow> itoa (- arg) 10; Some (0x2D # ds) } else itoa arg 10)"

partial_function (option) format_flags :: "vmem \<Rightarrow> addr \<Rightarrow> bool \<Rightarrow> (u8 \<times> bool \<times> addr) option" where
  "format_flags v buf alternate = do {
     c \<leftarrow> ld8 v buf;
     if c = 0x23 then format_flags v (buf + 1) True else Some (c, alternate, buf)
   }"

definition format_arg :: "(nat \<Rightarrow> u32) \<Rightarrow> u8 \<Rightarrow> bool \<Rightarrow> nat \<Rightarrow> machine \<Rightarrow> (nat \<times> machine) option" where
  "format_arg stack c alternate esp m =
     (if c = 0x25 then do { m \<leftarrow> putc 0x25 m; Some (esp, m) }
      else if c = 0x78 then do { bs \<leftarrow> conv_x alternate (stack esp); m \<leftarrow> puts_local bs m; Some (esp + 1, m) }
      else if c = 0x75 then do { bs \<leftarrow> conv_u (stack esp); m \<leftarrow> puts_local bs m; Some (esp + 1, m) }
      else if c = 0x64 then do { bs \<leftarrow> conv_d (stack esp); m \<leftarrow> puts_local bs m; Some (esp + 1, m) }
      else if c = 0x63 then do { m \<leftarrow> putc (ucast (stack esp)) m; Some (esp + 1, m) }
      else if c = 0x73 then do { (_, m) \<leftarrow> puts (stack esp) m; Some (esp + 1, m) }
      else Some (esp, m))"

partial_function (option) printf_from ::
  "(nat \<Rightarrow> u32) \<Rightarrow> addr \<Rightarrow> nat \<Rightarrow> machine \<Rightarrow> (addr \<times> machine) option" where
  "printf_from stack buf esp m = do {
     c \<leftarrow> ld8 (vm m) buf;
     if c = 0 then Some (buf, m)
     else if c = 0x25 then do {
       (c, alternate, buf) \<leftarrow> format_flags (vm m) (buf + 1) False;
       (esp, m) \<leftarrow> format_arg stack c alternate esp m;
       printf_from stack (buf + 1) esp m
     }
     else do { m \<leftarrow> putc c m; printf_from stack (buf + 1) esp m }
   }"

definition printf :: "(nat \<Rightarrow> u32) \<Rightarrow> addr \<Rightarrow> machine \<Rightarrow> (int \<times> machine) option" where
  "printf stack format m = do {
     (buf, m) \<leftarrow> printf_from stack format 0 m;
     Some (sint (buf - format), m)
   }"

text \<open>
  \<open>printf\<close> on a format in a kernel array or a string constant: the list holds the bytes of the
  array from the current position on.  The loop has no bound of its own, so it runs out of the
  array when there is no NUL, or when the NUL follows a \<open>%\<close> and is stepped over.
\<close>

function printf_arr_from :: "(nat \<Rightarrow> u32) \<Rightarrow> u8 list \<Rightarrow> nat \<Rightarrow> machine \<Rightarrow> machine option" where
  "printf_arr_from stack [] esp m = None"
| "printf_arr_from stack (c # cs) esp m =
     (if c = 0 then Some m
      else if c = 0x25 then
        (case dropWhile (\<lambda>b. b = 0x23) cs of
           [] \<Rightarrow> None
         | d # ds \<Rightarrow> do {
             (esp, m) \<leftarrow> format_arg stack d (hd cs = 0x23) esp m;
             printf_arr_from stack ds esp m
           })
      else do { m \<leftarrow> putc c m; printf_arr_from stack cs esp m })"
  by pat_completeness auto
termination
proof (relation "measure (\<lambda>(stack, cs, esp, m). length cs)", goal_cases)
  case (2 stack c cs esp m d ds)
  then show ?case using length_dropWhile_le [of "\<lambda>b. b = 0x23" cs] by simp
qed simp_all

definition printf_arr :: "(nat \<Rightarrow> u32) \<Rightarrow> u8 list \<Rightarrow> machine \<Rightarrow> machine option" where
  "printf_arr stack fmt m = printf_arr_from stack fmt 0 m"

definition get_screen_x :: "machine \<Rightarrow> int" where "get_screen_x m = screen_x m"
definition get_screen_y :: "machine \<Rightarrow> int" where "get_screen_y m = screen_y m"

definition set_cursor :: "int \<Rightarrow> int \<Rightarrow> machine \<Rightarrow> machine" where
  "set_cursor x y m =
     (let m = m\<lparr>screen_x := x, screen_y := y\<rparr> in update_cursor (screen_x m) (screen_y m) m)"

definition set_screenxy :: "int \<Rightarrow> int \<Rightarrow> machine \<Rightarrow> machine" where
  "set_screenxy x y m = m\<lparr>screen_x := x, screen_y := y\<rparr>"

fun test_interrupts_from :: "int \<Rightarrow> int \<Rightarrow> nat \<Rightarrow> vmem \<Rightarrow> vmem option" where
  "test_interrupts_from pitIntrCount i 0 v = Some v"
| "test_interrupts_from pitIntrCount i (Suc n) v = do {
     b \<leftarrow> ld8 v (cell_addr i + 1);
     v \<leftarrow> st8 v (cell_addr i + 1) (b + word_of_int pitIntrCount);
     test_interrupts_from pitIntrCount (i + 1) n v
   }"

definition test_interrupts :: "int \<Rightarrow> machine \<Rightarrow> machine option" where
  "test_interrupts pitIntrCount m =
     map_option (\<lambda>v. m\<lparr>vm := v\<rparr>) (test_interrupts_from pitIntrCount 0 (nat (NUM_ROWS * NUM_COLS)) (vm m))"

section \<open>The abstract console\<close>

type_synonym cell = "u8 \<times> u8"
type_synonym console = "cell list \<times> nat"

definition blank :: cell where "blank = (0x20, ATTRIB)"

definition cell_bytes :: "cell list \<Rightarrow> u8 list" where
  "cell_bytes cells = concat (map (\<lambda>(c, a). [c, a]) cells)"

definition con_wrap :: "console \<Rightarrow> console" where
  "con_wrap con =
     (case con of (cells, pos) \<Rightarrow>
        if pos < 2000 then (cells, pos) else (drop 80 cells @ replicate 80 blank, 1920))"

definition con_putc :: "u8 \<Rightarrow> console \<Rightarrow> console" where
  "con_putc c con =
     (case con of (cells, pos) \<Rightarrow>
        con_wrap (if c = 10 \<or> c = 13 then (cells, (pos div 80 + 1) * 80)
                  else (cells[pos := (c, ATTRIB)], pos + 1)))"

definition con_backspace :: "console \<Rightarrow> console" where
  "con_backspace con = (case con of (cells, pos) \<Rightarrow> (cells[pos - 1 := blank], pos - 1))"

definition con_clear :: "console \<Rightarrow> console" where
  "con_clear con = (replicate 2000 blank, 0)"

definition cursor_ok :: "machine \<Rightarrow> bool" where
  "cursor_ok m \<longleftrightarrow> 0 \<le> screen_x m \<and> screen_x m < NUM_COLS \<and> 0 \<le> screen_y m \<and> screen_y m < NUM_ROWS"

definition displays_cells :: "vmem \<Rightarrow> cell list \<Rightarrow> bool" where
  "displays_cells v cells \<longleftrightarrow> length cells = 2000 \<and> window v VIDEO (cell_bytes cells)"

definition displays :: "machine \<Rightarrow> console \<Rightarrow> bool" where
  "displays m con \<longleftrightarrow> cursor_ok m \<and> displays_cells (vm m) (fst con) \<and>
     snd con = nat (NUM_COLS * screen_y m + screen_x m)"

text \<open>The cursor location the VGA registers hold after a trace of port accesses.\<close>

fun crtc :: "io_event list \<Rightarrow> u8 \<times> u8 \<times> u8" where
  "crtc [] = (0, 0, 0)"
| "crtc (e # es) =
     (case crtc es of (index, hi, lo) \<Rightarrow>
        (case e of
           Outb port d \<Rightarrow>
             if port = 0x3D4 then (d, hi, lo)
             else if port = 0x3D5 \<and> index = 0x0E then (index, d, lo)
             else if port = 0x3D5 \<and> index = 0x0F then (index, hi, d)
             else (index, hi, lo)
         | Inb _ \<Rightarrow> (index, hi, lo)))"

definition hw_cursor :: "io_event list \<Rightarrow> nat" where
  "hw_cursor es = (case crtc es of (index, hi, lo) \<Rightarrow> unat hi * 256 + unat lo)"

abbreviation screen_region :: "addr set" where
  "screen_region \<equiv> region VIDEO 4000"

section \<open>Cells and bytes\<close>

lemma cell_bytes_simps [simp]:
  "cell_bytes [] = []" "cell_bytes ((c, a) # cells) = c # a # cell_bytes cells"
  "cell_bytes (cells @ cells') = cell_bytes cells @ cell_bytes cells'"
  by (simp_all add: cell_bytes_def)

lemma length_cell_bytes [simp]: "length (cell_bytes cells) = 2 * length cells"
  by (induction cells) auto

lemma drop_cell_bytes: "drop (2 * n) (cell_bytes cells) = cell_bytes (drop n cells)"
proof (induction cells arbitrary: n)
  case (Cons cell cells)
  then show ?case by (cases n; cases cell) auto
qed simp

lemma take_cell_bytes: "take (2 * n) (cell_bytes cells) = cell_bytes (take n cells)"
proof (induction cells arbitrary: n)
  case (Cons cell cells)
  then show ?case by (cases n; cases cell) auto
qed simp

lemma cell_addr_nat: "cell_addr (int k) = VIDEO + word_of_nat (2 * k)"
  by (simp add: cell_addr_def)

lemma cell_addr_add1: "cell_addr (i + 1) = cell_addr i + 1 + 1"
  by (simp add: cell_addr_def)

lemma put_cell_eq: "put_cell i c v = st_bytes v (cell_addr i) [c, ATTRIB]"
  by (simp add: put_cell_def)

lemma blank_cells_eq: "blank_cells i n v = st_bytes v (cell_addr i) (cell_bytes (replicate n blank))"
proof (induction n arbitrary: i v)
  case 0
  then show ?case by simp
next
  case (Suc n)
  have "blank_cells (i + 1) n = (\<lambda>v. st_bytes v (cell_addr i + 1 + 1) (cell_bytes (replicate n blank)))"
    using Suc [of "i + 1"] by (auto simp: cell_addr_add1)
  then show ?case by (simp add: put_cell_def) (simp add: blank_def)
qed

lemma displays_cells_window: "displays_cells v cells \<Longrightarrow> window v VIDEO (cell_bytes cells) \<and> length (cell_bytes cells) = 4000"
  by (simp add: displays_cells_def)

lemma displays_cells_store:
  assumes "displays_cells v cells" and "k + length cs \<le> 2000"
  shows "\<exists>v'. st_bytes v (cell_addr (int k)) (cell_bytes cs) = Some v' \<and>
    displays_cells v' (take k cells @ cs @ drop (k + length cs) cells) \<and> changes screen_region v v'"
proof -
  have w: "window v VIDEO (cell_bytes cells)" and l: "length cells = 2000"
    using assms(1) by (simp_all add: displays_cells_def)
  obtain v' where v': "st_bytes v (cell_addr (int k)) (cell_bytes cs) = Some v'"
    "window v' VIDEO (take (2 * k) (cell_bytes cells) @ cell_bytes cs @ drop (2 * (k + length cs)) (cell_bytes cells))"
    "changes screen_region v v'"
    using window_st_bytes [OF w, of "2 * k" "cell_bytes cs"] assms(2) l
    by (auto simp: cell_addr_nat algebra_simps simp del: of_nat_mult)
  then have "window v' VIDEO (cell_bytes (take k cells @ cs @ drop (k + length cs) cells))"
    by (simp only: take_cell_bytes drop_cell_bytes cell_bytes_simps)
  then show ?thesis
    using assms(2) l v' by (auto simp: displays_cells_def)
qed

lemma put_cell_displays:
  assumes "displays_cells v cells" and "k < 2000" and "i = int k"
  shows "\<exists>v'. put_cell i c v = Some v' \<and> displays_cells v' (cells[k := (c, ATTRIB)]) \<and> changes screen_region v v'"
  using displays_cells_store [OF assms(1), of k "[(c, ATTRIB)]"] assms
  by (simp add: put_cell_eq upd_conv_take_nth_drop displays_cells_def)

lemma blank_cells_displays:
  assumes "displays_cells v cells" and "k + n \<le> 2000" and "i = int k"
  shows "\<exists>v'. blank_cells i n v = Some v' \<and> displays_cells v' (take k cells @ replicate n blank @ drop (k + n) cells) \<and>
    changes screen_region v v'"
  using displays_cells_store [OF assms(1), of k "replicate n blank"] assms by (simp add: blank_cells_eq)

section \<open>The cursor registers\<close>

lemma update_cursor_fields [simp]:
  "vm (update_cursor x y m) = vm m" "iflag (update_cursor x y m) = iflag m"
  "screen_x (update_cursor x y m) = screen_x m" "screen_y (update_cursor x y m) = screen_y m"
  "master_mask (update_cursor x y m) = master_mask m" "slave_mask (update_cursor x y m) = slave_mask m"
  "rate (update_cursor x y m) = rate m" "waiting (update_cursor x y m) = waiting m"
  by (simp_all add: update_cursor_def outb_def Let_def)

lemma split_u16:
  "unat (ucast (drop_bit 8 (w :: u16) AND 0xFF) :: u8) * 256 + unat (ucast (w AND 0xFF) :: u8) = unat w"
proof -
  have m: "(x :: u16) AND 0xFF = take_bit 8 x" for x
    by (simp add: take_bit_eq_mask mask_eq_exp_minus_1)
  have u: "unat w < 65536"
    using unsigned_less [of w, where ?'a = nat] by simp
  have "unat (ucast (drop_bit 8 w AND 0xFF) :: u8) = unat w div 256"
    using u by (simp only: m unsigned_ucast_eq unsigned_take_bit_eq unsigned_drop_bit_eq)
      (simp add: drop_bit_eq_div take_bit_eq_mod less_mult_imp_div_less)
  moreover have "unat (ucast (w AND 0xFF) :: u8) = unat w mod 256"
    by (simp only: m unsigned_ucast_eq unsigned_take_bit_eq) (simp add: take_bit_eq_mod)
  ultimately show ?thesis by simp
qed

lemma hw_cursor_update:
  assumes "0 \<le> y * NUM_COLS + x" and "y * NUM_COLS + x < 65536"
  shows "hw_cursor (io (update_cursor x y m)) = nat (y * NUM_COLS + x)"
proof -
  obtain a b c where e: "crtc (io m) = (a, b, c)" by (cases "crtc (io m)") auto
  have "hw_cursor (io (update_cursor x y m)) = unat (word_of_int (y * NUM_COLS + x) :: u16)"
    using split_u16 [of "word_of_int (y * NUM_COLS + x)"]
    by (simp add: update_cursor_def outb_def Let_def hw_cursor_def e)
  also have "\<dots> = nat (y * NUM_COLS + x)"
    using assms by (simp only: unsigned_of_int) (simp add: take_bit_int_eq_self)
  finally show ?thesis .
qed

lemma hw_cursor_cursor:
  "cursor_ok m \<Longrightarrow> hw_cursor (io (update_cursor (screen_x m) (screen_y m) m)) = nat (NUM_COLS * screen_y m + screen_x m)"
  by (subst hw_cursor_update) (auto simp: cursor_ok_def NUM_COLS_def NUM_ROWS_def mult.commute)

section \<open>Refinement of the console operations\<close>

text \<open>What a console operation leaves alone: all memory but the screen, and the other devices.\<close>

definition console_frame :: "machine \<Rightarrow> machine \<Rightarrow> bool" where
  "console_frame m m' \<longleftrightarrow> changes screen_region (vm m) (vm m') \<and> iflag m' = iflag m \<and>
     master_mask m' = master_mask m \<and> slave_mask m' = slave_mask m \<and> rate m' = rate m \<and> waiting m' = waiting m"

lemma console_frame_refl [simp, intro!]: "console_frame m m"
  by (simp add: console_frame_def)

lemma console_frame_trans [trans]: "console_frame l m \<Longrightarrow> console_frame m n \<Longrightarrow> console_frame l n"
  by (auto simp: console_frame_def intro: changes_trans)

definition keeps_console :: "(machine \<Rightarrow> machine option) \<Rightarrow> machine \<Rightarrow> console \<Rightarrow> bool" where
  "keeps_console f m con \<longleftrightarrow>
     (\<exists>m'. f m = Some m' \<and> displays m' con \<and> hw_cursor (io m') = snd con \<and> console_frame m m')"

lemma keeps_consoleI:
  assumes "f m = Some (update_cursor (screen_x n) (screen_y n) n)" and "displays n con" and "console_frame m n"
  shows "keeps_console f m con"
  unfolding keeps_console_def
proof (intro exI conjI)
  show "displays (update_cursor (screen_x n) (screen_y n) n) con"
    using assms(2) by (simp add: displays_def cursor_ok_def)
  show "hw_cursor (io (update_cursor (screen_x n) (screen_y n) n)) = snd con"
    using assms(2) hw_cursor_cursor [of n] by (simp add: displays_def)
  show "console_frame m (update_cursor (screen_x n) (screen_y n) n)"
    using assms(3) by (simp add: console_frame_def)
qed (fact assms(1))

lemma displays_cellsI:
  assumes "displays m con" shows "displays_cells (vm m) (fst con)"
  using assms by (simp add: displays_def)

lemma displays_pos:
  assumes "displays m (cells, pos)"
  shows "int pos = NUM_COLS * screen_y m + screen_x m" "pos < 2000" "pos div 80 = nat (screen_y m)"
    "0 \<le> screen_x m" "screen_x m < 80" "0 \<le> screen_y m" "screen_y m < 25" "length cells = 2000"
  using assms by (auto simp: displays_def cursor_ok_def NUM_COLS_def NUM_ROWS_def displays_cells_def)

lemma scroll_displays:
  assumes d: "displays_cells (vm m) cells" and y: "screen_y m = 24"
  shows "\<exists>v'. scroll m = Some (m\<lparr>vm := v'\<rparr>) \<and> displays_cells v' (drop 80 cells @ replicate 80 blank) \<and>
    changes screen_region (vm m) v'"
proof -
  have w: "window (vm m) VIDEO (cell_bytes cells)" and l: "length cells = 2000"
    using d by (simp_all add: displays_cells_def)
  have "region (0xB80A0 :: addr) 3840 \<subseteq> screen_region"
    using region_add [of VIDEO 160 3840] by (simp add: VIDEO_def)
  moreover have "region VIDEO 3840 \<subseteq> screen_region" by (rule region_mono) simp
  ultimately have "mapped (vm m) (region VIDEO 3840 \<union> region 0xB80A0 3840)"
    using windowD(1) [OF w] l by (auto elim: mapped_subset)
  then have "move_ok (vm m) VIDEO 0xB80A0 (unat (3840 :: u32))"
    by (simp add: move_ok_def VIDEO_def)
  then have mv: "memmove (vm m) VIDEO 0xB80A0 3840 = st_bytes (vm m) (cell_addr (int 0)) (cell_bytes (drop 80 cells))"
    using mov.copy_eq [of "vm m" VIDEO "0xB80A0" 3840] window_ld_bytes [OF w, of 160 3840] l
      drop_cell_bytes [of 80 cells]
    by (simp add: VIDEO_def cell_addr_def)
  from displays_cells_store [OF d, of 0 "drop 80 cells"] l
  obtain v1 where v1: "memmove (vm m) VIDEO 0xB80A0 3840 = Some v1"
    "displays_cells v1 (drop 80 cells @ drop 1920 cells)" "changes screen_region (vm m) v1"
    by (auto simp: mv)
  from blank_cells_displays [OF v1(2), of 1920 80] l
  obtain v2 where "blank_cells 1920 80 v1 = Some v2" "displays_cells v2 (drop 80 cells @ replicate 80 blank)"
    "changes screen_region v1 v2"
    by auto
  with v1 show ?thesis
    using changes_trans [of screen_region "vm m" v1 v2]
    by (simp add: scroll_def NUM_COLS_def NUM_ROWS_def VIDEO_def y) blast
qed

lemma putc_newline:
  assumes c: "c = 10 \<or> c = 13" and d: "displays_cells (vm m) cells" and y: "0 \<le> screen_y m" "screen_y m < 25"
  shows "keeps_console (putc c) m (con_wrap (cells, (nat (screen_y m) + 1) * 80))"
proof (cases "screen_y m = 24")
  case True
  obtain v' where v': "scroll m = Some (m\<lparr>vm := v'\<rparr>)"
    "displays_cells v' (drop 80 cells @ replicate 80 blank)" "changes screen_region (vm m) v'"
    using scroll_displays [OF d True] by blast
  show ?thesis
  proof (rule keeps_consoleI)
    show "putc c m = Some (update_cursor (screen_x (m\<lparr>vm := v', screen_x := 0\<rparr>)) (screen_y (m\<lparr>vm := v', screen_x := 0\<rparr>))
        (m\<lparr>vm := v', screen_x := 0\<rparr>))"
      using c True v' by (subst putc.simps) (simp add: NUM_ROWS_def)
    show "displays (m\<lparr>vm := v', screen_x := 0\<rparr>) (con_wrap (cells, (nat (screen_y m) + 1) * 80))"
      using v' True by (simp add: displays_def con_wrap_def cursor_ok_def NUM_COLS_def NUM_ROWS_def)
  qed (use v' in \<open>simp add: console_frame_def\<close>)
next
  case False
  let ?n = "m\<lparr>screen_y := screen_y m + 1, screen_x := 0\<rparr>"
  show ?thesis
  proof (rule keeps_consoleI)
    show "putc c m = Some (update_cursor (screen_x ?n) (screen_y ?n) ?n)"
      using c False by (subst putc.simps) (simp add: NUM_ROWS_def)
    show "displays ?n (con_wrap (cells, (nat (screen_y m) + 1) * 80))"
      using d y False by (auto simp: displays_def con_wrap_def cursor_ok_def NUM_COLS_def NUM_ROWS_def)
  qed (simp add: console_frame_def)
qed

lemma putc_printable:
  assumes c: "c \<noteq> 10" "c \<noteq> 13" and d: "displays m (cells, pos)"
  shows "keeps_console (putc c) m (con_wrap (cells[pos := (c, ATTRIB)], pos + 1))"
proof -
  note pos = displays_pos [OF d]
  obtain v' where v': "put_cell (NUM_COLS * screen_y m + screen_x m) c (vm m) = Some v'"
    "displays_cells v' (cells[pos := (c, ATTRIB)])" "changes screen_region (vm m) v'"
    using put_cell_displays [OF displays_cellsI [OF d], of pos] pos by auto
  show ?thesis
  proof (cases "screen_y m = 24 \<and> screen_x m = 79")
    case True
    let ?m = "m\<lparr>vm := v', screen_x := screen_x m + 1\<rparr>"
    have p: "pos = 1999" using True pos(1) by (simp add: NUM_COLS_def)
    obtain m2 where m2: "putc 10 ?m = Some m2" "console_frame ?m m2"
      "displays m2 (con_wrap (cells[pos := (c, ATTRIB)], 2000))"
      using putc_newline [of 10 ?m "cells[pos := (c, ATTRIB)]"] v' True
      by (auto simp: keeps_console_def)
    show ?thesis
    proof (rule keeps_consoleI)
      show "putc c m = Some (update_cursor (screen_x m2) (screen_y m2) m2)"
        using c True v' m2 by (subst putc.simps) (simp add: NUM_ROWS_def NUM_COLS_def)
      show "displays m2 (con_wrap (cells[pos := (c, ATTRIB)], pos + 1))"
        using m2 p by simp
      have "console_frame m ?m" using v' by (simp add: console_frame_def)
      then show "console_frame m m2" using m2(2) by (rule console_frame_trans)
    qed
  next
    case False
    let ?x = "screen_x m + 1"
    let ?n = "m\<lparr>vm := v', screen_y := (screen_y m + ?x sdiv NUM_COLS) smod NUM_ROWS, screen_x := ?x smod NUM_COLS\<rparr>"
    have step: "?x smod 80 = (if ?x = 80 then 0 else ?x)"
      "(screen_y m + ?x sdiv 80) smod 25 = (if ?x = 80 then screen_y m + 1 else screen_y m)"
      using pos False by (auto simp: signed_modulo_int_def signed_divide_int_def sgn_if)
    show ?thesis
    proof (rule keeps_consoleI)
      show "putc c m = Some (update_cursor (screen_x ?n) (screen_y ?n) ?n)"
        using c False v' by (subst putc.simps) (auto simp: NUM_ROWS_def NUM_COLS_def)
      show "displays ?n (con_wrap (cells[pos := (c, ATTRIB)], pos + 1))"
        using v' pos False
        by (auto simp: displays_def con_wrap_def cursor_ok_def NUM_COLS_def NUM_ROWS_def step split: if_splits)
    qed (use v' in \<open>simp add: console_frame_def\<close>)
  qed
qed

lemma putc_keeps:
  assumes "displays m con"
  shows "keeps_console (putc c) m (con_putc c con)"
proof (cases con)
  case (Pair cells pos)
  with assms displays_pos [of m cells pos] putc_newline [of c m cells] putc_printable [of c m cells pos]
  show ?thesis by (auto simp: con_putc_def displays_def)
qed

lemma backspace_keeps:
  assumes "displays m con" and "0 < snd con"
  shows "keeps_console backspace m (con_backspace con)"
proof -
  obtain cells pos where con: "con = (cells, pos)" by (cases con)
  note pos = displays_pos [OF assms(1) [unfolded con]]
  have p: "0 < pos" "pos - 1 < 2000" "NUM_COLS * screen_y m + screen_x m - 1 = int (pos - 1)"
    using assms(2) con pos by auto
  obtain v' where v': "put_cell (NUM_COLS * screen_y m + screen_x m - 1) 0x20 (vm m) = Some v'"
    "displays_cells v' (cells[pos - 1 := blank])" "changes screen_region (vm m) v'"
    using put_cell_displays [OF displays_cellsI [OF assms(1)] p(2,3), of "0x20"] con
    by (auto simp: blank_def)
  let ?n = "if screen_x m \<noteq> 0 then m\<lparr>vm := v', screen_x := screen_x m - 1\<rparr>
    else m\<lparr>vm := v', screen_x := NUM_COLS - 1, screen_y := screen_y m - 1\<rparr>"
  show ?thesis
  proof (rule keeps_consoleI)
    show "backspace m = Some (update_cursor (screen_x ?n) (screen_y ?n) ?n)"
      using v' pos p by (auto simp: backspace_def Let_def NUM_COLS_def)
    show "displays ?n (con_backspace con)"
      using v' pos p con by (auto simp: displays_def con_backspace_def cursor_ok_def NUM_COLS_def NUM_ROWS_def)
  qed (use v' in \<open>simp add: console_frame_def\<close>)
qed

lemma clear_kb_keeps:
  assumes "displays_cells (vm m) cells"
  shows "keeps_console clear_kb m (con_clear con)"
proof -
  obtain v' where v': "blank_cells 0 2000 (vm m) = Some v'" "displays_cells v' (replicate 2000 blank)"
    "changes screen_region (vm m) v'"
    using blank_cells_displays [OF assms, of 0 2000] assms by (auto simp: displays_cells_def)
  let ?n = "m\<lparr>vm := v', screen_x := 0, screen_y := 0\<rparr>"
  show ?thesis
  proof (rule keeps_consoleI)
    show "clear_kb m = Some (update_cursor (screen_x ?n) (screen_y ?n) ?n)"
      using v' by (simp add: clear_kb_def NUM_COLS_def NUM_ROWS_def)
    show "displays ?n (con_clear con)"
      using v' by (simp add: displays_def con_clear_def cursor_ok_def NUM_COLS_def NUM_ROWS_def)
  qed (use v' in \<open>simp add: console_frame_def\<close>)
qed

lemma clear_keeps:
  assumes "displays_cells (vm m) cells"
  shows "keeps_console clear m (con_clear con)"
proof -
  obtain v' where v': "blank_cells 0 2000 (vm m) = Some v'" "displays_cells v' (replicate 2000 blank)"
    "changes screen_region (vm m) v'"
    using blank_cells_displays [OF assms, of 0 2000] assms by (auto simp: displays_cells_def)
  have "console_frame m (m\<lparr>vm := v'\<rparr>)" using v' by (simp add: console_frame_def)
  then show ?thesis
    using clear_kb_keeps [of "m\<lparr>vm := v'\<rparr>" "replicate 2000 blank" con] v'
    by (auto simp: keeps_console_def clear_def NUM_COLS_def NUM_ROWS_def intro: console_frame_trans)
qed

section \<open>Sequences of console operations\<close>

fun run_ops :: "('a \<Rightarrow> 's \<Rightarrow> 's option) \<Rightarrow> 'a list \<Rightarrow> 's \<Rightarrow> 's option" where
  "run_ops step [] m = Some m"
| "run_ops step (a # as) m = do { m \<leftarrow> step a m; run_ops step as m }"

fun all_enabled :: "('a \<Rightarrow> console \<Rightarrow> bool) \<Rightarrow> ('a \<Rightarrow> console \<Rightarrow> console) \<Rightarrow> 'a list \<Rightarrow> console \<Rightarrow> bool" where
  "all_enabled pre astep [] con = True"
| "all_enabled pre astep (a # as) con = (pre a con \<and> all_enabled pre astep as (astep a con))"

text \<open>
  The contract of a family of console operations: in a machine that displays \<open>con\<close>, an enabled
  operation returns and the machine then displays what the abstract operation makes of \<open>con\<close>.
  A client that calls the operations one after the other gets the fold of the abstract ones.
\<close>

locale console_ops =
  fixes step :: "'a \<Rightarrow> machine \<Rightarrow> machine option"
    and astep :: "'a \<Rightarrow> console \<Rightarrow> console"
    and pre :: "'a \<Rightarrow> console \<Rightarrow> bool"
  assumes step_keeps: "displays m con \<Longrightarrow> pre a con \<Longrightarrow> keeps_console (step a) m (astep a con)"
begin

lemma run_displays:
  assumes "displays m con" and "all_enabled pre astep as con"
  shows "\<exists>m'. run_ops step as m = Some m' \<and> displays m' (fold astep as con) \<and> console_frame m m'"
  using assms
proof (induction as arbitrary: m con)
  case Nil
  then show ?case by simp
next
  case (Cons a as)
  then obtain m1 where m1: "step a m = Some m1" "displays m1 (astep a con)" "console_frame m m1"
    using step_keeps by (fastforce simp: keeps_console_def)
  from Cons.IH [OF m1(2)] Cons.prems(2) m1 show ?case
    by (auto intro: console_frame_trans)
qed

lemma run_cursor:
  assumes "displays m con" and "hw_cursor (io m) = snd con" and "all_enabled pre astep as con"
  shows "\<exists>m'. run_ops step as m = Some m' \<and> hw_cursor (io m') = snd (fold astep as con)"
  using assms
proof (induction as arbitrary: m con)
  case Nil
  then show ?case by simp
next
  case (Cons a as)
  then obtain m1 where "step a m = Some m1" "displays m1 (astep a con)" "hw_cursor (io m1) = snd (astep a con)"
    using step_keeps by (fastforce simp: keeps_console_def)
  with Cons show ?case by auto
qed

end

interpretation pc: console_ops putc con_putc "\<lambda>_ _. True"
  by unfold_locales (rule putc_keeps)

lemma all_enabled_True [simp]: "all_enabled (\<lambda>_ _. True) astep as con"
  by (induction as arbitrary: con) auto

datatype console_call = Putc u8 | Backspace | Clear | Clear_kb

fun do_call :: "console_call \<Rightarrow> machine \<Rightarrow> machine option" where
  "do_call (Putc c) m = putc c m"
| "do_call Backspace m = backspace m"
| "do_call Clear m = clear m"
| "do_call Clear_kb m = clear_kb m"

fun con_call :: "console_call \<Rightarrow> console \<Rightarrow> console" where
  "con_call (Putc c) con = con_putc c con"
| "con_call Backspace con = con_backspace con"
| "con_call Clear con = con_clear con"
| "con_call Clear_kb con = con_clear con"

fun call_enabled :: "console_call \<Rightarrow> console \<Rightarrow> bool" where
  "call_enabled Backspace con = (0 < snd con)"
| "call_enabled c con = True"

interpretation cc: console_ops do_call con_call call_enabled
proof
  fix m con c
  assume "displays m con" "call_enabled c con"
  then show "keeps_console (do_call c) m (con_call c con)"
    using putc_keeps backspace_keeps clear_keeps [OF displays_cellsI] clear_kb_keeps [OF displays_cellsI]
    by (cases c) (auto simp: keeps_console_def)
qed

section \<open>Printing strings\<close>

lemma puts_local_run: "0 \<notin> set bs \<Longrightarrow> puts_local bs = run_ops putc bs"
  by (induction bs) (auto simp: fun_eq_iff [of "puts_local (b # bs)" for b bs] fun_eq_iff [of "puts_local []"])

lemma puts_from_run:
  assumes "cstring (vm m) (s + i) bs" and "displays m con"
    and "apart (vm m) screen_region (region (s + i) (Suc (length bs)))"
  shows "\<exists>m'. puts_from s i m = Some (i + word_of_nat (length bs), m') \<and> run_ops putc bs m = Some m' \<and>
    displays m' (fold con_putc bs con) \<and> console_frame m m'"
  using assms
proof (induction bs arbitrary: i m con)
  case Nil
  then show ?case by (subst puts_from.simps) (simp add: cstring_Nil)
next
  case (Cons b bs)
  note s = cstring_Cons [OF Cons.prems(1)]
  obtain m1 where m1: "putc b m = Some m1" "displays m1 (con_putc b con)" "console_frame m m1"
    using putc_keeps [OF Cons.prems(2)] by (auto simp: keeps_console_def)
  have ch: "changes screen_region (vm m) (vm m1)" using m1(3) by (simp add: console_frame_def)
  have ap: "apart (vm m) screen_region (region (s + i + 1) (Suc (length bs)))"
    by (rule apart_subset [OF Cons.prems(3)]) (auto simp: region_Suc)
  have "\<exists>m'. puts_from s (i + 1) m1 = Some (i + 1 + word_of_nat (length bs), m') \<and> run_ops putc bs m1 = Some m' \<and>
      displays m' (fold con_putc bs (con_putc b con)) \<and> console_frame m1 m'"
  proof (rule Cons.IH [OF _ m1(2)])
    show "cstring (vm m1) (s + (i + 1)) bs"
      using cstring_changes [OF conjunct2 [OF conjunct2 [OF s]] ch ap] by (simp add: add.assoc)
    show "apart (vm m1) screen_region (region (s + (i + 1)) (Suc (length bs)))"
      using ap apart_same_map [OF changes_same_map [OF ch]] by (simp add: add.assoc)
  qed
  with s m1 show ?case
    by (subst puts_from.simps) (auto simp: algebra_simps intro: console_frame_trans)
qed

lemma puts_displays:
  assumes "cstring (vm m) s bs" and "displays m con" and "apart (vm m) screen_region (region s (Suc (length bs)))"
  shows "\<exists>m'. puts s m = Some (word_of_nat (length bs), m') \<and> displays m' (fold con_putc bs con) \<and> console_frame m m'"
  using puts_from_run [of m s 0 bs con] assms by (auto simp: puts_def)

lemma printf_arr_plain:
  assumes "0 \<notin> set bs" and "0x25 \<notin> set bs"
  shows "printf_arr stack (bs @ 0 # rest) m = run_ops putc bs m"
proof -
  have "printf_arr_from stack (bs @ 0 # rest) esp m = run_ops putc bs m" for esp
    using assms by (induction bs arbitrary: m) (auto intro!: Option.bind_cong)
  then show ?thesis by (simp add: printf_arr_def)
qed

text \<open>A format that ends in \<open>%\<close> runs on behind its NUL.\<close>

lemma printf_arr_percent:
  "printf_arr_from stack (0x25 # 0 # rest) esp m = printf_arr_from stack rest esp m"
  by (simp add: format_arg_def)

section \<open>Formatted output\<close>

text \<open>
  \<open>render\<close> is what a format string asks for: the bytes to print, given the words on the stack
  and the strings their addresses stand for.  A format that ends inside a conversion has no
  rendering: there the loop of \<open>printf\<close> steps over the terminating NUL.
\<close>

definition render_arg :: "(nat \<Rightarrow> u32) \<Rightarrow> (addr \<Rightarrow> u8 list option) \<Rightarrow> u8 \<Rightarrow> bool \<Rightarrow> nat \<Rightarrow> (u8 list \<times> nat) option" where
  "render_arg stack strs c alternate esp =
     (if c = 0x25 then Some ([0x25], esp)
      else if c = 0x78 then do { bs \<leftarrow> conv_x alternate (stack esp); Some (bs, esp + 1) }
      else if c = 0x75 then do { bs \<leftarrow> conv_u (stack esp); Some (bs, esp + 1) }
      else if c = 0x64 then do { bs \<leftarrow> conv_d (stack esp); Some (bs, esp + 1) }
      else if c = 0x63 then Some ([ucast (stack esp)], esp + 1)
      else if c = 0x73 then do { bs \<leftarrow> strs (stack esp); Some (bs, esp + 1) }
      else Some ([], esp))"

function render :: "(nat \<Rightarrow> u32) \<Rightarrow> (addr \<Rightarrow> u8 list option) \<Rightarrow> nat \<Rightarrow> u8 list \<Rightarrow> u8 list option" where
  "render stack strs esp [] = Some []"
| "render stack strs esp (c # cs) =
     (if c = 0x25 then
        (case dropWhile (\<lambda>b. b = 0x23) cs of
           [] \<Rightarrow> None
         | d # ds \<Rightarrow> do {
             (out, esp) \<leftarrow> render_arg stack strs d (0x23 = hd cs) esp;
             rest \<leftarrow> render stack strs esp ds;
             Some (out @ rest)
           })
      else do { rest \<leftarrow> render stack strs esp cs; Some (c # rest) })"
  by pat_completeness auto
termination
proof (relation "measure (\<lambda>(stack, strs, esp, cs). length cs)", goal_cases)
  case (2 stack strs esp c cs d ds)
  then show ?case using length_dropWhile_le [of "\<lambda>b. b = 0x23" cs] by simp
qed simp_all

lemma format_flags_cstring:
  assumes "cstring v a cs" and "dropWhile (\<lambda>b. b = 0x23) cs = d # ds"
  shows "\<exists>b. format_flags v a alt = Some (d, alt \<or> hd cs = 0x23, b) \<and> cstring v b (d # ds) \<and>
    b + word_of_nat (Suc (length ds)) = a + word_of_nat (length cs) \<and>
    region b (Suc (Suc (length ds))) \<subseteq> region a (Suc (length cs))"
  using assms
proof (induction cs arbitrary: a alt)
  case Nil
  then show ?case by simp
next
  case (Cons c cs)
  note s = cstring_Cons [OF Cons.prems(1)]
  show ?case
  proof (cases "c = 0x23")
    case True
    with Cons.prems(2) have dw: "dropWhile (\<lambda>b. b = 0x23) cs = d # ds" by simp
    from Cons.IH [OF conjunct2 [OF conjunct2 [OF s]] dw, of True]
    obtain b where "format_flags v (a + 1) True = Some (d, True, b)" "cstring v b (d # ds)"
      "b + word_of_nat (Suc (length ds)) = a + 1 + word_of_nat (length cs)"
      "region b (Suc (Suc (length ds))) \<subseteq> region (a + 1) (Suc (length cs))"
      by auto
    with True s show ?thesis
      by (subst format_flags.simps) (auto simp: region_Suc [of a "Suc (length cs)"] add.assoc)
  next
    case False
    with Cons.prems s show ?thesis by (subst format_flags.simps) auto
  qed
qed

lemma itoa_printable: "itoa w 16 = Some bs \<Longrightarrow> 0 \<notin> set bs" "itoa w 10 = Some bs \<Longrightarrow> 0 \<notin> set bs"
  using itoa_correct [of 16 w 8] itoa_correct [of 10 w 10] unat_u32_lt [of w] by auto

lemma conv_printable:
  "conv_x alt w = Some bs \<Longrightarrow> 0 \<notin> set bs" "conv_u w = Some bs \<Longrightarrow> 0 \<notin> set bs" "conv_d w = Some bs \<Longrightarrow> 0 \<notin> set bs"
  by (auto simp: conv_x_def conv_u_def conv_d_def dest: itoa_printable split: Option.bind_splits if_splits)

text \<open>The strings a format may refer to: NUL-terminated, and not in the video page.\<close>

definition strings_ok :: "vmem \<Rightarrow> (addr \<Rightarrow> u8 list option) \<Rightarrow> bool" where
  "strings_ok v strs \<longleftrightarrow>
     (\<forall>s bs. strs s = Some bs \<longrightarrow> cstring v s bs \<and> apart v screen_region (region s (Suc (length bs))))"

lemma strings_ok_changes:
  assumes "strings_ok v strs" and "changes screen_region v v'"
  shows "strings_ok v' strs"
  unfolding strings_ok_def
proof (intro allI impI)
  fix s bs assume "strs s = Some bs"
  then have "cstring v s bs" "apart v screen_region (region s (Suc (length bs)))"
    using assms(1) by (auto simp: strings_ok_def)
  then show "cstring v' s bs \<and> apart v' screen_region (region s (Suc (length bs)))"
    using cstring_changes [of v s bs screen_region v'] apart_same_map [OF changes_same_map [OF assms(2)]] assms(2)
    by auto
qed

lemma format_arg_displays:
  assumes "render_arg stack strs c alt esp = Some (out, esp')" and "displays m con" and "strings_ok (vm m) strs"
  shows "\<exists>m'. format_arg stack c alt esp m = Some (esp', m') \<and> displays m' (fold con_putc out con) \<and> console_frame m m'"
proof -
  have loc: "\<exists>m'. puts_local bs m = Some m' \<and> displays m' (fold con_putc bs con) \<and> console_frame m m'"
    if "0 \<notin> set bs" for bs
    using pc.run_displays [OF assms(2), of bs] puts_local_run [OF that] by simp
  have one: "\<exists>m'. putc b m = Some m' \<and> displays m' (con_putc b con) \<and> console_frame m m'" for b
    using putc_keeps [OF assms(2), of b] by (auto simp: keeps_console_def)
  have strp: "\<exists>n m'. puts s m = Some (n, m') \<and> displays m' (fold con_putc bs con) \<and> console_frame m m'"
    if "strs s = Some bs" for s bs
    using puts_displays [OF _ assms(2), of s bs] assms(3) that by (auto simp: strings_ok_def)
  consider (lit) "c = 0x25" | (x) "c = 0x78" | (u) "c = 0x75" | (d) "c = 0x64" | (chr) "c = 0x63" | (str) "c = 0x73"
    | (other) "c \<noteq> 0x25" "c \<noteq> 0x78" "c \<noteq> 0x75" "c \<noteq> 0x64" "c \<noteq> 0x63" "c \<noteq> 0x73"
    by blast
  then show ?thesis
  proof cases
    case lit
    with assms(1) one [of "0x25"] show ?thesis by (auto simp: render_arg_def format_arg_def)
  next
    case x
    with assms(1) loc [OF conv_printable(1)] show ?thesis
      by (fastforce simp: render_arg_def format_arg_def split: Option.bind_splits)
  next
    case u
    with assms(1) loc [OF conv_printable(2)] show ?thesis
      by (fastforce simp: render_arg_def format_arg_def split: Option.bind_splits)
  next
    case d
    with assms(1) loc [OF conv_printable(3)] show ?thesis
      by (fastforce simp: render_arg_def format_arg_def split: Option.bind_splits)
  next
    case chr
    with assms(1) one [of "ucast (stack esp)"] show ?thesis by (auto simp: render_arg_def format_arg_def)
  next
    case str
    with assms(1) strp show ?thesis
      by (fastforce simp: render_arg_def format_arg_def split: Option.bind_splits)
  next
    case other
    with assms show ?thesis by (auto simp: render_arg_def format_arg_def)
  qed
qed

lemma printf_from_displays:
  assumes "render stack strs esp cs = Some out" and "cstring (vm m) a cs" and "displays m con"
    and "strings_ok (vm m) strs" and "apart (vm m) screen_region (region a (Suc (length cs)))"
  shows "\<exists>m'. printf_from stack a esp m = Some (a + word_of_nat (length cs), m') \<and>
    displays m' (fold con_putc out con) \<and> console_frame m m'"
  using assms
proof (induction stack strs esp cs arbitrary: a out m con rule: render.induct)
  case (1 stack strs esp)
  then show ?case by (subst printf_from.simps) (simp add: cstring_Nil)
next
  case (2 stack strs esp c cs)
  note s = cstring_Cons [OF "2.prems"(2)]
  have sub: "region (a + 1) (Suc (length cs)) \<subseteq> region a (Suc (length (c # cs)))"
    by (auto simp: region_Suc)
  show ?case
  proof (cases "c = 0x25")
    case True
    from "2.prems"(1) True obtain d ds out1 esp1 rest where
      dw: "dropWhile (\<lambda>b. b = 0x23) cs = d # ds" and
      ra: "render_arg stack strs d (0x23 = hd cs) esp = Some (out1, esp1)" and
      re: "render stack strs esp1 ds = Some rest" and out: "out = out1 @ rest"
      by (auto split: list.splits Option.bind_splits)
    obtain b where b: "format_flags (vm m) (a + 1) False = Some (d, hd cs = 0x23, b)" "cstring (vm m) b (d # ds)"
      "b + word_of_nat (Suc (length ds)) = a + 1 + word_of_nat (length cs)"
      "region b (Suc (Suc (length ds))) \<subseteq> region (a + 1) (Suc (length cs))"
      using format_flags_cstring [OF conjunct2 [OF conjunct2 [OF s]] dw, of False] by auto
    obtain m1 where m1: "format_arg stack d (hd cs = 0x23) esp m = Some (esp1, m1)"
      "displays m1 (fold con_putc out1 con)" "console_frame m m1"
      using format_arg_displays [OF ra "2.prems"(3,4)] by (auto simp: eq_commute)
    have ch: "changes screen_region (vm m) (vm m1)" using m1(3) by (simp add: console_frame_def)
    have ap: "apart (vm m) screen_region (region (b + 1) (Suc (length ds)))"
      by (rule apart_subset [OF "2.prems"(5)]) (use b(4) sub in \<open>auto simp: region_Suc [of b]\<close>)
    have "\<exists>m'. printf_from stack (b + 1) esp1 m1 = Some (b + 1 + word_of_nat (length ds), m') \<and>
        displays m' (fold con_putc rest (fold con_putc out1 con)) \<and> console_frame m1 m'"
    proof (rule "2.IH"(1) [OF True dw ra refl re _ m1(2)])
      show "cstring (vm m1) (b + 1) ds"
        using cstring_changes [OF _ ch ap] cstring_Cons [OF b(2)] by simp
      show "strings_ok (vm m1) strs" by (rule strings_ok_changes [OF "2.prems"(4) ch])
      show "apart (vm m1) screen_region (region (b + 1) (Suc (length ds)))"
        using ap apart_same_map [OF changes_same_map [OF ch]] by simp
    qed
    moreover have "b + 1 + word_of_nat (length ds) = a + word_of_nat (length (c # cs))"
      using b(3) by (simp add: algebra_simps)
    ultimately show ?thesis
      using True s b(1) m1 out by (subst printf_from.simps) (auto intro: console_frame_trans)
  next
    case False
    with "2.prems"(1) obtain rest where re: "render stack strs esp cs = Some rest" and out: "out = c # rest"
      by (auto split: Option.bind_splits)
    obtain m1 where m1: "putc c m = Some m1" "displays m1 (con_putc c con)" "console_frame m m1"
      using putc_keeps [OF "2.prems"(3), of c] by (auto simp: keeps_console_def)
    have ch: "changes screen_region (vm m) (vm m1)" using m1(3) by (simp add: console_frame_def)
    have ap: "apart (vm m) screen_region (region (a + 1) (Suc (length cs)))"
      by (rule apart_subset [OF "2.prems"(5) subset_refl sub])
    have "\<exists>m'. printf_from stack (a + 1) esp m1 = Some (a + 1 + word_of_nat (length cs), m') \<and>
        displays m' (fold con_putc rest (con_putc c con)) \<and> console_frame m1 m'"
    proof (rule "2.IH"(2) [OF False re _ m1(2)])
      show "cstring (vm m1) (a + 1) cs"
        using cstring_changes [OF _ ch ap] s by simp
      show "strings_ok (vm m1) strs" by (rule strings_ok_changes [OF "2.prems"(4) ch])
      show "apart (vm m1) screen_region (region (a + 1) (Suc (length cs)))"
        using ap apart_same_map [OF changes_same_map [OF ch]] by simp
    qed
    then show ?thesis
      using False s m1 out by (subst printf_from.simps) (auto simp: algebra_simps intro: console_frame_trans)
  qed
qed

section \<open>Properties\<close>

lemma bytes_are_cells: "even (length bs) \<Longrightarrow> \<exists>cells. bs = cell_bytes cells"
proof (induction bs rule: induct_list012)
  case 1
  show ?case by (rule exI [of _ "[]"]) simp
next
  case (3 b c bs)
  then obtain cells where "bs = cell_bytes cells" by auto
  then have "b # c # bs = cell_bytes ((b, c) # cells)" by simp
  then show ?case by blast
qed simp

lemma displays_exists:
  assumes "mapped (vm m) screen_region" and "cursor_ok m"
  shows "\<exists>cells. displays m (cells, nat (NUM_COLS * screen_y m + screen_x m))"
proof -
  obtain bs where bs: "length bs = 4000" "window (vm m) VIDEO bs"
    using window_exists [OF assms(1)] by (auto simp: VIDEO_def)
  moreover obtain cells where "bs = cell_bytes cells"
    using bytes_are_cells [of bs] bs by auto
  ultimately have "displays m (cells, nat (NUM_COLS * screen_y m + screen_x m))"
    using assms(2) by (simp add: displays_def displays_cells_def)
  then show ?thesis by blast
qed

lemma flat_displays: "\<exists>cells. displays (flat_machine p) (cells, 0)"
  using displays_exists [of "flat_machine p"] by (simp add: cursor_ok_def NUM_COLS_def NUM_ROWS_def)

text \<open>
  \<open>putc\<close> refines the abstract console.  Whenever the video page is mapped and the cursor is
  on the screen, \<open>putc\<close> returns without a page fault; the screen then shows exactly what the
  abstract console shows after the character (the cell at the cursor replaced, or a new line,
  with the whole screen scrolled by one row at the bottom), the cursor is on the screen again,
  the hardware cursor is programmed to that position, and no byte outside the 4000 bytes of the
  screen has changed.
\<close>

theorem putc_refines:
  assumes "displays m con"
  shows "\<exists>m'. putc c m = Some m' \<and> displays m' (con_putc c con) \<and> cursor_ok m' \<and>
    hw_cursor (io m') = snd (con_putc c con) \<and> changes screen_region (vm m) (vm m')"
  using putc_keeps [OF assms, of c] by (auto simp: keeps_console_def console_frame_def displays_def)

theorem putc_refines_witness:
  "\<exists>con m'. displays (flat_machine (\<lambda>_. 0)) con \<and> putc 65 (flat_machine (\<lambda>_. 0)) = Some m' \<and>
    displays m' (con_putc 65 con)"
proof -
  obtain cells where "displays (flat_machine (\<lambda>_. 0)) (cells, 0)" using flat_displays by blast
  with putc_refines [OF this, of 65] show ?thesis by blast
qed

text \<open>
  C20: any sequence of calls of \<open>putc\<close>, \<open>backspace\<close>, \<open>clear\<close> and \<open>clear_kb\<close> in which no
  \<open>backspace\<close> comes at position 0 runs without a page fault and leaves on the screen the result
  of the abstract operations, in that order; in particular the cursor never leaves the screen.
\<close>

theorem console_calls_refine:
  assumes "displays m con" and "all_enabled call_enabled con_call calls con"
  shows "\<exists>m'. run_ops do_call calls m = Some m' \<and> displays m' (fold con_call calls con) \<and> console_frame m m'"
  using assms by (rule cc.run_displays)

theorem console_calls_refine_witness:
  "\<exists>con m'. run_ops do_call [Putc 65, Putc 10, Backspace, Clear] (flat_machine (\<lambda>_. 0)) = Some m' \<and>
    displays m' (fold con_call [Putc 65, Putc 10, Backspace, Clear] con)"
proof -
  obtain cells where d: "displays (flat_machine (\<lambda>_. 0)) (cells, 0)" using flat_displays by blast
  have "all_enabled call_enabled con_call [Putc 65, Putc 10, Backspace, Clear] (cells, 0)"
    by (simp add: con_putc_def con_wrap_def)
  with console_calls_refine [OF d this] show ?thesis by blast
qed



text \<open>
  \<open>backspace\<close> takes back a printed character, also over a line wrap: after \<open>putc\<close> of a
  printable character on a blank cell, in any position but the last of the screen, the display
  is the one before.  At position 0 it instead stores to the two bytes below the video page,
  which is a page fault when that page is not present.
\<close>

theorem backspace_undoes_putc:
  assumes "displays m (cells, pos)" and "cells ! pos = blank" and "c \<noteq> 10" and "c \<noteq> 13"
  shows "(pos < 1999 \<longrightarrow> (\<exists>m1 m2. putc c m = Some m1 \<and> backspace m1 = Some m2 \<and> displays m2 (cells, pos))) \<and>
    (pos = 0 \<and> translate (vm m) (VIDEO - 2) = None \<longrightarrow> backspace m = None)"
proof (intro conjI impI)
  assume lt: "pos < 1999"
  obtain m1 where m1: "putc c m = Some m1" "displays m1 (con_putc c (cells, pos))"
    using putc_keeps [OF assms(1)] by (auto simp: keeps_console_def)
  moreover have "con_putc c (cells, pos) = (cells[pos := (c, ATTRIB)], Suc pos)"
    using assms(3,4) lt by (simp add: con_putc_def con_wrap_def)
  moreover have "con_backspace (cells[pos := (c, ATTRIB)], Suc pos) = (cells, pos)"
    by (simp add: con_backspace_def flip: assms(2))
  ultimately show "\<exists>m1 m2. putc c m = Some m1 \<and> backspace m1 = Some m2 \<and> displays m2 (cells, pos)"
    using backspace_keeps [of m1 "(cells[pos := (c, ATTRIB)], Suc pos)"] by (auto simp: keeps_console_def)
next
  assume "pos = 0 \<and> translate (vm m) (VIDEO - 2) = None"
  moreover from this displays_pos [OF assms(1)] have "screen_x m = 0" "screen_y m = 0"
    by (auto simp: NUM_COLS_def)
  ultimately show "backspace m = None"
    by (simp add: backspace_def put_cell_def st8_def cell_addr_def)
qed

theorem backspace_undoes_putc_witness:
  "\<exists>m m1 m2 cells. putc 65 m = Some m1 \<and> backspace m1 = Some m2 \<and> displays m2 (cells, 0) \<and> cells ! 0 = blank"
proof -
  obtain cells where "displays_cells (vm (flat_machine (\<lambda>_. 0))) cells"
    using flat_displays displays_cellsI by fastforce
  from clear_kb_keeps [OF this] obtain m where "displays m (replicate 2000 blank, 0)"
    by (auto simp: keeps_console_def con_clear_def)
  with backspace_undoes_putc [OF this, of 65] show ?thesis by fastforce
qed

end
