(* ===== verification/Pic.thy ===== *)
theory Pic
  imports Machine
begin

text \<open>
  The interrupt controller driver, \<open>student-distrib/i8259.c\<close>.

  The driver keeps the two mask bytes in \<open>master_mask\<close> and \<open>slave_mask\<close> and writes them to
  the controllers' data ports.  \<open>pic_regs\<close> reads off a trace of port accesses what an 8259A
  at a given base port holds (the documented initialisation sequence ICW1 to ICW4, then OCW1
  masks), so that the lemmas speak about what the hardware has been told, not only about the
  driver's variables.
\<close>

section \<open>Definitions\<close>

definition PIC1_COMMAND :: u16 where "PIC1_COMMAND = 0x20"
definition PIC1_DATA :: u16 where "PIC1_DATA = 0x20 + 1"
definition PIC2_COMMAND :: u16 where "PIC2_COMMAND = 0xA0"
definition PIC2_DATA :: u16 where "PIC2_DATA = 0xA0 + 1"

definition i8259_init :: "machine \<Rightarrow> machine" where
  "i8259_init m =
     (let m = outb (master_mask m) PIC1_DATA m;
          m = outb (slave_mask m) PIC2_DATA m;
          m = outb 0x11 PIC1_COMMAND m;
          m = outb 0x20 PIC1_DATA m;
          m = outb 0x04 PIC1_DATA m;
          m = outb 0x01 PIC1_DATA m;
          m = outb 0x11 PIC2_COMMAND m;
          m = outb 0x28 PIC2_DATA m;
          m = outb 0x02 PIC2_DATA m;
          m = outb 0x01 PIC2_DATA m;
          m = outb (master_mask m) PIC1_DATA m
      in outb (slave_mask m) PIC2_DATA m)"

text \<open>\<open>1 << n\<close> on a 32-bit register: the processor uses the low five bits of the count.\<close>

definition shl1 :: "u32 \<Rightarrow> u32" where
  "shl1 n = push_bit (unat n mod 32) 1"

definition enable_irq :: "u32 \<Rightarrow> machine \<Rightarrow> machine" where
  "enable_irq irq_num m =
     (let mask = NOT (shl1 irq_num) in
      if 8 \<le> irq_num then
        let unmask = NOT (shl1 (irq_num - 8));
            m = m\<lparr>slave_mask := ucast (ucast (slave_mask m) AND unmask)\<rparr>
        in outb (slave_mask m) PIC2_DATA m
      else
        let m = m\<lparr>master_mask := ucast (ucast (master_mask m) AND mask)\<rparr>
        in outb (master_mask m) PIC1_DATA m)"

definition disable_irq :: "u32 \<Rightarrow> machine \<Rightarrow> machine" where
  "disable_irq irq_num m =
     (let mask = shl1 irq_num;
          m = m\<lparr>master_mask := ucast (ucast (master_mask m) OR mask)\<rparr>;
          m = m\<lparr>slave_mask := ucast (ucast (slave_mask m) OR mask)\<rparr>
      in if irq_num AND 8 \<noteq> 0 then outb (slave_mask m) PIC2_DATA m
         else outb (master_mask m) PIC1_DATA m)"

definition send_eoi :: "u32 \<Rightarrow> machine \<Rightarrow> machine" where
  "send_eoi irq_num m =
     (if 8 \<le> irq_num then
        outb (0x60 OR 2) PIC1_COMMAND (outb (ucast (0x60 OR (irq_num - 8))) PIC2_COMMAND m)
      else outb (ucast (0x60 OR irq_num)) PIC1_COMMAND m)"

section \<open>What the controllers have been told\<close>

record pic =
  init_step :: nat
  imr :: u8
  vector_base :: u8
  cascade :: u8

definition pic_event :: "u16 \<Rightarrow> io_event \<Rightarrow> pic \<Rightarrow> pic" where
  "pic_event base e p =
     (case e of
        Inb _ \<Rightarrow> p
      | Outb port d \<Rightarrow>
          if port = base then (if bit d 4 then p\<lparr>init_step := 2, imr := 0\<rparr> else p)
          else if port = base + 1 then
            (if init_step p = 2 then p\<lparr>vector_base := d, init_step := 3\<rparr>
             else if init_step p = 3 then p\<lparr>cascade := d, init_step := 4\<rparr>
             else if init_step p = 4 then p\<lparr>init_step := 0\<rparr>
             else p\<lparr>imr := d\<rparr>)
          else p)"

fun pic_regs :: "u16 \<Rightarrow> io_event list \<Rightarrow> pic" where
  "pic_regs base [] = \<lparr>init_step = 0, imr = 0, vector_base = 0, cascade = 0\<rparr>"
| "pic_regs base (e # es) = pic_event base e (pic_regs base es)"

text \<open>Both controllers are initialised for vectors 0x20 and 0x28 and hold the driver's masks.\<close>

definition pics_ready :: "machine \<Rightarrow> bool" where
  "pics_ready m \<longleftrightarrow>
     pic_regs 0x20 (io m) = \<lparr>init_step = 0, imr = master_mask m, vector_base = 0x20, cascade = 4\<rparr> \<and>
     pic_regs 0xA0 (io m) = \<lparr>init_step = 0, imr = slave_mask m, vector_base = 0x28, cascade = 2\<rparr>"

text \<open>Whether the line \<open>n\<close> of the sixteen interrupt lines can interrupt the processor.\<close>

definition irq_enabled :: "machine \<Rightarrow> nat \<Rightarrow> bool" where
  "irq_enabled m n \<longleftrightarrow>
     (if n < 8 then \<not> bit (imr (pic_regs 0x20 (io m))) n
      else \<not> bit (imr (pic_regs 0xA0 (io m))) (n - 8) \<and> \<not> bit (imr (pic_regs 0x20 (io m))) 2)"

lemmas pic_simps = pic_event_def outb_def Let_def PIC1_COMMAND_def PIC1_DATA_def PIC2_COMMAND_def PIC2_DATA_def

lemma i8259_init_ready: "pics_ready (i8259_init m)"
  by (simp add: pics_ready_def i8259_init_def pic_simps)

lemma bit_ucast_and_not_shl1:
  "unat n < 8 \<Longrightarrow> i < 8 \<Longrightarrow> bit (ucast (ucast (b :: u8) AND NOT (shl1 n)) :: u8) i \<longleftrightarrow> bit b i \<and> i \<noteq> unat n"
  by (simp add: bit_simps shl1_def)

lemma send_eoi_ready: "pics_ready m \<Longrightarrow> irq_num < 16 \<Longrightarrow> pics_ready (send_eoi irq_num m)"
proof -
  assume r: "pics_ready m" and n: "irq_num < 16"
  have b: "\<not> bit k 4" if "k < 8" for k :: u32
  proof -
    have "\<not> bit (unat k) 4" using that by (simp add: bit_iff_odd word_less_nat_alt)
    then show ?thesis by (simp add: bit_unsigned_iff)
  qed
  have lo: "\<not> bit (irq_num - 8) 4" if "8 \<le> irq_num"
    by (rule b) (use n that in unat_arith)
  have hi: "\<not> bit irq_num 4" if "\<not> 8 \<le> irq_num"
    by (rule b) (use n that in unat_arith)
  have "\<not> bit (0x60 :: u32) 4" by simp
  with r lo hi show ?thesis
    by (auto simp: pics_ready_def send_eoi_def pic_simps bit_simps)
qed

section \<open>Properties\<close>

text \<open>
  after \<open>i8259_init\<close>, whatever was written to the controllers before, both are initialised
  for the vectors 0x20 and 0x28 that \<open>idt.c\<close> uses, cascaded on line 2, and hold the driver's
  masks; from such a state \<open>enable_irq\<close> of any line below 16 keeps the agreement between masks
  and hardware, unmasks that line and changes no other.
\<close>

theorem enable_irq_correct:
  assumes "pics_ready m" and "irq_num < 16" and "\<not> bit (master_mask m) 2"
  shows "pics_ready (i8259_init m) \<and> pics_ready (enable_irq irq_num m) \<and>
    (\<forall>n < 16. irq_enabled (enable_irq irq_num m) n \<longleftrightarrow> n = unat irq_num \<or> irq_enabled m n)"
proof (intro conjI)
  show "pics_ready (i8259_init m)" by (rule i8259_init_ready)
  show "pics_ready (enable_irq irq_num m)"
    using assms(1) by (auto simp: pics_ready_def enable_irq_def pic_simps)
  show "\<forall>n < 16. irq_enabled (enable_irq irq_num m) n \<longleftrightarrow> n = unat irq_num \<or> irq_enabled m n"
  proof (intro allI impI)
    fix n :: nat
    assume n: "n < 16"
    show "irq_enabled (enable_irq irq_num m) n \<longleftrightarrow> n = unat irq_num \<or> irq_enabled m n"
    proof (cases "8 \<le> irq_num")
      case True
      have u: "unat (irq_num - 8) = unat irq_num - 8" "8 \<le> unat irq_num" "unat irq_num < 16"
        using True assms(2) by (simp_all add: unat_sub word_le_nat_alt word_less_nat_alt)
      have "irq_enabled (enable_irq irq_num m) n \<longleftrightarrow>
          (if n < 8 then \<not> bit (master_mask m) n
           else \<not> bit (ucast (ucast (slave_mask m) AND NOT (shl1 (irq_num - 8))) :: u8) (n - 8))"
        using True assms(1,3) by (auto simp: irq_enabled_def enable_irq_def pic_simps pics_ready_def)
      then show ?thesis
        using u n assms(1,3) bit_ucast_and_not_shl1 [of "irq_num - 8" "n - 8" "slave_mask m"]
        by (auto simp: irq_enabled_def pics_ready_def)
    next
      case False
      then have u: "unat irq_num < 8" by (simp add: word_le_nat_alt)
      have "irq_enabled (enable_irq irq_num m) n \<longleftrightarrow>
          (if n < 8 then \<not> bit (ucast (ucast (master_mask m) AND NOT (shl1 irq_num)) :: u8) n
           else \<not> bit (slave_mask m) (n - 8))"
        using False u assms(1,3) bit_ucast_and_not_shl1 [of irq_num 2 "master_mask m"]
        by (auto simp: irq_enabled_def enable_irq_def pic_simps pics_ready_def)
      then show ?thesis
        using u n assms(1,3) bit_ucast_and_not_shl1 [of irq_num n "master_mask m"]
        by (auto simp: irq_enabled_def pics_ready_def)
    qed
  qed
qed

theorem enable_irq_correct_witness:
  "irq_enabled (enable_irq 8 (i8259_init (flat_machine (\<lambda>_. 0)\<lparr>master_mask := 0xFB\<rparr>))) 8 \<and>
   \<not> irq_enabled (enable_irq 8 (i8259_init (flat_machine (\<lambda>_. 0)\<lparr>master_mask := 0xFB\<rparr>))) 1"
proof -
  let ?m = "i8259_init (flat_machine (\<lambda>_. 0)\<lparr>master_mask := 0xFB\<rparr>)"
  have mm: "master_mask ?m = 0xFB" by (simp add: i8259_init_def pic_simps)
  have ready: "pics_ready ?m" by (rule i8259_init_ready)
  have "\<not> bit (master_mask ?m) 2" unfolding mm by simp
  with enable_irq_correct [OF ready, of 8]
  have en: "irq_enabled (enable_irq 8 ?m) n \<longleftrightarrow> n = 8 \<or> irq_enabled ?m n" if "n < 16" for n
    using that by simp
  have "\<not> irq_enabled ?m 1" using ready mm by (simp add: irq_enabled_def pics_ready_def)
  with en [of 8] en [of 1] show ?thesis by simp
qed

text \<open>
  \<open>disable_irq\<close> masks a line of the master (lines 0 to 7), but of the slave's lines it masks
  none: for a line from 8 to 15 the bit it sets is beyond the mask byte, so every line that was
  enabled stays enabled.
\<close>

theorem disable_irq_effect:
  assumes "pics_ready m"
  shows "(irq_num < 8 \<longrightarrow> \<not> irq_enabled (disable_irq irq_num m) (unat irq_num)) \<and>
    (8 \<le> irq_num \<and> irq_num < 16 \<longrightarrow>
       (\<forall>n < 16. irq_enabled (disable_irq irq_num m) n = irq_enabled m n))"
proof (intro conjI impI)
  assume "irq_num < 8"
  then have u: "unat irq_num < 8" by (simp add: word_less_nat_alt)
  have "\<not> bit irq_num 3"
  proof -
    have "\<not> bit (unat irq_num) 3" using u by (simp add: bit_iff_odd)
    then show ?thesis by (simp add: bit_unsigned_iff)
  qed
  then have "irq_num AND 8 = 0"
    using and_exp_eq_0_iff_not_bit [of irq_num 3] by simp
  then show "\<not> irq_enabled (disable_irq irq_num m) (unat irq_num)"
    using u assms by (simp add: irq_enabled_def disable_irq_def pic_simps pics_ready_def bit_simps shl1_def)
next
  assume "8 \<le> irq_num \<and> irq_num < 16"
  then have u: "8 \<le> unat irq_num" "unat irq_num < 16"
    by (simp_all add: word_less_nat_alt word_le_nat_alt)
  have z: "(ucast (ucast (b :: u8) OR shl1 irq_num) :: u8) = b" for b
    by (rule bit_eqI) (use u in \<open>auto simp: bit_simps shl1_def\<close>)
  show "\<forall>n < 16. irq_enabled (disable_irq irq_num m) n = irq_enabled m n"
    using assms by (auto simp: irq_enabled_def disable_irq_def pic_simps pics_ready_def z)
qed

theorem disable_irq_effect_witness:
  "\<not> irq_enabled (disable_irq 1 (i8259_init (flat_machine (\<lambda>_. 0)\<lparr>master_mask := 0\<rparr>))) 1 \<and>
   irq_enabled (disable_irq 8 (i8259_init (flat_machine (\<lambda>_. 0)\<lparr>master_mask := 0, slave_mask := 0\<rparr>))) 8"
proof -
  have "irq_enabled (i8259_init (flat_machine (\<lambda>_. 0)\<lparr>master_mask := 0, slave_mask := 0\<rparr>)) 8"
    by (simp add: irq_enabled_def i8259_init_def pic_simps)
  then show ?thesis
    using disable_irq_effect [OF i8259_init_ready, of 1 "flat_machine (\<lambda>_. 0)\<lparr>master_mask := 0\<rparr>"]
      disable_irq_effect [OF i8259_init_ready, of 8 "flat_machine (\<lambda>_. 0)\<lparr>master_mask := 0, slave_mask := 0\<rparr>"]
    by simp
qed

end
