(* ===== verification/Rtc.thy ===== *)
theory Rtc
  imports Pic
begin

text \<open>
  The real-time clock driver, \<open>student-distrib/rtc.c\<close>.

  What the clock answers on its data port is the parameter \<open>dev\<close>.  The body of \<open>rtc_write\<close>
  behind its first load is \<open>rtc_set_freq\<close>, because \<open>rtc_open\<close> and \<open>rtc_close\<close> pass the
  address of a local variable.  \<open>rtc_read\<close> spins on \<open>waiting\<close>; the interrupts that arrive
  while it spins are a list, and \<open>None\<close> means that it is still spinning when the list ends.
  \<open>cmos_reg\<close> reads off a trace of port accesses what was last written to a register of the
  clock.
\<close>

section \<open>Definitions\<close>

definition init_rtc :: "device \<Rightarrow> machine \<Rightarrow> machine" where
  "init_rtc dev m =
     (let m = outb (0x80 OR 0xB) 0x70 m;
          (prev, m) = inb dev 0x71 m;
          m = outb (0x80 OR 0xB) 0x70 m;
          m = outb (ucast (prev OR 0x40)) 0x71 m
      in enable_irq 8 m)"

definition rtc_handler :: "device \<Rightarrow> machine \<Rightarrow> machine" where
  "rtc_handler dev m =
     (let m = cli m;
          m = outb 0x0C 0x70 m;
          (_, m) = inb dev 0x71 m;
          m = m\<lparr>waiting := 0\<rparr>
      in send_eoi 8 m)"

partial_function (option) rtc_count :: "int \<Rightarrow> u32 \<Rightarrow> u32 option" where
  "rtc_count input_freq r = (if input_freq \<le> 16384 then rtc_count (s32 (input_freq * 2)) (r + 1) else Some r)"

definition rtc_set_freq :: "device \<Rightarrow> int \<Rightarrow> machine \<Rightarrow> (int \<times> machine) option" where
  "rtc_set_freq dev input_freq m =
     (if input_freq \<noteq> 2 \<and> input_freq \<noteq> 4 \<and> input_freq \<noteq> 8 \<and> input_freq \<noteq> 16 \<and> input_freq \<noteq> 32 \<and>
         input_freq \<noteq> 64 \<and> input_freq \<noteq> 128 \<and> input_freq \<noteq> 256 \<and> input_freq \<noteq> 512 \<and> input_freq \<noteq> 1024
      then Some (-1, m)
      else do {
        let m = m\<lparr>rate := 0\<rparr>;
        m \<leftarrow> (if input_freq \<noteq> 0 then do {
               r \<leftarrow> rtc_count input_freq (rate m);
               Some (m\<lparr>rate := (if r < 4 then 4 else if 15 < r then 15 else r)\<rparr>)
             } else Some m);
        let m = m\<lparr>rate := rate m AND 0x0F\<rparr>;
        let m = outb (0x80 OR 0xA) 0x70 m;
        let (prev, m) = inb dev 0x71 m;
        let m = outb 0x8A 0x70 m;
        let m = outb (ucast ((prev AND 0xF0) OR rate m)) 0x71 m;
        Some (0, m)
      })"

definition rtc_write :: "device \<Rightarrow> int \<Rightarrow> addr \<Rightarrow> int \<Rightarrow> machine \<Rightarrow> (int \<times> machine) option" where
  "rtc_write dev fd buf nbytes m = do {
     w \<leftarrow> ld32 (vm m) buf;
     rtc_set_freq dev (sint w) m
   }"

definition rtc_open :: "device \<Rightarrow> machine \<Rightarrow> (int \<times> machine) option" where
  "rtc_open dev m = do {
     (_, m) \<leftarrow> rtc_set_freq dev 2 (init_rtc dev m);
     Some (0, m)
   }"

definition rtc_close :: "device \<Rightarrow> int \<Rightarrow> machine \<Rightarrow> (int \<times> machine) option" where
  "rtc_close dev fd m = do {
     (_, m) \<leftarrow> rtc_set_freq dev 0 m;
     Some (0, m)
   }"

datatype irq = Irq_rtc | Irq_other

fun rtc_spin :: "device \<Rightarrow> (machine \<Rightarrow> machine) \<Rightarrow> irq list \<Rightarrow> machine \<Rightarrow> (irq list \<times> machine) option" where
  "rtc_spin dev other irqs m =
     (if waiting m = 0 then Some (irqs, m)
      else (case irqs of
          [] \<Rightarrow> None
        | Irq_rtc # irqs \<Rightarrow> rtc_spin dev other irqs (rtc_handler dev m)
        | Irq_other # irqs \<Rightarrow> rtc_spin dev other irqs (other m)))"

declare rtc_spin.simps [simp del]

definition rtc_read :: "device \<Rightarrow> (machine \<Rightarrow> machine) \<Rightarrow> irq list \<Rightarrow> machine \<Rightarrow> (int \<times> irq list \<times> machine) option" where
  "rtc_read dev other irqs m = do {
     (irqs, m) \<leftarrow> rtc_spin dev other irqs (m\<lparr>waiting := 1\<rparr>);
     Some (0, irqs, m)
   }"

section \<open>What the clock has been told\<close>

fun cmos_index :: "io_event list \<Rightarrow> u8" where
  "cmos_index [] = 0"
| "cmos_index (Outb port d # es) = (if port = 0x70 then d AND 0x7F else cmos_index es)"
| "cmos_index (Inb _ # es) = cmos_index es"

fun cmos_reg :: "io_event list \<Rightarrow> u8 \<Rightarrow> u8 option" where
  "cmos_reg [] i = None"
| "cmos_reg (Outb port d # es) i = (if port = 0x71 \<and> cmos_index es = i then Some d else cmos_reg es i)"
| "cmos_reg (Inb _ # es) i = cmos_reg es i"

text \<open>The frequency in Hz that a rate in the low four bits of register A stands for.\<close>

definition rtc_hz :: "nat \<Rightarrow> nat" where
  "rtc_hz r = drop_bit (r - 1) 32768"

section \<open>The frequency loop\<close>

lemma rtc_count_pow:
  assumes "k \<le> 15"
  shows "rtc_count (2 ^ k) r = Some (r + word_of_nat (15 - k))"
  using assms
proof (induction k arbitrary: r rule: inc_induct)
  case base
  show ?case by (subst rtc_count.simps) simp
next
  case (step k)
  have "(2 :: int) ^ k \<le> 2 ^ 14" using step.hyps by (intro power_increasing) auto
  moreover have "- 1073741824 \<le> (2 :: int) ^ k" by (rule order_trans [of _ 0]) simp_all
  ultimately have "(2 :: int) ^ k \<le> 16384" "s32 (2 ^ k * 2) = 2 ^ Suc k"
    using s32_id [of "2 ^ k * 2"] by simp_all
  moreover have "15 - k = Suc (15 - Suc k)" using step.hyps by simp
  ultimately show ?case
    using step.IH [of "r + 1"] by (subst rtc_count.simps) (simp add: algebra_simps)
qed

definition rtc_freqs :: "int list" where
  "rtc_freqs = [2, 4, 8, 16, 32, 64, 128, 256, 512, 1024]"

lemma rtc_freqs_pow: "f \<in> set rtc_freqs \<longleftrightarrow> (\<exists>k. 1 \<le> k \<and> k \<le> 10 \<and> f = 2 ^ k)"
proof
  have "\<forall>k < 11. 1 \<le> k \<longrightarrow> (2 :: int) ^ k \<in> set rtc_freqs" by code_simp
  then show "\<exists>k. 1 \<le> k \<and> k \<le> 10 \<and> f = 2 ^ k \<Longrightarrow> f \<in> set rtc_freqs" by auto
  have "\<forall>f \<in> set rtc_freqs. \<exists>k \<in> {1..10}. f = 2 ^ k" by code_simp
  then show "f \<in> set rtc_freqs \<Longrightarrow> \<exists>k. 1 \<le> k \<and> k \<le> 10 \<and> f = 2 ^ k" by auto
qed

lemma rate_small:
  assumes "1 \<le> k" and "k \<le> (10 :: nat)"
  shows "(word_of_nat (15 - k) :: u32) AND 0x0F = word_of_nat (15 - k)"
    and "\<not> (word_of_nat (15 - k) :: u32) < 4" and "\<not> 15 < (word_of_nat (15 - k) :: u32)"
proof -
  have "\<forall>j < 15. 5 \<le> j \<longrightarrow> (word_of_nat j :: u32) AND 0x0F = word_of_nat j \<and> \<not> (word_of_nat j :: u32) < 4 \<and>
      \<not> 15 < (word_of_nat j :: u32)"
    by code_simp
  moreover have "15 - k < 15" "5 \<le> 15 - k" using assms by auto
  ultimately show "(word_of_nat (15 - k) :: u32) AND 0x0F = word_of_nat (15 - k)"
    "\<not> (word_of_nat (15 - k) :: u32) < 4" "\<not> 15 < (word_of_nat (15 - k) :: u32)"
    by blast+
qed

lemma rtc_set_freq_accepts:
  assumes "1 \<le> k" and "k \<le> 10"
  shows "\<exists>m'. rtc_set_freq dev (2 ^ k) m = Some (0, m') \<and> rate m' = word_of_nat (15 - k) \<and> vm m' = vm m \<and>
    io m' = [Outb 0x71 (ucast ((ucast (dev (Outb 0x70 0x8A # io m) 0x71) AND 0xF0) OR (word_of_nat (15 - k) :: u32))),
      Outb 0x70 0x8A, Inb 0x71, Outb 0x70 0x8A] @ io m"
proof -
  have "(2 :: int) ^ k \<in> set rtc_freqs" using assms rtc_freqs_pow by auto
  then show ?thesis
    using rtc_count_pow [of k 0] rate_small [OF assms] assms
    by (auto simp: rtc_set_freq_def rtc_freqs_def outb_def inb_def Let_def)
qed

lemma rtc_set_freq_rejects: "f \<notin> set rtc_freqs \<Longrightarrow> rtc_set_freq dev f m = Some (-1, m)"
  by (auto simp: rtc_set_freq_def rtc_freqs_def)

lemma rtc_hz_pow:
  assumes "1 \<le> k" and "k \<le> 10"
  shows "rtc_hz (15 - k) = 2 * 2 ^ k"
proof -
  have "(32768 :: nat) = 2 ^ (Suc k + (14 - k))" using assms by simp
  also have "\<dots> = 2 * 2 ^ k * 2 ^ (14 - k)" by (simp only: power_add power_Suc)
  finally have "(32768 :: nat) div 2 ^ (14 - k) = 2 * 2 ^ k"
    using nonzero_mult_div_cancel_right [of "2 ^ (14 - k)" "2 * 2 ^ k"] by (metis power_not_zero zero_neq_numeral)
  with assms show ?thesis by (simp add: rtc_hz_def drop_bit_eq_div)
qed

lemma reg_a_nibbles:
  assumes "j < 16"
  shows "unat ((ucast ((ucast (b :: u8) AND 0xF0) OR (word_of_nat j :: u32)) :: u8) AND 0x0F) = j"
    and "(ucast ((ucast (b :: u8) AND 0xF0) OR (word_of_nat j :: u32)) :: u8) AND 0xF0 = b AND 0xF0"
proof -
  have j: "\<forall>j < 16. (word_of_nat j :: u8) AND 0x0F = word_of_nat j \<and> (word_of_nat j :: u8) AND 0xF0 = 0" by code_simp
  have eq: "(ucast ((ucast b AND 0xF0) OR (word_of_nat j :: u32)) :: u8) = (b AND 0xF0) OR word_of_nat j"
    by (rule bit_eqI) (auto simp: bit_simps)
  have "((b AND 0xF0) OR word_of_nat j) AND 0x0F = (word_of_nat j :: u8)"
    using j assms by (simp add: and.assoc bit.conj_disj_distrib2)
  then show "unat ((ucast ((ucast b AND 0xF0) OR (word_of_nat j :: u32)) :: u8) AND 0x0F) = j"
    using assms by (simp only: eq) (simp add: unsigned_of_nat take_bit_nat_eq_self)
  have "((b AND 0xF0) OR word_of_nat j) AND 0xF0 = b AND (0xF0 :: u8)"
    using j assms by (simp add: and.assoc bit.conj_disj_distrib2)
  then show "(ucast ((ucast b AND 0xF0) OR (word_of_nat j :: u32)) :: u8) AND 0xF0 = b AND 0xF0"
    by (simp only: eq)
qed

section \<open>Waiting for the clock\<close>

lemma rtc_handler_waiting [simp]: "waiting (rtc_handler dev m) = 0"
  by (simp add: rtc_handler_def send_eoi_def outb_def inb_def cli_def)

lemma rtc_spin_until:
  assumes other: "\<And>m. waiting (other m) = waiting m" and "waiting m \<noteq> 0"
  shows "rtc_spin dev other (replicate n Irq_other @ Irq_rtc # irqs) m =
    Some (irqs, rtc_handler dev ((other ^^ n) m))"
  using assms(2)
proof (induction n arbitrary: m)
  case 0
  then show ?case by (simp add: rtc_spin.simps [of _ _ "_ # _"] rtc_spin.simps [of _ _ irqs])
next
  case (Suc n)
  then have "waiting (other m) \<noteq> 0" by (simp add: other)
  from Suc.IH [OF this] Suc.prems show ?case
    by (simp add: rtc_spin.simps [of _ _ "_ # _"] funpow_swap1)
qed

lemma rtc_spin_blocks:
  assumes other: "\<And>m. waiting (other m) = waiting m" and "waiting m \<noteq> 0"
  shows "rtc_spin dev other (replicate n Irq_other) m = None"
  using assms(2)
proof (induction n arbitrary: m)
  case 0
  then show ?case by (simp add: rtc_spin.simps)
next
  case (Suc n)
  then have "waiting (other m) \<noteq> 0" by (simp add: other)
  from Suc.IH [OF this] Suc.prems show ?case
    by (simp add: rtc_spin.simps [of _ _ "_ # _"])
qed

section \<open>Properties\<close>

text \<open>
  C26: \<open>rtc_write\<close> accepts exactly the powers of two from 2 to 1024 and answers -1 to every other
  value without touching the clock.  When it accepts, the high nibble of register A is kept and
  the low nibble is set to a rate whose frequency is twice the one asked for.
\<close>

theorem rtc_write_rate:
  assumes "ld32 (vm m) buf = Some w"
  shows "(\<forall>k. 1 \<le> k \<and> k \<le> 10 \<and> sint w = 2 ^ k \<longrightarrow>
      (\<exists>m' a. rtc_write dev fd buf nbytes m = Some (0, m') \<and> cmos_reg (io m') 0xA = Some a \<and>
        rtc_hz (unat (a AND 0x0F)) = 2 * 2 ^ k \<and> unat (rate m') = unat (a AND 0x0F) \<and>
        a AND 0xF0 = dev (Outb 0x70 0x8A # io m) 0x71 AND 0xF0)) \<and>
    ((\<nexists>k. 1 \<le> k \<and> k \<le> 10 \<and> sint w = 2 ^ k) \<longrightarrow> rtc_write dev fd buf nbytes m = Some (-1, m))"
proof (intro conjI allI impI)
  fix k :: nat
  assume k: "1 \<le> k \<and> k \<le> 10 \<and> sint w = 2 ^ k"
  let ?b = "dev (Outb 0x70 0x8A # io m) 0x71"
  let ?a = "ucast ((ucast ?b AND 0xF0) OR (word_of_nat (15 - k) :: u32)) :: u8"
  obtain m' where m': "rtc_set_freq dev (2 ^ k) m = Some (0, m')" "rate m' = word_of_nat (15 - k)"
    "io m' = [Outb 0x71 ?a, Outb 0x70 0x8A, Inb 0x71, Outb 0x70 0x8A] @ io m"
    using rtc_set_freq_accepts [of k dev m] k by auto
  have j: "15 - k < 16" by simp
  note nib = reg_a_nibbles [OF j, of ?b]
  have "cmos_reg (io m') 0xA = Some ?a" by (simp add: m'(3))
  moreover have "rtc_hz (unat (?a AND 0x0F)) = 2 * 2 ^ k" using nib(1) rtc_hz_pow k by simp
  moreover have "unat (rate m') = unat (?a AND 0x0F)"
    unfolding nib(1) m'(2) by (simp add: unat_word_of_nat_u32)
  ultimately show "\<exists>m' a. rtc_write dev fd buf nbytes m = Some (0, m') \<and> cmos_reg (io m') 0xA = Some a \<and>
        rtc_hz (unat (a AND 0x0F)) = 2 * 2 ^ k \<and> unat (rate m') = unat (a AND 0x0F) \<and>
        a AND 0xF0 = ?b AND 0xF0"
    using m'(1) nib(2) assms k by (auto simp: rtc_write_def)
next
  assume "\<nexists>k. 1 \<le> k \<and> k \<le> 10 \<and> sint w = 2 ^ k"
  then have "sint w \<notin> set rtc_freqs" by (simp add: rtc_freqs_pow)
  from rtc_set_freq_rejects [OF this] assms show "rtc_write dev fd buf nbytes m = Some (-1, m)"
    by (simp add: rtc_write_def)
qed

theorem rtc_write_rate_witness:
  "\<exists>m' a. rtc_write (\<lambda>_ _. 0x26) 3 0x100 4 (flat_machine ((\<lambda>_. 0)(0x100 := 32))) = Some (0, m') \<and>
    cmos_reg (io m') 0xA = Some a \<and> rtc_hz (unat (a AND 0x0F)) = 64"
proof -
  have w: "ld32 (vm (flat_machine ((\<lambda>_. 0)(0x100 := 32)))) 0x100 = Some 32"
    by (simp add: ld32_def word_of_bytes_def)
  have "1 \<le> (5 :: nat) \<and> 5 \<le> (10 :: nat) \<and> sint (32 :: u32) = 2 ^ 5" by simp
  with rtc_write_rate [OF w, of "\<lambda>_ _. 0x26" 3 4] show ?thesis by fastforce
qed

text \<open>
  C27: \<open>rtc_read\<close> blocks until the next clock interrupt and no longer: with other interrupts
  only it goes on spinning, and at the first clock interrupt, however many others came before,
  it returns 0 with the remaining interrupts still to come.
\<close>

theorem rtc_read_waits:
  assumes "\<And>m. waiting (other m) = waiting m"
  shows "rtc_read dev other (replicate n Irq_other) m = None \<and>
    rtc_read dev other (replicate n Irq_other @ Irq_rtc # irqs) m =
      Some (0, irqs, rtc_handler dev ((other ^^ n) (m\<lparr>waiting := 1\<rparr>)))"
  using rtc_spin_until [OF assms, of "m\<lparr>waiting := 1\<rparr>" dev n irqs]
    rtc_spin_blocks [OF assms, of "m\<lparr>waiting := 1\<rparr>" dev n]
  by (simp add: rtc_read_def)

theorem rtc_read_waits_witness:
  "\<exists>m'. rtc_read (\<lambda>_ _. 0) (send_eoi 1) [Irq_other, Irq_other, Irq_rtc] (flat_machine (\<lambda>_. 0)) = Some (0, [], m')"
proof -
  have "waiting (send_eoi 1 m) = waiting m" for m by (simp add: send_eoi_def outb_def)
  from rtc_read_waits [OF this, of "\<lambda>_ _. 0" 2 "flat_machine (\<lambda>_. 0)" "[]"] show ?thesis
    by (auto simp: numeral_2_eq_2)
qed

end
