(* ===== verification/Kstate.thy ===== *)
theory Kstate
  imports Console Rtc
begin

text \<open>
  The state of the kernel: the machine together with the global variables of \<open>filesys.c\<close>,
  \<open>pcb.c\<close>, \<open>execute.c\<close>, \<open>syscall.c\<close>, \<open>keyboard.c\<close>, \<open>terminal.c\<close> and \<open>schedule.c\<close>.

  \<^item> A C array of structures is a function of its index.  \<open>PCB_array\<close> is indexed with an
    \<open>int\<close>, because the code indexes it with the process id -1 before the first shells exist;
    the entry at -1 stands for the bytes in front of the array.
  \<^item> Character arrays are byte lists of the declared length.  An access beyond the end has no
    value: the operation is \<open>None\<close>, as for a page fault.
  \<^item> \<open>jump_start_idx\<close> points at one of the four tables of file operations, or is null.
  \<^item> \<open>esp\<close> and \<open>ebp\<close> are the processor's registers, where the code reads and writes them;
    \<open>elf_buf\<close> is the address of the local array \<open>buf\<close> of \<open>execute\<close> and \<open>shell_name\<close>
    that of the string constant \<open>shell\<close>.
\<close>

record dentry_t =
  dname :: "u8 list"
  fileType :: u32
  inodeNum :: u32

datatype fop = rtc_struct | dir_struct | file_struct | terminal_struct

record fd_table_entry_t =
  present :: int
  file_pos :: int
  inode_number :: int
  jump_start_idx :: "fop option"
  fdFileType :: int

record PCB_struct =
  fd_table :: "int \<Rightarrow> fd_table_entry_t"
  pcb_in_use :: int
  pcb_esp :: u32
  pcb_ebp :: u32
  task_esp :: u32
  task_ebp :: u32
  pcb_esp0 :: u32
  pcb_ss0 :: u16
  return_label_add :: u32
  parent_pid :: int
  args :: "u8 list"

record tss_t =
  esp0 :: u32
  ss0 :: u16
  ldt_segment_selector :: u16

record terminal_t =
  shell_pid :: int
  video_buffer :: addr
  screen_start :: addr
  t_buf_kb :: "u8 list"
  save_tss :: tss_t
  t_screen_x :: u8
  t_screen_y :: u8
  t_curr_idx :: u8
  t_num_chars :: u8
  t_save_x :: u8
  t_save_y :: u8
  t_prev_num_chars :: u8
  t_prev_buf :: "u8 list"
  curr_process :: int
  enter_flag :: u8

record kernel =
  mach :: machine
  start_addr :: addr
  numdentries :: u32
  numinodes :: u32
  numblocks :: u32
  startdentry :: addr
  curfile :: u32
  currDentry :: dentry_t
  PCB_array :: "int \<Rightarrow> PCB_struct"
  firstInstruct :: u32
  ret_val :: int
  currPid :: int
  currFD :: int
  storeargs :: "u8 list"
  terminals :: "nat \<Rightarrow> terminal_t"
  cur_terminal :: u8
  visible :: u8
  pitCount :: u8
  pitIntrCount :: u8
  num_chars :: int
  curr_idx :: int
  save_x :: int
  save_y :: int
  previous_buf :: "u8 list"
  previous_num_chars :: int
  buf_kb :: "u8 list"
  flag_arr :: "int list"
  tss :: tss_t
  esp :: u32
  ebp :: u32
  elf_buf :: addr
  shell_name :: addr

section \<open>Access to the parts\<close>

abbreviation kvm :: "kernel \<Rightarrow> vmem" where
  "kvm k \<equiv> vm (mach k)"

definition set_vm :: "vmem \<Rightarrow> kernel \<Rightarrow> kernel" where
  "set_vm v k = k\<lparr>mach := (mach k)\<lparr>vm := v\<rparr>\<rparr>"

definition on_mach :: "(machine \<Rightarrow> machine option) \<Rightarrow> kernel \<Rightarrow> kernel option" where
  "on_mach f k = map_option (\<lambda>m. k\<lparr>mach := m\<rparr>) (f (mach k))"

definition on_vm :: "(vmem \<Rightarrow> vmem option) \<Rightarrow> kernel \<Rightarrow> kernel option" where
  "on_vm f k = map_option (\<lambda>v. set_vm v k) (f (kvm k))"

abbreviation upd_mach :: "(machine \<Rightarrow> machine) \<Rightarrow> kernel \<Rightarrow> kernel" where
  "upd_mach f k \<equiv> k\<lparr>mach := f (mach k)\<rparr>"

definition upd_term :: "nat \<Rightarrow> (terminal_t \<Rightarrow> terminal_t) \<Rightarrow> kernel \<Rightarrow> kernel" where
  "upd_term i f k = k\<lparr>terminals := (terminals k)(i := f (terminals k i))\<rparr>"

definition upd_pcb :: "int \<Rightarrow> (PCB_struct \<Rightarrow> PCB_struct) \<Rightarrow> kernel \<Rightarrow> kernel" where
  "upd_pcb i f k = k\<lparr>PCB_array := (PCB_array k)(i := f (PCB_array k i))\<rparr>"

definition upd_fd :: "int \<Rightarrow> int \<Rightarrow> (fd_table_entry_t \<Rightarrow> fd_table_entry_t) \<Rightarrow> kernel \<Rightarrow> kernel" where
  "upd_fd pid fd f k = upd_pcb pid (\<lambda>p. p\<lparr>fd_table := (fd_table p)(fd := f (fd_table p fd))\<rparr>) k"

text \<open>The terminal, process and file table entry that the code calls current.\<close>

abbreviation ct :: "kernel \<Rightarrow> nat" where
  "ct k \<equiv> unat (cur_terminal k)"

abbreviation vt :: "kernel \<Rightarrow> nat" where
  "vt k \<equiv> unat (visible k)"

abbreviation cur_process :: "kernel \<Rightarrow> int" where
  "cur_process k \<equiv> curr_process (terminals k (ct k))"

abbreviation fd_of :: "kernel \<Rightarrow> int \<Rightarrow> int \<Rightarrow> fd_table_entry_t" where
  "fd_of k pid fd \<equiv> fd_table (PCB_array k pid) fd"

text \<open>A store of the bytes of a kernel array to memory, as \<open>memcpy\<close> and \<open>memmove\<close> make it.\<close>

definition copy_out :: "addr \<Rightarrow> u8 list \<Rightarrow> nat \<Rightarrow> kernel \<Rightarrow> kernel option" where
  "copy_out dest src n k = (if n \<le> length src then on_vm (\<lambda>v. st_bytes v dest (take n src)) k else None)"

lemma set_vm_fields [simp]:
  "kvm (set_vm v k) = v" "set_vm (kvm k) k = k" "set_vm w (set_vm v k) = set_vm w k"
  "terminals (set_vm v k) = terminals k" "PCB_array (set_vm v k) = PCB_array k"
  "cur_terminal (set_vm v k) = cur_terminal k" "visible (set_vm v k) = visible k"
  by (simp_all add: set_vm_def)

lemma on_vm_Some: "on_vm f k = Some k' \<longleftrightarrow> (\<exists>v. f (kvm k) = Some v \<and> k' = set_vm v k)"
  by (auto simp: on_vm_def)

lemma on_mach_Some: "on_mach f k = Some k' \<longleftrightarrow> (\<exists>m. f (mach k) = Some m \<and> k' = k\<lparr>mach := m\<rparr>)"
  by (auto simp: on_mach_def)

lemma upd_term_fields [simp]:
  "mach (upd_term i f k) = mach k" "PCB_array (upd_term i f k) = PCB_array k"
  "terminals (upd_term i f k) = (terminals k)(i := f (terminals k i))"
  "cur_terminal (upd_term i f k) = cur_terminal k" "visible (upd_term i f k) = visible k"
  by (simp_all add: upd_term_def)

lemma upd_pcb_fields [simp]:
  "mach (upd_pcb i f k) = mach k" "terminals (upd_pcb i f k) = terminals k"
  "PCB_array (upd_pcb i f k) = (PCB_array k)(i := f (PCB_array k i))"
  "cur_terminal (upd_pcb i f k) = cur_terminal k" "visible (upd_pcb i f k) = visible k"
  by (simp_all add: upd_pcb_def)

lemma upd_fd_fields [simp]:
  "mach (upd_fd i j f k) = mach k" "terminals (upd_fd i j f k) = terminals k"
  "cur_terminal (upd_fd i j f k) = cur_terminal k" "visible (upd_fd i j f k) = visible k"
  "fd_of (upd_fd i j f k) i' j' = (if i' = i \<and> j' = j then f (fd_of k i j) else fd_of k i' j')"
  "pcb_in_use (PCB_array (upd_fd i j f k) i') = pcb_in_use (PCB_array k i')"
  "parent_pid (PCB_array (upd_fd i j f k) i') = parent_pid (PCB_array k i')"
  by (simp_all add: upd_fd_def)

lemma set_vm_rest [simp]:
   "start_addr (set_vm v k) = start_addr k" "numdentries (set_vm v k) = numdentries k" "numinodes (set_vm v k) = numinodes k"
   "numblocks (set_vm v k) = numblocks k" "startdentry (set_vm v k) = startdentry k" "curfile (set_vm v k) = curfile k"
   "currDentry (set_vm v k) = currDentry k" "firstInstruct (set_vm v k) = firstInstruct k" "ret_val (set_vm v k) = ret_val k"
   "currPid (set_vm v k) = currPid k" "currFD (set_vm v k) = currFD k" "storeargs (set_vm v k) = storeargs k"
   "pitCount (set_vm v k) = pitCount k" "pitIntrCount (set_vm v k) = pitIntrCount k" "num_chars (set_vm v k) = num_chars k"
   "curr_idx (set_vm v k) = curr_idx k" "save_x (set_vm v k) = save_x k" "save_y (set_vm v k) = save_y k"
   "previous_buf (set_vm v k) = previous_buf k" "previous_num_chars (set_vm v k) = previous_num_chars k"
   "buf_kb (set_vm v k) = buf_kb k" "flag_arr (set_vm v k) = flag_arr k" "tss (set_vm v k) = tss k"
   "esp (set_vm v k) = esp k" "ebp (set_vm v k) = ebp k" "elf_buf (set_vm v k) = elf_buf k" "shell_name (set_vm v k) = shell_name k"
  by (simp_all add: set_vm_def)

lemma upd_term_rest [simp]:
   "start_addr (upd_term i f k) = start_addr k" "numdentries (upd_term i f k) = numdentries k"
   "numinodes (upd_term i f k) = numinodes k" "numblocks (upd_term i f k) = numblocks k" "startdentry (upd_term i f k) = startdentry k"
   "curfile (upd_term i f k) = curfile k" "currDentry (upd_term i f k) = currDentry k" "firstInstruct (upd_term i f k) = firstInstruct k"
   "ret_val (upd_term i f k) = ret_val k" "currPid (upd_term i f k) = currPid k" "currFD (upd_term i f k) = currFD k"
   "storeargs (upd_term i f k) = storeargs k" "pitCount (upd_term i f k) = pitCount k" "pitIntrCount (upd_term i f k) = pitIntrCount k"
   "num_chars (upd_term i f k) = num_chars k" "curr_idx (upd_term i f k) = curr_idx k" "save_x (upd_term i f k) = save_x k"
   "save_y (upd_term i f k) = save_y k" "previous_buf (upd_term i f k) = previous_buf k" "previous_num_chars (upd_term i f k) = previous_num_chars k"
   "buf_kb (upd_term i f k) = buf_kb k" "flag_arr (upd_term i f k) = flag_arr k" "tss (upd_term i f k) = tss k"
   "esp (upd_term i f k) = esp k" "ebp (upd_term i f k) = ebp k" "elf_buf (upd_term i f k) = elf_buf k"
   "shell_name (upd_term i f k) = shell_name k"
  by (simp_all add: upd_term_def)

lemma upd_pcb_rest [simp]:
   "start_addr (upd_pcb i f k) = start_addr k" "numdentries (upd_pcb i f k) = numdentries k"
   "numinodes (upd_pcb i f k) = numinodes k" "numblocks (upd_pcb i f k) = numblocks k" "startdentry (upd_pcb i f k) = startdentry k"
   "curfile (upd_pcb i f k) = curfile k" "currDentry (upd_pcb i f k) = currDentry k" "firstInstruct (upd_pcb i f k) = firstInstruct k"
   "ret_val (upd_pcb i f k) = ret_val k" "currPid (upd_pcb i f k) = currPid k" "currFD (upd_pcb i f k) = currFD k"
   "storeargs (upd_pcb i f k) = storeargs k" "pitCount (upd_pcb i f k) = pitCount k" "pitIntrCount (upd_pcb i f k) = pitIntrCount k"
   "num_chars (upd_pcb i f k) = num_chars k" "curr_idx (upd_pcb i f k) = curr_idx k" "save_x (upd_pcb i f k) = save_x k"
   "save_y (upd_pcb i f k) = save_y k" "previous_buf (upd_pcb i f k) = previous_buf k" "previous_num_chars (upd_pcb i f k) = previous_num_chars k"
   "buf_kb (upd_pcb i f k) = buf_kb k" "flag_arr (upd_pcb i f k) = flag_arr k" "tss (upd_pcb i f k) = tss k"
   "esp (upd_pcb i f k) = esp k" "ebp (upd_pcb i f k) = ebp k" "elf_buf (upd_pcb i f k) = elf_buf k"
   "shell_name (upd_pcb i f k) = shell_name k"
  by (simp_all add: upd_pcb_def)

lemma upd_fd_rest [simp]:
   "start_addr (upd_fd i j f k) = start_addr k" "numdentries (upd_fd i j f k) = numdentries k"
   "numinodes (upd_fd i j f k) = numinodes k" "numblocks (upd_fd i j f k) = numblocks k" "startdentry (upd_fd i j f k) = startdentry k"
   "curfile (upd_fd i j f k) = curfile k" "currDentry (upd_fd i j f k) = currDentry k" "firstInstruct (upd_fd i j f k) = firstInstruct k"
   "ret_val (upd_fd i j f k) = ret_val k" "currPid (upd_fd i j f k) = currPid k" "currFD (upd_fd i j f k) = currFD k"
   "storeargs (upd_fd i j f k) = storeargs k" "pitCount (upd_fd i j f k) = pitCount k" "pitIntrCount (upd_fd i j f k) = pitIntrCount k"
   "num_chars (upd_fd i j f k) = num_chars k" "curr_idx (upd_fd i j f k) = curr_idx k" "save_x (upd_fd i j f k) = save_x k"
   "save_y (upd_fd i j f k) = save_y k" "previous_buf (upd_fd i j f k) = previous_buf k" "previous_num_chars (upd_fd i j f k) = previous_num_chars k"
   "buf_kb (upd_fd i j f k) = buf_kb k" "flag_arr (upd_fd i j f k) = flag_arr k" "tss (upd_fd i j f k) = tss k"
   "esp (upd_fd i j f k) = esp k" "ebp (upd_fd i j f k) = ebp k" "elf_buf (upd_fd i j f k) = elf_buf k"
   "shell_name (upd_fd i j f k) = shell_name k"
  by (simp_all add: upd_fd_def)

section \<open>The globals as the loader leaves them\<close>

text \<open>
  Static storage is zero except for the initialised variables: \<open>curfile = 1\<close>.  The machine, the
  stack pointer and the two addresses are parameters.
\<close>

definition zero_dentry :: dentry_t where
  "zero_dentry = \<lparr>dname = replicate 32 0, fileType = 0, inodeNum = 0\<rparr>"

definition zero_fd :: fd_table_entry_t where
  "zero_fd = \<lparr>present = 0, file_pos = 0, inode_number = 0, jump_start_idx = None, fdFileType = 0\<rparr>"

definition zero_pcb :: PCB_struct where
  "zero_pcb = \<lparr>fd_table = (\<lambda>_. zero_fd), pcb_in_use = 0, pcb_esp = 0, pcb_ebp = 0, task_esp = 0, task_ebp = 0,
     pcb_esp0 = 0, pcb_ss0 = 0, return_label_add = 0, parent_pid = 0, args = replicate 1024 0\<rparr>"

definition zero_tss :: tss_t where
  "zero_tss = \<lparr>esp0 = 0, ss0 = 0, ldt_segment_selector = 0\<rparr>"

definition zero_terminal :: terminal_t where
  "zero_terminal = \<lparr>shell_pid = 0, video_buffer = 0, screen_start = 0, t_buf_kb = replicate 128 0, save_tss = zero_tss,
     t_screen_x = 0, t_screen_y = 0, t_curr_idx = 0, t_num_chars = 0, t_save_x = 0, t_save_y = 0,
     t_prev_num_chars = 0, t_prev_buf = replicate 128 0, curr_process = 0, enter_flag = 0\<rparr>"

definition zero_kernel :: "machine \<Rightarrow> u32 \<Rightarrow> addr \<Rightarrow> addr \<Rightarrow> kernel" where
  "zero_kernel m sp buf nm = \<lparr>mach = m, start_addr = 0, numdentries = 0, numinodes = 0, numblocks = 0, startdentry = 0,
     curfile = 1, currDentry = zero_dentry, PCB_array = (\<lambda>_. zero_pcb), firstInstruct = 0, ret_val = 0, currPid = 0,
     currFD = 0, storeargs = replicate 1024 0, terminals = (\<lambda>_. zero_terminal), cur_terminal = 0, visible = 0,
     pitCount = 0, pitIntrCount = 0, num_chars = 0, curr_idx = 0, save_x = 0, save_y = 0,
     previous_buf = replicate 128 0, previous_num_chars = 0, buf_kb = replicate 128 0, flag_arr = replicate 5 0,
     tss = zero_tss, esp = sp, ebp = sp, elf_buf = buf, shell_name = nm\<rparr>"

lemma zero_kernel_fields [simp]:
  "mach (zero_kernel m sp buf nm) = m" "cur_terminal (zero_kernel m sp buf nm) = 0" "visible (zero_kernel m sp buf nm) = 0"
  "PCB_array (zero_kernel m sp buf nm) = (\<lambda>_. zero_pcb)" "terminals (zero_kernel m sp buf nm) = (\<lambda>_. zero_terminal)"
  by (simp_all add: zero_kernel_def)

end
