(* ===== verification/Paging.thy ===== *)
theory Paging
  imports Kstate
begin

text \<open>
  Address spaces, \<open>student-distrib/paging.c\<close>.

  The operations change the page directory and the two page tables of \<open>vmem\<close>.  \<open>layout v\<close> is
  the well-formedness invariant of the kernel's single address space: the low page table with
  the video page, the kernel's own 4 MB page, at most one process page and the page of the user
  video mapping, and nothing else.  The lemmas show that \<open>init_paging\<close> establishes it, that
  every later operation keeps it, and what it gives: user code reaches only its process page and
  the user video pages.
\<close>

section \<open>Definitions\<close>

definition FOUR_KB :: u32 where "FOUR_KB = 4096"
definition FOUR_MB :: u32 where "FOUR_MB = 4194304"
definition VIDEO_MEM_INDEX :: nat where "VIDEO_MEM_INDEX = 0xB8"
definition VIDEO_MEM :: u32 where "VIDEO_MEM = 0xB8000"
definition USER_MAP_LOC :: u32 where "USER_MAP_LOC = 138412032"

definition set_pde :: "nat \<Rightarrow> u32 \<Rightarrow> vmem \<Rightarrow> vmem" where
  "set_pde i e v = v\<lparr>page_directory := (page_directory v)(i := e)\<rparr>"

definition set_pte :: "nat \<Rightarrow> u32 \<Rightarrow> vmem \<Rightarrow> vmem" where
  "set_pte i e v = v\<lparr>page_table := (page_table v)(i := e)\<rparr>"

definition set_upte :: "nat \<Rightarrow> u32 \<Rightarrow> vmem \<Rightarrow> vmem" where
  "set_upte i e v = v\<lparr>user_video_page_table := (user_video_page_table v)(i := e)\<rparr>"

fun init_tables :: "nat \<Rightarrow> nat \<Rightarrow> vmem \<Rightarrow> vmem" where
  "init_tables i 0 v = v"
| "init_tables i (Suc n) v =
     init_tables (i + 1) n (set_pte i ((word_of_nat i * FOUR_KB) OR 0x2) (set_pde i 0x00000002 v))"

definition enable_paging :: "vmem \<Rightarrow> vmem" where
  "enable_paging v = v\<lparr>paging_on := True\<rparr>"

definition init_paging :: "vmem \<Rightarrow> vmem" where
  "init_paging v =
     (let v = init_tables 0 1024 v;
          v = set_pte VIDEO_MEM_INDEX (page_table v VIDEO_MEM_INDEX OR 3) v;
          v = set_pte (VIDEO_MEM_INDEX + 1) (page_table v (VIDEO_MEM_INDEX + 1) OR 7) v;
          v = set_pte (VIDEO_MEM_INDEX + 2) (page_table v (VIDEO_MEM_INDEX + 2) OR 7) v;
          v = set_pte (VIDEO_MEM_INDEX + 3) (page_table v (VIDEO_MEM_INDEX + 3) OR 7) v;
          v = set_pde 0 (page_table_addr v OR 0x3) v;
          v = set_pde 1 (FOUR_MB OR 0x83) v
      in enable_paging v)"

definition map_page :: "u32 \<Rightarrow> u32 \<Rightarrow> u32 \<Rightarrow> vmem \<Rightarrow> vmem" where
  "map_page physaddr virtualaddr flags v =
     (if physaddr mod FOUR_KB \<noteq> 0 then v
      else if virtualaddr mod FOUR_KB \<noteq> 0 then v
      else if page_directory v (unat (virtualaddr div FOUR_MB)) \<noteq> 0 then
        set_pde (unat (virtualaddr div FOUR_MB)) (physaddr OR flags) v
      else set_pde (unat (virtualaddr div FOUR_MB)) (physaddr OR 0x87) v)"

definition map_video_page :: "u8 \<Rightarrow> vmem \<Rightarrow> vmem" where
  "map_video_page terminal v =
     set_pte VIDEO_MEM_INDEX (((word_of_nat VIDEO_MEM_INDEX + ucast terminal) * FOUR_KB) OR 3) v"

definition vid_map :: "addr \<Rightarrow> kernel \<Rightarrow> (int \<times> kernel) option" where
  "vid_map start k = do {
     let k = upd_term (ct k) (\<lambda>t. t\<lparr>screen_start := start\<rparr>) k;
     let v = set_pde (unat (USER_MAP_LOC div FOUR_MB)) (user_video_page_table_addr (kvm k) OR 7) (kvm k);
     let v = set_upte (ct k) (VIDEO_MEM OR 7) v;
     v \<leftarrow> st_bytes v start (bytes_of_word (USER_MAP_LOC + ucast (cur_terminal k) * FOUR_KB));
     Some (0, set_vm v k)
   }"

lemma length_bytes_of_word [simp]: "length (bytes_of_word w) = 4"
  by (simp add: bytes_of_word_def)

lemma unat_ucast_u8: "unat (ucast (x :: u8) :: u32) = unat x"
  using unsigned_less [of x, where ?'a = nat] by (simp add: unsigned_ucast_eq take_bit_nat_eq_self)

section \<open>The layout of the address space\<close>

definition proc_pde :: "int \<Rightarrow> u32" where
  "proc_pde pid = word_of_int ((pid + 2) * 4194304) OR 0x87"

definition layout :: "vmem \<Rightarrow> bool" where
  "layout v \<longleftrightarrow>
     paging_on v \<and>
     page_table_addr v AND 0xFFF = 0 \<and> user_video_page_table_addr v AND 0xFFF = 0 \<and>
     page_table_addr v \<noteq> user_video_page_table_addr v \<and>
     page_directory v 0 = page_table_addr v OR 3 \<and>
     page_directory v 1 = 0x400083 \<and>
     (page_directory v 32 = 2 \<or> (\<exists>pid. 0 \<le> pid \<and> pid < 6 \<and> page_directory v 32 = proc_pde pid)) \<and>
     (page_directory v 33 = 2 \<or> page_directory v 33 = user_video_page_table_addr v OR 7) \<and>
     (\<forall>i < 1024. i \<notin> {0, 1, 32, 33} \<longrightarrow> page_directory v i = 2) \<and>
     (\<exists>t < 4. page_table v 0xB8 = ((0xB8 + t) * 4096) OR 3) \<and>
     page_table v 0xB9 = 0xB9007 \<and> page_table v 0xBA = 0xBA007 \<and> page_table v 0xBB = 0xBB007 \<and>
     (\<forall>i < 1024. i \<notin> {0xB8, 0xB9, 0xBA, 0xBB} \<longrightarrow> page_table v i = (word_of_nat i * 4096) OR 2) \<and>
     (\<forall>i < 1024. \<not> bit (user_video_page_table v i) 0 \<or>
        (\<exists>t < 4. user_video_page_table v i = ((0xB8 + t) * 4096) OR 7))"

lemma upd_simps [simp]:
  "page_directory (set_pde i e v) = (page_directory v)(i := e)" "page_table (set_pde i e v) = page_table v"
  "user_video_page_table (set_pde i e v) = user_video_page_table v" "paging_on (set_pde i e v) = paging_on v"
  "page_table_addr (set_pde i e v) = page_table_addr v" "pmem (set_pde i e v) = pmem v"
  "user_video_page_table_addr (set_pde i e v) = user_video_page_table_addr v"
  "page_directory (set_pte i e v) = page_directory v" "page_table (set_pte i e v) = (page_table v)(i := e)"
  "user_video_page_table (set_pte i e v) = user_video_page_table v" "paging_on (set_pte i e v) = paging_on v"
  "page_table_addr (set_pte i e v) = page_table_addr v" "pmem (set_pte i e v) = pmem v"
  "user_video_page_table_addr (set_pte i e v) = user_video_page_table_addr v"
  "page_directory (set_upte i e v) = page_directory v" "page_table (set_upte i e v) = page_table v"
  "user_video_page_table (set_upte i e v) = (user_video_page_table v)(i := e)" "paging_on (set_upte i e v) = paging_on v"
  "page_table_addr (set_upte i e v) = page_table_addr v" "pmem (set_upte i e v) = pmem v"
  "user_video_page_table_addr (set_upte i e v) = user_video_page_table_addr v"
  by (simp_all add: set_pde_def set_pte_def set_upte_def)

lemma init_tables_fields:
  "page_directory (init_tables i n v) j = (if i \<le> j \<and> j < i + n then 2 else page_directory v j)"
  "page_table (init_tables i n v) j = (if i \<le> j \<and> j < i + n then (word_of_nat j * 4096) OR 2 else page_table v j)"
  "user_video_page_table (init_tables i n v) = user_video_page_table v"
  "page_table_addr (init_tables i n v) = page_table_addr v" "pmem (init_tables i n v) = pmem v"
  "user_video_page_table_addr (init_tables i n v) = user_video_page_table_addr v"
  by (induction n arbitrary: i v) (auto simp: FOUR_KB_def)

text \<open>What the linker and the loader give: aligned, distinct tables, the second one zeroed.\<close>

definition tables_placed :: "vmem \<Rightarrow> bool" where
  "tables_placed v \<longleftrightarrow> page_table_addr v AND 0xFFF = 0 \<and> user_video_page_table_addr v AND 0xFFF = 0 \<and>
     page_table_addr v \<noteq> user_video_page_table_addr v \<and> (\<forall>i. user_video_page_table v i = 0)"

lemma init_paging_layout: "tables_placed v \<Longrightarrow> layout (init_paging v)"
  unfolding layout_def tables_placed_def
  by (auto simp: init_paging_def Let_def enable_paging_def init_tables_fields VIDEO_MEM_INDEX_def FOUR_MB_def
      intro!: exI [of _ "0 :: u32"])

lemma map_video_page_layout:
  assumes "layout v" and "t < 4"
  shows "layout (map_video_page t v)"
proof -
  have "(ucast t :: u32) < 4" using assms(2) by (simp add: word_less_nat_alt unat_ucast_u8)
  then show ?thesis
    using assms(1) unfolding layout_def
    by (auto simp: map_video_page_def VIDEO_MEM_INDEX_def FOUR_KB_def)
qed

definition proc_page :: "int \<Rightarrow> u32" where
  "proc_page pid = word_of_int ((pid + 2) * 4194304)"

lemma proc_facts:
  assumes "0 \<le> pid" and "pid < 6"
  shows "proc_page pid mod FOUR_KB = 0" and "bit (proc_pde pid) 0" and "bit (proc_pde pid) 2" and "bit (proc_pde pid) 7"
    and "proc_pde pid AND 0xFFC00000 = proc_page pid" and "unat (proc_page pid) = nat (pid + 2) * 4194304"
proof -
  have "\<forall>p \<in> set [0 .. 5]. proc_page p mod FOUR_KB = 0 \<and> bit (proc_pde p) 0 \<and> bit (proc_pde p) 2 \<and> bit (proc_pde p) 7 \<and>
      proc_pde p AND 0xFFC00000 = proc_page p \<and> uint (proc_page p) = (p + 2) * 4194304"
    by code_simp
  moreover have "pid \<in> set [0 .. 5]" using assms by simp
  ultimately have *: "proc_page pid mod FOUR_KB = 0" "bit (proc_pde pid) 0" "bit (proc_pde pid) 2" "bit (proc_pde pid) 7"
    "proc_pde pid AND 0xFFC00000 = proc_page pid" "uint (proc_page pid) = (pid + 2) * 4194304"
    by blast+
  from *(6) assms(1) have "unat (proc_page pid) = nat (pid + 2) * 4194304"
    by (simp only: unat_eq_nat_uint) (simp add: nat_mult_distrib)
  with * show "proc_page pid mod FOUR_KB = 0" "bit (proc_pde pid) 0" "bit (proc_pde pid) 2" "bit (proc_pde pid) 7"
    "proc_pde pid AND 0xFFC00000 = proc_page pid" "unat (proc_page pid) = nat (pid + 2) * 4194304"
    by blast+
qed

lemma map_process_page:
  assumes "layout v" and "0 \<le> pid" and "pid < 6"
  shows "map_page (proc_page pid) 0x08000000 0x87 v = set_pde 32 (proc_pde pid) v"
    and "layout (map_page (proc_page pid) 0x08000000 0x87 v)"
proof -
  show eq: "map_page (proc_page pid) 0x08000000 0x87 v = set_pde 32 (proc_pde pid) v"
    using proc_facts(1) [OF assms(2,3)] by (simp add: map_page_def FOUR_KB_def FOUR_MB_def proc_pde_def proc_page_def)
  show "layout (map_page (proc_page pid) 0x08000000 0x87 v)"
    unfolding eq using assms unfolding layout_def by auto
qed

section \<open>Page walks in the layout\<close>

lemma page_of_entry:
  assumes "(a :: u32) AND 0xFFF = 0" and "f AND 0xFFFFF000 = 0"
  shows "(a OR f) AND 0xFFFFF000 = a"
proof -
  have m: "(0xFFF :: u32) OR 0xFFFFF000 = -1" by simp
  have "a = a AND (0xFFF OR 0xFFFFF000)" by (simp only: m) simp
  also have "\<dots> = a AND 0xFFFFF000" using assms(1) by (simp only: bit.conj_disj_distrib) simp
  finally have "a AND 0xFFFFF000 = a" by simp
  then show ?thesis using assms(2) by (simp add: bit.conj_disj_distrib2)
qed

lemma frame_of:
  "drop_bit n ((a :: u32) OR take_bit n b) = drop_bit n a" "take_bit n a = 0 \<Longrightarrow> take_bit n (a OR take_bit n b) = take_bit n b"
  by (rule bit_eqI, auto simp: bit_simps)+

lemma dir_index_lt: "unat (drop_bit 22 (va :: u32)) < 1024"
  using unat_u32_lt [of va] by (simp only: unat_drop_bit_eq) (simp add: drop_bit_eq_div less_mult_imp_div_less)

lemma table_index_lt: "unat (drop_bit 12 (va :: u32) AND 0x3FF) < 1024"
proof -
  have "unat (take_bit 10 (drop_bit 12 va)) < 2 ^ 10"
    by (simp only: unsigned_take_bit_eq take_bit_nat_less_exp)
  then show ?thesis by (simp only: and_0x3FF) simp
qed

lemma layout_tables:
  assumes "layout v"
  shows "table_at v (page_directory v 0 AND 0xFFFFF000) = Some (page_table v)"
    and "page_directory v 33 \<noteq> 2 \<Longrightarrow> table_at v (page_directory v 33 AND 0xFFFFF000) = Some (user_video_page_table v)"
  using assms page_of_entry [of "page_table_addr v" 3] page_of_entry [of "user_video_page_table_addr v" 7]
  by (auto simp: layout_def table_at_def)

lemma aligned_entry_bits:
  assumes "(a :: u32) AND 0xFFF = 0"
  shows "bit (a OR 3) 0" "\<not> bit (a OR 3) 2" "\<not> bit (a OR 3) 7" "bit (a OR 7) 0" "bit (a OR 7) 2" "\<not> bit (a OR 7) 7"
proof -
  have z: "\<not> bit a n" if "n < 12" for n
  proof
    assume "bit a n"
    with that have "bit (take_bit 12 a) n" by (simp add: bit_simps)
    with assms show False by (simp add: and_0xFFF)
  qed
  have n: "bit (3 :: u32) 0" "\<not> bit (3 :: u32) 2" "\<not> bit (3 :: u32) 7" "bit (7 :: u32) 0" "bit (7 :: u32) 2" "\<not> bit (7 :: u32) 7"
    by simp_all
  show "bit (a OR 3) 0" "\<not> bit (a OR 3) 2" "\<not> bit (a OR 3) 7" "bit (a OR 7) 0" "bit (a OR 7) 2" "\<not> bit (a OR 7) 7"
    using n z by (simp_all only: bit_or_iff) simp_all
qed

lemma u32_lt4:
  assumes "t < (4 :: u32)"
  shows "t = 0 \<or> t = 1 \<or> t = 2 \<or> t = 3"
proof -
  have "unat t < 4" using assms by (simp add: word_less_nat_alt)
  then have "unat t = 0 \<or> unat t = 1 \<or> unat t = 2 \<or> unat t = 3" by auto
  moreover have "t = word_of_nat (unat t)" by simp
  ultimately show ?thesis by fastforce
qed

lemma u8_lt3:
  assumes "t < (3 :: u8)"
  shows "t = 0 \<or> t = 1 \<or> t = 2"
proof -
  have "unat t < 3" using assms by (simp add: word_less_nat_alt)
  then have "unat t = 0 \<or> unat t = 1 \<or> unat t = 2" by auto
  moreover have "t = word_of_nat (unat t)" by simp
  ultimately show ?thesis by fastforce
qed

lemma video_entries:
  assumes "t < (4 :: u32)"
  shows "bit (((0xB8 + t) * 4096) OR 3) 0" "bit (((0xB8 + t) * 4096) OR 7) 0" "bit (((0xB8 + t) * 4096) OR 7) 2"
    "\<not> bit (((0xB8 + t) * 4096) OR 3) 2"
    "(((0xB8 + t) * 4096) OR 3) AND 0xFFFFF000 = (0xB8 + t) * 4096"
    "(((0xB8 + t) * 4096) OR 7) AND 0xFFFFF000 = (0xB8 + t) * 4096"
    "drop_bit 12 ((0xB8 + t) * 4096) = 0xB8 + t" "take_bit 12 ((0xB8 + t) * 4096) = 0"
proof -
  have "\<forall>t \<in> set [0 :: u32, 1, 2, 3]. bit (((0xB8 + t) * 4096) OR 3) 0 \<and> bit (((0xB8 + t) * 4096) OR 7) 0 \<and>
    bit (((0xB8 + t) * 4096) OR 7) 2 \<and> \<not> bit (((0xB8 + t) * 4096) OR 3) 2 \<and>
    (((0xB8 + t) * 4096) OR 3) AND 0xFFFFF000 = (0xB8 + t) * 4096 \<and>
    (((0xB8 + t) * 4096) OR 7) AND 0xFFFFF000 = (0xB8 + t) * 4096 \<and>
    drop_bit 12 ((0xB8 + t) * 4096) = 0xB8 + t \<and> take_bit 12 ((0xB8 + t) * 4096) = 0"
    by code_simp
  moreover have "t \<in> set [0 :: u32, 1, 2, 3]" using u32_lt4 [OF assms] by auto
  ultimately show "bit (((0xB8 + t) * 4096) OR 3) 0" "bit (((0xB8 + t) * 4096) OR 7) 0" "bit (((0xB8 + t) * 4096) OR 7) 2"
    "\<not> bit (((0xB8 + t) * 4096) OR 3) 2"
    "(((0xB8 + t) * 4096) OR 3) AND 0xFFFFF000 = (0xB8 + t) * 4096"
    "(((0xB8 + t) * 4096) OR 7) AND 0xFFFFF000 = (0xB8 + t) * 4096"
    "drop_bit 12 ((0xB8 + t) * 4096) = 0xB8 + t" "take_bit 12 ((0xB8 + t) * 4096) = 0"
    by blast+
qed

lemma video_frame_addr: "t < 4 \<Longrightarrow> drop_bit 12 (((0xB8 + t) * 4096) OR take_bit 12 a) = 0xB8 + (t :: u32)"
  by (simp only: frame_of(1) video_entries(7))

lemma proc_frame:
  assumes "0 \<le> pid" and "pid < 6"
  shows "drop_bit 22 (proc_page pid OR take_bit 22 a) = word_of_int (pid + 2)" and "(word_of_int (pid + 2) :: u32) \<noteq> 1"
proof -
  have "\<forall>p \<in> set [0 .. 5]. drop_bit 22 (proc_page p) = word_of_int (p + 2) \<and> (word_of_int (p + 2) :: u32) \<noteq> 1"
    by code_simp
  moreover have "pid \<in> set [0 .. 5]" using assms by simp
  ultimately have "drop_bit 22 (proc_page pid) = word_of_int (pid + 2) \<and> (word_of_int (pid + 2) :: u32) \<noteq> 1"
    by (rule bspec)
  then show "drop_bit 22 (proc_page pid OR take_bit 22 a) = word_of_int (pid + 2)" "(word_of_int (pid + 2) :: u32) \<noteq> 1"
    by (simp_all only: frame_of(1) not_False_eq_True)
qed

lemma proc_page_aligned:
  assumes "0 \<le> pid" and "pid < 6"
  shows "take_bit 22 (proc_page pid) = 0"
proof -
  have "\<forall>p \<in> set [0 .. 5]. take_bit 22 (proc_page p) = 0" by code_simp
  moreover have "pid \<in> set [0 .. 5]" using assms by simp
  ultimately show ?thesis by blast
qed

lemma translate_process_page:
  assumes "layout v" and "0 \<le> pid" and "pid < 6" and "page_directory v 32 = proc_pde pid" and "drop_bit 22 va = (32 :: u32)"
  shows "translate v va = Some (proc_page pid OR take_bit 22 va)" and "user_access v va"
  using assms proc_facts [OF assms(2,3)]
  by (simp_all add: translate_def user_access_def layout_def Let_def and_0x3FFFFF)

lemma translate_kernel_page:
  assumes "layout v" and "drop_bit 22 va = (1 :: u32)"
  shows "translate v va = Some va" and "\<not> user_access v va"
proof -
  have b: "bit (0x400083 :: u32) 0" "bit (0x400083 :: u32) 7" "\<not> bit (0x400083 :: u32) 2" "(0x400083 :: u32) AND 0xFFC00000 = 0x400000"
    by simp_all
  have "va = push_bit 22 (drop_bit 22 va) OR take_bit 22 va"
    by (rule bit_eqI) (auto simp: bit_simps)
  then have "0x400000 OR take_bit 22 va = va" using assms(2) by simp
  then show "translate v va = Some va" "\<not> user_access v va"
    using assms b by (simp_all add: translate_def user_access_def layout_def Let_def and_0x3FFFFF)
qed

lemma translate_video_page:
  assumes "layout v" and "drop_bit 12 va = (0xB8 :: u32)" and "page_table v 0xB8 = ((0xB8 + t) * 4096) OR 3" and "t < 4"
  shows "translate v va = Some (((0xB8 + t) * 4096) OR take_bit 12 va)" and "\<not> user_access v va"
proof -
  have d: "drop_bit 22 va = 0"
  proof -
    have "drop_bit 22 va = drop_bit 10 (drop_bit 12 va)" by simp
    also have "\<dots> = 0" by (simp only: assms(2)) simp
    finally show ?thesis .
  qed
  have b: "bit (page_directory v 0) 0" "\<not> bit (page_directory v 0) 7" "\<not> bit (page_directory v 0) 2"
    using assms(1) aligned_entry_bits [of "page_table_addr v"] by (auto simp: layout_def)
  have i: "unat (drop_bit 12 va AND 0x3FF) = 0xB8" by (simp only: assms(2)) simp
  show "translate v va = Some (((0xB8 + t) * 4096) OR take_bit 12 va)"
    using assms(1,3) b layout_tables(1) [OF assms(1)] video_entries [OF assms(4)]
    by (simp add: translate_def Let_def d i and_0xFFF layout_def)
  show "\<not> user_access v va" using b by (simp add: user_access_def Let_def d)
qed

lemma unat_numeral_32_33: "unat (x :: u32) = 32 \<Longrightarrow> x = 32" "unat (x :: u32) = 33 \<Longrightarrow> x = 33"
proof -
  have "x = word_of_nat (unat x)" by simp
  then show "unat x = 32 \<Longrightarrow> x = 32" "unat x = 33 \<Longrightarrow> x = 33" by simp_all
qed

lemma layout_paging_on: "layout v \<Longrightarrow> paging_on v"
  by (simp add: layout_def)

lemma layoutD:
  assumes "layout v"
  shows "i < 1024 \<Longrightarrow> i \<notin> {0, 1, 32, 33} \<Longrightarrow> page_directory v i = 2" and "page_directory v 1 = 0x400083"
    and "page_directory v 32 \<noteq> 2 \<Longrightarrow> \<exists>pid. 0 \<le> pid \<and> pid < 6 \<and> page_directory v 32 = proc_pde pid"
    and "page_directory v 33 \<noteq> 2 \<Longrightarrow> page_directory v 33 = user_video_page_table_addr v OR 7"
    and "i < 1024 \<Longrightarrow> bit (user_video_page_table v i) 0 \<Longrightarrow>
      \<exists>t < 4. user_video_page_table v i = ((0xB8 + t) * 4096) OR 7"
    and "user_video_page_table_addr v AND 0xFFF = 0" and "page_table_addr v AND 0xFFF = 0"
    and "\<exists>t < 4. page_table v 0xB8 = ((0xB8 + t) * 4096) OR 3"
  using assms unfolding layout_def by blast+

lemma user_access_layout:
  assumes "layout v" and "user_access v va"
  shows "(drop_bit 22 va = 32 \<and> (\<exists>pid. 0 \<le> pid \<and> pid < 6 \<and> page_directory v 32 = proc_pde pid \<and>
      translate v va = Some (proc_page pid OR take_bit 22 va))) \<or>
    (drop_bit 22 va = 33 \<and> (\<exists>t < 4. translate v va = Some (((0xB8 + t) * 4096) OR take_bit 12 va)))"
proof -
  let ?d = "unat (drop_bit 22 va)"
  have pde: "bit (page_directory v ?d) 0" "bit (page_directory v ?d) 2"
    using assms(2) by (simp_all add: user_access_def Let_def)
  have no: "\<not> bit (2 :: u32) 0" "\<not> bit (0x400083 :: u32) 2" by simp_all
  have "\<not> bit (page_directory v 0) 2"
    using assms(1) aligned_entry_bits [of "page_table_addr v"] by (auto simp: layout_def)
  with pde no layoutD(1,2) [OF assms(1)] dir_index_lt [of va] have "?d = 32 \<or> ?d = 33"
    by (metis insertE empty_iff)
  then consider (p) "drop_bit 22 va = 32" | (u) "drop_bit 22 va = 33"
    using unat_numeral_32_33 by blast
  then show ?thesis
  proof cases
    case p
    with pde no have "page_directory v 32 \<noteq> 2" by auto
    then obtain pid where "0 \<le> pid" "pid < 6" "page_directory v 32 = proc_pde pid"
      using layoutD(3) [OF assms(1)] by blast
    with p translate_process_page(1) [OF assms(1) this] show ?thesis by blast
  next
    case u
    with pde no have ne: "page_directory v 33 \<noteq> 2" by auto
    have b: "\<not> bit (page_directory v 33) 7"
      unfolding layoutD(4) [OF assms(1) ne] by (rule aligned_entry_bits(6) [OF layoutD(6) [OF assms(1)]])
    let ?i = "unat (drop_bit 12 va AND 0x3FF)"
    have pte: "bit (user_video_page_table v ?i) 0"
      using assms(2) b layout_tables(2) [OF assms(1) ne] by (simp add: user_access_def Let_def u)
    then obtain t where t: "t < 4" "user_video_page_table v ?i = ((0xB8 + t) * 4096) OR 7"
      using layoutD(5) [OF assms(1) table_index_lt] by blast
    have "translate v va = Some (((0xB8 + t) * 4096) OR take_bit 12 va)"
      using b pte pde(1) t layout_tables(2) [OF assms(1) ne] layout_paging_on [OF assms(1)] video_entries [OF t(1)]
      by (simp add: translate_def Let_def u and_0xFFF)
    with u t show ?thesis by blast
  qed
qed

section \<open>The video page\<close>

lemma page_addr:
  assumes "i < 4096" and "take_bit 12 (a :: u32) = 0"
  shows "drop_bit 12 (a + word_of_nat i) = drop_bit 12 a" and "take_bit 12 (a + word_of_nat i) = word_of_nat i"
proof -
  have i: "take_bit 12 (word_of_nat i :: u32) = word_of_nat i"
    using assms(1) by (simp add: take_bit_of_nat take_bit_nat_eq_self)
  have "a AND take_bit 12 w = take_bit 12 a AND take_bit 12 w" for w
    by (rule bit_eqI) (auto simp: bit_simps)
  from this [of "word_of_nat i"] have "a AND word_of_nat i = 0" by (simp only: i assms(2)) simp
  then have "a + word_of_nat i = a OR take_bit 12 (word_of_nat i)"
    by (simp add: disjunctive_add_eq_or i)
  then show "drop_bit 12 (a + word_of_nat i) = drop_bit 12 a" "take_bit 12 (a + word_of_nat i) = word_of_nat i"
    using frame_of(1) [of 12 a "word_of_nat i"] frame_of(2) [OF assms(2), of "word_of_nat i"] i by simp_all
qed

lemma screen_addr:
  assumes "a \<in> region VIDEO 4096"
  shows "drop_bit 12 a = 0xB8" and "\<exists>i < 4096. a = VIDEO + word_of_nat i \<and> take_bit 12 a = word_of_nat i"
proof -
  obtain i where i: "i < 4096" "a = VIDEO + word_of_nat i" using assms by (auto simp: region_def)
  have "take_bit 12 VIDEO = 0" "drop_bit 12 VIDEO = 0xB8" by (simp_all add: VIDEO_def)
  with page_addr [OF i(1), of VIDEO] i show "drop_bit 12 a = 0xB8"
    "\<exists>i < 4096. a = VIDEO + word_of_nat i \<and> take_bit 12 a = word_of_nat i" by auto
qed

lemma video_page_mapped:
  assumes "layout v"
  shows "mapped v (region VIDEO 4096)"
proof -
  obtain t where t: "t < 4" "page_table v 0xB8 = ((0xB8 + t) * 4096) OR 3"
    using layoutD(8) [OF assms] by blast
  have tr: "translate v a = Some (((0xB8 + t) * 4096) OR take_bit 12 a)" if "a \<in> region VIDEO 4096" for a
    by (rule translate_video_page(1) [OF assms screen_addr(1) [OF that] t(2,1)])
  have "a = b" if ab: "a \<in> region VIDEO 4096" "b \<in> region VIDEO 4096" and eq: "translate v a = translate v b" for a b
  proof -
    have "((0xB8 + t) * 4096) OR take_bit 12 a = ((0xB8 + t) * 4096) OR take_bit 12 b"
      using eq tr [OF ab(1)] tr [OF ab(2)] by simp
    then have "take_bit 12 a = take_bit 12 b"
      using frame_of(2) [OF video_entries(8) [OF t(1)]] by metis
    then show ?thesis using screen_addr(2) [OF ab(1)] screen_addr(2) [OF ab(2)] by auto
  qed
  with tr show ?thesis by (auto simp: mapped_def inj_on_def)
qed

lemma screen_mapped: "layout v \<Longrightarrow> mapped v screen_region"
  by (rule mapped_subset [OF video_page_mapped region_mono]) simp_all

lemma video_page_frame:
  assumes "layout v" and "t < 4" and "a \<in> screen_region" and "translate (map_video_page t v) a = Some p"
  shows "drop_bit 12 p = 0xB8 + ucast t"
proof -
  have l: "layout (map_video_page t v)" by (rule map_video_page_layout [OF assms(1,2)])
  have t: "(ucast t :: u32) < 4" using assms(2) by (simp add: word_less_nat_alt unat_ucast_u8)
  have "a \<in> region VIDEO 4096" using assms(3) region_mono [of 4000 4096 VIDEO] by auto
  from translate_video_page(1) [OF l screen_addr(1) [OF this] _ t] assms(4)
  have "p = ((0xB8 + ucast t) * 4096) OR take_bit 12 a"
    by (simp add: map_video_page_def VIDEO_MEM_INDEX_def FOUR_KB_def)
  then show ?thesis by (simp only: video_frame_addr [OF t])
qed

lemma changes_screen_frame:
  assumes "layout v" and "t < 4" and "changes screen_region (map_video_page t v) v'" and "drop_bit 12 p \<noteq> 0xB8 + ucast t"
  shows "pmem v' p = pmem v p"
proof -
  have "pmem v' p = pmem (map_video_page t v) p"
    using assms(3,4) video_page_frame [OF assms(1,2)] unfolding changes_def by blast
  then show ?thesis by (simp add: map_video_page_def)
qed

lemma layout_same_map: "same_map v v' \<Longrightarrow> layout v' = layout v"
  by (simp add: layout_def same_map_fields)

lemma process_page_mapped:
  assumes "layout v" and "0 \<le> pid" and "pid < 6" and "page_directory v 32 = proc_pde pid"
  shows "mapped v {a. drop_bit 22 a = 32}"
proof -
  note tr = translate_process_page(1) [OF assms]
  have z: "take_bit 22 (proc_page pid) = 0" by (rule proc_page_aligned [OF assms(2,3)])
  have "a = b" if a: "drop_bit 22 a = 32" and b: "drop_bit 22 b = 32" and eq: "translate v a = translate v b" for a b
  proof -
    have "take_bit 22 a = take_bit 22 b"
      using eq tr [OF a] tr [OF b] frame_of(2) [OF z, of a] frame_of(2) [OF z, of b] by simp
    with a b show ?thesis using bits_ident [of 22 a] bits_ident [of 22 b] by simp
  qed
  with tr show ?thesis by (auto simp: mapped_def inj_on_def)
qed

lemma vid_map_layout:
  assumes "layout v" and "i < 1024"
  shows "layout (set_upte i (VIDEO_MEM OR 7) (set_pde 33 (user_video_page_table_addr v OR 7) v))"
proof -
  have "\<exists>t < 4. (0xB8007 :: u32) = ((0xB8 + t) * 4096) OR 7" by (rule exI [of _ 0]) simp
  with assms show ?thesis unfolding layout_def by (auto simp: VIDEO_MEM_def)
qed

lemma user_video_translate:
  assumes "layout v" and "page_directory v 33 = user_video_page_table_addr v OR 7"
    and "drop_bit 22 a = (33 :: u32)" and "user_video_page_table v (unat (drop_bit 12 a AND 0x3FF)) = ((0xB8 + t) * 4096) OR 7" and "t < 4"
  shows "translate v a = Some (((0xB8 + t) * 4096) OR take_bit 12 a)" and "user_access v a"
proof -
  note b = aligned_entry_bits(4-6) [OF layoutD(6) [OF assms(1)], folded assms(2)]
  have "\<not> bit (2 :: u32) 0" by simp
  with b(1) have "page_directory v 33 \<noteq> 2" by metis
  note tab = layout_tables(2) [OF assms(1) this]
  show "translate v a = Some (((0xB8 + t) * 4096) OR take_bit 12 a)" "user_access v a"
    using b tab assms(4) layout_paging_on [OF assms(1)] video_entries [OF assms(5)]
    by (simp_all add: translate_def user_access_def Let_def assms(3) and_0xFFF)
qed

section \<open>Properties\<close>


definition sample_vmem :: vmem where
  "sample_vmem = map_page (proc_page 2) 0x08000000 0x87 (init_paging (flat_vmem (\<lambda>_. 0)))"

lemma sample_vmem_layout: "layout (init_paging (flat_vmem p))" "layout sample_vmem" "page_directory sample_vmem 32 = proc_pde 2"
proof -
  show l: "layout (init_paging (flat_vmem p))" for p
    by (rule init_paging_layout) (simp add: tables_placed_def flat_vmem_def)
  show "layout sample_vmem" "page_directory sample_vmem 32 = proc_pde 2"
    using map_process_page [OF l, of 2] by (simp_all add: sample_vmem_def)
qed


text \<open>
  C19: the operations keep the layout, and processes do not share memory.  \<open>init_paging\<close>
  establishes the layout; mapping the page of any process, or any of the four video pages, keeps
  it.  After mapping the page of process \<open>pid\<close> every address of the process page reaches the
  frame of that process; two processes reach different bytes.
\<close>

theorem process_pages:
  assumes "tables_placed v0" and "layout v" and "0 \<le> pid" and "pid < 6" and "0 \<le> pid'" and "pid' < 6" and "pid \<noteq> pid'"
    and "drop_bit 22 a = (32 :: u32)" and "drop_bit 22 b = (32 :: u32)" and "t < 4"
  shows "layout (init_paging v0) \<and> layout (map_page (proc_page pid) 0x08000000 0x87 v) \<and> layout (map_video_page t v) \<and>
    (\<exists>p q. translate (map_page (proc_page pid) 0x08000000 0x87 v) a = Some p \<and>
      translate (map_page (proc_page pid') 0x08000000 0x87 v) b = Some q \<and> p \<noteq> q \<and>
      drop_bit 22 p = word_of_int (pid + 2) \<and> take_bit 22 p = take_bit 22 a)"
proof -
  have m: "layout (map_page (proc_page q) 0x08000000 0x87 v) \<and>
      translate (map_page (proc_page q) 0x08000000 0x87 v) c = Some (proc_page q OR take_bit 22 c)"
    if "0 \<le> q" "q < 6" "drop_bit 22 c = (32 :: u32)" for q c
    using map_process_page [OF assms(2) that(1,2)] translate_process_page(1) [OF map_process_page(2) [OF assms(2) that(1,2)] that(1,2) _ that(3)]
    by simp
  note z = proc_page_aligned [OF assms(3,4)]
  have "uint (word_of_int (pid + 2) :: u32) = pid + 2" "uint (word_of_int (pid' + 2) :: u32) = pid' + 2"
    using assms(3-6) by (simp_all only: uint_word_of_int) simp_all
  then have ne: "(word_of_int (pid + 2) :: u32) \<noteq> word_of_int (pid' + 2)" using assms(7) by (metis add_right_cancel)
  have "proc_page pid OR take_bit 22 a \<noteq> proc_page pid' OR take_bit 22 b"
    using ne proc_frame(1) [OF assms(3,4), of a] proc_frame(1) [OF assms(5,6), of b] by metis
  then show ?thesis
    using m [OF assms(3,4,8)] m [OF assms(5,6,9)] init_paging_layout [OF assms(1)] map_video_page_layout [OF assms(2,10)]
      proc_frame(1) [OF assms(3,4), of a] frame_of(2) [OF z, of a] by blast
qed

theorem process_pages_witness:
  "\<exists>p q. translate (map_page (proc_page 0) 0x08000000 0x87 sample_vmem) 0x08048000 = Some p \<and>
    translate (map_page (proc_page 5) 0x08000000 0x87 sample_vmem) 0x08048000 = Some q \<and> p \<noteq> q"
proof -
  have "tables_placed (flat_vmem (\<lambda>_. 0))" by (simp add: tables_placed_def flat_vmem_def)
  from process_pages [OF this sample_vmem_layout(2), of 0 5 "0x08048000" "0x08048000" 0] show ?thesis by auto
qed

text \<open>
  output of a terminal stays in that terminal's page.  With the video page mapped to page
  \<open>t\<close> (0 the real screen, 1 to 3 the backing pages), printing any byte string returns without a
  page fault, keeps the cursor on the screen and the layout, and changes no physical byte
  outside page B8 + \<open>t\<close>.
\<close>

theorem terminal_output_isolated:
  assumes "layout (vm m)" and "cursor_ok m" and "t < 4"
  shows "\<exists>m'. run_ops putc bs (m\<lparr>vm := map_video_page t (vm m)\<rparr>) = Some m' \<and> cursor_ok m' \<and> layout (vm m') \<and>
    (\<forall>p. drop_bit 12 p \<noteq> 0xB8 + ucast t \<longrightarrow> pmem (vm m') p = pmem (vm m) p)"
proof -
  let ?m = "m\<lparr>vm := map_video_page t (vm m)\<rparr>"
  have l: "layout (vm ?m)" using map_video_page_layout [OF assms(1,3)] by simp
  then obtain con where "displays ?m con"
    using displays_exists [of ?m] screen_mapped [OF l] assms(2) by (auto simp: cursor_ok_def)
  from pc.run_displays [OF this, of bs] obtain m' where m': "run_ops putc bs ?m = Some m'"
    "displays m' (fold con_putc bs con)" "console_frame ?m m'" by auto
  then have ch: "changes screen_region (map_video_page t (vm m)) (vm m')" by (simp add: console_frame_def)
  show ?thesis
    using m' l layout_same_map [OF changes_same_map [OF ch]] changes_screen_frame [OF assms(1,3) ch]
    by (auto simp: displays_def)
qed

theorem terminal_output_isolated_witness:
  "\<exists>m'. run_ops putc [72, 105] (flat_machine (\<lambda>_. 0)\<lparr>vm := map_video_page 2 sample_vmem\<rparr>) = Some m' \<and>
    (\<forall>p. drop_bit 12 p \<noteq> 0xBA \<longrightarrow> pmem (vm m') p = pmem sample_vmem p)"
  using terminal_output_isolated [of "flat_machine (\<lambda>_. 0)\<lparr>vm := sample_vmem\<rparr>" 2 "[72, 105]"] sample_vmem_layout(2)
  by (auto simp: cursor_ok_def NUM_COLS_def NUM_ROWS_def)

lemma vid_map_ok:
  assumes "layout (kvm k)" and "0 \<le> pid" and "pid < 6" and "page_directory (kvm k) 32 = proc_pde pid"
    and "\<forall>j < 4. drop_bit 22 (start + word_of_nat j) = (32 :: u32)" and "cur_terminal k < 3"
  shows "\<exists>v'. vid_map start k = Some (0, set_vm v' (upd_term (ct k) (\<lambda>t. t\<lparr>screen_start := start\<rparr>) k)) \<and> layout v' \<and>
    ld_bytes v' start 4 = Some (bytes_of_word (USER_MAP_LOC + ucast (cur_terminal k) * FOUR_KB)) \<and>
    st_bytes (set_upte (ct k) (VIDEO_MEM OR 7) (set_pde 33 (user_video_page_table_addr (kvm k) OR 7) (kvm k))) start
      (bytes_of_word (USER_MAP_LOC + ucast (cur_terminal k) * FOUR_KB)) = Some v' \<and>
    (\<forall>i < 4096. user_access v' (USER_MAP_LOC + ucast (cur_terminal k) * FOUR_KB + word_of_nat i) \<and>
      translate v' (USER_MAP_LOC + ucast (cur_terminal k) * FOUR_KB + word_of_nat i) = Some (VIDEO_MEM OR word_of_nat i))"
proof -
  let ?w = "USER_MAP_LOC + ucast (cur_terminal k) * FOUR_KB"
  let ?v = "set_upte (ct k) (VIDEO_MEM OR 7) (set_pde 33 (user_video_page_table_addr (kvm k) OR 7) (kvm k))"
  have t: "cur_terminal k = 0 \<or> cur_terminal k = 1 \<or> cur_terminal k = 2"
    using assms(6) u8_lt3 by blast
  have l: "layout ?v" by (rule vid_map_layout [OF assms(1)]) (use t in auto)
  have "mapped ?v {a. drop_bit 22 a = 32}"
    by (rule process_page_mapped [OF l assms(2,3)]) (simp add: assms(4))
  then have m: "mapped ?v (region start (length (bytes_of_word ?w)))"
    by (rule mapped_subset) (use assms(5) in \<open>auto simp: region_def bytes_of_word_def\<close>)
  obtain v' where v': "st_bytes ?v start (bytes_of_word ?w) = Some v'"
    "ld_bytes v' start (length (bytes_of_word ?w)) = Some (bytes_of_word ?w)"
    using st_bytes_mapped [OF m] by (auto simp: bytes_of_word_def)
  have sm: "same_map ?v v'" by (rule st_bytes_same_map [OF v'(1)])
  have l': "layout v'" using layout_same_map [OF sm] l by simp
  have a: "take_bit 12 ?w = 0" "drop_bit 12 ?w AND 0x3FF = ucast (cur_terminal k)" "drop_bit 10 (drop_bit 12 ?w) = 33"
    using t by (auto simp: USER_MAP_LOC_def FOUR_KB_def)
  have p: "page_directory v' 33 = user_video_page_table_addr v' OR 7" by (simp add: same_map_fields [OF sm])
  have "user_access v' (?w + word_of_nat i) \<and> translate v' (?w + word_of_nat i) = Some (VIDEO_MEM OR word_of_nat i)" if i: "i < 4096" for i
  proof -
    note pa = page_addr [OF i a(1)]
    have d: "drop_bit 22 (?w + word_of_nat i) = 33"
    proof -
      have "drop_bit 22 (?w + word_of_nat i) = drop_bit 10 (drop_bit 12 (?w + word_of_nat i))"
        by (simp only: drop_bit_drop_bit) simp
      then show ?thesis by (simp only: pa a(3))
    qed
    have u: "user_video_page_table v' (unat (drop_bit 12 (?w + word_of_nat i) AND 0x3FF)) = ((0xB8 + 0) * 4096) OR 7"
      by (simp only: pa(1) a(2)) (simp add: same_map_fields [OF sm] unat_ucast_u8 VIDEO_MEM_def)
    show ?thesis using user_video_translate [OF l' p d u, simplified] pa(2) by (simp add: VIDEO_MEM_def)
  qed
  moreover have "vid_map start k = Some (0, set_vm v' (upd_term (ct k) (\<lambda>t. t\<lparr>screen_start := start\<rparr>) k))"
    using v'(1) by (simp add: vid_map_def Let_def USER_MAP_LOC_def FOUR_MB_def)
  ultimately show ?thesis using l' v' by auto
qed

text \<open>
  C22: \<open>vid_map\<close>.  Called with a pointer into the process page, it returns 0, keeps the layout,
  stores the address of the user video page of the current terminal through the pointer, and
  from then on user code can access each of the 4096 bytes at that address, which are the bytes
  of the real video memory.
\<close>

theorem vid_map_maps_screen:
  assumes "layout (kvm k)" and "0 \<le> pid" and "pid < 6" and "page_directory (kvm k) 32 = proc_pde pid"
    and "\<forall>j < 4. drop_bit 22 (start + word_of_nat j) = (32 :: u32)" and "cur_terminal k < 3" and "i < 4096"
  shows "\<exists>k'. vid_map start k = Some (0, k') \<and> layout (kvm k') \<and>
    ld_bytes (kvm k') start 4 = Some (bytes_of_word (USER_MAP_LOC + ucast (cur_terminal k) * FOUR_KB)) \<and>
    user_access (kvm k') (USER_MAP_LOC + ucast (cur_terminal k) * FOUR_KB + word_of_nat i) \<and>
    translate (kvm k') (USER_MAP_LOC + ucast (cur_terminal k) * FOUR_KB + word_of_nat i) = Some (VIDEO_MEM OR word_of_nat i)"
  using vid_map_ok [OF assms(1-6)] assms(7) by auto

theorem vid_map_maps_screen_witness:
  "\<exists>k'. vid_map 0x08100000 (zero_kernel (flat_machine (\<lambda>_. 0)\<lparr>vm := sample_vmem\<rparr>) 0x7FFFFC 0 0) = Some (0, k') \<and>
    user_access (kvm k') (USER_MAP_LOC + 5) \<and> translate (kvm k') (USER_MAP_LOC + 5) = Some 0xB8005"
proof -
  let ?k = "zero_kernel (flat_machine (\<lambda>_. 0)\<lparr>vm := sample_vmem\<rparr>) 0x7FFFFC 0 0"
  have a: "\<forall>j < 4. drop_bit 22 (0x08100000 + word_of_nat j) = (32 :: u32)"
  proof (intro allI impI)
    fix j :: nat assume "j < 4"
    then have "j = 0 \<or> j = 1 \<or> j = 2 \<or> j = 3" by auto
    then show "drop_bit 22 (0x08100000 + word_of_nat j) = (32 :: u32)" by (elim disjE) simp_all
  qed
  have "layout (kvm ?k)" "page_directory (kvm ?k) 32 = proc_pde 2" using sample_vmem_layout by simp_all
  from vid_map_maps_screen [OF this(1) _ _ this(2) a, of 5] show ?thesis
    by (auto simp: VIDEO_MEM_def)
qed

end
