(* ===== verification/Filesys.thy ===== *)
theory Filesys
  imports Paging
begin

text \<open>
  The read-only file system, \<open>student-distrib/filesys.c\<close>.

  The image that the boot loader put into memory starts with a boot block (three counts, then
  64-byte directory entries behind the first 64 bytes), followed by the inodes and the data
  blocks, all of 4096 bytes.  Every access is a load through \<open>start_addr\<close>.  A file name that is
  compared may stand in user memory or in a local array, so \<open>read_dentry_by_name\<close> takes the
  function that reads its bytes.  A directory entry the code fills in is returned beside the
  result; it is the old one when the call fails.
\<close>

section \<open>Definitions\<close>

definition filesys_init :: "addr \<Rightarrow> kernel \<Rightarrow> kernel option" where
  "filesys_init mod_start k = do {
     nd \<leftarrow> ld32 (kvm k) mod_start;
     ni \<leftarrow> ld32 (kvm k) (mod_start + 4 * 1);
     nb \<leftarrow> ld32 (kvm k) (mod_start + 4 * 2);
     Some (k\<lparr>start_addr := mod_start, numdentries := nd, numinodes := ni, numblocks := nb,
             startdentry := mod_start + 64, curfile := 1\<rparr>)
   }"

type_synonym reader = "nat \<Rightarrow> u8 option"

definition str_at :: "vmem \<Rightarrow> addr \<Rightarrow> reader" where
  "str_at v a = (\<lambda>i. ld8 v (a + word_of_nat i))"

definition array_str :: "u8 list \<Rightarrow> reader" where
  "array_str bs = (\<lambda>i. if i < length bs then Some (bs ! i) else None)"

text \<open>The loop that compares one name; \<open>True\<close> when it returns from inside.\<close>

partial_function (option) name_loop :: "vmem \<Rightarrow> addr \<Rightarrow> reader \<Rightarrow> nat \<Rightarrow> nat \<Rightarrow> bool option" where
  "name_loop v temp fname nameIndex count = do {
     c \<leftarrow> ld8 v (temp + word_of_nat nameIndex);
     d \<leftarrow> fname nameIndex;
     if c = d then
       (if c = 0 \<or> count = 31 then Some True
        else name_loop v temp fname (nameIndex + 1) (count + 1))
     else Some False
   }"

definition copy_dentry :: "vmem \<Rightarrow> addr \<Rightarrow> dentry_t option" where
  "copy_dentry v temp = do {
     name \<leftarrow> ld_bytes v temp 32;
     ty \<leftarrow> ld32 v (temp + 32);
     ino \<leftarrow> ld32 v (temp + 36);
     Some \<lparr>dname = name, fileType = ty, inodeNum = ino\<rparr>
   }"

fun by_name_from :: "vmem \<Rightarrow> addr \<Rightarrow> reader \<Rightarrow> dentry_t \<Rightarrow> nat \<Rightarrow> nat \<Rightarrow> (int \<times> dentry_t) option" where
  "by_name_from v start fname dentry dentIndex 0 = Some (-1, dentry)"
| "by_name_from v start fname dentry dentIndex (Suc n) = do {
     let temp = start + 64 * word_of_nat dentIndex;
     m \<leftarrow> name_loop v temp fname 0 0;
     if m then do { d \<leftarrow> copy_dentry v temp; Some (0, d) }
     else by_name_from v start fname dentry (dentIndex + 1) n
   }"

definition read_dentry_by_name :: "reader \<Rightarrow> dentry_t \<Rightarrow> kernel \<Rightarrow> (int \<times> dentry_t) option" where
  "read_dentry_by_name fname dentry k = by_name_from (kvm k) (startdentry k) fname dentry 0 64"

definition name_len :: "u8 list \<Rightarrow> nat" where
  "name_len name = length (takeWhile (\<lambda>b. b \<noteq> 0) name)"

definition read_dentry_by_index :: "u32 \<Rightarrow> dentry_t \<Rightarrow> kernel \<Rightarrow> (int \<times> dentry_t) option" where
  "read_dentry_by_index index dentry k =
     (if 64 \<le> index then Some (-1, dentry)
      else do {
        d \<leftarrow> copy_dentry (kvm k) (startdentry k + 64 * index);
        Some (if 32 < name_len (dname d) then 32 else int (name_len (dname d)), d)
      })"

definition inode_addr :: "kernel \<Rightarrow> u32 \<Rightarrow> addr" where
  "inode_addr k inode = start_addr k + 4096 * (inode + 1)"

definition data_base :: "kernel \<Rightarrow> addr" where
  "data_base k = start_addr k + 4096 * (numinodes k + 1)"

definition chunk_len :: "u32 \<Rightarrow> u32 \<Rightarrow> u32 \<Rightarrow> u32" where
  "chunk_len offset eofLength len =
     (if len mod 4096 = 0 \<or> 4096 < len then 4096
      else if eofLength < len + offset then eofLength - offset
      else len)"

partial_function (option) read_loop ::
  "addr \<Rightarrow> addr \<Rightarrow> u32 \<Rightarrow> u32 \<Rightarrow> u32 \<Rightarrow> addr \<Rightarrow> u32 \<Rightarrow> vmem \<Rightarrow> (u32 \<times> vmem) option" where
  "read_loop inodeBlock base eofLength offset eofCount buf len v =
     (if len \<noteq> 0 \<and> eofCount < eofLength then do {
        b \<leftarrow> ld32 v (inodeBlock + 4 + 4 * (eofCount div 4096));
        let currLength = chunk_len offset eofLength len;
        let position = base + 4096 * b + offset mod 4096;
        v \<leftarrow> memcpy v buf position currLength;
        read_loop inodeBlock base eofLength offset (eofCount + currLength) (buf + currLength) (len - currLength) v
      }
      else Some (eofCount, v))"

definition read_data :: "u32 \<Rightarrow> u32 \<Rightarrow> addr \<Rightarrow> u32 \<Rightarrow> kernel \<Rightarrow> (int \<times> kernel) option" where
  "read_data inode offset buf len k =
     (if numinodes k < inode then Some (-1, k)
      else do {
        eofLength \<leftarrow> ld32 (kvm k) (inode_addr k inode);
        (eofCount, v) \<leftarrow> read_loop (inode_addr k inode) (data_base k) eofLength offset offset buf len (kvm k);
        Some (if eofLength \<le> offset then 0 else sint (eofCount - offset), set_vm v k)
      })"

definition file_load :: "addr \<Rightarrow> int \<Rightarrow> kernel \<Rightarrow> (int \<times> kernel) option" where
  "file_load buf nbytes k = read_data (inodeNum (currDentry k)) 0 buf (word_of_int nbytes) k"

definition file_read :: "int \<Rightarrow> addr \<Rightarrow> int \<Rightarrow> kernel \<Rightarrow> (int \<times> kernel) option" where
  "file_read fd buf nbytes k =
     (let pid = cur_process k in
      if -1 < fd then do {
        (n, k) \<leftarrow> read_data (word_of_int (inode_number (fd_of k pid fd))) (word_of_int (file_pos (fd_of k pid fd)))
                    buf (word_of_int nbytes) k;
        let k = (if n \<noteq> 0 then upd_fd pid fd (\<lambda>e. e\<lparr>file_pos := s32 (file_pos e + n)\<rparr>) k
                 else upd_fd pid fd (\<lambda>e. e\<lparr>file_pos := 0\<rparr>) k);
        Some (n, k)
      }
      else read_data (inodeNum (currDentry k)) 0 buf (word_of_int nbytes) k)"

definition file_write :: "int \<Rightarrow> addr \<Rightarrow> int \<Rightarrow> kernel \<Rightarrow> (int \<times> kernel) option" where
  "file_write fd buf nbytes k = Some (-1, k)"

definition file_close :: "int \<Rightarrow> kernel \<Rightarrow> (int \<times> kernel) option" where
  "file_close fd k = Some (-1, k)"

definition file_open :: "reader \<Rightarrow> kernel \<Rightarrow> (int \<times> kernel) option" where
  "file_open filename k = do {
     (retval, d) \<leftarrow> read_dentry_by_name filename (currDentry k) k;
     Some (retval, k\<lparr>currDentry := d\<rparr>)
   }"

text \<open>
  \<open>strncpy\<close> out of a directory entry in a local variable: the name is followed by the bytes of
  the type and the inode number.
\<close>

fun strncpy_arr :: "u8 list \<Rightarrow> nat \<Rightarrow> u8 list option" where
  "strncpy_arr src 0 = Some []"
| "strncpy_arr [] (Suc n) = None"
| "strncpy_arr (c # src) (Suc n) =
     (if c \<noteq> 0 then do { r \<leftarrow> strncpy_arr src n; Some (c # r) } else Some (replicate (Suc n) 0))"

definition dentry_bytes :: "dentry_t \<Rightarrow> u8 list" where
  "dentry_bytes d = dname d @ bytes_of_word (fileType d) @ bytes_of_word (inodeNum d)"

definition dir_read :: "int \<Rightarrow> addr \<Rightarrow> int \<Rightarrow> dentry_t \<Rightarrow> kernel \<Rightarrow> (int \<times> kernel) option" where
  "dir_read fd buf nbytes dentry k = do {
     v \<leftarrow> st_bytes (kvm k) buf (replicate 32 0);
     let k = set_vm v k;
     (retval, dentry) \<leftarrow> read_dentry_by_index (curfile k) dentry k;
     bs \<leftarrow> strncpy_arr (dentry_bytes dentry) (unat (word_of_int nbytes :: u32));
     v \<leftarrow> st_bytes (kvm k) buf bs;
     let k = set_vm v k;
     let k = k\<lparr>curfile := curfile k + 1\<rparr>;
     if curfile k = numdentries k then Some (0, k\<lparr>curfile := 0\<rparr>)
     else Some (retval, k)
   }"

definition dir_write :: "int \<Rightarrow> addr \<Rightarrow> int \<Rightarrow> kernel \<Rightarrow> (int \<times> kernel) option" where
  "dir_write fd buf nbytes k = Some (-1, k)"

definition dir_close :: "int \<Rightarrow> kernel \<Rightarrow> (int \<times> kernel) option" where
  "dir_close fd k = Some (-1, k)"

definition dir_open :: "reader \<Rightarrow> kernel \<Rightarrow> (int \<times> kernel) option" where
  "dir_open filename k = do {
     (retval, d) \<leftarrow> read_dentry_by_name filename (currDentry k) k;
     Some (retval, k\<lparr>currDentry := d\<rparr>)
   }"

section \<open>Looking up names\<close>

text \<open>A string that a reader delivers: its bytes, then a NUL.\<close>

definition reads :: "reader \<Rightarrow> u8 list \<Rightarrow> bool" where
  "reads r cs \<longleftrightarrow> 0 \<notin> set cs \<and> (\<forall>i < length cs. r i = Some (cs ! i)) \<and> r (length cs) = Some 0"

lemma cstring_reads: "cstring v a cs \<Longrightarrow> reads (str_at v a) cs"
  unfolding reads_def str_at_def using cstring_nth [of v a cs] cstring_end [of v a cs]
  by (auto simp: cstring_def)

text \<open>The name of a directory entry as a string, and the entries of the directory in order.\<close>

definition entry_name :: "u8 list \<Rightarrow> u8 list" where
  "entry_name name = takeWhile (\<lambda>b. b \<noteq> 0) name"


lemma entry_name_full: "0 \<notin> set name \<Longrightarrow> entry_name name = name"
  by (auto simp: entry_name_def takeWhile_eq_all_conv)

lemma entry_name_end:
  assumes "entry_name name = e" and "length e < length name"
  shows "name ! length e = 0" and "take (length e) name = e"
  using assms nth_length_takeWhile [of "\<lambda>b. b \<noteq> 0" name] takeWhile_eq_take [of "\<lambda>b. b \<noteq> 0" name]
  by (auto simp: entry_name_def)

lemma entry_name_nth: "i < length (entry_name name) \<Longrightarrow> entry_name name ! i = name ! i"
  by (simp add: entry_name_def takeWhile_nth)

lemma entry_name_prefix:
  assumes "\<forall>j < i. name ! j = cs ! j" and "i < length name" and "i \<le> length cs" and "0 \<notin> set cs" and "name ! i = 0"
  shows "entry_name name = take i cs"
proof -
  have t: "take i name = take i cs" using assms(1-3) by (auto intro: nth_equalityI)
  have "entry_name name = takeWhile (\<lambda>b. b \<noteq> 0) (take i name @ name ! i # drop (Suc i) name)"
    using assms(2) by (simp add: entry_name_def id_take_nth_drop [symmetric])
  also have "\<dots> = take i name"
    using t assms(4,5) by (subst takeWhile_append2) (auto dest: in_set_takeD)
  finally show ?thesis using t by simp
qed

lemma entry_name_mismatch:
  assumes "name ! i \<noteq> (cs @ [0]) ! i" and "i < length name" and "i \<le> length cs" and "length name = 32"
  shows "entry_name name \<noteq> take 32 cs"
proof
  assume e: "entry_name name = take 32 cs"
  show False
  proof (cases "i < length cs")
    case True
    then have "i < length (entry_name name)" using e assms(2,4) by simp
    then show False using entry_name_nth [of i name] e assms(1) True by (simp add: nth_append)
  next
    case False
    then have i: "i = length cs" using assms(3) by simp
    then have "length (entry_name name) = i" using e assms(2,4) by simp
    then show False using entry_name_end(1) [OF refl, of name] assms(1,2) i by simp
  qed
qed

lemma entry_name_match:
  assumes "name ! i = (cs @ [0]) ! i" and "name ! i = 0 \<or> i = 31" and "i \<le> length cs" and "\<forall>j < i. name ! j = cs ! j"
    and "0 \<notin> set cs" and "length name = 32" and "i \<le> 31"
  shows "entry_name name = take 32 cs"
proof (cases "name ! i = 0")
  case True
  with assms have "i = length cs"
    by (auto simp: nth_append split: if_splits) (metis le_neq_implies_less nth_mem)
  then show ?thesis using entry_name_prefix [of i name cs] True assms by simp
next
  case False
  with assms have i: "i = 31" and lt: "i < length cs" by (auto simp: nth_append split: if_splits)
  have "name = take 32 cs"
  proof (rule nth_equalityI)
    show "length name = length (take 32 cs)" using assms(6) lt i by simp
    show "name ! j = take 32 cs ! j" if "j < length name" for j
      using that assms lt i by (cases "j = 31") (auto simp: nth_append)
  qed
  moreover from this have "0 \<notin> set name" using assms(5) by (auto dest: in_set_takeD)
  ultimately show ?thesis using entry_name_full by metis
qed

lemma name_loop_correct:
  assumes name: "ld_bytes v temp 32 = Some name" and r: "reads fname cs"
    and "i \<le> 31" and "i \<le> length cs" and "\<forall>j < i. name ! j = cs ! j"
  shows "name_loop v temp fname i i = Some (entry_name name = take 32 cs)"
  using assms(3-5)
proof (induction "31 - i" arbitrary: i rule: less_induct)
  case less
  have len: "length name = 32" by (rule ld_bytes_length [OF name])
  have c: "ld8 v (temp + word_of_nat i) = Some (name ! i)" by (rule ld_bytes_nth [OF name]) (use less.prems in simp)
  have d: "fname i = Some ((cs @ [0]) ! i)" using r less.prems by (auto simp: reads_def nth_append)
  show ?case
  proof (cases "name ! i = (cs @ [0]) ! i")
    case eq: True
    show ?thesis
    proof (cases "name ! i = 0 \<or> i = 31")
      case True
      then have "entry_name name = take 32 cs"
        using entry_name_match [OF eq True] less.prems r len by (simp add: reads_def)
      then show ?thesis using eq True c d by (subst name_loop.simps) auto
    next
      case False
      with eq less.prems have lt: "i < length cs" by (auto simp: nth_append split: if_splits)
      have "name_loop v temp fname (Suc i) (Suc i) = Some (entry_name name = take 32 cs)"
        by (rule less.hyps) (use False less.prems lt eq in \<open>auto simp: less_Suc_eq nth_append\<close>)
      then show ?thesis using eq False c d by (subst name_loop.simps) simp
    qed
  next
    case False
    then show ?thesis
      using c d entry_name_mismatch [OF False] less.prems len by (subst name_loop.simps) simp
  qed
qed

text \<open>The directory as a list of entries, decoded from memory; the code looks at 64 of them.\<close>

definition directory :: "vmem \<Rightarrow> addr \<Rightarrow> dentry_t list option" where
  "directory v start = those (map (\<lambda>i. copy_dentry v (start + 64 * word_of_nat i)) [0..<64])"

lemma those_nth: "those xs = Some ys \<Longrightarrow> i < length xs \<Longrightarrow> xs ! i = Some (ys ! i)"
  by (induction xs arbitrary: ys i) (auto split: option.splits simp: nth_Cons' )

lemma length_those: "those xs = Some ys \<Longrightarrow> length ys = length xs"
  by (induction xs arbitrary: ys) (auto split: option.splits)

lemma copy_dentry_name: "copy_dentry v a = Some d \<Longrightarrow> ld_bytes v a 32 = Some (dname d)"
  by (auto simp: copy_dentry_def split: Option.bind_splits)

lemma by_name_from_correct:
  assumes "reads fname cs" and "\<forall>j < n. copy_dentry v (start + 64 * word_of_nat (i + j)) = Some (ds ! j)" and "length ds = n"
  shows "by_name_from v start fname d0 i n =
    Some (case find (\<lambda>d. entry_name (dname d) = take 32 cs) ds of Some d \<Rightarrow> (0, d) | None \<Rightarrow> (-1, d0))"
  using assms(2,3)
proof (induction n arbitrary: i ds)
  case 0
  then show ?case by simp
next
  case (Suc n)
  then obtain d ds' where ds: "ds = d # ds'" "length ds' = n" by (cases ds) auto
  have d: "copy_dentry v (start + 64 * word_of_nat i) = Some d" using Suc.prems(1) ds by fastforce
  have "name_loop v (start + 64 * word_of_nat i) fname 0 0 = Some (entry_name (dname d) = take 32 cs)"
    by (rule name_loop_correct [OF copy_dentry_name [OF d] assms(1)]) simp_all
  moreover have "by_name_from v start fname d0 (i + 1) n =
      Some (case find (\<lambda>d. entry_name (dname d) = take 32 cs) ds' of Some d \<Rightarrow> (0, d) | None \<Rightarrow> (-1, d0))"
  proof (rule Suc.IH [OF _ ds(2)], intro allI impI)
    fix j assume "j < n"
    then show "copy_dentry v (start + 64 * word_of_nat (i + 1 + j)) = Some (ds' ! j)"
      using Suc.prems(1) [rule_format, of "Suc j"] ds by simp
  qed
  ultimately show ?case using d ds by (simp add: Let_def)
qed

lemma read_dentry_by_name_eq:
  assumes "directory (kvm k) (startdentry k) = Some ds" and "reads fname cs"
  shows "read_dentry_by_name fname d0 k =
    Some (case find (\<lambda>d. entry_name (dname d) = take 32 cs) ds of Some d \<Rightarrow> (0, d) | None \<Rightarrow> (-1, d0))"
proof -
  have "length ds = 64" using length_those assms(1) by (fastforce simp: directory_def)
  moreover have "\<forall>j < 64. copy_dentry (kvm k) (startdentry k + 64 * word_of_nat (0 + j)) = Some (ds ! j)"
    using those_nth [OF assms(1) [unfolded directory_def]] by simp
  ultimately show ?thesis
    unfolding read_dentry_by_name_def using by_name_from_correct [OF assms(2)] by metis
qed

section \<open>Reading file data\<close>

lemma read_loop_done: "len = 0 \<or> \<not> eofCount < eofLength \<Longrightarrow> read_loop ib base eofLength offset eofCount buf len v = Some (eofCount, v)"
  by (subst read_loop.simps) auto

lemma mapped_union:
  assumes "mapped v A" and "mapped v B" and "apart v A B"
  shows "mapped v (A \<union> B)" and "A \<inter> B = {}"
proof -
  show "A \<inter> B = {}" using assms unfolding mapped_def apart_def by fastforce
  show "mapped v (A \<union> B)"
    unfolding mapped_def
  proof
    show "\<forall>a \<in> A \<union> B. translate v a \<noteq> None" using assms(1,2) by (auto simp: mapped_def)
    show "inj_on (translate v) (A \<union> B)"
    proof (rule inj_onI)
      fix a b assume ab: "a \<in> A \<union> B" "b \<in> A \<union> B" "translate v a = translate v b"
      then obtain p where "translate v a = Some p" "translate v b = Some p"
        using assms(1,2) by (auto simp: mapped_def)
      then show "a = b"
        using ab assms unfolding mapped_def apart_def inj_on_def by blast
    qed
  qed
qed

lemma ld32_changes:
  assumes "changes A v v'" and "apart v A (region a 4)"
  shows "ld32 v' a = ld32 v a"
proof -
  have "ld8 v' (a + word_of_nat i) = ld8 v (a + word_of_nat i)" if "i < 4" for i
    by (rule ld8_changes [OF assms region_memI [OF that]])
  from this [of 0] this [of 1] this [of 2] this [of 3] show ?thesis by (simp add: ld32_def)
qed

text \<open>The memory address of byte \<open>i\<close> of a file, and the byte.\<close>

definition file_byte :: "vmem \<Rightarrow> kernel \<Rightarrow> u32 \<Rightarrow> nat \<Rightarrow> u8 option" where
  "file_byte v k inode i = do {
     b \<leftarrow> ld32 v (inode_addr k inode + 4 + 4 * word_of_nat (i div 4096));
     ld8 v (data_base k + 4096 * b + word_of_nat (i mod 4096))
   }"

text \<open>
  A file of \<open>eof\<close> bytes whose \<open>j\<close>th block has the number \<open>blk j\<close>, all of whose blocks are
  mapped, and the addresses of its inode and blocks.
\<close>

definition nblocks :: "u32 \<Rightarrow> nat" where
  "nblocks eof = (unat eof + 4095) div 4096"

definition file_at :: "vmem \<Rightarrow> kernel \<Rightarrow> u32 \<Rightarrow> u32 \<Rightarrow> (nat \<Rightarrow> u32) \<Rightarrow> bool" where
  "file_at v k inode eof blk \<longleftrightarrow> ld32 v (inode_addr k inode) = Some eof \<and> nblocks eof \<le> 1023 \<and>
     (\<forall>j < nblocks eof. ld32 v (inode_addr k inode + 4 + 4 * word_of_nat j) = Some (blk j) \<and>
        mapped v (region (data_base k + 4096 * blk j) 4096))"

definition file_area :: "kernel \<Rightarrow> u32 \<Rightarrow> u32 \<Rightarrow> (nat \<Rightarrow> u32) \<Rightarrow> addr set" where
  "file_area k inode eof blk =
     region (inode_addr k inode) 4096 \<union> (\<Union>j < nblocks eof. region (data_base k + 4096 * blk j) 4096)"

text \<open>A destination of \<open>n\<close> bytes that shares no byte with the addresses \<open>A\<close>.\<close>

definition dest_ok :: "vmem \<Rightarrow> addr \<Rightarrow> nat \<Rightarrow> addr set \<Rightarrow> bool" where
  "dest_ok v buf n A \<longleftrightarrow> mapped v (region buf n) \<and> unat buf + n \<le> 2 ^ 32 \<and> apart v (region buf n) A"

lemma region_sub: "i + n \<le> m \<Longrightarrow> region (a + word_of_nat i) n \<subseteq> region a m"
  using region_add [of a i n] region_mono [of "i + n" m a] by auto

lemma block_number_addr: "j < 1023 \<Longrightarrow> region (a + 4 + 4 * word_of_nat j) 4 \<subseteq> region a 4096"
  using region_sub [of "4 + 4 * j" 4 4096 a] by (simp add: add.assoc)

lemma file_area_apart:
  assumes "apart v A (file_area k inode eof blk)" and "j < nblocks eof" and "nblocks eof \<le> 1023"
  shows "apart v A (region (inode_addr k inode + 4 + 4 * word_of_nat j) 4)"
    and "apart v A (region (data_base k + 4096 * blk j) 4096)"
proof -
  have "j < 1023" using assms(2,3) by simp
  from block_number_addr [OF this] show "apart v A (region (inode_addr k inode + 4 + 4 * word_of_nat j) 4)"
    by (intro apart_subset [OF assms(1)]) (auto simp: file_area_def)
  show "apart v A (region (data_base k + 4096 * blk j) 4096)"
    by (rule apart_subset [OF assms(1)]) (use assms(2) in \<open>auto simp: file_area_def\<close>)
qed

lemma file_at_changes:
  assumes "file_at v k inode eof blk" and "changes A v v'" and "apart v A (file_area k inode eof blk)"
  shows "file_at v' k inode eof blk"
proof -
  have nb: "nblocks eof \<le> 1023" using assms(1) by (simp add: file_at_def)
  have "region (inode_addr k inode) 4 \<subseteq> file_area k inode eof blk"
    using region_mono [of 4 4096] by (auto simp: file_area_def)
  then have "ld32 v' (inode_addr k inode) = ld32 v (inode_addr k inode)"
    by (intro ld32_changes [OF assms(2)] apart_subset [OF assms(3)]) auto
  moreover have "ld32 v' (inode_addr k inode + 4 + 4 * word_of_nat j) = ld32 v (inode_addr k inode + 4 + 4 * word_of_nat j)"
    if "j < nblocks eof" for j
    by (rule ld32_changes [OF assms(2) file_area_apart(1) [OF assms(3) that nb]])
  ultimately show ?thesis
    using assms(1) changes_mapped [OF assms(2)] by (simp add: file_at_def)
qed

lemma block_words:
  assumes "j \<le> 1023" and "q < 2 ^ 20"
  shows "unat (word_of_nat (4096 * j) :: u32) = 4096 * j" and "(word_of_nat (4096 * j) :: u32) div 4096 = word_of_nat j"
    and "unat (word_of_nat (4096 * q) :: u32) = 4096 * q" and "0 < q \<Longrightarrow> (word_of_nat (4096 * q) :: u32) \<noteq> 0"
    and "(word_of_nat (4096 * q) :: u32) mod 4096 = 0"
proof -
  show j: "unat (word_of_nat (4096 * j) :: u32) = 4096 * j" by (rule unat_word_of_nat_u32) (use assms(1) in simp)
  show q: "unat (word_of_nat (4096 * q) :: u32) = 4096 * q" by (rule unat_word_of_nat_u32) (use assms(2) in simp)
  have "unat ((word_of_nat (4096 * j) :: u32) div 4096) = unat (word_of_nat j :: u32)"
    using assms(1) j by (simp only: unat_div) (simp add: unat_word_of_nat_u32)
  then show "(word_of_nat (4096 * j) :: u32) div 4096 = word_of_nat j" by (rule unsigned_word_eqI)
  have "unat ((word_of_nat (4096 * q) :: u32) mod 4096) = unat (0 :: u32)"
    using q by (simp only: unat_mod) simp
  then show "(word_of_nat (4096 * q) :: u32) mod 4096 = 0" by (rule unsigned_word_eqI)
  show "(word_of_nat (4096 * q) :: u32) \<noteq> 0" if "0 < q" using q that by auto
qed

lemma nblocks_bounds: "4096 * nblocks eof < unat eof + 4096" "unat eof \<le> 4096 * nblocks eof"
  unfolding nblocks_def by linarith+

lemma dest_ok_split:
  assumes "dest_ok v buf (m + n) A"
  shows "dest_ok v buf m A" and "dest_ok v (buf + word_of_nat m) n A"
    and "apart v (region (buf + word_of_nat m) n) (region buf m)"
proof -
  have mp: "mapped v (region buf (m + n))" and u: "unat buf + (m + n) \<le> 2 ^ 32" and ap: "apart v (region buf (m + n)) A"
    using assms by (auto simp: dest_ok_def)
  show "dest_ok v buf m A"
    using mp u ap region_add [of buf m n] by (auto simp: dest_ok_def elim: mapped_subset apart_subset)
  have "unat (buf + word_of_nat m) + n \<le> 2 ^ 32"
  proof (cases "n = 0")
    case True
    then show ?thesis using unat_u32_lt [of "buf + word_of_nat m"] by simp
  next
    case False
    then show ?thesis using unat_add_nowrap [OF u, of m] u by simp
  qed
  then show "dest_ok v (buf + word_of_nat m) n A"
    using mp ap region_add [of buf m n] by (auto simp: dest_ok_def elim: mapped_subset apart_subset)
  have "region (buf + word_of_nat m) n \<inter> region buf m = {}"
  proof (cases "n = 0")
    case False
    have "unat (buf + word_of_nat m) = unat buf + m" by (rule unat_add_nowrap [OF u]) (use False in simp)
    then show ?thesis using region_disjoint [of buf m "buf + word_of_nat m" n] u by auto
  qed simp
  with mp show "apart v (region (buf + word_of_nat m) n) (region buf m)"
    by (intro apart_mapped) (auto simp: region_add Un_commute)
qed

lemma dest_ok_changes: "changes B v v' \<Longrightarrow> dest_ok v' buf n A = dest_ok v buf n A"
  by (simp add: dest_ok_def changes_mapped apart_same_map [OF changes_same_map])

text \<open>One whole block of the file, copied to a destination off the file.\<close>

lemma copy_block:
  assumes f: "file_at v k inode eof blk" and j: "j < nblocks eof" and d: "dest_ok v buf 4096 (file_area k inode eof blk)"
  shows "\<exists>v'. memcpy v buf (data_base k + 4096 * blk j) 4096 = Some v' \<and> changes (region buf 4096) v v' \<and>
    ld_bytes v' buf 4096 = ld_bytes v (data_base k + 4096 * blk j) 4096 \<and> file_at v' k inode eof blk \<and>
    (\<forall>i < nblocks eof. ld_bytes v' (data_base k + 4096 * blk i) 4096 = ld_bytes v (data_base k + 4096 * blk i) 4096)"
proof -
  have nb: "nblocks eof \<le> 1023" and mb: "mapped v (region (data_base k + 4096 * blk j) 4096)"
    using f j by (auto simp: file_at_def)
  have dA: "apart v (region buf 4096) (file_area k inode eof blk)" and md: "mapped v (region buf 4096)"
    using d by (auto simp: dest_ok_def)
  have "mapped v (region buf (unat (4096 :: u32)) \<union> region (data_base k + 4096 * blk j) (unat (4096 :: u32)))"
    "region buf (unat (4096 :: u32)) \<inter> region (data_base k + 4096 * blk j) (unat (4096 :: u32)) = {}"
    using mapped_union [OF md mb file_area_apart(2) [OF dA j nb]] by simp_all
  from memcpy_disjoint [OF this] obtain v' where v': "memcpy v buf (data_base k + 4096 * blk j) 4096 = Some v'"
    "changes (region buf 4096) v v'" "ld_bytes v' buf 4096 = ld_bytes v (data_base k + 4096 * blk j) 4096" by auto
  moreover have "file_at v' k inode eof blk" by (rule file_at_changes [OF f v'(2) dA])
  moreover have "ld_bytes v' (data_base k + 4096 * blk i) 4096 = ld_bytes v (data_base k + 4096 * blk i) 4096"
    if "i < nblocks eof" for i
    by (rule ld_bytes_changes [OF v'(2) file_area_apart(2) [OF dA that nb]])
  ultimately show ?thesis by blast
qed

text \<open>The loop on whole blocks from offset 0, as \<open>load\<close> runs it.\<close>

lemma read_loop_blocks:
  assumes "file_at v k inode eof blk" and "j + r = nblocks eof" and "r \<le> q" and "q < 2 ^ 20"
    and "dest_ok v buf (4096 * r) (file_area k inode eof blk)"
  shows "\<exists>v'. read_loop (inode_addr k inode) (data_base k) eof 0 (word_of_nat (4096 * j)) buf (word_of_nat (4096 * q)) v =
      Some (word_of_nat (4096 * nblocks eof), v') \<and> changes (region buf (4096 * r)) v v' \<and>
    (\<forall>i < r. ld_bytes v' (buf + word_of_nat (4096 * i)) 4096 = ld_bytes v (data_base k + 4096 * blk (j + i)) 4096)"
  using assms
proof (induction r arbitrary: j q buf v)
  case 0
  then have "\<not> (word_of_nat (4096 * j) :: u32) < eof"
    using nblocks_bounds(2) [of eof] block_words(1) [of j 0] by (simp add: word_less_nat_alt file_at_def)
  then show ?case using 0 by (simp add: read_loop_done)
next
  case (Suc r)
  let ?A = "file_area k inode eof blk"
  have j: "j < nblocks eof" "nblocks eof \<le> 1023" using Suc.prems(1,2) by (auto simp: file_at_def)
  note w = block_words [of j q, OF _ Suc.prems(4)]
  have lt: "(word_of_nat (4096 * j) :: u32) < eof"
    using nblocks_bounds(1) [of eof] j w(1) by (simp add: word_less_nat_alt)
  have b: "ld32 v (inode_addr k inode + 4 + 4 * word_of_nat j) = Some (blk j)"
    using Suc.prems(1) j by (simp add: file_at_def)
  have d: "dest_ok v buf 4096 ?A" "dest_ok v (buf + word_of_nat 4096) (4096 * r) ?A"
    "apart v (region (buf + word_of_nat 4096) (4096 * r)) (region buf 4096)"
    using dest_ok_split [of v buf 4096 "4096 * r" ?A] Suc.prems(5) by simp_all
  obtain v1 where v1: "memcpy v buf (data_base k + 4096 * blk j) 4096 = Some v1" "changes (region buf 4096) v v1"
    "ld_bytes v1 buf 4096 = ld_bytes v (data_base k + 4096 * blk j) 4096" "file_at v1 k inode eof blk"
    "\<forall>i < nblocks eof. ld_bytes v1 (data_base k + 4096 * blk i) 4096 = ld_bytes v (data_base k + 4096 * blk i) 4096"
    using copy_block [OF Suc.prems(1) j(1) d(1)] by blast
  have pre: "Suc j + r = nblocks eof" "r \<le> q - 1" "q - 1 < 2 ^ 20" "dest_ok v1 (buf + word_of_nat 4096) (4096 * r) ?A"
    using Suc.prems(2-4) d(2) dest_ok_changes [OF v1(2)] by simp_all
  obtain v2 where v2: "read_loop (inode_addr k inode) (data_base k) eof 0 (word_of_nat (4096 * Suc j)) (buf + word_of_nat 4096)
        (word_of_nat (4096 * (q - 1))) v1 = Some (word_of_nat (4096 * nblocks eof), v2)"
    "changes (region (buf + word_of_nat 4096) (4096 * r)) v1 v2"
    "\<forall>i < r. ld_bytes v2 (buf + word_of_nat 4096 + word_of_nat (4096 * i)) 4096 =
       ld_bytes v1 (data_base k + 4096 * blk (Suc j + i)) 4096"
    using Suc.IH [OF v1(4) pre] by blast
  have words: "(word_of_nat (4096 * j) :: u32) + 4096 = word_of_nat (4096 * Suc j)"
    "(word_of_nat (4096 * q) :: u32) - 4096 = word_of_nat (4096 * (q - 1))"
    using Suc.prems(3) by (simp_all add: of_nat_diff algebra_simps)
  have step: "read_loop (inode_addr k inode) (data_base k) eof 0 (word_of_nat (4096 * j)) buf (word_of_nat (4096 * q)) v =
      Some (word_of_nat (4096 * nblocks eof), v2)"
    using w(2,4,5) Suc.prems(3) j lt b v1(1) v2(1) words
    by (subst read_loop.simps) (simp add: chunk_len_def Let_def add.commute [of 4096])
  have sub: "region (buf + word_of_nat 4096) (4096 * r) \<subseteq> region buf (4096 * Suc r)" "region buf 4096 \<subseteq> region buf (4096 * Suc r)"
    using region_sub [of 4096 "4096 * r" "4096 * Suc r" buf] region_mono [of 4096 "4096 * Suc r" buf] by auto
  have ch: "changes (region buf (4096 * Suc r)) v v2"
    by (rule changes_trans [OF changes_mono [OF v1(2) sub(2)] changes_mono [OF v2(2) sub(1)]])
  have first: "ld_bytes v2 buf 4096 = ld_bytes v (data_base k + 4096 * blk j) 4096"
    using ld_bytes_changes [OF v2(2), of buf 4096] d(3) v1(3) apart_same_map [OF changes_same_map [OF v1(2)]] by simp
  have "ld_bytes v2 (buf + word_of_nat (4096 * i)) 4096 = ld_bytes v (data_base k + 4096 * blk (j + i)) 4096" if "i < Suc r" for i
    using first v2(3) [rule_format, of "i - 1"] v1(5) [rule_format, of "j + i"] that Suc.prems(2)
    by (cases i) (simp_all add: algebra_simps)
  with step ch show ?case by blast
qed

lemma file_at_size: "file_at v k inode eof blk \<Longrightarrow> unat eof \<le> 4190208"
  using nblocks_bounds(2) [of eof] by (simp add: file_at_def)

lemma chunk_len_short:
  assumes "0 < len" and "len < 4096" and "offset < eof" and "unat eof \<le> 4190208"
  shows "unat (chunk_len offset eof len) = min (unat len) (unat eof - unat offset)"
proof -
  have u: "0 < unat len" "unat len < 4096" "unat offset < unat eof"
    using assms(1-3) by (simp_all add: word_less_nat_alt)
  have "unat (len + offset) = unat len + unat offset"
    using u assms(4) by (subst unat_add_lem [symmetric]) simp
  moreover have "len mod 4096 \<noteq> 0"
  proof
    assume "len mod 4096 = 0"
    then have "unat len mod 4096 = 0" using unat_mod [of len 4096] by simp
    with u show False by simp
  qed
  moreover have "unat (eof - offset) = unat eof - unat offset"
    using u(3) by (simp add: unat_sub_if_size)
  ultimately show ?thesis using u by (auto simp: chunk_len_def word_less_nat_alt)
qed

lemma nblocks_index: "i < unat eof \<Longrightarrow> i div 4096 < nblocks eof"
  unfolding nblocks_def by linarith

lemma file_byte_at:
  assumes "file_at v k inode eof blk" and "i < unat eof"
  shows "file_byte v k inode i = ld8 v (data_base k + 4096 * blk (i div 4096) + word_of_nat (i mod 4096))"
  using assms nblocks_index [OF assms(2)] by (simp add: file_byte_def file_at_def)

lemma within_block:
  assumes "o1 mod 4096 + i < (4096 :: nat)"
  shows "(o1 + i) div 4096 = o1 div 4096" "(o1 + i) mod 4096 = o1 mod 4096 + i"
proof -
  have "o1 + i = (o1 mod 4096 + i) + o1 div 4096 * 4096" by simp
  then show "(o1 + i) div 4096 = o1 div 4096" "(o1 + i) mod 4096 = o1 mod 4096 + i"
    using assms by (metis div_mult_self3 div_less add.left_neutral add.commute zero_neq_numeral,
        metis mod_mult_self3 mod_less add.commute)
qed

text \<open>The source of a short read: the part of one block behind the offset.\<close>

lemma chunk_source:
  assumes f: "file_at v k inode eof blk" and off: "offset < eof" and fit: "unat offset mod 4096 + n \<le> 4096"
    and d: "dest_ok v buf n (file_area k inode eof blk)"
  defines "src \<equiv> data_base k + 4096 * blk (unat offset div 4096) + offset mod 4096"
  shows "mapped v (region buf n \<union> region src n)" and "region buf n \<inter> region src n = {}"
    and "ld32 v (inode_addr k inode + 4 + 4 * (offset div 4096)) = Some (blk (unat offset div 4096))"
    and "\<And>i. i < n \<Longrightarrow> unat offset + i < unat eof \<Longrightarrow> file_byte v k inode (unat offset + i) = ld8 v (src + word_of_nat i)"
proof -
  let ?j = "unat offset div 4096"
  have j: "?j < nblocks eof" using off by (simp add: nblocks_index word_less_nat_alt)
  have nb: "nblocks eof \<le> 1023" using f by (simp add: file_at_def)
  have "unat (offset div 4096) = unat (word_of_nat ?j :: u32)"
    using j nb by (simp add: unat_div unat_word_of_nat_u32)
  then have od: "offset div 4096 = word_of_nat ?j" by (rule unsigned_word_eqI)
  show "ld32 v (inode_addr k inode + 4 + 4 * (offset div 4096)) = Some (blk ?j)"
    using f j by (simp add: od file_at_def)
  have "unat (offset mod 4096) = unat (word_of_nat (unat offset mod 4096) :: u32)"
    by (simp add: unat_mod unat_word_of_nat_u32 less_trans [OF mod_less_divisor])
  then have om: "offset mod 4096 = word_of_nat (unat offset mod 4096)" by (rule unsigned_word_eqI)
  have src: "src = data_base k + 4096 * blk ?j + word_of_nat (unat offset mod 4096)"
    by (simp add: src_def om)
  have sub: "region src n \<subseteq> region (data_base k + 4096 * blk ?j) 4096"
    unfolding src by (rule region_sub [OF fit])
  have "mapped v (region src n)"
    using f j by (intro mapped_subset [OF _ sub]) (simp add: file_at_def)
  moreover have dA: "apart v (region buf n) (file_area k inode eof blk)" using d by (simp add: dest_ok_def)
  have "apart v (region buf n) (region src n)"
    by (rule apart_subset [OF file_area_apart(2) [OF dA j nb] subset_refl sub])
  ultimately show "mapped v (region buf n \<union> region src n)" "region buf n \<inter> region src n = {}"
    using mapped_union [of v "region buf n" "region src n"] d by (auto simp: dest_ok_def)
  fix i assume i: "i < n" "unat offset + i < unat eof"
  have "(unat offset + i) div 4096 = ?j" "(unat offset + i) mod 4096 = unat offset mod 4096 + i"
    using within_block [of "unat offset" i] fit i(1) by simp_all
  then show "file_byte v k inode (unat offset + i) = ld8 v (src + word_of_nat i)"
    using file_byte_at [OF f i(2)] by (simp add: src add.assoc)
qed

lemma read_data_chunk:
  assumes f: "file_at (kvm k) k inode eof blk" and ino: "inode \<le> numinodes k" and off: "offset < eof"
    and len: "0 < len" "len < 4096" and n: "n = min (unat len) (unat eof - unat offset)"
    and fit: "unat offset mod 4096 + n \<le> 4096" and d: "dest_ok (kvm k) buf n (file_area k inode eof blk)"
  shows "\<exists>v'. read_data inode offset buf len k = Some (int n, set_vm v' k) \<and> changes (region buf n) (kvm k) v' \<and>
    (\<forall>i < n. ld8 v' (buf + word_of_nat i) = file_byte (kvm k) k inode (unat offset + i))"
proof -
  note src = chunk_source [OF f off fit d]
  let ?src = "data_base k + 4096 * blk (unat offset div 4096) + offset mod 4096"
  let ?n = "chunk_len offset eof len"
  have un: "unat ?n = n" using chunk_len_short [OF len off file_at_size [OF f]] n by simp
  obtain v' bs where v': "memcpy (kvm k) buf ?src ?n = Some v'" "changes (region buf n) (kvm k) v'"
    "ld_bytes (kvm k) ?src n = Some bs" "ld_bytes v' buf n = Some bs"
    using memcpy_disjoint [of "kvm k" buf ?n ?src] src(1,2) un by auto
  have ou: "unat offset < unat eof" using off by (simp add: word_less_nat_alt)
  have cnt: "unat (offset + ?n) = unat offset + n"
    using un n ou file_at_size [OF f] unat_add_lem [THEN iffD1, of offset ?n] by simp
  have stop: "len - ?n = 0 \<or> \<not> offset + ?n < eof"
  proof (cases "n = unat len")
    case True
    then have "?n = len" using un by (metis unsigned_word_eqI)
    then show ?thesis by simp
  next
    case False
    then show ?thesis using n ou cnt by (auto simp: word_less_nat_alt min_def split: if_splits)
  qed
  have "read_loop (inode_addr k inode) (data_base k) eof offset offset buf len (kvm k) = Some (offset + ?n, v')"
    using off word_gt_0 [THEN iffD1, OF len(1)] src(3) v'(1) read_loop_done [OF stop]
    by (subst read_loop.simps) (simp add: Let_def)
  moreover have "sint (offset + ?n - offset) = int n"
  proof -
    have "n < 4096" using n len(2) by (simp add: word_less_nat_alt)
    moreover have "?n = word_of_nat n" unfolding un [symmetric] by simp
    ultimately show ?thesis using s32_id [of "int n"] by (simp add: s32_def)
  qed
  moreover have "ld8 v' (buf + word_of_nat i) = file_byte (kvm k) k inode (unat offset + i)" if "i < n" for i
  proof -
    have "unat offset + i < unat eof" using that n ou by (simp add: less_diff_conv add.commute)
    then show ?thesis using ld_bytes_nth [OF v'(3) that] ld_bytes_nth [OF v'(4) that] src(4) [OF that] by simp
  qed
  ultimately show ?thesis
    using f ino off v'(2) by (auto simp: read_data_def file_at_def)
qed

lemma read_data_load:
  assumes f: "file_at (kvm k) k inode eof blk" and ino: "inode \<le> numinodes k" and q: "nblocks eof \<le> q" "q < 2 ^ 20"
    and d: "dest_ok (kvm k) buf (4096 * nblocks eof) (file_area k inode eof blk)"
  shows "\<exists>v'. read_data inode 0 buf (word_of_nat (4096 * q)) k = Some (int (4096 * nblocks eof), set_vm v' k) \<and>
    changes (region buf (4096 * nblocks eof)) (kvm k) v' \<and>
    (\<forall>i < unat eof. ld8 v' (buf + word_of_nat i) = file_byte (kvm k) k inode i)"
proof -
  obtain v' where v': "read_loop (inode_addr k inode) (data_base k) eof 0 0 buf (word_of_nat (4096 * q)) (kvm k) =
      Some (word_of_nat (4096 * nblocks eof), v')"
    "changes (region buf (4096 * nblocks eof)) (kvm k) v'"
    "\<forall>i < nblocks eof. ld_bytes v' (buf + word_of_nat (4096 * i)) 4096 = ld_bytes (kvm k) (data_base k + 4096 * blk i) 4096"
    using read_loop_blocks [OF f _ q d, of 0] by auto
  have nb: "nblocks eof \<le> 1023" using f by (simp add: file_at_def)
  have "sint (word_of_nat (4096 * nblocks eof) :: u32) = int (4096 * nblocks eof)"
    using s32_id [of "int (4096 * nblocks eof)"] nb by (simp add: s32_def)
  moreover have "nblocks eof = 0" if "eof = 0" using that by (simp add: nblocks_def)
  ultimately have "read_data inode 0 buf (word_of_nat (4096 * q)) k = Some (int (4096 * nblocks eof), set_vm v' k)"
    using v'(1) f ino by (auto simp: read_data_def file_at_def)
  moreover have "ld8 v' (buf + word_of_nat i) = file_byte (kvm k) k inode i" if "i < unat eof" for i
  proof -
    let ?j = "i div 4096"
    have j: "?j < nblocks eof" by (rule nblocks_index [OF that])
    obtain bs where bs: "ld_bytes (kvm k) (data_base k + 4096 * blk ?j) 4096 = Some bs"
      using ld_bytes_mapped f j by (fastforce simp: file_at_def)
    have "i = 4096 * ?j + i mod 4096" by simp
    then have "buf + word_of_nat i = buf + word_of_nat (4096 * ?j) + word_of_nat (i mod 4096)"
      by (metis add.assoc of_nat_add)
    moreover have "i mod 4096 < 4096" by simp
    ultimately show ?thesis
      using file_byte_at [OF f that] ld_bytes_nth [OF bs, of "i mod 4096"] v'(3) [rule_format, OF j] bs
        ld_bytes_nth [of v' "buf + word_of_nat (4096 * ?j)" 4096 bs "i mod 4096"] by (simp add: add.assoc)
  qed
  ultimately show ?thesis using v'(2) by blast
qed

section \<open>Listing the directory\<close>

lemma strncpy_arr_eq:
  "n \<le> length src \<Longrightarrow> strncpy_arr src n = Some (entry_name (take n src) @ replicate (n - length (entry_name (take n src))) 0)"
proof (induction src n rule: strncpy_arr.induct)
  case (3 c src n)
  then show ?case by (cases "c = 0") (auto simp: entry_name_def)
qed (simp_all add: entry_name_def)

definition padded_name :: "dentry_t \<Rightarrow> u8 list" where
  "padded_name d = entry_name (dname d) @ replicate (32 - length (entry_name (dname d))) 0"

lemma padded_name_length: "length (dname d) = 32 \<Longrightarrow> length (padded_name d) = 32"
  using length_takeWhile_le [of "\<lambda>b. b \<noteq> 0" "dname d"] by (simp add: padded_name_def entry_name_def)

lemma copy_dentry_changes:
  assumes "changes A v v'" and "apart v A (region a 64)"
  shows "copy_dentry v' a = copy_dentry v a"
proof -
  have "apart v A (region a 32)" "apart v A (region (a + 32) 4)" "apart v A (region (a + 36) 4)"
    using region_mono [of 32 64 a] region_sub [of 32 4 64 a] region_sub [of 36 4 64 a]
    by (auto intro: apart_subset [OF assms(2)])
  then show ?thesis
    using ld_bytes_changes [OF assms(1), of a 32] ld32_changes [OF assms(1), of "a + 32"] ld32_changes [OF assms(1), of "a + 36"]
    by (simp add: copy_dentry_def)
qed

section \<open>A small file system\<close>

text \<open>
  An image with one directory entry (the name \<open>a\<close>, a regular file with inode 0), whose file
  holds the five bytes of \<open>hello\<close>, at address 0x410000 of a machine without paging.
\<close>

definition sample_fs :: "u32 \<Rightarrow> u8" where
  "sample_fs = (\<lambda>_. 0)(0x410000 := 1, 0x410004 := 1, 0x410008 := 1, 0x410040 := 0x61, 0x410060 := 2,
     0x411000 := 5, 0x412000 := 104, 0x412001 := 101, 0x412002 := 108, 0x412003 := 108, 0x412004 := 111)"

definition sample_fs_kernel :: kernel where
  "sample_fs_kernel = (zero_kernel (flat_machine sample_fs) 0x7FFFFC 0x7FF000 0x500000)
     \<lparr>start_addr := 0x410000, numdentries := 1, numinodes := 1, numblocks := 1, startdentry := 0x410040\<rparr>"

lemma sample_fs_kernel_fields [simp]:
  "kvm sample_fs_kernel = flat_vmem sample_fs" "start_addr sample_fs_kernel = 0x410000"
  "numinodes sample_fs_kernel = 1" "startdentry sample_fs_kernel = 0x410040" "numdentries sample_fs_kernel = 1"
  by (simp_all add: sample_fs_kernel_def)

lemma ld_bytes_flat: "ld_bytes (flat_vmem p) a n = Some (map (\<lambda>i. p (a + word_of_nat i)) [0..<n])"
  by (rule ld_bytesI) simp_all

lemma ld32_flat: "ld32 (flat_vmem p) a = Some (word_of_bytes (p a) (p (a + 1)) (p (a + 2)) (p (a + 3)))"
  by (simp add: ld32_def)

lemma sample_file: "file_at (flat_vmem sample_fs) sample_fs_kernel 0 5 (\<lambda>_. 0)"
  by (auto simp: file_at_def nblocks_def inode_addr_def ld32_flat sample_fs_def word_of_bytes_def)

lemma sample_dest:
  assumes "n \<le> 4096"
  shows "dest_ok (flat_vmem sample_fs) 0x900000 n (file_area sample_fs_kernel 0 5 (\<lambda>_. 0))"
proof -
  have "region 0x411000 4096 \<inter> region (0x900000 :: addr) n = {}" "region 0x412000 4096 \<inter> region (0x900000 :: addr) n = {}"
    by (rule region_disjoint; use assms in simp)+
  then show ?thesis
    using assms by (auto simp: dest_ok_def file_area_def inode_addr_def data_base_def)
qed

lemma copy_dentry_flat: "\<exists>d. copy_dentry (flat_vmem p) a = Some d"
  by (simp add: copy_dentry_def ld_bytes_flat ld32_flat)

lemma those_exists: "(\<forall>x \<in> set xs. \<exists>y. x = Some y) \<Longrightarrow> \<exists>ys. those xs = Some ys"
  by (induction xs) auto

lemma directory_flat: "\<exists>ds. directory (flat_vmem p) a = Some ds"
  unfolding directory_def by (rule those_exists) (auto simp: copy_dentry_flat)

section \<open>Properties\<close>



text \<open>
  reading file data within a block.  For an inode within bounds, an offset inside the file
  and a length below 4096, when the bytes asked for do not cross a block boundary,
  \<open>read_data\<close> copies exactly the bytes of the file from the offset on, as many as are asked for
  and are left in the file, returns their number, and changes nothing outside the destination.
\<close>

theorem read_data_short:
  assumes "file_at (kvm k) k inode eof blk" and "inode \<le> numinodes k" and "offset < eof"
    and "0 < len" and "len < 4096" and "n = min (unat len) (unat eof - unat offset)"
    and "unat offset mod 4096 + n \<le> 4096" and "dest_ok (kvm k) buf n (file_area k inode eof blk)"
  shows "\<exists>v'. read_data inode offset buf len k = Some (int n, set_vm v' k) \<and> changes (region buf n) (kvm k) v' \<and>
    (\<forall>i < n. ld8 v' (buf + word_of_nat i) = file_byte (kvm k) k inode (unat offset + i))"
  using assms by (rule read_data_chunk)

theorem read_data_short_witness:
  "\<exists>v'. read_data 0 2 0x900000 10 sample_fs_kernel = Some (3, set_vm v' sample_fs_kernel) \<and>
    ld8 v' 0x900000 = file_byte (flat_vmem sample_fs) sample_fs_kernel 0 2"
proof -
  have "file_at (kvm sample_fs_kernel) sample_fs_kernel 0 5 (\<lambda>_. 0)" using sample_file by simp
  moreover have "dest_ok (kvm sample_fs_kernel) 0x900000 3 (file_area sample_fs_kernel 0 5 (\<lambda>_. 0))"
    using sample_dest by simp
  ultimately show ?thesis
    using read_data_short [of sample_fs_kernel 0 5 "\<lambda>_. 0" 2 10 3 "0x900000"] by fastforce
qed

text \<open>
  C29: reading a whole file, as \<open>load\<close> does it (offset 0 and a length that is a multiple of the
  block size and large enough).  \<open>read_data\<close> returns, every byte of the file is at its place in
  the destination, and nothing outside the whole blocks of the destination has changed.  The
  result counts whole blocks, so it is above the file's length unless that is a multiple of 4096.
\<close>

theorem read_data_whole_file:
  assumes "file_at (kvm k) k inode eof blk" and "inode \<le> numinodes k" and "nblocks eof \<le> q" and "q < 2 ^ 20"
    and "dest_ok (kvm k) buf (4096 * nblocks eof) (file_area k inode eof blk)"
  shows "\<exists>v'. read_data inode 0 buf (word_of_nat (4096 * q)) k = Some (int (4096 * nblocks eof), set_vm v' k) \<and>
    changes (region buf (4096 * nblocks eof)) (kvm k) v' \<and>
    (\<forall>i < unat eof. ld8 v' (buf + word_of_nat i) = file_byte (kvm k) k inode i)"
  using assms by (rule read_data_load)

theorem read_data_whole_file_witness:
  "\<exists>v'. read_data 0 0 0x900000 0x3B8000 sample_fs_kernel = Some (4096, set_vm v' sample_fs_kernel) \<and>
    ld8 v' 0x900004 = file_byte (flat_vmem sample_fs) sample_fs_kernel 0 4"
proof -
  have nb: "nblocks 5 = 1" by (simp add: nblocks_def)
  have f: "file_at (kvm sample_fs_kernel) sample_fs_kernel 0 5 (\<lambda>_. 0)" using sample_file by simp
  have d: "dest_ok (kvm sample_fs_kernel) 0x900000 (4096 * nblocks 5) (file_area sample_fs_kernel 0 5 (\<lambda>_. 0))"
    using sample_dest by (simp add: nb)
  have "nblocks 5 \<le> 0x3B8" by (simp add: nb)
  from read_data_whole_file [OF f _ this _ d] nb obtain v' where
    "read_data 0 0 0x900000 0x3B8000 sample_fs_kernel = Some (4096, set_vm v' sample_fs_kernel)"
    "\<forall>i < 5. ld8 v' (0x900000 + word_of_nat i) = file_byte (flat_vmem sample_fs) sample_fs_kernel 0 i"
    by auto
  then show ?thesis by (intro exI [of _ v']) (auto dest: spec [of _ "4 :: nat"])
qed

text \<open>
  the bounds check of \<open>read_data\<close>.  An inode number above \<open>numinodes\<close> is answered with -1,
  an offset at or behind the end of the file with 0, both without changing anything.  The number
  \<open>numinodes\<close> itself is one too large but passes the check: its inode address is the first data
  block, whose contents are then taken for an inode.
\<close>

theorem read_data_bounds:
  assumes "ld32 (kvm k) (inode_addr k inode) = Some eof"
  shows "(numinodes k < inode \<longrightarrow> read_data inode offset buf len k = Some (-1, k)) \<and>
    (inode \<le> numinodes k \<and> eof \<le> offset \<longrightarrow> read_data inode offset buf len k = Some (0, k)) \<and>
    inode_addr k (numinodes k) = data_base k"
proof -
  have "read_loop ib base eof offset offset buf len v = Some (offset, v)" if "eof \<le> offset" for ib base v
    by (rule read_loop_done) (use that in auto)
  then show ?thesis using assms by (auto simp: read_data_def inode_addr_def data_base_def)
qed

theorem read_data_bounds_witness:
  "read_data 2 0 0x900000 5 sample_fs_kernel = Some (-1, sample_fs_kernel) \<and>
   read_data 0 5 0x900000 5 sample_fs_kernel = Some (0, sample_fs_kernel)"
proof -
  have "\<exists>eof. ld32 (kvm sample_fs_kernel) (inode_addr sample_fs_kernel 2) = Some eof" by (simp add: ld32_flat)
  moreover have "ld32 (kvm sample_fs_kernel) (inode_addr sample_fs_kernel 0) = Some 5"
    using sample_file by (simp add: file_at_def)
  ultimately show ?thesis
    using read_data_bounds [of sample_fs_kernel 2 _ 0 "0x900000" 5] read_data_bounds [of sample_fs_kernel 0 5 5 "0x900000" 5]
    by auto
qed

lemma file_read_chunk:
  assumes "0 \<le> fd" and "e = fd_of k (cur_process k) fd" and "file_at (kvm k) k (word_of_int (inode_number e)) eof blk"
    and "word_of_int (inode_number e) \<le> numinodes k" and "file_pos e = int pos" and "pos < 2 ^ 31 - 4096"
    and "0 < nbytes" and "nbytes < 4096" and "n = min (nat nbytes) (unat eof - pos)" and "pos mod 4096 + n \<le> 4096"
    and "dest_ok (kvm k) buf n (file_area k (word_of_int (inode_number e)) eof blk)"
  shows "(pos < unat eof \<longrightarrow>
      (\<exists>v'. file_read fd buf nbytes k =
          Some (int n, upd_fd (cur_process k) fd (\<lambda>e. e\<lparr>file_pos := int (pos + n)\<rparr>) (set_vm v' k)) \<and>
        changes (region buf n) (kvm k) v' \<and>
        (\<forall>i < n. ld8 v' (buf + word_of_nat i) = file_byte (kvm k) k (word_of_int (inode_number e)) (pos + i)))) \<and>
    (unat eof \<le> pos \<longrightarrow>
      file_read fd buf nbytes k = Some (0, upd_fd (cur_process k) fd (\<lambda>e. e\<lparr>file_pos := 0\<rparr>) k))"
proof (intro conjI impI)
  let ?ino = "word_of_int (inode_number e) :: u32" and ?off = "word_of_nat pos :: u32" and ?len = "word_of_int nbytes :: u32"
  have off: "(word_of_int (file_pos e) :: u32) = ?off" "unat ?off = pos"
    using assms(5,6) by (simp_all add: unat_word_of_nat_u32)
  have "uint ?len = nbytes" using assms(7,8) by (simp only: uint_word_of_int) simp
  then have len: "unat ?len = nat nbytes" by (simp only: unat_eq_nat_uint)
  have e: "fd_of k (cur_process k) fd = e" using assms(2) by simp
  {
    assume lt: "pos < unat eof"
    have n: "0 < n" using lt assms(7,9) by simp
    have l: "0 < ?len" "?len < 4096" using len assms(7,8) by (simp_all add: word_less_nat_alt)
    have o: "?off < eof" using lt off by (simp add: word_less_nat_alt)
    obtain v' where v': "read_data ?ino ?off buf ?len k = Some (int n, set_vm v' k)" "changes (region buf n) (kvm k) v'"
      "\<forall>i < n. ld8 v' (buf + word_of_nat i) = file_byte (kvm k) k ?ino (pos + i)"
      using read_data_chunk [OF assms(3,4) o l, of n buf] assms(9-11) off(2) len by auto
    have "s32 (int pos + int n) = int (pos + n)"
      using assms(6,8,9) by (subst s32_id) auto
    with v' n show "\<exists>v'. file_read fd buf nbytes k =
          Some (int n, upd_fd (cur_process k) fd (\<lambda>e. e\<lparr>file_pos := int (pos + n)\<rparr>) (set_vm v' k)) \<and>
        changes (region buf n) (kvm k) v' \<and>
        (\<forall>i < n. ld8 v' (buf + word_of_nat i) = file_byte (kvm k) k ?ino (pos + i))"
      using assms(1) off(1) assms(5) e
      by (intro exI [of _ v']) (auto simp: file_read_def Let_def upd_fd_def upd_pcb_def set_vm_def)
  next
    assume "unat eof \<le> pos"
    then have "eof \<le> ?off" using off by (simp add: word_le_nat_alt)
    moreover from this have "read_loop ib base eof ?off ?off buf ?len v = Some (?off, v)" for ib base v
      by (intro read_loop_done) auto
    ultimately have "read_data ?ino ?off buf ?len k = Some (0, k)"
      using assms(3,4) by (auto simp: read_data_def file_at_def)
    then show "file_read fd buf nbytes k = Some (0, upd_fd (cur_process k) fd (\<lambda>e. e\<lparr>file_pos := 0\<rparr>) k)"
      using assms(1) off(1) e by (simp add: file_read_def Let_def)
  }
qed

text \<open>
  \<open>file_read\<close> reads a file sequentially.  With a position inside the file and a request
  that stays in one block (as the user programs' reads of 1024 bytes do), the call delivers the
  next bytes of the file, returns their number and advances the position by it; at the end of the
  file it returns 0 and sets the position back to 0.
\<close>

theorem file_read_sequential:
  assumes "0 \<le> fd" and "e = fd_of k (cur_process k) fd" and "file_at (kvm k) k (word_of_int (inode_number e)) eof blk"
    and "word_of_int (inode_number e) \<le> numinodes k" and "file_pos e = int pos" and "pos < 2 ^ 31 - 4096"
    and "0 < nbytes" and "nbytes < 4096" and "n = min (nat nbytes) (unat eof - pos)" and "pos mod 4096 + n \<le> 4096"
    and "dest_ok (kvm k) buf n (file_area k (word_of_int (inode_number e)) eof blk)"
  shows "(pos < unat eof \<longrightarrow>
      (\<exists>v'. file_read fd buf nbytes k =
          Some (int n, upd_fd (cur_process k) fd (\<lambda>e. e\<lparr>file_pos := int (pos + n)\<rparr>) (set_vm v' k)) \<and>
        changes (region buf n) (kvm k) v' \<and>
        (\<forall>i < n. ld8 v' (buf + word_of_nat i) = file_byte (kvm k) k (word_of_int (inode_number e)) (pos + i)))) \<and>
    (unat eof \<le> pos \<longrightarrow>
      file_read fd buf nbytes k = Some (0, upd_fd (cur_process k) fd (\<lambda>e. e\<lparr>file_pos := 0\<rparr>) k))"
  by (rule file_read_chunk [OF assms])

theorem file_read_sequential_witness:
  "\<exists>v'. file_read 2 0x900000 1024 sample_fs_kernel =
    Some (5, upd_fd 0 2 (\<lambda>e. e\<lparr>file_pos := 5\<rparr>) (set_vm v' sample_fs_kernel))"
proof -
  let ?k = sample_fs_kernel
  have z: "cur_process ?k = 0" "fd_of ?k 0 2 = zero_fd"
    by (simp_all add: sample_fs_kernel_def zero_terminal_def zero_pcb_def)
  have f: "file_at (kvm ?k) ?k (word_of_int (inode_number zero_fd)) 5 (\<lambda>_. 0)"
    using sample_file by (simp add: zero_fd_def)
  have d: "dest_ok (kvm ?k) 0x900000 5 (file_area ?k (word_of_int (inode_number zero_fd)) 5 (\<lambda>_. 0))"
    using sample_dest by (simp add: zero_fd_def)
  from file_read_sequential [of 2 zero_fd ?k 5 "\<lambda>_. 0" 0 1024 5 "0x900000"] f d z show ?thesis
    by (simp add: zero_fd_def) blast
qed

lemma dir_read_ok:
  assumes "copy_dentry (kvm k) (startdentry k + 64 * curfile k) = Some d" and "curfile k < 64"
    and "dest_ok (kvm k) buf 32 (region (startdentry k + 64 * curfile k) 64)"
  shows "\<exists>v'. ld_bytes v' buf 32 = Some (padded_name d) \<and> changes (region buf 32) (kvm k) v' \<and>
    dir_read fd buf 32 d0 k =
      Some (if curfile k + 1 = numdentries k then (0, (set_vm v' k)\<lparr>curfile := 0\<rparr>)
            else (int (length (entry_name (dname d))), (set_vm v' k)\<lparr>curfile := curfile k + 1\<rparr>))"
proof -
  let ?a = "startdentry k + 64 * curfile k"
  have m: "mapped (kvm k) (region buf 32)" and u: "unat buf + 32 \<le> 2 ^ 32" and ap: "apart (kvm k) (region buf 32) (region ?a 64)"
    using assms(3) by (auto simp: dest_ok_def)
  obtain v1 where v1: "st_bytes (kvm k) buf (replicate 32 0) = Some v1"
    using st_bytes_mapped [of "kvm k" buf "replicate 32 0"] m by auto
  have c1: "changes (region buf 32) (kvm k) v1" using st_bytes_changes [OF v1] by simp
  have d1: "copy_dentry v1 ?a = Some d" using copy_dentry_changes [OF c1 ap] assms(1) by simp
  have len: "length (dname d) = 32" by (rule ld_bytes_length [OF copy_dentry_name [OF assms(1)]])
  have arr: "strncpy_arr (dentry_bytes d) 32 = Some (padded_name d)"
    using strncpy_arr_eq [of 32 "dentry_bytes d"] len by (simp add: dentry_bytes_def padded_name_def)
  obtain v2 where v2: "st_bytes v1 buf (padded_name d) = Some v2" "ld_bytes v2 buf 32 = Some (padded_name d)"
    using st_bytes_mapped [of v1 buf "padded_name d"] changes_mapped [OF c1] m padded_name_length [OF len] by auto
  have c2: "changes (region buf 32) (kvm k) v2"
    using c1 st_bytes_changes [OF v2(1)] padded_name_length [OF len] by (auto intro: changes_trans)
  have "\<not> 32 < name_len (dname d)" "name_len (dname d) = length (entry_name (dname d))"
    using length_takeWhile_le [of "\<lambda>b. b \<noteq> 0" "dname d"] len by (simp_all add: name_len_def entry_name_def)
  then have "dir_read fd buf 32 d0 k =
      Some (if curfile k + 1 = numdentries k then (0, (set_vm v2 k)\<lparr>curfile := 0\<rparr>)
            else (int (length (entry_name (dname d))), (set_vm v2 k)\<lparr>curfile := curfile k + 1\<rparr>))"
    using v1 v2(1) d1 arr assms(2) by (auto simp: dir_read_def read_dentry_by_index_def Let_def set_vm_def)
  with v2(2) c2 show ?thesis by blast
qed

text \<open>
  \<open>dir_read\<close> with 32 bytes delivers the directory one entry per call: the buffer then holds
  the name of the entry number \<open>curfile\<close>, padded with NUL bytes, the result is the length of the
  name and \<open>curfile\<close> is advanced.  The call that reads the last entry returns 0 instead of the
  length (and starts over), so a caller that stops at 0 does not see that entry.
\<close>

theorem dir_read_entry:
  assumes "copy_dentry (kvm k) (startdentry k + 64 * curfile k) = Some d" and "curfile k < 64"
    and "dest_ok (kvm k) buf 32 (region (startdentry k + 64 * curfile k) 64)"
  shows "\<exists>v'. ld_bytes v' buf 32 = Some (padded_name d) \<and> changes (region buf 32) (kvm k) v' \<and>
    dir_read fd buf 32 d0 k =
      Some (if curfile k + 1 = numdentries k then (0, (set_vm v' k)\<lparr>curfile := 0\<rparr>)
            else (int (length (entry_name (dname d))), (set_vm v' k)\<lparr>curfile := curfile k + 1\<rparr>))"
  by (rule dir_read_ok [OF assms])

theorem dir_read_entry_witness:
  "\<exists>v' d. ld_bytes v' 0x900000 32 = Some (padded_name d) \<and>
    dir_read 3 0x900000 32 zero_dentry (sample_fs_kernel\<lparr>curfile := 0\<rparr>) =
      Some (0, (set_vm v' (sample_fs_kernel\<lparr>curfile := 0\<rparr>))\<lparr>curfile := 0\<rparr>)"
proof -
  let ?k = "sample_fs_kernel\<lparr>curfile := 0\<rparr>"
  obtain d where d: "copy_dentry (kvm ?k) (startdentry ?k + 64 * curfile ?k) = Some d"
    using copy_dentry_flat by fastforce
  have "region 0x410040 64 \<inter> region (0x900000 :: addr) 32 = {}" by (rule region_disjoint) simp_all
  then have "dest_ok (kvm ?k) 0x900000 32 (region (startdentry ?k + 64 * curfile ?k) 64)"
    by (auto simp: dest_ok_def)
  from dir_read_entry [OF d _ this, of 3 zero_dentry] show ?thesis by fastforce
qed

end
