(* ===== verification/Pcb.thy ===== *)
theory Pcb
  imports Filesys
begin

text \<open>
  Process control blocks and file descriptors, \<open>student-distrib/pcb.c\<close>.

  \<open>getPID\<close> and \<open>get_fdAvail\<close> are two instances of one contract: they hand out the first free
  slot of a range, or -1 when there is none.  The locale \<open>slot_allocator\<close> states the contract
  and derives what its clients rely on; both routines are shown to keep it.
\<close>

lemma startdentry_upd_fd [simp]: "startdentry (upd_fd p i f k) = startdentry k"
  by (simp add: upd_fd_def upd_pcb_def)

section \<open>Definitions\<close>

definition pcb_filesys_init :: "addr \<Rightarrow> kernel \<Rightarrow> kernel option" where
  "pcb_filesys_init mod_start k = do {
     nd \<leftarrow> ld32 (kvm k) mod_start;
     ni \<leftarrow> ld32 (kvm k) (mod_start + 4 * 1);
     nb \<leftarrow> ld32 (kvm k) (mod_start + 4 * 2);
     Some (k\<lparr>start_addr := mod_start, numdentries := nd, numinodes := ni, numblocks := nb, startdentry := mod_start + 64\<rparr>)
   }"

fun init_fds :: "int \<Rightarrow> int \<Rightarrow> nat \<Rightarrow> kernel \<Rightarrow> kernel" where
  "init_fds j i 0 k = k"
| "init_fds j i (Suc n) k = init_fds j (i + 1) n (upd_fd j i (\<lambda>e. e\<lparr>present := -1\<rparr>) k)"

definition std_entry :: "fd_table_entry_t \<Rightarrow> fd_table_entry_t" where
  "std_entry e = e\<lparr>jump_start_idx := Some terminal_struct, file_pos := 0, inode_number := 0, fdFileType := 3\<rparr>"

fun init_pcbs :: "int \<Rightarrow> nat \<Rightarrow> kernel \<Rightarrow> kernel" where
  "init_pcbs j 0 k = k"
| "init_pcbs j (Suc n) k =
     (let k = init_fds j 0 8 k;
          k = upd_pcb j (\<lambda>p. p\<lparr>pcb_in_use := -1\<rparr>) k;
          k = upd_fd j 0 std_entry k;
          k = upd_fd j 1 std_entry k
      in init_pcbs (j + 1) n k)"

definition init_PCB :: "kernel \<Rightarrow> kernel" where
  "init_PCB k = init_pcbs 0 6 k"

fun getPID_from :: "int \<Rightarrow> nat \<Rightarrow> kernel \<Rightarrow> int \<times> kernel" where
  "getPID_from i 0 k = (-1, k)"
| "getPID_from i (Suc n) k =
     (if pcb_in_use (PCB_array k i) = -1 then (i, upd_pcb i (\<lambda>p. p\<lparr>pcb_in_use := 0\<rparr>) k)
      else getPID_from (i + 1) n k)"

definition getPID :: "kernel \<Rightarrow> int \<times> kernel" where
  "getPID k = getPID_from 0 6 k"

fun get_fdAvail_from :: "int \<Rightarrow> int \<Rightarrow> nat \<Rightarrow> kernel \<Rightarrow> int \<times> kernel" where
  "get_fdAvail_from process_id i 0 k = (-1, k)"
| "get_fdAvail_from process_id i (Suc n) k =
     (if present (fd_of k process_id i) = -1 then (i, upd_fd process_id i (\<lambda>e. e\<lparr>present := 0\<rparr>) k)
      else get_fdAvail_from process_id (i + 1) n k)"

definition get_fdAvail :: "int \<Rightarrow> kernel \<Rightarrow> int \<times> kernel" where
  "get_fdAvail process_id k = get_fdAvail_from process_id 2 6 k"

definition fop_of_type :: "int \<Rightarrow> fop option \<Rightarrow> fop option" where
  "fop_of_type ty old =
     (if ty = 0 then Some rtc_struct else if ty = 1 then Some dir_struct else if ty = 2 then Some file_struct else old)"

definition insert_fdt :: "reader \<Rightarrow> kernel \<Rightarrow> (int \<times> kernel) option" where
  "insert_fdt filename k = do {
     (i, k) \<leftarrow> file_open filename k;
     if i = -1 then Some (-1, k)
     else
       let pid = cur_process k;
           (fd, k) = get_fdAvail pid k
       in if fd = -1 then Some (-1, k)
       else do {
         (retval, d) \<leftarrow> read_dentry_by_name filename zero_dentry k;
         if retval = -1 then Some (-1, k)
         else
           let k = upd_fd pid fd (\<lambda>e. e\<lparr>fdFileType := sint (fileType d), inode_number := sint (inodeNum d)\<rparr>) k;
               k = upd_fd pid fd (\<lambda>e. e\<lparr>jump_start_idx := fop_of_type (fdFileType e) (jump_start_idx e)\<rparr>) k;
               k = upd_fd pid fd (\<lambda>e. e\<lparr>present := 0\<rparr>) k
           in Some (fd, k)
       }
   }"

definition remove_fd_entry :: "int \<Rightarrow> kernel \<Rightarrow> int \<times> kernel" where
  "remove_fd_entry fd k =
     (let pid = cur_process k in
      if present (fd_of k pid fd) = 0 then (0, upd_fd pid fd (\<lambda>e. e\<lparr>present := -1\<rparr>) k) else (-1, k))"

definition get_current_PCB :: "kernel \<Rightarrow> PCB_struct" where
  "get_current_PCB k = PCB_array k (cur_process k)"

section \<open>Allocators of slots\<close>

locale slot_allocator =
  fixes free :: "'s \<Rightarrow> int \<Rightarrow> bool" and alloc :: "'s \<Rightarrow> int \<times> 's" and lo hi :: int
  assumes lo_nonneg: "0 \<le> lo"
    and alloc_some: "alloc s = (i, s') \<Longrightarrow> i \<noteq> -1 \<Longrightarrow>
      lo \<le> i \<and> i < hi \<and> free s i \<and> \<not> free s' i \<and> (\<forall>j. j \<noteq> i \<longrightarrow> free s' j = free s j) \<and>
      (\<forall>j. lo \<le> j \<and> j < i \<longrightarrow> \<not> free s j)"
    and alloc_none: "alloc s = (-1, s') \<Longrightarrow> s' = s \<and> (\<forall>j. lo \<le> j \<and> j < hi \<longrightarrow> \<not> free s j)"
begin

definition free_slots :: "'s \<Rightarrow> int set" where
  "free_slots s = {i. lo \<le> i \<and> i < hi \<and> free s i}"

lemma finite_free_slots: "finite (free_slots s)"
  by (rule finite_subset [of _ "{lo..<hi}"]) (auto simp: free_slots_def)

lemma alloc_fails_iff: "fst (alloc s) = -1 \<longleftrightarrow> free_slots s = {}"
proof (cases "alloc s")
  case (Pair i s')
  then show ?thesis using alloc_some [OF Pair] alloc_none [of s s'] by (auto simp: free_slots_def)
qed

lemma alloc_takes:
  assumes "alloc s = (i, s')" and "i \<noteq> -1"
  shows "i \<in> free_slots s" and "free_slots s' = free_slots s - {i}" and "card (free_slots s) = Suc (card (free_slots s'))"
    and "i = Min (free_slots s)"
proof -
  note a = alloc_some [OF assms]
  show i: "i \<in> free_slots s" using a by (auto simp: free_slots_def)
  show r: "free_slots s' = free_slots s - {i}" using a by (auto simp: free_slots_def)
  show "card (free_slots s) = Suc (card (free_slots s'))"
    unfolding r by (rule card_Suc_Diff1 [OF finite_free_slots i, symmetric])
  show "i = Min (free_slots s)"
  proof (rule Min_eqI [symmetric, OF finite_free_slots _ i])
    fix j assume "j \<in> free_slots s"
    then show "i \<le> j" using a by (simp add: free_slots_def) (metis not_less)
  qed
qed

text \<open>As many calls as there are free slots succeed, with different results; the next one fails.\<close>

fun alloc_n :: "nat \<Rightarrow> 's \<Rightarrow> int list \<times> 's" where
  "alloc_n 0 s = ([], s)"
| "alloc_n (Suc n) s = (case alloc s of (i, s1) \<Rightarrow> (case alloc_n n s1 of (is, s2) \<Rightarrow> (i # is, s2)))"

lemma alloc_n_distinct:
  "n \<le> card (free_slots s) \<Longrightarrow> alloc_n n s = (is, s') \<Longrightarrow>
    distinct is \<and> set is \<subseteq> free_slots s \<and> free_slots s' = free_slots s - set is \<and> length is = n"
proof (induction n arbitrary: s "is")
  case 0
  then show ?case by simp
next
  case (Suc n)
  obtain i s1 where a: "alloc s = (i, s1)" by (cases "alloc s")
  obtain js where b: "alloc_n n s1 = (js, s')" "is = i # js"
    using Suc.prems(2) a by (auto split: prod.splits)
  have "free_slots s \<noteq> {}" using Suc.prems(1) by auto
  then have "i \<noteq> -1" using alloc_fails_iff [of s] a by simp
  note t = alloc_takes [OF a this]
  have "n \<le> card (free_slots s1)" using Suc.prems(1) t(3) by simp
  from Suc.IH [OF this b(1)] t(1,2) b(2) show ?case by auto
qed

end

text \<open>Both routines are the same scan of a range, which keeps the contract.\<close>

fun scan :: "('s \<Rightarrow> int \<Rightarrow> bool) \<Rightarrow> (int \<Rightarrow> 's \<Rightarrow> 's) \<Rightarrow> int \<Rightarrow> nat \<Rightarrow> 's \<Rightarrow> int \<times> 's" where
  "scan free grab i 0 s = (-1, s)"
| "scan free grab i (Suc n) s = (if free s i then (i, grab i s) else scan free grab (i + 1) n s)"

lemma scan_cases:
  "(\<exists>j. i \<le> j \<and> j < i + int n \<and> free s j \<and> (\<forall>l. i \<le> l \<and> l < j \<longrightarrow> \<not> free s l) \<and> scan free grab i n s = (j, grab j s)) \<or>
   (\<forall>l. i \<le> l \<and> l < i + int n \<longrightarrow> \<not> free s l) \<and> scan free grab i n s = (-1, s)"
proof (induction n arbitrary: i)
  case 0
  then show ?case by auto
next
  case (Suc n)
  show ?case
  proof (cases "free s i")
    case True
    then show ?thesis by force
  next
    case False
    have step: "scan free grab i (Suc n) s = scan free grab (i + 1) n s" using False by simp
    from Suc.IH [of "i + 1"] show ?thesis
    proof (elim disjE exE conjE)
      fix j assume "i + 1 \<le> j" "j < i + 1 + int n" "free s j" "\<forall>l. i + 1 \<le> l \<and> l < j \<longrightarrow> \<not> free s l"
        and "scan free grab (i + 1) n s = (j, grab j s)"
      moreover have "\<not> free s l" if "i \<le> l \<and> l < j" for l
        using that False \<open>\<forall>l. i + 1 \<le> l \<and> l < j \<longrightarrow> \<not> free s l\<close> by (cases "l = i") auto
      ultimately show ?thesis using step by (intro disjI1 exI [of _ j]) auto
    next
      assume no: "\<forall>l. i + 1 \<le> l \<and> l < i + 1 + int n \<longrightarrow> \<not> free s l" and "scan free grab (i + 1) n s = (-1, s)"
      moreover have "\<not> free s l" if "i \<le> l \<and> l < i + int (Suc n)" for l
        using that False no by (cases "l = i") auto
      ultimately show ?thesis using step by auto
    qed
  qed
qed

lemma scan_allocator:
  assumes "0 \<le> lo" and "\<And>s i. \<not> free (grab i s) i" and "\<And>s i j. j \<noteq> i \<Longrightarrow> free (grab i s) j = free s j"
  shows "slot_allocator free (scan free grab lo n) lo (lo + int n)"
proof
  fix s s' i
  show "0 \<le> lo" by (fact assms(1))
  show "lo \<le> i \<and> i < lo + int n \<and> free s i \<and> \<not> free s' i \<and> (\<forall>j. j \<noteq> i \<longrightarrow> free s' j = free s j) \<and>
      (\<forall>j. lo \<le> j \<and> j < i \<longrightarrow> \<not> free s j)" if "scan free grab lo n s = (i, s')" "i \<noteq> -1"
    using scan_cases [of lo n free s grab] that assms(2,3) by auto
  show "s' = s \<and> (\<forall>j. lo \<le> j \<and> j < lo + int n \<longrightarrow> \<not> free s j)" if "scan free grab lo n s = (-1, s')"
    using scan_cases [of lo n free s grab] that assms(1) by auto
qed

definition pid_free :: "kernel \<Rightarrow> int \<Rightarrow> bool" where
  "pid_free k i \<longleftrightarrow> pcb_in_use (PCB_array k i) = -1"

definition fd_free :: "int \<Rightarrow> kernel \<Rightarrow> int \<Rightarrow> bool" where
  "fd_free pid k i \<longleftrightarrow> present (fd_of k pid i) = -1"

lemma getPID_scan: "getPID = scan pid_free (\<lambda>i. upd_pcb i (\<lambda>p. p\<lparr>pcb_in_use := 0\<rparr>)) 0 6"
proof -
  have "getPID_from i n k = scan pid_free (\<lambda>i. upd_pcb i (\<lambda>p. p\<lparr>pcb_in_use := 0\<rparr>)) i n k" for i n k
    by (induction n arbitrary: i) (auto simp: pid_free_def)
  then show ?thesis by (auto simp: getPID_def)
qed

lemma get_fdAvail_scan: "get_fdAvail pid = scan (fd_free pid) (\<lambda>i. upd_fd pid i (\<lambda>e. e\<lparr>present := 0\<rparr>)) 2 6"
proof -
  have "get_fdAvail_from pid i n k = scan (fd_free pid) (\<lambda>i. upd_fd pid i (\<lambda>e. e\<lparr>present := 0\<rparr>)) i n k" for i n k
    by (induction n arbitrary: i) (auto simp: fd_free_def)
  then show ?thesis by (auto simp: get_fdAvail_def)
qed

interpretation pids: slot_allocator pid_free getPID 0 6
  using scan_allocator [of 0 pid_free "\<lambda>i. upd_pcb i (\<lambda>p. p\<lparr>pcb_in_use := 0\<rparr>)" 6]
  by (simp add: getPID_scan pid_free_def)

interpretation fds: slot_allocator "fd_free pid" "get_fdAvail pid" 2 8 for pid
  using scan_allocator [of 2 "fd_free pid" "\<lambda>i. upd_fd pid i (\<lambda>e. e\<lparr>present := 0\<rparr>)" 6]
  by (simp add: get_fdAvail_scan fd_free_def)

lemma getPID_result:
  assumes "getPID k = (i, k')" and "i \<noteq> -1"
  shows "0 \<le> i" "i < 6" "pid_free k i" "k' = upd_pcb i (\<lambda>p. p\<lparr>pcb_in_use := 0\<rparr>) k"
  using scan_cases [of 0 6 pid_free k "\<lambda>i. upd_pcb i (\<lambda>p. p\<lparr>pcb_in_use := 0\<rparr>)"] assms by (auto simp: getPID_scan)

lemma get_fdAvail_result:
  assumes "get_fdAvail pid k = (i, k')" and "i \<noteq> -1"
  shows "2 \<le> i" "i < 8" "fd_free pid k i" "k' = upd_fd pid i (\<lambda>e. e\<lparr>present := 0\<rparr>) k"
  using scan_cases [of 2 6 "fd_free pid" k "\<lambda>i. upd_fd pid i (\<lambda>e. e\<lparr>present := 0\<rparr>)"] assms by (auto simp: get_fdAvail_scan)

section \<open>The tables after start-up\<close>

lemma init_fds_fields:
  "fd_of (init_fds j i n k) j' l =
     (if j' = j \<and> i \<le> l \<and> l < i + int n then (fd_of k j' l)\<lparr>present := -1\<rparr> else fd_of k j' l)"
  "pcb_in_use (PCB_array (init_fds j i n k) j') = pcb_in_use (PCB_array k j')"
  by (induction n arbitrary: i k) auto

lemma init_pcbs_fields:
  "pcb_in_use (PCB_array (init_pcbs j n k) j') = (if j \<le> j' \<and> j' < j + int n then -1 else pcb_in_use (PCB_array k j'))"
  "present (fd_of (init_pcbs j n k) j' l) =
     (if j \<le> j' \<and> j' < j + int n \<and> 0 \<le> l \<and> l < 8 then -1 else present (fd_of k j' l))"
  by (induction n arbitrary: j k) (auto simp: Let_def init_fds_fields std_entry_def)

lemma init_PCB_only: "(init_PCB k)\<lparr>PCB_array := x\<rparr> = k\<lparr>PCB_array := x\<rparr>"
proof -
  have f: "(init_fds j i n k)\<lparr>PCB_array := x\<rparr> = k\<lparr>PCB_array := x\<rparr>" for j i n k
    by (induction n arbitrary: i k) (simp_all add: upd_fd_def upd_pcb_def)
  have "(init_pcbs j n k)\<lparr>PCB_array := x\<rparr> = k\<lparr>PCB_array := x\<rparr>" for j n k
  proof (induction n arbitrary: j k)
    case (Suc n)
    then show ?case using f by (simp add: Let_def) (simp add: upd_fd_def upd_pcb_def)
  qed simp
  then show ?thesis by (simp add: init_PCB_def)
qed

lemma init_PCB_frame: "init_PCB k = k\<lparr>PCB_array := PCB_array (init_PCB k)\<rparr>"
  using init_PCB_only [of "PCB_array (init_PCB k)" k] by simp

lemma init_PCB_keeps [simp]:
  "mach (init_PCB k) = mach k" "startdentry (init_PCB k) = startdentry k" "terminals (init_PCB k) = terminals k"
  "cur_terminal (init_PCB k) = cur_terminal k" "visible (init_PCB k) = visible k" "start_addr (init_PCB k) = start_addr k"
  "numdentries (init_PCB k) = numdentries k" "numinodes (init_PCB k) = numinodes k" "curfile (init_PCB k) = curfile k"
  "elf_buf (init_PCB k) = elf_buf k" "shell_name (init_PCB k) = shell_name k" "pitCount (init_PCB k) = pitCount k"
  "num_chars (init_PCB k) = num_chars k" "curr_idx (init_PCB k) = curr_idx k" "save_x (init_PCB k) = save_x k" "save_y (init_PCB k) = save_y k"
  "previous_num_chars (init_PCB k) = previous_num_chars k" "previous_buf (init_PCB k) = previous_buf k"
  "buf_kb (init_PCB k) = buf_kb k" "flag_arr (init_PCB k) = flag_arr k"
  by (subst init_PCB_frame, simp)+

lemma init_PCB_free:
  "0 \<le> i \<Longrightarrow> i < 6 \<Longrightarrow> pid_free (init_PCB k) i"
  "0 \<le> pid \<Longrightarrow> pid < 6 \<Longrightarrow> 2 \<le> i \<Longrightarrow> i < 8 \<Longrightarrow> fd_free pid (init_PCB k) i"
  by (simp_all add: init_PCB_def pid_free_def fd_free_def init_pcbs_fields)

section \<open>Opening a file\<close>

lemma file_open_eq:
  assumes "directory (kvm k) (startdentry k) = Some ds" and "reads fname cs"
  shows "file_open fname k = Some (case find (\<lambda>d. entry_name (dname d) = take 32 cs) ds of
      Some d \<Rightarrow> (0, k\<lparr>currDentry := d\<rparr>) | None \<Rightarrow> (-1, k))"
  using read_dentry_by_name_eq [OF assms, of "currDentry k"] by (auto simp: file_open_def split: option.splits)

definition opened :: "dentry_t \<Rightarrow> fd_table_entry_t \<Rightarrow> fd_table_entry_t" where
  "opened d e = e\<lparr>fdFileType := sint (fileType d), inode_number := sint (inodeNum d),
     jump_start_idx := fop_of_type (sint (fileType d)) (jump_start_idx e), present := 0\<rparr>"

lemma upd_fd_upd_fd: "upd_fd p i f (upd_fd p i g k) = upd_fd p i (f \<circ> g) k"
  by (simp add: upd_fd_def upd_pcb_def fun_upd_def cong: if_cong)


lemma insert_fdt_found:
  assumes dir: "directory (kvm k) (startdentry k) = Some ds" and r: "reads fname cs"
    and d: "find (\<lambda>d. entry_name (dname d) = take 32 cs) ds = Some d" and a: "get_fdAvail (cur_process k) k = (fd, k1)" "fd \<noteq> -1"
  shows "insert_fdt fname k = Some (fd, upd_fd (cur_process k) fd (opened d) (k\<lparr>currDentry := d\<rparr>))"
proof -
  let ?k = "k\<lparr>currDentry := d\<rparr>" and ?p = "cur_process k"
  have eq: "scan (fd_free ?p) g i n ?k = (case scan (fd_free ?p) g' i n k of (j, _) \<Rightarrow> (j, if j = -1 then ?k else g j ?k))"
    if "0 \<le> i" for g g' i n
    using that by (induction n arbitrary: i) (auto simp: fd_free_def split: prod.splits if_splits)
  have g: "get_fdAvail ?p ?k = (fd, upd_fd ?p fd (\<lambda>e. e\<lparr>present := 0\<rparr>) ?k)"
    using a eq [of 2 "\<lambda>i. upd_fd ?p i (\<lambda>e. e\<lparr>present := 0\<rparr>)" 6 "\<lambda>i. upd_fd ?p i (\<lambda>e. e\<lparr>present := 0\<rparr>)"]
    by (simp add: get_fdAvail_scan)
  have o: "file_open fname k = Some (0, ?k)" using file_open_eq [OF dir r] d by simp
  let ?k2 = "upd_fd ?p fd (\<lambda>e. e\<lparr>present := 0\<rparr>) ?k"
  have "directory (kvm ?k2) (startdentry ?k2) = Some ds" using dir by simp
  from read_dentry_by_name_eq [OF this r] d have n: "read_dentry_by_name fname zero_dentry ?k2 = Some (0, d)" by simp
  show ?thesis
    using a(2) by (simp add: insert_fdt_def o g n Let_def upd_fd_upd_fd comp_def)
      (simp add: opened_def [abs_def])
qed

lemma get_fdAvail_full: "(\<forall>i. 2 \<le> i \<and> i < 8 \<longrightarrow> \<not> fd_free pid k i) \<Longrightarrow> get_fdAvail pid k = (-1, k)"
  using scan_cases [of 2 6 "fd_free pid" k "\<lambda>i. upd_fd pid i (\<lambda>e. e\<lparr>present := 0\<rparr>)"] by (auto simp: get_fdAvail_scan)

lemma insert_fdt_full:
  assumes dir: "directory (kvm k) (startdentry k) = Some ds" and r: "reads fname cs"
    and d: "find (\<lambda>d. entry_name (dname d) = take 32 cs) ds = Some d" and "\<forall>i. 2 \<le> i \<and> i < 8 \<longrightarrow> \<not> fd_free (cur_process k) k i"
  shows "insert_fdt fname k = Some (-1, k\<lparr>currDentry := d\<rparr>)"
proof -
  have "get_fdAvail (cur_process k) (k\<lparr>currDentry := d\<rparr>) = (-1, k\<lparr>currDentry := d\<rparr>)"
    by (rule get_fdAvail_full) (use assms(4) in \<open>simp add: fd_free_def\<close>)
  then show ?thesis using file_open_eq [OF dir r] d by (simp add: insert_fdt_def Let_def)
qed

section \<open>Properties\<close>

text \<open>
  C30: process ids.  After \<open>init_PCB\<close>, six calls of \<open>getPID\<close> return six different ids, and they
  are the ids 0 to 5; whenever \<open>getPID\<close> returns an id, it is the smallest one whose control
  block was free, that block is in use afterwards and no other block changes; it returns -1
  exactly when all six are in use.
\<close>

theorem getPID_allocates:
  assumes "getPID k = (i, k')"
  shows "distinct (fst (pids.alloc_n 6 (init_PCB k0))) \<and> set (fst (pids.alloc_n 6 (init_PCB k0))) = {0..<6} \<and>
    (i = -1 \<longleftrightarrow> (\<forall>j. 0 \<le> j \<and> j < 6 \<longrightarrow> \<not> pid_free k j)) \<and>
    (i \<noteq> -1 \<longrightarrow> 0 \<le> i \<and> i < 6 \<and> pid_free k i \<and> (\<forall>j. 0 \<le> j \<and> j < i \<longrightarrow> \<not> pid_free k j) \<and>
       k' = upd_pcb i (\<lambda>p. p\<lparr>pcb_in_use := 0\<rparr>) k)"
proof -
  obtain xs s where a: "pids.alloc_n 6 (init_PCB k0) = (xs, s)" by (cases "pids.alloc_n 6 (init_PCB k0)")
  have f: "pids.free_slots (init_PCB k0) = {0..<6}"
    by (auto simp: pids.free_slots_def init_PCB_free)
  have n: "6 \<le> card (pids.free_slots (init_PCB k0))" by (simp add: f)
  note d = pids.alloc_n_distinct [OF n a]
  have "set xs = {0..<6}"
    by (rule card_subset_eq) (use d f distinct_card [of xs] in auto)
  moreover have "i = -1 \<longleftrightarrow> (\<forall>j. 0 \<le> j \<and> j < 6 \<longrightarrow> \<not> pid_free k j)"
    using pids.alloc_fails_iff [of k] assms by (auto simp: pids.free_slots_def)
  moreover have "0 \<le> i \<and> i < 6 \<and> pid_free k i \<and> (\<forall>j. 0 \<le> j \<and> j < i \<longrightarrow> \<not> pid_free k j) \<and>
       k' = upd_pcb i (\<lambda>p. p\<lparr>pcb_in_use := 0\<rparr>) k" if "i \<noteq> -1"
    using pids.alloc_some [OF assms that] getPID_result [OF assms that] by simp
  ultimately show ?thesis using a d by simp
qed

theorem getPID_allocates_witness:
  "\<exists>k'. getPID (init_PCB sample_fs_kernel) = (0, k') \<and> \<not> pid_free k' 0"
proof -
  obtain i k' where g: "getPID (init_PCB sample_fs_kernel) = (i, k')" by (cases "getPID (init_PCB sample_fs_kernel)")
  note p = getPID_allocates [OF g, of sample_fs_kernel]
  have f: "pid_free (init_PCB sample_fs_kernel) 0" by (simp add: init_PCB_free)
  then have "i \<noteq> -1" using p by force
  with p f have "i = 0" by (metis dual_order.order_iff_strict order.refl)
  with p g \<open>i \<noteq> -1\<close> show ?thesis by (auto simp: pid_free_def)
qed


lemma sample_directory:
  "\<exists>ds d. directory (flat_vmem sample_fs) 0x410040 = Some ds \<and> find (\<lambda>d. entry_name (dname d) = take 32 [0x61]) ds = Some d"
proof -
  obtain ds where ds: "directory (flat_vmem sample_fs) 0x410040 = Some ds" using directory_flat by blast
  have l: "length ds = 64" using length_those ds by (fastforce simp: directory_def)
  have "copy_dentry (flat_vmem sample_fs) 0x410040 = Some (ds ! 0)"
    using those_nth [OF ds [unfolded directory_def], of 0] by simp
  then have "dname (ds ! 0) = map (\<lambda>i. sample_fs (0x410040 + word_of_nat i)) [0..<32]"
    using copy_dentry_name by (fastforce simp: ld_bytes_flat)
  also have "[0..<32] = 0 # 1 # [2..<32]" by (simp add: upt_conv_Cons)
  finally have "entry_name (dname (ds ! 0)) = [0x61]"
    by (simp add: entry_name_def sample_fs_def)
  then have "find (\<lambda>d. entry_name (dname d) = take 32 [0x61]) ds \<noteq> None"
    using l by (auto simp: find_None_iff intro!: bexI [of _ "ds ! 0"] exI [of _ "ds ! 0"] nth_mem)
  with ds show ?thesis by blast
qed


end
