(* ===== verification/Terminal.thy ===== *)
theory Terminal
  imports Pcb
begin

text \<open>
  The terminal driver, \<open>student-distrib/terminal.c\<close>.

  \<open>terminal_read\<close> first spins until a line has been entered in the visible terminal and that
  terminal is the scheduled one.  What happens while it spins comes from interrupts: they are a
  list of events with a function that handles one event, and \<open>None\<close> says that the loop is still
  spinning when the list ends (or that an access was out of bounds).  The rest of the routine is
  \<open>read_line\<close>.
\<close>

section \<open>Definitions\<close>

definition terminal_ready :: "kernel \<Rightarrow> bool" where
  "terminal_ready k \<longleftrightarrow> \<not> (enter_flag (terminals k (vt k)) \<noteq> 0 \<or> cur_terminal k \<noteq> visible k)"

fun terminal_spin :: "('e \<Rightarrow> kernel \<Rightarrow> kernel option) \<Rightarrow> 'e list \<Rightarrow> kernel \<Rightarrow> ('e list \<times> kernel) option" where
  "terminal_spin irq es k =
     (if terminal_ready k then Some (es, k)
      else (case es of [] \<Rightarrow> None | e # es \<Rightarrow> do { k \<leftarrow> irq e k; terminal_spin irq es k }))"

declare terminal_spin.simps [simp del]

fun skip_spaces :: "u8 list \<Rightarrow> nat \<Rightarrow> nat option" where
  "skip_spaces [] i = None"
| "skip_spaces (c # cs) i = (if c = 0x20 then skip_spaces cs (i + 1) else Some i)"

fun args_loop :: "u8 list \<Rightarrow> int \<Rightarrow> nat \<Rightarrow> int \<Rightarrow> nat \<Rightarrow> u8 list \<Rightarrow> (nat \<times> int \<times> u8 list) option" where
  "args_loop [] spacecount offset_arg mx count store = None"
| "args_loop (c # cs) spacecount offset_arg mx count store =
     (if c = 10 then Some (count, mx, store)
      else
        let (store, offset_arg) =
              (if spacecount > -1 then (store[offset_arg := c], offset_arg + 1) else (store, offset_arg));
            (spacecount, offset_arg, mx) =
              (if c = 0x20 \<and> spacecount = -1 then (spacecount + 1, 0, int count) else (spacecount, offset_arg, mx))
        in args_loop cs spacecount offset_arg mx (count + 1) store)"

definition clip_len :: "int \<Rightarrow> int \<Rightarrow> int \<Rightarrow> int" where
  "clip_len mx count nbytes =
     (let mx = (if mx < count then mx else count) in if mx < nbytes then mx else nbytes)"

definition read_line :: "addr \<Rightarrow> int \<Rightarrow> kernel \<Rightarrow> (int \<times> kernel) option" where
  "read_line buf nbytes k = do {
     i \<leftarrow> skip_spaces (buf_kb k) 0;
     let k = k\<lparr>buf_kb := lcopy (buf_kb k) (drop i (buf_kb k)) (128 - i)\<rparr>;
     let k = k\<lparr>storeargs := replicate 1024 0\<rparr>;
     let mx = (if 128 < nbytes then 128 else nbytes);
     (count, mx, store) \<leftarrow> args_loop (buf_kb k) (-1) 0 mx 0 (storeargs k);
     let k = k\<lparr>storeargs := store\<rparr>;
     let mx = clip_len mx (int count + 1) nbytes;
     k \<leftarrow> copy_out buf (buf_kb k) (unat (word_of_int mx :: u32)) k;
     let k = upd_term (vt k) (\<lambda>t. t\<lparr>enter_flag := 1\<rparr>) k;
     let k = k\<lparr>buf_kb := replicate 128 0\<rparr>;
     Some (mx, k)
   }"

definition terminal_read ::
  "('e \<Rightarrow> kernel \<Rightarrow> kernel option) \<Rightarrow> 'e list \<Rightarrow> int \<Rightarrow> addr \<Rightarrow> int \<Rightarrow> kernel \<Rightarrow> (int \<times> 'e list \<times> kernel) option" where
  "terminal_read irq es fd buf nbytes k = do {
     (es, k) \<leftarrow> terminal_spin irq es k;
     (n, k) \<leftarrow> read_line buf nbytes k;
     Some (n, es, k)
   }"

fun write_loop :: "addr \<Rightarrow> nat \<Rightarrow> machine \<Rightarrow> machine option" where
  "write_loop buf 0 m = Some m"
| "write_loop buf (Suc n) m = do {
     c \<leftarrow> ld8 (vm m) buf;
     m \<leftarrow> putc c m;
     write_loop (buf + 1) n m
   }"

definition terminal_write :: "int \<Rightarrow> addr \<Rightarrow> int \<Rightarrow> kernel \<Rightarrow> (int \<times> kernel) option" where
  "terminal_write fd buf nbytes k = do {
     k \<leftarrow> on_mach (write_loop buf (nat nbytes)) k;
     Some (int (nat nbytes), k)
   }"

definition terminal_open :: "reader \<Rightarrow> kernel \<Rightarrow> (int \<times> kernel) option" where
  "terminal_open filename k = Some (0, k)"

definition terminal_close :: "int \<Rightarrow> kernel \<Rightarrow> (int \<times> kernel) option" where
  "terminal_close fd k = Some (0, k)"

text \<open>\<open>terminal_getargs\<close> fills a kernel array, here the \<open>args\<close> of a control block.\<close>

definition terminal_getargs :: "u8 list \<Rightarrow> nat \<Rightarrow> kernel \<Rightarrow> u8 list option" where
  "terminal_getargs dest nbytes k =
     (if nbytes \<le> length dest \<and> nbytes \<le> length (storeargs k) \<and> 0 < nbytes
      then Some ((lcopy dest (storeargs k) nbytes)[nbytes - 1 := 10]) else None)"

section \<open>Reading a line\<close>

lemma skip_spaces_eq: "c \<noteq> 0x20 \<Longrightarrow> skip_spaces (replicate s 0x20 @ c # cs) i = Some (i + s)"
  by (induction s arbitrary: i) auto

lemma args_loop_args:
  assumes "10 \<notin> set as" and "length pre + length as \<le> length store"
  shows "args_loop (as @ 10 # rest) 0 (length pre) mx count (lcopy store pre (length pre)) =
    Some (count + length as, mx, lcopy store (pre @ as) (length pre + length as))"
  using assms
proof (induction as arbitrary: pre count)
  case Nil
  then show ?case by simp
next
  case (Cons a as)
  have "(lcopy store pre (length pre))[length pre := a] = lcopy store (pre @ [a]) (length (pre @ [a]))"
    using Cons.prems(2) by (simp add: lcopy_def list_update_append Cons_nth_drop_Suc [symmetric])
  then show ?case using Cons.IH [of "pre @ [a]" "count + 1"] Cons.prems by (simp add: Let_def)
qed

lemma args_loop_cmd:
  assumes "10 \<notin> set cmd" and "0x20 \<notin> set cmd"
  shows "args_loop (cmd @ cs) (-1) off mx count store = args_loop cs (-1) off mx (count + length cmd) store"
  using assms by (induction cmd arbitrary: count) (auto simp: Let_def)

text \<open>
  What a line means: the command is the part before the first space, the arguments are what
  follows that space.
\<close>

definition line_cmd :: "u8 list \<Rightarrow> u8 list" where
  "line_cmd line = takeWhile (\<lambda>c. c \<noteq> 0x20) line"

definition line_args :: "u8 list \<Rightarrow> u8 list" where
  "line_args line = drop (Suc (length (line_cmd line))) line"

definition line_result :: "u8 list \<Rightarrow> u8 list" where
  "line_result line = (if 0x20 \<in> set line then line_cmd line else line @ [10])"

lemma args_loop_line:
  assumes "10 \<notin> set line" and "length line \<le> 1024"
  shows "args_loop (line @ 10 # rest) (-1) 0 mx 0 (replicate 1024 0) =
    Some (length line, if 0x20 \<in> set line then int (length (line_cmd line)) else mx,
      line_args line @ replicate (1024 - length (line_args line)) 0)"
proof (cases "0x20 \<in> set line")
  case True
  then obtain cmd as where l: "line = cmd @ 0x20 # as" and n: "0x20 \<notin> set cmd"
    using split_list_first by metis
  have c: "line_cmd line = cmd" "line_args line = as"
    using n by (auto simp: l line_cmd_def line_args_def takeWhile_append)
  have "10 \<notin> set cmd" "10 \<notin> set as" "length as \<le> 1024" using assms l by auto
  then show ?thesis
    using args_loop_cmd [of cmd "0x20 # as @ 10 # rest"] args_loop_args [of as "[]" "replicate 1024 0" rest] n
    by (simp add: c) (simp add: l lcopy_def Let_def)
next
  case False
  then have "line_cmd line = line" by (auto simp: line_cmd_def takeWhile_eq_all_conv)
  then have "line_args line = []" by (simp add: line_args_def)
  then show ?thesis using False args_loop_cmd [OF assms(1) False, of "10 # rest"] by simp
qed

lemma line_result_prefix: "\<exists>r. line @ 10 # rest = line_result line @ r"
proof (cases "0x20 \<in> set line")
  case True
  have "line = line_cmd line @ dropWhile (\<lambda>c. c \<noteq> 0x20) line" by (simp add: line_cmd_def)
  with True show ?thesis by (metis append.assoc line_result_def)
qed (simp add: line_result_def)

definition args_array :: "u8 list \<Rightarrow> u8 list" where
  "args_array line = line_args line @ replicate (1024 - length (line_args line)) 0"

lemma read_line_eq:
  assumes b: "buf_kb k = replicate s 0x20 @ line @ 10 # rest" and len: "length (buf_kb k) = 128" and nl: "10 \<notin> set line"
    and ns: "line = [] \<or> hd line \<noteq> 0x20" and nb: "0 \<le> nbytes" and n: "n = min (length (line_result line)) (nat nbytes)"
    and m: "mapped (kvm k) (region buf n)"
  shows "\<exists>v'. read_line buf nbytes k = Some (int n,
      (upd_term (vt k) (\<lambda>t. t\<lparr>enter_flag := 1\<rparr>) (set_vm v' (k\<lparr>storeargs := args_array line\<rparr>)))\<lparr>buf_kb := replicate 128 0\<rparr>) \<and>
    ld_bytes v' buf n = Some (take n (line_result line)) \<and> changes (region buf n) (kvm k) v'"
proof -
  obtain c cs where ccs: "line @ 10 # rest = c # cs" "c \<noteq> 0x20" using ns by (cases line) auto
  have skip: "skip_spaces (buf_kb k) 0 = Some s" using skip_spaces_eq [OF ccs(2), of s cs 0] by (simp add: b ccs(1))
  let ?b = "lcopy (buf_kb k) (drop s (buf_kb k)) (128 - s)"
  have sl: "s + length line < 128" using len b by simp
  obtain tl where bb: "?b = line @ 10 # rest @ tl" using len b by (simp add: lcopy_def)
  have lr: "length (line_result line) \<le> Suc (length line)" "length (line_cmd line) \<le> length line"
    using length_takeWhile_le [of "\<lambda>c. c \<noteq> 0x20" line] by (auto simp: line_result_def line_cmd_def)
  have al: "args_loop ?b (-1) 0 mx 0 (replicate 1024 0) =
      Some (length line, if 0x20 \<in> set line then int (length (line_cmd line)) else mx, args_array line)" for mx
    using args_loop_line [OF nl, of "rest @ tl" mx] sl by (simp add: bb args_array_def)
  obtain r where "line @ 10 # rest @ tl = line_result line @ r" using line_result_prefix by metis
  then have tk: "take n ?b = take n (line_result line)" using n bb by simp
  have nl128: "n \<le> 128" "int n < 2 ^ 32" "length ?b = 128" using n lr sl len by (auto simp: lcopy_def)
  have un: "unat (word_of_int (int n) :: u32) = n" using nl128 by (simp add: unat_word_of_nat_u32)
  obtain v' where v': "st_bytes (kvm k) buf (take n ?b) = Some v'" "ld_bytes v' buf n = Some (take n ?b)"
    using st_bytes_mapped [of "kvm k" buf "take n ?b"] m nl128 by auto
  have mx: "clip_len (if 0x20 \<in> set line then int (length (line_cmd line)) else if 128 < nbytes then 128 else nbytes)
      (int (length line) + 1) nbytes = int n"
    using n nb lr sl by (auto simp: line_result_def clip_len_def Let_def min_def)
  have ch: "changes (region buf n) (kvm k) v'" using st_bytes_changes [OF v'(1)] nl128 by simp
  show ?thesis
    using v' ch tk skip al nl128 un mx
    by (intro exI [of _ v']) (simp add: read_line_def Let_def copy_out_def on_vm_def set_vm_def upd_term_def)
qed

section \<open>Writing\<close>

lemma write_loop_displays:
  assumes "ld_bytes (vm m) buf n = Some bs" and "displays m con" and "apart (vm m) screen_region (region buf n)"
  shows "\<exists>m'. write_loop buf n m = Some m' \<and> displays m' (fold con_putc bs con) \<and> console_frame m m'"
  using assms
proof (induction n arbitrary: buf bs m con)
  case 0
  then show ?case by simp
next
  case (Suc n)
  then obtain b bs' where b: "ld8 (vm m) buf = Some b" "ld_bytes (vm m) (buf + 1) n = Some bs'" "bs = b # bs'"
    by (auto split: Option.bind_splits)
  obtain m1 where m1: "putc b m = Some m1" "displays m1 (con_putc b con)" "console_frame m m1"
    using putc_keeps [OF Suc.prems(2)] by (auto simp: keeps_console_def)
  have ch: "changes screen_region (vm m) (vm m1)" using m1(3) by (simp add: console_frame_def)
  have ap: "apart (vm m) screen_region (region (buf + 1) n)"
    by (rule apart_subset [OF Suc.prems(3)]) (auto simp: region_Suc)
  have "ld_bytes (vm m1) (buf + 1) n = Some bs'" using ld_bytes_changes [OF ch ap] b by simp
  moreover have "apart (vm m1) screen_region (region (buf + 1) n)"
    using ap apart_same_map [OF changes_same_map [OF ch]] by simp
  ultimately obtain m2 where "write_loop (buf + 1) n m1 = Some m2" "displays m2 (fold con_putc bs' (con_putc b con))"
    "console_frame m1 m2" using Suc.IH [OF _ m1(2)] by blast
  with m1 b show ?case by (auto intro: console_frame_trans)
qed

section \<open>Properties\<close>

text \<open>
  reading a line.  With a line in the keyboard buffer, possibly behind leading spaces, and
  ended by a newline, \<open>terminal_read\<close> of a ready terminal delivers the command word, or the
  whole line with its newline when it has no space, cut to \<open>nbytes\<close>; it returns the number of
  bytes delivered, keeps the part behind the first space as the argument string, clears the
  buffer and waits for the next line.
\<close>

theorem terminal_read_delivers:
  assumes "terminal_ready k" and "buf_kb k = replicate s 0x20 @ line @ 10 # rest" and "length (buf_kb k) = 128"
    and "10 \<notin> set line" and "line = [] \<or> hd line \<noteq> 0x20" and "0 \<le> nbytes"
    and "n = min (length (line_result line)) (nat nbytes)" and "mapped (kvm k) (region buf n)"
  shows "\<exists>k'. terminal_read irq es fd buf nbytes k = Some (int n, es, k') \<and>
    ld_bytes (kvm k') buf n = Some (take n (line_result line)) \<and> changes (region buf n) (kvm k) (kvm k') \<and>
    storeargs k' = args_array line \<and> buf_kb k' = replicate 128 0 \<and> \<not> terminal_ready k'"
proof -
  have spin: "terminal_spin irq es k = Some (es, k)" using assms(1) by (simp add: terminal_spin.simps)
  from read_line_eq [OF assms(2-8)] obtain v' where
    "read_line buf nbytes k = Some (int n,
      (upd_term (vt k) (\<lambda>t. t\<lparr>enter_flag := 1\<rparr>) (set_vm v' (k\<lparr>storeargs := args_array line\<rparr>)))\<lparr>buf_kb := replicate 128 0\<rparr>)"
    "ld_bytes v' buf n = Some (take n (line_result line))" "changes (region buf n) (kvm k) v'" by blast
  with spin show ?thesis
    by (simp add: terminal_read_def) (simp add: terminal_ready_def upd_term_def set_vm_def)
qed

definition sample_line_kernel :: kernel where
  "sample_line_kernel = sample_fs_kernel\<lparr>buf_kb := [0x20, 108, 115, 0x20, 97, 10] @ replicate 122 0\<rparr>"

theorem terminal_read_delivers_witness:
  "\<exists>k'. terminal_read (\<lambda>e :: unit. Some) [] 0 0x900000 100 sample_line_kernel = Some (2, [], k') \<and>
    ld_bytes (kvm k') 0x900000 2 = Some [108, 115] \<and> storeargs k' = [97] @ replicate 1023 0"
proof -
  let ?k = sample_line_kernel
  have r: "terminal_ready ?k"
    by (simp add: terminal_ready_def sample_line_kernel_def sample_fs_kernel_def zero_terminal_def)
  have b: "buf_kb ?k = replicate 1 0x20 @ [108, 115, 0x20, 97] @ 10 # replicate 122 0"
    by (simp add: sample_line_kernel_def)
  have l: "length (buf_kb ?k) = 128" by (simp add: sample_line_kernel_def)
  have m: "mapped (kvm ?k) (region 0x900000 2)" by (simp add: sample_line_kernel_def)
  have c: "line_cmd [108, 115, 0x20, 97] = [108, 115]" "line_args [108, 115, 0x20, 97] = [97]"
    by (simp_all add: line_cmd_def line_args_def)
  have res: "line_result [108, 115, 0x20, 97] = [108, 115]" by (simp add: line_result_def c)
  have p: "10 \<notin> set [108 :: u8, 115, 0x20, 97]" "[108 :: u8, 115, 0x20, 97] = [] \<or> hd [108 :: u8, 115, 0x20, 97] \<noteq> 0x20"
    "0 \<le> (100 :: int)" "2 = min (length (line_result [108, 115, 0x20, 97])) (nat 100)"
    by (simp_all add: res)
  from terminal_read_delivers [OF r b l p m, of "\<lambda>e :: unit. Some" "[]" 0] show ?thesis
    by (auto simp: res args_array_def c)
qed

text \<open>
  \<open>terminal_write\<close> prints the \<open>nbytes\<close> bytes of the buffer in order, whatever they are
  (it does not stop at a NUL), returns their number, and touches only the screen.
\<close>

theorem terminal_write_prints:
  assumes "ld_bytes (kvm k) buf (nat nbytes) = Some bs" and "displays (mach k) con"
    and "apart (kvm k) screen_region (region buf (nat nbytes))" and "0 \<le> nbytes"
  shows "\<exists>m'. terminal_write fd buf nbytes k = Some (nbytes, k\<lparr>mach := m'\<rparr>) \<and> displays m' (fold con_putc bs con) \<and>
    console_frame (mach k) m'"
  using write_loop_displays [OF assms(1-3)] assms(4) by (auto simp: terminal_write_def on_mach_def)

theorem terminal_write_prints_witness:
  "\<exists>m' con. terminal_write 1 0x412000 5 sample_fs_kernel = Some (5, sample_fs_kernel\<lparr>mach := m'\<rparr>) \<and>
    displays m' (fold con_putc [104, 101, 108, 108, 111] con)"
proof -
  obtain cells where d: "displays (mach sample_fs_kernel) (cells, 0)"
    using flat_displays by (auto simp: sample_fs_kernel_def)
  have l: "ld_bytes (kvm sample_fs_kernel) 0x412000 (nat 5) = Some [104, 101, 108, 108, 111]"
    by (simp add: eval_nat_numeral) (simp add: sample_fs_def)
  have "region VIDEO 4000 \<inter> region (0x412000 :: addr) (nat 5) = {}" by (rule region_disjoint) (simp_all add: VIDEO_def)
  then have "apart (kvm sample_fs_kernel) screen_region (region 0x412000 (nat 5))" by simp
  from terminal_write_prints [OF l d this, of 1] show ?thesis by simp blast
qed

end
