(* ===== verification/Schedule.thy ===== *)
theory Schedule
  imports Terminal
begin

text \<open>
  Terminals and timer, \<open>student-distrib/schedule.c\<close>: the speaker, the set-up of the interval
  timer, the set-up of the three terminals and the switch of the visible terminal.  The timer
  interrupt itself, which starts processes, is in the theory of the scheduler.

  The lemmas on \<open>switch_terminal\<close> work with four pages: the video page and the backing pages of
  the three terminals, which the layout of the address space keeps apart.
\<close>

section \<open>Definitions\<close>

definition beep :: "device \<Rightarrow> int \<Rightarrow> machine \<Rightarrow> machine option" where
  "beep dev frequency m =
     (if frequency = 0 then None
      else
        let divisor = word_of_int (1193180 sdiv frequency) :: u32;
            m = outb 0xB6 0x43 m;
            m = outb (ucast divisor) 0x42 m;
            m = outb (ucast (drop_bit 8 divisor)) 0x42 m;
            (a, m) = inb dev 0x61 m;
            tempA = ucast a :: u8;
            m = (if tempA \<noteq> (tempA OR 3) then outb (tempA OR 3) 0x61 m else m)
        in Some (enable_irq 0 m))"

definition init_PIT :: "u32 \<Rightarrow> kernel \<Rightarrow> kernel option" where
  "init_PIT frequency k =
     (if frequency = 0 then None
      else
        let divisor = 1193180 div frequency;
            k = upd_mach (outb 0x36 0x43) k;
            low = ucast (divisor AND 0xFF) :: u8;
            high = ucast (drop_bit 8 divisor AND 0xFF) :: u8;
            k = upd_mach (outb low 0x40) k;
            k = upd_mach (outb high 0x40) k;
            k = k\<lparr>pitCount := 0\<rparr>;
            k = k\<lparr>pitIntrCount := 0\<rparr>
        in Some (upd_mach (enable_irq 0) k))"

definition init_terminal :: "nat \<Rightarrow> kernel \<Rightarrow> kernel option" where
  "init_terminal i k = do {
     let k = upd_term i (\<lambda>t. t\<lparr>shell_pid := int i\<rparr>) k;
     k \<leftarrow> on_vm (\<lambda>v. memset v (video_buffer (terminals k i)) 0 4096) k;
     let k = upd_term i (\<lambda>t. t\<lparr>t_buf_kb := replicate 128 0, t_screen_x := 0, t_screen_y := 0, t_curr_idx := 0,
                t_num_chars := 0, t_save_x := 0, t_save_y := 0, t_prev_num_chars := 0, curr_process := -1,
                enter_flag := 1, screen_start := 0\<rparr>) k;
     Some (upd_term i (\<lambda>t. t\<lparr>t_prev_buf := replicate 128 0\<rparr>) k)
   }"

definition init_terminals :: "kernel \<Rightarrow> kernel option" where
  "init_terminals k = do {
     let k = upd_term 0 (\<lambda>t. t\<lparr>video_buffer := 0xB9000\<rparr>) k;
     k \<leftarrow> on_vm (\<lambda>v. memset v 0xB9000 0 4096) k;
     let k = upd_term 1 (\<lambda>t. t\<lparr>video_buffer := 0xBA000\<rparr>) k;
     k \<leftarrow> on_vm (\<lambda>v. memset v 0xBA000 20 4096) k;
     let k = upd_term 2 (\<lambda>t. t\<lparr>video_buffer := 0xBB000\<rparr>) k;
     k \<leftarrow> on_vm (\<lambda>v. memset v 0xBB000 40 4096) k;
     k \<leftarrow> init_terminal 0 k;
     k \<leftarrow> init_terminal 1 k;
     k \<leftarrow> init_terminal 2 k;
     Some (k\<lparr>cur_terminal := 2, visible := 0, pitIntrCount := 0\<rparr>)
   }"

text \<open>
  The accessors of \<open>keyboard.c\<close> that \<open>switch_terminal\<close> uses; storing to a \<open>uint8_t\<close> member
  keeps the low byte.
\<close>

definition get_curr_idx :: "kernel \<Rightarrow> int" where "get_curr_idx k = curr_idx k"
definition get_num_chars :: "kernel \<Rightarrow> int" where "get_num_chars k = num_chars k"
definition get_save_x :: "kernel \<Rightarrow> int" where "get_save_x k = save_x k"
definition get_save_y :: "kernel \<Rightarrow> int" where "get_save_y k = save_y k"
definition get_previous_num_chars :: "kernel \<Rightarrow> int" where "get_previous_num_chars k = previous_num_chars k"
definition get_previous_buf :: "kernel \<Rightarrow> u8 list" where "get_previous_buf k = previous_buf k"
definition set_curr_idx :: "int \<Rightarrow> kernel \<Rightarrow> kernel" where "set_curr_idx x k = k\<lparr>curr_idx := x\<rparr>"
definition set_num_chars :: "int \<Rightarrow> kernel \<Rightarrow> kernel" where "set_num_chars x k = k\<lparr>num_chars := x\<rparr>"
definition set_save_x :: "int \<Rightarrow> kernel \<Rightarrow> kernel" where "set_save_x x k = k\<lparr>save_x := x\<rparr>"
definition set_save_y :: "int \<Rightarrow> kernel \<Rightarrow> kernel" where "set_save_y x k = k\<lparr>save_y := x\<rparr>"
definition set_previous_num_chars :: "int \<Rightarrow> kernel \<Rightarrow> kernel" where
  "set_previous_num_chars x k = k\<lparr>previous_num_chars := x\<rparr>"
definition set_previous_buf :: "u8 list \<Rightarrow> kernel \<Rightarrow> kernel" where "set_previous_buf b k = k\<lparr>previous_buf := b\<rparr>"

definition save_terminal :: "nat \<Rightarrow> kernel \<Rightarrow> kernel option" where
  "save_terminal vis k = do {
     let k = upd_term vis (\<lambda>t. t\<lparr>t_screen_x := word_of_int (get_screen_x (mach k)), t_screen_y := word_of_int (get_screen_y (mach k)),
               t_curr_idx := word_of_int (get_curr_idx k), t_num_chars := word_of_int (get_num_chars k),
               t_save_x := word_of_int (get_save_x k), t_save_y := word_of_int (get_save_y k),
               t_prev_num_chars := word_of_int (get_previous_num_chars k)\<rparr>) k;
     let k = set_vm (set_upte vis (video_buffer (terminals k vis) OR 7) (kvm k)) k;
     let k = upd_term vis (\<lambda>t. t\<lparr>t_prev_buf := get_previous_buf k\<rparr>) k;
     k \<leftarrow> on_vm (\<lambda>v. memcpy v (video_buffer (terminals k vis)) VIDEO_MEM 4096) k;
     Some (upd_term vis (\<lambda>t. t\<lparr>t_buf_kb := buf_kb k\<rparr>) k)
   }"

definition restore_terminal :: "nat \<Rightarrow> kernel \<Rightarrow> kernel option" where
  "restore_terminal d k = do {
     let t = terminals k d;
     let k = upd_mach (set_cursor (uint (t_screen_x t)) (uint (t_screen_y t))) k;
     let k = set_curr_idx (uint (t_curr_idx t)) k;
     let k = set_num_chars (uint (t_num_chars t)) k;
     let k = set_save_x (uint (t_save_x t)) k;
     let k = set_save_y (uint (t_save_y t)) k;
     let k = set_previous_num_chars (uint (t_prev_num_chars t)) k;
     let k = upd_mach (set_screenxy (uint (t_screen_x t)) (uint (t_screen_y t))) k;
     k \<leftarrow> on_vm (\<lambda>v. memcpy v VIDEO_MEM (video_buffer t) 4096) k;
     let k = set_previous_buf (t_prev_buf t) k;
     let k = k\<lparr>buf_kb := t_buf_kb t\<rparr>;
     Some (set_vm (set_upte d (VIDEO_MEM OR 7) (kvm k)) k)
   }"

definition switch_terminal :: "u8 \<Rightarrow> kernel \<Rightarrow> kernel option" where
  "switch_terminal terminal_dest k =
     (if terminal_dest = visible k then Some k
      else if 3 < terminal_dest then Some k
      else do {
        k \<leftarrow> save_terminal (vt k) k;
        k \<leftarrow> restore_terminal (unat terminal_dest) k;
        Some (k\<lparr>visible := terminal_dest\<rparr>)
      })"

section \<open>The four video pages\<close>

text \<open>The layout with the video page mapped to the real video memory.\<close>

definition real_screen :: "vmem \<Rightarrow> bool" where
  "real_screen v \<longleftrightarrow> layout v \<and> page_table v 0xB8 = 0xB8003"

definition pa :: "nat \<Rightarrow> addr" where
  "pa i = 0xB8000 + 4096 * word_of_nat i"

definition page :: "vmem \<Rightarrow> nat \<Rightarrow> u8 list option" where
  "page v i = ld_bytes v (pa i) 4096"

lemma translate_low_eq:
  assumes "layout v" and "drop_bit 12 va = (p :: u32)" and "p < 1024"
  shows "translate v va = (if bit (page_table v (unat p)) 0
    then Some ((page_table v (unat p) AND 0xFFFFF000) OR take_bit 12 va) else None)"
proof -
  have p10: "take_bit 10 p = p" "drop_bit 10 p = 0"
  proof -
    have u: "unat p < 1024" using assms(3) by (simp add: word_less_nat_alt)
    have "unat (take_bit 10 p) = unat p"
      using u by (simp only: unsigned_take_bit_eq) (simp add: take_bit_nat_eq_self)
    then show "take_bit 10 p = p" by (rule unsigned_word_eqI)
    have "unat (drop_bit 10 p) = 0"
      using u by (simp only: unat_drop_bit_eq) (simp add: drop_bit_eq_div)
    then show "drop_bit 10 p = 0" by (simp only: unat_eq_zero)
  qed
  have "drop_bit 22 va = drop_bit 10 (drop_bit 12 va)" by (simp only: drop_bit_drop_bit) simp
  also have "\<dots> = 0" by (simp only: assms(2) p10)
  finally have d: "drop_bit 22 va = 0" .
  have b: "bit (page_directory v 0) 0" "\<not> bit (page_directory v 0) 7"
    using assms(1) aligned_entry_bits [of "page_table_addr v"] by (auto simp: layout_def)
  have i: "drop_bit 12 va AND 0x3FF = p" by (simp only: assms(2) and_0x3FF p10)
  show ?thesis
    using b layout_tables(1) [OF assms(1)] layout_paging_on [OF assms(1)]
    by (simp add: translate_def Let_def d i and_0xFFF)
qed

lemma translate_low:
  assumes "layout v" and "drop_bit 12 va = (p :: u32)" and "p < 1024" and "bit (page_table v (unat p)) 0"
  shows "translate v va = Some ((page_table v (unat p) AND 0xFFFFF000) OR take_bit 12 va)"
  using translate_low_eq [OF assms(1-3)] assms(4) by simp

lemma translate_pages:
  assumes "real_screen v" and "drop_bit 12 a \<in> {0xB8, 0xB9, 0xBA, 0xBB :: u32}"
  shows "translate v a = Some a"
proof -
  have pt: "page_table v 0xB8 = 0xB8003" "page_table v 0xB9 = 0xB9007" "page_table v 0xBA = 0xBA007" "page_table v 0xBB = 0xBB007"
    using assms(1) by (auto simp: real_screen_def layout_def)
  have l: "layout v" using assms(1) by (simp add: real_screen_def)
  have id: "push_bit 12 (drop_bit 12 a) OR take_bit 12 a = a"
    by (rule bit_eqI) (auto simp: bit_simps)
  from assms(2) consider "drop_bit 12 a = 0xB8" | "drop_bit 12 a = 0xB9" | "drop_bit 12 a = 0xBA" | "drop_bit 12 a = 0xBB" by auto
  then show ?thesis
    using translate_low [OF l, of a "0xB8"] translate_low [OF l, of a "0xB9"] translate_low [OF l, of a "0xBA"]
      translate_low [OF l, of a "0xBB"] pt id
    by cases simp_all
qed

lemma pa_page:
  assumes "i < 4" and "a \<in> region (pa i) 4096"
  shows "drop_bit 12 a = 0xB8 + word_of_nat i" "drop_bit 12 a \<in> {0xB8, 0xB9, 0xBA, 0xBB :: u32}"
proof -
  from assms(2) obtain j where j: "j < 4096" "a = pa i + word_of_nat j" by (auto simp: region_def)
  have i: "i = 0 \<or> i = 1 \<or> i = 2 \<or> i = 3" using assms(1) by auto
  then have "take_bit 12 (pa i) = 0" "drop_bit 12 (pa i) = 0xB8 + word_of_nat i" by (auto simp: pa_def)
  with page_addr(1) [OF j(1), of "pa i"] j(2) show d: "drop_bit 12 a = 0xB8 + word_of_nat i" by simp
  show "drop_bit 12 a \<in> {0xB8, 0xB9, 0xBA, 0xBB}" unfolding d using i by auto
qed

lemma page_facts:
  assumes "real_screen v" and "i < 4" and "j < 4"
  shows "mapped v (region (pa i) 4096)" and "i \<noteq> j \<Longrightarrow> apart v (region (pa i) 4096) (region (pa j) 4096)"
proof -
  have tr: "translate v a = Some a" if "a \<in> region (pa l) 4096" "l < 4" for a l
    by (rule translate_pages [OF assms(1) pa_page(2) [OF that(2,1)]])
  show "mapped v (region (pa i) 4096)" using tr assms(2) by (auto simp: mapped_def inj_on_def)
  assume "i \<noteq> j"
  then have "(0xB8 + word_of_nat i :: u32) \<noteq> 0xB8 + word_of_nat j"
    using assms(2,3) word_of_nat_inj_u32 [of i j] by simp
  then show "apart v (region (pa i) 4096) (region (pa j) 4096)"
    using tr pa_page(1) assms(2,3) unfolding apart_def by (metis option.inject)
qed

lemma real_screen_same_map: "same_map v v' \<Longrightarrow> real_screen v' = real_screen v"
  by (simp add: real_screen_def layout_same_map same_map_fields)

lemma page_copy:
  assumes r: "real_screen v" and i: "i < 4" and j: "j < 4" and ne: "i \<noteq> j"
  shows "\<exists>v'. memcpy v (pa i) (pa j) 4096 = Some v' \<and> real_screen v' \<and> same_map v v' \<and>
    (\<forall>l < 4. page v' l = page v (if l = i then j else l))"
proof -
  have u: "mapped v (region (pa i) (unat (4096 :: u32)) \<union> region (pa j) (unat (4096 :: u32)))"
    "region (pa i) (unat (4096 :: u32)) \<inter> region (pa j) (unat (4096 :: u32)) = {}"
    using mapped_union [OF page_facts(1) [OF r i j] page_facts(1) [OF r j i] page_facts(2) [OF r i j ne]] by simp_all
  from memcpy_disjoint [OF u] obtain v' where v': "memcpy v (pa i) (pa j) 4096 = Some v'"
    "changes (region (pa i) 4096) v v'" "page v' i = page v j" by (auto simp: page_def)
  moreover have "page v' l = page v l" if "l < 4" "l \<noteq> i" for l
    unfolding page_def by (rule ld_bytes_changes [OF v'(2) page_facts(2) [OF r i that(1)]]) (use that in simp)
  ultimately show ?thesis
    using r real_screen_same_map [OF changes_same_map [OF v'(2)]] changes_same_map [OF v'(2)] by auto
qed

lemma set_upte_pages:
  assumes "real_screen v" and "i < 1024" and "t < 4"
  shows "real_screen (set_upte i (((0xB8 + t) * 4096) OR 7) v)" and "l < 4 \<Longrightarrow> page (set_upte i e v) l = page v l"
proof -
  show r: "real_screen (set_upte i (((0xB8 + t) * 4096) OR 7) v)"
    using assms unfolding real_screen_def layout_def by auto
  assume l: "l < 4"
  have "ld8 (set_upte i e v) a = ld8 v a" if a: "a \<in> region (pa l) 4096" for a
  proof -
    have d: "unat (drop_bit 22 a) = 0"
    proof -
      have "drop_bit 22 a = drop_bit 10 (drop_bit 12 a)" by (simp only: drop_bit_drop_bit) simp
      moreover have "drop_bit 12 a = 0xB8 \<or> drop_bit 12 a = 0xB9 \<or> drop_bit 12 a = 0xBA \<or> drop_bit 12 a = 0xBB"
        using pa_page(2) [OF l a] by (simp only: insert_iff empty_iff simp_thms)
      ultimately show ?thesis by (elim disjE) (simp_all only: , simp_all)
    qed
    have "table_at (set_upte i e v) (page_directory v 0 AND 0xFFFFF000) = table_at v (page_directory v 0 AND 0xFFFFF000)"
      using layout_tables(1) [of v] page_of_entry [of "page_table_addr v" 3] assms(1) by (auto simp: table_at_def real_screen_def layout_def)
    then show ?thesis by (simp add: ld8_def translate_def Let_def d)
  qed
  then have "ld_bytes (set_upte i e v) b n = ld_bytes v b n" if "region b n \<subseteq> region (pa l) 4096" for b n
    using that
  proof (induction n arbitrary: b)
    case (Suc n)
    then show ?case by (simp add: region_Suc)
  qed simp
  then show "page (set_upte i e v) l = page v l" by (simp add: page_def)
qed

section \<open>Terminal sessions\<close>

text \<open>
  What belongs to one terminal: the cursor, the line editor's variables and buffers, and the 4096
  bytes of its page.  The session of the visible terminal lives in the globals and on the screen,
  that of another terminal in its structure and its backing page.
\<close>

type_synonym session = "int \<times> int \<times> int \<times> int \<times> int \<times> int \<times> int \<times> u8 list \<times> u8 list \<times> u8 list option"

definition live :: "kernel \<Rightarrow> session" where
  "live k = (screen_x (mach k), screen_y (mach k), curr_idx k, num_chars k, save_x k, save_y k,
     previous_num_chars k, previous_buf k, buf_kb k, page (kvm k) 0)"

definition saved :: "kernel \<Rightarrow> nat \<Rightarrow> session" where
  "saved k i = (let t = terminals k i in (uint (t_screen_x t), uint (t_screen_y t), uint (t_curr_idx t), uint (t_num_chars t),
     uint (t_save_x t), uint (t_save_y t), uint (t_prev_num_chars t), t_prev_buf t, t_buf_kb t, page (kvm k) (Suc i)))"

definition session :: "kernel \<Rightarrow> nat \<Rightarrow> session" where
  "session k i = (if i = vt k then live k else saved k i)"

text \<open>The live values fit the byte-sized members they are saved in.\<close>

definition live_bytes :: "kernel \<Rightarrow> bool" where
  "live_bytes k \<longleftrightarrow> (\<forall>x \<in> {screen_x (mach k), screen_y (mach k), curr_idx k, num_chars k, save_x k, save_y k,
     previous_num_chars k}. 0 \<le> x \<and> x < 256)"

definition screens_ok :: "kernel \<Rightarrow> bool" where
  "screens_ok k \<longleftrightarrow> real_screen (kvm k) \<and> vt k < 3 \<and> live_bytes k \<and>
     (\<forall>i < 3. video_buffer (terminals k i) = pa (Suc i))"

lemma uint_byte: "0 \<le> x \<Longrightarrow> x < 256 \<Longrightarrow> uint (word_of_int x :: u8) = x"
  by (simp add: unsigned_of_int take_bit_int_eq_self)

lemma pa_entry: "i < 4 \<Longrightarrow> pa i OR e = ((0xB8 + word_of_nat i) * 4096) OR e" "pa 0 = VIDEO_MEM"
  by (simp_all add: pa_def VIDEO_MEM_def algebra_simps)

lemma save_terminal_ok:
  assumes "screens_ok k" and "i < 3"
  shows "\<exists>k'. save_terminal i k = Some k' \<and> saved k' i = live k \<and> (\<forall>j < 3. j \<noteq> i \<longrightarrow> saved k' j = saved k j) \<and>
    real_screen (kvm k') \<and> visible k' = visible k \<and> cur_terminal k' = cur_terminal k \<and> PCB_array k' = PCB_array k \<and>
    (\<forall>j. curr_process (terminals k' j) = curr_process (terminals k j) \<and>
         enter_flag (terminals k' j) = enter_flag (terminals k j) \<and>
         video_buffer (terminals k' j) = video_buffer (terminals k j)) \<and>
    user_video_page_table (kvm k') = (user_video_page_table (kvm k))(i := pa (Suc i) OR 7)"
proof -
  have r: "real_screen (kvm k)" and vb: "video_buffer (terminals k i) = pa (Suc i)"
    and b: "live_bytes k" using assms by (auto simp: screens_ok_def)
  let ?v = "set_upte i (pa (Suc i) OR 7) (kvm k)"
  have rv: "real_screen ?v"
  proof -
    have "i = 0 \<or> i = 1 \<or> i = 2" using assms(2) by auto
    then show ?thesis
      using set_upte_pages(1) [OF r, of i 1] set_upte_pages(1) [OF r, of i 2] set_upte_pages(1) [OF r, of i 3]
      by (auto simp: pa_def)
  qed
  have pv: "page ?v l = page (kvm k) l" if "l < 4" for l
    by (rule set_upte_pages(2) [OF r _ _ that, where t = 0]) (use assms(2) in simp_all)
  obtain v' where v': "memcpy ?v (pa (Suc i)) VIDEO_MEM 4096 = Some v'" "real_screen v'" "same_map ?v v'"
    "\<forall>l < 4. page v' l = page ?v (if l = Suc i then 0 else l)"
    using page_copy [OF rv, of "Suc i" 0] assms(2) by (auto simp: pa_entry)
  have pages: "page v' (Suc i) = page (kvm k) 0" "\<And>j. j < 3 \<Longrightarrow> j \<noteq> i \<Longrightarrow> page v' (Suc j) = page (kvm k) (Suc j)"
    using v'(4) pv assms(2) by auto
  have ut: "user_video_page_table v' = (user_video_page_table (kvm k))(i := pa (Suc i) OR 7)"
    using same_map_fields [OF v'(3)] by simp
  show ?thesis
    using v'(1,2) vb pages ut b
    by (simp add: save_terminal_def on_vm_def Let_def saved_def live_def uint_byte live_bytes_def
        get_screen_x_def get_screen_y_def get_curr_idx_def get_num_chars_def get_save_x_def get_save_y_def
        get_previous_num_chars_def get_previous_buf_def)
qed

lemma restore_terminal_ok:
  assumes "real_screen (kvm k)" and "i < 3" and "video_buffer (terminals k i) = pa (Suc i)"
  shows "\<exists>k'. restore_terminal i k = Some k' \<and> live k' = saved k i \<and> (\<forall>j < 3. saved k' j = saved k j) \<and>
    real_screen (kvm k') \<and> terminals k' = terminals k \<and> visible k' = visible k \<and> cur_terminal k' = cur_terminal k \<and>
    PCB_array k' = PCB_array k \<and> live_bytes k' \<and>
    hw_cursor (io (mach k')) = nat (NUM_COLS * screen_y (mach k') + screen_x (mach k')) \<and>
    user_video_page_table (kvm k') = (user_video_page_table (kvm k))(i := VIDEO_MEM OR 7)"
proof -
  obtain v' where v': "memcpy (kvm k) VIDEO_MEM (pa (Suc i)) 4096 = Some v'" "real_screen v'" "same_map (kvm k) v'"
    "\<forall>l < 4. page v' l = page (kvm k) (if l = 0 then Suc i else l)"
    using page_copy [OF assms(1), of 0 "Suc i"] assms(2) by (auto simp: pa_entry)
  let ?v = "set_upte i (VIDEO_MEM OR 7) v'"
  have rv: "real_screen ?v" using set_upte_pages(1) [OF v'(2), of i 0] assms(2) by (simp add: VIDEO_MEM_def)
  have pv: "page ?v l = page v' l" if "l < 4" for l
    by (rule set_upte_pages(2) [OF v'(2) _ _ that, where t = 0]) (use assms(2) in simp_all)
  have pages: "page ?v 0 = page (kvm k) (Suc i)" "\<And>j. j < 3 \<Longrightarrow> page ?v (Suc j) = page (kvm k) (Suc j)"
    using v'(4) pv by auto
  have ut: "user_video_page_table ?v = (user_video_page_table (kvm k))(i := VIDEO_MEM OR 7)"
    using same_map_fields [OF v'(3)] by simp
  have ub: "0 \<le> uint w \<and> uint w < 256" for w :: u8 using unsigned_less [of w, where ?'a = int] by simp
  have hw: "hw_cursor (io (update_cursor (uint x) (uint y) m)) = nat (NUM_COLS * uint y + uint x)" for x y :: u8 and m
    using ub [of x] ub [of y] by (subst hw_cursor_update) (auto simp: NUM_COLS_def mult.commute)
  show ?thesis
    using v'(1) rv assms(3) pages ut ub hw
    by (simp add: restore_terminal_def on_vm_def Let_def saved_def live_def live_bytes_def set_vm_def set_screenxy_def
        set_cursor_def set_curr_idx_def set_num_chars_def set_save_x_def set_save_y_def set_previous_num_chars_def
        set_previous_buf_def)
qed

lemma switch_terminal_ok:
  assumes "screens_ok k" and "unat d < 3"
  shows "\<exists>k'. switch_terminal d k = Some k' \<and> screens_ok k' \<and> visible k' = d \<and> (\<forall>i < 3. session k' i = session k i) \<and>
    cur_terminal k' = cur_terminal k \<and> PCB_array k' = PCB_array k \<and>
    (\<forall>j. curr_process (terminals k' j) = curr_process (terminals k j)) \<and>
    (d \<noteq> visible k \<longrightarrow> user_video_page_table (kvm k') =
       (user_video_page_table (kvm k))(vt k := pa (Suc (vt k)) OR 7, unat d := VIDEO_MEM OR 7) \<and>
       hw_cursor (io (mach k')) = nat (NUM_COLS * screen_y (mach k') + screen_x (mach k')))"
proof (cases "d = visible k")
  case True
  then show ?thesis using assms by (simp add: switch_terminal_def)
next
  case False
  then have ne: "unat d \<noteq> vt k" by (metis unsigned_word_eqI)
  have g: "\<not> 3 < d" using assms(2) by (simp add: word_less_nat_alt)
  have v: "vt k < 3" using assms(1) by (simp add: screens_ok_def)
  obtain k1 where k1: "save_terminal (vt k) k = Some k1" "saved k1 (vt k) = live k"
    "\<forall>j < 3. j \<noteq> vt k \<longrightarrow> saved k1 j = saved k j" "real_screen (kvm k1)" "cur_terminal k1 = cur_terminal k"
    "PCB_array k1 = PCB_array k" "\<forall>j. curr_process (terminals k1 j) = curr_process (terminals k j) \<and>
     video_buffer (terminals k1 j) = video_buffer (terminals k j)"
    "user_video_page_table (kvm k1) = (user_video_page_table (kvm k))(vt k := pa (Suc (vt k)) OR 7)"
    using save_terminal_ok [OF assms(1) v] by auto
  have vb: "video_buffer (terminals k1 j) = pa (Suc j)" if "j < 3" for j
    using that k1(7) assms(1) by (simp add: screens_ok_def)
  obtain k2 where k2: "restore_terminal (unat d) k1 = Some k2" "live k2 = saved k1 (unat d)" "\<forall>j < 3. saved k2 j = saved k1 j"
    "real_screen (kvm k2)" "terminals k2 = terminals k1" "cur_terminal k2 = cur_terminal k1" "PCB_array k2 = PCB_array k1"
    "live_bytes k2" "hw_cursor (io (mach k2)) = nat (NUM_COLS * screen_y (mach k2) + screen_x (mach k2))"
    "user_video_page_table (kvm k2) = (user_video_page_table (kvm k1))(unat d := VIDEO_MEM OR 7)"
    using restore_terminal_ok [OF k1(4) assms(2) vb [OF assms(2)]] by auto
  let ?k = "k2\<lparr>visible := d\<rparr>"
  have s: "session ?k i = session k i" if "i < 3" for i
    using that k1(2,3) k2(2,3) ne assms(2) by (auto simp: session_def saved_def live_def)
  have ok: "screens_ok ?k"
    using k2(4,5,8) vb assms(2) by (simp add: screens_ok_def live_bytes_def)
  show ?thesis
    using False g k1(1,5,6,7,8) k2(1,5,6,7,9,10) s ok by (simp add: switch_terminal_def)
qed

lemma run_switches_ok:
  assumes "screens_ok k" and "\<forall>d \<in> set ds. unat d < 3"
  shows "\<exists>k'. run_ops switch_terminal ds k = Some k' \<and> screens_ok k' \<and> visible k' = last (visible k # ds) \<and>
    (\<forall>i < 3. session k' i = session k i)"
  using assms
proof (induction ds arbitrary: k)
  case Nil
  then show ?case by simp
next
  case (Cons d ds)
  obtain k1 where k1: "switch_terminal d k = Some k1" "screens_ok k1" "visible k1 = d" "\<forall>i < 3. session k1 i = session k i"
    using switch_terminal_ok [OF Cons.prems(1), of d] Cons.prems(2) by auto
  with Cons.IH [OF k1(2)] Cons.prems(2) show ?case by simp
qed

section \<open>Set-up\<close>

lemma page_fill:
  assumes "real_screen v" and "i < 4"
  shows "\<exists>v'. memset v (pa i) c 4096 = Some v' \<and> real_screen v' \<and> same_map v v' \<and>
    (\<forall>l < 4. page v' l = (if l = i then Some (replicate 4096 (word_of_int c)) else page v l))"
proof -
  let ?bs = "replicate 4096 (word_of_int c :: u8)"
  obtain v' where v': "st_bytes v (pa i) ?bs = Some v'" "page v' i = Some ?bs"
    using st_bytes_mapped [of v "pa i" ?bs] page_facts(1) [OF assms assms(2)] by (auto simp: page_def)
  have ch: "changes (region (pa i) 4096) v v'" using st_bytes_changes [OF v'(1)] by simp
  have "page v' l = page v l" if "l < 4" "l \<noteq> i" for l
    unfolding page_def by (rule ld_bytes_changes [OF ch page_facts(2) [OF assms that(1)]]) (use that in simp)
  with v' changes_same_map [OF ch] show ?thesis
    using assms(1) real_screen_same_map [of v v'] by (auto simp: memset_eq)
qed

definition reset_terminal :: "nat \<Rightarrow> terminal_t \<Rightarrow> terminal_t" where
  "reset_terminal i t = t\<lparr>shell_pid := int i, t_buf_kb := replicate 128 0,
     t_screen_x := 0, t_screen_y := 0, t_curr_idx := 0, t_num_chars := 0, t_save_x := 0, t_save_y := 0,
     t_prev_num_chars := 0, curr_process := -1, enter_flag := 1, screen_start := 0, t_prev_buf := replicate 128 0\<rparr>"

lemma init_terminal_ok:
  assumes "real_screen (kvm k)" and "i < 3" and "video_buffer (terminals k i) = pa (Suc i)"
  shows "\<exists>v'. init_terminal i k = Some (set_vm v' (upd_term i (reset_terminal i) k)) \<and>
    real_screen v' \<and> (\<forall>l < 4. page v' l = (if l = Suc i then Some (replicate 4096 0) else page (kvm k) l))"
proof -
  obtain v' where v': "memset (kvm k) (pa (Suc i)) 0 4096 = Some v'" "real_screen v'"
    "\<forall>l < 4. page v' l = (if l = Suc i then Some (replicate 4096 0) else page (kvm k) l)"
    using page_fill [OF assms(1), of "Suc i" 0] assms(2) by auto
  then show ?thesis
    using assms(3)
    by (intro exI [of _ v']) (simp add: init_terminal_def on_vm_def Let_def upd_term_def set_vm_def reset_terminal_def)
qed

text \<open>The session of a terminal that nobody has used.\<close>

definition fresh_session :: session where
  "fresh_session = (0, 0, 0, 0, 0, 0, 0, replicate 128 0, replicate 128 0, Some (replicate 4096 0))"

lemma set_vm_screen [simp]: "screen_x (mach (set_vm v k)) = screen_x (mach k)" "screen_y (mach (set_vm v k)) = screen_y (mach k)"
  by (simp_all add: set_vm_def)

lemma init_terminals_ok:
  assumes "real_screen (kvm k)"
  shows "\<exists>k'. init_terminals k = Some k' \<and> real_screen (kvm k') \<and> visible k' = 0 \<and> cur_terminal k' = 2 \<and> pitIntrCount k' = 0 \<and>
    (\<forall>i < 3. saved k' i = fresh_session \<and> curr_process (terminals k' i) = -1 \<and> shell_pid (terminals k' i) = int i \<and>
       video_buffer (terminals k' i) = pa (Suc i)) \<and>
    live k' = live k \<and> PCB_array k' = PCB_array k"
proof -
  have pas: "pa 1 = 0xB9000" "pa 2 = 0xBA000" "pa 3 = 0xBB000" by (simp_all add: pa_def)
  let ?t0 = "\<lambda>k. upd_term 0 (\<lambda>t. t\<lparr>video_buffer := 0xB9000\<rparr>) k"
  let ?t1 = "\<lambda>k. upd_term 1 (\<lambda>t. t\<lparr>video_buffer := 0xBA000\<rparr>) k"
  let ?t2 = "\<lambda>k. upd_term 2 (\<lambda>t. t\<lparr>video_buffer := 0xBB000\<rparr>) k"
  obtain v1 where v1: "memset (kvm k) 0xB9000 0 4096 = Some v1" "real_screen v1" "page v1 0 = page (kvm k) 0"
    using page_fill [OF assms, of 1 0] by (auto simp: pas [symmetric])
  obtain v2 where v2: "memset v1 0xBA000 20 4096 = Some v2" "real_screen v2" "page v2 0 = page v1 0"
    using page_fill [OF v1(2), of 2 20] by (auto simp: pas [symmetric])
  obtain v3 where v3: "memset v2 0xBB000 40 4096 = Some v3" "real_screen v3" "page v3 0 = page v2 0"
    using page_fill [OF v2(2), of 3 40] by (auto simp: pas [symmetric])
  let ?k = "set_vm v3 (?t2 (set_vm v2 (?t1 (set_vm v1 (?t0 k)))))"
  obtain k1 v4 where k1: "init_terminal 0 ?k = Some k1" "k1 = set_vm v4 (upd_term 0 (reset_terminal 0) ?k)"
    "real_screen v4" "\<forall>l < 4. page v4 l = (if l = 1 then Some (replicate 4096 0) else page v3 l)"
    using init_terminal_ok [of ?k 0] v3(2) pas by auto
  obtain k2 v5 where k2: "init_terminal 1 k1 = Some k2" "k2 = set_vm v5 (upd_term 1 (reset_terminal 1) k1)"
    "real_screen v5" "\<forall>l < 4. page v5 l = (if l = 2 then Some (replicate 4096 0) else page v4 l)"
    using init_terminal_ok [of k1 1] k1(2,3) pas by (auto simp: numeral_2_eq_2 [symmetric])
  obtain v6 where v6: "init_terminal 2 k2 = Some (set_vm v6 (upd_term 2 (reset_terminal 2) k2))"
    "real_screen v6" "\<forall>l < 4. page v6 l = (if l = 3 then Some (replicate 4096 0) else page v5 l)"
    using init_terminal_ok [of k2 2] k1(2) k2(2,3) pas by (auto simp: numeral_3_eq_3 [symmetric])
  have less3: "(\<forall>i < 3. P i) \<longleftrightarrow> P 0 \<and> P 1 \<and> P (2 :: nat)" for P by (auto simp: numeral_3_eq_3 numeral_2_eq_2 less_Suc_eq)
  have pg: "page v6 0 = page (kvm k) 0" "page v6 1 = Some (replicate 4096 0)" "page v6 2 = Some (replicate 4096 0)"
    "page v6 3 = Some (replicate 4096 0)"
    using v1(3) v2(3) v3(3) k1(4) k2(4) v6(3) by simp_all
  have r: "init_terminals k = Some (set_vm v6 (upd_term 2 (reset_terminal 2) k2)
      \<lparr>cur_terminal := 2, visible := 0, pitIntrCount := 0\<rparr>)"
    using v1(1) v2(1) v3(1) k1(1) k2(1) v6(1) by (simp add: init_terminals_def on_vm_def Let_def)
  show ?thesis
    unfolding r less3 using pg v6(2) k1(2) k2(2) pas
    by (simp add: saved_def live_def fresh_session_def Let_def reset_terminal_def numeral_2_eq_2 [symmetric] numeral_3_eq_3 [symmetric])
qed

lemma init_PIT_divisor:
  assumes "19 \<le> f" and "f \<le> 1193180"
  shows "init_PIT f k = Some (upd_mach (enable_irq 0)
    (upd_mach (\<lambda>m. m\<lparr>io := [Outb 0x40 (word_of_nat (1193180 div unat f div 256)),
       Outb 0x40 (word_of_nat (1193180 div unat f)), Outb 0x43 0x36] @ io m\<rparr>) k\<lparr>pitCount := 0, pitIntrCount := 0\<rparr>))"
proof -
  let ?d = "1193180 div f"
  have f: "19 \<le> unat f" "unat f \<le> 1193180" using assms by (simp_all add: word_le_nat_alt)
  have u: "unat ?d = 1193180 div unat f" by (simp add: unat_div_distrib)
  also have "\<dots> \<le> 1193180 div 19" using f by (intro div_le_mono2) simp_all
  finally have lim: "unat ?d < 65536" by simp
  have lo: "ucast (?d AND 0xFF) = (word_of_nat (unat ?d) :: u8)"
    unfolding and_0xFF by (rule bit_word_eqI) (simp add: bit_simps)
  have "ucast (drop_bit 8 ?d AND 0xFF) = (ucast (drop_bit 8 ?d) :: u8)"
    unfolding and_0xFF by (rule bit_word_eqI) (auto simp: bit_simps)
  also have "\<dots> = word_of_nat (unat (drop_bit 8 ?d))" by simp
  also have "\<dots> = word_of_nat (unat ?d div 256)" by (simp only: unat_drop_bit_eq) (simp add: drop_bit_eq_div)
  finally have hi: "ucast (drop_bit 8 ?d AND 0xFF) = (word_of_nat (unat ?d div 256) :: u8)" .
  have "f \<noteq> 0" using f by auto
  then show ?thesis unfolding u [symmetric] by (simp add: init_PIT_def Let_def outb_def lo hi)
qed

section \<open>Properties\<close>

definition boot_kernel :: kernel where
  "boot_kernel = zero_kernel (flat_machine (\<lambda>_. 0)\<lparr>vm := init_paging (flat_vmem (\<lambda>_. 0))\<rparr>) 0x7FFFFC 0x7FF000 0x500000"

lemma boot_kernel_screen: "real_screen (kvm boot_kernel)" "live_bytes boot_kernel"
  using sample_vmem_layout(1) init_tables_fields(1) [of _ 0]
  by (simp_all add: boot_kernel_def real_screen_def live_bytes_def zero_kernel_def init_paging_def Let_def enable_paging_def
      init_tables_fields VIDEO_MEM_INDEX_def FOUR_KB_def)

text \<open>
  C32: \<open>switch_terminal\<close> keeps every terminal's session.  For any sequence of switches to the
  terminals 0 to 2 the code returns without a page fault, the last destination is visible, and
  the session of every terminal, its cursor, line editor, history and the 4096 bytes of its
  page, is what it was before, wherever it is now stored.
\<close>

theorem switch_keeps_sessions:
  assumes "screens_ok k" and "\<forall>d \<in> set ds. unat d < 3"
  shows "\<exists>k'. run_ops switch_terminal ds k = Some k' \<and> screens_ok k' \<and> visible k' = last (visible k # ds) \<and>
    (\<forall>i < 3. session k' i = session k i)"
  by (rule run_switches_ok [OF assms])

theorem switch_keeps_sessions_witness:
  "\<exists>k k'. init_terminals boot_kernel = Some k \<and> run_ops switch_terminal [1, 2, 0, 1] k = Some k' \<and> visible k' = 1 \<and>
    session k' 0 = session k 0"
proof -
  obtain k where k: "init_terminals boot_kernel = Some k" "real_screen (kvm k)" "visible k = 0" "live k = live boot_kernel"
    "\<forall>i < 3. video_buffer (terminals k i) = pa (Suc i)"
    using init_terminals_ok [OF boot_kernel_screen(1)] by auto
  have "screens_ok k"
    using k(2,3,4,5) boot_kernel_screen(2) by (simp add: screens_ok_def live_bytes_def live_def)
  from switch_keeps_sessions [OF this, of "[1, 2, 0, 1]"] k(1) show ?thesis by auto
qed

text \<open>
  What one switch does to the address space and the cursor.  The user video page of the
  terminal that goes away points at its backing page, that of the new one at the screen, the
  hardware cursor stands at the new terminal's position, and the processes, their descriptors
  and the scheduled terminal are untouched.
\<close>

theorem switch_terminal_effect:
  assumes "screens_ok k" and "unat d < 3" and "d \<noteq> visible k"
  shows "\<exists>k'. switch_terminal d k = Some k' \<and> cur_terminal k' = cur_terminal k \<and> PCB_array k' = PCB_array k \<and>
    (\<forall>j. curr_process (terminals k' j) = curr_process (terminals k j)) \<and>
    user_video_page_table (kvm k') =
       (user_video_page_table (kvm k))(vt k := pa (Suc (vt k)) OR 7, unat d := VIDEO_MEM OR 7) \<and>
    hw_cursor (io (mach k')) = nat (NUM_COLS * screen_y (mach k') + screen_x (mach k'))"
  using switch_terminal_ok [OF assms(1,2)] assms(3) by blast

theorem switch_terminal_effect_witness:
  "\<exists>k k'. init_terminals boot_kernel = Some k \<and> switch_terminal 2 k = Some k' \<and>
    user_video_page_table (kvm k') 0 = 0xB9007 \<and> user_video_page_table (kvm k') 2 = 0xB8007"
proof -
  obtain k where k: "init_terminals boot_kernel = Some k" "real_screen (kvm k)" "visible k = 0" "live k = live boot_kernel"
    "\<forall>i < 3. video_buffer (terminals k i) = pa (Suc i)"
    using init_terminals_ok [OF boot_kernel_screen(1)] by auto
  have "screens_ok k"
    using k(2,3,4,5) boot_kernel_screen(2) by (simp add: screens_ok_def live_bytes_def live_def)
  from switch_terminal_effect [OF this, of 2] k(1,3) show ?thesis by (auto simp: pa_def VIDEO_MEM_def)
qed

text \<open>
  \<open>init_terminals\<close> returns without a page fault, gives the three terminals their backing
  pages and fresh sessions, no process, and makes terminal 0 visible; the screen and the line
  editor's globals stay as they are.
\<close>

theorem init_terminals_fresh:
  assumes "real_screen (kvm k)"
  shows "\<exists>k'. init_terminals k = Some k' \<and> real_screen (kvm k') \<and> visible k' = 0 \<and> cur_terminal k' = 2 \<and>
    (\<forall>i < 3. saved k' i = fresh_session \<and> curr_process (terminals k' i) = -1 \<and> shell_pid (terminals k' i) = int i \<and>
       video_buffer (terminals k' i) = pa (Suc i)) \<and> live k' = live k \<and> PCB_array k' = PCB_array k"
  using init_terminals_ok [OF assms] by auto

theorem init_terminals_fresh_witness:
  "\<exists>k'. init_terminals boot_kernel = Some k' \<and> saved k' 1 = fresh_session"
  using init_terminals_fresh [OF boot_kernel_screen(1)] by auto

text \<open>
  \<open>init_PIT\<close> programs the timer.  For a frequency from 19 Hz, where the divisor fits the
  16-bit counter, the two data bytes written to the timer are the low and the high byte of
  1193180 / frequency, in this order after the command byte, and the counters are reset.
\<close>

theorem init_PIT_programs:
  assumes "19 \<le> f" and "f \<le> 1193180"
  shows "init_PIT f k = Some (upd_mach (enable_irq 0)
      (upd_mach (\<lambda>m. m\<lparr>io := [Outb 0x40 (word_of_nat (1193180 div unat f div 256)),
         Outb 0x40 (word_of_nat (1193180 div unat f)), Outb 0x43 0x36] @ io m\<rparr>) k\<lparr>pitCount := 0, pitIntrCount := 0\<rparr>)) \<and>
    1193180 div unat f < 65536"
proof -
  have "19 \<le> unat f" using assms(1) by (simp add: word_le_nat_alt)
  then have "1193180 div unat f \<le> 1193180 div 19" by (intro div_le_mono2) simp_all
  then show ?thesis using init_PIT_divisor [OF assms] by simp
qed

theorem init_PIT_programs_witness:
  "init_PIT 20 boot_kernel = Some (upd_mach (enable_irq 0)
      (upd_mach (\<lambda>m. m\<lparr>io := [Outb 0x40 233, Outb 0x40 11, Outb 0x43 0x36] @ io m\<rparr>) boot_kernel\<lparr>pitCount := 0, pitIntrCount := 0\<rparr>))"
proof -
  have e: "(59659 :: u8) = 11" by simp
  show ?thesis using init_PIT_programs [of 20 boot_kernel] by (simp add: e)
qed

end
