(* ===== verification/Keyboard.thy ===== *)
theory Keyboard
  imports Schedule
begin

text \<open>
  The keyboard, \<open>student-distrib/keyboard.c\<close>: the four key tables, \<open>init_keyboard\<close> and the
  interrupt handler with its line editor.  The handler switches to the cursor and the page of the
  visible terminal (\<open>enter_editor\<close>), acts on the key (\<open>key_action\<close>), and switches back to
  the scheduled terminal (\<open>leave_editor\<close>).

  The keyboard controller is the device that answers on port 0x60; \<open>stack\<close> is what \<open>printf\<close>
  finds behind its format string.  The loop of the Up key is a partial function, \<open>None\<close> when it
  faults or does not end.  The counters of the Ctrl and Alt keys are unbounded integers: they
  change by one per interrupt.

  The lemmas relate the handler to an abstract line editor: the line of a terminal is the part of
  its buffer in front of the index, and each key is one editing operation on it.
\<close>

section \<open>Definitions\<close>

definition char_array :: "u8 list" where
  "char_array = [0, 0] @ map of_char ''1234567890-='' @ [0, 0] @ map of_char ''qwertyuiop[]'' @ [0, 0] @
     map of_char ''asdfghjkl;'' @ [39, 96, 0, 92] @ map of_char ''zxcvbnm,./'' @ [0, 42, 0, 32, 0]"

definition char_array_shift_nocap :: "u8 list" where
  "char_array_shift_nocap = [0, 0] @ map of_char ''!@#$%^&*()_+'' @ [0, 0] @ map of_char ''QWERTYUIOP{}'' @ [0, 0] @
     map of_char ''ASDFGHJKL:'' @ [34, 126, 0, 124] @ map of_char ''ZXCVBNM<>?'' @ [0, 42, 0, 32, 0]"

definition char_array_shift_cap :: "u8 list" where
  "char_array_shift_cap = [0, 0] @ map of_char ''!@#$%^&*()_+'' @ [0, 0] @ map of_char ''qwertyuiop{}'' @ [0, 0] @
     map of_char ''asdfghjkl:'' @ [34, 126, 0, 124] @ map of_char ''zxcvbnm<>?'' @ [0, 42, 0, 32, 0]"

definition char_array_noshift_cap :: "u8 list" where
  "char_array_noshift_cap = [0, 0] @ map of_char ''1234567890-='' @ [0, 0] @ map of_char ''QWERTYUIOP[]'' @ [0, 0] @
     map of_char ''ASDFGHJKL;'' @ [39, 96, 0, 92] @ map of_char ''ZXCVBNM,./'' @ [0, 42, 0, 32, 0]"

definition init_keyboard :: "kernel \<Rightarrow> kernel" where
  "init_keyboard k =
     (let k = upd_mach (enable_irq 1) k;
          k = k\<lparr>buf_kb := (buf_kb k)[127 := 0]\<rparr>
      in upd_term (vt k) (\<lambda>t. t\<lparr>enter_flag := 1\<rparr>) k)"

text \<open>The keys that only change \<open>flag_arr\<close>; \<open>None\<close> for every other scan code.\<close>

definition flag_key :: "u32 \<Rightarrow> int list \<Rightarrow> int list option" where
  "flag_key scanCode flags =
     (if scanCode = 0x2A then Some (flags[0 := 1])
      else if scanCode = 0xAA then Some (flags[0 := 0])
      else if scanCode = 0x36 then Some (flags[1 := 1])
      else if scanCode = 0xB6 then Some (flags[1 := 0])
      else if scanCode = 0x1D then Some (flags[2 := flags ! 2 + 1])
      else if scanCode = 0x9D then Some (flags[2 := flags ! 2 - 1])
      else if scanCode = 0x3A then Some (flags[3 := (if flags ! 3 \<noteq> 0 then 0 else 1)])
      else if scanCode = 0x38 then Some (flags[4 := flags ! 4 + 1])
      else if scanCode = 0xB8 then Some (flags[4 := flags ! 4 - 1])
      else None)"

definition enter_editor :: "kernel \<Rightarrow> kernel" where
  "enter_editor k =
     (let k = upd_term (ct k) (\<lambda>t. t\<lparr>t_screen_x := word_of_int (get_screen_x (mach k)),
                                    t_screen_y := word_of_int (get_screen_y (mach k))\<rparr>) k;
          t = terminals k (vt k);
          k = upd_mach (set_screenxy (uint (t_screen_x t)) (uint (t_screen_y t))) k
      in set_vm (map_video_page 0 (kvm k)) k)"

definition map_current_video :: "kernel \<Rightarrow> kernel" where
  "map_current_video k =
     (if cur_terminal k = visible k then set_vm (map_video_page 0 (kvm k)) k
      else set_vm (map_video_page (1 + cur_terminal k) (kvm k)) k)"

definition leave_editor :: "kernel \<Rightarrow> kernel" where
  "leave_editor k =
     (let k = map_current_video k;
          k = upd_term (vt k) (\<lambda>t. t\<lparr>t_screen_x := word_of_int (get_screen_x (mach k)),
                                    t_screen_y := word_of_int (get_screen_y (mach k))\<rparr>) k;
          t = terminals k (ct k)
      in upd_mach (set_screenxy (uint (t_screen_x t)) (uint (t_screen_y t))) k)"

partial_function (option) up_loop :: "int \<Rightarrow> int \<Rightarrow> machine \<Rightarrow> machine option" where
  "up_loop sx sy m =
     (if get_screen_x m \<noteq> sx \<and> get_screen_y m \<noteq> sy then do { m \<leftarrow> backspace m; up_loop sx sy m } else Some m)"

definition up_key :: "(nat \<Rightarrow> u32) \<Rightarrow> kernel \<Rightarrow> kernel option" where
  "up_key stack k = do {
     let k = enter_editor k;
     k \<leftarrow> on_mach (up_loop (save_x k) (save_y k)) k;
     let k = k\<lparr>buf_kb := lcopy (buf_kb k) (previous_buf k) 128\<rparr>;
     let k = k\<lparr>num_chars := previous_num_chars k\<rparr>;
     let k = k\<lparr>curr_idx := num_chars k\<rparr>;
     k \<leftarrow> on_mach (printf_arr stack (buf_kb k)) k;
     Some (leave_editor k)
   }"

definition enter_key :: "kernel \<Rightarrow> kernel option" where
  "enter_key k = do {
     k \<leftarrow> (if num_chars k \<noteq> 0 then
             (if 0 \<le> num_chars k \<and> num_chars k \<le> 128
              then Some (k\<lparr>previous_buf := lcopy (replicate 128 0) (buf_kb k) (nat (num_chars k)),
                           previous_num_chars := num_chars k\<rparr>)
              else None)
           else Some k);
     k \<leftarrow> (if 0 \<le> curr_idx k \<and> curr_idx k < 128 then Some (k\<lparr>buf_kb := (buf_kb k)[nat (curr_idx k) := 10]\<rparr>) else None);
     k \<leftarrow> on_mach (putc 10) k;
     let k = upd_term (vt k) (\<lambda>t. t\<lparr>enter_flag := 0\<rparr>) k;
     Some (k\<lparr>curr_idx := 0, num_chars := 0\<rparr>)
   }"

definition put_key :: "u8 \<Rightarrow> kernel \<Rightarrow> kernel option" where
  "put_key output_to_display k = do {
     k \<leftarrow> on_mach (putc output_to_display) k;
     if 0 \<le> curr_idx k \<and> curr_idx k < 128 then
       Some (k\<lparr>buf_kb := (buf_kb k)[nat (curr_idx k) := output_to_display],
               curr_idx := curr_idx k + 1, num_chars := num_chars k + 1\<rparr>)
     else None
   }"

text \<open>The notes of the lower-case keys (261 to 523 Hz).\<close>

definition key_tone :: "u8 \<Rightarrow> int option" where
  "key_tone c =
     (if c = of_char (CHR ''a'') then Some 262
      else if c = of_char (CHR ''w'') then Some 277
      else if c = of_char (CHR ''s'') then Some 294
      else if c = of_char (CHR ''e'') then Some 311
      else if c = of_char (CHR ''d'') then Some 330
      else if c = of_char (CHR ''f'') then Some 349
      else if c = of_char (CHR ''t'') then Some 370
      else if c = of_char (CHR ''g'') then Some 392
      else if c = of_char (CHR ''y'') then Some 415
      else if c = of_char (CHR ''h'') then Some 440
      else if c = of_char (CHR ''u'') then Some 466
      else if c = of_char (CHR ''j'') then Some 493
      else if c = of_char (CHR ''k'') then Some 523
      else None)"

definition plain_key :: "device \<Rightarrow> u8 \<Rightarrow> kernel \<Rightarrow> kernel option" where
  "plain_key dev c k = do {
     k \<leftarrow> (case key_tone c of None \<Rightarrow> Some k | Some f \<Rightarrow> on_mach (beep dev f) k);
     put_key c k
   }"

text \<open>\<open>strlen\<close> of a kernel array; without a NUL it runs past the end.\<close>

fun strlen_arr :: "u8 list \<Rightarrow> nat option" where
  "strlen_arr [] = None"
| "strlen_arr (c # cs) = (if c = 0 then Some 0 else map_option Suc (strlen_arr cs))"

definition put_char :: "device \<Rightarrow> nat \<Rightarrow> kernel \<Rightarrow> kernel option" where
  "put_char dev scanCode k =
     (if flag_arr k ! 0 \<noteq> 0 \<or> flag_arr k ! 1 \<noteq> 0 then
        if flag_arr k ! 3 \<noteq> 0 then
          if char_array_shift_cap ! scanCode \<noteq> 0 then put_key (char_array_shift_cap ! scanCode) k else Some k
        else
          if char_array_shift_nocap ! scanCode \<noteq> 0 then put_key (char_array_shift_nocap ! scanCode) k else Some k
      else if flag_arr k ! 3 \<noteq> 0 then
        if char_array_noshift_cap ! scanCode \<noteq> 0 then put_key (char_array_noshift_cap ! scanCode) k else Some k
      else
        if char_array ! scanCode \<noteq> 0 then plain_key dev (char_array ! scanCode) k else Some k)"

definition char_key :: "device \<Rightarrow> nat \<Rightarrow> kernel \<Rightarrow> kernel option" where
  "char_key dev scanCode k = do {
     n \<leftarrow> strlen_arr (buf_kb k);
     put_char dev scanCode
       (if n = 0 then k\<lparr>save_x := get_screen_x (mach k), save_y := get_screen_y (mach k)\<rparr> else k)
   }"

definition silence_key :: "u32 \<Rightarrow> bool" where
  "silence_key scanCode \<longleftrightarrow> (0x9E \<le> scanCode \<and> scanCode \<le> 0xA5) \<or> scanCode = 0x91 \<or> scanCode = 0x92 \<or>
     (0x94 \<le> scanCode \<and> scanCode \<le> 0x96)"

definition key_action :: "device \<Rightarrow> u32 \<Rightarrow> kernel \<Rightarrow> kernel option" where
  "key_action dev scanCode k =
     (if flag_arr k ! 2 \<noteq> 0 \<and> scanCode = 0x26 then do {
        k \<leftarrow> on_mach clear_kb k;
        Some (k\<lparr>curr_idx := 0, num_chars := 0, buf_kb := replicate 128 0\<rparr>)
      }
      else if scanCode = 0x0E \<and> curr_idx k \<noteq> 0 then do {
        k \<leftarrow> on_mach backspace k;
        Some (k\<lparr>curr_idx := curr_idx k - 1, num_chars := num_chars k - 1\<rparr>)
      }
      else if scanCode = 0x1C then enter_key k
      else if (scanCode = 0x3B \<or> scanCode = 0x3C \<or> scanCode = 0x3D) \<and> flag_arr k ! 4 \<noteq> 0 then
        switch_terminal (ucast (scanCode - 0x3B)) k
      else if num_chars k < 127 \<and> 0 < scanCode \<and> scanCode < 0x3B then char_key dev (unat scanCode) k
      else if silence_key scanCode then on_mach (beep dev 40000) k
      else Some k)"

definition keyboard_handler :: "device \<Rightarrow> (nat \<Rightarrow> u32) \<Rightarrow> kernel \<Rightarrow> kernel option" where
  "keyboard_handler dev stack k = do {
     let k = upd_mach cli k;
     let (scanCode, m) = inb dev 0x60 (mach k);
     let k = k\<lparr>mach := m\<rparr>;
     case flag_key scanCode (flag_arr k) of
       Some flags \<Rightarrow> Some (upd_mach (send_eoi 1) (k\<lparr>flag_arr := flags\<rparr>))
     | None \<Rightarrow>
         if scanCode = 0x48 then do {
           k \<leftarrow> up_key stack k;
           Some (upd_mach (send_eoi 1) k)
         }
         else do {
           k \<leftarrow> key_action dev scanCode (enter_editor k);
           Some (upd_mach (send_eoi 1) (leave_editor k))
         }
   }"

section \<open>The line editor\<close>

text \<open>
  The editing operation a scan code stands for, given the flags and the length of the line, and
  its effect on the line, the last line entered (the history) and the console.
\<close>

datatype key_op = Flags "int list" | Put u8 | Erase | Wipe | Submit | Switch u8 | Ignore

definition key_char :: "int list \<Rightarrow> nat \<Rightarrow> u8" where
  "key_char flags sc =
     (if flags ! 0 \<noteq> 0 \<or> flags ! 1 \<noteq> 0
      then (if flags ! 3 \<noteq> 0 then char_array_shift_cap else char_array_shift_nocap)
      else (if flags ! 3 \<noteq> 0 then char_array_noshift_cap else char_array)) ! sc"

definition decode :: "int list \<Rightarrow> nat \<Rightarrow> u32 \<Rightarrow> key_op" where
  "decode flags len sc =
     (case flag_key sc flags of
        Some flags' \<Rightarrow> Flags flags'
      | None \<Rightarrow>
          if flags ! 2 \<noteq> 0 \<and> sc = 0x26 then Wipe
          else if sc = 0x0E \<and> len \<noteq> 0 then Erase
          else if sc = 0x1C then Submit
          else if (sc = 0x3B \<or> sc = 0x3C \<or> sc = 0x3D) \<and> flags ! 4 \<noteq> 0 then Switch (ucast (sc - 0x3B))
          else if len < 127 \<and> 0 < sc \<and> sc < 0x3B \<and> key_char flags (unat sc) \<noteq> 0 then Put (key_char flags (unat sc))
          else Ignore)"

type_synonym editor = "u8 list \<times> u8 list \<times> console"

fun edit :: "key_op \<Rightarrow> editor \<Rightarrow> editor" where
  "edit (Put c) (l, h, con) = (l @ [c], h, con_putc c con)"
| "edit Erase (l, h, con) = (butlast l, h, con_backspace con)"
| "edit Wipe (l, h, con) = ([], h, con_clear con)"
| "edit Submit (l, h, con) = ([], if l = [] then h else l, con_putc 10 con)"
| "edit _ ed = ed"

definition line :: "kernel \<Rightarrow> u8 list" where
  "line k = take (nat (curr_idx k)) (buf_kb k)"

definition history :: "kernel \<Rightarrow> u8 list" where
  "history k = take (nat (previous_num_chars k)) (previous_buf k)"

definition edits :: "kernel \<Rightarrow> editor \<Rightarrow> bool" where
  "edits k ed \<longleftrightarrow> (case ed of (l, h, con) \<Rightarrow> line k = l \<and> history k = h \<and> displays (mach k) con)"

text \<open>What holds of the session of every terminal, and of the kernel inside the editor.\<close>

fun session_ok :: "session \<Rightarrow> bool" where
  "session_ok (x, y, ci, nc, sx, sy, pn, pb, b, pg) \<longleftrightarrow>
     0 \<le> x \<and> x < 80 \<and> 0 \<le> y \<and> y < 25 \<and> 0 \<le> ci \<and> nc = ci \<and> ci \<le> 127 \<and> ci \<le> 80 * y + x \<and>
     0 \<le> sx \<and> sx < 80 \<and> 0 \<le> sy \<and> sy < 25 \<and> 0 \<le> pn \<and> pn \<le> 127 \<and> length pb = 128 \<and> length b = 128"

definition ed_ok :: "kernel \<Rightarrow> bool" where
  "ed_ok k \<longleftrightarrow> real_screen (kvm k) \<and> vt k < 3 \<and> ct k < 3 \<and> length (flag_arr k) = 5 \<and>
     (\<forall>i < 3. video_buffer (terminals k i) = pa (Suc i)) \<and> (\<forall>i < 3. session_ok (session k i))"

text \<open>A change of the visible session only.\<close>

abbreviation sys_same :: "kernel \<Rightarrow> kernel \<Rightarrow> bool" where
  "sys_same k k' \<equiv> PCB_array k' = PCB_array k \<and> start_addr k' = start_addr k \<and> numdentries k' = numdentries k \<and>
     numinodes k' = numinodes k \<and> startdentry k' = startdentry k \<and> curfile k' = curfile k \<and> currPid k' = currPid k \<and>
     currFD k' = currFD k \<and> elf_buf k' = elf_buf k \<and> shell_name k' = shell_name k \<and> tss k' = tss k \<and>
     esp k' = esp k \<and> ebp k' = ebp k \<and> pitCount k' = pitCount k"

definition own_session :: "kernel \<Rightarrow> kernel \<Rightarrow> bool" where
  "own_session k k' \<longleftrightarrow> sys_same k k' \<and> changes screen_region (kvm k) (kvm k') \<and> visible k' = visible k \<and> cur_terminal k' = cur_terminal k \<and>
     page_directory (kvm k') = page_directory (kvm k) \<and> flag_arr k' = flag_arr k \<and> (\<forall>i < 3. i \<noteq> vt k \<longrightarrow> saved k' i = saved k i) \<and>
     (\<forall>i. video_buffer (terminals k' i) = video_buffer (terminals k i) \<and>
        curr_process (terminals k' i) = curr_process (terminals k i) \<and> save_tss (terminals k' i) = save_tss (terminals k i))"

lemma ed_ok_live:
  assumes "ed_ok k"
  shows "session_ok (live k)" "screens_ok k" "cursor_ok (mach k)"
proof -
  show l: "session_ok (live k)" using assms by (auto simp: ed_ok_def session_def)
  then show "screens_ok k" using assms by (simp add: ed_ok_def screens_ok_def live_def live_bytes_def)
  show "cursor_ok (mach k)" using l by (simp add: live_def cursor_ok_def NUM_COLS_def NUM_ROWS_def)
qed

lemma ed_ok_own:
  assumes "ed_ok k" and "own_session k k'" and "real_screen (kvm k')" and "session_ok (live k')"
  shows "ed_ok k'"
  using assms by (auto simp: ed_ok_def own_session_def session_def)

lemma own_saved:
  assumes "ed_ok k" and "terminals k' = terminals k" and "\<forall>l < 4. l \<noteq> 0 \<longrightarrow> page (kvm k') l = page (kvm k) l" and "i < 3"
  shows "saved k' i = saved k i"
  using assms by (simp add: saved_def)

lemma screen_changes:
  assumes "real_screen v" and "changes screen_region v v'"
  shows "real_screen v'" "page_directory v' = page_directory v" "\<forall>l < 4. l \<noteq> 0 \<longrightarrow> page v' l = page v l"
proof -
  note sm = changes_same_map [OF assms(2)]
  show "real_screen v'" using assms(1) real_screen_same_map [OF sm] by simp
  show "page_directory v' = page_directory v" by (rule same_map_fields(2) [OF sm])
  have sub: "screen_region \<subseteq> region (pa 0) 4096" by (auto simp: region_def pa_entry VIDEO_MEM_def VIDEO_def)
  have "page v' l = page v l" if "l < 4" "l \<noteq> 0" for l
    unfolding page_def
    by (rule ld_bytes_changes [OF changes_mono [OF assms(2) sub] page_facts(2) [OF assms(1) _ that(1)]]) (use that in simp_all)
  then show "\<forall>l < 4. l \<noteq> 0 \<longrightarrow> page v' l = page v l" by simp
qed

lemma console_step:
  assumes "ed_ok k" and "keeps_console f (mach k) con"
  shows "\<exists>m'. on_mach f k = Some (k\<lparr>mach := m'\<rparr>) \<and> real_screen (vm m') \<and> displays m' con \<and>
    page_directory (vm m') = page_directory (kvm k) \<and> (\<forall>l < 4. l \<noteq> 0 \<longrightarrow> page (vm m') l = page (kvm k) l) \<and>
    changes screen_region (kvm k) (vm m')"
proof -
  have r: "real_screen (kvm k)" using assms(1) by (simp add: ed_ok_def)
  obtain m' where m': "f (mach k) = Some m'" "displays m' con" "changes screen_region (kvm k) (vm m')"
    using assms(2) by (auto simp: keeps_console_def console_frame_def)
  with screen_changes [OF r m'(3)] show ?thesis by (auto simp: on_mach_def)
qed

lemma con_putc_pos: "snd con < 2000 \<Longrightarrow> min (snd con + 1) 1920 \<le> snd (con_putc c con)"
  by (cases con) (auto simp: con_putc_def con_wrap_def)

lemma displays_cursor:
  assumes "displays m con"
  shows "0 \<le> screen_x m" "screen_x m < 80" "0 \<le> screen_y m" "screen_y m < 25" "int (snd con) = 80 * screen_y m + screen_x m"
    "snd con < 2000"
  using assms by (auto simp: displays_def cursor_ok_def NUM_COLS_def NUM_ROWS_def)

text \<open>An edit step: the new state agrees with the abstract one and only the visible session changed.\<close>

definition edit_step :: "kernel \<Rightarrow> kernel option \<Rightarrow> editor \<Rightarrow> bool" where
  "edit_step k r ed \<longleftrightarrow> (\<exists>k'. r = Some k' \<and> ed_ok k' \<and> own_session k k' \<and> edits k' ed)"

lemma edit_stepI:
  assumes "ed_ok k" and "r = Some k'" and "own_session k k'" and "real_screen (kvm k')" and "session_ok (live k')" and "edits k' ed"
  shows "edit_step k r ed"
  using assms ed_ok_own unfolding edit_step_def by blast

lemma ed_fields:
  assumes "ed_ok k" and "edits k (l, h, con)"
  shows "curr_idx k = int (length l)" "num_chars k = int (length l)" "length l \<le> 127" "length l \<le> snd con"
    "length (buf_kb k) = 128" "length (previous_buf k) = 128" "0 \<le> save_x k" "save_x k < 80" "0 \<le> save_y k" "save_y k < 25"
    "0 \<le> previous_num_chars k" "previous_num_chars k \<le> 127" "displays (mach k) con" "l = take (length l) (buf_kb k)"
proof -
  have d: "displays (mach k) con" and l: "line k = l" using assms(2) by (auto simp: edits_def)
  then show "displays (mach k) con" by simp
  have s: "session_ok (live k)" by (rule ed_ok_live [OF assms(1)])
  then show ci: "curr_idx k = int (length l)" using l by (auto simp: line_def live_def)
  then show "num_chars k = int (length l)" "length l \<le> 127" "length l \<le> snd con"
    "length (buf_kb k) = 128" "length (previous_buf k) = 128" "0 \<le> save_x k" "save_x k < 80" "0 \<le> save_y k" "save_y k < 25"
    "0 \<le> previous_num_chars k" "previous_num_chars k \<le> 127"
    using s displays_cursor(5) [OF d] by (auto simp: live_def)
  show "l = take (length l) (buf_kb k)" using l ci by (simp add: line_def)
qed

lemma put_key_step:
  assumes "ed_ok k" and "edits k (l, h, con)" and "length l < 127"
  shows "edit_step k (put_key c k) (l @ [c], h, con_putc c con)"
proof -
  note f = ed_fields [OF assms(1,2)]
  obtain m' where m': "on_mach (putc c) k = Some (k\<lparr>mach := m'\<rparr>)" "real_screen (vm m')" "displays m' (con_putc c con)"
    "page_directory (vm m') = page_directory (kvm k)" "\<forall>l < 4. l \<noteq> 0 \<longrightarrow> page (vm m') l = page (kvm k) l"
    "changes screen_region (kvm k) (vm m')"
    using console_step [OF assms(1) putc_keeps [OF f(13)], of c] by blast
  have p: "length l + 1 \<le> snd (con_putc c con)"
    using con_putc_pos [OF displays_cursor(6) [OF f(13)], of c] f(4) assms(3) by simp
  let ?k = "k\<lparr>mach := m', buf_kb := (buf_kb k)[length l := c], curr_idx := int (length l) + 1, num_chars := int (length l) + 1\<rparr>"
  show ?thesis
  proof (rule edit_stepI [OF assms(1)])
    show "put_key c k = Some ?k" using m'(1) f(1,2) assms(3) by (simp add: put_key_def)
    show "own_session k ?k" using own_saved [OF assms(1), of ?k] m'(4-6) by (simp add: own_session_def)
    show "real_screen (kvm ?k)" using m'(2) by simp
    show "session_ok (live ?k)" using displays_cursor [OF m'(3)] f p assms(3) by (simp add: live_def)
    have "take (length l + 1) ((buf_kb k)[length l := c]) = l @ [c]"
      using f(5,14) assms(3) by (simp add: take_Suc_conv_app_nth)
    then show "edits ?k (l @ [c], h, con_putc c con)"
      using m'(3) assms(2) by (simp add: edits_def line_def history_def nat_add_distrib)
  qed
qed

lemma erase_step:
  assumes "ed_ok k" and "edits k (l, h, con)" and "l \<noteq> []"
  shows "edit_step k (do { k \<leftarrow> on_mach backspace k; Some (k\<lparr>curr_idx := curr_idx k - 1, num_chars := num_chars k - 1\<rparr>) })
    (butlast l, h, con_backspace con)"
proof -
  note f = ed_fields [OF assms(1,2)]
  have n: "0 < length l" using assms(3) by simp
  then have pos: "0 < snd con" using f(4) by linarith
  then obtain m' where m': "on_mach backspace k = Some (k\<lparr>mach := m'\<rparr>)" "real_screen (vm m')" "displays m' (con_backspace con)"
    "page_directory (vm m') = page_directory (kvm k)" "\<forall>l < 4. l \<noteq> 0 \<longrightarrow> page (vm m') l = page (kvm k) l"
    "changes screen_region (kvm k) (vm m')"
    using console_step [OF assms(1) backspace_keeps [OF f(13)]] by blast
  let ?k = "k\<lparr>mach := m', curr_idx := int (length l) - 1, num_chars := int (length l) - 1\<rparr>"
  have p: "snd (con_backspace con) = snd con - 1" by (simp add: con_backspace_def split: prod.splits)
  show ?thesis
  proof (rule edit_stepI [OF assms(1)])
    show "(do { k \<leftarrow> on_mach backspace k; Some (k\<lparr>curr_idx := curr_idx k - 1, num_chars := num_chars k - 1\<rparr>) }) = Some ?k"
      using m'(1) f(1,2) by simp
    show "own_session k ?k" using own_saved [OF assms(1), of ?k] m'(4-6) by (simp add: own_session_def)
    show "real_screen (kvm ?k)" using m'(2) by simp
    have "0 \<le> int (length l) - 1" "int (length l) - 1 \<le> 127" "int (length l) - 1 \<le> 80 * screen_y m' + screen_x m'"
      using displays_cursor(5) [OF m'(3)] p pos f(3,4) n by linarith+
    moreover have "live ?k = (screen_x m', screen_y m', int (length l) - 1, int (length l) - 1, save_x k, save_y k,
        previous_num_chars k, previous_buf k, buf_kb k, page (vm m') 0)" by (simp add: live_def)
    ultimately show "session_ok (live ?k)"
      using displays_cursor(1-4) [OF m'(3)] f(5-12) by (simp only: session_ok.simps simp_thms)
    have "take (nat (int (length l) - 1)) (buf_kb k) = butlast l"
    proof -
      have e: "nat (int (length l) - 1) = length l - 1" by linarith
      have "length l \<le> length (buf_kb k)" using f(3,5) by simp
      then show ?thesis unfolding e using butlast_take [of "length l" "buf_kb k"] f(14) by simp
    qed
    then show "edits ?k (butlast l, h, con_backspace con)"
      using m'(3) assms(2) by (simp add: edits_def line_def history_def)
  qed
qed

lemma wipe_step:
  assumes "ed_ok k" and "edits k (l, h, con)"
  shows "edit_step k (do { k \<leftarrow> on_mach clear_kb k; Some (k\<lparr>curr_idx := 0, num_chars := 0, buf_kb := replicate 128 0\<rparr>) })
    ([], h, con_clear con)"
proof -
  note f = ed_fields [OF assms]
  obtain m' where m': "on_mach clear_kb k = Some (k\<lparr>mach := m'\<rparr>)" "real_screen (vm m')" "displays m' (con_clear con)"
    "page_directory (vm m') = page_directory (kvm k)" "\<forall>l < 4. l \<noteq> 0 \<longrightarrow> page (vm m') l = page (kvm k) l"
    "changes screen_region (kvm k) (vm m')"
    using console_step [OF assms(1) clear_kb_keeps [OF displays_cellsI [OF f(13)]]] by blast
  let ?k = "k\<lparr>mach := m', curr_idx := 0, num_chars := 0, buf_kb := replicate 128 0\<rparr>"
  show ?thesis
  proof (rule edit_stepI [OF assms(1)])
    show "(do { k \<leftarrow> on_mach clear_kb k; Some (k\<lparr>curr_idx := 0, num_chars := 0, buf_kb := replicate 128 0\<rparr>) }) = Some ?k"
      using m'(1) by simp
    show "own_session k ?k" using own_saved [OF assms(1), of ?k] m'(4-6) by (simp add: own_session_def)
    show "real_screen (kvm ?k)" using m'(2) by simp
    show "session_ok (live ?k)" using displays_cursor [OF m'(3)] f by (simp add: live_def)
    show "edits ?k ([], h, con_clear con)" using m'(3) assms(2) by (simp add: edits_def line_def history_def)
  qed
qed

lemma enter_step:
  assumes "ed_ok k" and "edits k (l, h, con)"
  shows "edit_step k (enter_key k) ([], if l = [] then h else l, con_putc 10 con)"
    and "enter_key k = Some k' \<Longrightarrow> take (length l + 1) (buf_kb k') = l @ [10] \<and> enter_flag (terminals k' (vt k)) = 0"
proof -
  note f = ed_fields [OF assms]
  let ?k0 = "(if l = [] then k else k\<lparr>previous_buf := lcopy (replicate 128 0) (buf_kb k) (length l), previous_num_chars := int (length l)\<rparr>)
    \<lparr>buf_kb := (buf_kb k)[length l := 10]\<rparr>"
  obtain m' where m': "on_mach (putc 10) k = Some (k\<lparr>mach := m'\<rparr>)" "real_screen (vm m')" "displays m' (con_putc 10 con)"
    "page_directory (vm m') = page_directory (kvm k)" "\<forall>l < 4. l \<noteq> 0 \<longrightarrow> page (vm m') l = page (kvm k) l"
    "changes screen_region (kvm k) (vm m')"
    using console_step [OF assms(1) putc_keeps [OF f(13)], of 10] by blast
  have p: "putc 10 (mach k) = Some m'" using m'(1) by (auto simp: on_mach_def dest: arg_cong [where f = mach])
  let ?k = "upd_term (vt k) (\<lambda>t. t\<lparr>enter_flag := 0\<rparr>) (?k0\<lparr>mach := m'\<rparr>)\<lparr>curr_idx := 0, num_chars := 0\<rparr>"
  have e: "enter_key k = Some ?k"
    using f(1,2,3) p by (simp add: enter_key_def on_mach_def)
  have buf: "take (length l + 1) ((buf_kb k)[length l := 10]) = l @ [10]"
    using f(3,5,14) by (simp add: take_Suc_conv_app_nth)
  show "edit_step k (enter_key k) ([], if l = [] then h else l, con_putc 10 con)"
  proof (rule edit_stepI [OF assms(1) e])
    show "own_session k ?k" using m'(4-6) by (auto simp: own_session_def saved_def)
    show "real_screen (kvm ?k)" using m'(2) by simp
    show "session_ok (live ?k)" using displays_cursor [OF m'(3)] f by (simp add: live_def)
    have "take (length l) (lcopy (replicate 128 0) (buf_kb k) (length l)) = l"
      using f(3,5,14) by (simp add: lcopy_def)
    then show "edits ?k ([], if l = [] then h else l, con_putc 10 con)"
      using m'(3) assms(2) by (simp add: edits_def line_def history_def)
  qed
  show "enter_key k = Some k' \<Longrightarrow> take (length l + 1) (buf_kb k') = l @ [10] \<and> enter_flag (terminals k' (vt k)) = 0"
    using buf unfolding e by auto
qed

text \<open>A beep changes only the trace of port accesses and the interrupt masks.\<close>

lemma beep_frame:
  assumes "f \<noteq> 0"
  shows "\<exists>m'. beep dev f m = Some m' \<and> vm m' = vm m \<and> screen_x m' = screen_x m \<and> screen_y m' = screen_y m"
  using assms by (auto simp: beep_def Let_def inb_def outb_def enable_irq_def)

lemma beep_step:
  assumes "f \<noteq> 0" and "ed_ok k" and "edits k ed"
  shows "edit_step k (on_mach (beep dev f) k) ed"
proof -
  obtain m' where m': "beep dev f (mach k) = Some m'" "vm m' = kvm k" "screen_x m' = screen_x (mach k)" "screen_y m' = screen_y (mach k)"
    using beep_frame [OF assms(1)] by blast
  have l: "live (k\<lparr>mach := m'\<rparr>) = live k" using m' by (simp add: live_def)
  show ?thesis
  proof (rule edit_stepI [OF assms(2)])
    show "on_mach (beep dev f) k = Some (k\<lparr>mach := m'\<rparr>)" using m'(1) by (simp add: on_mach_def)
    show "own_session k (k\<lparr>mach := m'\<rparr>)" using m'(2) by (simp add: own_session_def saved_def)
    show "real_screen (kvm (k\<lparr>mach := m'\<rparr>))" using m'(2) assms(2) by (simp add: ed_ok_def)
    show "session_ok (live (k\<lparr>mach := m'\<rparr>))" unfolding l by (rule ed_ok_live(1) [OF assms(2)])
    show "edits (k\<lparr>mach := m'\<rparr>) ed"
      using m' assms(3) by (auto simp: edits_def line_def history_def displays_def cursor_ok_def)
  qed
qed

lemma edit_step_refl: "ed_ok k \<Longrightarrow> edits k ed \<Longrightarrow> edit_step k (Some k) ed"
  by (simp add: edit_step_def own_session_def)

lemma own_session_trans: "own_session k k1 \<Longrightarrow> own_session k1 k2 \<Longrightarrow> own_session k k2"
  by (auto simp: own_session_def intro: changes_trans)

lemma edit_step_bind:
  assumes "edit_step k r ed" and "\<And>k1. ed_ok k1 \<Longrightarrow> own_session k k1 \<Longrightarrow> edits k1 ed \<Longrightarrow> edit_step k1 (g k1) ed'"
  shows "edit_step k (Option.bind r g) ed'"
  using assms own_session_trans unfolding edit_step_def by fastforce

lemma plain_key_step:
  assumes "ed_ok k" and "edits k (l, h, con)" and "length l < 127"
  shows "edit_step k (plain_key dev c k) (l @ [c], h, con_putc c con)"
proof -
  have t: "f \<noteq> 0" if "key_tone c = Some f" for f
    using that by (auto simp: key_tone_def split: if_splits)
  have "edit_step k (case key_tone c of None \<Rightarrow> Some k | Some f \<Rightarrow> on_mach (beep dev f) k) (l, h, con)"
    using edit_step_refl [OF assms(1,2)] beep_step [OF t assms(1,2)] by (cases "key_tone c") simp_all
  then show ?thesis unfolding plain_key_def by (rule edit_step_bind) (rule put_key_step [OF _ _ assms(3)])
qed

lemma strlen_arr_nul: "strlen_arr bs = None \<longleftrightarrow> 0 \<notin> set bs"
  by (induction bs) auto

lemma strlen_arr_total: "0 \<in> set bs \<Longrightarrow> \<exists>n. strlen_arr bs = Some n"
  by (induction bs) auto

lemma save_cursor_step:
  assumes "ed_ok k" and "edits k ed"
  shows "edit_step k (Some (if n = 0 then k\<lparr>save_x := get_screen_x (mach k), save_y := get_screen_y (mach k)\<rparr> else k)) ed"
proof (cases "n = 0")
  case True
  let ?k = "k\<lparr>save_x := get_screen_x (mach k), save_y := get_screen_y (mach k)\<rparr>"
  have "edit_step k (Some ?k) ed"
  proof (rule edit_stepI [OF assms(1)])
    show "own_session k ?k" by (simp add: own_session_def saved_def)
    show "real_screen (kvm ?k)" using assms(1) by (simp add: ed_ok_def)
    show "session_ok (live ?k)" using ed_ok_live(1) [OF assms(1)] by (simp add: live_def get_screen_x_def get_screen_y_def)
    show "edits ?k ed" using assms(2) by (simp add: edits_def line_def history_def)
  qed simp
  then show ?thesis using True by simp
qed (use edit_step_refl [OF assms] in simp)

lemma char_key_step:
  assumes "ed_ok k" and "edits k (l, h, con)" and "length l < 127" and "0 \<in> set (buf_kb k)"
  shows "edit_step k (char_key dev sc k)
    (if key_char (flag_arr k) sc = 0 then (l, h, con)
     else (l @ [key_char (flag_arr k) sc], h, con_putc (key_char (flag_arr k) sc) con))"
proof -
  obtain n where n: "strlen_arr (buf_kb k) = Some n" using strlen_arr_total [OF assms(4)] by blast
  obtain k1 where k1: "char_key dev sc k = put_char dev sc k1" "ed_ok k1" "own_session k k1" "edits k1 (l, h, con)"
    using save_cursor_step [OF assms(1,2), of n] n by (auto simp: edit_step_def char_key_def)
  have fl: "flag_arr k1 = flag_arr k" using k1(3) by (simp add: own_session_def)
  note steps = put_key_step [OF k1(2,4) assms(3)] plain_key_step [OF k1(2,4) assms(3)] edit_step_refl [OF k1(2,4)]
  have "edit_step k1 (put_char dev sc k1)
    (if key_char (flag_arr k) sc = 0 then (l, h, con)
     else (l @ [key_char (flag_arr k) sc], h, con_putc (key_char (flag_arr k) sc) con))"
    using steps by (simp add: put_char_def key_char_def fl)
  then show ?thesis unfolding k1(1) edit_step_def using own_session_trans [OF k1(3)] by blast
qed

lemma key_action_step:
  assumes "ed_ok k" and "edits k (l, h, con)" and "0 \<in> set (buf_kb k) \<or> key_action dev sc k \<noteq> None" and "flag_key sc (flag_arr k) = None"
    and "\<And>d. decode (flag_arr k) (length l) sc \<noteq> Switch d"
  shows "edit_step k (key_action dev sc k) (edit (decode (flag_arr k) (length l) sc) (l, h, con))"
proof -
  note f = ed_fields [OF assms(1,2)]
  note st = wipe_step [OF assms(1,2)] erase_step [OF assms(1,2)] enter_step(1) [OF assms(1,2)]
    beep_step [OF _ assms(1,2)] edit_step_refl [OF assms(1,2)]
  have i: "curr_idx k \<noteq> 0 \<longleftrightarrow> length l \<noteq> 0" "num_chars k < 127 \<longleftrightarrow> length l < 127" using f(1,2) by auto
  define wipe where "wipe \<longleftrightarrow> flag_arr k ! 2 \<noteq> 0 \<and> sc = 0x26"
  define erase where "erase \<longleftrightarrow> sc = 0x0E \<and> length l \<noteq> 0"
  define switch where "switch \<longleftrightarrow> (sc = 0x3B \<or> sc = 0x3C \<or> sc = 0x3D) \<and> flag_arr k ! 4 \<noteq> 0"
  define typed where "typed \<longleftrightarrow> length l < 127 \<and> 0 < sc \<and> sc < 0x3B"
  let ?c = "key_char (flag_arr k) (unat sc)"
  have d: "decode (flag_arr k) (length l) sc = (if wipe then Wipe else if erase then Erase else if sc = 0x1C then Submit
      else if switch then Switch (ucast (sc - 0x3B)) else if typed \<and> ?c \<noteq> 0 then Put ?c else Ignore)"
    by (simp only: decode_def assms(4) option.case wipe_def erase_def switch_def typed_def conj_assoc)
  have ns: "\<not> switch" if "\<not> wipe" "\<not> erase" "sc \<noteq> 0x1C" using assms(5) [of "ucast (sc - 0x3B)"] that unfolding d by auto
  have e: "l \<noteq> []" if erase using that by (simp add: erase_def)
  have t: "length l < 127" if typed using that by (simp add: typed_def)
  have ka: "key_action dev sc k = (if wipe then on_mach clear_kb k \<bind> (\<lambda>k. Some (k\<lparr>curr_idx := 0, num_chars := 0, buf_kb := replicate 128 0\<rparr>))
      else if erase then on_mach backspace k \<bind> (\<lambda>k. Some (k\<lparr>curr_idx := curr_idx k - 1, num_chars := num_chars k - 1\<rparr>))
      else if sc = 0x1C then enter_key k else if switch then switch_terminal (ucast (sc - 0x3B)) k
      else if typed then char_key dev (unat sc) k else if silence_key sc then on_mach (beep dev 40000) k else Some k)"
    by (simp only: key_action_def i wipe_def erase_def switch_def typed_def)
  have ck: "edit_step k (char_key dev (unat sc) k) (if ?c = 0 then (l, h, con) else (l @ [?c], h, con_putc ?c con))"
    if "\<not> wipe" "\<not> erase" "sc \<noteq> 0x1C" typed
  proof -
    have "0 \<in> set (buf_kb k)"
      using assms(3) ns that strlen_arr_nul [of "buf_kb k"] unfolding ka by (auto simp: char_key_def)
    from char_key_step [OF assms(1,2) t [OF that(4)] this] show ?thesis by simp
  qed
  show ?thesis
    unfolding d ka using st(1,3,4,5) st(2) [OF e] ck ns by simp presburger
qed

section \<open>Entering and leaving the editor\<close>

lemma map_video_twice:
  assumes "real_screen v"
  shows "map_video_page 0 (map_video_page t v) = v" "map_video_page 0 v = v"
proof -
  have "page_table v 0xB8 = 0xB8003" using assms by (simp add: real_screen_def)
  then show "map_video_page 0 (map_video_page t v) = v" "map_video_page 0 v = v"
    by (simp_all add: map_video_page_def set_pte_def VIDEO_MEM_INDEX_def FOUR_KB_def fun_upd_idem)
qed

lemma enter_leave:
  assumes "ed_ok k"
  shows "enter_editor (leave_editor k) = upd_term (vt k) (\<lambda>t. t\<lparr>t_screen_x := word_of_int (screen_x (mach k)),
    t_screen_y := word_of_int (screen_y (mach k))\<rparr>) k"
proof -
  have r: "real_screen (kvm k)" using assms by (simp add: ed_ok_def)
  have u: "uint (word_of_int (screen_x (mach k)) :: u8) = screen_x (mach k)"
    "uint (word_of_int (screen_y (mach k)) :: u8) = screen_y (mach k)"
    using ed_ok_live(1) [OF assms] by (simp_all add: live_def uint_byte)
  have tw: "f(a := x, b := f b) = f(a := x)" if "b \<noteq> a" for f :: "nat \<Rightarrow> terminal_t" and a b x
    using that by auto
  show ?thesis
    using map_video_twice [OF r] u
    by (auto simp: tw enter_editor_def leave_editor_def map_current_video_def Let_def set_screenxy_def get_screen_x_def
        get_screen_y_def upd_term_def set_vm_def)
qed

text \<open>
  The invariant between interrupts: the video page belongs to the scheduled terminal, whose cursor
  is the live one, and the sessions, seen from inside the editor, are in order.
\<close>

definition kb_inv :: "kernel \<Rightarrow> bool" where
  "kb_inv k \<longleftrightarrow> layout (kvm k) \<and> cursor_ok (mach k) \<and> ed_ok (enter_editor k)"

text \<open>Port accesses and the interrupt flag do not matter to the sessions.\<close>

definition quiet :: "bool \<Rightarrow> io_event list \<Rightarrow> kernel \<Rightarrow> kernel" where
  "quiet b es k = upd_mach (\<lambda>m. m\<lparr>iflag := b, io := es\<rparr>) k"

lemma quiet_simps [simp]:
  "session (quiet b es k) = session k" "edits (quiet b es k) ed = edits k ed" "ed_ok (quiet b es k) = ed_ok k"
  "enter_editor (quiet b es k) = quiet b es (enter_editor k)" "leave_editor (quiet b es k) = quiet b es (leave_editor k)"
  "visible (quiet b es k) = visible k" "buf_kb (quiet b es k) = buf_kb k" "flag_arr (quiet b es k) = flag_arr k"
  "terminals (quiet b es k) = terminals k" "cur_terminal (quiet b es k) = cur_terminal k" "kvm (quiet b es k) = kvm k"
  "curr_idx (quiet b es k) = curr_idx k" "num_chars (quiet b es k) = num_chars k" "sys_same k (quiet b es k)"
proof -
  show s: "session (quiet b es k) = session k"
    by (rule ext) (simp add: session_def live_def saved_def quiet_def)
  show "edits (quiet b es k) ed = edits k ed"
    by (auto simp: edits_def line_def history_def displays_def cursor_ok_def quiet_def)
  show "ed_ok (quiet b es k) = ed_ok k" unfolding ed_ok_def s by (simp add: quiet_def)
qed (simp_all add: quiet_def enter_editor_def leave_editor_def map_current_video_def Let_def set_vm_def upd_term_def
      get_screen_x_def get_screen_y_def set_screenxy_def)

lemma kb_inv_quiet [simp]: "kb_inv (quiet b es k) = kb_inv k"
  by (simp add: kb_inv_def) (simp add: quiet_def cursor_ok_def)

lemma eoi_quiet: "upd_mach (send_eoi 1) k = quiet (iflag (mach k)) (Outb 0x20 0x61 # io (mach k)) k"
  by (simp add: send_eoi_def quiet_def outb_def PIC1_COMMAND_def word_le_nat_alt)

lemma enter_editor_fields [simp]:
  "visible (enter_editor k) = visible k" "cur_terminal (enter_editor k) = cur_terminal k" "flag_arr (enter_editor k) = flag_arr k"
  "buf_kb (enter_editor k) = buf_kb k" "curr_idx (enter_editor k) = curr_idx k" "sys_same k (enter_editor k)"
  "curr_process (terminals (enter_editor k) i) = curr_process (terminals k i)" "save_tss (terminals (enter_editor k) i) = save_tss (terminals k i)"
  "num_chars (enter_editor k) = num_chars k" "page_directory (kvm (enter_editor k)) = page_directory (kvm k)"
  "enter_flag (terminals (enter_editor k) i) = enter_flag (terminals k i)"
  by (simp_all add: enter_editor_def Let_def map_video_page_def set_screenxy_def)

lemma leave_editor_fields [simp]:
  "visible (leave_editor k) = visible k" "cur_terminal (leave_editor k) = cur_terminal k" "flag_arr (leave_editor k) = flag_arr k"
  "buf_kb (leave_editor k) = buf_kb k" "curr_idx (leave_editor k) = curr_idx k" "sys_same k (leave_editor k)"
  "curr_process (terminals (leave_editor k) i) = curr_process (terminals k i)" "save_tss (terminals (leave_editor k) i) = save_tss (terminals k i)"
  "page_directory (kvm (leave_editor k)) = page_directory (kvm k)"
  "enter_flag (terminals (leave_editor k) i) = enter_flag (terminals k i)"
  by (simp_all add: leave_editor_def map_current_video_def Let_def map_video_page_def set_screenxy_def)

lemma editor_kvm:
  "kvm (enter_editor k) = map_video_page 0 (kvm k)"
  "kvm (leave_editor k) = map_video_page (if cur_terminal k = visible k then 0 else 1 + cur_terminal k) (kvm k)"
  by (simp_all add: enter_editor_def leave_editor_def map_current_video_def Let_def set_screenxy_def)

text \<open>
  What a key press may change apart from the line editor and the terminals' cursors: the mapping of
  the video page, and the screen behind it.
\<close>

definition key_frame :: "kernel \<Rightarrow> kernel \<Rightarrow> bool" where
  "key_frame k k' \<longleftrightarrow> sys_same k k' \<and> cur_terminal k' = cur_terminal k \<and> visible k' = visible k \<and>
     (\<forall>i. curr_process (terminals k' i) = curr_process (terminals k i) \<and> save_tss (terminals k' i) = save_tss (terminals k i)) \<and>
     (kvm k' = kvm k \<or> (\<exists>v. changes screen_region (map_video_page 0 (kvm k)) v \<and>
        kvm k' = map_video_page (if cur_terminal k = visible k then 0 else 1 + cur_terminal k) v))"

lemma key_frames_shown:
  assumes "key_frame\<^sup>*\<^sup>* k k'" and "cur_terminal k = visible k" and "real_screen (kvm k)"
  shows "changes screen_region (kvm k) (kvm k') \<and> real_screen (kvm k') \<and> sys_same k k' \<and> cur_terminal k' = cur_terminal k \<and>
    visible k' = visible k \<and> (\<forall>i. curr_process (terminals k' i) = curr_process (terminals k i))"
  using assms(1)
proof (induction rule: rtranclp_induct)
  case base
  then show ?case using assms(3) by simp
next
  case (step k1 k2)
  have r: "real_screen (kvm k1)" and c: "cur_terminal k1 = visible k1" using step.IH assms(2) by simp_all
  have "changes screen_region (kvm k1) (kvm k2) \<and> real_screen (kvm k2)"
  proof (cases "kvm k2 = kvm k1")
    case False
    then obtain v where v: "changes screen_region (kvm k1) v" "kvm k2 = map_video_page 0 v"
      using step.hyps(2) c map_video_twice(2) [OF r] by (auto simp: key_frame_def)
    have "real_screen v" using r real_screen_same_map [OF changes_same_map [OF v(1)]] by simp
    then show ?thesis using v map_video_twice(2) [of v] by simp
  qed (use r in simp)
  then show ?case using step.IH step.hyps(2) by (auto simp: key_frame_def intro: changes_trans)
qed

lemma enter_leave_sessions:
  assumes "ed_ok k"
  shows "ed_ok (enter_editor (leave_editor k))" "i < 3 \<Longrightarrow> session (enter_editor (leave_editor k)) i = session k i"
    "edits (enter_editor (leave_editor k)) ed = edits k ed"
proof -
  have s: "session (enter_editor (leave_editor k)) i = session k i" for i
    unfolding enter_leave [OF assms] by (simp add: session_def live_def saved_def)
  then show "session (enter_editor (leave_editor k)) i = session k i" .
  show "ed_ok (enter_editor (leave_editor k))"
    using assms s unfolding ed_ok_def unfolding enter_leave [OF assms] by simp
  show "edits (enter_editor (leave_editor k)) ed = edits k ed"
    unfolding enter_leave [OF assms] by (simp add: edits_def line_def history_def)
qed

lemma leave_editor_inv:
  assumes "ed_ok k"
  shows "kb_inv (leave_editor k)"
proof -
  have l: "layout (kvm k)" and c: "ct k < 3" using assms by (simp_all add: ed_ok_def real_screen_def)
  have "1 + cur_terminal k < 4" "(0 :: u8) < 4" using c by (auto simp: word_less_nat_alt unat_word_ariths)
  then have "layout (kvm (leave_editor k))"
    using map_video_page_layout [OF l] by (simp add: leave_editor_def map_current_video_def Let_def set_screenxy_def)
  moreover have "cursor_ok (mach (leave_editor k))"
  proof -
    have "session_ok (session k (ct k))" using assms c by (simp add: ed_ok_def)
    moreover have "session_ok (live k)" by (rule ed_ok_live [OF assms])
    ultimately show ?thesis
      by (auto simp: leave_editor_def map_current_video_def Let_def set_screenxy_def session_def saved_def live_def cursor_ok_def
        NUM_COLS_def NUM_ROWS_def get_screen_x_def get_screen_y_def uint_byte split: if_splits)
  qed
  ultimately show ?thesis using enter_leave_sessions(1) [OF assms] by (simp add: kb_inv_def)
qed

abbreviation scan_code :: "device \<Rightarrow> kernel \<Rightarrow> u32" where
  "scan_code dev k \<equiv> ucast (dev (io (mach k)) 0x60)"

lemma handler_unfold:
  "keyboard_handler dev stack k =
     (let q = quiet False (Inb 0x60 # io (mach k)) k in
      case flag_key (scan_code dev k) (flag_arr k) of
        Some flags \<Rightarrow> Some (upd_mach (send_eoi 1) (q\<lparr>flag_arr := flags\<rparr>))
      | None \<Rightarrow> map_option (upd_mach (send_eoi 1))
          (if scan_code dev k = 0x48 then up_key stack q
           else map_option leave_editor (key_action dev (scan_code dev k) (enter_editor q))))"
  by (auto simp: keyboard_handler_def quiet_def cli_def inb_def Let_def map_option_case split: option.splits Option.bind_splits)

lemma flags_only:
  assumes "kb_inv k" and "length flags = 5"
  shows "kb_inv (k\<lparr>flag_arr := flags\<rparr>)" "enter_editor (k\<lparr>flag_arr := flags\<rparr>) = enter_editor k\<lparr>flag_arr := flags\<rparr>"
    "session (k\<lparr>flag_arr := flags\<rparr>) = session k" "edits (k\<lparr>flag_arr := flags\<rparr>) ed = edits k ed"
proof -
  show e: "enter_editor (k\<lparr>flag_arr := flags\<rparr>) = enter_editor k\<lparr>flag_arr := flags\<rparr>" for k
    by (simp add: enter_editor_def Let_def set_vm_def upd_term_def)
  show s: "session (k\<lparr>flag_arr := flags\<rparr>) = session k" for k
    by (rule ext) (simp add: session_def live_def saved_def)
  show "edits (k\<lparr>flag_arr := flags\<rparr>) ed = edits k ed" by (simp add: edits_def line_def history_def)
  show "kb_inv (k\<lparr>flag_arr := flags\<rparr>)"
    using assms s unfolding kb_inv_def e ed_ok_def by simp
qed

lemma flag_key_length: "flag_key sc flags = Some flags' \<Longrightarrow> length flags' = length flags"
  by (auto simp: flag_key_def split: if_splits)

text \<open>The handler on a key that is neither Up nor a switch of terminals.\<close>

lemma handler_edits:
  assumes inv: "kb_inv k" and ed: "edits (enter_editor k) (l, h, con)" and nul: "0 \<in> set (buf_kb k) \<or> keyboard_handler dev stack k \<noteq> None"
    and up: "scan_code dev k \<noteq> 0x48" and op: "op = decode (flag_arr k) (length l) (scan_code dev k)" and sw: "\<And>d. op \<noteq> Switch d"
  shows "\<exists>k'. keyboard_handler dev stack k = Some k' \<and> kb_inv k' \<and> edits (enter_editor k') (edit op (l, h, con)) \<and>
    visible k' = visible k \<and> cur_terminal k' = cur_terminal k \<and> page_directory (kvm k') = page_directory (kvm k) \<and>
    flag_arr k' = (case op of Flags f \<Rightarrow> f | _ \<Rightarrow> flag_arr k) \<and>
    (\<forall>i < 3. i \<noteq> vt k \<longrightarrow> session (enter_editor k') i = session (enter_editor k) i) \<and> key_frame k k'"
proof -
  define q where "q = quiet False (Inb 0x60 # io (mach k)) k"
  have sq: "sys_same k q" "terminals q = terminals k" "kvm q = kvm k" by (simp_all add: q_def)
  have q: "kb_inv q" "edits (enter_editor q) (l, h, con)" "flag_arr q = flag_arr k" "visible q = visible k" "buf_kb q = buf_kb k"
    "session (enter_editor q) = session (enter_editor k)" "cur_terminal q = cur_terminal k"
    "page_directory (kvm q) = page_directory (kvm k)"
    using inv ed by (simp_all add: q_def)
  show ?thesis
  proof (cases "flag_key (scan_code dev k) (flag_arr k)")
    case (Some flags)
    then have o: "op = Flags flags" by (simp add: op decode_def)
    have "length flags = 5" using flag_key_length [OF Some] inv by (simp add: kb_inv_def ed_ok_def)
    note fo = flags_only [OF q(1) this]
    have fo': "session (enter_editor q\<lparr>flag_arr := flags\<rparr>) = session (enter_editor q)"
      "edits (enter_editor q\<lparr>flag_arr := flags\<rparr>) (l, h, con)"
      using q(2) by (auto simp: session_def live_def saved_def edits_def line_def history_def)
    have "keyboard_handler dev stack k = Some (upd_mach (send_eoi 1) (q\<lparr>flag_arr := flags\<rparr>))"
      using Some by (simp add: handler_unfold q_def [symmetric])
    then show ?thesis unfolding eoi_quiet using fo(1,2) fo' q(4-8) o sq by (simp add: key_frame_def)
  next
    case None
    have eq: "ed_ok (enter_editor q)" using q(1) by (simp add: kb_inv_def)
    have "edit_step (enter_editor q) (key_action dev (scan_code dev k) (enter_editor q)) (edit op (l, h, con))"
    proof -
      have "0 \<in> set (buf_kb k) \<or> key_action dev (scan_code dev k) (enter_editor q) \<noteq> None"
        using nul None up by (auto simp: handler_unfold q_def [symmetric])
      then show ?thesis unfolding op using key_action_step [OF eq q(2), of dev "scan_code dev k"] None q(3,5) sw op by simp
    qed
    then obtain k1 where k1: "key_action dev (scan_code dev k) (enter_editor q) = Some k1" "ed_ok k1"
      "own_session (enter_editor q) k1" "edits k1 (edit op (l, h, con))" by (auto simp: edit_step_def)
    have h: "keyboard_handler dev stack k = Some (upd_mach (send_eoi 1) (leave_editor k1))"
      using None up k1(1) by (simp add: handler_unfold q_def [symmetric])
    have o: "(case op of Flags f \<Rightarrow> f | _ \<Rightarrow> flag_arr k) = flag_arr k"
      using None by (simp add: op decode_def)
    have s: "session (enter_editor (leave_editor k1)) i = session (enter_editor k) i" if "i < 3" "i \<noteq> vt k" for i
    proof -
      have v: "visible k1 = visible k" "saved k1 i = saved (enter_editor q) i"
        using k1(3) that q(4) by (auto simp: own_session_def)
      have "session k1 i = saved (enter_editor q) i" using that v by (simp add: session_def)
      also have "\<dots> = session (enter_editor q) i" using that q(4) by (simp add: session_def)
      finally show ?thesis using enter_leave_sessions(2) [OF k1(2) that(1)] q(6) by simp
    qed
    have "key_frame k (leave_editor k1)"
      using k1(3) q(4,7) sq unfolding key_frame_def own_session_def editor_kvm
      by (intro conjI disjI2 exI [of _ "kvm k1"]) simp_all
    then have f: "key_frame k (quiet b es (leave_editor k1))" for b es by (simp add: key_frame_def)
    show ?thesis
      unfolding h eoi_quiet o
      using leave_editor_inv [OF k1(2)] enter_leave_sessions(3) [OF k1(2)] k1(3,4) s q(3,4,7,8) f
      by (simp add: own_session_def)
  qed
qed

text \<open>The handler on Alt with F1, F2 or F3.\<close>

lemma switch_terminal_flags: "switch_terminal d k = Some k' \<Longrightarrow> flag_arr k' = flag_arr k"
  by (auto simp: switch_terminal_def save_terminal_def restore_terminal_def Let_def on_vm_def set_curr_idx_def set_num_chars_def
      set_save_x_def set_save_y_def set_previous_num_chars_def set_previous_buf_def split: if_splits Option.bind_splits)

lemma handler_switches:
  assumes inv: "kb_inv k" and op: "decode (flag_arr k) len (scan_code dev k) = Switch d"
  shows "\<exists>k'. keyboard_handler dev stack k = Some k' \<and> kb_inv k' \<and> visible k' = d \<and> unat d < 3 \<and>
    cur_terminal k' = cur_terminal k \<and> (\<forall>i < 3. session (enter_editor k') i = session (enter_editor k) i) \<and>
    (\<exists>b es b' es' k1. switch_terminal d (enter_editor (quiet b es k)) = Some k1 \<and> k' = quiet b' es' (leave_editor k1))"
proof -
  define q where "q = quiet False (Inb 0x60 # io (mach k)) k"
  let ?sc = "scan_code dev k"
  have q: "kb_inv q" "flag_arr q = flag_arr k" "session (enter_editor q) = session (enter_editor k)" "cur_terminal q = cur_terminal k"
    using inv by (simp_all add: q_def)
  have n: "flag_key ?sc (flag_arr k) = None" and c: "?sc = 0x3B \<or> ?sc = 0x3C \<or> ?sc = 0x3D" "flag_arr k ! 4 \<noteq> 0" "d = ucast (?sc - 0x3B)"
    using op by (auto simp: decode_def split: option.splits if_splits)
  have d: "unat d < 3" using c(1,3) by auto
  have eq: "ed_ok (enter_editor q)" using q(1) by (simp add: kb_inv_def)
  obtain k1 where k1: "switch_terminal d (enter_editor q) = Some k1" "screens_ok k1" "visible k1 = d"
    "\<forall>i < 3. session k1 i = session (enter_editor q) i" "cur_terminal k1 = cur_terminal k"
    using switch_terminal_ok [OF ed_ok_live(2) [OF eq] d] q(4) by auto
  have fl: "flag_arr k1 = flag_arr k" using switch_terminal_flags [OF k1(1)] q(2) by simp
  have e1: "ed_ok k1" using k1 eq d fl q(2,4) by (simp add: ed_ok_def screens_ok_def)
  have a: "key_action dev ?sc (enter_editor q) = Some k1"
    using c(1,2) q(2) k1(1) c(3) by (auto simp: key_action_def)
  have "?sc \<noteq> 0x48" using c(1) by auto
  then have h: "keyboard_handler dev stack k = Some (upd_mach (send_eoi 1) (leave_editor k1))"
    using n a by (simp add: handler_unfold q_def [symmetric])
  have "\<exists>b es b' es' k2. switch_terminal d (enter_editor (quiet b es k)) = Some k2 \<and> quiet x y (leave_editor k1) = quiet b' es' (leave_editor k2)" for x y
    using k1(1) unfolding q_def by blast
  then show ?thesis
    unfolding h eoi_quiet using leave_editor_inv [OF e1] enter_leave_sessions(2) [OF e1] k1(3,4,5) q(3) d by simp
qed

section \<open>Typing a line\<close>

lemma put_key_frame:
  assumes "put_key c k = Some k'"
  shows "terminals k' = terminals k" "curr_idx k \<noteq> 127 \<Longrightarrow> buf_kb k' ! 127 = buf_kb k ! 127"
  using assms by (auto simp: put_key_def on_mach_def split: if_splits Option.bind_splits)

lemma char_key_frame:
  assumes "char_key dev sc k = Some k'"
  shows "terminals k' = terminals k" "curr_idx k \<noteq> 127 \<Longrightarrow> buf_kb k' ! 127 = buf_kb k ! 127"
proof -
  have p: "terminals k' = terminals k \<and> (curr_idx k \<noteq> 127 \<longrightarrow> buf_kb k' ! 127 = buf_kb k ! 127)"
    if pk: "plain_key dev c k = Some k'" for c k
  proof -
    obtain m where "put_key c (k\<lparr>mach := m\<rparr>) = Some k'"
    proof (cases "key_tone c")
      case None
      then show ?thesis using pk that [of "mach k"] by (simp add: plain_key_def)
    next
      case (Some f)
      then show ?thesis using pk that by (auto simp: plain_key_def on_mach_def split: Option.bind_splits)
    qed
    from put_key_frame [OF this] show ?thesis by simp
  qed
  have "terminals k' = terminals k \<and> (curr_idx k \<noteq> 127 \<longrightarrow> buf_kb k' ! 127 = buf_kb k ! 127)"
    if "put_char dev sc k = Some k'" for k
    using that p [of _ k] put_key_frame [of _ k k'] by (auto simp: put_char_def split: if_splits)
  from this [of "if the (strlen_arr (buf_kb k)) = 0 then k\<lparr>save_x := get_screen_x (mach k), save_y := get_screen_y (mach k)\<rparr> else k"]
  show "terminals k' = terminals k" "curr_idx k \<noteq> 127 \<Longrightarrow> buf_kb k' ! 127 = buf_kb k ! 127"
    using assms by (auto simp: char_key_def split: Option.bind_splits if_splits)
qed

lemma handler_put_frame:
  assumes "keyboard_handler dev stack k = Some k'" and "decode (flag_arr k) n (scan_code dev k) = Put c"
    and "curr_idx k = int n" and "num_chars k = int n"
  shows "enter_flag (terminals k' i) = enter_flag (terminals k i)" "buf_kb k' ! 127 = buf_kb k ! 127"
proof -
  define q where "q = quiet False (Inb 0x60 # io (mach k)) k"
  let ?sc = "scan_code dev k"
  have d: "flag_key ?sc (flag_arr k) = None" "\<not> (flag_arr k ! 2 \<noteq> 0 \<and> ?sc = 0x26)" "\<not> (?sc = 0x0E \<and> n \<noteq> 0)" "?sc \<noteq> 0x1C"
    "\<not> ((?sc = 0x3B \<or> ?sc = 0x3C \<or> ?sc = 0x3D) \<and> flag_arr k ! 4 \<noteq> 0)" "n < 127" "0 < ?sc" "?sc < 0x3B"
    using assms(2) by (auto simp: decode_def split: option.splits if_splits)
  have "?sc \<noteq> 0x48" using d(8) by auto
  then obtain k1 where k1: "key_action dev ?sc (enter_editor q) = Some k1" "k' = upd_mach (send_eoi 1) (leave_editor k1)"
    using assms(1) d(1) by (auto simp: handler_unfold Let_def q_def [symmetric])
  have "key_action dev ?sc (enter_editor q) = char_key dev (unat ?sc) (enter_editor q)"
    using d assms(3,4) by (auto simp: key_action_def q_def)
  with k1(1) have "char_key dev (unat ?sc) (enter_editor q) = Some k1" by simp
  note fr = char_key_frame [OF this]
  show "enter_flag (terminals k' i) = enter_flag (terminals k i)" "buf_kb k' ! 127 = buf_kb k ! 127"
    using fr d(6) assms(3) unfolding k1(2) eoi_quiet by (simp_all add: q_def)
qed

text \<open>A keyboard controller that answers \<open>sc\<close>, and the interrupt it raises.\<close>

definition kbd :: "u8 \<Rightarrow> device" where
  "kbd sc es port = (if port = 0x60 then sc else 0)"

definition key_irq :: "(nat \<Rightarrow> u32) \<Rightarrow> u8 \<Rightarrow> kernel \<Rightarrow> kernel option" where
  "key_irq stack sc k = keyboard_handler (kbd sc) stack k"

definition typing :: "int list \<Rightarrow> u8 \<Rightarrow> bool" where
  "typing flags sc \<longleftrightarrow> flag_key (ucast sc) flags = None \<and> \<not> (flags ! 2 \<noteq> 0 \<and> sc = 0x26) \<and> sc \<noteq> 0x0E \<and> sc \<noteq> 0x1C \<and>
     sc < 0x3B \<and> key_char flags (unat sc) \<noteq> 0"

lemma ucast_u8_eq: "(ucast (x :: u8) = (ucast y :: u32)) \<longleftrightarrow> x = y"
  by (metis unsigned_ucast_eq unsigned_word_eqI unat_ucast_u8)

lemma typing_decode:
  assumes "typing flags sc" and "len < 127"
  shows "decode flags len (ucast sc) = Put (key_char flags (unat sc))" "(ucast sc :: u32) \<noteq> 0x48"
proof -
  have u: "unat (ucast sc :: u32) = unat sc" by (simp add: unat_ucast_u8)
  have e: "(ucast sc = (0x26 :: u32)) = (sc = 0x26)" "(ucast sc = (0x0E :: u32)) = (sc = 0x0E)" "(ucast sc = (0x1C :: u32)) = (sc = 0x1C)"
    using ucast_u8_eq [of sc "0x26"] ucast_u8_eq [of sc "0x0E"] ucast_u8_eq [of sc "0x1C"] by simp_all
  have lt: "unat sc < 59" using assms(1) by (simp add: typing_def word_less_nat_alt)
  then have l: "(ucast sc :: u32) < 0x3B" "ucast sc \<noteq> (0x3B :: u32)" "ucast sc \<noteq> (0x3C :: u32)" "ucast sc \<noteq> (0x3D :: u32)"
    "(ucast sc :: u32) \<noteq> 0x48"
    using u by (auto simp: word_less_nat_alt)
  have "unat sc \<noteq> 0"
  proof
    assume "unat sc = 0"
    then have "key_char flags (unat sc) = 0"
      by (simp add: key_char_def char_array_def char_array_shift_cap_def char_array_shift_nocap_def char_array_noshift_cap_def)
    with assms(1) show False by (simp add: typing_def)
  qed
  then have "0 < (ucast sc :: u32)" using u by (simp add: word_less_nat_alt)
  with assms l e u show "decode flags len (ucast sc) = Put (key_char flags (unat sc))" "(ucast sc :: u32) \<noteq> 0x48"
    by (simp_all add: decode_def typing_def)
qed

lemma key_char_nonl:
  assumes "sc < 59"
  shows "key_char flags sc \<noteq> 10"
proof -
  have "10 \<notin> set char_array" "10 \<notin> set char_array_shift_cap" "10 \<notin> set char_array_shift_nocap" "10 \<notin> set char_array_noshift_cap"
    by (simp_all add: char_array_def char_array_shift_cap_def char_array_shift_nocap_def char_array_noshift_cap_def)
  moreover have "length char_array = 59" "length char_array_shift_cap = 59" "length char_array_shift_nocap = 59"
    "length char_array_noshift_cap = 59"
    by (simp_all add: char_array_def char_array_shift_cap_def char_array_shift_nocap_def char_array_noshift_cap_def)
  ultimately show ?thesis using assms by (auto simp: key_char_def) (metis nth_mem)+
qed

text \<open>The terminal waits for a line, of which \<open>l\<close> has been typed.\<close>

definition awaits :: "kernel \<Rightarrow> editor \<Rightarrow> bool" where
  "awaits k ed \<longleftrightarrow> kb_inv k \<and> edits (enter_editor k) ed \<and> buf_kb k ! 127 = 0 \<and> cur_terminal k = visible k \<and>
     enter_flag (terminals k (vt k)) \<noteq> 0"

lemma awaits_nul: "awaits k ed \<Longrightarrow> 0 \<in> set (buf_kb k)"
proof -
  assume a: "awaits k ed"
  obtain l h con where ed: "ed = (l, h, con)" by (cases ed)
  have "length (buf_kb k) = 128"
    using a ed_fields(5) [of "enter_editor k" l h con] by (simp add: awaits_def kb_inv_def ed)
  with a show ?thesis by (auto simp: awaits_def in_set_conv_nth intro!: exI [of _ 127])
qed

lemma type_step:
  assumes "awaits k (l, h, con)" and "typing (flag_arr k) sc" and "length l < 127"
  shows "\<exists>k'. key_irq stack sc k = Some k' \<and> flag_arr k' = flag_arr k \<and> page_directory (kvm k') = page_directory (kvm k) \<and>
    awaits k' (l @ [key_char (flag_arr k) (unat sc)], h, con_putc (key_char (flag_arr k) (unat sc)) con) \<and> key_frame k k' \<and> visible k' = visible k"
proof -
  let ?c = "key_char (flag_arr k) (unat sc)"
  have a: "kb_inv k" "edits (enter_editor k) (l, h, con)" using assms(1) by (simp_all add: awaits_def)
  have sc: "scan_code (kbd sc) k = ucast sc" by (simp add: kbd_def)
  note dec = typing_decode [OF assms(2,3)]
  obtain k' where k': "keyboard_handler (kbd sc) stack k = Some k'" "kb_inv k'"
    "edits (enter_editor k') (edit (Put ?c) (l, h, con))" "visible k' = visible k" "cur_terminal k' = cur_terminal k"
    "page_directory (kvm k') = page_directory (kvm k)" "flag_arr k' = flag_arr k" "key_frame k k'"
    using handler_edits [OF a disjI1 [OF awaits_nul [OF assms(1)]], where dev = "kbd sc" and op = "Put ?c" and stack = stack] dec unfolding sc by auto
  have i: "curr_idx k = int (length l)" "num_chars k = int (length l)"
    using ed_fields(1,2) [OF _ a(2)] a(1) by (simp_all add: kb_inv_def)
  note fr = handler_put_frame [OF k'(1) _ i, unfolded sc, OF dec(1)]
  show ?thesis
    using k' fr assms(1) by (intro exI [of _ k']) (simp add: key_irq_def awaits_def)
qed

lemma spin_types:
  assumes "awaits k (l, h, con)" and "\<forall>sc \<in> set scs. typing (flag_arr k) sc" and "length l + length scs \<le> 127"
  shows "\<exists>k'. terminal_spin (key_irq stack) (scs @ rest) k = terminal_spin (key_irq stack) rest k' \<and>
    flag_arr k' = flag_arr k \<and> page_directory (kvm k') = page_directory (kvm k) \<and> key_frame\<^sup>*\<^sup>* k k' \<and> visible k' = visible k \<and>
    awaits k' (l @ map (\<lambda>sc. key_char (flag_arr k) (unat sc)) scs, h, fold con_putc (map (\<lambda>sc. key_char (flag_arr k) (unat sc)) scs) con)"
  using assms
proof (induction scs arbitrary: k l con)
  case Nil
  then show ?case by (intro exI [of _ k]) simp
next
  case (Cons sc scs)
  obtain k1 where k1: "key_irq stack sc k = Some k1" "flag_arr k1 = flag_arr k" "page_directory (kvm k1) = page_directory (kvm k)"
    "awaits k1 (l @ [key_char (flag_arr k) (unat sc)], h, con_putc (key_char (flag_arr k) (unat sc)) con)" "key_frame k k1" "visible k1 = visible k"
    using type_step [OF Cons.prems(1), of sc stack] Cons.prems(2,3) by auto
  have "terminal_spin (key_irq stack) (sc # scs @ rest) k = terminal_spin (key_irq stack) (scs @ rest) k1"
    using Cons.prems(1) k1(1) by (subst terminal_spin.simps) (auto simp: awaits_def terminal_ready_def)
  moreover obtain k' where "terminal_spin (key_irq stack) (scs @ rest) k1 = terminal_spin (key_irq stack) rest k'"
    "flag_arr k' = flag_arr k1" "page_directory (kvm k') = page_directory (kvm k1)" "key_frame\<^sup>*\<^sup>* k1 k'" "visible k' = visible k1"
    "awaits k' ((l @ [key_char (flag_arr k) (unat sc)]) @ map (\<lambda>sc. key_char (flag_arr k) (unat sc)) scs, h,
      fold con_putc (map (\<lambda>sc. key_char (flag_arr k) (unat sc)) scs) (con_putc (key_char (flag_arr k) (unat sc)) con))"
    using Cons.IH [OF k1(4)] Cons.prems(2,3) k1(2) by auto
  ultimately show ?case using k1(2,3,6) converse_rtranclp_into_rtranclp [of key_frame, OF k1(5)] by (intro exI [of _ k']) simp
qed

lemma handler_submit:
  assumes "kb_inv k" and "edits (enter_editor k) (l, h, con)" and "0 \<in> set (buf_kb k)"
  shows "\<exists>k'. key_irq stack 0x1C k = Some k' \<and> kb_inv k' \<and> visible k' = visible k \<and> cur_terminal k' = cur_terminal k \<and>
    page_directory (kvm k') = page_directory (kvm k) \<and> edits (enter_editor k') ([], if l = [] then h else l, con_putc 10 con) \<and>
    take (length l + 1) (buf_kb k') = l @ [10] \<and> length (buf_kb k') = 128 \<and> enter_flag (terminals k' (vt k)) = 0 \<and>
    flag_arr k' = flag_arr k \<and> key_frame k k'"
proof -
  define q where "q = quiet False (Inb 0x60 # io (mach k)) k"
  have sc: "scan_code (kbd 0x1C) k = 0x1C" by (simp add: kbd_def)
  have fk: "flag_key 0x1C (flag_arr k) = None" by (simp add: flag_key_def)
  have dec: "decode (flag_arr k) n 0x1C = Submit" for n by (simp add: decode_def fk)
  obtain k' where k': "keyboard_handler (kbd 0x1C) stack k = Some k'" "kb_inv k'" "edits (enter_editor k') (edit Submit (l, h, con))"
    "visible k' = visible k" "cur_terminal k' = cur_terminal k" "page_directory (kvm k') = page_directory (kvm k)" "key_frame k k'"
    "flag_arr k' = flag_arr k"
    using handler_edits [OF assms(1,2) disjI1 [OF assms(3)], where dev = "kbd 0x1C" and op = Submit and stack = stack] dec unfolding sc by auto
  have q: "ed_ok (enter_editor q)" "edits (enter_editor q) (l, h, con)" "vt (enter_editor q) = vt k"
    using assms(1,2) by (simp_all add: q_def kb_inv_def)
  obtain k1 where k1: "enter_key (enter_editor q) = Some k1" "k' = upd_mach (send_eoi 1) (leave_editor k1)"
    using k'(1) unfolding handler_unfold Let_def sc fk q_def [symmetric] by (auto simp: key_action_def)
  have b: "length (buf_kb k') = 128" using k'(2,3) ed_fields(5) [of "enter_editor k'"] by (simp add: kb_inv_def)
  have "take (length l + 1) (buf_kb k') = l @ [10]" "enter_flag (terminals k' (vt k)) = 0"
    using enter_step(2) [OF q(1,2) k1(1)] q(3) unfolding k1(2) eoi_quiet by simp_all
  with k' b show ?thesis by (simp add: key_irq_def)
qed

text \<open>Typing a line and Enter, while a process waits for it.\<close>

lemma typed_line:
  assumes "awaits k ([], h, con)" and "\<forall>sc \<in> set scs. typing (flag_arr k) sc" and "length scs \<le> 127"
    and "map (\<lambda>sc. key_char (flag_arr k) (unat sc)) scs = t"
  shows "\<exists>k'. terminal_spin (key_irq stack) (scs @ 0x1C # rest) k = Some (rest, k') \<and> key_frame\<^sup>*\<^sup>* k k' \<and> kb_inv k' \<and>
    page_directory (kvm k') = page_directory (kvm k) \<and>
    edits (enter_editor k') ([], if t = [] then h else t, con_putc 10 (fold con_putc t con)) \<and>
    buf_kb k' = t @ 10 # drop (length t + 1) (buf_kb k') \<and> length (buf_kb k') = 128 \<and> 10 \<notin> set t \<and>
    visible k' = visible k \<and> cur_terminal k' = cur_terminal k \<and> flag_arr k' = flag_arr k"
proof -
  let ?con = "fold con_putc t con"
  obtain k1 where k1: "terminal_spin (key_irq stack) (scs @ 0x1C # rest) k = terminal_spin (key_irq stack) (0x1C # rest) k1"
    "page_directory (kvm k1) = page_directory (kvm k)" "awaits k1 (t, h, ?con)" "key_frame\<^sup>*\<^sup>* k k1" "visible k1 = visible k"
    "flag_arr k1 = flag_arr k"
    using spin_types [OF assms(1,2), of stack "0x1C # rest"] assms(3,4) by auto
  obtain k2 where k2: "key_irq stack 0x1C k1 = Some k2" "kb_inv k2" "visible k2 = visible k1" "cur_terminal k2 = cur_terminal k1"
    "page_directory (kvm k2) = page_directory (kvm k1)" "take (length t + 1) (buf_kb k2) = t @ [10]"
    "length (buf_kb k2) = 128" "enter_flag (terminals k2 (vt k1)) = 0" "key_frame k1 k2"
    "edits (enter_editor k2) ([], if t = [] then h else t, con_putc 10 ?con)" "flag_arr k2 = flag_arr k1"
    using handler_submit [of k1 t h ?con stack] awaits_nul [OF k1(3)] k1(3) by (auto simp: awaits_def)
  have r2: "terminal_ready k2" using k1(3) k2(3,4,8) by (simp add: terminal_ready_def awaits_def)
  have spin: "terminal_spin (key_irq stack) (scs @ 0x1C # rest) k = Some (rest, k2)"
    unfolding k1(1) using k1(3) k2(1) r2
    by (subst terminal_spin.simps) (auto simp: awaits_def terminal_ready_def terminal_spin.simps)
  have b: "buf_kb k2 = t @ 10 # drop (length t + 1) (buf_kb k2)"
    using append_take_drop_id [of "length t + 1" "buf_kb k2"] k2(6) by (metis append.assoc append_Cons append_Nil)
  have nl: "10 \<notin> set t"
  proof
    assume "10 \<in> set t"
    then have "10 \<in> set (map (\<lambda>sc. key_char (flag_arr k) (unat sc)) scs)" using assms(4) by simp
    then obtain sc where "sc \<in> set scs" "key_char (flag_arr k) (unat sc) = 10" by auto
    with assms(2) key_char_nonl [of "unat sc" "flag_arr k"] show False by (auto simp: typing_def word_less_nat_alt)
  qed
  have "cur_terminal k1 = cur_terminal k" using assms(1) k1(3,5) by (simp add: awaits_def)
  with spin b nl k2 k1(2,5,6) rtranclp.rtrancl_into_rtrancl [OF k1(4) k2(9)] show ?thesis
    by (intro exI [of _ k2]) simp
qed

lemma own_session_sessions:
  assumes "own_session k k'" and "i < 3" and "i \<noteq> vt k"
  shows "session k' i = session k i"
  using assms by (simp add: own_session_def session_def)

text \<open>Backspace at the origin stores below the video page, which is not present.\<close>

lemma backspace_origin_faults:
  assumes "layout (vm m)" and "screen_x m = 0" and "screen_y m = 0"
  shows "backspace m = None"
proof -
  have d: "drop_bit 12 (0xB7FFE :: u32) = 0xB7" "unat (0xB7 :: u32) = 0xB7" by simp_all
  have "page_table (vm m) 0xB7 = 0xB7002" using assms(1) by (simp add: layout_def)
  then have "\<not> bit (page_table (vm m) (unat (0xB7 :: u32))) 0" by simp
  then have "translate (vm m) 0xB7FFE = None" using translate_low_eq [OF assms(1) d(1)] by simp
  then show ?thesis using assms(2,3) by (simp add: backspace_def put_cell_def st8_def cell_addr_def VIDEO_def)
qed

lemma flag_key_irq:
  assumes "flag_key (ucast sc) (flag_arr k) = Some flags"
  shows "\<exists>k'. key_irq stack sc k = Some k' \<and> flag_arr k' = flags"
  using assms by (simp add: key_irq_def handler_unfold Let_def kbd_def)

section \<open>The Up key\<close>

lemma up_loop_ends:
  assumes "displays m con" and "0 \<le> sy" and "sy \<le> screen_y m"
  shows "\<exists>m' j. up_loop sx sy m = Some m' \<and> displays m' ((con_backspace ^^ j) con) \<and> console_frame m m' \<and>
    (screen_x m' = sx \<or> screen_y m' = sy) \<and> sy \<le> screen_y m'"
  using assms
proof (induction "snd con" arbitrary: m con rule: less_induct)
  case less
  note c = displays_cursor [OF less.prems(1)]
  show ?case
  proof (cases "screen_x m \<noteq> sx \<and> screen_y m \<noteq> sy")
    case False
    have u: "up_loop sx sy m = Some m" using False by (subst up_loop.simps) (auto simp: get_screen_x_def get_screen_y_def)
    show ?thesis
      using u False less.prems by (intro exI [of _ m] exI [of _ 0]) auto
  next
    case True
    then have "sy < screen_y m" using less.prems(3) by simp
    then have p: "0 < snd con" and big: "80 * (sy + 1) \<le> int (snd con)" using c less.prems(2) by auto
    obtain m1 where m1: "backspace m = Some m1" "displays m1 (con_backspace con)" "console_frame m m1"
      using backspace_keeps [OF less.prems(1) p] by (auto simp: keeps_console_def)
    have q: "snd (con_backspace con) = snd con - 1" by (simp add: con_backspace_def split: prod.splits)
    have "sy \<le> screen_y m1" using displays_cursor [OF m1(2)] big q by simp
    from less.hyps [OF _ m1(2) less.prems(2) this] p q obtain m' j where m': "up_loop sx sy m1 = Some m'"
      "displays m' ((con_backspace ^^ j) (con_backspace con))" "console_frame m1 m'" "screen_x m' = sx \<or> screen_y m' = sy"
      "sy \<le> screen_y m'" by auto
    have "up_loop sx sy m = Some m'"
      using True m1(1) m'(1) by (subst up_loop.simps) (simp add: get_screen_x_def get_screen_y_def)
    moreover have "displays m' ((con_backspace ^^ Suc j) con)" using m'(2) by (simp add: funpow_swap1)
    ultimately show ?thesis using console_frame_trans [OF m1(3) m'(3)] m'(4,5) by blast
  qed
qed

lemma fold_putc_pos: "snd con < 2000 \<Longrightarrow> min (length bs) 1920 \<le> snd (fold con_putc bs con) \<and> snd (fold con_putc bs con) < 2000"
proof (induction bs rule: rev_induct)
  case (snoc b bs)
  then have i: "min (length bs) 1920 \<le> snd (fold con_putc bs con)" "snd (fold con_putc bs con) < 2000" by auto
  have "snd (con_putc b (fold con_putc bs con)) < 2000"
    using i(2) by (auto simp: con_putc_def con_wrap_def split: prod.splits)
  with con_putc_pos [OF i(2), of b] i(1) show ?case by simp
qed simp

lemma up_key_step:
  assumes "ed_ok (enter_editor k)" and "edits (enter_editor k) (l, h, con)" and "save_y (enter_editor k) \<le> screen_y (mach (enter_editor k))"
    and "previous_buf k = h @ 0 # rest" and "0 \<notin> set h" and "0x25 \<notin> set h" and "length h \<le> 127"
    and "previous_num_chars k = int (length h)"
  shows "\<exists>k1 j. up_key stack k = Some (leave_editor k1) \<and> ed_ok k1 \<and> own_session (enter_editor k) k1 \<and>
    edits k1 (h, h, fold con_putc h ((con_backspace ^^ j) con))"
proof -
  let ?e = "enter_editor k"
  note f = ed_fields [OF assms(1,2)]
  have en: "previous_buf ?e = h @ 0 # rest" "previous_num_chars ?e = int (length h)"
    using assms(4,8) by (simp_all add: enter_editor_def Let_def)
  obtain m1 j where m1: "up_loop (save_x ?e) (save_y ?e) (mach ?e) = Some m1" "displays m1 ((con_backspace ^^ j) con)"
    "console_frame (mach ?e) m1"
    using up_loop_ends [OF f(13,9) assms(3), of "save_x ?e"] by auto
  let ?con = "(con_backspace ^^ j) con"
  obtain m2 where m2: "run_ops putc h m1 = Some m2" "displays m2 (fold con_putc h ?con)" "console_frame m1 m2"
    using pc.run_displays [OF m1(2), of h] by auto
  have r: "real_screen (kvm ?e)" and ch: "changes screen_region (kvm ?e) (vm m2)"
    using assms(1) console_frame_trans [OF m1(3) m2(3)] by (simp_all add: ed_ok_def console_frame_def)
  note s = screen_changes [OF r ch]
  let ?k = "?e\<lparr>buf_kb := h @ 0 # rest, num_chars := int (length h), curr_idx := int (length h), mach := m2\<rparr>"
  have len: "length (h @ 0 # rest) = 128" using f(6) en by simp
  have up: "up_key stack k = Some (leave_editor ?k)"
    using m1(1) m2(1) en len f(5) printf_arr_plain [OF assms(5,6), of stack rest m1]
    by (simp add: up_key_def on_mach_def Let_def)
  have own: "own_session ?e ?k" using own_saved [OF assms(1), of ?k] s(2,3) ch by (simp add: own_session_def)
  have pos: "length h \<le> snd (fold con_putc h ?con)"
    using fold_putc_pos [OF displays_cursor(6) [OF m1(2)], of h] assms(7) by simp
  have "session_ok (live ?k)"
    using displays_cursor [OF m2(2)] f pos len en assms(7) by (simp add: live_def)
  from ed_ok_own [OF assms(1) own _ this] s(1) have "ed_ok ?k" by simp
  moreover have "edits ?k (h, h, fold con_putc h ?con)"
    using m2(2) en by (simp add: edits_def line_def history_def)
  ultimately show ?thesis using up own by blast
qed

section \<open>Properties\<close>

text \<open>
  C33: the keyboard handler refines a line editor.  In a kernel whose sessions are in order, on
  every scan code but Up, the handler returns without a fault and keeps the invariant.  It does
  to the visible terminal's line, history and display what the abstract editor does for the key,
  in the table the Shift and Caps flags select, and leaves the sessions of all other terminals as
  they are, cursor and page included, whichever terminal is scheduled; Alt with a function key
  changes the visible terminal and no session.
\<close>

theorem keyboard_refines_editor:
  assumes "kb_inv k" and "edits (enter_editor k) (l, h, con)" and "0 \<in> set (buf_kb k)" and "scan_code dev k \<noteq> 0x48"
  shows "\<exists>k'. keyboard_handler dev stack k = Some k' \<and> kb_inv k' \<and> cur_terminal k' = cur_terminal k \<and>
    (case decode (flag_arr k) (length l) (scan_code dev k) of
       Switch d \<Rightarrow> visible k' = d \<and> (\<forall>i < 3. session (enter_editor k') i = session (enter_editor k) i)
     | op \<Rightarrow> visible k' = visible k \<and> edits (enter_editor k') (edit op (l, h, con)) \<and>
             flag_arr k' = (case op of Flags f \<Rightarrow> f | _ \<Rightarrow> flag_arr k) \<and>
             (\<forall>i < 3. i \<noteq> vt k \<longrightarrow> session (enter_editor k') i = session (enter_editor k) i))"
proof (cases "decode (flag_arr k) (length l) (scan_code dev k)")
  case (Switch d)
  then show ?thesis using handler_switches [OF assms(1), where len = "length l" and dev = dev and d = d and stack = stack] by auto
qed (use handler_edits [OF assms(1,2) disjI1 [OF assms(3)], where dev = dev and stack = stack and
      op = "decode (flag_arr k) (length l) (scan_code dev k)"] assms(4) in auto)

definition sample_kb :: kernel where
  "sample_kb = (zero_kernel (flat_machine (\<lambda>_. 0)\<lparr>vm := sample_vmem\<rparr>) 0x7FFFFC 0x7FF000 0x500000)
     \<lparr>terminals := (\<lambda>i. zero_terminal\<lparr>video_buffer := pa (Suc i), enter_flag := 1\<rparr>)\<rparr>"

lemma sample_kb_screen: "real_screen (kvm sample_kb)" "map_video_page 0 (kvm sample_kb) = kvm sample_kb"
proof -
  have "page_table sample_vmem 0xB8 = 0xB8003"
    by (simp add: sample_vmem_def map_page_def init_paging_def Let_def enable_paging_def init_tables_fields
        VIDEO_MEM_INDEX_def FOUR_KB_def)
  then show r: "real_screen (kvm sample_kb)"
    using sample_vmem_layout(2) by (simp add: real_screen_def sample_kb_def)
  show "map_video_page 0 (kvm sample_kb) = kvm sample_kb" by (rule map_video_twice(2) [OF r])
qed

lemma sample_kb_inv: "kb_inv sample_kb" "\<exists>con. edits (enter_editor sample_kb) ([], [], con)" "0 \<in> set (buf_kb sample_kb)"
  "buf_kb sample_kb ! 127 = 0"
proof -
  have fields: "visible sample_kb = 0" "cur_terminal sample_kb = 0" "screen_x (mach sample_kb) = 0" "screen_y (mach sample_kb) = 0"
    "flag_arr sample_kb = replicate 5 0" "curr_idx sample_kb = 0" "num_chars sample_kb = 0" "save_x sample_kb = 0"
    "save_y sample_kb = 0" "previous_num_chars sample_kb = 0" "buf_kb sample_kb = replicate 128 0"
    "previous_buf sample_kb = replicate 128 0"
    "terminals sample_kb = (\<lambda>i. zero_terminal\<lparr>video_buffer := pa (Suc i), enter_flag := 1\<rparr>)"
    by (simp_all add: sample_kb_def zero_kernel_def)
  have e: "enter_editor sample_kb = sample_kb"
    using sample_kb_screen(2)
    by (simp add: enter_editor_def fields Let_def get_screen_x_def get_screen_y_def set_screenxy_def)
      (simp add: sample_kb_def zero_kernel_def upd_term_def zero_terminal_def set_vm_def flat_machine_def fun_eq_iff)
  have "ed_ok sample_kb"
    using sample_kb_screen(1) by (simp add: ed_ok_def fields session_def live_def saved_def zero_terminal_def)
  then show inv: "kb_inv sample_kb"
    using ed_ok_live(3) [of sample_kb] by (simp add: kb_inv_def e ed_ok_def real_screen_def)
  have "mapped (kvm sample_kb) screen_region"
    using screen_mapped [of "kvm sample_kb"] sample_kb_screen(1) by (simp add: real_screen_def)
  then obtain con where "displays (mach sample_kb) con"
    using displays_exists [of "mach sample_kb"] inv by (auto simp: kb_inv_def)
  then show "\<exists>con. edits (enter_editor sample_kb) ([], [], con)"
    unfolding e by (cases con) (auto simp: edits_def line_def history_def fields)
  show "0 \<in> set (buf_kb sample_kb)" "buf_kb sample_kb ! 127 = 0" by (simp_all add: fields)
qed

theorem keyboard_refines_editor_witness:
  "\<exists>k' h con. keyboard_handler (kbd 0x23) (\<lambda>_. 0) sample_kb = Some k' \<and> edits (enter_editor k') ([of_char (CHR ''h'')], h, con)"
proof -
  obtain con where con: "edits (enter_editor sample_kb) ([], [], con)" using sample_kb_inv(2) by blast
  have sc: "scan_code (kbd 0x23) sample_kb = 0x23" by (simp add: kbd_def)
  have d: "decode (flag_arr sample_kb) (length []) 0x23 = Put (of_char (CHR ''h''))"
    by (simp add: decode_def flag_key_def key_char_def char_array_def sample_kb_def zero_kernel_def)
  obtain k' where "keyboard_handler (kbd 0x23) (\<lambda>_. 0) sample_kb = Some k'"
    "edits (enter_editor k') ([of_char (CHR ''h'')], [], con_putc (of_char (CHR ''h'')) con)"
    using keyboard_refines_editor [OF sample_kb_inv(1) con sample_kb_inv(3), of "kbd 0x23" "\<lambda>_. 0"] unfolding sc d
    by auto
  then show ?thesis by blast
qed

text \<open>
  a typed line reaches the program that reads it.  A process of the visible, scheduled
  terminal waits in \<open>terminal_read\<close>; up to 127 character keys arrive and then Enter.  The call
  returns after Enter, with the later interrupts still to come, and delivers the command word of
  the line that was typed (behind leading spaces, cut to \<open>nbytes\<close>), with the rest of the line as
  the argument string.
\<close>

theorem typed_line_delivered:
  assumes "awaits k ([], h, con)" and "\<forall>sc \<in> set scs. typing (flag_arr k) sc" and "length scs \<le> 127"
    and "map (\<lambda>sc. key_char (flag_arr k) (unat sc)) scs = replicate s 0x20 @ l" and "l = [] \<or> hd l \<noteq> 0x20"
    and "0 \<le> pid" and "pid < 6" and "page_directory (kvm k) 32 = proc_pde pid"
    and "0 \<le> nbytes" and "n = min (length (line_result l)) (nat nbytes)" and "region buf n \<subseteq> {a. drop_bit 22 a = 32}"
  shows "\<exists>k'. terminal_read (key_irq stack) (scs @ 0x1C # rest) fd buf nbytes k = Some (int n, rest, k') \<and>
    ld_bytes (kvm k') buf n = Some (take n (line_result l)) \<and> storeargs k' = args_array l"
proof -
  obtain k2 where k2: "terminal_spin (key_irq stack) (scs @ 0x1C # rest) k = Some (rest, k2)" "kb_inv k2"
    "page_directory (kvm k2) = page_directory (kvm k)" "buf_kb k2 = (replicate s 0x20 @ l) @ 10 # drop (length (replicate s 0x20 @ l) + 1) (buf_kb k2)"
    "length (buf_kb k2) = 128" "10 \<notin> set (replicate s 0x20 @ l)"
    using typed_line [OF assms(1-4), of stack rest] by blast
  have b: "buf_kb k2 = replicate s 0x20 @ l @ 10 # drop (length (replicate s 0x20 @ l) + 1) (buf_kb k2)" using k2(4) by simp
  have nl: "10 \<notin> set l" using k2(6) by simp
  have "mapped (kvm k2) {a. drop_bit 22 a = 32}"
    using process_page_mapped [OF _ assms(6,7)] k2(2,3) assms(8) by (simp add: kb_inv_def)
  then have "mapped (kvm k2) (region buf n)" by (rule mapped_subset [OF _ assms(11)])
  from read_line_eq [OF b k2(5) nl assms(5,9,10) this] k2(1) show ?thesis
    by (auto simp: terminal_read_def)
qed

theorem typed_line_delivered_witness:
  "\<exists>k'. terminal_read (key_irq (\<lambda>_. 0)) [0x39, 0x26, 0x1F, 0x39, 0x1E, 0x1C, 0x23] 0 0x08100000 100 sample_kb =
      Some (2, [0x23], k') \<and> ld_bytes (kvm k') 0x08100000 2 = Some [108, 115] \<and> storeargs k' = 97 # replicate 1023 0"
proof -
  let ?scs = "[0x39, 0x26, 0x1F, 0x39, 0x1E] :: u8 list" and ?l = "[108, 115, 0x20, 97] :: u8 list"
  obtain con where con: "edits (enter_editor sample_kb) ([], [], con)" using sample_kb_inv(2) by blast
  have f: "flag_arr sample_kb = replicate 5 0" "page_directory (kvm sample_kb) 32 = proc_pde 2"
    "visible sample_kb = 0" "cur_terminal sample_kb = 0" "enter_flag (terminals sample_kb 0) = 1"
    using sample_vmem_layout(3) by (simp_all add: sample_kb_def zero_kernel_def)
  have a: "awaits sample_kb ([], [], con)" using sample_kb_inv(1,4) con f(3-5) by (simp add: awaits_def)
  have ty: "\<forall>sc \<in> set ?scs. typing (flag_arr sample_kb) sc"
    by (simp add: f typing_def flag_key_def key_char_def char_array_def)
  have ch: "map (\<lambda>sc. key_char (flag_arr sample_kb) (unat sc)) ?scs = replicate 1 0x20 @ ?l"
    by (simp add: f key_char_def char_array_def)
  have c: "line_cmd ?l = [108, 115]" "line_args ?l = [97]" by (simp_all add: line_cmd_def line_args_def)
  then have res: "line_result ?l = [108, 115]" by (simp add: line_result_def)
  have rg: "region 0x08100000 2 \<subseteq> {a. drop_bit 22 a = (32 :: u32)}"
  proof
    fix a :: u32 assume "a \<in> region 0x08100000 2"
    then have "a = 0x08100000 \<or> a = 0x08100001" by (auto simp: region_def less_2_cases_iff)
    then show "a \<in> {a. drop_bit 22 a = 32}" by auto
  qed
  have hd: "?l = [] \<or> hd ?l \<noteq> 0x20" by simp
  from typed_line_delivered [OF a ty _ ch hd _ _ f(2), of 100 2 "0x08100000" "\<lambda>_. 0" "[0x23]" 0]
  show ?thesis using rg by (simp add: res args_array_def c)
qed

text \<open>
  C34: the Up key brings back the last line.  When the row saved for the line is not below the
  cursor and the last line has no NUL and no percent sign, the handler returns: the line becomes
  the last line, which is printed after some characters were taken back, and no other session
  changes.  When the screen was cleared since (cursor at the origin) and the saved position is in
  another row and column, the handler faults, on the bytes below the video page.
\<close>

theorem up_key_recalls:
  assumes "kb_inv k" and "edits (enter_editor k) (l, h, con)" and "scan_code dev k = 0x48"
  shows "(save_y k \<le> screen_y (mach (enter_editor k)) \<and> (\<exists>rest. previous_buf k = h @ 0 # rest) \<and> 0 \<notin> set h \<and> 0x25 \<notin> set h \<longrightarrow>
      (\<exists>k' j. keyboard_handler dev stack k = Some k' \<and> kb_inv k' \<and>
         edits (enter_editor k') (h, h, fold con_putc h ((con_backspace ^^ j) con)) \<and>
         (\<forall>i < 3. i \<noteq> vt k \<longrightarrow> session (enter_editor k') i = session (enter_editor k) i))) \<and>
    (snd con = 0 \<and> save_x k \<noteq> 0 \<and> save_y k \<noteq> 0 \<longrightarrow> keyboard_handler dev stack k = None)"
proof -
  define q where "q = quiet False (Inb 0x60 # io (mach k)) k"
  have q: "ed_ok (enter_editor q)" "edits (enter_editor q) (l, h, con)" "visible q = visible k"
    "session (enter_editor q) = session (enter_editor k)"
    using assms(1,2) by (simp_all add: q_def kb_inv_def)
  have sv: "save_x (enter_editor q) = save_x k" "save_y (enter_editor q) = save_y k" "previous_buf q = previous_buf k"
    "previous_num_chars q = previous_num_chars k" "screen_y (mach (enter_editor q)) = screen_y (mach (enter_editor k))"
    "previous_num_chars (enter_editor q) = previous_num_chars k" "previous_buf (enter_editor q) = previous_buf k"
    by (simp_all add: q_def) (simp_all add: quiet_def enter_editor_def Let_def)
  have fk: "flag_key 0x48 (flag_arr k) = None" by (simp add: flag_key_def)
  have hd: "keyboard_handler dev stack k = map_option (upd_mach (send_eoi 1)) (up_key stack q)"
    by (simp add: handler_unfold assms(3) fk q_def)
  note f = ed_fields [OF q(1,2)]
  have pn: "previous_num_chars q = int (length h)" "length h \<le> 127"
    using q(2) f(6,11,12) sv by (auto simp: edits_def history_def)
  show ?thesis
  proof (intro conjI impI; elim conjE exE)
    fix rest
    assume s: "save_y k \<le> screen_y (mach (enter_editor k))" "previous_buf k = h @ 0 # rest" "0 \<notin> set h" "0x25 \<notin> set h"
    obtain k1 j where k1: "up_key stack q = Some (leave_editor k1)" "ed_ok k1" "own_session (enter_editor q) k1"
      "edits k1 (h, h, fold con_putc h ((con_backspace ^^ j) con))"
      using up_key_step [OF q(1,2) _ _ s(3,4) pn(2,1), of rest stack] s(1,2) sv by auto
    have o: "session (enter_editor (leave_editor k1)) i = session (enter_editor k) i" if "i < 3" "i \<noteq> vt k" for i
      using own_session_sessions [OF k1(3), of i] enter_leave_sessions(2) [OF k1(2) that(1)] that q(3,4) by simp
    have h': "keyboard_handler dev stack k = Some (upd_mach (send_eoi 1) (leave_editor k1))" by (simp add: hd k1(1))
    show "\<exists>k' j. keyboard_handler dev stack k = Some k' \<and> kb_inv k' \<and>
         edits (enter_editor k') (h, h, fold con_putc h ((con_backspace ^^ j) con)) \<and>
         (\<forall>i < 3. i \<noteq> vt k \<longrightarrow> session (enter_editor k') i = session (enter_editor k) i)"
      unfolding h' eoi_quiet using leave_editor_inv [OF k1(2)] enter_leave_sessions(3) [OF k1(2)] k1(4) o
      by (simp only: option.inject ex_simps simp_thms) auto
  next
    assume z: "snd con = 0" "save_x k \<noteq> 0" "save_y k \<noteq> 0"
    let ?m = "mach (enter_editor q)"
    have c: "screen_x ?m = 0" "screen_y ?m = 0" using displays_cursor [OF f(13)] z(1) by auto
    have "backspace ?m = None" using backspace_origin_faults [OF _ c] q(1) by (simp add: ed_ok_def real_screen_def)
    then have "up_loop (save_x k) (save_y k) ?m = None"
      using c z(2,3) by (subst up_loop.simps) (simp add: get_screen_x_def get_screen_y_def)
    then show "keyboard_handler dev stack k = None"
      by (simp add: hd up_key_def Let_def sv on_mach_def)
  qed
qed

theorem up_key_recalls_witness:
  "\<exists>k'. keyboard_handler (kbd 0x48) (\<lambda>_. 0) sample_kb = Some k' \<and> kb_inv k'"
proof -
  obtain con where con: "edits (enter_editor sample_kb) ([], [], con)" using sample_kb_inv(2) by blast
  have f: "save_y sample_kb = 0" "previous_buf sample_kb = [] @ 0 # replicate 127 0"
    by (simp_all add: sample_kb_def zero_kernel_def replicate_Suc [symmetric] del: replicate_Suc)
  have y: "0 \<le> screen_y (mach (enter_editor sample_kb))"
    using con displays_cursor(3) [of _ con] by (auto simp: edits_def)
  have sc: "scan_code (kbd 0x48) sample_kb = 0x48" by (simp add: kbd_def)
  show ?thesis using up_key_recalls [OF sample_kb_inv(1) con, of "kbd 0x48" "\<lambda>_. 0"] sc f y by auto
qed

text \<open>
  Ctrl and Alt are counted.  After \<open>n\<close> make codes of Ctrl and one break code the flag is
  the old one plus \<open>n\<close> - 1: one press and release cancel out, but when the held key repeats its
  make code the flag stays set after the release.  Shift is a level: any number of make codes
  and one break code clear it.
\<close>

theorem ctrl_counts_presses:
  assumes "length (flag_arr k) = 5"
  shows "\<exists>k' k''. run_ops (key_irq stack) (replicate n 0x1D @ [0x9D]) k = Some k' \<and> flag_arr k' ! 2 = flag_arr k ! 2 + int n - 1 \<and>
    run_ops (key_irq stack) (replicate n 0x2A @ [0xAA]) k = Some k'' \<and> flag_arr k'' ! 0 = 0"
proof -
  have ctrl: "\<exists>k'. run_ops (key_irq stack) (replicate n 0x1D @ [0x9D]) k = Some k' \<and> flag_arr k' ! 2 = flag_arr k ! 2 + int n - 1"
    using assms
  proof (induction n arbitrary: k)
    case 0
    then show ?case using flag_key_irq [of "0x9D" k _ stack] by (auto simp: flag_key_def)
  next
    case (Suc n)
    obtain k1 where k1: "key_irq stack 0x1D k = Some k1" "flag_arr k1 = (flag_arr k)[2 := flag_arr k ! 2 + 1]"
      using flag_key_irq [of "0x1D" k _ stack] by (auto simp: flag_key_def)
    with Suc.IH [of k1] Suc.prems show ?case by auto
  qed
  have "\<exists>k'. run_ops (key_irq stack) (replicate n 0x2A @ [0xAA]) k = Some k' \<and> flag_arr k' ! 0 = 0"
    using assms
  proof (induction n arbitrary: k)
    case 0
    then show ?case using flag_key_irq [of "0xAA" k _ stack] by (auto simp: flag_key_def)
  next
    case (Suc n)
    obtain k1 where k1: "key_irq stack 0x2A k = Some k1" "flag_arr k1 = (flag_arr k)[0 := 1]"
      using flag_key_irq [of "0x2A" k _ stack] by (auto simp: flag_key_def)
    with Suc.IH [of k1] Suc.prems show ?case by auto
  qed
  with ctrl show ?thesis by blast
qed

theorem ctrl_counts_presses_witness:
  "\<exists>k'. run_ops (key_irq (\<lambda>_. 0)) [0x1D, 0x1D, 0x1D, 0x9D] sample_kb = Some k' \<and> flag_arr k' ! 2 = 2"
  using ctrl_counts_presses [of sample_kb "\<lambda>_. 0" 3] by (auto simp: sample_kb_def zero_kernel_def numeral_3_eq_3)

end
