(* ===== verification/Execute.thy ===== *)
theory Execute
  imports Keyboard
begin

text \<open>
  Program loading, \<open>student-distrib/execute.c\<close> and \<open>execute_asm.S\<close>.

  \<open>execute\<close> does not return when it succeeds: it builds an interrupt frame and leaves for user
  mode.  Its result is therefore a value of type \<open>outcome\<close>: a return value, the user context
  that the \<open>iret\<close> loads, or (for \<open>halt\<close>) a jump to an address in the kernel.  The address of
  the label \<open>ret_label\<close> is a parameter.  The local array \<open>buf\<close> is at the address \<open>elf_buf\<close>
  of the kernel's stack; \<open>temp\<close>, which only the kernel reads, is a byte list.
\<close>

section \<open>Definitions\<close>

record user_ctx =
  u_eip :: u32
  u_cs :: u16
  u_esp :: u32
  u_ss :: u16
  u_iflag :: bool

datatype outcome = Returns int | To_user user_ctx | Jumps u32

definition switch_to_usr :: "u32 \<Rightarrow> kernel \<Rightarrow> user_ctx \<times> kernel" where
  "switch_to_usr entry k =
     (let k = upd_mach cli k;
          ctx = \<lparr>u_eip = entry, u_cs = 0x23, u_esp = 0x83FFFFC, u_ss = 0x2B, u_iflag = True\<rparr>
      in (ctx, upd_mach (\<lambda>m. m\<lparr>iflag := u_iflag ctx\<rparr>) k))"

definition switch_to_user_mode :: "u32 \<Rightarrow> kernel \<Rightarrow> user_ctx \<times> kernel" where
  "switch_to_user_mode entry k = switch_to_usr entry k"

definition read_ELF :: "reader \<Rightarrow> addr \<Rightarrow> int \<Rightarrow> kernel \<Rightarrow> (int \<times> kernel) option" where
  "read_ELF fname buf fd k = do {
     (i, k) \<leftarrow> file_open fname k;
     if i = -1 then Some (-1, k)
     else file_read fd buf 28 k
   }"

definition load :: "reader \<Rightarrow> addr \<Rightarrow> kernel \<Rightarrow> (int \<times> kernel) option" where
  "load fname buf k = do {
     (i, k) \<leftarrow> file_open fname k;
     file_load buf 0x3B8000 k
   }"

definition elf_magic :: "u8 list \<Rightarrow> bool" where
  "elf_magic buf \<longleftrightarrow> buf ! 0 = 0x7F \<and> buf ! 1 = 0x45 \<and> buf ! 2 = 0x4C \<and> buf ! 3 = 0x46"

definition elf_entry :: "u8 list \<Rightarrow> u32" where
  "elf_entry buf = push_bit 24 (ucast (buf ! 27)) OR push_bit 16 (ucast (buf ! 26)) OR push_bit 8 (ucast (buf ! 25)) OR ucast (buf ! 24)"

definition fill_pcb :: "u32 \<Rightarrow> int \<Rightarrow> kernel \<Rightarrow> kernel" where
  "fill_pcb ret_label pid k =
     (let k = upd_pcb pid (\<lambda>p. p\<lparr>pcb_esp := esp k, pcb_ebp := ebp k, return_label_add := ret_label,
                                pcb_esp0 := esp0 (tss k), pcb_ss0 := ss0 (tss k)\<rparr>) k;
          k = upd_pcb pid (\<lambda>p. p\<lparr>parent_pid := cur_process k\<rparr>) k
      in upd_term (ct k) (\<lambda>t. t\<lparr>curr_process := pid\<rparr>) k)"

definition new_process :: "u32 \<Rightarrow> int \<Rightarrow> kernel \<Rightarrow> kernel" where
  "new_process ret_label pid k =
     (let k = fill_pcb ret_label pid k
      in set_vm (map_page (word_of_int ((pid + 2) * 0x400000)) 0x08000000 0x87 (kvm k)) k)"

definition start_image :: "u8 list \<Rightarrow> int \<Rightarrow> kernel \<Rightarrow> (outcome \<times> kernel) option" where
  "start_image temp pid k = do {
     buf \<leftarrow> ld_bytes (kvm k) (elf_buf k) 28;
     if \<not> elf_magic buf then Some (Returns (-1), k)
     else do {
       let k = k\<lparr>firstInstruct := elf_entry buf\<rparr>;
       (_, k) \<leftarrow> load (array_str temp) 0x08048000 k;
       let k = k\<lparr>tss := (tss k)\<lparr>ss0 := 0x18, esp0 := word_of_int (0x800000 - pid * 0x2000 - 4)\<rparr>\<rparr>;
       let k = upd_mach (send_eoi 0) k;
       let (ctx, k) = switch_to_user_mode (firstInstruct k) k;
       Some (To_user ctx, k)
     }
   }"

definition execute :: "u32 \<Rightarrow> addr \<Rightarrow> kernel \<Rightarrow> (outcome \<times> kernel) option" where
  "execute ret_label fname k = do {
     temp \<leftarrow> ld_bytes (kvm k) fname 128;
     (error, k) \<leftarrow> read_ELF (str_at (kvm k) fname) (elf_buf k) (-1) k;
     if error = -1 then Some (Returns (-1), k)
     else
       let (pid, k) = getPID k in
       if pid = -1 then Some (Returns (-1), k)
       else start_image temp pid (new_process ret_label pid k)
   }"

text \<open>What runs at \<open>ret_label\<close>, after the child has halted.\<close>

definition execute_return :: "kernel \<Rightarrow> outcome \<times> kernel" where
  "execute_return k = (Returns (ret_val k), k)"

section \<open>Memory that a step leaves alone\<close>

definition agree :: "addr set \<Rightarrow> vmem \<Rightarrow> vmem \<Rightarrow> bool" where
  "agree A v v' \<longleftrightarrow> (\<forall>a \<in> A. ld8 v' a = ld8 v a \<and> translate v' a = translate v a)"

lemma agree_trans: "agree A v v' \<Longrightarrow> agree A v' v'' \<Longrightarrow> agree A v v''"
  by (simp add: agree_def)

lemma agree_mono: "agree A v v' \<Longrightarrow> B \<subseteq> A \<Longrightarrow> agree B v v'"
  by (auto simp: agree_def)

lemma agree_changes: "changes A v v' \<Longrightarrow> apart v A B \<Longrightarrow> agree B v v'"
  unfolding agree_def using ld8_changes changes_translate by metis

lemma ld_bytes_agree: "agree (region a n) v v' \<Longrightarrow> ld_bytes v' a n = ld_bytes v a n"
proof (induction n arbitrary: a)
  case (Suc n)
  then have "agree (region (a + 1) n) v v'" "ld8 v' a = ld8 v a"
    by (auto simp: agree_def region_Suc)
  with Suc.IH show ?case by simp
qed simp

lemma ld32_agree: "agree (region a 4) v v' \<Longrightarrow> ld32 v' a = ld32 v a"
proof -
  assume a: "agree (region a 4) v v'"
  have "ld8 v' (a + word_of_nat i) = ld8 v (a + word_of_nat i)" if "i < 4" for i
    using a region_memI [OF that] by (auto simp: agree_def)
  from this [of 0] this [of 1] this [of 2] this [of 3] show ?thesis by (simp add: ld32_def)
qed

lemma copy_dentry_agree:
  assumes "agree (region a 64) v v'"
  shows "copy_dentry v' a = copy_dentry v a"
proof -
  have "region a 32 \<subseteq> region a 64" "region (a + 32) 4 \<subseteq> region a 64" "region (a + 36) 4 \<subseteq> region a 64"
    using region_mono [of 32 64 a] region_sub [of 32 4 64 a] region_sub [of 36 4 64 a] by simp_all
  with assms have "ld_bytes v' a 32 = ld_bytes v a 32" "ld32 v' (a + 32) = ld32 v (a + 32)" "ld32 v' (a + 36) = ld32 v (a + 36)"
    by (auto intro: ld_bytes_agree ld32_agree agree_mono)
  then show ?thesis by (simp add: copy_dentry_def)
qed

lemma directory_agree:
  assumes "agree (region s 4096) v v'"
  shows "directory v' s = directory v s"
proof -
  have "copy_dentry v' (s + 64 * word_of_nat i) = copy_dentry v (s + 64 * word_of_nat i)" if "i < 64" for i
  proof (rule copy_dentry_agree, rule agree_mono [OF assms])
    show "region (s + 64 * word_of_nat i) 64 \<subseteq> region s 4096"
      using region_sub [of "64 * i" 64 4096 s] that by simp
  qed
  then show ?thesis unfolding directory_def by (intro arg_cong [of _ _ those]) simp
qed

lemma mapped_agree: "agree A v v' \<Longrightarrow> mapped v' A = mapped v A"
  unfolding mapped_def agree_def inj_on_def by auto

lemma file_agree:
  assumes "agree (file_area k inode eof blk) v v'" and "file_at v k inode eof blk"
  shows "file_at v' k inode eof blk" "i < unat eof \<Longrightarrow> file_byte v' k inode i = file_byte v k inode i"
proof -
  have nb: "nblocks eof \<le> 1023" using assms(2) by (simp add: file_at_def)
  have blkA: "agree (region (data_base k + 4096 * blk j) 4096) v v'" if "j < nblocks eof" for j
    by (rule agree_mono [OF assms(1)]) (use that in \<open>auto simp: file_area_def\<close>)
  have inoA: "agree (region (inode_addr k inode) 4096) v v'"
    by (rule agree_mono [OF assms(1)]) (simp add: file_area_def)
  have l0: "ld32 v' (inode_addr k inode) = ld32 v (inode_addr k inode)"
    by (rule ld32_agree, rule agree_mono [OF inoA], rule region_mono) simp
  have lj: "ld32 v' (inode_addr k inode + 4 + 4 * word_of_nat j) = ld32 v (inode_addr k inode + 4 + 4 * word_of_nat j)"
    if "j < nblocks eof" for j
    by (rule ld32_agree, rule agree_mono [OF inoA], rule block_number_addr) (use that nb in simp)
  show "file_at v' k inode eof blk"
    using assms(2) l0 lj mapped_agree [OF blkA] by (simp add: file_at_def)
  assume i: "i < unat eof"
  let ?j = "i div 4096"
  have j: "?j < nblocks eof" using i by (auto simp: nblocks_def)
  have b: "ld32 v (inode_addr k inode + 4 + 4 * word_of_nat ?j) = Some (blk ?j)" using assms(2) j by (simp add: file_at_def)
  have "data_base k + 4096 * blk ?j + word_of_nat (i mod 4096) \<in> region (data_base k + 4096 * blk ?j) 4096"
    by (rule region_memI) simp
  then have "ld8 v' (data_base k + 4096 * blk ?j + word_of_nat (i mod 4096)) =
      ld8 v (data_base k + 4096 * blk ?j + word_of_nat (i mod 4096))"
    using blkA [OF j] by (auto simp: agree_def)
  then show "file_byte v' k inode i = file_byte v k inode i"
    using lj [OF j] b by (simp add: file_byte_def)
qed

text \<open>The kernel's 4 MB page, which no process page shadows.\<close>

definition kpage :: "addr set" where
  "kpage = {a. drop_bit 22 a = (1 :: u32)}"

lemma kpage_pde:
  assumes "layout v" and "layout (set_pde 32 e v)"
  shows "agree kpage v (set_pde 32 e v)"
  unfolding agree_def kpage_def
  using translate_kernel_page(1) [OF assms(1)] translate_kernel_page(1) [OF assms(2)] by (simp add: ld8_def)

lemma kpage_mapped:
  assumes "layout v" and "A \<subseteq> kpage"
  shows "mapped v A"
  using translate_kernel_page(1) [OF assms(1)] assms(2) by (auto simp: mapped_def inj_on_def kpage_def subset_iff)

lemma kpage_apart: "layout v \<Longrightarrow> A \<subseteq> kpage \<Longrightarrow> B \<subseteq> kpage \<Longrightarrow> A \<inter> B = {} \<Longrightarrow> apart v A B"
  using apart_mapped [of v A B] kpage_mapped [of v "A \<union> B"] by simp

lemma process_kpage_apart:
  assumes "layout v" and "0 \<le> pid" and "pid < 6" and "page_directory v 32 = proc_pde pid"
  shows "apart v {a. drop_bit 22 a = 32} kpage"
proof -
  have "translate v b \<noteq> Some p" if a: "drop_bit 22 a = (32 :: u32)" "translate v a = Some p" and b: "b \<in> kpage" for a b p
  proof
    assume "translate v b = Some p"
    then have "b = p" using translate_kernel_page(1) [OF assms(1)] b by (simp add: kpage_def)
    moreover have "p = proc_page pid OR take_bit 22 a" using translate_process_page(1) [OF assms a(1)] a(2) by simp
    ultimately show False using proc_frame(1) [OF assms(2,3), of a] proc_frame(2) [OF assms(2,3)] b by (simp add: kpage_def)
  qed
  then show ?thesis unfolding apart_def by auto
qed

section \<open>Programs\<close>

text \<open>
  The file system holds a program under the name \<open>cs\<close>: directory entry \<open>d\<close>, a file of \<open>eof\<close>
  bytes that fits the user page, with the first 28 bytes \<open>hdr\<close>.  The file system and the local
  array of \<open>execute\<close> are in the kernel's page and do not overlap.
\<close>

definition program :: "kernel \<Rightarrow> u8 list \<Rightarrow> dentry_t \<Rightarrow> u32 \<Rightarrow> (nat \<Rightarrow> u32) \<Rightarrow> u8 list \<Rightarrow> bool" where
  "program k cs d eof blk hdr \<longleftrightarrow>
     (\<exists>ds. directory (kvm k) (startdentry k) = Some ds \<and> find (\<lambda>d. entry_name (dname d) = take 32 cs) ds = Some d) \<and>
     inodeNum d \<le> numinodes k \<and> file_at (kvm k) k (inodeNum d) eof blk \<and> 28 \<le> unat eof \<and> nblocks eof \<le> 0x3B7 \<and>
     length hdr = 28 \<and> (\<forall>i < 28. file_byte (kvm k) k (inodeNum d) i = Some (hdr ! i)) \<and>
     region (elf_buf k) 28 \<union> file_area k (inodeNum d) eof blk \<union> region (startdentry k) 4096 \<subseteq> kpage \<and>
     region (elf_buf k) 28 \<inter> (file_area k (inodeNum d) eof blk \<union> region (startdentry k) 4096) = {} \<and>
     unat (elf_buf k) + 28 \<le> 2 ^ 32"

lemma file_open_program:
  assumes "program k cs d eof blk hdr" and "reads fname cs"
  shows "file_open fname k = Some (0, k\<lparr>currDentry := d\<rparr>)"
  using assms read_dentry_by_name_eq [of k _ fname cs] by (auto simp: program_def file_open_def)

lemma fs_cong:
  assumes "start_addr k' = start_addr k" and "numinodes k' = numinodes k"
  shows "inode_addr k' = inode_addr k" "data_base k' = data_base k" "file_at v k' = file_at v k" "file_byte v k' = file_byte v k"
    "file_area k' = file_area k"
proof -
  show "inode_addr k' = inode_addr k" "data_base k' = data_base k" using assms by (auto simp: inode_addr_def data_base_def)
  then show "file_at v k' = file_at v k" "file_byte v k' = file_byte v k" "file_area k' = file_area k"
    by (auto simp: fun_eq_iff file_at_def file_byte_def file_area_def)
qed

lemma program_agree:
  assumes "program k cs d eof blk hdr" and "agree (file_area k (inodeNum d) eof blk \<union> region (startdentry k) 4096) (kvm k) (kvm k')"
    and same: "start_addr k' = start_addr k" "numinodes k' = numinodes k" "startdentry k' = startdentry k" "elf_buf k' = elf_buf k"
  shows "program k' cs d eof blk hdr" "i < unat eof \<Longrightarrow> file_byte (kvm k') k' (inodeNum d) i = file_byte (kvm k) k (inodeNum d) i"
proof -
  have f: "file_at (kvm k) k (inodeNum d) eof blk" and h: "28 \<le> unat eof" using assms(1) by (simp_all add: program_def)
  have a: "agree (file_area k (inodeNum d) eof blk) (kvm k) (kvm k')" "agree (region (startdentry k) 4096) (kvm k) (kvm k')"
    by (rule agree_mono [OF assms(2)], simp)+
  note cong = fs_cong [OF same(1,2)] and fa = file_agree [OF a(1) f]
  show b: "file_byte (kvm k') k' (inodeNum d) i = file_byte (kvm k) k (inodeNum d) i" if "i < unat eof" for i
    unfolding cong using fa(2) [OF that] .
  show "program k' cs d eof blk hdr"
    using assms(1) fa(1) b h directory_agree [OF a(2)] unfolding program_def same cong by auto
qed

lemma reads_copy:
  assumes "reads (str_at v a) cs" and "length cs < 128" and "ld_bytes v a 128 = Some temp"
  shows "reads (array_str temp) cs"
proof -
  have n: "length temp = 128" by (rule ld_bytes_length [OF assms(3)])
  have "str_at v a i = Some (temp ! i)" if "i < 128" for i
    using ld_bytes_nth [OF assms(3) that] by (simp add: str_at_def)
  then show ?thesis using assms(1,2) n by (auto simp: reads_def array_str_def)
qed

lemma read_ELF_program:
  assumes p: "program k cs d eof blk hdr" and r: "reads fname cs" and l: "layout (kvm k)"
  shows "\<exists>k1. read_ELF fname (elf_buf k) (-1) k = Some (28, k1) \<and> (\<exists>v. k1 = set_vm v (k\<lparr>currDentry := d\<rparr>)) \<and>
    program k1 cs d eof blk hdr \<and> layout (kvm k1) \<and> ld_bytes (kvm k1) (elf_buf k) 28 = Some hdr \<and>
    changes (region (elf_buf k) 28) (kvm k) (kvm k1) \<and>
    (\<forall>i < unat eof. file_byte (kvm k1) k1 (inodeNum d) i = file_byte (kvm k) k (inodeNum d) i)"
proof -
  let ?k = "k\<lparr>currDentry := d\<rparr>" and ?F = "file_area k (inodeNum d) eof blk \<union> region (startdentry k) 4096"
  have f: "file_at (kvm k) k (inodeNum d) eof blk" "inodeNum d \<le> numinodes k" "28 \<le> unat eof" "length hdr = 28"
    "\<forall>i < 28. file_byte (kvm k) k (inodeNum d) i = Some (hdr ! i)" "unat (elf_buf k) + 28 \<le> 2 ^ 32"
    "region (elf_buf k) 28 \<subseteq> kpage" "?F \<subseteq> kpage" "region (elf_buf k) 28 \<inter> ?F = {}"
    using p by (auto simp: program_def)
  have cg: "file_at v ?k = file_at v k" "file_byte v ?k = file_byte v k" "file_area ?k = file_area k" for v
    using fs_cong [of ?k k] by simp_all
  have ap: "apart (kvm k) (region (elf_buf k) 28) ?F" by (rule kpage_apart [OF l f(7,8,9)])
  have dest: "dest_ok (kvm k) (elf_buf k) 28 (file_area k (inodeNum d) eof blk)"
    using kpage_mapped [OF l f(7)] f(6) apart_subset [OF ap subset_refl Un_upper1] by (simp add: dest_ok_def)
  have e0: "(0 :: u32) < eof" using f(3) by (simp add: word_less_nat_alt)
  obtain v where v: "read_data (inodeNum d) 0 (elf_buf k) 28 ?k = Some (28, set_vm v ?k)"
    "changes (region (elf_buf k) 28) (kvm k) v"
    "\<forall>i < 28. ld8 v (elf_buf k + word_of_nat i) = file_byte (kvm k) k (inodeNum d) i"
  proof -
    have "file_at (kvm ?k) ?k (inodeNum d) eof blk" "inodeNum d \<le> numinodes ?k" "(0 :: u32) < 28" "(28 :: u32) < 4096"
      "28 = min (unat (28 :: u32)) (unat eof - unat (0 :: u32))" "unat (0 :: u32) mod 4096 + 28 \<le> 4096"
      "dest_ok (kvm ?k) (elf_buf k) 28 (file_area ?k (inodeNum d) eof blk)"
      using f(1,2,3) dest by (simp_all add: cg)
    from read_data_chunk [OF this(1,2) e0 this(3-7)] show ?thesis using that by (auto simp: cg)
  qed
  let ?k1 = "set_vm v ?k"
  have ag: "agree ?F (kvm k) (kvm ?k1)" using agree_changes [OF v(2) ap] by simp
  have "ld_bytes v (elf_buf k) 28 = Some hdr" using v(3) f(4,5) by (intro ld_bytesI) simp_all
  moreover have "layout v" using l layout_same_map [OF changes_same_map [OF v(2)]] by simp
  moreover have "read_ELF fname (elf_buf k) (-1) k = Some (28, ?k1)"
    using v(1) file_open_program [OF p r] by (simp add: read_ELF_def file_read_def Let_def)
  moreover note program_agree [OF p ag]
  ultimately show ?thesis using v(2) by (intro exI [of _ ?k1]) auto
qed

section \<open>Running a program\<close>

text \<open>The user page after the entry: the image of the program at its load address.\<close>

lemma load_region: "n \<le> 0x3B7000 \<Longrightarrow> region 0x08048000 n \<subseteq> {a. drop_bit 22 a = (32 :: u32)}"
proof
  fix a :: u32 assume n: "n \<le> 0x3B7000" and "a \<in> region 0x08048000 n"
  then obtain i where i: "i < n" "a = 0x08048000 + word_of_nat i" by (auto simp: region_def)
  have "unat a = 0x08048000 + i" using i n by (simp add: unat_word_ariths unat_word_of_nat_u32)
  then have "unat (drop_bit 22 a) = unat (32 :: u32)"
    using i n by (simp only: unat_drop_bit_eq) (simp add: drop_bit_eq_div)
  then have "drop_bit 22 a = 32" by (rule unsigned_word_eqI)
  then show "a \<in> {a. drop_bit 22 a = 32}" by simp
qed

lemma load_program:
  assumes p: "program k cs d eof blk hdr" and r: "reads fname cs" and l: "layout (kvm k)"
    and pid: "0 \<le> pid" "pid < 6" "page_directory (kvm k) 32 = proc_pde pid"
  shows "\<exists>v. load fname 0x08048000 k = Some (int (4096 * nblocks eof), set_vm v (k\<lparr>currDentry := d\<rparr>)) \<and>
    changes (region 0x08048000 (4096 * nblocks eof)) (kvm k) v \<and>
    (\<forall>i < unat eof. ld8 v (0x08048000 + word_of_nat i) = file_byte (kvm k) k (inodeNum d) i)"
proof -
  let ?k = "k\<lparr>currDentry := d\<rparr>" and ?F = "file_area k (inodeNum d) eof blk"
  have f: "file_at (kvm k) k (inodeNum d) eof blk" "inodeNum d \<le> numinodes k" "nblocks eof \<le> 0x3B7" "?F \<subseteq> kpage"
    using p by (auto simp: program_def)
  have cg: "file_at v ?k = file_at v k" "file_byte v ?k = file_byte v k" "file_area ?k = file_area k" for v
    using fs_cong [of ?k k] by simp_all
  have sub: "region 0x08048000 (4096 * nblocks eof) \<subseteq> {a. drop_bit 22 a = (32 :: u32)}"
    by (rule load_region) (use f(3) in simp)
  have "dest_ok (kvm k) 0x08048000 (4096 * nblocks eof) ?F"
    using mapped_subset [OF process_page_mapped [OF l pid] sub] f(3)
      apart_subset [OF process_kpage_apart [OF l pid] sub f(4)] by (simp add: dest_ok_def)
  moreover have "nblocks eof \<le> 0x3B8" "(0x3B8 :: nat) < 2 ^ 20" using f(3) by simp_all
  ultimately obtain v where "read_data (inodeNum d) 0 0x08048000 (word_of_nat (4096 * 0x3B8)) ?k =
      Some (int (4096 * nblocks eof), set_vm v ?k)" "changes (region 0x08048000 (4096 * nblocks eof)) (kvm k) v"
    "\<forall>i < unat eof. ld8 v (0x08048000 + word_of_nat i) = file_byte (kvm k) k (inodeNum d) i"
    using read_data_load [of ?k "inodeNum d" eof blk "0x3B8" "0x08048000"] f(1,2) by (auto simp: cg)
  then show ?thesis using file_open_program [OF p r] by (intro exI [of _ v]) (simp add: load_def file_load_def)
qed

lemma getPID_cong: "PCB_array k' = PCB_array k \<Longrightarrow> fst (getPID k') = fst (getPID k)"
proof -
  assume a: "PCB_array k' = PCB_array k"
  have "fst (getPID_from i n k') = fst (getPID_from i n k)" for i n
    using a by (induction n arbitrary: i) auto
  then show ?thesis by (simp add: getPID_def)
qed

definition started :: "u32 \<Rightarrow> kernel \<Rightarrow> PCB_struct \<Rightarrow> PCB_struct" where
  "started ret_label k p = p\<lparr>pcb_in_use := 0, pcb_esp := esp k, pcb_ebp := ebp k, return_label_add := ret_label,
     pcb_esp0 := esp0 (tss k), pcb_ss0 := ss0 (tss k), parent_pid := cur_process k\<rparr>"

definition user_entry :: "u8 list \<Rightarrow> user_ctx" where
  "user_entry hdr = \<lparr>u_eip = elf_entry hdr, u_cs = 0x23, u_esp = 0x83FFFFC, u_ss = 0x2B, u_iflag = True\<rparr>"

text \<open>The kernel between the allocation of the process and the check of the magic number.\<close>

definition with_process :: "u32 \<Rightarrow> int \<Rightarrow> kernel \<Rightarrow> kernel" where
  "with_process ret_label pid k = set_vm (set_pde 32 (proc_pde pid) (kvm k))
     (upd_term (ct k) (\<lambda>t. t\<lparr>curr_process := pid\<rparr>) (upd_pcb pid (started ret_label k) k))"

lemma new_process_eq:
  assumes "layout (kvm k)" and "0 \<le> pid" and "pid < 6"
  shows "new_process ret_label pid (upd_pcb pid (\<lambda>p. p\<lparr>pcb_in_use := 0\<rparr>) k) = with_process ret_label pid k"
  using map_process_page(1) [OF assms]
  by (simp add: new_process_def fill_pcb_def with_process_def proc_page_def Let_def)
    (simp add: upd_pcb_def upd_term_def started_def)

lemma with_process_program:
  assumes "program k cs d eof blk hdr" and "layout (kvm k)" and "0 \<le> pid" and "pid < 6"
  shows "program (with_process r pid k) cs d eof blk hdr" "layout (kvm (with_process r pid k))"
    "agree kpage (kvm k) (kvm (with_process r pid k))"
    "i < unat eof \<Longrightarrow> file_byte (kvm (with_process r pid k)) (with_process r pid k) (inodeNum d) i = file_byte (kvm k) k (inodeNum d) i"
proof -
  have l: "layout (set_pde 32 (proc_pde pid) (kvm k))" using map_process_page [OF assms(2-4)] by simp
  then show "layout (kvm (with_process r pid k))" by (simp add: with_process_def)
  show a: "agree kpage (kvm k) (kvm (with_process r pid k))"
    using kpage_pde [OF assms(2) l] by (simp add: with_process_def)
  have "file_area k (inodeNum d) eof blk \<union> region (startdentry k) 4096 \<subseteq> kpage" using assms(1) by (simp add: program_def)
  note g = program_agree [OF assms(1) agree_mono [OF a this]]
  show "program (with_process r pid k) cs d eof blk hdr" by (rule g(1)) (simp_all add: with_process_def)
  show "i < unat eof \<Longrightarrow> file_byte (kvm (with_process r pid k)) (with_process r pid k) (inodeNum d) i = file_byte (kvm k) k (inodeNum d) i"
    by (rule g(2)) (simp_all add: with_process_def)
qed

lemma start_image_eq:
  assumes "ld_bytes (kvm k) (elf_buf k) 28 = Some hdr" and "elf_magic hdr"
    and "load (array_str temp) 0x08048000 (k\<lparr>firstInstruct := elf_entry hdr\<rparr>) = Some (n, k1)"
    and "firstInstruct k1 = elf_entry hdr"
  shows "start_image temp pid k = Some (To_user (user_entry hdr), upd_mach (\<lambda>m. (send_eoi 0 m)\<lparr>iflag := True\<rparr>)
     (k1\<lparr>tss := (tss k1)\<lparr>ss0 := 0x18, esp0 := word_of_int (0x800000 - pid * 0x2000 - 4)\<rparr>\<rparr>))"
  using assms by (simp add: start_image_def Let_def switch_to_user_mode_def switch_to_usr_def user_entry_def cli_def)

lemma execute_eq:
  assumes "ld_bytes (kvm k) fname 128 = Some temp" and "read_ELF (str_at (kvm k) fname) (elf_buf k) (-1) k = Some (n, k1)"
    and "n \<noteq> -1" and "getPID k = (pid, k0)" and "pid \<noteq> -1" and "PCB_array k1 = PCB_array k" and "layout (kvm k1)"
  shows "execute r fname k = start_image temp pid (with_process r pid k1)" "0 \<le> pid" "pid < 6"
proof -
  obtain k1' where g: "getPID k1 = (pid, k1')" using getPID_cong [OF assms(6)] assms(4) by (cases "getPID k1") simp
  note res = getPID_result [OF g assms(5)]
  show "0 \<le> pid" "pid < 6" by (fact res)+
  have "new_process r pid k1' = with_process r pid k1" unfolding res(4) by (rule new_process_eq [OF assms(7) res(1,2)])
  then show "execute r fname k = start_image temp pid (with_process r pid k1)"
    using assms(1,2,3,5) g by (simp add: execute_def)
qed

lemma with_process_same [simp]:
  "elf_buf (with_process r pid k) = elf_buf k" "tss (with_process r pid k) = tss k"
  "PCB_array (with_process r pid k) = (PCB_array k)(pid := started r k (PCB_array k pid))"
  "terminals (with_process r pid k) = (terminals k)(ct k := (terminals k (ct k))\<lparr>curr_process := pid\<rparr>)"
  "cur_terminal (with_process r pid k) = cur_terminal k" "visible (with_process r pid k) = visible k"
  "kvm (with_process r pid k) = set_pde 32 (proc_pde pid) (kvm k)" "firstInstruct (with_process r pid k) = firstInstruct k"
  by (simp_all add: with_process_def)

lemma started_cong:
  "esp k' = esp k \<Longrightarrow> ebp k' = ebp k \<Longrightarrow> tss k' = tss k \<Longrightarrow> cur_process k' = cur_process k \<Longrightarrow> started r k' = started r k"
  by (simp add: started_def fun_eq_iff)

text \<open>The parts of the kernel that starting a process does not touch.\<close>

definition same_rest :: "kernel \<Rightarrow> kernel \<Rightarrow> bool" where
  "same_rest k k' \<longleftrightarrow> k'\<lparr>mach := mach k, PCB_array := PCB_array k, terminals := terminals k, tss := tss k, currDentry := currDentry k,
     firstInstruct := firstInstruct k\<rparr> = k \<and> screen_x (mach k') = screen_x (mach k) \<and> screen_y (mach k') = screen_y (mach k)"

lemma execute_ok:
  assumes p: "program k cs d eof blk hdr" and l: "layout (kvm k)" and t: "ld_bytes (kvm k) fname 128 = Some temp"
    and r: "reads (str_at (kvm k) fname) cs" "length cs < 128" and m: "elf_magic hdr" and g: "getPID k = (pid, k0)" "pid \<noteq> -1"
  shows "\<exists>k'. execute rl fname k = Some (To_user (user_entry hdr), k') \<and> layout (kvm k') \<and>
    page_directory (kvm k') 32 = proc_pde pid \<and>
    (\<forall>i < unat eof. ld8 (kvm k') (0x08048000 + word_of_nat i) = file_byte (kvm k) k (inodeNum d) i) \<and>
    PCB_array k' = (PCB_array k)(pid := started rl k (PCB_array k pid)) \<and>
    terminals k' = (terminals k)(ct k := (terminals k (ct k))\<lparr>curr_process := pid\<rparr>) \<and>
    tss k' = (tss k)\<lparr>ss0 := 0x18, esp0 := word_of_int (0x800000 - pid * 0x2000 - 4)\<rparr> \<and>
    cur_terminal k' = cur_terminal k \<and> visible k' = visible k \<and> 0 \<le> pid \<and> pid < 6 \<and> pid_free k pid \<and> iflag (mach k') \<and>
    page_table (kvm k') = page_table (kvm k) \<and> agree (kpage - region (elf_buf k) 28) (kvm k) (kvm k') \<and>
    same_rest k k'"
proof -
  obtain k1 v1 where k1: "read_ELF (str_at (kvm k) fname) (elf_buf k) (-1) k = Some (28, k1)" "k1 = set_vm v1 (k\<lparr>currDentry := d\<rparr>)"
    "program k1 cs d eof blk hdr" "layout (kvm k1)" "ld_bytes (kvm k1) (elf_buf k) 28 = Some hdr"
    "\<forall>i < unat eof. file_byte (kvm k1) k1 (inodeNum d) i = file_byte (kvm k) k (inodeNum d) i"
    "changes (region (elf_buf k) 28) (kvm k) (kvm k1)"
    using read_ELF_program [OF p r(1) l] by blast
  have pc: "PCB_array k1 = PCB_array k" by (simp add: k1(2))
  let ?w = "with_process rl pid k1"
  have n: "(28 :: int) \<noteq> -1" by simp
  note ex = execute_eq(1) [OF t k1(1) n g pc k1(4), of rl] execute_eq(2,3) [OF t k1(1) n g pc k1(4)]
  note wp = with_process_program [OF k1(3,4) ex(2,3), where r = rl]
  have eb: "ld_bytes (kvm ?w) (elf_buf ?w) 28 = Some hdr"
  proof -
    have "region (elf_buf k1) 28 \<subseteq> kpage" using k1(3) by (simp add: program_def)
    from ld_bytes_agree [OF agree_mono [OF wp(3) this]] show ?thesis using k1(2,5) by simp
  qed
  let ?w' = "?w\<lparr>firstInstruct := elf_entry hdr\<rparr>"
  have pw: "program ?w' cs d eof blk hdr" "file_byte (kvm ?w') ?w' = file_byte (kvm ?w) ?w"
    using wp(1) fs_cong [of ?w' ?w] by (simp_all add: program_def)
  obtain v where v: "load (array_str temp) 0x08048000 ?w' = Some (int (4096 * nblocks eof), set_vm v (?w'\<lparr>currDentry := d\<rparr>))"
    "changes (region 0x08048000 (4096 * nblocks eof)) (kvm ?w') v"
    "\<forall>i < unat eof. ld8 v (0x08048000 + word_of_nat i) = file_byte (kvm ?w') ?w' (inodeNum d) i"
    using load_program [OF pw(1) reads_copy [OF r t] _ ex(2,3)] wp(2) by auto
  have img: "ld8 v (0x08048000 + word_of_nat i) = file_byte (kvm k) k (inodeNum d) i" if "i < unat eof" for i
    using v(3) pw(2) wp(4) [OF that] k1(6) that by simp
  note sm = changes_same_map [OF v(2)]
  have lv: "layout v" "page_directory v 32 = proc_pde pid"
    using layout_same_map [OF sm] wp(2) same_map_fields(2) [OF sm] by simp_all
  have ex2: "execute rl fname k = Some (To_user (user_entry hdr), upd_mach (\<lambda>m. (send_eoi 0 m)\<lparr>iflag := True\<rparr>)
     ((set_vm v (?w'\<lparr>currDentry := d\<rparr>))\<lparr>tss := (tss k)\<lparr>ss0 := 0x18, esp0 := word_of_int (0x800000 - pid * 0x2000 - 4)\<rparr>\<rparr>))"
    unfolding ex(1) using start_image_eq [OF eb m v(1), of pid] k1(2) by simp
  let ?K = "kpage - region (elf_buf k) 28"
  have ag: "agree ?K (kvm k) v"
  proof -
    have "apart (kvm k) (region (elf_buf k) 28) ?K" using p by (intro kpage_apart [OF l]) (auto simp: program_def)
    then have "agree ?K (kvm k) (kvm k1)" by (rule agree_changes [OF k1(7)])
    moreover have "agree ?K (kvm k1) (kvm ?w')" using agree_mono [OF wp(3), of ?K] by auto
    moreover have "agree ?K (kvm ?w') v"
    proof (rule agree_changes [OF v(2)], rule apart_subset)
      show "apart (kvm ?w') {a. drop_bit 22 a = 32} kpage" using wp(2) by (intro process_kpage_apart [OF _ ex(2,3)]) simp_all
      show "region 0x08048000 (4096 * nblocks eof) \<subseteq> {a. drop_bit 22 a = 32}"
        using p by (intro load_region) (simp add: program_def)
    qed auto
    ultimately show ?thesis by (blast intro: agree_trans)
  qed
  have pt: "page_table v = page_table (kvm k)"
    using same_map_fields [OF sm] same_map_fields [OF changes_same_map [OF k1(7)]] by simp
  have st: "started rl k1 = started rl k" by (rule started_cong) (simp_all add: k1(2))
  show ?thesis
    unfolding ex2 using lv img ex(2,3) getPID_result(3) [OF g] pc st ag pt
    by (simp add: k1(2) send_eoi_def outb_def same_rest_def)
      (simp add: set_vm_def with_process_def upd_term_def upd_pcb_def)
qed

section \<open>Properties\<close>

text \<open>
  An image whose file \<open>a\<close> is a program of 28 bytes with the entry point 0x08048018, in a kernel
  with paging, the name at 0x420000 and all processes free.
\<close>

definition sample_elf :: "u32 \<Rightarrow> u8" where
  "sample_elf = (\<lambda>_. 0)(0x410000 := 1, 0x410004 := 1, 0x410008 := 1, 0x410040 := 0x61, 0x410060 := 2,
     0x411000 := 28, 0x412000 := 0x7F, 0x412001 := 0x45, 0x412002 := 0x4C, 0x412003 := 0x46,
     0x412018 := 0x18, 0x412019 := 0x80, 0x41201A := 0x04, 0x41201B := 0x08, 0x420000 := 0x61)"

definition sample_hdr :: "u8 list" where
  "sample_hdr = [0x7F, 0x45, 0x4C, 0x46, 0, 0, 0, 0, 0, 0, 0, 0, 0, 0, 0, 0, 0, 0, 0, 0, 0, 0, 0, 0, 0x18, 0x80, 0x04, 0x08]"

definition sample_exec :: kernel where
  "sample_exec = init_PCB ((zero_kernel (flat_machine (\<lambda>_. 0)\<lparr>vm := init_paging (flat_vmem sample_elf)\<rparr>) 0x7FFFFC 0x7FF000 0x420000)
     \<lparr>start_addr := 0x410000, numdentries := 1, numinodes := 1, numblocks := 1, startdentry := 0x410040\<rparr>)"

lemma sample_exec_fields [simp]:
  "kvm sample_exec = init_paging (flat_vmem sample_elf)" "startdentry sample_exec = 0x410040" "start_addr sample_exec = 0x410000"
  "numinodes sample_exec = 1" "elf_buf sample_exec = 0x7FF000"
  by (simp_all add: sample_exec_def zero_kernel_def)

lemma kpage_region:
  assumes "0x400000 \<le> unat a" and "unat a + n \<le> 0x800000"
  shows "region a n \<subseteq> kpage"
proof
  fix x assume "x \<in> region a n"
  then obtain i where i: "i < n" "x = a + word_of_nat i" by (auto simp: region_def)
  have "unat x = unat a + i" using i assms(2) by (simp add: unat_word_ariths unat_word_of_nat_u32)
  then have "unat (drop_bit 22 x) = unat (1 :: u32)"
    using i assms by (simp only: unat_drop_bit_eq) (simp add: drop_bit_eq_div)
  then have "drop_bit 22 x = 1" by (rule unsigned_word_eqI)
  then show "x \<in> kpage" by (simp add: kpage_def)
qed

lemma ld8_kpage:
  assumes "layout v" and "a \<in> kpage"
  shows "ld8 v a = Some (pmem v a)"
  using translate_kernel_page(1) [OF assms(1)] assms(2) by (simp add: ld8_def kpage_def)

definition sample_dentry :: dentry_t where
  "sample_dentry = \<lparr>dname = 0x61 # replicate 31 0, fileType = 2, inodeNum = 0\<rparr>"

lemma sample_exec_directory:
  "\<exists>ds. directory (flat_vmem sample_elf) 0x410040 = Some ds \<and> find (\<lambda>d. entry_name (dname d) = take 32 [0x61]) ds = Some sample_dentry"
proof -
  obtain ds where ds: "directory (flat_vmem sample_elf) 0x410040 = Some ds" using directory_flat by blast
  have "length ds = 64" using length_those [OF ds [unfolded directory_def]] by simp
  then obtain d ds' where c: "ds = d # ds'" by (cases ds) auto
  have "copy_dentry (flat_vmem sample_elf) (0x410040 + 64 * word_of_nat ([0..<64] ! 0)) = Some (ds ! 0)"
    using those_nth [OF ds [unfolded directory_def], of 0] by simp
  moreover have "copy_dentry (flat_vmem sample_elf) 0x410040 = Some sample_dentry"
    by (simp add: copy_dentry_def ld_bytes_flat ld32_flat sample_dentry_def sample_elf_def word_of_bytes_def upt_rec)
      (simp add: numeral_eq_Suc)
  ultimately have "d = sample_dentry" using c by simp
  moreover have "entry_name (dname sample_dentry) = take 32 [0x61]" by (simp add: entry_name_def sample_dentry_def)
  ultimately show ?thesis using ds c by simp
qed

lemma flat_agree: "agree kpage (flat_vmem p) (init_paging (flat_vmem p))"
proof -
  have l: "layout (init_paging (flat_vmem p))" by (rule sample_vmem_layout)
  have pm: "pmem (init_paging (flat_vmem p)) = p"
    by (simp add: init_paging_def Let_def enable_paging_def init_tables_fields flat_vmem_def)
  show ?thesis
    unfolding agree_def using ld8_kpage [OF l] translate_kernel_page(1) [OF l] pm by (simp add: kpage_def)
qed

lemma sample_program: "program sample_exec [0x61] sample_dentry 28 (\<lambda>_. 0) sample_hdr"
proof -
  let ?k = sample_exec and ?F = "file_area sample_exec 0 28 (\<lambda>_. 0)"
  have nb: "nblocks 28 = 1" by (simp add: nblocks_def)
  have fa: "?F = region 0x411000 4096 \<union> region 0x412000 4096"
    by (simp add: file_area_def nb inode_addr_def data_base_def lessThan_Suc)
  have kp: "region (0x7FF000 :: addr) 28 \<subseteq> kpage" "region (0x411000 :: addr) 4096 \<subseteq> kpage" "region (0x412000 :: addr) 4096 \<subseteq> kpage"
    "region (0x410040 :: addr) 4096 \<subseteq> kpage"
    by (rule kpage_region; simp)+
  have dj: "region (0x7FF000 :: addr) 28 \<inter> region 0x411000 4096 = {}" "region (0x7FF000 :: addr) 28 \<inter> region 0x412000 4096 = {}"
    "region (0x7FF000 :: addr) 28 \<inter> region 0x410040 4096 = {}"
    by (subst Int_commute, rule region_disjoint; simp)+
  have flat: "file_at (flat_vmem sample_elf) ?k 0 28 (\<lambda>_. 0)"
    by (auto simp: file_at_def nb inode_addr_def ld32_flat sample_elf_def word_of_bytes_def)
  have "\<forall>i \<in> set [0..<28]. file_byte (flat_vmem sample_elf) ?k 0 i = Some (sample_hdr ! i)"
    by (simp add: file_byte_def inode_addr_def data_base_def ld32_flat upt_rec sample_hdr_def)
      (simp add: sample_elf_def word_of_bytes_def)
  then have fb: "\<forall>i < 28. file_byte (flat_vmem sample_elf) ?k 0 i = Some (sample_hdr ! i)" by simp
  have "agree ?F (flat_vmem sample_elf) (kvm ?k)" "agree (region 0x410040 4096) (flat_vmem sample_elf) (kvm ?k)"
    using agree_mono [OF flat_agree] fa kp by auto
  note a = file_agree [OF this(1) flat] directory_agree [OF this(2)]
  show ?thesis
    unfolding program_def using sample_exec_directory a fb kp dj nb fa
    by (auto simp: sample_dentry_def sample_hdr_def)
qed

lemma sample_exec_ready:
  "layout (kvm sample_exec)" "\<exists>temp. ld_bytes (kvm sample_exec) 0x420000 128 = Some temp" "reads (str_at (kvm sample_exec) 0x420000) [0x61]"
  "\<exists>k0. getPID sample_exec = (0, k0)" "elf_magic sample_hdr" "elf_entry sample_hdr = 0x08048018"
proof -
  show l: "layout (kvm sample_exec)" by (simp add: sample_vmem_layout)
  have kp: "region (0x420000 :: addr) 128 \<subseteq> kpage" by (rule kpage_region) simp_all
  have ag: "agree (region 0x420000 128) (flat_vmem sample_elf) (kvm sample_exec)" using agree_mono [OF flat_agree kp] by simp
  show "\<exists>temp. ld_bytes (kvm sample_exec) 0x420000 128 = Some temp"
    using ld_bytes_agree [OF ag] by (simp add: ld_bytes_flat)
  have "str_at (kvm sample_exec) 0x420000 i = Some (sample_elf (0x420000 + word_of_nat i))" if "i < 128" for i
    using ag region_memI [OF that, of "0x420000"] by (auto simp: agree_def str_at_def)
  from this [of 0] this [of 1] show "reads (str_at (kvm sample_exec) 0x420000) [0x61]"
    by (simp add: reads_def sample_elf_def)
  show "\<exists>k0. getPID sample_exec = (0, k0)"
    using init_PCB_free unfolding getPID_def by (auto simp: eval_nat_numeral sample_exec_def pid_free_def)
  show "elf_magic sample_hdr" "elf_entry sample_hdr = 0x08048018"
    by (simp_all add: elf_magic_def elf_entry_def sample_hdr_def)
qed

text \<open>
  C6: \<open>execute\<close> runs a program.  When the name is that of an ELF file and a process is free, the
  call leaves for user mode at the entry point in bytes 24 to 27 of the file, with interrupts on
  and the stack at the top of the user page.  The lowest free process is now the current one of
  the scheduled terminal; its parent is the process that was current; the user page is its own
  frame, and holds at 0x08048000 every byte of the file; its control block keeps the stack
  pointers, the kernel stack and the return label of the caller; the kernel stack of the process
  is the 8 KB slot of its id below 8 MB.  The address space keeps its layout.
\<close>

theorem execute_runs_program:
  assumes "program k cs d eof blk hdr" and "layout (kvm k)" and "ld_bytes (kvm k) fname 128 = Some temp"
    and "reads (str_at (kvm k) fname) cs" and "length cs < 128" and "elf_magic hdr" and "getPID k = (pid, k0)" and "pid \<noteq> -1"
  shows "\<exists>k'. execute rl fname k = Some (To_user (user_entry hdr), k') \<and> layout (kvm k') \<and>
    page_directory (kvm k') 32 = proc_pde pid \<and>
    (\<forall>i < unat eof. ld8 (kvm k') (0x08048000 + word_of_nat i) = file_byte (kvm k) k (inodeNum d) i) \<and>
    PCB_array k' = (PCB_array k)(pid := started rl k (PCB_array k pid)) \<and>
    terminals k' = (terminals k)(ct k := (terminals k (ct k))\<lparr>curr_process := pid\<rparr>) \<and>
    tss k' = (tss k)\<lparr>ss0 := 0x18, esp0 := word_of_int (0x800000 - pid * 0x2000 - 4)\<rparr> \<and>
    0 \<le> pid \<and> pid < 6 \<and> pid_free k pid \<and> iflag (mach k')"
  using execute_ok [OF assms, of rl] by blast

theorem execute_runs_program_witness:
  "\<exists>k'. execute 0x401234 0x420000 sample_exec = Some (To_user (user_entry sample_hdr), k') \<and> u_eip (user_entry sample_hdr) = 0x08048018 \<and>
    curr_process (terminals k' 0) = 0 \<and> page_directory (kvm k') 32 = proc_pde 0"
proof -
  obtain temp k0 where t: "ld_bytes (kvm sample_exec) 0x420000 128 = Some temp" and g: "getPID sample_exec = (0, k0)"
    using sample_exec_ready(2,4) by blast
  have c: "cur_terminal sample_exec = 0"
    by (simp add: sample_exec_def)
  from execute_runs_program [OF sample_program sample_exec_ready(1) t sample_exec_ready(3) _ sample_exec_ready(5) g, of "0x401234"]
  show ?thesis using sample_exec_ready(6) c by (auto simp: user_entry_def)
qed

text \<open>
  C17: the failures of \<open>execute\<close>.  For a name that is not in the directory the call returns -1
  and the kernel is as before.  For a file without the ELF magic number it also returns -1, but
  the process it allocated stays in use, is the current process of the terminal, and owns the
  user page: the caller's memory is no longer mapped.
\<close>

theorem execute_failures:
  assumes "layout (kvm k)" and "ld_bytes (kvm k) fname 128 = Some temp" and "reads (str_at (kvm k) fname) cs"
    and "directory (kvm k) (startdentry k) = Some ds"
  shows "(find (\<lambda>d. entry_name (dname d) = take 32 cs) ds = None \<longrightarrow> execute rl fname k = Some (Returns (-1), k)) \<and>
    (program k cs d eof blk hdr \<and> \<not> elf_magic hdr \<and> fst (getPID k) = pid \<and> pid \<noteq> -1 \<longrightarrow>
      (\<exists>k'. execute rl fname k = Some (Returns (-1), k') \<and> \<not> pid_free k' pid \<and> cur_process k' = pid \<and>
        page_directory (kvm k') 32 = proc_pde pid))"
proof (intro conjI impI; (elim conjE)?)
  assume "find (\<lambda>d. entry_name (dname d) = take 32 cs) ds = None"
  then show "execute rl fname k = Some (Returns (-1), k)"
    using assms(2) read_dentry_by_name_eq [OF assms(4,3), of "currDentry k"]
    by (simp add: execute_def read_ELF_def file_open_def)
next
  assume p: "program k cs d eof blk hdr" and m: "\<not> elf_magic hdr" and g: "fst (getPID k) = pid" and ne: "pid \<noteq> -1"
  obtain k0 where g': "getPID k = (pid, k0)" using g by (cases "getPID k") auto
  obtain k1 v1 where k1: "read_ELF (str_at (kvm k) fname) (elf_buf k) (-1) k = Some (28, k1)" "k1 = set_vm v1 (k\<lparr>currDentry := d\<rparr>)"
    "program k1 cs d eof blk hdr" "layout (kvm k1)" "ld_bytes (kvm k1) (elf_buf k) 28 = Some hdr"
    using read_ELF_program [OF p assms(3,1)] by blast
  have n: "(28 :: int) \<noteq> -1" and pc: "PCB_array k1 = PCB_array k" by (simp_all add: k1(2))
  note ex = execute_eq(1) [OF assms(2) k1(1) n g' ne pc k1(4), of rl] execute_eq(2,3) [OF assms(2) k1(1) n g' ne pc k1(4)]
  have "region (elf_buf k1) 28 \<subseteq> kpage" using k1(3) by (simp add: program_def)
  from ld_bytes_agree [OF agree_mono [OF with_process_program(3) [OF k1(3,4) ex(2,3), of rl] this]]
  have "execute rl fname k = Some (Returns (-1), with_process rl pid k1)"
    unfolding ex(1) using k1(2,5) m by (simp add: start_image_def)
  then show "\<exists>k'. execute rl fname k = Some (Returns (-1), k') \<and> \<not> pid_free k' pid \<and> cur_process k' = pid \<and>
      page_directory (kvm k') 32 = proc_pde pid"
    by (simp add: pid_free_def started_def)
qed

theorem execute_failures_witness:
  "execute 0x401234 0x412001 sample_exec = Some (Returns (-1), sample_exec)"
proof -
  let ?cs = "[0x45, 0x4C, 0x46] :: u8 list"
  obtain ds where ds: "directory (flat_vmem sample_elf) 0x410040 = Some ds" using sample_exec_directory by blast
  have "entry_name (dname d) \<noteq> take 32 ?cs" if dm: "d \<in> set ds" for d
  proof
    assume e: "entry_name (dname d) = take 32 ?cs"
    have l: "length ds = 64" using length_those [OF ds [unfolded directory_def]] by simp
    then obtain i where i: "i < 64" "d = ds ! i" using dm by (auto simp: in_set_conv_nth)
    have "copy_dentry (flat_vmem sample_elf) (0x410040 + 64 * word_of_nat i) = Some d"
      using those_nth [OF ds [unfolded directory_def], of i] i by simp
    then have "dname d = map (\<lambda>j. sample_elf (0x410040 + 64 * word_of_nat i + word_of_nat j)) [0..<32]"
      by (auto simp: copy_dentry_def ld_bytes_flat ld32_flat)
    then have "dname d ! 0 = sample_elf (0x410040 + 64 * word_of_nat i)" by simp
    moreover have "dname d ! 0 = 0x45" using entry_name_nth [of 0 "dname d"] e by simp
    ultimately have "sample_elf (0x410040 + 64 * word_of_nat i) = 0x45" by simp
    then have "0x410040 + 64 * word_of_nat i = (0x412001 :: u32)" by (auto simp: sample_elf_def split: if_splits)
    moreover have "unat (0x410040 + 64 * word_of_nat i :: u32) = 0x410040 + 64 * i"
      using i(1) by (simp add: unat_word_ariths unat_word_of_nat_u32)
    ultimately show False using i(1) by simp
  qed
  then have none: "find (\<lambda>d. entry_name (dname d) = take 32 ?cs) ds = None" by (simp add: find_None_iff)
  have kp: "region (0x412001 :: addr) 128 \<subseteq> kpage" "region (0x410040 :: addr) 4096 \<subseteq> kpage" by (rule kpage_region; simp)+
  have ag: "agree (region 0x412001 128) (flat_vmem sample_elf) (kvm sample_exec)" using agree_mono [OF flat_agree kp(1)] by simp
  obtain temp where t: "ld_bytes (kvm sample_exec) 0x412001 128 = Some temp"
    using ld_bytes_agree [OF ag] by (simp add: ld_bytes_flat)
  have b: "str_at (kvm sample_exec) 0x412001 i = Some (sample_elf (0x412001 + word_of_nat i))" if "i < 128" for i
    using ag region_memI [OF that, of "0x412001"] by (auto simp: agree_def str_at_def)
  have r: "reads (str_at (kvm sample_exec) 0x412001) ?cs"
  proof -
    let ?r = "str_at (kvm sample_exec) 0x412001"
    have "?r 0 = Some 0x45" "?r (Suc 0) = Some 0x4C" "?r (Suc (Suc 0)) = Some 0x46" "?r (Suc (Suc (Suc 0))) = Some 0"
      by (simp_all add: b sample_elf_def del: sample_exec_fields)
    then show ?thesis by (simp add: reads_def All_less_Suc del: sample_exec_fields)
  qed
  have dir: "directory (kvm sample_exec) (startdentry sample_exec) = Some ds"
    using directory_agree [OF agree_mono [OF flat_agree kp(2)]] ds by simp
  show ?thesis using execute_failures [OF sample_exec_ready(1) t r dir, of "0x401234"] none by blast
qed

end
