(* ===== verification/Halt.thy ===== *)
theory Halt
  imports Execute
begin

text \<open>
  Process termination, \<open>student-distrib/halt.c\<close>.  \<open>halt\<close> ends with a jump to the label in the
  parent's \<open>execute\<close>, or, for a shell without a parent, in a loop that starts the shell again
  until \<open>execute\<close> leaves for user mode.
\<close>

section \<open>Definitions\<close>

fun destruct_fds :: "int \<Rightarrow> int \<Rightarrow> nat \<Rightarrow> kernel \<Rightarrow> kernel" where
  "destruct_fds pid i 0 k = k"
| "destruct_fds pid i (Suc n) k = destruct_fds pid (i + 1) n
     (upd_fd pid i (\<lambda>e. e\<lparr>file_pos := 0, fdFileType := -1, present := -1, inode_number := -1, jump_start_idx := None\<rparr>) k)"

definition destruct_pcb :: "int \<Rightarrow> kernel \<Rightarrow> kernel" where
  "destruct_pcb pid k =
     upd_pcb pid (\<lambda>p. p\<lparr>pcb_in_use := -1, args := lcopy (args p) (replicate 1023 0) 1023, pcb_esp := -1, pcb_ebp := -1,
                        return_label_add := -1, parent_pid := -1\<rparr>) (destruct_fds pid 2 6 k)"

definition printf_lit :: "string \<Rightarrow> kernel \<Rightarrow> kernel option" where
  "printf_lit s k = on_mach (printf_arr (\<lambda>_. 0) (map of_char s @ [0])) k"

partial_function (option) halt_shell :: "u32 \<Rightarrow> int \<Rightarrow> kernel \<Rightarrow> (outcome \<times> kernel) option" where
  "halt_shell ret_label curr_pcb k = do {
     let k = upd_pcb curr_pcb (\<lambda>p. p\<lparr>pcb_in_use := -1\<rparr>) k;
     k \<leftarrow> (if 0 \<le> curr_pcb \<and> curr_pcb < 3 then Some (upd_term (nat curr_pcb) (\<lambda>t. t\<lparr>curr_process := -1\<rparr>) k) else None);
     k \<leftarrow> printf_lit ''Ree-'' k;
     (out, k) \<leftarrow> execute ret_label (shell_name k) k;
     (case out of Returns _ \<Rightarrow> halt_shell ret_label curr_pcb k | _ \<Rightarrow> Some (out, k))
   }"

definition halt :: "u32 \<Rightarrow> u8 \<Rightarrow> kernel \<Rightarrow> (outcome \<times> kernel) option" where
  "halt ret_label status k =
     (let k = upd_mach cli k;
          curr_pcb = cur_process k;
          p = PCB_array k curr_pcb
      in if parent_pid p = -1 then halt_shell ret_label curr_pcb k
      else
        let k = destruct_pcb curr_pcb k;
            parent = parent_pid p;
            k = k\<lparr>tss := (tss k)\<lparr>ss0 := pcb_ss0 p, esp0 := pcb_esp0 p\<rparr>\<rparr>;
            k = upd_term (ct k) (\<lambda>t. t\<lparr>curr_process := parent\<rparr>) k;
            k = set_vm (map_page (word_of_int ((parent + 2) * 0x400000)) 0x08000000 0x87 (kvm k)) k;
            k = upd_mach sti k;
            k = k\<lparr>esp := pcb_esp p, ebp := pcb_ebp p\<rparr>
        in Some (Jumps (return_label_add p), k))"

section \<open>Ending a process\<close>

lemma destruct_fds_fields [simp]:
  "mach (destruct_fds pid i n k) = mach k" "terminals (destruct_fds pid i n k) = terminals k" "tss (destruct_fds pid i n k) = tss k"
  "cur_terminal (destruct_fds pid i n k) = cur_terminal k" "ret_val (destruct_fds pid i n k) = ret_val k"
  "j \<noteq> pid \<Longrightarrow> PCB_array (destruct_fds pid i n k) j = PCB_array k j"
  by (induction n arbitrary: i k) (auto simp: upd_fd_def)

lemma destruct_fds_present:
  "present (fd_of (destruct_fds pid i n k) pid j) = (if i \<le> j \<and> j < i + int n then -1 else present (fd_of k pid j))"
  by (induction n arbitrary: i k) auto

lemma halt_returns:
  assumes "p = PCB_array k (cur_process k)" and "0 \<le> parent_pid p" and "parent_pid p < 6" and "layout (kvm k)"
  shows "\<exists>k'. halt rl status k = Some (Jumps (return_label_add p), k') \<and> esp k' = pcb_esp p \<and> ebp k' = pcb_ebp p \<and>
    tss k' = (tss k)\<lparr>ss0 := pcb_ss0 p, esp0 := pcb_esp0 p\<rparr> \<and> cur_process k' = parent_pid p \<and> cur_terminal k' = cur_terminal k \<and>
    layout (kvm k') \<and> page_directory (kvm k') 32 = proc_pde (parent_pid p) \<and> pmem (kvm k') = pmem (kvm k) \<and>
    pid_free k' (cur_process k) \<and> (\<forall>fd. 2 \<le> fd \<and> fd < 8 \<longrightarrow> fd_free (cur_process k) k' fd) \<and>
    (\<forall>j. j \<noteq> cur_process k \<longrightarrow> PCB_array k' j = PCB_array k j) \<and> iflag (mach k') \<and> ret_val k' = ret_val k"
proof -
  have ne: "parent_pid p \<noteq> -1" using assms(2) by simp
  note mp = map_process_page [OF assms(4,2,3)]
  have "map_page (word_of_int ((parent_pid p + 2) * 0x400000)) 0x08000000 0x87 (kvm k) = set_pde 32 (proc_pde (parent_pid p)) (kvm k)"
    using mp(1) by (simp add: proc_page_def)
  then show ?thesis
    using ne mp assms(1)
    by (simp add: halt_def Let_def destruct_pcb_def cli_def sti_def pid_free_def fd_free_def destruct_fds_present)
qed

section \<open>Restarting a shell\<close>

lemma screen_kpage_apart:
  assumes "layout v"
  shows "apart v screen_region kpage"
proof -
  obtain t where t: "t < 4" "page_table v 0xB8 = ((0xB8 + t) * 4096) OR 3" using layoutD(8) [OF assms] by blast
  have "translate v b \<noteq> Some p" if a: "a \<in> screen_region" "translate v a = Some p" and b: "b \<in> kpage" for a b p
  proof
    assume "translate v b = Some p"
    then have p: "b = p" using translate_kernel_page(1) [OF assms] b by (simp add: kpage_def)
    have "a \<in> region VIDEO 4096" using a(1) region_mono [of 4000 4096 VIDEO] by auto
    from translate_video_page(1) [OF assms screen_addr(1) [OF this] t(2,1)] a(2)
    have "drop_bit 12 p = 0xB8 + t" using video_frame_addr [OF t(1)] by simp
    moreover have "drop_bit 22 p = drop_bit 10 (drop_bit 12 p)" by (simp only: drop_bit_drop_bit) simp
    ultimately have "drop_bit 22 p = 0" using u32_lt4 [OF t(1)] by (simp only:) auto
    with b p show False by (simp add: kpage_def)
  qed
  then show ?thesis unfolding apart_def by auto
qed

lemma printf_lit_ok:
  assumes "layout (kvm k)" and "cursor_ok (mach k)" and "0 \<notin> set (map of_char s :: u8 list)" and "0x25 \<notin> set (map of_char s :: u8 list)"
  shows "\<exists>m'. printf_lit s k = Some (k\<lparr>mach := m'\<rparr>) \<and> layout (vm m') \<and> cursor_ok m' \<and> agree kpage (kvm k) (vm m')"
proof -
  obtain con where "displays (mach k) con"
    using displays_exists [of "mach k"] screen_mapped [OF assms(1)] assms(2) by auto
  from pc.run_displays [OF this, of "map of_char s"] obtain m' where m': "run_ops putc (map of_char s) (mach k) = Some m'"
    "displays m' (fold con_putc (map of_char s) con)" "console_frame (mach k) m'" by auto
  then have ch: "changes screen_region (kvm k) (vm m')" by (simp add: console_frame_def)
  have "printf_lit s k = Some (k\<lparr>mach := m'\<rparr>)"
    using printf_arr_plain [OF assms(3,4), of "\<lambda>_. 0" "[]" "mach k"] m'(1) by (simp add: printf_lit_def on_mach_def)
  moreover have "layout (vm m')" using assms(1) layout_same_map [OF changes_same_map [OF ch]] by simp
  moreover have "agree kpage (kvm k) (vm m')" by (rule agree_changes [OF ch screen_kpage_apart [OF assms(1)]])
  ultimately show ?thesis using m'(2) by (auto simp: displays_def)
qed

lemma getPID_lowest:
  assumes "pid_free k pid" and "0 \<le> pid" and "pid < 6" and "\<forall>j. 0 \<le> j \<and> j < pid \<longrightarrow> \<not> pid_free k j"
  shows "\<exists>k0. getPID k = (pid, k0)"
  using scan_cases [of 0 6 pid_free k "\<lambda>i. upd_pcb i (\<lambda>p. p\<lparr>pcb_in_use := 0\<rparr>)"] assms
  by (auto simp: getPID_scan) (metis linorder_neqE_linordered_idom)

lemma reads_agree:
  assumes "agree (region a 128) v v'" and "length cs < 128"
  shows "reads (str_at v' a) cs = reads (str_at v a) cs"
proof -
  have "str_at v' a i = str_at v a i" if "i < 128" for i
    using assms(1) region_memI [OF that, of a] by (auto simp: agree_def str_at_def)
  then show ?thesis using assms(2) by (auto simp: reads_def)
qed

lemma halt_restarts:
  assumes pid: "pid = cur_process k" "0 \<le> pid" "pid < 3" "ct k = nat pid" "parent_pid (PCB_array k pid) = -1"
    and k: "layout (kvm k)" "cursor_ok (mach k)" and low: "\<forall>j. 0 \<le> j \<and> j < pid \<longrightarrow> \<not> pid_free k j"
    and p: "program k cs d eof blk hdr" "elf_magic hdr" "length cs < 128" and nm: "region (shell_name k) 128 \<subseteq> kpage"
      "reads (str_at (kvm k) (shell_name k)) cs"
  shows "\<exists>k'. halt rl status k = Some (To_user (user_entry hdr), k') \<and> cur_process k' = pid \<and>
    parent_pid (PCB_array k' pid) = -1 \<and> page_directory (kvm k') 32 = proc_pde pid \<and> layout (kvm k') \<and>
    (\<forall>i < unat eof. ld8 (kvm k') (0x08048000 + word_of_nat i) = file_byte (kvm k) k (inodeNum d) i)"
proof -
  let ?k1 = "upd_term (nat pid) (\<lambda>t. t\<lparr>curr_process := -1\<rparr>) (upd_pcb pid (\<lambda>p. p\<lparr>pcb_in_use := -1\<rparr>) (upd_mach cli k))"
  have k1: "layout (kvm ?k1)" "cursor_ok (mach ?k1)" using k by (simp_all add: cli_def cursor_ok_def)
  obtain m2 where m2: "printf_lit ''Ree-'' ?k1 = Some (?k1\<lparr>mach := m2\<rparr>)" "layout (vm m2)" "agree kpage (kvm k) (vm m2)"
    using printf_lit_ok [OF k1, of "''Ree-''"] by (auto simp: cli_def)
  let ?k2 = "?k1\<lparr>mach := m2\<rparr>"
  have F: "file_area k (inodeNum d) eof blk \<union> region (startdentry k) 4096 \<subseteq> kpage" using p(1) by (simp add: program_def)
  have "agree (file_area k (inodeNum d) eof blk \<union> region (startdentry k) 4096) (kvm k) (kvm ?k2)"
    using agree_mono [OF m2(3) F] by simp
  note pr = program_agree [OF p(1) this]
  have an: "agree (region (shell_name k) 128) (kvm k) (kvm ?k2)" using agree_mono [OF m2(3) nm(1)] by simp
  have "mapped (kvm k) (region (shell_name k) 128)" by (rule kpage_mapped [OF k(1) nm(1)])
  then obtain temp where t: "ld_bytes (kvm ?k2) (shell_name ?k2) 128 = Some temp"
    using ld_bytes_agree [OF an] ld_bytes_mapped [of "kvm k" "shell_name k" 128] by auto
  have r: "reads (str_at (kvm ?k2) (shell_name ?k2)) cs" using reads_agree [OF an p(3)] nm(2) by simp
  obtain k0 where g: "getPID ?k2 = (pid, k0)"
    using getPID_lowest [of ?k2 pid] pid(2,3) low by (auto simp: pid_free_def)
  have pk: "program ?k2 cs d eof blk hdr" by (rule pr(1)) simp_all
  have l2: "layout (kvm ?k2)" using m2(2) by simp
  have ne: "pid \<noteq> -1" using pid(2) by simp
  obtain k' where k': "execute rl (shell_name ?k2) ?k2 = Some (To_user (user_entry hdr), k')" "layout (kvm k')"
    "page_directory (kvm k') 32 = proc_pde pid"
    "\<forall>i < unat eof. ld8 (kvm k') (0x08048000 + word_of_nat i) = file_byte (kvm ?k2) ?k2 (inodeNum d) i"
    "PCB_array k' = (PCB_array ?k2)(pid := started rl ?k2 (PCB_array ?k2 pid))"
    "terminals k' = (terminals ?k2)(ct ?k2 := (terminals ?k2 (ct ?k2))\<lparr>curr_process := pid\<rparr>)" "cur_terminal k' = cur_terminal ?k2"
    using execute_ok [OF pk l2 t r p(3,2) g ne, of rl] by blast
  have "halt_shell rl pid (upd_mach cli k) = Some (To_user (user_entry hdr), k')"
    using m2(1) k'(1) pid(2,3) by (subst halt_shell.simps) (simp add: Let_def)
  then have h: "halt rl status k = Some (To_user (user_entry hdr), k')"
    using pid(1,5) by (simp add: halt_def Let_def)
  have "parent_pid (PCB_array k' pid) = -1" using pid(1,2,4) by (simp add: k'(5) started_def)
  then show ?thesis using h k'(2,3,4,6,7) pr(2) by simp
qed

section \<open>Properties\<close>

text \<open>
  C15: a child process returns to its caller.  \<open>execute\<close> has started a program from kernel state
  \<open>k\<close> on behalf of process \<open>parent\<close>.  Whenever later that program is the current process of the
  scheduled terminal, with the saved part of its control block as \<open>execute\<close> left it, its
  \<open>halt\<close> jumps to the return label with the stack pointers, the kernel stack of the task state
  segment and the current process as they were in \<open>k\<close>, the parent's frame back in the user page,
  interrupts on, and the child's process id and descriptors free.  The status given to \<open>halt\<close>
  is dropped: the caller gets \<open>ret_val\<close>, which no code assigns.
\<close>

theorem child_returns_to_caller:
  assumes "program k cs d eof blk hdr" and "layout (kvm k)" and "ld_bytes (kvm k) fname 128 = Some temp"
    and "reads (str_at (kvm k) fname) cs" and "length cs < 128" and "elf_magic hdr" and "getPID k = (pid, k0)" and "pid \<noteq> -1"
    and "cur_process k = parent" and "0 \<le> parent" and "parent < 6"
    and "execute rl fname k = Some (To_user ctx, k1)"
    and "layout (kvm k2)" and "cur_process k2 = pid" and "PCB_array k2 pid = (PCB_array k1 pid)\<lparr>fd_table := fds, args := as\<rparr>"
  shows "\<exists>k3. halt rl status k2 = Some (Jumps rl, k3) \<and> esp k3 = esp k \<and> ebp k3 = ebp k \<and>
    esp0 (tss k3) = esp0 (tss k) \<and> ss0 (tss k3) = ss0 (tss k) \<and> cur_process k3 = parent \<and> cur_terminal k3 = cur_terminal k2 \<and>
    page_directory (kvm k3) 32 = proc_pde parent \<and> layout (kvm k3) \<and> iflag (mach k3) \<and> pid_free k3 pid \<and>
    (\<forall>fd. 2 \<le> fd \<and> fd < 8 \<longrightarrow> fd_free pid k3 fd) \<and> execute_return k3 = (Returns (ret_val k2), k3)"
proof -
  have "PCB_array k1 pid = started rl k (PCB_array k pid)" using execute_ok [OF assms(1-8), of rl] assms(12) by auto
  then have p: "return_label_add (PCB_array k2 pid) = rl" "pcb_esp (PCB_array k2 pid) = esp k" "pcb_ebp (PCB_array k2 pid) = ebp k"
    "pcb_esp0 (PCB_array k2 pid) = esp0 (tss k)" "pcb_ss0 (PCB_array k2 pid) = ss0 (tss k)" "parent_pid (PCB_array k2 pid) = parent"
    using assms(9,15) by (simp_all add: started_def)
  have "0 \<le> parent_pid (PCB_array k2 (cur_process k2))" "parent_pid (PCB_array k2 (cur_process k2)) < 6"
    using p(6) assms(10,11,14) by simp_all
  from halt_returns [OF refl this assms(13), of rl status] show ?thesis
    using p assms(14) by (auto simp: execute_return_def)
qed

definition sample_child :: kernel where
  "sample_child = upd_term 0 (\<lambda>t. t\<lparr>curr_process := 3\<rparr>) sample_exec"

lemma sample_child_program: "program sample_child [0x61] sample_dentry 28 (\<lambda>_. 0) sample_hdr"
  using program_agree(1) [OF sample_program, of sample_child] by (simp add: sample_child_def agree_def)

theorem child_returns_to_caller_witness:
  "\<exists>ctx k1 k3. execute 0x401234 0x420000 sample_child = Some (To_user ctx, k1) \<and> halt 0x401234 7 k1 = Some (Jumps 0x401234, k3) \<and>
    esp k3 = esp sample_child \<and> curr_process (terminals k3 0) = 3"
proof -
  obtain temp k0 where t: "ld_bytes (kvm sample_child) 0x420000 128 = Some temp" and g: "fst (getPID sample_exec) = 0"
    using sample_exec_ready(2,4) by (auto simp: sample_child_def)
  have g: "fst (getPID sample_child) = 0" using g getPID_cong [of sample_child sample_exec] by (simp add: sample_child_def)
  then obtain k0 where g: "getPID sample_child = (0, k0)" by (cases "getPID sample_child") auto
  have c: "cur_terminal sample_child = 0"
    by (simp add: sample_child_def sample_exec_def zero_kernel_def)
  have cp: "cur_process sample_child = 3" using c by (simp add: sample_child_def)
  have l: "layout (kvm sample_child)" using sample_exec_ready(1) by (simp add: sample_child_def)
  have r: "reads (str_at (kvm sample_child) 0x420000) [0x61]" using sample_exec_ready(3) by (simp add: sample_child_def)
  note pre = sample_child_program l t r _ sample_exec_ready(5) g
  obtain k1 where k1: "execute 0x401234 0x420000 sample_child = Some (To_user (user_entry sample_hdr), k1)" "layout (kvm k1)"
    "terminals k1 = (terminals sample_child)(ct sample_child := (terminals sample_child (ct sample_child))\<lparr>curr_process := 0\<rparr>)"
    "cur_terminal k1 = cur_terminal sample_child"
    using execute_ok [OF pre, of "0x401234"] by auto
  have k1c: "cur_process k1 = 0" using k1(3,4) by simp
  have same: "PCB_array k1 0 = (PCB_array k1 0)\<lparr>fd_table := fd_table (PCB_array k1 0), args := args (PCB_array k1 0)\<rparr>" by simp
  obtain k3 where k3: "halt 0x401234 7 k1 = Some (Jumps 0x401234, k3)" "esp k3 = esp sample_child" "cur_process k3 = 3"
    "cur_terminal k3 = cur_terminal k1"
    using child_returns_to_caller [OF sample_child_program l t r _ sample_exec_ready(5) g _ cp _ _ k1(1,2) k1c same, of 7] by auto
  then show ?thesis using k1 c by auto
qed

text \<open>
  C16: a base shell that halts is started again.  When the shell of terminal \<open>pid\<close> (which has no
  parent, and all lower process ids are in use) halts, and the shell program is in the file
  system, the loop in \<open>halt\<close> ends: the terminal runs the shell program afresh, from its entry
  point, as process \<open>pid\<close> without a parent, with the program image reloaded.
\<close>

theorem shell_restarts:
  assumes "pid = cur_process k" and "0 \<le> pid" and "pid < 3" and "ct k = nat pid" and "parent_pid (PCB_array k pid) = -1"
    and "layout (kvm k)" and "cursor_ok (mach k)" and "\<forall>j. 0 \<le> j \<and> j < pid \<longrightarrow> \<not> pid_free k j"
    and "program k cs d eof blk hdr" and "elf_magic hdr" and "length cs < 128" and "region (shell_name k) 128 \<subseteq> kpage"
    and "reads (str_at (kvm k) (shell_name k)) cs"
  shows "\<exists>k'. halt rl status k = Some (To_user (user_entry hdr), k') \<and> cur_process k' = pid \<and>
    parent_pid (PCB_array k' pid) = -1 \<and> page_directory (kvm k') 32 = proc_pde pid \<and> layout (kvm k') \<and>
    (\<forall>i < unat eof. ld8 (kvm k') (0x08048000 + word_of_nat i) = file_byte (kvm k) k (inodeNum d) i)"
  by (rule halt_restarts [OF assms])

definition sample_shell :: kernel where
  "sample_shell = upd_term 0 (\<lambda>t. t\<lparr>curr_process := 0\<rparr>) (upd_pcb 0 (\<lambda>p. p\<lparr>pcb_in_use := 0, parent_pid := -1\<rparr>) sample_exec)"

theorem shell_restarts_witness:
  "\<exists>k'. halt 0x401234 0 sample_shell = Some (To_user (user_entry sample_hdr), k') \<and> cur_process k' = 0"
proof -
  have c: "cur_terminal sample_shell = 0" "shell_name sample_shell = 0x420000"
    by (simp_all add: sample_shell_def sample_exec_def zero_kernel_def)
  have p: "program sample_shell [0x61] sample_dentry 28 (\<lambda>_. 0) sample_hdr"
    using program_agree(1) [OF sample_program, of sample_shell] by (simp add: sample_shell_def agree_def)
  have cp: "0 = cur_process sample_shell" "parent_pid (PCB_array sample_shell 0) = -1" using c by (simp_all add: sample_shell_def)
  have l: "layout (kvm sample_shell)" "cursor_ok (mach sample_shell)"
    using sample_exec_ready(1)
    by (simp_all add: sample_shell_def sample_exec_def zero_kernel_def cursor_ok_def NUM_COLS_def NUM_ROWS_def)
  have kp: "region (shell_name sample_shell) 128 \<subseteq> kpage" unfolding c by (rule kpage_region) simp_all
  have r: "reads (str_at (kvm sample_shell) (shell_name sample_shell)) [0x61]"
    using sample_exec_ready(3) unfolding c by (simp add: sample_shell_def)
  have lo: "\<forall>j. 0 \<le> j \<and> j < (0 :: int) \<longrightarrow> \<not> pid_free sample_shell j" by auto
  have z: "(0 :: int) \<le> 0" "(0 :: int) < 3" "ct sample_shell = nat 0" "length [0x61 :: u8] < 128" using c by simp_all
  from shell_restarts [OF cp(1) z(1,2,3) cp(2) l lo p sample_exec_ready(5) z(4) kp r, of "0x401234" 0] show ?thesis by blast
qed

end
