(* ===== verification/Scheduler.thy ===== *)
theory Scheduler
  imports Halt
begin

text \<open>
  The timer interrupt, \<open>pit_handler\<close> of \<open>student-distrib/schedule.c\<close> (lines 61 to 126): it
  saves the context of the interrupted terminal, goes to the next one, starts the three base
  shells on the first three ticks, and otherwise loads the context of that terminal.  The result
  is \<open>Returns\<close> with the new stack pointers in \<open>esp\<close> and \<open>ebp\<close>, or \<open>To_user\<close> on a tick that
  starts a shell.

  The lemmas work with the context of a terminal: stack pointers, task state segment, cursor and
  current process.  That of the scheduled terminal is in the registers and globals, that of
  another one in its structure and the control block of its process.
\<close>

section \<open>Definitions\<close>

definition save_task :: "kernel \<Rightarrow> kernel" where
  "save_task k =
     (let k = upd_term (ct k) (\<lambda>t. t\<lparr>save_tss := tss k\<rparr>) k;
          k = upd_pcb (cur_process k) (\<lambda>p. p\<lparr>task_esp := esp k, task_ebp := ebp k\<rparr>) k
      in upd_term (ct k) (\<lambda>t. t\<lparr>t_screen_x := word_of_int (get_screen_x (mach k)),
                                t_screen_y := word_of_int (get_screen_y (mach k))\<rparr>) k)"

definition load_task :: "kernel \<Rightarrow> kernel" where
  "load_task k =
     (let k = k\<lparr>tss := save_tss (terminals k (ct k))\<rparr>;
          p = PCB_array k (cur_process k);
          k = map_current_video k;
          k = upd_mach (set_screenxy (uint (t_screen_x (terminals k (ct k)))) (uint (t_screen_y (terminals k (ct k))))) k;
          k = set_vm (map_page (word_of_int ((cur_process k + 2) * 0x400000)) 0x08000000 0x87 (kvm k)) k;
          k = k\<lparr>esp := task_esp p, ebp := task_ebp p\<rparr>
      in upd_mach (send_eoi 0) k)"

definition start_shell :: "u32 \<Rightarrow> kernel \<Rightarrow> (outcome \<times> kernel) option" where
  "start_shell ret_label k = do {
     k \<leftarrow> switch_terminal (pitCount k) k;
     k \<leftarrow> on_mach clear k;
     let k = upd_term (ct k) (\<lambda>t. t\<lparr>t_screen_x := word_of_int (get_screen_x (mach k)),
                                    t_screen_y := word_of_int (get_screen_y (mach k))\<rparr>) k;
     let k = k\<lparr>pitCount := pitCount k + 1\<rparr>;
     let k = upd_mach (send_eoi 0) k;
     execute ret_label (shell_name k) k
   }"

definition pit_handler :: "u32 \<Rightarrow> kernel \<Rightarrow> (outcome \<times> kernel) option" where
  "pit_handler ret_label k = do {
     let k = k\<lparr>pitIntrCount := pitIntrCount k + 1\<rparr>;
     k \<leftarrow> on_mach (test_interrupts (uint (pitIntrCount k))) k;
     let k = save_task k;
     let k = k\<lparr>cur_terminal := (cur_terminal k + 1) mod 3\<rparr>;
     if pitCount k < 3 then do {
       (out, k) \<leftarrow> start_shell ret_label k;
       (case out of Returns _ \<Rightarrow> Some (Returns 0, load_task k) | _ \<Rightarrow> Some (out, k))
     }
     else if pitCount k = 3 then do {
       k \<leftarrow> switch_terminal 0 k;
       let k = k\<lparr>pitCount := pitCount k + 1\<rparr>;
       Some (Returns 0, load_task k)
     }
     else Some (Returns 0, load_task k)
   }"

section \<open>The attribute bytes\<close>

text \<open>
  On every tick \<open>test_interrupts\<close> adds the tick counter to the attribute byte of every cell of
  the mapped video page.  Nothing but attribute bytes of that page changes.
\<close>

definition attr_region :: "addr set" where
  "attr_region = (\<lambda>i. cell_addr (int i) + 1) ` {..<2000}"

lemma attr_region_screen: "attr_region \<subseteq> screen_region"
proof
  fix a assume "a \<in> attr_region"
  then obtain i where i: "i < 2000" "a = cell_addr (int i) + 1" by (auto simp: attr_region_def)
  then have "a = VIDEO + word_of_nat (2 * i + 1)" by (simp add: cell_addr_nat)
  then show "a \<in> screen_region" using region_memI [of "2 * i + 1" 4000 VIDEO] i(1) by simp
qed

lemma test_interrupts_from_ok:
  assumes "mapped v screen_region" and "i + n \<le> 2000"
  shows "\<exists>v'. test_interrupts_from c (int i) n v = Some v' \<and> changes attr_region v v'"
  using assms
proof (induction n arbitrary: i v)
  case (Suc n)
  have a: "cell_addr (int i) + 1 \<in> attr_region" using Suc.prems(2) by (auto simp: attr_region_def)
  then have "cell_addr (int i) + 1 \<in> screen_region" using attr_region_screen by blast
  then obtain p where p: "translate v (cell_addr (int i) + 1) = Some p" using Suc.prems(1) by (auto simp: mapped_def)
  then obtain b v1 where v1: "ld8 v (cell_addr (int i) + 1) = Some b"
    "st8 v (cell_addr (int i) + 1) (b + word_of_int c) = Some v1" by (auto simp: ld8_def st8_def)
  have c1: "changes attr_region v v1" by (rule changes_mono [OF st8_changes [OF v1(2)]]) (use a in simp)
  have "mapped v1 screen_region" using Suc.prems(1) changes_mapped [OF c1] by simp
  from Suc.IH [OF this, of "Suc i"] Suc.prems(2) obtain v' where
    "test_interrupts_from c (int (Suc i)) n v1 = Some v'" "changes attr_region v1 v'" by auto
  with v1 c1 show ?case by (auto simp: add.commute intro: changes_trans)
qed simp

lemma test_interrupts_ok:
  assumes "layout (vm m)"
  shows "\<exists>v'. test_interrupts c m = Some (m\<lparr>vm := v'\<rparr>) \<and> changes attr_region (vm m) v' \<and> layout v'"
proof -
  obtain v' where "test_interrupts_from c 0 2000 (vm m) = Some v'" "changes attr_region (vm m) v'"
    using test_interrupts_from_ok [OF screen_mapped [OF assms], of 0 2000 c] by auto
  then show ?thesis
    using assms layout_same_map [OF changes_same_map [of attr_region "vm m" v']]
    by (auto simp: test_interrupts_def NUM_ROWS_def NUM_COLS_def)
qed

lemma attr_frame:
  assumes "layout v" and "changes attr_region v v'" and "page_table v 0xB8 = ((0xB8 + t) * 4096) OR 3" and "t < 4"
    and "\<not> bit p 0 \<or> drop_bit 12 p \<noteq> 0xB8 + t"
  shows "pmem v' p = pmem v p"
proof -
  have "translate v a \<noteq> Some p" if a: "a \<in> attr_region" for a
  proof
    assume tr: "translate v a = Some p"
    obtain i where i: "i < 2000" "a = cell_addr (int i) + 1" using a by (auto simp: attr_region_def)
    have "a \<in> region VIDEO 4096" using a attr_region_screen region_mono [of 4000 4096 VIDEO] by auto
    from translate_video_page(1) [OF assms(1) screen_addr(1) [OF this] assms(3,4)] tr
    have p: "p = ((0xB8 + t) * 4096) OR take_bit 12 a" by simp
    have "drop_bit 12 p = 0xB8 + t" unfolding p by (rule video_frame_addr [OF assms(4)])
    moreover have "bit p 0"
    proof -
      have "a = VIDEO + 2 * word_of_nat i + 1" using i(2) by (simp add: cell_addr_nat)
      then have "odd a" by (simp add: VIDEO_def)
      then have "bit a 0" by (simp add: bit_0)
      then show ?thesis unfolding p by (simp add: bit_simps)
    qed
    ultimately show False using assms(5) by simp
  qed
  then show ?thesis using assms(2) unfolding changes_def by blast
qed

section \<open>The tick\<close>

definition video_pte :: "u8 \<Rightarrow> u8 \<Rightarrow> u32" where
  "video_pte cur vis = ((0xB8 + (if cur = vis then 0 else 1 + ucast cur)) * 4096) OR 3"

text \<open>The context of a terminal: stack pointers, task state segment, cursor, current process.\<close>

definition task_ctx :: "kernel \<Rightarrow> nat \<Rightarrow> u32 \<times> u32 \<times> tss_t \<times> int \<times> int \<times> int" where
  "task_ctx k i = (let t = terminals k i; p = PCB_array k (curr_process t) in
     if i = ct k then (esp k, ebp k, tss k, screen_x (mach k), screen_y (mach k), curr_process t)
     else (task_esp p, task_ebp p, save_tss t, uint (t_screen_x t), uint (t_screen_y t), curr_process t))"

definition tasks_ok :: "kernel \<Rightarrow> bool" where
  "tasks_ok k \<longleftrightarrow> layout (kvm k) \<and> ct k < 3 \<and> vt k < 3 \<and>
     (\<forall>i < 3. 0 \<le> curr_process (terminals k i) \<and> curr_process (terminals k i) < 6) \<and>
     inj_on (\<lambda>i. curr_process (terminals k i)) {..<3} \<and>
     (\<forall>i < 3. case task_ctx k i of (_, _, _, x, y, _) \<Rightarrow> 0 \<le> x \<and> x < 80 \<and> 0 \<le> y \<and> y < 25) \<and>
     page_table (kvm k) 0xB8 = video_pte (cur_terminal k) (visible k) \<and> 3 < pitCount k"

definition next_terminal :: "u8 \<Rightarrow> u8" where
  "next_terminal c = (c + 1) mod 3"

lemma u8_cases3: "unat (c :: u8) < 3 \<Longrightarrow> c = 0 \<or> c = 1 \<or> c = 2"
  using u8_lt3 [of c] by (simp add: word_less_nat_alt)

lemma next_terminal_facts:
  assumes "unat c < 3"
  shows "unat (next_terminal c) = (unat c + 1) mod 3" "unat (next_terminal c) < 3" "next_terminal c \<noteq> c"
proof -
  show u: "unat (next_terminal c) = (unat c + 1) mod 3"
    using u8_cases3 [OF assms] by (auto simp: next_terminal_def)
  show "unat (next_terminal c) < 3" unfolding u by simp
  show "next_terminal c \<noteq> c" using u assms by (auto simp: mod_Suc split: if_splits)
qed

lemma save_task_fields:
  "terminals (save_task k) = (terminals k)(ct k := (terminals k (ct k))\<lparr>save_tss := tss k,
     t_screen_x := word_of_int (screen_x (mach k)), t_screen_y := word_of_int (screen_y (mach k))\<rparr>)"
  "PCB_array (save_task k) = (PCB_array k)(cur_process k := (PCB_array k (cur_process k))\<lparr>task_esp := esp k, task_ebp := ebp k\<rparr>)"
  "mach (save_task k) = mach k" "cur_terminal (save_task k) = cur_terminal k" "visible (save_task k) = visible k"
  "pitCount (save_task k) = pitCount k" "pitIntrCount (save_task k) = pitIntrCount k"
  by (simp_all add: save_task_def Let_def get_screen_x_def get_screen_y_def)

lemma load_task_fields:
  "terminals (load_task k) = terminals k" "PCB_array (load_task k) = PCB_array k" "cur_terminal (load_task k) = cur_terminal k"
  "visible (load_task k) = visible k" "pitCount (load_task k) = pitCount k" "pitIntrCount (load_task k) = pitIntrCount k"
  "tss (load_task k) = save_tss (terminals k (ct k))" "esp (load_task k) = task_esp (PCB_array k (cur_process k))"
  "ebp (load_task k) = task_ebp (PCB_array k (cur_process k))"
  "screen_x (mach (load_task k)) = uint (t_screen_x (terminals k (ct k)))"
  "screen_y (mach (load_task k)) = uint (t_screen_y (terminals k (ct k)))"
  "kvm (load_task k) = map_page (proc_page (cur_process k)) 0x08000000 0x87
     (map_video_page (if cur_terminal k = visible k then 0 else 1 + cur_terminal k) (kvm k))"
  "iflag (mach (load_task k)) = iflag (mach k)"
  "io (mach (load_task k)) = Outb 0x20 0x60 # io (mach k)"
  by (simp_all add: load_task_def Let_def map_current_video_def send_eoi_def outb_def set_screenxy_def proc_page_def
      PIC1_COMMAND_def set_vm_def)

lemma tick_unfold:
  assumes "3 < pitCount k" and "test_interrupts (uint (pitIntrCount k + 1)) (mach k) = Some m"
  shows "pit_handler rl k = Some (Returns 0, load_task ((save_task (k\<lparr>pitIntrCount := pitIntrCount k + 1, mach := m\<rparr>))
    \<lparr>cur_terminal := next_terminal (cur_terminal k)\<rparr>))"
proof -
  have "\<not> pitCount k < 3" "pitCount k \<noteq> 3" using assms(1) by auto
  then show ?thesis
    using assms(2) by (simp add: pit_handler_def Let_def on_mach_def save_task_fields next_terminal_def)
qed

lemma video_pte_video_page:
  "page_table (map_video_page (if c = d then 0 else 1 + c) v) 0xB8 = video_pte c d" if "unat c < 3"
  using u8_cases3 [OF that] by (auto simp: map_video_page_def video_pte_def VIDEO_MEM_INDEX_def FOUR_KB_def)

lemma tick_ok:
  assumes ok: "tasks_ok k"
  shows "\<exists>k'. pit_handler rl k = Some (Returns 0, k') \<and> tasks_ok k' \<and> cur_terminal k' = next_terminal (cur_terminal k) \<and>
    visible k' = visible k \<and> (\<forall>i < 3. task_ctx k' i = task_ctx k i) \<and>
    page_directory (kvm k') 32 = proc_pde (cur_process k') \<and>
    (\<forall>p. \<not> bit p 0 \<or> drop_bit 12 p \<noteq> drop_bit 12 (video_pte (cur_terminal k) (visible k)) \<longrightarrow> pmem (kvm k') p = pmem (kvm k) p)"
proof -
  have l: "layout (kvm k)" and c: "ct k < 3" and pc: "3 < pitCount k" and pt: "page_table (kvm k) 0xB8 = video_pte (cur_terminal k) (visible k)"
    using ok by (simp_all add: tasks_ok_def)
  obtain v1 where v1: "test_interrupts (uint (pitIntrCount k + 1)) (mach k) = Some ((mach k)\<lparr>vm := v1\<rparr>)"
    "changes attr_region (kvm k) v1" "layout v1" using test_interrupts_ok [OF l] by blast
  define k1 where "k1 = (save_task (k\<lparr>pitIntrCount := pitIntrCount k + 1, mach := (mach k)\<lparr>vm := v1\<rparr>\<rparr>))
    \<lparr>cur_terminal := next_terminal (cur_terminal k)\<rparr>"
  let ?n = "next_terminal (cur_terminal k)" and ?k' = "load_task k1"
  have h: "pit_handler rl k = Some (Returns 0, ?k')" unfolding k1_def by (rule tick_unfold [OF pc v1(1)])
  note n = next_terminal_facts [OF c]
  have cur: "\<And>i. curr_process (terminals ?k' i) = curr_process (terminals k i)"
    by (simp add: load_task_fields k1_def save_task_fields)
  have xy: "0 \<le> screen_x (mach k)" "screen_x (mach k) < 80" "0 \<le> screen_y (mach k)" "screen_y (mach k) < 25"
    using ok c by (auto simp: tasks_ok_def task_ctx_def Let_def)
  have inj: "curr_process (terminals k i) \<noteq> curr_process (terminals k j)" if "i < 3" "j < 3" "i \<noteq> j" for i j
    using ok that by (auto simp: tasks_ok_def inj_on_def)
  have ctx: "task_ctx ?k' i = task_ctx k i" if "i < 3" for i
    using inj [OF that c] inj [OF n(2) c] n(1,3) that c xy
    by (auto simp: task_ctx_def Let_def load_task_fields k1_def save_task_fields uint_byte)
  have pid: "0 \<le> cur_process ?k'" "cur_process ?k' < 6" "0 \<le> cur_process k1" "cur_process k1 < 6"
    using ok n(2) by (auto simp: tasks_ok_def load_task_fields k1_def save_task_fields)
  let ?t = "if ?n = visible k then 0 else 1 + ?n" and ?v = "map_video_page (if ?n = visible k then 0 else 1 + ?n) v1"
  have t4: "?t < 4" using u8_cases3 [OF n(2)] by auto
  have lv: "layout ?v" by (rule map_video_page_layout [OF v1(3) t4])
  have k1: "cur_terminal k1 = ?n" "visible k1 = visible k" "kvm k1 = v1" by (simp_all add: k1_def save_task_fields)
  have "cur_process ?k' = cur_process k1" by (simp only: load_task_fields)
  moreover have "kvm ?k' = map_page (proc_page (cur_process k1)) 0x08000000 0x87 ?v" by (simp only: load_task_fields k1)
  ultimately have kv: "kvm ?k' = set_pde 32 (proc_pde (cur_process ?k')) ?v" "layout (kvm ?k')"
    using map_process_page [OF lv pid(3,4)] by simp_all
  have pt': "page_table (kvm ?k') 0xB8 = video_pte ?n (visible k)"
    unfolding kv(1) using video_pte_video_page [OF n(2), of "visible k" v1] by simp
  have fields: "cur_terminal ?k' = ?n" "visible ?k' = visible k" "pitCount ?k' = pitCount k"
    by (simp_all add: load_task_fields k1_def save_task_fields)
  have "tasks_ok ?k'"
    unfolding tasks_ok_def fields cur using ok kv(2) pt' n(2) ctx by (simp add: tasks_ok_def)
  moreover have "pmem (kvm ?k') p = pmem (kvm k) p"
    if p: "\<not> bit p 0 \<or> drop_bit 12 p \<noteq> drop_bit 12 (video_pte (cur_terminal k) (visible k))" for p
  proof -
    let ?f = "if cur_terminal k = visible k then 0 else 1 + ucast (cur_terminal k) :: u32"
    have f: "?f < 4" using u8_cases3 [OF c] by auto
    have "drop_bit 12 (video_pte (cur_terminal k) (visible k)) = 0xB8 + ?f"
      using u8_cases3 [OF c] by (auto simp: video_pte_def)
    then have "pmem v1 p = pmem (kvm k) p"
      using attr_frame [OF l v1(2) _ f, of p] p pt by (simp add: video_pte_def)
    then show ?thesis unfolding kv(1) by (simp add: map_video_page_def)
  qed
  moreover have "page_directory (kvm ?k') 32 = proc_pde (cur_process ?k')" unfolding kv(1) by simp
  ultimately show ?thesis using h fields ctx by blast
qed

section \<open>The editor and the scheduler\<close>

text \<open>
  The session of a terminal in terms of its context: the cursor is that of the context, the rest
  is live for the visible terminal and saved for the others.
\<close>

definition cursor_of :: "kernel \<Rightarrow> nat \<Rightarrow> int \<times> int" where
  "cursor_of k i = (case task_ctx k i of (_, _, _, x, y, _) \<Rightarrow> (x, y))"

lemma task_ctx_process: "snd (snd (snd (snd (snd (task_ctx k i))))) = curr_process (terminals k i)"
  by (simp add: task_ctx_def Let_def)

definition edit_state :: "kernel \<Rightarrow> nat \<Rightarrow> int \<times> int \<times> int \<times> int \<times> int \<times> u8 list \<times> u8 list" where
  "edit_state k i = (let t = terminals k i in
     if i = vt k then (curr_idx k, num_chars k, save_x k, save_y k, previous_num_chars k, previous_buf k, buf_kb k)
     else (uint (t_curr_idx t), uint (t_num_chars t), uint (t_save_x t), uint (t_save_y t), uint (t_prev_num_chars t), t_prev_buf t, t_buf_kb t))"

definition state_ok :: "kernel \<Rightarrow> nat \<Rightarrow> bool" where
  "state_ok k i = (case (cursor_of k i, edit_state k i) of ((x, y), ci, nc, sx, sy, pn, pb, b) \<Rightarrow> session_ok (x, y, ci, nc, sx, sy, pn, pb, b, None))"

lemma state_ok_cursor: "state_ok k i \<Longrightarrow> case task_ctx k i of (_, _, _, x, y, _) \<Rightarrow> 0 \<le> x \<and> x < 80 \<and> 0 \<le> y \<and> y < 25"
  by (cases "task_ctx k i"; cases "edit_state k i") (simp add: state_ok_def cursor_of_def)

lemma session_state:
  assumes "cursor_ok (mach k)"
  shows "session_ok (session (enter_editor k) i) = state_ok k i"
proof -
  have u: "uint (word_of_int (screen_x (mach k)) :: u8) = screen_x (mach k)" "uint (word_of_int (screen_y (mach k)) :: u8) = screen_y (mach k)"
    using assms by (simp_all add: cursor_ok_def NUM_COLS_def NUM_ROWS_def uint_byte)
  have b: "0 \<le> screen_x (mach k)" "0 \<le> screen_y (mach k)" using assms by (simp_all add: cursor_ok_def)
  show ?thesis
    using u b by (auto simp: state_ok_def cursor_of_def edit_state_def task_ctx_def Let_def session_def live_def saved_def enter_editor_def
        set_screenxy_def get_screen_x_def get_screen_y_def)
qed

lemma kb_inv_iff:
  "kb_inv k \<longleftrightarrow> layout (kvm k) \<and> cursor_ok (mach k) \<and> vt k < 3 \<and> ct k < 3 \<and> length (flag_arr k) = 5 \<and>
     (\<forall>i < 3. video_buffer (terminals k i) = pa (Suc i)) \<and> (\<forall>i < 3. state_ok k i)"
proof -
  have "real_screen (kvm (enter_editor k))" if "layout (kvm k)"
    using map_video_page_layout [OF that, of 0] by (simp add: editor_kvm real_screen_def map_video_page_def VIDEO_MEM_INDEX_def FOUR_KB_def)
  moreover have "video_buffer (terminals (enter_editor k) i) = video_buffer (terminals k i)" for i
    by (simp add: enter_editor_def Let_def)
  ultimately show ?thesis using session_state [of k] by (auto simp: kb_inv_def ed_ok_def)
qed

definition sys_inv :: "kernel \<Rightarrow> bool" where
  "sys_inv k \<longleftrightarrow> kb_inv k \<and> tasks_ok k \<and> page_directory (kvm k) 32 = proc_pde (cur_process k)"

text \<open>The rest of the invariant follows from the editor's, the processes and the mapping.\<close>

lemma sys_invI:
  assumes "kb_inv k" and "\<forall>i < 3. 0 \<le> curr_process (terminals k i) \<and> curr_process (terminals k i) < 6"
    and "inj_on (\<lambda>i. curr_process (terminals k i)) {..<3}" and "page_table (kvm k) 0xB8 = video_pte (cur_terminal k) (visible k)"
    and "3 < pitCount k" and "page_directory (kvm k) 32 = proc_pde (cur_process k)"
  shows "sys_inv k"
proof -
  have i: "layout (kvm k)" "vt k < 3" "ct k < 3" "\<forall>i < 3. state_ok k i" using assms(1) by (simp_all add: kb_inv_iff)
  then show ?thesis using assms state_ok_cursor by (simp add: sys_inv_def tasks_ok_def)
qed

text \<open>No line has been begun in any terminal.\<close>

fun edit_ok :: "int \<times> int \<times> int \<times> int \<times> int \<times> u8 list \<times> u8 list \<Rightarrow> bool" where
  "edit_ok (ci, nc, sx, sy, pn, pb, b) \<longleftrightarrow> ci = 0 \<and> nc = 0 \<and> 0 \<le> sx \<and> sx < 80 \<and> 0 \<le> sy \<and> sy < 25 \<and> 0 \<le> pn \<and> pn \<le> 127 \<and>
     length pb = 128 \<and> length b = 128"

definition lines_empty :: "kernel \<Rightarrow> bool" where
  "lines_empty k \<longleftrightarrow> length (flag_arr k) = 5 \<and> (\<forall>i < 3. edit_ok (edit_state k i))"

lemma lines_empty_cong: "flag_arr k' = flag_arr k \<Longrightarrow> (\<And>i. edit_state k' i = edit_state k i) \<Longrightarrow> lines_empty k' = lines_empty k"
  by (simp add: lines_empty_def)

lemma lines_empty_state:
  assumes "lines_empty k" and "i < 3" and "case task_ctx k i of (_, _, _, x, y, _) \<Rightarrow> 0 \<le> x \<and> x < 80 \<and> 0 \<le> y \<and> y < 25"
  shows "state_ok k i"
proof -
  have "edit_ok (edit_state k i)" using assms(1,2) by (simp add: lines_empty_def)
  then show ?thesis using assms(3) by (cases "task_ctx k i"; cases "edit_state k i") (simp add: state_ok_def cursor_of_def)
qed

lemma edit_state_session:
  "edit_state k i = (case session k i of (x, y, ci, nc, sx, sy, pn, pb, b, pg) \<Rightarrow> (ci, nc, sx, sy, pn, pb, b))"
  by (simp add: edit_state_def session_def live_def saved_def Let_def)

lemma switch_terminal_lines:
  assumes "screens_ok k" and "unat d < 3" and "switch_terminal d k = Some k'" and "lines_empty k"
  shows "lines_empty k'"
proof -
  have "\<forall>i < 3. session k' i = session k i" using switch_terminal_ok [OF assms(1,2)] assms(3) by auto
  moreover have "flag_arr k' = flag_arr k" using assms(3) by (rule switch_terminal_flags)
  ultimately show ?thesis using assms(4) by (simp add: lines_empty_def edit_state_session)
qed

section \<open>Starting the shells\<close>

lemma pages_kpage:
  assumes "real_screen v" and "i < 4"
  shows "apart v (region (pa i) 4096) kpage"
proof -
  have l: "layout v" using assms(1) by (simp add: real_screen_def)
  have "translate v b \<noteq> Some p" if a: "a \<in> region (pa i) 4096" "translate v a = Some p" and b: "b \<in> kpage" for a b p
  proof
    assume "translate v b = Some p"
    then have "b = a" using translate_kernel_page(1) [OF l] translate_pages [OF assms(1) pa_page(2) [OF assms(2) a(1)]] a(2) b
      by (simp add: kpage_def)
    moreover have "drop_bit 22 a = drop_bit 10 (drop_bit 12 a)" by (simp only: drop_bit_drop_bit) simp
    moreover have "drop_bit 12 a = 0xB8 \<or> drop_bit 12 a = 0xB9 \<or> drop_bit 12 a = 0xBA \<or> drop_bit 12 a = 0xBB"
      using pa_page(2) [OF assms(2) a(1)] by (simp only: insert_iff empty_iff simp_thms)
    ultimately have "drop_bit 22 b = 0" by (elim disjE) (simp_all only: , simp_all)
    with b show False by (simp add: kpage_def)
  qed
  then show ?thesis unfolding apart_def by auto
qed

lemma page_copy_changes:
  assumes "real_screen v" and "i < 4" and "j < 4" and "i \<noteq> j" and "memcpy v (pa i) (pa j) 4096 = Some v'"
  shows "changes (region (pa i) 4096) v v'"
proof -
  have u: "mapped v (region (pa i) (unat (4096 :: u32)) \<union> region (pa j) (unat (4096 :: u32)))"
    "region (pa i) (unat (4096 :: u32)) \<inter> region (pa j) (unat (4096 :: u32)) = {}"
    using mapped_union [OF page_facts(1) [OF assms(1-3)] page_facts(1) [OF assms(1,3,2)] page_facts(2) [OF assms(1-4)]] by simp_all
  from memcpy_disjoint [OF u] assms(5) show ?thesis by auto
qed

lemma page_copy_kpage:
  assumes "real_screen v" and "i < 4" and "j < 4" and "i \<noteq> j" and "memcpy v (pa i) (pa j) 4096 = Some v'"
  shows "agree kpage v v'"
  by (rule agree_changes [OF page_copy_changes [OF assms] pages_kpage [OF assms(1,2)]])

lemma upte_kpage:
  assumes "layout v" and "layout (set_upte i e v)"
  shows "agree kpage v (set_upte i e v)"
  unfolding agree_def using ld8_kpage [OF assms(1)] ld8_kpage [OF assms(2)]
    translate_kernel_page(1) [OF assms(1)] translate_kernel_page(1) [OF assms(2)] by (simp add: kpage_def)

text \<open>
  What a terminal switch leaves alone: the kernel's page, the place of the file system in it, and
  the registers, task state segments and tick counter.
\<close>

definition same_core :: "kernel \<Rightarrow> kernel \<Rightarrow> bool" where
  "same_core k k' \<longleftrightarrow> agree (kpage - region (elf_buf k) 28) (kvm k) (kvm k') \<and> start_addr k' = start_addr k \<and>
     numinodes k' = numinodes k \<and> startdentry k' = startdentry k \<and> elf_buf k' = elf_buf k \<and> shell_name k' = shell_name k"

definition same_ctl :: "kernel \<Rightarrow> kernel \<Rightarrow> bool" where
  "same_ctl k k' \<longleftrightarrow> pitCount k' = pitCount k \<and> esp k' = esp k \<and> ebp k' = ebp k \<and> tss k' = tss k \<and>
     (\<forall>i. save_tss (terminals k' i) = save_tss (terminals k i))"

lemma same_coreI:
  "agree kpage (kvm k) (kvm k') \<Longrightarrow> start_addr k' = start_addr k \<Longrightarrow> numinodes k' = numinodes k \<Longrightarrow> startdentry k' = startdentry k \<Longrightarrow>
     elf_buf k' = elf_buf k \<Longrightarrow> shell_name k' = shell_name k \<Longrightarrow> same_core k k'"
  using agree_mono [of kpage "kvm k" "kvm k'"] by (simp add: same_core_def)

lemma same_core_trans: "same_core k k' \<Longrightarrow> same_core k' k'' \<Longrightarrow> same_core k k''"
  using agree_trans [of "kpage - region (elf_buf k) 28" "kvm k" "kvm k'" "kvm k''"] by (simp add: same_core_def)

lemma save_terminal_core:
  assumes "screens_ok k" and "i < 3" and "save_terminal i k = Some k'"
  shows "same_core k k' \<and> same_ctl k k'"
proof -
  have r: "real_screen (kvm k)" and vb: "video_buffer (terminals k i) = pa (Suc i)" using assms by (auto simp: screens_ok_def)
  let ?v = "set_upte i (pa (Suc i) OR 7) (kvm k)"
  have "word_of_nat (Suc i) < (4 :: u32)" using assms(2) by (simp add: word_less_nat_alt unat_word_of_nat_u32 del: of_nat_Suc)
  then have rv: "real_screen ?v" using set_upte_pages(1) [OF r, of i "word_of_nat (Suc i)"] pa_entry(1) [of "Suc i" 7] assms(2) by simp
  have a: "agree kpage (kvm k) ?v" using upte_kpage r rv by (simp add: real_screen_def)
  from assms(3) vb obtain v' where m: "memcpy ?v (pa (Suc i)) VIDEO_MEM 4096 = Some v'" and
    f: "kvm k' = v'" "start_addr k' = start_addr k" "numinodes k' = numinodes k" "startdentry k' = startdentry k" "elf_buf k' = elf_buf k"
      "shell_name k' = shell_name k" "pitCount k' = pitCount k" "esp k' = esp k" "ebp k' = ebp k" "tss k' = tss k"
      "\<forall>i. save_tss (terminals k' i) = save_tss (terminals k i)"
    by (auto simp: save_terminal_def on_vm_def Let_def split: Option.bind_splits)
  have "agree kpage ?v v'" using page_copy_kpage [OF rv _ _ _ m [folded pa_entry(2)]] assms(2) by simp
  then have "agree kpage (kvm k) (kvm k')" unfolding f(1) by (rule agree_trans [OF a])
  then show ?thesis using f(2-) by (simp add: same_ctl_def same_coreI)
qed

lemma restore_terminal_core:
  assumes "real_screen (kvm k)" and "i < 3" and "video_buffer (terminals k i) = pa (Suc i)" and "restore_terminal i k = Some k'"
  shows "same_core k k' \<and> same_ctl k k'"
proof -
  from assms(3,4) obtain v' where m: "memcpy (kvm k) VIDEO_MEM (pa (Suc i)) 4096 = Some v'" and
    f: "kvm k' = set_upte i (VIDEO_MEM OR 7) v'" "start_addr k' = start_addr k" "numinodes k' = numinodes k"
      "startdentry k' = startdentry k" "elf_buf k' = elf_buf k" "shell_name k' = shell_name k" "pitCount k' = pitCount k"
      "esp k' = esp k" "ebp k' = ebp k" "tss k' = tss k" "\<forall>i. save_tss (terminals k' i) = save_tss (terminals k i)"
    by (auto simp: restore_terminal_def on_vm_def Let_def set_cursor_def set_screenxy_def set_curr_idx_def set_num_chars_def
      set_save_x_def set_save_y_def set_previous_num_chars_def set_previous_buf_def split: Option.bind_splits)
  obtain v'' where v'': "memcpy (kvm k) VIDEO_MEM (pa (Suc i)) 4096 = Some v''" "real_screen v''"
    using page_copy [OF assms(1), of 0 "Suc i"] assms(2) by (auto simp: pa_entry)
  then have r: "real_screen v'" using m by simp
  have "real_screen (set_upte i (VIDEO_MEM OR 7) v')" using set_upte_pages(1) [OF r, of i 0] assms(2) by (simp add: VIDEO_MEM_def)
  then have a: "agree kpage v' (kvm k')" unfolding f(1) using upte_kpage r by (simp add: real_screen_def)
  have "agree kpage (kvm k) v'" using page_copy_kpage [OF assms(1) _ _ _ m [folded pa_entry(2)]] assms(2) by simp
  then have "agree kpage (kvm k) (kvm k')" using a by (rule agree_trans)
  then show ?thesis using f(2-) by (simp add: same_ctl_def same_coreI)
qed

lemma switch_terminal_core:
  assumes "screens_ok k" and "unat d < 3" and "switch_terminal d k = Some k'"
  shows "same_core k k'" "same_ctl k k'"
proof -
  have "same_core k k' \<and> same_ctl k k'"
  proof (cases "d = visible k")
    case True
    then show ?thesis using assms(3) by (simp add: switch_terminal_def same_core_def same_ctl_def agree_def)
  next
    case False
    have g: "\<not> 3 < d" using assms(2) by (simp add: word_less_nat_alt)
    have v: "vt k < 3" using assms(1) by (simp add: screens_ok_def)
    obtain k1 where k1: "save_terminal (vt k) k = Some k1" "real_screen (kvm k1)"
      "\<forall>j. video_buffer (terminals k1 j) = video_buffer (terminals k j)"
      using save_terminal_ok [OF assms(1) v] by auto
    from assms(3) False g k1(1) obtain k2 where k2: "restore_terminal (unat d) k1 = Some k2" "k' = k2\<lparr>visible := d\<rparr>"
      by (auto simp: switch_terminal_def split: Option.bind_splits)
    have vb: "video_buffer (terminals k1 (unat d)) = pa (Suc (unat d))" using k1(3) assms(1,2) by (simp add: screens_ok_def)
    have "same_core k k2 \<and> same_ctl k k2"
      using save_terminal_core [OF assms(1) v k1(1)] restore_terminal_core [OF k1(2) assms(2) vb k2(1)]
      by (auto intro: same_core_trans simp: same_ctl_def)
    then show ?thesis by (simp add: same_core_def same_ctl_def k2(2))
  qed
  then show "same_core k k'" "same_ctl k k'" by simp_all
qed

lemma clear_ok:
  assumes "layout (vm m)"
  shows "\<exists>m'. clear m = Some m' \<and> displays m' (replicate 2000 blank, 0) \<and> agree kpage (vm m) (vm m') \<and> layout (vm m') \<and>
    screen_x m' = 0 \<and> screen_y m' = 0 \<and> page_table (vm m') = page_table (vm m)"
proof -
  let ?m = "m\<lparr>screen_x := 0, screen_y := 0\<rparr>"
  obtain cells where "displays ?m (cells, 0)"
    using displays_exists [of ?m] screen_mapped [OF assms] by (auto simp: cursor_ok_def NUM_COLS_def NUM_ROWS_def)
  then have "displays_cells (vm m) cells" by (simp add: displays_def)
  from clear_keeps [OF this, of "(cells, 0)"] obtain m' where m': "clear m = Some m'" "displays m' (con_clear (cells, 0))" "console_frame m m'"
    by (auto simp: keeps_console_def)
  have ch: "changes screen_region (vm m) (vm m')" using m'(3) by (simp add: console_frame_def)
  have "layout (vm m')" using assms layout_same_map [OF changes_same_map [OF ch]] by simp
  moreover have "screen_x m' = 0" "screen_y m' = 0"
    using displays_cursor(1,3,5) [OF m'(2)] by (simp_all add: con_clear_def)
  ultimately show ?thesis
    using m'(1,2) agree_changes [OF ch screen_kpage_apart [OF assms]] same_map_fields [OF changes_same_map [OF ch]]
    by (simp add: con_clear_def)
qed

lemma core_program:
  assumes "program k cs d eof blk hdr" and "same_core k k'"
  shows "program k' cs d eof blk hdr" "i < unat eof \<Longrightarrow> file_byte (kvm k') k' (inodeNum d) i = file_byte (kvm k) k (inodeNum d) i"
proof -
  have "file_area k (inodeNum d) eof blk \<union> region (startdentry k) 4096 \<subseteq> kpage - region (elf_buf k) 28"
    using assms(1) by (auto simp: program_def)
  then have a: "agree (file_area k (inodeNum d) eof blk \<union> region (startdentry k) 4096) (kvm k) (kvm k')"
    using assms(2) agree_mono by (auto simp: same_core_def)
  show "program k' cs d eof blk hdr" "i < unat eof \<Longrightarrow> file_byte (kvm k') k' (inodeNum d) i = file_byte (kvm k) k (inodeNum d) i"
    using program_agree [OF assms(1) a] assms(2) by (simp_all add: same_core_def)
qed

text \<open>The file system holds the shell program, under the name that \<open>shell_name\<close> points at.\<close>

definition has_shell :: "kernel \<Rightarrow> dentry_t \<Rightarrow> u32 \<Rightarrow> (nat \<Rightarrow> u32) \<Rightarrow> u8 list \<Rightarrow> bool" where
  "has_shell k d eof blk hdr \<longleftrightarrow> (\<exists>cs. program k cs d eof blk hdr \<and> elf_magic hdr \<and> length cs < 128 \<and>
     region (shell_name k) 128 \<subseteq> kpage - region (elf_buf k) 28 \<and> reads (str_at (kvm k) (shell_name k)) cs)"

lemma core_shell:
  assumes "has_shell k d eof blk hdr" and "same_core k k'"
  shows "has_shell k' d eof blk hdr" "i < unat eof \<Longrightarrow> file_byte (kvm k') k' (inodeNum d) i = file_byte (kvm k) k (inodeNum d) i"
proof -
  obtain cs where cs: "program k cs d eof blk hdr" "elf_magic hdr" "length cs < 128"
    "region (shell_name k) 128 \<subseteq> kpage - region (elf_buf k) 28" "reads (str_at (kvm k) (shell_name k)) cs" using assms(1) by (auto simp: has_shell_def)
  have n: "shell_name k' = shell_name k" "agree (region (shell_name k) 128) (kvm k) (kvm k')"
    using assms(2) agree_mono cs(4) by (auto simp: same_core_def)
  have "reads (str_at (kvm k') (shell_name k')) cs" using reads_agree [OF n(2) cs(3)] n(1) cs(5) by simp
  then show "has_shell k' d eof blk hdr" using core_program(1) [OF cs(1) assms(2)] cs(2-4) n(1) assms(2)
    by (auto simp: has_shell_def same_core_def)
  show "i < unat eof \<Longrightarrow> file_byte (kvm k') k' (inodeNum d) i = file_byte (kvm k) k (inodeNum d) i"
    by (rule core_program(2) [OF cs(1) assms(2)])
qed

lemma execute_shell:
  assumes "has_shell k d eof blk hdr" and "layout (kvm k)" and "getPID k = (pid, k0)" and "pid \<noteq> -1"
  shows "\<exists>k'. execute rl (shell_name k) k = Some (To_user (user_entry hdr), k') \<and> layout (kvm k') \<and>
    page_directory (kvm k') 32 = proc_pde pid \<and>
    (\<forall>i < unat eof. ld8 (kvm k') (0x08048000 + word_of_nat i) = file_byte (kvm k) k (inodeNum d) i) \<and>
    PCB_array k' = (PCB_array k)(pid := started rl k (PCB_array k pid)) \<and>
    terminals k' = (terminals k)(ct k := (terminals k (ct k))\<lparr>curr_process := pid\<rparr>) \<and>
    tss k' = (tss k)\<lparr>ss0 := 0x18, esp0 := word_of_int (0x800000 - pid * 0x2000 - 4)\<rparr> \<and>
    cur_terminal k' = cur_terminal k \<and> visible k' = visible k \<and> page_table (kvm k') = page_table (kvm k) \<and>
    same_core k k' \<and> same_rest k k'"
proof -
  obtain cs where cs: "program k cs d eof blk hdr" "elf_magic hdr" "length cs < 128"
    "region (shell_name k) 128 \<subseteq> kpage - region (elf_buf k) 28" "reads (str_at (kvm k) (shell_name k)) cs" using assms(1) by (auto simp: has_shell_def)
  obtain temp where t: "ld_bytes (kvm k) (shell_name k) 128 = Some temp"
    using ld_bytes_mapped [OF kpage_mapped [OF assms(2)], of "shell_name k" 128] cs(4) by auto
  have "same_core k k'" if "same_rest k k'" "agree (kpage - region (elf_buf k) 28) (kvm k) (kvm k')" for k'
  proof -
    let ?r = "k'\<lparr>mach := mach k, PCB_array := PCB_array k, terminals := terminals k, tss := tss k, currDentry := currDentry k,
     firstInstruct := firstInstruct k\<rparr>"
    have "?r = k" using that(1) by (simp add: same_rest_def)
    then have "start_addr ?r = start_addr k" "numinodes ?r = numinodes k" "startdentry ?r = startdentry k"
      "elf_buf ?r = elf_buf k" "shell_name ?r = shell_name k" by simp_all
    then show ?thesis using that(2) by (simp add: same_core_def)
  qed
  then show ?thesis using execute_ok [OF cs(1) assms(2) t cs(5,3,2) assms(3,4), of rl] by blast
qed

text \<open>Live and saved cursors on the screen.\<close>

definition cursors_ok :: "kernel \<Rightarrow> bool" where
  "cursors_ok k \<longleftrightarrow> cursor_ok (mach k) \<and> (\<forall>i < 3. uint (t_screen_x (terminals k i)) < 80 \<and> uint (t_screen_y (terminals k i)) < 25)"

lemma uint_cursor: "cursor_ok m \<Longrightarrow> uint (word_of_int (screen_x m) :: u8) = screen_x m \<and> uint (word_of_int (screen_y m) :: u8) = screen_y m \<and>
   screen_x m < 80 \<and> screen_y m < 25"
  by (simp add: cursor_ok_def NUM_COLS_def NUM_ROWS_def uint_byte)

lemma switch_terminal_cursors:
  assumes "cursors_ok k" and "unat d < 3" and "switch_terminal d k = Some k'"
  shows "cursors_ok k'"
proof (cases "d = visible k")
  case True
  then show ?thesis using assms by (simp add: switch_terminal_def)
next
  case False
  have g: "\<not> 3 < d" using assms(2) by (simp add: word_less_nat_alt)
  from assms(3) False g have t: "\<forall>i. (t_screen_x (terminals k' i), t_screen_y (terminals k' i)) =
      (if i = vt k then (word_of_int (screen_x (mach k)), word_of_int (screen_y (mach k)))
       else (t_screen_x (terminals k i), t_screen_y (terminals k i)))"
    and l: "screen_x (mach k') = uint (t_screen_x (terminals k' (unat d))) \<and> screen_y (mach k') = uint (t_screen_y (terminals k' (unat d)))"
    by (auto simp: switch_terminal_def save_terminal_def restore_terminal_def on_vm_def Let_def set_curr_idx_def set_num_chars_def
        set_save_x_def set_save_y_def set_previous_num_chars_def set_previous_buf_def set_screenxy_def get_screen_x_def get_screen_y_def
        set_vm_def split: if_splits Option.bind_splits)
  have "\<forall>i < 3. uint (t_screen_x (terminals k' i)) < 80 \<and> uint (t_screen_y (terminals k' i)) < 25"
  proof (intro allI impI)
    fix i :: nat assume "i < 3"
    then show "uint (t_screen_x (terminals k' i)) < 80 \<and> uint (t_screen_y (terminals k' i)) < 25"
      using t [rule_format, of i] assms(1) uint_cursor [of "mach k"] by (auto simp: cursors_ok_def split: if_splits)
  qed
  then show ?thesis using l assms(2) by (simp add: cursors_ok_def cursor_ok_def NUM_COLS_def NUM_ROWS_def)
qed

lemma start_shell_ok:
  assumes s: "screens_ok k" and j: "unat (pitCount k) < 3" and sh: "has_shell k d eof blk hdr" and g: "getPID k = (pid, k0)" "pid \<noteq> -1"
  shows "\<exists>k'. start_shell rl k = Some (To_user (user_entry hdr), k') \<and> layout (kvm k') \<and> visible k' = pitCount k \<and>
    cur_terminal k' = cur_terminal k \<and> page_directory (kvm k') 32 = proc_pde pid \<and>
    (\<forall>i < unat eof. ld8 (kvm k') (0x08048000 + word_of_nat i) = file_byte (kvm k) k (inodeNum d) i) \<and>
    (\<forall>i. curr_process (terminals k' i) = (if i = ct k then pid else curr_process (terminals k i))) \<and>
    (\<forall>i. i \<noteq> pid \<longrightarrow> PCB_array k' i = PCB_array k i) \<and> \<not> pid_free k' pid \<and> parent_pid (PCB_array k' pid) = cur_process k \<and>
    screens_ok k' \<and> (cursors_ok k \<longrightarrow> cursors_ok k') \<and> (lines_empty k \<longrightarrow> lines_empty k') \<and> has_shell k' d eof blk hdr \<and> pitCount k' = pitCount k + 1 \<and>
    (\<forall>i. save_tss (terminals k' i) = save_tss (terminals k i))"
proof -
  obtain k1 where k1: "switch_terminal (pitCount k) k = Some k1" "screens_ok k1" "visible k1 = pitCount k" "cur_terminal k1 = cur_terminal k"
    "PCB_array k1 = PCB_array k" "\<forall>j. curr_process (terminals k1 j) = curr_process (terminals k j)"
    using switch_terminal_ok [OF s j] by auto
  note c1 = switch_terminal_core [OF s j k1(1)]
  have l1: "layout (kvm k1)" using k1(2) by (simp add: screens_ok_def real_screen_def)
  obtain m where m: "clear (mach k1) = Some m" "agree kpage (kvm k1) (vm m)" "layout (vm m)" "screen_x m = 0" "screen_y m = 0"
    "page_table (vm m) = page_table (kvm k1)"
    using clear_ok [OF l1] by auto
  define k2 where "k2 = upd_mach (send_eoi 0) ((upd_term (ct k1) (\<lambda>t. t\<lparr>t_screen_x := word_of_int (get_screen_x m),
    t_screen_y := word_of_int (get_screen_y m)\<rparr>) (k1\<lparr>mach := m\<rparr>))\<lparr>pitCount := pitCount k1 + 1\<rparr>)"
  have st: "start_shell rl k = execute rl (shell_name k2) k2"
    using k1(1) m(1) by (simp add: start_shell_def on_mach_def Let_def k2_def)
  have kv: "kvm k2 = vm m" by (simp add: k2_def send_eoi_def outb_def)
  have f: "cur_terminal k2 = cur_terminal k" "visible k2 = pitCount k" "PCB_array k2 = PCB_array k"
    "\<And>i. curr_process (terminals k2 i) = curr_process (terminals k i)"
    using k1(3-6) by (simp_all add: k2_def)
  have "same_core k1 k2" using m(2) kv by (intro same_coreI) (simp_all add: k2_def)
  with c1(1) have c2: "same_core k k2" by (rule same_core_trans)
  note sh2 = core_shell(1) [OF sh c2]
  obtain k0' where g2: "getPID k2 = (pid, k0')" using getPID_cong [OF f(3)] g(1) by (cases "getPID k2") simp
  obtain k' where k': "execute rl (shell_name k2) k2 = Some (To_user (user_entry hdr), k')" "layout (kvm k')"
    "page_directory (kvm k') 32 = proc_pde pid"
    "\<forall>i < unat eof. ld8 (kvm k') (0x08048000 + word_of_nat i) = file_byte (kvm k2) k2 (inodeNum d) i"
    "PCB_array k' = (PCB_array k2)(pid := started rl k2 (PCB_array k2 pid))"
    "terminals k' = (terminals k2)(ct k2 := (terminals k2 (ct k2))\<lparr>curr_process := pid\<rparr>)"
    "cur_terminal k' = cur_terminal k2" "visible k' = visible k2"
    "page_table (kvm k') = page_table (kvm k2)" "same_core k2 k'" "same_rest k2 k'"
    using execute_shell [OF sh2 _ g2 g(2), of rl] m(3) kv by auto
  have r: "k'\<lparr>mach := mach k2, PCB_array := PCB_array k2, terminals := terminals k2, tss := tss k2, currDentry := currDentry k2,
     firstInstruct := firstInstruct k2\<rparr> = k2" (is "?r = k2") and xy: "screen_x (mach k') = 0" "screen_y (mach k') = 0"
    using k'(11) m(4,5) by (simp_all add: same_rest_def k2_def send_eoi_def outb_def)
  have lv: "curr_idx k' = curr_idx k1" "num_chars k' = num_chars k1" "save_x k' = save_x k1" "save_y k' = save_y k1"
    "previous_num_chars k' = previous_num_chars k1" "pitCount k' = pitCount k1 + 1"
    using arg_cong [OF r, of curr_idx] arg_cong [OF r, of num_chars] arg_cong [OF r, of save_x] arg_cong [OF r, of save_y]
      arg_cong [OF r, of previous_num_chars] arg_cong [OF r, of pitCount] by (simp_all add: k2_def)
  have lb: "previous_buf k' = previous_buf k1" "buf_kb k' = buf_kb k1" "flag_arr k' = flag_arr k1"
    using arg_cong [OF r, of previous_buf] arg_cong [OF r, of buf_kb] arg_cong [OF r, of flag_arr] by (simp_all add: k2_def)
  have "edit_state k' i = edit_state k1 i" for i
    using lv lb k'(6,8) f(2) k1(3) by (simp add: edit_state_def Let_def k2_def)
  then have le: "lines_empty k'" if "lines_empty k"
    using switch_terminal_lines [OF s j k1(1) that] lines_empty_cong [of k' k1] lb(3) by simp
  have "real_screen (kvm k')" using k'(2,9) k1(2) m(6) kv by (simp add: real_screen_def screens_ok_def)
  then have sc: "screens_ok k'"
    using k1(2) k'(6,8) f(2) j lv xy by (simp add: screens_ok_def live_bytes_def k2_def)
  have cu: "cursors_ok k'" if "cursors_ok k"
    using switch_terminal_cursors [OF that j k1(1)] xy k'(6) m(4,5)
    by (simp add: cursors_ok_def cursor_ok_def k2_def get_screen_x_def get_screen_y_def NUM_COLS_def NUM_ROWS_def)
  have ts: "\<forall>i. save_tss (terminals k' i) = save_tss (terminals k i)"
    using c1(2) k'(6) by (simp add: k2_def same_ctl_def)
  have pc: "pitCount k' = pitCount k + 1" using c1(2) lv(6) by (simp add: same_ctl_def)
  have "\<forall>i < unat eof. ld8 (kvm k') (0x08048000 + word_of_nat i) = file_byte (kvm k) k (inodeNum d) i"
    using k'(4) core_shell(2) [OF sh c2] by simp
  then show ?thesis
    unfolding st using k'(1-3,5-8) f sc cu le ts pc core_shell(1) [OF sh2 k'(10)] by (auto simp: pid_free_def started_def)
qed

section \<open>Properties\<close>

fun ticks :: "u32 \<Rightarrow> nat \<Rightarrow> kernel \<Rightarrow> kernel option" where
  "ticks rl 0 k = Some k"
| "ticks rl (Suc n) k = do {
     (out, k) \<leftarrow> pit_handler rl k;
     (case out of Returns _ \<Rightarrow> ticks rl n k | _ \<Rightarrow> None)
   }"

text \<open>
  C4: round-robin scheduling.  Once the shells run, any number \<open>n\<close> of timer interrupts is
  handled without a fault: the scheduled terminal advances by \<open>n\<close> modulo 3, and each terminal's
  context (both stack pointers, the task state segment, the cursor and the current process) is
  what it was, whether it is loaded or saved.  After the last tick the user page is the frame of
  the scheduled terminal's process, the video page is the screen if that terminal is visible and
  its own buffer otherwise, and the only bytes of memory that changed are attribute bytes in the
  four video frames.
\<close>

theorem round_robin:
  assumes "tasks_ok k"
  shows "\<exists>k'. ticks rl n k = Some k' \<and> tasks_ok k' \<and> ct k' = (ct k + n) mod 3 \<and> (\<forall>i < 3. task_ctx k' i = task_ctx k i) \<and>
    page_table (kvm k') 0xB8 = video_pte (cur_terminal k') (visible k) \<and>
    (0 < n \<longrightarrow> page_directory (kvm k') 32 = proc_pde (cur_process k')) \<and>
    (\<forall>p. \<not> bit p 0 \<or> drop_bit 12 p \<notin> {0xB8, 0xB9, 0xBA, 0xBB} \<longrightarrow> pmem (kvm k') p = pmem (kvm k) p)"
  using assms
proof (induction n arbitrary: k)
  case 0
  then show ?case by (simp add: tasks_ok_def)
next
  case (Suc n)
  obtain k1 where k1: "pit_handler rl k = Some (Returns 0, k1)" "tasks_ok k1" "cur_terminal k1 = next_terminal (cur_terminal k)"
    "visible k1 = visible k" "\<forall>i < 3. task_ctx k1 i = task_ctx k i" "page_directory (kvm k1) 32 = proc_pde (cur_process k1)"
    "\<forall>p. \<not> bit p 0 \<or> drop_bit 12 p \<noteq> drop_bit 12 (video_pte (cur_terminal k) (visible k)) \<longrightarrow> pmem (kvm k1) p = pmem (kvm k) p"
    using tick_ok [OF Suc.prems, of rl] by blast
  have c: "ct k < 3" using Suc.prems by (simp add: tasks_ok_def)
  have vf: "drop_bit 12 (video_pte (cur_terminal k) (visible k)) \<in> {0xB8, 0xB9, 0xBA, 0xBB}"
    using u8_cases3 [OF c] by (auto simp: video_pte_def)
  have pm: "pmem (kvm k1) p = pmem (kvm k) p" if "\<not> bit p 0 \<or> drop_bit 12 p \<notin> {0xB8, 0xB9, 0xBA, 0xBB}" for p
    using k1(7) that vf by metis
  obtain k' where k': "ticks rl n k1 = Some k'" "tasks_ok k'" "ct k' = (ct k1 + n) mod 3" "\<forall>i < 3. task_ctx k' i = task_ctx k1 i"
    "page_table (kvm k') 0xB8 = video_pte (cur_terminal k') (visible k1)"
    "0 < n \<longrightarrow> page_directory (kvm k') 32 = proc_pde (cur_process k')"
    "\<forall>p. \<not> bit p 0 \<or> drop_bit 12 p \<notin> {0xB8, 0xB9, 0xBA, 0xBB} \<longrightarrow> pmem (kvm k') p = pmem (kvm k1) p"
    using Suc.IH [OF k1(2)] by blast
  have n0: "n = 0 \<Longrightarrow> k' = k1" using k'(1) by simp
  have "ct k' = (ct k + Suc n) mod 3"
    using k'(3) k1(3) next_terminal_facts(1) [OF c] by (simp add: mod_simps)
  moreover have "page_directory (kvm k') 32 = proc_pde (cur_process k')" using n0 k'(6) k1(6) by (cases "n = 0") simp_all
  moreover have "pmem (kvm k') p = pmem (kvm k) p" if "\<not> bit p 0 \<or> drop_bit 12 p \<notin> {0xB8, 0xB9, 0xBA, 0xBB}" for p
    using k'(7) pm [OF that] that by metis
  moreover have "ticks rl (Suc n) k = Some k'" using k1(1) k'(1) by simp
  ultimately show ?case using k'(2,4,5) k1(4,5) by (intro exI [of _ k'] conjI) auto
qed

definition sample_tasks :: kernel where
  "sample_tasks = sample_kb\<lparr>terminals := (\<lambda>i. zero_terminal\<lparr>curr_process := int i\<rparr>), pitCount := 4\<rparr>"

lemma sample_tasks_ok: "tasks_ok sample_tasks"
proof -
  have r: "real_screen (kvm sample_tasks)" using sample_kb_screen(1) by (simp add: sample_tasks_def)
  have f: "cur_terminal sample_tasks = 0" "visible sample_tasks = 0" "pitCount sample_tasks = 4" "cursor_ok (mach sample_tasks)"
    using sample_kb_inv(1) by (simp_all add: sample_tasks_def) (simp_all add: sample_kb_def zero_kernel_def kb_inv_def)
  then have "0 \<le> screen_x (mach sample_tasks)" "screen_x (mach sample_tasks) < 80" "0 \<le> screen_y (mach sample_tasks)" "screen_y (mach sample_tasks) < 25"
    by (simp_all add: cursor_ok_def NUM_COLS_def NUM_ROWS_def)
  moreover have "terminals sample_tasks i = zero_terminal\<lparr>curr_process := int i\<rparr>" for i by (simp add: sample_tasks_def)
  ultimately show ?thesis
    using r f by (simp add: tasks_ok_def task_ctx_def Let_def real_screen_def video_pte_def inj_on_def zero_terminal_def)
qed

theorem round_robin_witness:
  "\<exists>k'. ticks 0x401234 4 sample_tasks = Some k' \<and> ct k' = 1 \<and> page_directory (kvm k') 32 = proc_pde 1 \<and>
    task_ctx k' 0 = task_ctx sample_tasks 0"
proof -
  obtain k' where k': "ticks 0x401234 4 sample_tasks = Some k'" "ct k' = (ct sample_tasks + 4) mod 3"
    "\<forall>i < 3. task_ctx k' i = task_ctx sample_tasks i" "page_directory (kvm k') 32 = proc_pde (cur_process k')"
    using round_robin [OF sample_tasks_ok, of "0x401234" 4] by auto
  have "ct sample_tasks = 0" by (simp add: sample_tasks_def sample_kb_def zero_kernel_def)
  then have "ct k' = 1" using k'(2) by simp
  moreover from this have "cur_process k' = 1"
    using k'(3) [rule_format, of 1] \<open>ct sample_tasks = 0\<close> by (simp add: task_ctx_def Let_def) (simp add: sample_tasks_def)
  ultimately show ?thesis using k' by simp
qed

end
