(* ===== verification/Boot.thy ===== *)
theory Boot
  imports Scheduler
begin

text \<open>
  The first timer ticks: they start one shell per terminal, and from the fourth tick on the
  scheduler goes round.  Between two ticks user code runs; it changes its registers and what it
  may write through the page tables, nothing else.
\<close>

section \<open>User mode\<close>

definition user_run :: "kernel \<Rightarrow> kernel \<Rightarrow> bool" where
  "user_run k k' \<longleftrightarrow> (\<exists>v e b. k' = set_vm v (k\<lparr>esp := e, ebp := b\<rparr>) \<and> same_map (kvm k) v \<and>
     (\<forall>p. (\<forall>a. user_access (kvm k) a \<longrightarrow> translate (kvm k) a \<noteq> Some p) \<longrightarrow> pmem v p = pmem (kvm k) p))"

lemma user_run_refl: "user_run k k"
  unfolding user_run_def by (rule exI [of _ "kvm k"], rule exI [of _ "esp k"], rule exI [of _ "ebp k"]) (simp add: set_vm_def)

lemma user_frame:
  assumes "layout v" and "user_access v a" and "translate v a = Some p"
  shows "p \<notin> kpage"
  using user_access_layout [OF assms(1,2)]
proof (elim disjE conjE exE)
  fix pid assume "0 \<le> pid" "pid < 6" "translate v a = Some (proc_page pid OR take_bit 22 a)"
  then have "drop_bit 22 p = word_of_int (pid + 2)" "(word_of_int (pid + 2) :: u32) \<noteq> 1"
    using proc_frame(1) [of pid a] proc_frame(2) [of pid] assms(3) by simp_all
  then show ?thesis by (simp only: kpage_def mem_Collect_eq) simp
next
  fix t :: u32 assume t: "t < 4" and "translate v a = Some (((0xB8 + t) * 4096) OR take_bit 12 a)"
  then have "drop_bit 12 p = 0xB8 + t" using video_frame_addr [OF t, of a] assms(3) by simp
  moreover have "drop_bit 22 p = drop_bit 10 (drop_bit 12 p)" by (simp only: drop_bit_drop_bit) simp
  ultimately have "drop_bit 22 p = 0" using u32_lt4 [OF t] by (simp only:) auto
  then show ?thesis by (simp add: kpage_def)
qed

lemma user_run_core:
  assumes "user_run k k'" and "layout (kvm k)"
  shows "same_core k k'" "layout (kvm k')" "page_table (kvm k') = page_table (kvm k)"
proof -
  obtain v e b where v: "k' = set_vm v (k\<lparr>esp := e, ebp := b\<rparr>)" "same_map (kvm k) v"
    "\<And>p. (\<forall>a. user_access (kvm k) a \<longrightarrow> translate (kvm k) a \<noteq> Some p) \<Longrightarrow> pmem v p = pmem (kvm k) p"
    using assms(1) by (auto simp: user_run_def)
  have l: "layout v" using layout_same_map [OF v(2)] assms(2) by simp
  then show "layout (kvm k')" "page_table (kvm k') = page_table (kvm k)" using v(1) same_map_fields [OF v(2)] by simp_all
  have "pmem v p = pmem (kvm k) p" if p: "p \<in> kpage" for p
  proof (rule v(3), intro allI impI)
    fix a assume "user_access (kvm k) a"
    then show "translate (kvm k) a \<noteq> Some p" using user_frame [OF assms(2), of a p] p by auto
  qed
  then have "agree kpage (kvm k) v"
    unfolding agree_def using ld8_kpage [OF l] ld8_kpage [OF assms(2)] same_map_translate [OF v(2)] by simp
  then show "same_core k k'" using v(1) by (intro same_coreI) simp_all
qed

section \<open>The first ticks\<close>

text \<open>The state in which \<open>n\<close> shells have been started.\<close>

definition boot_ok :: "nat \<Rightarrow> dentry_t \<Rightarrow> u32 \<Rightarrow> (nat \<Rightarrow> u32) \<Rightarrow> u8 list \<Rightarrow> kernel \<Rightarrow> bool" where
  "boot_ok n d eof blk hdr k \<longleftrightarrow> screens_ok k \<and> cursors_ok k \<and> lines_empty k \<and> has_shell k d eof blk hdr \<and>
     n \<le> 3 \<and> pitCount k = word_of_nat n \<and> cur_terminal k = word_of_nat ((n + 2) mod 3) \<and>
     (\<forall>i < 3. curr_process (terminals k i) = (if i < n then int i else -1)) \<and>
     (\<forall>i < n. \<not> pid_free k (int i) \<and> parent_pid (PCB_array k (int i)) = -1) \<and>
     (\<forall>i. int n \<le> i \<and> i < 6 \<longrightarrow> pid_free k i)"

lemma user_run_boot:
  assumes "boot_ok n d eof blk hdr k" and "user_run k k'"
  shows "boot_ok n d eof blk hdr k'"
proof -
  have l: "layout (kvm k)" using assms(1) by (simp add: boot_ok_def screens_ok_def real_screen_def)
  note c = user_run_core [OF assms(2) l]
  obtain v e b where k': "k' = set_vm v (k\<lparr>esp := e, ebp := b\<rparr>)" using assms(2) by (auto simp: user_run_def)
  have "has_shell k' d eof blk hdr" using core_shell(1) [OF _ c(1)] assms(1) by (simp add: boot_ok_def)
  moreover have "screens_ok k'"
    using assms(1) c(2,3) k' by (simp add: boot_ok_def screens_ok_def real_screen_def live_bytes_def set_vm_def)
  moreover have "cursors_ok k'" using assms(1) k' by (simp add: boot_ok_def cursors_ok_def cursor_ok_def set_vm_def)
  moreover have "lines_empty k' = lines_empty k" unfolding k' by (rule lines_empty_cong) (simp_all add: edit_state_def Let_def)
  ultimately show ?thesis using assms(1) k' by (simp add: boot_ok_def pid_free_def)
qed

text \<open>The part of the handler before the case distinction on \<open>pitCount\<close>.\<close>

definition tick_entry :: "kernel \<Rightarrow> vmem \<Rightarrow> kernel" where
  "tick_entry k v = (save_task (k\<lparr>pitIntrCount := pitIntrCount k + 1, mach := (mach k)\<lparr>vm := v\<rparr>\<rparr>))
     \<lparr>cur_terminal := next_terminal (cur_terminal k)\<rparr>"

lemma tick_entry_fields:
  "kvm (tick_entry k v) = v" "cur_terminal (tick_entry k v) = next_terminal (cur_terminal k)" "visible (tick_entry k v) = visible k"
  "pitCount (tick_entry k v) = pitCount k" "curr_process (terminals (tick_entry k v) i) = curr_process (terminals k i)"
  "pid_free (tick_entry k v) pid = pid_free k pid" "parent_pid (PCB_array (tick_entry k v) pid) = parent_pid (PCB_array k pid)"
  "save_tss (terminals (tick_entry k v) i) = (if i = ct k then tss k else save_tss (terminals k i))"
  "pid \<noteq> cur_process k \<Longrightarrow> PCB_array (tick_entry k v) pid = PCB_array k pid"
  "task_esp (PCB_array (tick_entry k v) (cur_process k)) = esp k" "task_ebp (PCB_array (tick_entry k v) (cur_process k)) = ebp k"
  by (simp_all add: tick_entry_def save_task_fields pid_free_def)

lemma tick_entry_lines: "lines_empty (tick_entry k v) = lines_empty k"
  by (rule lines_empty_cong) (simp_all add: edit_state_def Let_def tick_entry_def save_task_def)

lemma tick_entry_ok:
  assumes "screens_ok k" and "cursors_ok k"
  obtains v where "test_interrupts (uint (pitIntrCount k + 1)) (mach k) = Some ((mach k)\<lparr>vm := v\<rparr>)"
    "screens_ok (tick_entry k v)" "cursors_ok (tick_entry k v)" "same_core k (tick_entry k v)"
proof -
  have l: "layout (kvm k)" using assms(1) by (simp add: screens_ok_def real_screen_def)
  obtain v where v: "test_interrupts (uint (pitIntrCount k + 1)) (mach k) = Some ((mach k)\<lparr>vm := v\<rparr>)"
    "changes attr_region (kvm k) v" "layout v" using test_interrupts_ok [OF l] by blast
  have ag: "agree kpage (kvm k) v"
    by (rule agree_changes [OF changes_mono [OF v(2) attr_region_screen] screen_kpage_apart [OF l]])
  have sc: "same_core k (tick_entry k v)"
    using ag by (intro same_coreI) (simp_all add: tick_entry_fields(1), simp_all add: tick_entry_def save_task_def Let_def)
  have "real_screen v" using assms(1) v(3) same_map_fields [OF changes_same_map [OF v(2)]] by (simp add: screens_ok_def real_screen_def)
  then have so: "screens_ok (tick_entry k v)"
    using assms(1) by (simp add: screens_ok_def live_bytes_def tick_entry_fields(1,3))
      (simp add: tick_entry_def save_task_def Let_def)
  have "cursors_ok (tick_entry k v)"
    using assms(2) uint_cursor [of "mach k"] by (auto simp: cursors_ok_def cursor_ok_def tick_entry_def save_task_fields)
  with v(1) so sc that show ?thesis by blast
qed

lemma pit_entry:
  assumes "test_interrupts (uint (pitIntrCount k + 1)) (mach k) = Some ((mach k)\<lparr>vm := v\<rparr>)"
  shows "pitCount k < 3 \<Longrightarrow> start_shell rl (tick_entry k v) = Some (To_user u, k') \<Longrightarrow> pit_handler rl k = Some (To_user u, k')"
    and "pitCount k = 3 \<Longrightarrow> switch_terminal 0 (tick_entry k v) = Some k' \<Longrightarrow>
      pit_handler rl k = Some (Returns 0, load_task (k'\<lparr>pitCount := pitCount k' + 1\<rparr>))"
  using assms by (simp_all add: pit_handler_def Let_def on_mach_def save_task_fields tick_entry_def next_terminal_def)

lemma boot_step:
  assumes b: "boot_ok n d eof blk hdr k" and n: "n < 3"
  shows "\<exists>k'. pit_handler rl k = Some (To_user (user_entry hdr), k') \<and> boot_ok (Suc n) d eof blk hdr k' \<and> visible k' = word_of_nat n \<and>
    page_directory (kvm k') 32 = proc_pde (int n) \<and>
    (\<forall>i < unat eof. ld8 (kvm k') (0x08048000 + word_of_nat i) = file_byte (kvm k) k (inodeNum d) i) \<and>
    task_esp (PCB_array k' (cur_process k)) = esp k \<and> task_ebp (PCB_array k' (cur_process k)) = ebp k \<and>
    (\<forall>i. i \<noteq> int n \<and> i \<noteq> cur_process k \<longrightarrow> PCB_array k' i = PCB_array k i) \<and>
    (\<forall>i. save_tss (terminals k' i) = (if i = ct k then tss k else save_tss (terminals k i)))"
proof -
  have pc: "pitCount k = word_of_nat n" and cur: "cur_terminal k = word_of_nat ((n + 2) mod 3)" using b by (simp_all add: boot_ok_def)
  have u: "unat (word_of_nat n :: u8) = n" "ct k = (n + 2) mod 3" using n cur by (simp_all add: unsigned_of_nat take_bit_nat_eq_self)
  have nt: "next_terminal (cur_terminal k) = word_of_nat n"
  proof -
    have "n = 0 \<or> n = 1 \<or> n = 2" using n by auto
    then show ?thesis unfolding cur next_terminal_def by auto
  qed
  have cp: "cur_process k \<noteq> int n" "cur_process k < int n"
    using b n u(2) by (auto simp: boot_ok_def mod_Suc split: if_splits)
  obtain v where v: "test_interrupts (uint (pitIntrCount k + 1)) (mach k) = Some ((mach k)\<lparr>vm := v\<rparr>)"
    "screens_ok (tick_entry k v)" "cursors_ok (tick_entry k v)" "same_core k (tick_entry k v)"
    using tick_entry_ok [of k] b by (auto simp: boot_ok_def)
  let ?k = "tick_entry k v"
  note f = tick_entry_fields [where k = k and v = v]
  have sh: "has_shell ?k d eof blk hdr" using core_shell(1) [OF _ v(4)] b by (simp add: boot_ok_def)
  have fb: "file_byte (kvm ?k) ?k (inodeNum d) i = file_byte (kvm k) k (inodeNum d) i" if "i < unat eof" for i
    using core_shell(2) [OF _ v(4) that] b by (auto simp: boot_ok_def)
  have used: "\<not> pid_free ?k j" if "0 \<le> j" "j < int n" for j
    using b that nat_0_le [OF that(1)] unfolding f(6) boot_ok_def by (metis of_nat_less_iff)
  have "pid_free ?k (int n)" using b n unfolding f(6) boot_ok_def by simp
  then obtain k0 where g: "getPID ?k = (int n, k0)" using getPID_lowest [of ?k "int n"] n used by auto
  have p3: "unat (pitCount ?k) < 3" using pc u n by (simp add: f(4))
  have le: "lines_empty ?k" using b by (simp add: tick_entry_lines boot_ok_def)
  have ne: "int n \<noteq> -1" by simp
  obtain k' where k': "start_shell rl ?k = Some (To_user (user_entry hdr), k')" "visible k' = pitCount ?k"
    "cur_terminal k' = cur_terminal ?k" "page_directory (kvm k') 32 = proc_pde (int n)"
    "\<forall>i < unat eof. ld8 (kvm k') (0x08048000 + word_of_nat i) = file_byte (kvm ?k) ?k (inodeNum d) i"
    "\<forall>i. curr_process (terminals k' i) = (if i = ct ?k then int n else curr_process (terminals ?k i))"
    "\<forall>i. i \<noteq> int n \<longrightarrow> PCB_array k' i = PCB_array ?k i" "\<not> pid_free k' (int n)" "parent_pid (PCB_array k' (int n)) = cur_process ?k"
    "screens_ok k'" "cursors_ok k'" "has_shell k' d eof blk hdr" "pitCount k' = pitCount ?k + 1"
    "\<forall>i. save_tss (terminals k' i) = save_tss (terminals ?k i)" "lines_empty k'"
    using start_shell_ok [OF v(2) p3 sh g ne, of rl] v(3) le by blast
  have h: "pit_handler rl k = Some (To_user (user_entry hdr), k')"
    using pit_entry(1) [OF v(1) _ k'(1)] p3 by (simp add: f(4) word_less_nat_alt)
  have pf: "pid_free k' i = pid_free k i" "parent_pid (PCB_array k' i) = parent_pid (PCB_array k i)" if "i \<noteq> int n" for i
    using k'(7) that f(6,7) by (simp_all add: pid_free_def)
  have cpk: "curr_process (terminals k' i) = (if i = n then int n else curr_process (terminals k i))" for i
    using k'(6) u(1) by (simp add: f nt)
  have cur': "cur_terminal k' = word_of_nat n" "pitCount k' = word_of_nat (Suc n)" using k'(3,13) pc nt by (simp_all add: f)
  have par: "parent_pid (PCB_array k' (int n)) = -1" using k'(9) b n nt u(1) by (simp add: f boot_ok_def)
  have m: "(Suc n + 2) mod 3 = n" using n by simp
  have "boot_ok (Suc n) d eof blk hdr k'"
    unfolding boot_ok_def m using b n cur' par k'(8,10,11,12,15) pf cpk by (auto simp: boot_ok_def less_Suc_eq)
  moreover have "\<forall>i. i \<noteq> int n \<and> i \<noteq> cur_process k \<longrightarrow> PCB_array k' i = PCB_array k i" using k'(7) f(9) by simp
  moreover have "PCB_array k' (cur_process k) = PCB_array ?k (cur_process k)" using k'(7) cp by simp
  ultimately show ?thesis using h k'(2,4,5,14) fb pc by (simp add: f)
qed

lemma boot_last:
  assumes b: "boot_ok 3 d eof blk hdr k"
  shows "\<exists>k'. pit_handler rl k = Some (Returns 0, k') \<and> sys_inv k' \<and> visible k' = 0 \<and> cur_terminal k' = 0 \<and>
    (\<forall>i < 3. curr_process (terminals k' i) = int i) \<and> esp k' = task_esp (PCB_array k 0) \<and> ebp k' = task_ebp (PCB_array k 0) \<and>
    tss k' = save_tss (terminals k 0) \<and> page_directory (kvm k') 32 = proc_pde 0"
proof -
  have cur: "cur_terminal k = 2" and pc: "pitCount k = 3" using b by (simp_all add: boot_ok_def)
  have nt: "next_terminal (cur_terminal k) = 0" unfolding cur next_terminal_def by simp
  obtain v where v: "test_interrupts (uint (pitIntrCount k + 1)) (mach k) = Some ((mach k)\<lparr>vm := v\<rparr>)"
    "screens_ok (tick_entry k v)" "cursors_ok (tick_entry k v)"
    using b by (auto simp: boot_ok_def elim: tick_entry_ok)
  let ?k = "tick_entry k v"
  note f = tick_entry_fields [where k = k and v = v]
  obtain k1 where k1: "switch_terminal 0 ?k = Some k1" "screens_ok k1" "visible k1 = 0" "cur_terminal k1 = cur_terminal ?k"
    "PCB_array k1 = PCB_array ?k" "\<forall>j. curr_process (terminals k1 j) = curr_process (terminals ?k j)"
    using switch_terminal_ok [OF v(2), of 0] by auto
  have c1: "same_ctl ?k k1" "cursors_ok k1"
    using switch_terminal_core(2) [OF v(2) _ k1(1)] switch_terminal_cursors [OF v(3) _ k1(1)] by simp_all
  define k2 where "k2 = k1\<lparr>pitCount := pitCount k1 + 1\<rparr>"
  let ?k' = "load_task k2"
  have same: "terminals k2 = terminals k1" "PCB_array k2 = PCB_array k1" by (simp_all add: k2_def)
  have h: "pit_handler rl k = Some (Returns 0, ?k')" unfolding k2_def by (rule pit_entry(2) [OF v(1) pc k1(1)])
  have cp: "curr_process (terminals k2 i) = int i" if "i < 3" for i using b k1(6) that by (simp add: k2_def f boot_ok_def)
  have k2: "cur_terminal k2 = 0" "visible k2 = 0" "cur_process k2 = 0" "pitCount k2 = 4"
    using k1(3,4) nt cp [of 0] c1(1) pc by (simp_all add: k2_def f same_ctl_def)
  note lf = load_task_fields [of k2, unfolded k2 if_True]
  have lay: "layout (map_video_page 0 (kvm k2))"
    using k1(2) by (intro map_video_page_layout) (simp_all add: k2_def screens_ok_def real_screen_def)
  note mp = map_process_page [OF lay, of 0]
  have kv: "layout (kvm ?k')" "page_directory (kvm ?k') 32 = proc_pde 0" "page_table (kvm ?k') 0xB8 = video_pte 0 0"
    using mp video_pte_video_page [of 0 0 "kvm k2"] cp [of 0] by (simp_all add: lf)
  have cu: "\<forall>i < 3. case task_ctx ?k' i of (_, _, _, x, y, _) \<Rightarrow> 0 \<le> x \<and> x < 80 \<and> 0 \<le> y \<and> y < 25"
    using c1(2) by (auto simp: task_ctx_def Let_def lf same cursors_ok_def)
  have "cur_process k = 2" using b cur by (simp add: boot_ok_def)
  then have p0: "PCB_array ?k' 0 = PCB_array k 0" "save_tss (terminals ?k' 0) = save_tss (terminals k 0)"
    using k1(5) c1(1) f(9) [of 0] f(8) [of 0] cur by (simp_all add: lf same same_ctl_def)
  have "lines_empty k1" using switch_terminal_lines [OF v(2) _ k1(1)] b by (simp add: tick_entry_lines boot_ok_def)
  moreover have "lines_empty ?k' = lines_empty k1"
    by (rule lines_empty_cong) (simp_all add: edit_state_def Let_def load_task_def map_current_video_def k2_def)
  ultimately have le: "lines_empty ?k'" by simp
  have vb: "\<forall>i < 3. video_buffer (terminals ?k' i) = pa (Suc i)" using k1(2) by (simp add: lf same screens_ok_def)
  have "uint (t_screen_x (terminals k1 0)) < 80" "uint (t_screen_y (terminals k1 0)) < 25" using c1(2) by (auto simp: cursors_ok_def)
  moreover have "screen_x (mach ?k') = uint (t_screen_x (terminals k1 0))" "screen_y (mach ?k') = uint (t_screen_y (terminals k1 0))"
    by (simp_all add: lf(10,11) same(1))
  ultimately have "cursor_ok (mach ?k')" by (simp add: cursor_ok_def NUM_COLS_def NUM_ROWS_def)
  moreover have "state_ok ?k' i" if "i < 3" for i by (rule lines_empty_state [OF le that cu [rule_format, OF that]])
  ultimately have "kb_inv ?k'" using kv(1) vb le by (simp add: kb_inv_iff lf lines_empty_def)
  then have "sys_inv ?k'"
    using kv cp by (intro sys_invI) (simp_all add: lf inj_on_def)
  then show ?thesis using h kv(2) cp [of 0] cp p0 by (simp add: lf)
qed

section \<open>Properties\<close>


definition sample_boot :: kernel where
  "sample_boot = sample_exec\<lparr>terminals := (\<lambda>i. zero_terminal\<lparr>video_buffer := pa (Suc i), curr_process := -1\<rparr>), cur_terminal := 2\<rparr>"

lemma sample_boot_ok: "boot_ok 0 sample_dentry 28 (\<lambda>_. 0) sample_hdr sample_boot"
proof -
  have kp: "region (0x420000 :: addr) 128 \<subseteq> kpage" by (rule kpage_region) simp_all
  have dj: "region (0x420000 :: addr) 128 \<inter> region 0x7FF000 28 = {}" by (rule region_disjoint) simp_all
  have f: "shell_name sample_boot = 0x420000" "kvm sample_boot = kvm sample_exec" "pitCount sample_boot = 0" "visible sample_boot = 0"
    "cursor_ok (mach sample_boot)" "live_bytes sample_boot"
    by (simp_all add: sample_boot_def)
      (simp_all add: sample_exec_def zero_kernel_def cursor_ok_def live_bytes_def NUM_COLS_def NUM_ROWS_def)
  have r: "real_screen (kvm sample_boot)"
    using sample_exec_ready(1)
    by (simp add: f real_screen_def) (simp add: init_paging_def Let_def enable_paging_def init_tables_fields VIDEO_MEM_INDEX_def FOUR_KB_def)
  have p: "program sample_boot [0x61] sample_dentry 28 (\<lambda>_. 0) sample_hdr"
    using program_agree(1) [OF sample_program, of sample_boot] by (simp add: sample_boot_def agree_def)
  have sh: "has_shell sample_boot sample_dentry 28 (\<lambda>_. 0) sample_hdr"
    unfolding has_shell_def using p kp dj sample_exec_ready(3,5) f
    by (intro exI [of _ "[0x61]"]) (auto simp: sample_boot_def)
  have t: "terminals sample_boot = (\<lambda>i. zero_terminal\<lparr>video_buffer := pa (Suc i), curr_process := -1\<rparr>)" "cur_terminal sample_boot = 2"
    by (simp_all add: sample_boot_def)
  have "pid_free sample_boot i" if "0 \<le> i" "i < 6" for i
    using init_PCB_free(1) [OF that] by (simp add: sample_boot_def sample_exec_def pid_free_def)
  moreover have "lines_empty sample_boot"
    by (simp add: lines_empty_def edit_state_def Let_def t zero_terminal_def) (simp add: sample_boot_def sample_exec_def zero_kernel_def)
  ultimately show ?thesis
    using r f sh t by (simp add: boot_ok_def screens_ok_def cursors_ok_def zero_terminal_def)
qed


end
