(* ===== verification/Syscall.thy ===== *)
theory Syscall
  imports Halt
begin

text \<open>
  System calls: the wrappers of \<open>student-distrib/syscall.c\<close>, the tables of file operations of
  \<open>pcb.c\<close>, and the entry point of \<open>syscall_asm.S\<close>, which dispatches on the number in EAX.

  What a call sees of the outside is an argument, \<open>sysenv\<close>: the devices, the interrupts that
  arrive while the call waits, the address of the label in \<open>execute\<close>, and the contents of
  uninitialised storage (the directory entry on \<open>dir_read\<close>'s stack, EAX after the error
  message, registers of arguments a call does not have).  A call returns the rest of the interrupts.
\<close>

section \<open>Definitions\<close>

record 'e sysenv =
  e_dev :: device
  e_label :: u32
  e_other :: "machine \<Rightarrow> machine"
  e_rtc_irqs :: "irq list"
  e_handler :: "'e \<Rightarrow> kernel \<Rightarrow> kernel option"
  e_irqs :: "'e list"
  e_dentry :: dentry_t
  e_eax :: int
  e_reg :: u32

type_synonym 'e call_result = "(outcome \<times> 'e sysenv \<times> kernel) option"

definition rtc_fread :: "'e sysenv \<Rightarrow> kernel \<Rightarrow> (int \<times> 'e sysenv \<times> kernel) option" where
  "rtc_fread e k = do {
     (n, irqs, m) \<leftarrow> rtc_read (e_dev e) (e_other e) (e_rtc_irqs e) (mach k);
     Some (n, e\<lparr>e_rtc_irqs := irqs\<rparr>, k\<lparr>mach := m\<rparr>)
   }"

definition terminal_fread :: "'e sysenv \<Rightarrow> int \<Rightarrow> addr \<Rightarrow> int \<Rightarrow> kernel \<Rightarrow> (int \<times> 'e sysenv \<times> kernel) option" where
  "terminal_fread e fd buf nbytes k = do {
     (n, irqs, k) \<leftarrow> terminal_read (e_handler e) (e_irqs e) fd buf nbytes k;
     Some (n, e\<lparr>e_irqs := irqs\<rparr>, k)
   }"

fun fop_read :: "fop \<Rightarrow> 'e sysenv \<Rightarrow> int \<Rightarrow> addr \<Rightarrow> int \<Rightarrow> kernel \<Rightarrow> (int \<times> 'e sysenv \<times> kernel) option" where
  "fop_read rtc_struct e fd buf nbytes k = rtc_fread e k"
| "fop_read dir_struct e fd buf nbytes k = map_option (\<lambda>(n, k). (n, e, k)) (dir_read fd buf nbytes (e_dentry e) k)"
| "fop_read file_struct e fd buf nbytes k = map_option (\<lambda>(n, k). (n, e, k)) (file_read fd buf nbytes k)"
| "fop_read terminal_struct e fd buf nbytes k = terminal_fread e fd buf nbytes k"

fun fop_write :: "fop \<Rightarrow> 'e sysenv \<Rightarrow> int \<Rightarrow> addr \<Rightarrow> int \<Rightarrow> kernel \<Rightarrow> (int \<times> kernel) option" where
  "fop_write rtc_struct e fd buf nbytes k = map_option (\<lambda>(n, m). (n, k\<lparr>mach := m\<rparr>)) (rtc_write (e_dev e) fd buf nbytes (mach k))"
| "fop_write dir_struct e fd buf nbytes k = dir_write fd buf nbytes k"
| "fop_write file_struct e fd buf nbytes k = file_write fd buf nbytes k"
| "fop_write terminal_struct e fd buf nbytes k = terminal_write fd buf nbytes k"

definition sys_halt :: "'e sysenv \<Rightarrow> u8 \<Rightarrow> kernel \<Rightarrow> (outcome \<times> kernel) option" where
  "sys_halt e status k = halt (e_label e) status k"

definition sys_execute :: "'e sysenv \<Rightarrow> addr \<Rightarrow> kernel \<Rightarrow> (outcome \<times> kernel) option" where
  "sys_execute e command k = execute (e_label e) command k"

definition sys_read :: "'e sysenv \<Rightarrow> int \<Rightarrow> addr \<Rightarrow> int \<Rightarrow> kernel \<Rightarrow> (int \<times> 'e sysenv \<times> kernel) option" where
  "sys_read e fd buf nbytes k =
     (if fd < 0 \<or> fd \<ge> 6 \<or> fd = 1 then Some (-1, e, k)
      else if buf = 0 then Some (-1, e, k)
      else if fd = 0 then terminal_fread e fd buf nbytes k
      else if present (fd_of k (currPid k) (currFD k)) = -1 \<or> currFD k = -1 then Some (-1, e, k)
      else (case jump_start_idx (fd_of k (currPid k) (currFD k)) of
              None \<Rightarrow> None
            | Some f \<Rightarrow> fop_read f e fd buf nbytes k))"

definition sys_write :: "'e sysenv \<Rightarrow> int \<Rightarrow> addr \<Rightarrow> int \<Rightarrow> kernel \<Rightarrow> (int \<times> kernel) option" where
  "sys_write e fd buf nbytes k =
     (if fd < 0 \<or> fd \<ge> 6 \<or> fd = 0 then Some (-1, k)
      else if buf = 0 then Some (-1, k)
      else if fd = 1 then terminal_write fd buf nbytes k
      else if present (fd_of k (currPid k) (currFD k)) = -1 \<or> currFD k = -1 then Some (-1, k)
      else (case jump_start_idx (fd_of k (currPid k) (currFD k)) of
              None \<Rightarrow> None
            | Some f \<Rightarrow> fop_write f e fd buf nbytes k))"

definition sys_open :: "addr \<Rightarrow> kernel \<Rightarrow> (int \<times> kernel) option" where
  "sys_open filename k = do {
     c \<leftarrow> ld8 (kvm k) filename;
     if c = 0 then Some (-1, k)
     else do {
       (fd, k) \<leftarrow> insert_fdt (str_at (kvm k) filename) k;
       let k = k\<lparr>currFD := fd\<rparr>;
       let k = k\<lparr>currPid := cur_process k\<rparr>;
       Some (currFD k, k)
     }
   }"

definition sys_close :: "int \<Rightarrow> kernel \<Rightarrow> int \<times> kernel" where
  "sys_close fd k =
     (if fd \<le> 2 \<or> fd \<ge> 6 then (-1, k)
      else
        let (retval, k) = remove_fd_entry fd k;
            k = (if retval = 0 then k\<lparr>currFD := currFD k - 1\<rparr> else k)
        in (retval, k))"

definition sys_vidmap :: "addr \<Rightarrow> kernel \<Rightarrow> (int \<times> kernel) option" where
  "sys_vidmap start k =
     (if start = 0 \<or> (start \<ge> 0x400000 \<and> start < 0x800000) then Some (-1, k) else vid_map start k)"

definition syscall_handler :: "kernel \<Rightarrow> kernel option" where
  "syscall_handler k = printf_lit (''syscall parameters invalid'' @ [CHR 0x0A]) k"

definition sys_getargs :: "addr \<Rightarrow> int \<Rightarrow> kernel \<Rightarrow> (int \<times> kernel) option" where
  "sys_getargs buf nbytes k = do {
     as \<leftarrow> terminal_getargs (args (get_current_PCB k)) 1024 k;
     let k = upd_pcb (cur_process k) (\<lambda>p. p\<lparr>args := as\<rparr>) k;
     if as ! 0 = 0 then Some (-1, k)
     else do {
       k \<leftarrow> copy_out buf as (unat (word_of_int nbytes :: u32)) k;
       Some (0, k)
     }
   }"

text \<open>The entry point: EAX is the number of the call, EBX, ECX and EDX are its arguments.\<close>

definition syscall_halt :: "'e sysenv \<Rightarrow> u32 \<Rightarrow> kernel \<Rightarrow> 'e call_result" where
  "syscall_halt e ebx k = map_option (\<lambda>(out, k). (out, e, k)) (sys_halt e (ucast (ebx AND 0xF)) k)"

definition syscall_execute :: "'e sysenv \<Rightarrow> u32 \<Rightarrow> kernel \<Rightarrow> 'e call_result" where
  "syscall_execute e ebx k = map_option (\<lambda>(out, k). (out, e, k)) (sys_execute e ebx k)"

definition syscall_fail :: "'e sysenv \<Rightarrow> kernel \<Rightarrow> 'e call_result" where
  "syscall_fail e k = map_option (\<lambda>k. (Returns (e_eax e), e, k)) (syscall_handler k)"

definition syscall_read :: "'e sysenv \<Rightarrow> u32 \<Rightarrow> u32 \<Rightarrow> u32 \<Rightarrow> kernel \<Rightarrow> 'e call_result" where
  "syscall_read e ebx ecx edx k =
     (if edx = -1 then syscall_fail e k else if ecx = -1 then syscall_fail e k else if ebx = -1 then syscall_fail e k
      else map_option (\<lambda>(n, e, k). (Returns n, e, k)) (sys_read e (sint ebx) ecx (sint edx) k))"

definition syscall_write :: "'e sysenv \<Rightarrow> u32 \<Rightarrow> u32 \<Rightarrow> u32 \<Rightarrow> kernel \<Rightarrow> 'e call_result" where
  "syscall_write e ebx ecx edx k = map_option (\<lambda>(n, k). (Returns n, e, k)) (sys_write e (sint ebx) ecx (sint edx) k)"

definition syscall_open :: "'e sysenv \<Rightarrow> u32 \<Rightarrow> kernel \<Rightarrow> 'e call_result" where
  "syscall_open e ebx k = map_option (\<lambda>(n, k). (Returns n, e, k)) (sys_open ebx k)"

definition syscall_close :: "'e sysenv \<Rightarrow> u32 \<Rightarrow> kernel \<Rightarrow> 'e call_result" where
  "syscall_close e ebx k = (let (n, k) = sys_close (sint ebx) k in Some (Returns n, e, k))"

definition syscall_getargs :: "'e sysenv \<Rightarrow> u32 \<Rightarrow> u32 \<Rightarrow> kernel \<Rightarrow> 'e call_result" where
  "syscall_getargs e ebx ecx k = map_option (\<lambda>(n, k). (Returns n, e, k)) (sys_getargs ebx (sint ecx) k)"

definition syscall_vidmap :: "'e sysenv \<Rightarrow> u32 \<Rightarrow> kernel \<Rightarrow> 'e call_result" where
  "syscall_vidmap e ebx k = map_option (\<lambda>(n, k). (Returns n, e, k)) (sys_vidmap ebx k)"

definition syscall_handler_asm :: "'e sysenv \<Rightarrow> u32 \<Rightarrow> u32 \<Rightarrow> u32 \<Rightarrow> u32 \<Rightarrow> kernel \<Rightarrow> 'e call_result" where
  "syscall_handler_asm e eax ebx ecx edx k =
     (if sint eax \<le> 0 then Some (Returns (-1), e, k)
      else if sint eax > 8 then Some (Returns (-1), e, k)
      else ([syscall_halt e ebx, syscall_execute e ebx, syscall_read e ebx ecx edx, syscall_write e ebx ecx edx,
            syscall_open e ebx, syscall_close e ebx, syscall_getargs e ebx ecx, syscall_vidmap e ebx] ! unat (eax - 1)) k)"

text \<open>An environment without devices and interrupts.\<close>

definition sample_env :: "unit sysenv" where
  "sample_env = \<lparr>e_dev = (\<lambda>_ _. 0), e_label = 0x401234, e_other = id, e_rtc_irqs = [], e_handler = (\<lambda>_. Some), e_irqs = [],
     e_dentry = zero_dentry, e_eax = 0, e_reg = 0\<rparr>"

end
