(* ===== verification/Descriptors.thy ===== *)
theory Descriptors
  imports Prelude
begin

text \<open>
  Descriptors of \<open>student-distrib/x86_desc.h\<close> and \<open>x86_desc.S\<close>: the gates of the interrupt
  descriptor table and the segment descriptors of the global descriptor table, with their bit
  fields at their widths.  The two words of the C union are \<open>idt_val\<close> and \<open>seg_val\<close>; the
  processor's reading of them is \<open>cpu_gate\<close>, \<open>cpu_base\<close> and \<open>cpu_limit\<close>.  The lemmas show that the parts
  an address or a limit is split into are put together again, and that decoding inverts encoding.
\<close>

section \<open>Definitions\<close>

type_synonym u1 = "1 word"

definition KERNEL_CS :: u16 where
  "KERNEL_CS = 0x0010"

definition KERNEL_DS :: u16 where
  "KERNEL_DS = 0x0018"

definition USER_CS :: u16 where
  "USER_CS = 0x0023"

definition USER_DS :: u16 where
  "USER_DS = 0x002B"

definition KERNEL_TSS :: u16 where
  "KERNEL_TSS = 0x0030"

definition KERNEL_LDT :: u16 where
  "KERNEL_LDT = 0x0038"

definition TSS_SIZE :: u32 where
  "TSS_SIZE = 104"

definition NUM_VEC :: nat where
  "NUM_VEC = 256"

record idt_desc_t =
  offset_15_00 :: u16
  seg_selector :: u16
  reserved4 :: u8
  reserved3 :: u1
  reserved2 :: u1
  reserved1 :: u1
  idt_size :: u1
  reserved0 :: u1
  idt_dpl :: "2 word"
  idt_present :: u1
  offset_31_16 :: u16

definition idt_val :: "idt_desc_t \<Rightarrow> u32 \<times> u32" where
  "idt_val d =
     (ucast (offset_15_00 d) OR push_bit 16 (ucast (seg_selector d)),
      ucast (reserved4 d) OR push_bit 8 (ucast (reserved3 d)) OR push_bit 9 (ucast (reserved2 d)) OR
      push_bit 10 (ucast (reserved1 d)) OR push_bit 11 (ucast (idt_size d)) OR push_bit 12 (ucast (reserved0 d)) OR
      push_bit 13 (ucast (idt_dpl d)) OR push_bit 15 (ucast (idt_present d)) OR push_bit 16 (ucast (offset_31_16 d)))"

definition idt_of_val :: "u32 \<times> u32 \<Rightarrow> idt_desc_t" where
  "idt_of_val v =
     \<lparr>offset_15_00 = ucast (fst v), seg_selector = ucast (drop_bit 16 (fst v)),
      reserved4 = ucast (snd v), reserved3 = ucast (drop_bit 8 (snd v)), reserved2 = ucast (drop_bit 9 (snd v)),
      reserved1 = ucast (drop_bit 10 (snd v)), idt_size = ucast (drop_bit 11 (snd v)), reserved0 = ucast (drop_bit 12 (snd v)),
      idt_dpl = ucast (drop_bit 13 (snd v)), idt_present = ucast (drop_bit 15 (snd v)), offset_31_16 = ucast (drop_bit 16 (snd v))\<rparr>"

definition SET_IDT_ENTRY :: "u32 \<Rightarrow> idt_desc_t \<Rightarrow> idt_desc_t" where
  "SET_IDT_ENTRY handler d =
     d\<lparr>offset_31_16 := ucast (drop_bit 16 (handler AND 0xFFFF0000)), offset_15_00 := ucast (handler AND 0xFFFF)\<rparr>"

text \<open>The tables as \<open>x86_desc.S\<close> allocates them.\<close>

definition zero_idt :: "idt_desc_t list" where
  "zero_idt = replicate NUM_VEC (idt_of_val (0, 0))"

record seg_desc_t =
  seg_lim_15_00 :: u16
  base_15_00 :: u16
  base_23_16 :: u8
  seg_type :: "4 word"
  seg_sys :: u1
  seg_dpl :: "2 word"
  seg_present :: u1
  seg_lim_19_16 :: "4 word"
  seg_avail :: u1
  seg_reserved :: u1
  seg_opsize :: u1
  seg_granularity :: u1
  base_31_24 :: u8

definition seg_val :: "seg_desc_t \<Rightarrow> u32 \<times> u32" where
  "seg_val d =
     (ucast (seg_lim_15_00 d) OR push_bit 16 (ucast (base_15_00 d)),
      ucast (base_23_16 d) OR push_bit 8 (ucast (seg_type d)) OR push_bit 12 (ucast (seg_sys d)) OR
      push_bit 13 (ucast (seg_dpl d)) OR push_bit 15 (ucast (seg_present d)) OR push_bit 16 (ucast (seg_lim_19_16 d)) OR
      push_bit 20 (ucast (seg_avail d)) OR push_bit 21 (ucast (seg_reserved d)) OR push_bit 22 (ucast (seg_opsize d)) OR
      push_bit 23 (ucast (seg_granularity d)) OR push_bit 24 (ucast (base_31_24 d)))"

definition seg_of_val :: "u32 \<times> u32 \<Rightarrow> seg_desc_t" where
  "seg_of_val v =
     \<lparr>seg_lim_15_00 = ucast (fst v), base_15_00 = ucast (drop_bit 16 (fst v)), base_23_16 = ucast (snd v),
      seg_type = ucast (drop_bit 8 (snd v)), seg_sys = ucast (drop_bit 12 (snd v)), seg_dpl = ucast (drop_bit 13 (snd v)),
      seg_present = ucast (drop_bit 15 (snd v)), seg_lim_19_16 = ucast (drop_bit 16 (snd v)), seg_avail = ucast (drop_bit 20 (snd v)),
      seg_reserved = ucast (drop_bit 21 (snd v)), seg_opsize = ucast (drop_bit 22 (snd v)),
      seg_granularity = ucast (drop_bit 23 (snd v)), base_31_24 = ucast (drop_bit 24 (snd v))\<rparr>"

definition SET_LDT_PARAMS :: "u32 \<Rightarrow> u32 \<Rightarrow> seg_desc_t \<Rightarrow> seg_desc_t" where
  "SET_LDT_PARAMS a lim d =
     d\<lparr>base_31_24 := ucast (drop_bit 24 (a AND 0xFF000000)), base_23_16 := ucast (drop_bit 16 (a AND 0x00FF0000)),
       base_15_00 := ucast (a AND 0x0000FFFF), seg_lim_19_16 := ucast (drop_bit 16 (lim AND 0x000F0000)),
       seg_lim_15_00 := ucast (lim AND 0x0000FFFF)\<rparr>"

definition SET_TSS_PARAMS :: "u32 \<Rightarrow> u32 \<Rightarrow> seg_desc_t \<Rightarrow> seg_desc_t" where
  "SET_TSS_PARAMS a lim d =
     d\<lparr>base_31_24 := ucast (drop_bit 24 (a AND 0xFF000000)), base_23_16 := ucast (drop_bit 16 (a AND 0x00FF0000)),
       base_15_00 := ucast (a AND 0x0000FFFF), seg_lim_19_16 := ucast (drop_bit 16 (lim AND 0x000F0000)),
       seg_lim_15_00 := ucast (lim AND 0x0000FFFF)\<rparr>"

definition gdt :: "(u32 \<times> u32) list" where
  "gdt = [(0, 0), (0, 0), (0x0000FFFF, 0x00CF9A00), (0x0000FFFF, 0x00CF9200), (0x0000FFFF, 0x00CFFA00),
     (0x0000FFFF, 0x00CFF200), (0, 0), (0, 0)]"

section \<open>How the processor reads the tables\<close>

text \<open>A gate of the interrupt descriptor table.\<close>

datatype gate_kind = Interrupt_gate | Trap_gate

record gate =
  g_kind :: gate_kind
  g_dpl :: nat
  g_selector :: u16
  g_offset :: u32

definition cpu_gate :: "u32 \<times> u32 \<Rightarrow> gate option" where
  "cpu_gate v =
     (let lo = fst v; hi = snd v; ty = take_bit 5 (drop_bit 8 hi) in
      if bit hi 15 \<and> (ty = 0xE \<or> ty = 0xF) then
        Some \<lparr>g_kind = (if ty = 0xE then Interrupt_gate else Trap_gate), g_dpl = unat (take_bit 2 (drop_bit 13 hi)),
              g_selector = ucast (drop_bit 16 lo), g_offset = (hi AND 0xFFFF0000) OR (lo AND 0xFFFF)\<rparr>
      else None)"

text \<open>A segment: base, limit in bytes, privilege level.\<close>

definition cpu_base :: "u32 \<times> u32 \<Rightarrow> u32" where
  "cpu_base v = drop_bit 16 (fst v) OR push_bit 16 (take_bit 8 (snd v)) OR (snd v AND 0xFF000000)"

definition cpu_limit :: "u32 \<times> u32 \<Rightarrow> nat" where
  "cpu_limit v =
     (let lim = unat (take_bit 16 (fst v) OR (snd v AND 0x000F0000))
      in if bit (snd v) 23 then lim * 4096 + 4095 else lim)"

definition cpu_dpl :: "u32 \<times> u32 \<Rightarrow> nat" where
  "cpu_dpl v = unat (take_bit 2 (drop_bit 13 (snd v)))"

section \<open>Encoding and decoding\<close>

lemma idt_of_val_idt_val: "idt_of_val (idt_val d) = d"
  by (cases d, simp add: idt_of_val_def idt_val_def, intro conjI; rule bit_word_eqI)
    (auto simp: bit_simps dest: bit_imp_le_length)

lemma seg_of_val_seg_val: "seg_of_val (seg_val d) = d"
  by (cases d, simp add: seg_of_val_def seg_val_def, intro conjI; rule bit_word_eqI)
    (auto simp: bit_simps dest: bit_imp_le_length)

lemma bit_beyond: "LENGTH('a) \<le> n \<Longrightarrow> \<not> bit (w :: 'a :: len word) n"
  using bit_imp_le_length [of w n] by auto

lemma bits32_eqI:
  assumes "\<forall>n \<in> set [0, 1, 2, 3, 4, 5, 6, 7, 8, 9, 10, 11, 12, 13, 14, 15, 16, 17, 18, 19, 20, 21, 22, 23, 24, 25, 26, 27, 28, 29, 30, 31]. bit (a :: u32) n = bit b n"
  shows "a = b"
proof (rule bit_word_eqI)
  fix n assume "n < LENGTH(32)"
  then have "n \<in> set [0..<32]" by simp
  also have "[0..<32] = [0, 1, 2, 3, 4, 5, 6, 7, 8, 9, 10, 11, 12, 13, 14, 15, 16, 17, 18, 19, 20, 21, 22, 23, 24, 25, 26, 27, 28, 29, 30, 31]" by (simp add: upt_rec eval_nat_numeral)
  finally show "bit a n = bit b n" using assms by blast
qed

lemma idt_val_idt_of_val: "idt_val (idt_of_val v) = v"
proof (cases v)
  case (Pair lo hi)
  have "fst (idt_val (idt_of_val v)) = lo" "snd (idt_val (idt_of_val v)) = hi"
    unfolding Pair idt_of_val_def idt_val_def by (rule bits32_eqI, simp add: bit_simps bit_beyond)+
  then show ?thesis by (simp add: Pair prod_eq_iff)
qed

lemma seg_val_seg_of_val: "seg_val (seg_of_val v) = v"
proof (cases v)
  case (Pair lo hi)
  have "fst (seg_val (seg_of_val v)) = lo" "snd (seg_val (seg_of_val v)) = hi"
    unfolding Pair seg_of_val_def seg_val_def by (rule bits32_eqI, simp add: bit_simps bit_beyond)+
  then show ?thesis by (simp add: Pair prod_eq_iff)
qed

section \<open>Addresses and limits\<close>

lemma set_idt_offset:
  "(snd (idt_val (SET_IDT_ENTRY h d)) AND 0xFFFF0000) OR (fst (idt_val (SET_IDT_ENTRY h d)) AND 0xFFFF) = h"
  by (rule bits32_eqI) (simp add: idt_val_def SET_IDT_ENTRY_def bit_simps bit_beyond)

lemma set_params_base: "cpu_base (seg_val (SET_LDT_PARAMS a lim d)) = a" "cpu_base (seg_val (SET_TSS_PARAMS a lim d)) = a"
  by (rule bits32_eqI, simp add: cpu_base_def seg_val_def SET_LDT_PARAMS_def SET_TSS_PARAMS_def bit_simps bit_beyond)+

lemma set_params_limit:
  assumes "unat lim < 2 ^ 20" and "seg_granularity d = 0"
  shows "cpu_limit (seg_val (SET_LDT_PARAMS a lim d)) = unat lim" "cpu_limit (seg_val (SET_TSS_PARAMS a lim d)) = unat lim"
proof -
  have eq: "SET_LDT_PARAMS a lim d = SET_TSS_PARAMS a lim d" by (simp add: SET_LDT_PARAMS_def SET_TSS_PARAMS_def)
  let ?v = "seg_val (SET_TSS_PARAMS a lim d)"
  have g: "\<not> bit (snd ?v) 23" using assms(2) by (simp add: seg_val_def SET_TSS_PARAMS_def bit_simps bit_beyond)
  have t: "take_bit 20 lim = lim" using assms(1) by (simp add: word_unat_eq_iff unsigned_take_bit_eq take_bit_nat_eq_self)
  have "take_bit 16 (fst ?v) OR (snd ?v AND 0x000F0000) = take_bit 20 lim"
    by (rule bits32_eqI) (simp add: seg_val_def SET_TSS_PARAMS_def bit_simps bit_beyond)
  with g t show "cpu_limit ?v = unat lim" by (simp add: cpu_limit_def Let_def)
  then show "cpu_limit (seg_val (SET_LDT_PARAMS a lim d)) = unat lim" unfolding eq .
qed

lemma u1_bit: "(w :: u1) = 1 \<longleftrightarrow> bit w 0" "(w :: u1) = 0 \<longleftrightarrow> \<not> bit w 0"
proof -
  have w: "w = (if bit w 0 then 1 else 0)" by (rule bit_word_eqI) (auto simp: bit_simps)
  show "w = 1 \<longleftrightarrow> bit w 0" "w = 0 \<longleftrightarrow> \<not> bit w 0" by (subst w, simp)+
qed

lemma gate_type:
  "take_bit 5 (drop_bit 8 (w :: u32)) = 0xE \<longleftrightarrow> \<not> bit w 8 \<and> bit w 9 \<and> bit w 10 \<and> bit w 11 \<and> \<not> bit w 12"
  "take_bit 5 (drop_bit 8 (w :: u32)) = 0xF \<longleftrightarrow> bit w 8 \<and> bit w 9 \<and> bit w 10 \<and> bit w 11 \<and> \<not> bit w 12"
proof -
  have "a = b \<longleftrightarrow> (\<forall>n \<in> set [0, 1, 2, 3, 4]. bit a n = bit b n)" if "\<forall>n \<ge> 5. \<not> bit a n \<and> \<not> bit b n" for a b :: u32
  proof
    assume eq: "\<forall>n \<in> set [0, 1, 2, 3, 4]. bit a n = bit b n"
    show "a = b"
    proof (rule bit_word_eqI)
      fix n :: nat
      have "n \<ge> 5 \<or> n \<in> set [0, 1, 2, 3, 4]" by (simp, linarith)
      then show "bit a n = bit b n" using eq that by blast
    qed
  qed simp
  note eq = this
  have b: "\<forall>n \<ge> 5. \<not> bit (take_bit 5 x) n \<and> \<not> bit (0xE :: u32) n" "\<forall>n \<ge> 5. \<not> bit (take_bit 5 x) n \<and> \<not> bit (0xF :: u32) n" for x :: u32
  proof -
    have "(0xE :: u32) = take_bit 5 0xE" "(0xF :: u32) = take_bit 5 0xF" by simp_all
    then show "\<forall>n \<ge> 5. \<not> bit (take_bit 5 x) n \<and> \<not> bit (0xE :: u32) n" "\<forall>n \<ge> 5. \<not> bit (take_bit 5 x) n \<and> \<not> bit (0xF :: u32) n"
      by (metis bit_take_bit_iff not_less)+
  qed
  show "take_bit 5 (drop_bit 8 (w :: u32)) = 0xE \<longleftrightarrow> \<not> bit w 8 \<and> bit w 9 \<and> bit w 10 \<and> bit w 11 \<and> \<not> bit w 12"
    by (subst eq [OF b(1)]) (simp add: bit_simps)
  show "take_bit 5 (drop_bit 8 (w :: u32)) = 0xF \<longleftrightarrow> bit w 8 \<and> bit w 9 \<and> bit w 10 \<and> bit w 11 \<and> \<not> bit w 12"
    by (subst eq [OF b(2)]) (simp add: bit_simps)
qed

lemma cpu_gate_eq:
  "cpu_gate (idt_val d) =
     (if idt_present d = 1 \<and> reserved0 d = 0 \<and> idt_size d = 1 \<and> reserved1 d = 1 \<and> reserved2 d = 1 then
        Some \<lparr>g_kind = (if reserved3 d = 0 then Interrupt_gate else Trap_gate), g_dpl = unat (idt_dpl d), g_selector = seg_selector d,
              g_offset = push_bit 16 (ucast (offset_31_16 d)) OR ucast (offset_15_00 d)\<rparr>
      else None)"
proof -
  let ?hi = "snd (idt_val d)" and ?lo = "fst (idt_val d)"
  have h: "bit ?hi 15 \<longleftrightarrow> idt_present d = 1" "bit ?hi 8 \<longleftrightarrow> reserved3 d \<noteq> 0" "bit ?hi 9 \<longleftrightarrow> reserved2 d = 1" "bit ?hi 10 \<longleftrightarrow> reserved1 d = 1"
    "bit ?hi 11 \<longleftrightarrow> idt_size d = 1" "bit ?hi 12 \<longleftrightarrow> reserved0 d \<noteq> 0"
    by (simp_all add: idt_val_def bit_simps bit_beyond u1_bit)
  have o: "(?hi AND 0xFFFF0000) OR (?lo AND 0xFFFF) = push_bit 16 (ucast (offset_31_16 d)) OR ucast (offset_15_00 d)"
    by (rule bits32_eqI) (simp add: idt_val_def bit_simps bit_beyond)
  have s: "ucast (drop_bit 16 ?lo) = seg_selector d" "(ucast (drop_bit 13 ?hi) :: 2 word) = idt_dpl d"
    using idt_of_val_idt_val [of d] by (auto simp: idt_of_val_def dest: arg_cong [of _ _ seg_selector] arg_cong [of _ _ idt_dpl])
  have "unat (take_bit 2 (drop_bit 13 ?hi)) = unat (ucast (drop_bit 13 ?hi) :: 2 word)"
    by (simp add: unsigned_ucast_eq unsigned_take_bit_eq)
  then show ?thesis unfolding cpu_gate_def Let_def gate_type h o s by auto
qed

section \<open>Properties\<close>

text \<open>
  C37: descriptors.  Reading back the two words of a gate or segment descriptor gives its bit
  fields, and every pair of words is the encoding of the fields it decodes to.  The parts an
  address and a limit are split into by \<open>SET_IDT_ENTRY\<close>, \<open>SET_LDT_PARAMS\<close> and
  \<open>SET_TSS_PARAMS\<close> are what the processor puts together again: the handler's address, the base,
  and, for a byte-granular segment of less than 1 MB, the limit.
\<close>

theorem descriptor_roundtrip:
  assumes "unat lim < 2 ^ 20" and "seg_granularity s = 0"
  shows "idt_of_val (idt_val d) = d \<and> idt_val (idt_of_val v) = v \<and> seg_of_val (seg_val s) = s \<and> seg_val (seg_of_val v) = v \<and>
    (snd (idt_val (SET_IDT_ENTRY h d)) AND 0xFFFF0000) OR (fst (idt_val (SET_IDT_ENTRY h d)) AND 0xFFFF) = h \<and>
    cpu_base (seg_val (SET_LDT_PARAMS a lim s)) = a \<and> cpu_base (seg_val (SET_TSS_PARAMS a lim s)) = a \<and>
    cpu_limit (seg_val (SET_LDT_PARAMS a lim s)) = unat lim \<and> cpu_limit (seg_val (SET_TSS_PARAMS a lim s)) = unat lim"
  using set_params_limit [OF assms] set_params_base
  by (simp add: idt_of_val_idt_val idt_val_idt_of_val seg_of_val_seg_val seg_val_seg_of_val set_idt_offset)

theorem descriptor_roundtrip_witness:
  "cpu_base (seg_val (SET_TSS_PARAMS 0x40A120 103 (seg_of_val (0, 0)))) = 0x40A120 \<and>
   cpu_limit (seg_val (SET_TSS_PARAMS 0x40A120 103 (seg_of_val (0, 0)))) = 103"
  using descriptor_roundtrip [of 103 "seg_of_val (0, 0)" "idt_of_val (0, 0)" "(0, 0)" 0 "0x40A120"] by (simp add: seg_of_val_def)

end
