(* ===== verification/Idt.thy ===== *)
theory Idt
  imports Boot Syscall Descriptors
begin

text \<open>
  The interrupt descriptor table, \<open>student-distrib/idt.c\<close>, with the linkage of \<open>linkage.S\<close>:
  the exception handlers, the contents of the table, and which handler an interrupt reaches.

  The addresses the linker gives the handlers are the argument \<open>addr_of\<close>.  \<open>interrupt\<close> is the
  processor's delivery of a vector through the table, \<open>user_int\<close> the instruction \<open>int n\<close> of a
  user program: a vector that is no gate, or a gate of privilege level below 3, raises the general
  protection exception.
\<close>

section \<open>Definitions\<close>

datatype handler = De | Db | Nmi | Bp | Of_exn | Br | Ud | Nm | Df | Cpso | Ts | Np | Ssf | Gp | Pf | Ir | Mf | Ac | Mc | Xf | Gen_purp
  | Pit_asm | Keyboard_asm | Rtc_asm | Syscall_handler_asm

definition KILLED_BY_EXCEPTION :: u32 where
  "KILLED_BY_EXCEPTION = 256"

definition report :: "string \<Rightarrow> u32 \<Rightarrow> kernel \<Rightarrow> (outcome \<times> kernel) option" where
  "report msg ret_label k = do {
     k \<leftarrow> printf_lit (msg @ [CHR 0x0A]) k;
     halt ret_label (ucast KILLED_BY_EXCEPTION) k
   }"

fun exception_handler :: "handler \<Rightarrow> u32 \<Rightarrow> kernel \<Rightarrow> (outcome \<times> kernel) option" where
  "exception_handler De = report ''ERROR 1''"
| "exception_handler Db = report ''ERROR 2''"
| "exception_handler Nmi = report ''ERROR 3''"
| "exception_handler Bp = report ''ERROR 4''"
| "exception_handler Of_exn = report ''ERROR 5''"
| "exception_handler Br = report ''ERROR 6''"
| "exception_handler Ud = report ''ERROR 7''"
| "exception_handler Nm = report ''ERROR 8''"
| "exception_handler Df = report ''ERROR 9''"
| "exception_handler Cpso = report ''ERROR 10''"
| "exception_handler Ts = report ''ERROR 11''"
| "exception_handler Np = report ''ERROR 12''"
| "exception_handler Ssf = report ''ERROR 13''"
| "exception_handler Gp = report ''ERROR 14''"
| "exception_handler Pf = report ''Page Fault''"
| "exception_handler Ir = report ''ERROR 16''"
| "exception_handler Mf = report ''ERROR 17''"
| "exception_handler Ac = report ''ERROR 18''"
| "exception_handler Mc = report ''ERROR 19''"
| "exception_handler Xf = report ''ERROR 20''"
| "exception_handler _ = (\<lambda>ret_label k. halt ret_label (ucast KILLED_BY_EXCEPTION) k)"

definition set_entry :: "nat \<Rightarrow> idt_desc_t list \<Rightarrow> idt_desc_t list" where
  "set_entry i idt =
     (let d = (idt ! i)\<lparr>seg_selector := KERNEL_CS, idt_dpl := 0, reserved0 := 0, reserved1 := 1, reserved2 := 1, reserved3 := 0,
                idt_present := 1, idt_size := 1\<rparr>;
          d = (if i = 128 then d\<lparr>idt_dpl := 3, reserved3 := 1\<rparr> else d)
      in idt[i := d])"

definition vectors :: "(nat \<times> handler) list" where
  "vectors =
     [(0, De), (1, Db), (2, Nmi), (3, Bp), (4, Of_exn), (5, Br), (6, Ud), (7, Nm), (8, Df), (9, Cpso), (10, Ts), (11, Np), (12, Ssf),
      (13, Gp), (14, Pf), (15, Ir), (16, Mf), (17, Ac), (18, Mc), (19, Xf), (20, Gen_purp), (21, Gen_purp), (22, Gen_purp),
      (23, Gen_purp), (24, Gen_purp), (25, Gen_purp), (26, Gen_purp), (27, Gen_purp), (28, Gen_purp), (29, Gen_purp), (30, Gen_purp),
      (31, Gen_purp), (32, Pit_asm), (33, Keyboard_asm), (34, Gen_purp), (35, Gen_purp), (36, Gen_purp), (37, Gen_purp),
      (38, Gen_purp), (39, Gen_purp), (40, Rtc_asm), (41, Gen_purp), (42, Gen_purp), (43, Gen_purp), (44, Gen_purp), (45, Gen_purp),
      (46, Gen_purp), (47, Gen_purp), (0x80, Syscall_handler_asm)]"

definition setup_idt_inplace :: "(handler \<Rightarrow> u32) \<Rightarrow> idt_desc_t list \<Rightarrow> idt_desc_t list" where
  "setup_idt_inplace addr_of idt =
     (let idt = fold set_entry [0..<47] idt;
          idt = set_entry 128 idt
      in fold (\<lambda>(i, h) idt. idt[i := SET_IDT_ENTRY (addr_of h) (idt ! i)]) vectors idt)"

text \<open>The assembly linkage saves the registers, calls the handler in C, restores them and returns.\<close>

record regs =
  r_eax :: u32
  r_ebx :: u32
  r_ecx :: u32
  r_edx :: u32

fun run_handler :: "'e sysenv \<Rightarrow> (nat \<Rightarrow> u32) \<Rightarrow> regs \<Rightarrow> handler \<Rightarrow> kernel \<Rightarrow> 'e call_result" where
  "run_handler e stack r Pit_asm k = map_option (\<lambda>(out, k). (out, e, k)) (pit_handler (e_label e) k)"
| "run_handler e stack r Keyboard_asm k = map_option (\<lambda>k. (Returns 0, e, k)) (keyboard_handler (e_dev e) stack k)"
| "run_handler e stack r Rtc_asm k = Some (Returns 0, e, upd_mach (rtc_handler (e_dev e)) k)"
| "run_handler e stack r Syscall_handler_asm k = syscall_handler_asm e (r_eax r) (r_ebx r) (r_ecx r) (r_edx r) k"
| "run_handler e stack r h k = map_option (\<lambda>(out, k). (out, e, k)) (exception_handler h (e_label e) k)"

definition all_handlers :: "handler list" where
  "all_handlers = remdups (map snd vectors)"

definition interrupt :: "(handler \<Rightarrow> u32) \<Rightarrow> idt_desc_t list \<Rightarrow> 'e sysenv \<Rightarrow> (nat \<Rightarrow> u32) \<Rightarrow> regs \<Rightarrow> nat \<Rightarrow> kernel \<Rightarrow> 'e call_result" where
  "interrupt addr_of idt e stack r n k = do {
     g \<leftarrow> cpu_gate (idt_val (idt ! n));
     h \<leftarrow> find (\<lambda>h. addr_of h = g_offset g) all_handlers;
     run_handler e stack r h k
   }"

definition user_int :: "(handler \<Rightarrow> u32) \<Rightarrow> idt_desc_t list \<Rightarrow> 'e sysenv \<Rightarrow> (nat \<Rightarrow> u32) \<Rightarrow> regs \<Rightarrow> nat \<Rightarrow> kernel \<Rightarrow> 'e call_result" where
  "user_int addr_of idt e stack r n k =
     (case cpu_gate (idt_val (idt ! n)) of
        Some g \<Rightarrow> interrupt addr_of idt e stack r (if 3 \<le> g_dpl g then n else 13) k
      | None \<Rightarrow> interrupt addr_of idt e stack r 13 k)"

section \<open>The contents of the table\<close>

lemma fold_update_nth:
  assumes "distinct (map fst vs)" and "n < length xs"
  shows "fold (\<lambda>(i, x) xs. xs[i := f i x (xs ! i)]) vs xs ! n = (case map_of vs n of None \<Rightarrow> xs ! n | Some x \<Rightarrow> f n x (xs ! n))"
  using assms
proof (induction vs arbitrary: xs)
  case Nil
  then show ?case by simp
next
  case (Cons v vs)
  obtain i x where v: "v = (i, x)" by (cases v)
  have "map_of vs i = None" using Cons.prems(1) v by (simp add: map_of_eq_None_iff)
  then show ?case using Cons.IH [of "xs[i := f i x (xs ! i)]"] Cons.prems v by (auto simp: nth_list_update split: option.splits)
qed

lemma fold_update_length: "length (fold (\<lambda>(i, x) xs. xs[i := f i x (xs ! i)]) vs xs) = length xs"
  by (induction vs arbitrary: xs) auto

lemma map_of_units: "map_of (map (\<lambda>i. (i, ())) xs) n = (if n \<in> set xs then Some () else None)"
  by (induction xs) auto

definition gate_entry :: "nat \<Rightarrow> unit \<Rightarrow> idt_desc_t \<Rightarrow> idt_desc_t" where
  "gate_entry i u d =
     (let d = d\<lparr>seg_selector := KERNEL_CS, idt_dpl := 0, reserved0 := 0, reserved1 := 1, reserved2 := 1, reserved3 := 0,
                idt_present := 1, idt_size := 1\<rparr>
      in if i = 128 then d\<lparr>idt_dpl := 3, reserved3 := 1\<rparr> else d)"

lemma set_entries_nth:
  assumes "n < length idt"
  shows "set_entry 128 (fold set_entry [0..<47] idt) ! n = (if n < 47 \<or> n = 128 then gate_entry n () (idt ! n) else idt ! n)"
    and "length (set_entry 128 (fold set_entry [0..<47] idt)) = length idt"
proof -
  let ?vs = "map (\<lambda>i. (i, ())) ([0..<47] @ [128])"
  have se: "set_entry i idt = idt[i := gate_entry i () (idt ! i)]" for i idt
    by (simp add: set_entry_def gate_entry_def Let_def)
  have eq: "set_entry 128 (fold set_entry [0..<47] idt) = fold (\<lambda>(i, x) xs. xs[i := gate_entry i x (xs ! i)]) ?vs idt"
    by (simp only: fold_map map_append fold_append list.map fold.simps comp_def prod.case id_apply se [abs_def, symmetric])
      (simp add: se)
  have "map_of ?vs n = (if n < 47 \<or> n = 128 then Some () else None)"
    unfolding map_of_units by auto
  then show "set_entry 128 (fold set_entry [0..<47] idt) ! n = (if n < 47 \<or> n = 128 then gate_entry n () (idt ! n) else idt ! n)"
    unfolding eq using fold_update_nth [of ?vs n idt gate_entry] assms by (simp add: comp_def)
  show "length (set_entry 128 (fold set_entry [0..<47] idt)) = length idt"
    unfolding eq by (rule fold_update_length)
qed

lemma vectors_lookup:
  "distinct (map fst vectors)" "map_of vectors n = None \<longleftrightarrow> \<not> (n < 48 \<or> n = 128)"
proof -
  have m: "map fst vectors = [0..<48] @ [128]" by (simp add: vectors_def upt_rec)
  show "distinct (map fst vectors)" unfolding m by simp
  have "fst ` set vectors = set ([0..<48] @ [128])" using arg_cong [OF m, of set] by simp
  then show "map_of vectors n = None \<longleftrightarrow> \<not> (n < 48 \<or> n = 128)" by (simp add: map_of_eq_None_iff) auto
qed

definition handler_of :: "nat \<Rightarrow> handler" where
  "handler_of n = (case map_of vectors n of Some h \<Rightarrow> h | None \<Rightarrow> Gen_purp)"

lemma setup_idt_nth:
  assumes "n < length idt"
  shows "setup_idt_inplace addr_of idt ! n =
    (if n < 47 \<or> n = 128 then SET_IDT_ENTRY (addr_of (handler_of n)) (gate_entry n () (idt ! n))
     else if n = 47 then SET_IDT_ENTRY (addr_of (handler_of n)) (idt ! n) else idt ! n)"
proof -
  let ?idt = "set_entry 128 (fold set_entry [0..<47] idt)"
  note s = set_entries_nth [OF assms]
  have "setup_idt_inplace addr_of idt ! n =
      (case map_of vectors n of None \<Rightarrow> ?idt ! n | Some h \<Rightarrow> SET_IDT_ENTRY (addr_of h) (?idt ! n))"
    using fold_update_nth [OF vectors_lookup(1), of n ?idt "\<lambda>i h. SET_IDT_ENTRY (addr_of h)"] assms s(2)
    by (simp add: setup_idt_inplace_def Let_def)
  then have "setup_idt_inplace addr_of idt ! n =
      (let d = (if n < 47 \<or> n = 128 then gate_entry n () (idt ! n) else idt ! n)
       in case map_of vectors n of None \<Rightarrow> d | Some h \<Rightarrow> SET_IDT_ENTRY (addr_of h) d)" unfolding s(1) by (simp only: Let_def)
  then show ?thesis using vectors_lookup(2) [of n] by (cases "map_of vectors n") (auto simp: handler_of_def Let_def)
qed

lemma setup_gate:
  assumes "n < 256"
  shows "cpu_gate (idt_val (setup_idt_inplace addr_of zero_idt ! n)) =
    (if n < 47 then Some \<lparr>g_kind = Interrupt_gate, g_dpl = 0, g_selector = KERNEL_CS, g_offset = addr_of (handler_of n)\<rparr>
     else if n = 128 then Some \<lparr>g_kind = Trap_gate, g_dpl = 3, g_selector = KERNEL_CS, g_offset = addr_of Syscall_handler_asm\<rparr>
     else None)"
proof -
  have z: "n < length zero_idt" "zero_idt ! n = idt_of_val (0, 0)" using assms by (simp_all add: zero_idt_def NUM_VEC_def)
  have o: "push_bit 16 (ucast (offset_31_16 (SET_IDT_ENTRY h d))) OR ucast (offset_15_00 (SET_IDT_ENTRY h d)) = h" for h d
    by (rule bits32_eqI) (simp add: SET_IDT_ENTRY_def bit_simps bit_beyond)
  have f: "seg_selector (SET_IDT_ENTRY h d) = seg_selector d" "reserved0 (SET_IDT_ENTRY h d) = reserved0 d" "reserved1 (SET_IDT_ENTRY h d) = reserved1 d"
    "reserved2 (SET_IDT_ENTRY h d) = reserved2 d" "reserved3 (SET_IDT_ENTRY h d) = reserved3 d" "idt_size (SET_IDT_ENTRY h d) = idt_size d"
    "idt_dpl (SET_IDT_ENTRY h d) = idt_dpl d" "idt_present (SET_IDT_ENTRY h d) = idt_present d" for h d
    by (simp_all add: SET_IDT_ENTRY_def)
  have h: "handler_of 128 = Syscall_handler_asm" by (simp add: handler_of_def vectors_def)
  have p0: "idt_present (idt_of_val (0, 0)) = 0" by (simp add: idt_of_val_def)
  show ?thesis
    unfolding setup_idt_nth [OF z(1)] z(2) cpu_gate_eq by (auto simp: o f h p0 gate_entry_def Let_def)
qed

lemma handlers_complete: "handler_of n \<in> set all_handlers"
proof (cases "map_of vectors n")
  case None
  then show ?thesis by (simp add: handler_of_def all_handlers_def vectors_def)
next
  case (Some h)
  then show ?thesis using map_of_SomeD [OF Some] by (force simp: handler_of_def all_handlers_def)
qed

lemma find_handler: "inj addr_of \<Longrightarrow> h \<in> set all_handlers \<Longrightarrow> find (\<lambda>h'. addr_of h' = addr_of h) all_handlers = Some h"
  by (auto simp: find_Some_iff inj_def in_set_conv_nth) (metis distinct_remdups all_handlers_def nth_eq_iff_index_eq less_trans nat_neq_iff)

lemma interrupt_reaches:
  assumes "inj addr_of" and "n < 47 \<or> n = 128"
  shows "interrupt addr_of (setup_idt_inplace addr_of zero_idt) e stack r n k = run_handler e stack r (handler_of n) k"
proof -
  have h: "handler_of 128 = Syscall_handler_asm" by (simp add: handler_of_def vectors_def)
  have "n < 256" using assms(2) by auto
  from setup_gate [OF this, of addr_of] assms(2) show ?thesis
    using find_handler [OF assms(1) handlers_complete, of n] h by (auto simp: interrupt_def)
qed

section \<open>Properties\<close>



text \<open>
  C39: interrupts reach the kernel only where they should.  With the handlers at different
  addresses, user code that executes \<open>int n\<close> gets the system call of its registers when \<open>n\<close> is
  0x80, and for every other vector the general protection handler, which prints its message and
  ends the process; the timer, keyboard and clock interrupts run their handlers.
\<close>

theorem user_interrupts:
  assumes "inj addr_of" and "n < 256" and "idt = setup_idt_inplace addr_of zero_idt"
  shows "user_int addr_of idt e stack r n k =
      (if n = 0x80 then syscall_handler_asm e (r_eax r) (r_ebx r) (r_ecx r) (r_edx r) k
       else map_option (\<lambda>(out, k). (out, e, k)) (exception_handler Gp (e_label e) k)) \<and>
    interrupt addr_of idt e stack r 0x20 k = map_option (\<lambda>(out, k). (out, e, k)) (pit_handler (e_label e) k) \<and>
    interrupt addr_of idt e stack r 0x21 k = map_option (\<lambda>k. (Returns 0, e, k)) (keyboard_handler (e_dev e) stack k) \<and>
    interrupt addr_of idt e stack r 0x28 k = Some (Returns 0, e, upd_mach (rtc_handler (e_dev e)) k)"
proof -
  have h: "handler_of 128 = Syscall_handler_asm" "handler_of 13 = Gp" "handler_of 0x20 = Pit_asm" "handler_of 0x21 = Keyboard_asm" "handler_of 0x28 = Rtc_asm"
    by (simp_all add: handler_of_def vectors_def)
  note i = interrupt_reaches [OF assms(1), of _ e stack r k]
  show ?thesis unfolding assms(3) user_int_def
    using setup_gate [OF assms(2), of addr_of] i [of 13] i [of 128] i [of 32] i [of 33] i [of 40] h by simp
qed

fun handler_index :: "handler \<Rightarrow> nat" where
  "handler_index De = 0" | "handler_index Db = 1" | "handler_index Nmi = 2" | "handler_index Bp = 3" | "handler_index Of_exn = 4"
| "handler_index Br = 5" | "handler_index Ud = 6" | "handler_index Nm = 7" | "handler_index Df = 8" | "handler_index Cpso = 9"
| "handler_index Ts = 10" | "handler_index Np = 11" | "handler_index Ssf = 12" | "handler_index Gp = 13" | "handler_index Pf = 14"
| "handler_index Ir = 15" | "handler_index Mf = 16" | "handler_index Ac = 17" | "handler_index Mc = 18" | "handler_index Xf = 19"
| "handler_index Gen_purp = 20" | "handler_index Pit_asm = 21" | "handler_index Keyboard_asm = 22" | "handler_index Rtc_asm = 23"
| "handler_index Syscall_handler_asm = 24"

definition sample_addr :: "handler \<Rightarrow> u32" where
  "sample_addr h = 0x400000 + 16 * word_of_nat (handler_index h)"

lemma sample_addr_inj: "inj sample_addr"
proof (rule inj_on_inverseI)
  fix h
  have "handler_index h < 25" by (cases h) simp_all
  then have "unat (sample_addr h) = 0x400000 + 16 * handler_index h"
    by (simp add: sample_addr_def unat_word_ariths unat_word_of_nat_u32)
  moreover have "[De, Db, Nmi, Bp, Of_exn, Br, Ud, Nm, Df, Cpso, Ts, Np, Ssf, Gp, Pf, Ir, Mf, Ac, Mc, Xf, Gen_purp, Pit_asm, Keyboard_asm,
      Rtc_asm, Syscall_handler_asm] ! handler_index h = h" by (cases h) simp_all
  ultimately show "[De, Db, Nmi, Bp, Of_exn, Br, Ud, Nm, Df, Cpso, Ts, Np, Ssf, Gp, Pf, Ir, Mf, Ac, Mc, Xf, Gen_purp, Pit_asm, Keyboard_asm,
      Rtc_asm, Syscall_handler_asm] ! ((unat (sample_addr h) - 0x400000) div 16) = h" by simp
qed

theorem user_interrupts_witness:
  "user_int sample_addr (setup_idt_inplace sample_addr zero_idt) sample_env (\<lambda>_. 0) \<lparr>r_eax = 3, r_ebx = 0, r_ecx = 0, r_edx = 0\<rparr> 0x21 sample_exec =
     map_option (\<lambda>(out, k). (out, sample_env, k)) (exception_handler Gp 0x401234 sample_exec)"
  using user_interrupts [OF sample_addr_inj _ refl, of 33 sample_env "\<lambda>_. 0" "\<lparr>r_eax = 3, r_ebx = 0, r_ecx = 0, r_edx = 0\<rparr>" sample_exec]
  by (simp add: sample_env_def)



end
