(* ===== verification/Kernel.thy ===== *)
theory Kernel
  imports Idt
begin

text \<open>
  The entry point of the kernel, \<open>student-distrib/kernel.c\<close>, with the structures of
  \<open>multiboot.h\<close>: \<open>entry\<close> prints what the boot loader reports, fills the descriptor tables,
  initialises every component in the order of the code and then idles.

  The state is the kernel state together with the descriptor tables and the registers that are
  loaded from them.  What the linker and the compiler decide is an argument, \<open>boot_env\<close>: the
  addresses of the handlers, of the local descriptor table, of the task state segment and of the
  local variable \<open>rtc_freq\<close>, and the uninitialised bits of the local descriptors.
\<close>

section \<open>Definitions\<close>

record boot_env =
  be_dev :: device
  be_addr_of :: "handler \<Rightarrow> u32"
  be_ldt :: addr
  be_tss :: addr
  be_freq :: addr
  be_seg :: seg_desc_t

record boot_state =
  b_kernel :: kernel
  b_idt :: "idt_desc_t list"
  ldt_desc_ptr :: seg_desc_t
  tss_desc_ptr :: seg_desc_t
  b_ldtr :: u16
  b_tr :: u16
  modStartTemp :: addr

datatype entry_end = Returned | Idle

definition MULTIBOOT_BOOTLOADER_MAGIC :: u32 where
  "MULTIBOOT_BOOTLOADER_MAGIC = 0x2BADB002"

definition ldt_size :: u32 where
  "ldt_size = 31"

definition tss_size :: u32 where
  "tss_size = 103"

definition STARTING_PIT_FREQUENCY :: u32 where
  "STARTING_PIT_FREQUENCY = 20"

definition check_flag :: "u32 \<Rightarrow> nat \<Rightarrow> bool" where
  "check_flag flags n = (flags AND push_bit n 1 \<noteq> 0)"

definition printf_args :: "string \<Rightarrow> u32 list \<Rightarrow> kernel \<Rightarrow> kernel option" where
  "printf_args fmt as k = on_mach (printf_arr (\<lambda>i. if i < length as then as ! i else 0) (map of_char fmt @ [0])) k"

text \<open>The members of \<open>multiboot_info_t\<close>, \<open>module_t\<close> and \<open>memory_map_t\<close>, by their offsets.\<close>

definition mbi_flags :: "addr \<Rightarrow> addr" where "mbi_flags mbi = mbi"
definition mbi_mem_lower :: "addr \<Rightarrow> addr" where "mbi_mem_lower mbi = mbi + 4"
definition mbi_mem_upper :: "addr \<Rightarrow> addr" where "mbi_mem_upper mbi = mbi + 8"
definition mbi_boot_device :: "addr \<Rightarrow> addr" where "mbi_boot_device mbi = mbi + 12"
definition mbi_cmdline :: "addr \<Rightarrow> addr" where "mbi_cmdline mbi = mbi + 16"
definition mbi_mods_count :: "addr \<Rightarrow> addr" where "mbi_mods_count mbi = mbi + 20"
definition mbi_mods_addr :: "addr \<Rightarrow> addr" where "mbi_mods_addr mbi = mbi + 24"
definition mbi_elf_sec :: "addr \<Rightarrow> addr" where "mbi_elf_sec mbi = mbi + 28"
definition mbi_mmap_length :: "addr \<Rightarrow> addr" where "mbi_mmap_length mbi = mbi + 44"
definition mbi_mmap_addr :: "addr \<Rightarrow> addr" where "mbi_mmap_addr mbi = mbi + 48"
definition mod_start :: "addr \<Rightarrow> addr" where "mod_start m = m"
definition mod_end :: "addr \<Rightarrow> addr" where "mod_end m = m + 4"
definition mmap_size :: "addr \<Rightarrow> addr" where "mmap_size m = m"

fun print_bytes :: "addr \<Rightarrow> nat \<Rightarrow> nat \<Rightarrow> kernel \<Rightarrow> kernel option" where
  "print_bytes m i 0 k = Some k"
| "print_bytes m i (Suc n) k = do {
     s \<leftarrow> ld32 (kvm k) (mod_start m);
     c \<leftarrow> ld8 (kvm k) (s + word_of_nat i);
     k \<leftarrow> printf_args ''0x%x '' [word_of_int (sint c)] k;
     print_bytes m (Suc i) n k
   }"

definition print_module :: "addr \<Rightarrow> u32 \<Rightarrow> kernel \<Rightarrow> kernel option" where
  "print_module m mod_count k = do {
     s \<leftarrow> ld32 (kvm k) (mod_start m);
     k \<leftarrow> printf_args (''Module %d loaded at address: 0x%#x'' @ [CHR 0x0A]) [mod_count, s] k;
     e \<leftarrow> ld32 (kvm k) (mod_end m);
     k \<leftarrow> printf_args (''Module %d ends at address: 0x%#x'' @ [CHR 0x0A]) [mod_count, e] k;
     k \<leftarrow> printf_args (''First few bytes of module:'' @ [CHR 0x0A]) [] k;
     k \<leftarrow> print_bytes m 0 16 k;
     printf_args [CHR 0x0A] [] k
   }"

partial_function (option) print_modules :: "addr \<Rightarrow> addr \<Rightarrow> u32 \<Rightarrow> kernel \<Rightarrow> kernel option" where
  "print_modules mbi m mod_count k = do {
     n \<leftarrow> ld32 (kvm k) (mbi_mods_count mbi);
     if mod_count < n then do {
       k \<leftarrow> print_module m mod_count k;
       print_modules mbi (m + 16) (mod_count + 1) k
     }
     else Some k
   }"

definition print_mmap_entry :: "addr \<Rightarrow> kernel \<Rightarrow> kernel option" where
  "print_mmap_entry m k = do {
     size \<leftarrow> ld32 (kvm k) (mmap_size m);
     base_low \<leftarrow> ld32 (kvm k) (m + 4);
     base_high \<leftarrow> ld32 (kvm k) (m + 8);
     length_low \<leftarrow> ld32 (kvm k) (m + 12);
     length_high \<leftarrow> ld32 (kvm k) (m + 16);
     type \<leftarrow> ld32 (kvm k) (m + 20);
     printf_args (''    size = 0x%x, base_addr = 0x%#x%#x'' @ [CHR 0x0A] @ ''    type = 0x%x,  length    = 0x%#x%#x'' @ [CHR 0x0A])
       [size, base_high, base_low, type, length_high, length_low] k
   }"

partial_function (option) print_mmap :: "addr \<Rightarrow> addr \<Rightarrow> kernel \<Rightarrow> kernel option" where
  "print_mmap mbi m k = do {
     start \<leftarrow> ld32 (kvm k) (mbi_mmap_addr mbi);
     len \<leftarrow> ld32 (kvm k) (mbi_mmap_length mbi);
     if m < start + len then do {
       k \<leftarrow> print_mmap_entry m k;
       size \<leftarrow> ld32 (kvm k) (mmap_size m);
       print_mmap mbi (m + size + 4) k
     }
     else Some k
   }"

text \<open>The report on each group of flags.\<close>

definition report_memory :: "addr \<Rightarrow> kernel \<Rightarrow> kernel option" where
  "report_memory mbi k = do {
     flags \<leftarrow> ld32 (kvm k) (mbi_flags mbi);
     if check_flag flags 0 then do {
       lower \<leftarrow> ld32 (kvm k) (mbi_mem_lower mbi);
       upper \<leftarrow> ld32 (kvm k) (mbi_mem_upper mbi);
       printf_args (''mem_lower = %uKB, mem_upper = %uKB'' @ [CHR 0x0A]) [lower, upper] k
     } else Some k
   }"

definition report_device :: "addr \<Rightarrow> kernel \<Rightarrow> kernel option" where
  "report_device mbi k = do {
     flags \<leftarrow> ld32 (kvm k) (mbi_flags mbi);
     if check_flag flags 1 then do {
       dev \<leftarrow> ld32 (kvm k) (mbi_boot_device mbi);
       printf_args (''boot_device = 0x%#x'' @ [CHR 0x0A]) [dev] k
     } else Some k
   }"

definition report_cmdline :: "addr \<Rightarrow> kernel \<Rightarrow> kernel option" where
  "report_cmdline mbi k = do {
     flags \<leftarrow> ld32 (kvm k) (mbi_flags mbi);
     if check_flag flags 2 then do {
       s \<leftarrow> ld32 (kvm k) (mbi_cmdline mbi);
       printf_args (''cmdline = %s'' @ [CHR 0x0A]) [s] k
     } else Some k
   }"

definition report_modules :: "addr \<Rightarrow> boot_state \<Rightarrow> boot_state option" where
  "report_modules mbi b = do {
     let k = b_kernel b;
     flags \<leftarrow> ld32 (kvm k) (mbi_flags mbi);
     if check_flag flags 3 then do {
       m \<leftarrow> ld32 (kvm k) (mbi_mods_addr mbi);
       s \<leftarrow> ld32 (kvm k) (mod_start m);
       k \<leftarrow> print_modules mbi m 0 k;
       Some (b\<lparr>b_kernel := k, modStartTemp := s\<rparr>)
     } else Some b
   }"

definition report_elf :: "addr \<Rightarrow> kernel \<Rightarrow> kernel option" where
  "report_elf mbi k = do {
     flags \<leftarrow> ld32 (kvm k) (mbi_flags mbi);
     if check_flag flags 5 then do {
       let elf_sec = mbi_elf_sec mbi;
       num \<leftarrow> ld32 (kvm k) elf_sec;
       size \<leftarrow> ld32 (kvm k) (elf_sec + 4);
       addr \<leftarrow> ld32 (kvm k) (elf_sec + 8);
       shndx \<leftarrow> ld32 (kvm k) (elf_sec + 12);
       printf_args (''elf_sec: num = %u, size = 0x%#x, addr = 0x%#x, shndx = 0x%#x'' @ [CHR 0x0A]) [num, size, addr, shndx] k
     } else Some k
   }"

definition report_mmap :: "addr \<Rightarrow> kernel \<Rightarrow> kernel option" where
  "report_mmap mbi k = do {
     flags \<leftarrow> ld32 (kvm k) (mbi_flags mbi);
     if check_flag flags 6 then do {
       start \<leftarrow> ld32 (kvm k) (mbi_mmap_addr mbi);
       len \<leftarrow> ld32 (kvm k) (mbi_mmap_length mbi);
       k \<leftarrow> printf_args (''mmap_addr = 0x%#x, mmap_length = 0x%x'' @ [CHR 0x0A]) [start, len] k;
       m \<leftarrow> ld32 (kvm k) (mbi_mmap_addr mbi);
       print_mmap mbi m k
     } else Some k
   }"

definition setup_ldt :: "boot_env \<Rightarrow> boot_state \<Rightarrow> boot_state" where
  "setup_ldt e b =
     (let d = (be_seg e)\<lparr>seg_granularity := 0, seg_opsize := 1, seg_reserved := 0, seg_avail := 0, seg_present := 1, seg_dpl := 0,
                seg_sys := 0, seg_type := 2\<rparr>
      in b\<lparr>ldt_desc_ptr := SET_LDT_PARAMS (be_ldt e) ldt_size d, b_ldtr := KERNEL_LDT\<rparr>)"

definition setup_tss :: "boot_env \<Rightarrow> boot_state \<Rightarrow> boot_state" where
  "setup_tss e b =
     (let d = (be_seg e)\<lparr>seg_granularity := 0, seg_opsize := 0, seg_reserved := 0, seg_avail := 0,
                seg_lim_19_16 := ucast (TSS_SIZE AND 0x000F0000), seg_present := 1, seg_dpl := 0, seg_sys := 0, seg_type := 9,
                seg_lim_15_00 := ucast (TSS_SIZE AND 0x0000FFFF)\<rparr>;
          k = b_kernel b
      in b\<lparr>tss_desc_ptr := SET_TSS_PARAMS (be_tss e) tss_size d,
           b_kernel := k\<lparr>tss := (tss k)\<lparr>ldt_segment_selector := KERNEL_LDT, ss0 := KERNEL_DS, esp0 := 0x800000\<rparr>\<rparr>,
           b_tr := KERNEL_TSS\<rparr>)"

definition setup_devices :: "boot_env \<Rightarrow> kernel \<Rightarrow> kernel option" where
  "setup_devices e k = do {
     let k = upd_mach i8259_init k;
     let k = upd_mach (init_rtc (be_dev e)) k;
     k \<leftarrow> on_vm (\<lambda>v. st_bytes v (be_freq e) (bytes_of_word 2)) k;
     (_, m) \<leftarrow> rtc_write (be_dev e) 0 (be_freq e) 2 (mach k);
     let k = k\<lparr>mach := m\<rparr>;
     Some (init_keyboard k)
   }"

definition setup_system :: "addr \<Rightarrow> kernel \<Rightarrow> kernel option" where
  "setup_system fs k = do {
     let k = set_vm (init_paging (kvm k)) k;
     let k = upd_mach sti k;
     k \<leftarrow> filesys_init fs k;
     k \<leftarrow> pcb_filesys_init fs k;
     let k = init_PCB k;
     k \<leftarrow> init_terminals k;
     init_PIT STARTING_PIT_FREQUENCY k
   }"

definition entry_setup :: "boot_env \<Rightarrow> boot_state \<Rightarrow> (entry_end \<times> boot_state) option" where
  "entry_setup e b = do {
     let b = setup_tss e (setup_ldt e b);
     let b = b\<lparr>b_idt := setup_idt_inplace (be_addr_of e) (b_idt b)\<rparr>;
     k \<leftarrow> setup_devices e (b_kernel b);
     k \<leftarrow> setup_system (modStartTemp b) k;
     Some (Idle, b\<lparr>b_kernel := k\<rparr>)
   }"

definition entry :: "boot_env \<Rightarrow> u32 \<Rightarrow> addr \<Rightarrow> boot_state \<Rightarrow> (entry_end \<times> boot_state) option" where
  "entry e magic addr b = do {
     k \<leftarrow> on_mach clear (b_kernel b);
     if magic \<noteq> MULTIBOOT_BOOTLOADER_MAGIC then do {
       k \<leftarrow> printf_args (''Invalid magic number: 0x%#x'' @ [CHR 0x0A]) [magic] k;
       Some (Returned, b\<lparr>b_kernel := k\<rparr>)
     }
     else do {
       let mbi = addr;
       flags \<leftarrow> ld32 (kvm k) (mbi_flags mbi);
       k \<leftarrow> printf_args (''flags = 0x%#x'' @ [CHR 0x0A]) [flags] k;
       k \<leftarrow> report_memory mbi k;
       k \<leftarrow> report_device mbi k;
       k \<leftarrow> report_cmdline mbi k;
       b \<leftarrow> report_modules mbi (b\<lparr>b_kernel := k\<rparr>);
       let k = b_kernel b;
       flags \<leftarrow> ld32 (kvm k) (mbi_flags mbi);
       if check_flag flags 4 \<and> check_flag flags 5 then do {
         k \<leftarrow> printf_args (''Both bits 4 and 5 are set.'' @ [CHR 0x0A]) [] k;
         Some (Returned, b\<lparr>b_kernel := k\<rparr>)
       }
       else do {
         k \<leftarrow> report_elf mbi k;
         k \<leftarrow> report_mmap mbi k;
         entry_setup e (b\<lparr>b_kernel := k\<rparr>)
       }
     }
   }"

section \<open>Printing\<close>

lemma printf_arr_displays:
  assumes "render stack strs j cs = Some out" and "0 \<notin> set cs" and "displays m con" and "strings_ok (vm m) strs"
  shows "\<exists>m'. printf_arr_from stack (cs @ [0]) j m = Some m' \<and> displays m' (fold con_putc out con) \<and> console_frame m m'"
  using assms
proof (induction stack strs j cs arbitrary: out m con rule: render.induct)
  case (1 stack strs j)
  then show ?case by simp
next
  case (2 stack strs j c cs)
  show ?case
  proof (cases "c = 0x25")
    case True
    from "2.prems"(1) True obtain d ds out1 j1 rest where
      dw: "dropWhile (\<lambda>b. b = 0x23) cs = d # ds" and ra: "render_arg stack strs d (0x23 = hd cs) j = Some (out1, j1)" and
      re: "render stack strs j1 ds = Some rest" and out: "out = out1 @ rest"
      by (auto split: list.splits Option.bind_splits)
    obtain m1 where m1: "format_arg stack d (hd cs = 0x23) j m = Some (j1, m1)" "displays m1 (fold con_putc out1 con)" "console_frame m m1"
      using format_arg_displays [OF ra "2.prems"(3,4)] by (auto simp: eq_commute)
    have ch: "changes screen_region (vm m) (vm m1)" using m1(3) by (simp add: console_frame_def)
    have "set ds \<subseteq> set cs" using set_dropWhileD [of _ "\<lambda>b. b = 0x23" cs] dw by auto
    then have z: "0 \<notin> set ds" using "2.prems"(2) by auto
    have "cs \<noteq> []" using dw by auto
    then have hd: "hd (cs @ [0]) = hd cs" by simp
    have dw0: "dropWhile (\<lambda>b. b = 0x23) (cs @ [0]) = d # (ds @ [0])" using dw
      by (metis append_Cons dropWhile_append1 dropWhile_eq_Nil_conv list.distinct(1))
    have "\<exists>m'. printf_arr_from stack (ds @ [0]) j1 m1 = Some m' \<and> displays m' (fold con_putc rest (fold con_putc out1 con)) \<and> console_frame m1 m'"
      by (rule "2.IH"(1) [OF True dw ra refl re z m1(2) strings_ok_changes [OF "2.prems"(4) ch]])
    then show ?thesis using True m1 out dw0 hd by (auto intro: console_frame_trans)
  next
    case False
    with "2.prems"(1) obtain rest where re: "render stack strs j cs = Some rest" and out: "out = c # rest"
      by (auto split: Option.bind_splits)
    obtain m1 where m1: "putc c m = Some m1" "displays m1 (con_putc c con)" "console_frame m m1"
      using putc_keeps [OF "2.prems"(3), of c] by (auto simp: keeps_console_def)
    have ch: "changes screen_region (vm m) (vm m1)" using m1(3) by (simp add: console_frame_def)
    have z: "0 \<notin> set cs" using "2.prems"(2) by simp
    have "\<exists>m'. printf_arr_from stack (cs @ [0]) j m1 = Some m' \<and> displays m' (fold con_putc rest (con_putc c con)) \<and> console_frame m1 m'"
      by (rule "2.IH"(2) [OF False re z m1(2) strings_ok_changes [OF "2.prems"(4) ch]])
    then show ?thesis using False m1 out "2.prems"(2) by (auto intro: console_frame_trans)
  qed
qed

text \<open>A format is complete: every conversion has its letter, and \<open>%s\<close> only where \<open>str\<close> allows it.\<close>

fun fmt_ok :: "bool \<Rightarrow> bool \<Rightarrow> u8 list \<Rightarrow> bool" where
  "fmt_ok str False [] = True"
| "fmt_ok str False (c # cs) = (c \<noteq> 0 \<and> fmt_ok str (c = 0x25) cs)"
| "fmt_ok str True [] = False"
| "fmt_ok str True (c # cs) = (c \<noteq> 0 \<and> (if c = 0x23 then fmt_ok str True cs else (c = 0x73 \<longrightarrow> str) \<and> fmt_ok str False cs))"

lemma fmt_ok_conv:
  "fmt_ok str True cs \<Longrightarrow> \<exists>d ds. dropWhile (\<lambda>b. b = 0x23) cs = d # ds \<and> (d = 0x73 \<longrightarrow> str) \<and> fmt_ok str False ds"
  by (induction cs) (auto split: if_splits)

lemma fmt_ok_nul: "fmt_ok str p cs \<Longrightarrow> 0 \<notin> set cs"
  by (induction str p cs rule: fmt_ok.induct) (auto split: if_splits)

lemma conv_some: "\<exists>bs. conv_x alt w = Some bs" "\<exists>bs. conv_u w = Some bs" "\<exists>bs. conv_d w = Some bs"
  using itoa_correct [of 16 w 8] itoa_correct [of 10 w 10] itoa_correct [of 10 "- w" 10] unat_u32_lt [of w] unat_u32_lt [of "- w"]
  by (auto simp: conv_x_def conv_u_def conv_d_def)

lemma fmt_ok_render:
  assumes "fmt_ok str False cs" and "str \<Longrightarrow> \<forall>i. \<exists>bs. strs (stack i) = Some bs"
  shows "\<exists>out. render stack strs j cs = Some out"
  using assms
proof (induction stack strs j cs rule: render.induct)
  case (1 stack strs j)
  then show ?case by simp
next
  case (2 stack strs j c cs)
  show ?case
  proof (cases "c = 0x25")
    case True
    then obtain d ds where d: "dropWhile (\<lambda>b. b = 0x23) cs = d # ds" "d = 0x73 \<longrightarrow> str" "fmt_ok str False ds"
      using "2.prems"(1) fmt_ok_conv [of str cs] by auto
    obtain bs1 bs2 bs3 where "conv_x (0x23 = hd cs) (stack j) = Some bs1" "conv_u (stack j) = Some bs2" "conv_d (stack j) = Some bs3"
      using conv_some by meson
    moreover obtain bs4 where "d = 0x73 \<longrightarrow> strs (stack j) = Some bs4" using d(2) "2.prems"(2) by blast
    ultimately have "\<exists>out j'. render_arg stack strs d (0x23 = hd cs) j = Some (out, j')" by (auto simp: render_arg_def)
    then obtain out j' where ra: "render_arg stack strs d (0x23 = hd cs) j = Some (out, j')" by blast
    obtain rest where "render stack strs j' ds = Some rest" using "2.IH"(1) [OF True d(1) ra refl d(3) "2.prems"(2)] by blast
    then show ?thesis using True d(1) ra by simp
  next
    case False
    then show ?thesis using "2.IH"(2) [OF False _ "2.prems"(2)] "2.prems"(1) by auto
  qed
qed

text \<open>Nothing but the screen and the cursor changes.\<close>

definition has_screen :: "machine \<Rightarrow> bool" where
  "has_screen m \<longleftrightarrow> (\<exists>con. displays m con)"

definition printed :: "kernel \<Rightarrow> kernel \<Rightarrow> bool" where
  "printed k k' \<longleftrightarrow> (\<exists>m. k' = k\<lparr>mach := m\<rparr> \<and> console_frame (mach k) m \<and> has_screen m)"

lemma printed_trans: "printed k k' \<Longrightarrow> printed k' k'' \<Longrightarrow> printed k k''"
  unfolding printed_def by (elim exE conjE, rule exI, auto intro: console_frame_trans)

lemma printed_refl: "has_screen (mach k) \<Longrightarrow> printed k k"
  unfolding printed_def by (intro exI [of _ "mach k"]) simp

lemma printed_screen: "printed k k' \<Longrightarrow> has_screen (mach k')"
  by (auto simp: printed_def)

lemma printf_args_ok:
  assumes "fmt_ok False False (map of_char fmt)" and "has_screen (mach k)"
  shows "\<exists>k'. printf_args fmt as k = Some k' \<and> printed k k'"
proof -
  let ?st = "\<lambda>i. if i < length as then as ! i else 0"
  obtain con where d: "displays (mach k) con" using assms(2) unfolding has_screen_def by blast
  obtain out where r: "render ?st (\<lambda>_. None) 0 (map of_char fmt) = Some out"
    using fmt_ok_render [OF assms(1), of "\<lambda>_. None" ?st 0] by auto
  have s: "strings_ok (vm (mach k)) (\<lambda>_. None)" by (simp add: strings_ok_def)
  obtain m' where "printf_arr_from ?st (map of_char fmt @ [0]) 0 (mach k) = Some m'" "displays m' (fold con_putc out con)" "console_frame (mach k) m'"
    using printf_arr_displays [OF r fmt_ok_nul [OF assms(1)] d s] by blast
  then show ?thesis unfolding printed_def has_screen_def
    by (intro exI [of _ "k\<lparr>mach := m'\<rparr>"] conjI exI) (simp_all add: printf_args_def printf_arr_def on_mach_def)
qed

section \<open>Before paging\<close>

lemma flat_translate: "\<not> paging_on v \<Longrightarrow> translate v a = Some a"
  by (simp add: translate_def)

lemma flat_ld8: "\<not> paging_on v \<Longrightarrow> ld8 v a = Some (pmem v a)"
  by (simp add: ld8_def flat_translate)

lemma flat_ld32: "\<not> paging_on v \<Longrightarrow> \<exists>w. ld32 v a = Some w"
  by (simp add: ld32_def flat_ld8)

lemma printed_vm:
  assumes "printed k k'"
  shows "changes screen_region (kvm k) (kvm k')" "paging_on (kvm k') = paging_on (kvm k)"
proof -
  show c: "changes screen_region (kvm k) (kvm k')" using assms by (auto simp: printed_def console_frame_def)
  have "kvm k' = (kvm k)\<lparr>pmem := pmem (kvm k')\<rparr>" using changes_same_map [OF c] by (simp add: same_map_def)
  then show "paging_on (kvm k') = paging_on (kvm k)" by (metis vmem.select_convs(2) vmem.surjective vmem.update_convs(1))
qed

lemma flat_apart: "\<not> paging_on v \<Longrightarrow> A \<inter> B = {} \<Longrightarrow> apart v A B"
  by (auto simp: apart_def flat_translate)

lemma printed_ld:
  assumes "printed k k'" and "\<not> paging_on (kvm k)" and "screen_region \<inter> region a 4 = {}"
  shows "ld32 (kvm k') a = ld32 (kvm k) a"
  by (rule ld32_changes [OF printed_vm(1) [OF assms(1)] flat_apart [OF assms(2,3)]])

text \<open>A report step: from a state with a screen, before paging, it prints and changes nothing else.\<close>

definition prints_only :: "(kernel \<Rightarrow> kernel option) \<Rightarrow> bool" where
  "prints_only f \<longleftrightarrow> (\<forall>k. has_screen (mach k) \<longrightarrow> \<not> paging_on (kvm k) \<longrightarrow> (\<exists>k'. f k = Some k' \<and> printed k k'))"

lemma prints_onlyD:
  assumes "prints_only f" and "has_screen (mach k)" and "\<not> paging_on (kvm k)"
  obtains k' where "f k = Some k'" "printed k k'" "has_screen (mach k')" "\<not> paging_on (kvm k')"
  using assms printed_vm(2) printed_screen unfolding prints_only_def by metis

lemma prints_only_bind:
  assumes "prints_only f" and "prints_only g"
  shows "prints_only (\<lambda>k. f k \<bind> g)"
  unfolding prints_only_def
proof (intro allI impI)
  fix k assume "has_screen (mach k)" "\<not> paging_on (kvm k)"
  then obtain k1 where k1: "f k = Some k1" "printed k k1" "has_screen (mach k1)" "\<not> paging_on (kvm k1)" by (rule prints_onlyD [OF assms(1)])
  from k1(3,4) obtain k2 where "g k1 = Some k2" "printed k1 k2" by (rule prints_onlyD [OF assms(2)])
  then show "\<exists>k'. (f k \<bind> g) = Some k' \<and> printed k k'" using k1(1,2) printed_trans by auto
qed

lemma prints_only_load:
  assumes "\<And>w. prints_only (f w)"
  shows "prints_only (\<lambda>k. ld32 (kvm k) a \<bind> (\<lambda>w. f w k))"
  unfolding prints_only_def
proof (intro allI impI)
  fix k assume k: "has_screen (mach k)" "\<not> paging_on (kvm k)"
  obtain w where "ld32 (kvm k) a = Some w" using flat_ld32 [OF k(2)] by blast
  then show "\<exists>k'. (ld32 (kvm k) a \<bind> (\<lambda>w. f w k)) = Some k' \<and> printed k k'"
    using assms [of w] k by (simp add: prints_only_def)
qed

lemma prints_only_load8:
  assumes "\<And>c. prints_only (f c)"
  shows "prints_only (\<lambda>k. ld8 (kvm k) a \<bind> (\<lambda>c. f c k))"
  using assms unfolding prints_only_def by (simp add: flat_ld8)

lemma prints_only_Some: "prints_only Some"
  by (auto simp: prints_only_def printed_refl)

lemma prints_only_if: "prints_only f \<Longrightarrow> prints_only g \<Longrightarrow> prints_only (\<lambda>k. if c then f k else g k)"
  by (simp add: prints_only_def)

lemma prints_only_printf: "fmt_ok False False (map of_char fmt) \<Longrightarrow> prints_only (printf_args fmt as)"
  using printf_args_ok by (auto simp: prints_only_def)

lemmas prints_only_rules = prints_only_load prints_only_load8 prints_only_bind prints_only_if prints_only_Some prints_only_printf

lemma print_bytes_only: "prints_only (print_bytes m i n)"
proof (induction n arbitrary: i)
  case 0
  then show ?case by (simp add: prints_only_Some)
next
  case (Suc n)
  have eq: "print_bytes m i (Suc n) = (\<lambda>k. ld32 (kvm k) (mod_start m) \<bind> (\<lambda>s. ld8 (kvm k) (s + word_of_nat i) \<bind>
      (\<lambda>c. printf_args ''0x%x '' [word_of_int (sint c)] k \<bind> print_bytes m (Suc i) n)))" by (rule ext) simp
  show ?case unfolding eq by (intro prints_only_load prints_only_load8 prints_only_bind prints_only_printf Suc.IH) simp_all
qed

lemma reports_only:
  "prints_only (print_module m i)" "prints_only (print_mmap_entry m)" "prints_only (report_memory mbi)"
  "prints_only (report_device mbi)" "prints_only (report_elf mbi)"
  unfolding print_module_def [abs_def] print_mmap_entry_def [abs_def] report_memory_def [abs_def] report_device_def [abs_def] report_elf_def [abs_def] Let_def
  by (intro prints_only_rules print_bytes_only; simp)+

lemma report_cmdline_ok:
  assumes "has_screen (mach k)" and "\<not> paging_on (kvm k)" and "ld32 (kvm k) (mbi_flags mbi) = Some flags"
    and "check_flag flags 2 \<Longrightarrow> \<exists>s bs. ld32 (kvm k) (mbi_cmdline mbi) = Some s \<and> cstring (kvm k) s bs \<and> screen_region \<inter> region s (Suc (length bs)) = {}"
  shows "\<exists>k'. report_cmdline mbi k = Some k' \<and> printed k k'"
proof (cases "check_flag flags 2")
  case True
  obtain s bs where s: "ld32 (kvm k) (mbi_cmdline mbi) = Some s" "cstring (kvm k) s bs" "screen_region \<inter> region s (Suc (length bs)) = {}"
    using assms(4) [OF True] by blast
  let ?fmt = "''cmdline = %s'' @ [CHR 0x0A]" and ?st = "\<lambda>i. if i < length [s] then [s] ! i else 0" and ?strs = "\<lambda>a. if a = s then Some bs else None"
  obtain con where d: "displays (mach k) con" using assms(1) unfolding has_screen_def by blast
  have ok: "strings_ok (vm (mach k)) ?strs" using s(2) flat_apart [OF assms(2) s(3)] by (simp add: strings_ok_def)
  obtain out where r: "render ?st ?strs 0 (map of_char ?fmt) = Some out" by (simp add: render_arg_def)
  obtain m' where "printf_arr_from ?st (map of_char ?fmt @ [0]) 0 (mach k) = Some m'" "displays m' (fold con_putc out con)" "console_frame (mach k) m'"
    using printf_arr_displays [OF r _ d ok] by auto
  then have "\<exists>k'. printf_args ?fmt [s] k = Some k' \<and> printed k k'" unfolding printed_def has_screen_def
    by (intro exI [of _ "k\<lparr>mach := m'\<rparr>"] conjI exI) (simp_all only: printf_args_def printf_arr_def on_mach_def option.map kernel.simps)
  then show ?thesis using True assms(3) s(1) by (simp add: report_cmdline_def)
next
  case False
  then show ?thesis using assms(1,3) by (auto simp: report_cmdline_def printed_refl)
qed

lemma print_modules_ok:
  assumes "has_screen (mach k)" and "\<not> paging_on (kvm k)" and "ld32 (kvm k) (mbi_mods_count mbi) = Some n"
    and "screen_region \<inter> region (mbi_mods_count mbi) 4 = {}"
  shows "\<exists>k'. print_modules mbi m i k = Some k' \<and> printed k k'"
  using assms(1-3)
proof (induction "unat n - unat i" arbitrary: i m k rule: less_induct)
  case less
  show ?case
  proof (cases "i < n")
    case True
    obtain k1 where k1: "print_module m i k = Some k1" "printed k k1" "has_screen (mach k1)" "\<not> paging_on (kvm k1)"
      by (rule prints_onlyD [OF reports_only(1) less.prems(1,2)])
    have n1: "ld32 (kvm k1) (mbi_mods_count mbi) = Some n" using printed_ld [OF k1(2) less.prems(2) assms(4)] less.prems(3) by simp
    have "unat (i + 1) = unat i + 1" using True unat_u32_lt [of n] by (simp add: unat_word_ariths word_less_nat_alt)
    then have "unat n - unat (i + 1) < unat n - unat i" using True by (simp add: word_less_nat_alt)
    from less.hyps [OF this k1(3,4) n1] obtain k2 where "print_modules mbi (m + 16) (i + 1) k1 = Some k2" "printed k1 k2" by blast
    then show ?thesis using True less.prems(3) k1(1,2) printed_trans by (subst print_modules.simps) auto
  next
    case False
    then show ?thesis using less.prems by (subst print_modules.simps) (auto simp: printed_refl)
  qed
qed

text \<open>The memory map ends: \<open>n\<close> entries, none of them on the screen.\<close>

fun mmap_walk :: "vmem \<Rightarrow> addr \<Rightarrow> addr \<Rightarrow> nat \<Rightarrow> bool" where
  "mmap_walk v m stop 0 = (\<not> m < stop)"
| "mmap_walk v m stop (Suc n) = (m < stop \<and> screen_region \<inter> region m 4 = {} \<and>
     (case ld32 v m of Some sz \<Rightarrow> mmap_walk v (m + sz + 4) stop n | None \<Rightarrow> False))"

lemma mmap_walk_printed:
  assumes "printed k k'" and "\<not> paging_on (kvm k)" and "mmap_walk (kvm k) m stop n"
  shows "mmap_walk (kvm k') m stop n"
  using assms(3) by (induction n arbitrary: m) (auto simp: printed_ld [OF assms(1,2)] split: option.splits)

lemma print_mmap_ok:
  assumes "has_screen (mach k)" and "\<not> paging_on (kvm k)" and "ld32 (kvm k) (mbi_mmap_addr mbi) = Some start"
    and "ld32 (kvm k) (mbi_mmap_length mbi) = Some len" and "screen_region \<inter> region (mbi_mmap_addr mbi) 4 = {}"
    and "screen_region \<inter> region (mbi_mmap_length mbi) 4 = {}" and "mmap_walk (kvm k) m (start + len) n"
  shows "\<exists>k'. print_mmap mbi m k = Some k' \<and> printed k k'"
  using assms(1-4,7)
proof (induction n arbitrary: m k)
  case 0
  then show ?case by (subst print_mmap.simps) (auto simp: printed_refl)
next
  case (Suc n)
  then obtain sz where w: "m < start + len" "screen_region \<inter> region m 4 = {}" "ld32 (kvm k) m = Some sz" "mmap_walk (kvm k) (m + sz + 4) (start + len) n"
    by (auto split: option.splits)
  obtain k1 where k1: "print_mmap_entry m k = Some k1" "printed k k1" "has_screen (mach k1)" "\<not> paging_on (kvm k1)"
    by (rule prints_onlyD [OF reports_only(2) Suc.prems(1,2)])
  note q = printed_ld [OF k1(2) Suc.prems(2)]
  have l: "ld32 (kvm k1) (mbi_mmap_addr mbi) = Some start" "ld32 (kvm k1) (mbi_mmap_length mbi) = Some len" "ld32 (kvm k1) m = Some sz"
    using q [OF assms(5)] q [OF assms(6)] q [OF w(2)] Suc.prems(3,4) w(3) by simp_all
  obtain k2 where "print_mmap mbi (m + sz + 4) k1 = Some k2" "printed k1 k2"
    using Suc.IH [OF k1(3,4) l(1,2) mmap_walk_printed [OF k1(2) Suc.prems(2) w(4)]] by blast
  then show ?case using Suc.prems(3,4) w(1) k1(1,2) l(3) printed_trans by (subst print_mmap.simps) (auto simp: mmap_size_def)
qed

section \<open>The report of the boot loader\<close>

text \<open>
  What the boot loader hands over at \<open>mbi\<close>: the information is not on the screen, one module is
  loaded at \<open>fs\<close>, at most one of the bits 4 and 5 is set, the command line is a string and the
  memory map ends.
\<close>

definition multiboot_ok :: "vmem \<Rightarrow> addr \<Rightarrow> addr \<Rightarrow> bool" where
  "multiboot_ok v mbi fs \<longleftrightarrow> screen_region \<inter> region mbi 52 = {} \<and>
     (\<exists>flags ma. ld32 v (mbi_flags mbi) = Some flags \<and> check_flag flags 3 \<and> \<not> (check_flag flags 4 \<and> check_flag flags 5) \<and>
       ld32 v (mbi_mods_addr mbi) = Some ma \<and> screen_region \<inter> region (mod_start ma) 4 = {} \<and> ld32 v (mod_start ma) = Some fs \<and>
       (check_flag flags 2 \<longrightarrow> (\<exists>s bs. ld32 v (mbi_cmdline mbi) = Some s \<and> cstring v s bs \<and> screen_region \<inter> region s (Suc (length bs)) = {})) \<and>
       (check_flag flags 6 \<longrightarrow> (\<exists>start len n. ld32 v (mbi_mmap_addr mbi) = Some start \<and> ld32 v (mbi_mmap_length mbi) = Some len \<and>
          mmap_walk v start (start + len) n)))"

lemma mbi_fields:
  assumes "screen_region \<inter> region mbi 52 = {}"
  shows "screen_region \<inter> region (mbi_flags mbi) 4 = {}" "screen_region \<inter> region (mbi_mods_addr mbi) 4 = {}"
    "screen_region \<inter> region (mbi_cmdline mbi) 4 = {}" "screen_region \<inter> region (mbi_mmap_addr mbi) 4 = {}"
    "screen_region \<inter> region (mbi_mmap_length mbi) 4 = {}" "screen_region \<inter> region (mbi_mods_count mbi) 4 = {}"
proof -
  have "screen_region \<inter> region (mbi + word_of_nat i) 4 = {}" if "i + 4 \<le> 52" for i
    using region_sub [of i 4 52 mbi] that assms by auto
  from this [of 0] this [of 24] this [of 16] this [of 48] this [of 44] this [of 20]
  show "screen_region \<inter> region (mbi_flags mbi) 4 = {}" "screen_region \<inter> region (mbi_mods_addr mbi) 4 = {}"
    "screen_region \<inter> region (mbi_cmdline mbi) 4 = {}" "screen_region \<inter> region (mbi_mmap_addr mbi) 4 = {}"
    "screen_region \<inter> region (mbi_mmap_length mbi) 4 = {}" "screen_region \<inter> region (mbi_mods_count mbi) 4 = {}"
    by (simp_all add: mbi_flags_def mbi_mods_addr_def mbi_cmdline_def mbi_mmap_addr_def mbi_mmap_length_def mbi_mods_count_def)
qed

lemma multiboot_printed:
  assumes "printed k k'" and "\<not> paging_on (kvm k)" and "multiboot_ok (kvm k) mbi fs"
  shows "multiboot_ok (kvm k') mbi fs"
proof -
  note q = printed_ld [OF assms(1,2)]
  have m: "screen_region \<inter> region mbi 52 = {}" using assms(3) by (simp add: multiboot_ok_def)
  note f = mbi_fields [OF m]
  have c: "cstring (kvm k') s bs" if "cstring (kvm k) s bs" "screen_region \<inter> region s (Suc (length bs)) = {}" for s bs
    by (rule cstring_changes [OF that(1) printed_vm(1) [OF assms(1)] flat_apart [OF assms(2) that(2)]])
  obtain flags ma where a: "ld32 (kvm k) (mbi_flags mbi) = Some flags" "check_flag flags 3" "\<not> (check_flag flags 4 \<and> check_flag flags 5)"
    "ld32 (kvm k) (mbi_mods_addr mbi) = Some ma" "screen_region \<inter> region (mod_start ma) 4 = {}" "ld32 (kvm k) (mod_start ma) = Some fs"
    "check_flag flags 2 \<longrightarrow> (\<exists>s bs. ld32 (kvm k) (mbi_cmdline mbi) = Some s \<and> cstring (kvm k) s bs \<and> screen_region \<inter> region s (Suc (length bs)) = {})"
    "check_flag flags 6 \<longrightarrow> (\<exists>start len n. ld32 (kvm k) (mbi_mmap_addr mbi) = Some start \<and> ld32 (kvm k) (mbi_mmap_length mbi) = Some len \<and>
          mmap_walk (kvm k) start (start + len) n)" using assms(3) unfolding multiboot_ok_def by blast
  have s: "check_flag flags 2 \<longrightarrow> (\<exists>s bs. ld32 (kvm k') (mbi_cmdline mbi) = Some s \<and> cstring (kvm k') s bs \<and> screen_region \<inter> region s (Suc (length bs)) = {})"
    using a(7) c q [OF f(3)] by metis
  have w: "check_flag flags 6 \<longrightarrow> (\<exists>start len n. ld32 (kvm k') (mbi_mmap_addr mbi) = Some start \<and> ld32 (kvm k') (mbi_mmap_length mbi) = Some len \<and>
          mmap_walk (kvm k') start (start + len) n)"
    using a(8) q [OF f(4)] q [OF f(5)] mmap_walk_printed [OF assms(1,2)] by metis
  show ?thesis unfolding multiboot_ok_def
    using m a(2,3,5) a(1) [folded q [OF f(1)]] a(4) [folded q [OF f(2)]] a(6) [folded q [OF a(5)]] s w by blast
qed

lemma report_modules_ok:
  assumes "has_screen (mach (b_kernel b))" and "\<not> paging_on (kvm (b_kernel b))" and "multiboot_ok (kvm (b_kernel b)) mbi fs"
  shows "\<exists>k'. report_modules mbi b = Some (b\<lparr>b_kernel := k', modStartTemp := fs\<rparr>) \<and> printed (b_kernel b) k'"
proof -
  let ?k = "b_kernel b"
  obtain flags ma where a: "ld32 (kvm ?k) (mbi_flags mbi) = Some flags" "check_flag flags 3" "ld32 (kvm ?k) (mbi_mods_addr mbi) = Some ma"
    "ld32 (kvm ?k) (mod_start ma) = Some fs" and m: "screen_region \<inter> region mbi 52 = {}" using assms(3) unfolding multiboot_ok_def by blast
  obtain n where n: "ld32 (kvm ?k) (mbi_mods_count mbi) = Some n" using flat_ld32 [OF assms(2)] by blast
  obtain k' where "print_modules mbi ma 0 ?k = Some k'" "printed ?k k'" using print_modules_ok [OF assms(1,2) n mbi_fields(6) [OF m]] by blast
  then show ?thesis using a by (auto simp: report_modules_def Let_def)
qed

lemma report_mmap_ok:
  assumes "has_screen (mach k)" and "\<not> paging_on (kvm k)" and "multiboot_ok (kvm k) mbi fs"
  shows "\<exists>k'. report_mmap mbi k = Some k' \<and> printed k k'"
proof -
  obtain flags where a: "ld32 (kvm k) (mbi_flags mbi) = Some flags" and m: "screen_region \<inter> region mbi 52 = {}"
    and w: "check_flag flags 6 \<longrightarrow> (\<exists>start len n. ld32 (kvm k) (mbi_mmap_addr mbi) = Some start \<and> ld32 (kvm k) (mbi_mmap_length mbi) = Some len \<and>
          mmap_walk (kvm k) start (start + len) n)" using assms(3) unfolding multiboot_ok_def by blast
  show ?thesis
  proof (cases "check_flag flags 6")
    case True
    obtain start len n where s: "ld32 (kvm k) (mbi_mmap_addr mbi) = Some start" "ld32 (kvm k) (mbi_mmap_length mbi) = Some len"
      "mmap_walk (kvm k) start (start + len) n" using w True by blast
    let ?pr = "printf_args (''mmap_addr = 0x%#x, mmap_length = 0x%x'' @ [CHR 0x0A]) [start, len]"
    have "prints_only ?pr" by (rule prints_only_printf) simp
    then obtain k1 where k1: "?pr k = Some k1" "printed k k1" "has_screen (mach k1)" "\<not> paging_on (kvm k1)" using assms(1,2) by (rule prints_onlyD)
    note q = printed_ld [OF k1(2) assms(2)]
    have s1: "ld32 (kvm k1) (mbi_mmap_addr mbi) = Some start" "ld32 (kvm k1) (mbi_mmap_length mbi) = Some len"
      using q [OF mbi_fields(4) [OF m]] q [OF mbi_fields(5) [OF m]] s by simp_all
    obtain k2 where "print_mmap mbi start k1 = Some k2" "printed k1 k2"
      using print_mmap_ok [OF k1(3,4) s1 mbi_fields(4,5) [OF m] mmap_walk_printed [OF k1(2) assms(2) s(3)]] by blast
    then show ?thesis using True a s(1,2) k1(1,2) s1(1) printed_trans by (auto simp: report_mmap_def simp del: append.simps)
  next
    case False
    then show ?thesis using a printed_refl [OF assms(1)] by (simp add: report_mmap_def)
  qed
qed

lemma entry_reports:
  assumes "has_screen (mach (b_kernel b))" and "\<not> paging_on (kvm (b_kernel b))" and "multiboot_ok (kvm (b_kernel b)) mbi fs"
  shows "\<exists>k. printed (b_kernel b) k \<and> entry e MULTIBOOT_BOOTLOADER_MAGIC mbi b = entry_setup e (b\<lparr>b_kernel := k, modStartTemp := fs\<rparr>)"
proof -
  let ?k = "b_kernel b" and ?pr = "\<lambda>flags. printf_args (''flags = 0x%#x'' @ [CHR 0x0A]) [flags]"
  obtain con where "displays (mach ?k) con" using assms(1) unfolding has_screen_def by blast
  then obtain m0 where m0: "clear (mach ?k) = Some m0" "console_frame (mach ?k) m0" "has_screen m0"
    using clear_keeps [OF displays_cellsI] unfolding keeps_console_def has_screen_def by blast
  define k0 where "k0 = ?k\<lparr>mach := m0\<rparr>"
  have k0: "on_mach clear ?k = Some k0" "printed ?k k0" "has_screen (mach k0)" using m0 by (auto simp: on_mach_def k0_def printed_def)
  have f0: "\<not> paging_on (kvm k0)" using printed_vm(2) [OF k0(2)] assms(2) by simp
  have mb: "multiboot_ok (kvm k) mbi fs" if "printed ?k k" for k by (rule multiboot_printed [OF that assms(2,3)])
  obtain flags where fl: "ld32 (kvm ?k) (mbi_flags mbi) = Some flags" "\<not> (check_flag flags 4 \<and> check_flag flags 5)"
    and m: "screen_region \<inter> region mbi 52 = {}" using assms(3) unfolding multiboot_ok_def by blast
  have flag: "ld32 (kvm k) (mbi_flags mbi) = Some flags" if "printed ?k k" for k
    using printed_ld [OF that assms(2) mbi_fields(1) [OF m]] fl(1) by simp
  have "prints_only (?pr flags)" by (rule prints_only_printf) simp
  then obtain k1 where k1: "?pr flags k0 = Some k1" "printed k0 k1" "has_screen (mach k1)" "\<not> paging_on (kvm k1)" using k0(3) f0 by (rule prints_onlyD)
  obtain k2 where k2: "report_memory mbi k1 = Some k2" "printed k1 k2" "has_screen (mach k2)" "\<not> paging_on (kvm k2)"
    by (rule prints_onlyD [OF reports_only(3) k1(3,4)])
  obtain k3 where k3: "report_device mbi k2 = Some k3" "printed k2 k3" "has_screen (mach k3)" "\<not> paging_on (kvm k3)"
    by (rule prints_onlyD [OF reports_only(4) k2(3,4)])
  have q3: "printed ?k k3" using k0(2) k1(2) k2(2) k3(2) printed_trans by blast
  have "check_flag flags 2 \<Longrightarrow> \<exists>s bs. ld32 (kvm k3) (mbi_cmdline mbi) = Some s \<and> cstring (kvm k3) s bs \<and> screen_region \<inter> region s (Suc (length bs)) = {}"
    using mb [OF q3] flag [OF q3] unfolding multiboot_ok_def by (elim conjE exE) simp
  then obtain k4 where k4: "report_cmdline mbi k3 = Some k4" "printed k3 k4" using report_cmdline_ok [OF k3(3,4) flag [OF q3]] by blast
  have q4: "printed ?k k4" by (rule printed_trans [OF q3 k4(2)])
  have h4: "has_screen (mach k4)" "\<not> paging_on (kvm k4)" using printed_screen [OF k4(2)] printed_vm(2) [OF q4] assms(2) by simp_all
  obtain k5 where k5: "report_modules mbi (b\<lparr>b_kernel := k4\<rparr>) = Some (b\<lparr>b_kernel := k5, modStartTemp := fs\<rparr>)" "printed k4 k5"
    using report_modules_ok [of "b\<lparr>b_kernel := k4\<rparr>" mbi fs] h4 mb [OF q4] by auto
  have q5: "printed ?k k5" by (rule printed_trans [OF q4 k5(2)])
  have h5: "has_screen (mach k5)" "\<not> paging_on (kvm k5)" using printed_screen [OF k5(2)] printed_vm(2) [OF q5] assms(2) by simp_all
  obtain k6 where k6: "report_elf mbi k5 = Some k6" "printed k5 k6" "has_screen (mach k6)" "\<not> paging_on (kvm k6)"
    by (rule prints_onlyD [OF reports_only(5) h5])
  have q6: "printed ?k k6" by (rule printed_trans [OF q5 k6(2)])
  obtain k7 where k7: "report_mmap mbi k6 = Some k7" "printed k6 k7" using report_mmap_ok [OF k6(3,4) mb [OF q6]] by blast
  have cond: "(check_flag flags 4 \<and> check_flag flags 5) = False" using fl(2) by simp
  have swap: "b\<lparr>modStartTemp := fs, b_kernel := k\<rparr> = b\<lparr>b_kernel := k, modStartTemp := fs\<rparr>" for k by simp
  have "entry e MULTIBOOT_BOOTLOADER_MAGIC mbi b = entry_setup e (b\<lparr>b_kernel := k7, modStartTemp := fs\<rparr>)"
    using k0(1) flag [OF k0(2)] k1(1) k2(1) k3(1) k4(1) k5(1) flag [OF q5] k6(1) k7(1) cond
    by (auto simp add: entry_def Let_def swap simp del: append.simps)
  then show ?thesis using printed_trans [OF q6 k7(2)] by blast
qed

section \<open>Terminals\<close>

text \<open>Steps that change only the backing pages of the terminals and the terminals themselves.\<close>

definition backing :: "kernel \<Rightarrow> kernel \<Rightarrow> bool" where
  "backing k k' \<longleftrightarrow> real_screen (kvm k') \<and> agree kpage (kvm k) (kvm k') \<and> (\<exists>v t. k' = (set_vm v k)\<lparr>terminals := t\<rparr>)"

lemma backing_trans: "backing k k' \<Longrightarrow> backing k' k'' \<Longrightarrow> backing k k''"
  unfolding backing_def by (auto intro: agree_trans) (auto simp: set_vm_def)

lemma backing_term: "real_screen (kvm k) \<Longrightarrow> backing k (upd_term i f k)"
  unfolding backing_def
  by (intro conjI exI [of _ "kvm k"] exI [of _ "terminals (upd_term i f k)"]) (simp_all add: agree_def upd_term_def set_vm_def)

lemma backing_memset:
  assumes "real_screen (kvm k)" and "i < 4" and "on_vm (\<lambda>v. memset v (pa i) c 4096) k = Some k'"
  shows "backing k k'"
proof -
  let ?bs = "replicate 4096 (word_of_int c :: u8)"
  obtain v where v: "st_bytes (kvm k) (pa i) ?bs = Some v" "k' = set_vm v k"
    using assms(3) by (auto simp: on_vm_def memset_eq)
  have ch: "changes (region (pa i) 4096) (kvm k) v" using st_bytes_changes [OF v(1)] by simp
  have "apart (kvm k) (region (pa i) 4096) kpage"
    unfolding apart_def
  proof (intro ballI allI impI)
    fix a b p assume a: "a \<in> region (pa i) 4096" "translate (kvm k) a = Some p" and b: "b \<in> kpage"
    have p: "p = a" using a translate_pages [OF assms(1) pa_page(2) [OF assms(2) a(1)]] by simp
    have "unat (drop_bit 12 a) < 1024"
      using pa_page(1) [OF assms(2) a(1)] assms(2) by (simp add: unat_word_ariths unat_word_of_nat_u32)
    then have "unat (drop_bit 10 (drop_bit 12 a)) = 0" by (simp only: unat_drop_bit_eq) (simp add: drop_bit_eq_div)
    then have "drop_bit 22 a = 0" by (simp only: drop_bit_drop_bit unat_eq_zero) simp
    moreover have "translate (kvm k) b = Some b" "drop_bit 22 b = 1"
      using translate_kernel_page(1) [of "kvm k" b] assms(1) b by (simp_all add: real_screen_def kpage_def)
    ultimately show "translate (kvm k) b \<noteq> Some p" using p by (auto simp only: option.inject) simp
  qed
  then have "agree kpage (kvm k) v" by (rule agree_changes [OF ch])
  moreover have "real_screen v" using real_screen_same_map [OF changes_same_map [OF ch]] assms(1) by simp
  ultimately show ?thesis using v(2) by (auto simp: backing_def intro!: exI [of _ v] exI [of _ "terminals k"])
qed

lemma backing_init_terminal:
  assumes "real_screen (kvm k)" and "i < 3" and "video_buffer (terminals k i) = pa (Suc i)" and "init_terminal i k = Some k'"
  shows "backing k k'"
proof -
  let ?k1 = "upd_term i (\<lambda>t. t\<lparr>shell_pid := int i\<rparr>) k"
  obtain k2 where k2: "on_vm (\<lambda>v. memset v (pa (Suc i)) 0 4096) ?k1 = Some k2"
    and k': "k' = upd_term i (\<lambda>t. t\<lparr>t_prev_buf := replicate 128 0\<rparr>) (upd_term i (\<lambda>t. t\<lparr>t_buf_kb := replicate 128 0, t_screen_x := 0,
      t_screen_y := 0, t_curr_idx := 0, t_num_chars := 0, t_save_x := 0, t_save_y := 0, t_prev_num_chars := 0, curr_process := -1,
      enter_flag := 1, screen_start := 0\<rparr>) k2)"
    using assms(3,4) by (auto simp: init_terminal_def Let_def split: Option.bind_splits)
  have b1: "backing k ?k1" by (rule backing_term [OF assms(1)])
  have b2: "backing ?k1 k2" by (rule backing_memset [OF _ _ k2]) (use assms(1,2) in simp_all)
  then have r2: "real_screen (kvm k2)" by (simp only: backing_def)
  have "backing k2 k'" unfolding k' by (rule backing_trans [OF backing_term [OF r2] backing_term]) (use r2 in simp)
  then show ?thesis by (rule backing_trans [OF backing_trans [OF b1 b2]])
qed

lemma init_terminals_backing:
  assumes "real_screen (kvm k)"
  obtains k' where "init_terminals k = Some (k'\<lparr>cur_terminal := 2, visible := 0, pitIntrCount := 0\<rparr>)" "backing k k'"
    "\<forall>i < 3. saved k' i = fresh_session \<and> curr_process (terminals k' i) = -1 \<and> video_buffer (terminals k' i) = pa (Suc i)"
proof -
  have pas: "pa 1 = 0xB9000" "pa 2 = 0xBA000" "pa 3 = 0xBB000" by (simp_all add: pa_def)
  let ?t = "\<lambda>i a k. upd_term i (\<lambda>t. t\<lparr>video_buffer := a\<rparr>) k"
  obtain k' where k': "init_terminals k = Some k'"
    "\<forall>i < 3. saved k' i = fresh_session \<and> curr_process (terminals k' i) = -1 \<and> video_buffer (terminals k' i) = pa (Suc i)"
    using init_terminals_ok [OF assms] by auto
  from k'(1) obtain k1 k2 k3 k4 k5 k6 where
    s: "on_vm (\<lambda>v. memset v 0xB9000 0 4096) (?t 0 0xB9000 k) = Some k1" "on_vm (\<lambda>v. memset v 0xBA000 20 4096) (?t 1 0xBA000 k1) = Some k2"
      "on_vm (\<lambda>v. memset v 0xBB000 40 4096) (?t 2 0xBB000 k2) = Some k3"
      "init_terminal 0 k3 = Some k4" "init_terminal 1 k4 = Some k5" "init_terminal 2 k5 = Some k6"
    and e: "k' = k6\<lparr>cur_terminal := 2, visible := 0, pitIntrCount := 0\<rparr>"
    by (auto simp: init_terminals_def Let_def split: Option.bind_splits)
  have step: "backing k k'' \<and> (\<forall>j. video_buffer (terminals k'' j) = (if j = i then a else video_buffer (terminals k j)))"
    if r: "real_screen (kvm k)" and i: "i < 3" and a: "pa (Suc i) = a" and m: "on_vm (\<lambda>v. memset v a c 4096) (?t i a k) = Some k''" for k k'' i a c
  proof -
    have "on_vm (\<lambda>v. memset v (pa (Suc i)) c 4096) (?t i a k) = Some k''" using m a by simp
    from backing_memset [OF _ _ this] r i have "backing (?t i a k) k''" by simp
    then have "backing k k''" by (rule backing_trans [OF backing_term [OF r]])
    moreover have "terminals k'' = terminals (?t i a k)" using m by (auto simp: on_vm_def set_vm_def split: Option.bind_splits)
    ultimately show ?thesis by (simp add: upd_term_def)
  qed
  have rs: "backing k k'' \<Longrightarrow> real_screen (kvm k'')" for k k'' by (simp only: backing_def)
  have vb: "init_terminal i k = Some k'' \<Longrightarrow> video_buffer (terminals k'' j) = video_buffer (terminals k j)" for i k k'' j
    by (auto simp: init_terminal_def Let_def on_vm_def upd_term_def set_vm_def split: Option.bind_splits)
  have p: "pa (Suc 0) = 0xB9000" "pa (Suc 1) = 0xBA000" "pa (Suc 2) = 0xBB000" and l: "(0 :: nat) < 3" "(1 :: nat) < 3" "(2 :: nat) < 3"
    by (simp_all add: pa_def)
  note b1 = step [OF assms l(1) p(1) s(1)]
  note b2 = step [OF rs [OF conjunct1 [OF b1]] l(2) p(2) s(2)]
  note b3 = step [OF rs [OF conjunct1 [OF b2]] l(3) p(3) s(3)]
  have v3: "video_buffer (terminals k3 0) = 0xB9000" "video_buffer (terminals k3 1) = 0xBA000" "video_buffer (terminals k3 2) = 0xBB000"
    using b1 b2 b3 by simp_all
  have b4: "backing k3 k4"
    by (rule backing_init_terminal [OF rs [OF conjunct1 [OF b3]] l(1) _ s(4)]) (simp only: v3 p)
  have b5: "backing k4 k5"
    by (rule backing_init_terminal [OF rs [OF b4] l(2) _ s(5)]) (simp only: vb [OF s(4)] v3 p)
  have b6: "backing k5 k6"
    by (rule backing_init_terminal [OF rs [OF b5] l(3) _ s(6)]) (simp only: vb [OF s(5)] vb [OF s(4)] v3 p)
  note t = conjunct1 [OF b1] conjunct1 [OF b2] conjunct1 [OF b3] b4 b5 b6
  note k6 = backing_trans [OF backing_trans [OF backing_trans [OF backing_trans [OF backing_trans [OF t(1) t(2)] t(3)] t(4)] t(5)] t(6)]
  show ?thesis by (rule that [OF k'(1) [unfolded e] k6]) (use k'(2) e in \<open>simp add: saved_def\<close>)
qed

section \<open>Devices and paging\<close>

definition shell_area :: "kernel \<Rightarrow> dentry_t \<Rightarrow> u32 \<Rightarrow> (nat \<Rightarrow> u32) \<Rightarrow> addr set" where
  "shell_area k d eof blk = file_area k (inodeNum d) eof blk \<union> region (startdentry k) 4096 \<union> region (shell_name k) 128"

lemma shell_area_kpage: "has_shell k d eof blk hdr \<Longrightarrow> shell_area k d eof blk \<subseteq> kpage"
  by (auto simp: has_shell_def program_def shell_area_def)

lemma shell_agree:
  assumes "has_shell k d eof blk hdr" and "agree (shell_area k d eof blk) (kvm k) (kvm k')"
    and same: "start_addr k' = start_addr k" "numinodes k' = numinodes k" "startdentry k' = startdentry k" "elf_buf k' = elf_buf k"
      "shell_name k' = shell_name k"
  shows "has_shell k' d eof blk hdr"
proof -
  obtain cs where cs: "program k cs d eof blk hdr" "elf_magic hdr" "length cs < 128"
    "region (shell_name k) 128 \<subseteq> kpage - region (elf_buf k) 28" "reads (str_at (kvm k) (shell_name k)) cs" using assms(1) by (auto simp: has_shell_def)
  have a: "agree (file_area k (inodeNum d) eof blk \<union> region (startdentry k) 4096) (kvm k) (kvm k')" "agree (region (shell_name k) 128) (kvm k) (kvm k')"
    by (rule agree_mono [OF assms(2)], auto simp: shell_area_def)+
  have "reads (str_at (kvm k') (shell_name k')) cs" using reads_agree [OF a(2) cs(3)] same(5) cs(5) by simp
  then show ?thesis using program_agree(1) [OF cs(1) a(1) same(1-4)] cs(2-4) same by (auto simp: has_shell_def)
qed

lemma screen_kpage: "screen_region \<inter> kpage = {}"
proof -
  have "drop_bit 22 a = 0" if "a \<in> screen_region" for a
  proof -
    have "drop_bit 12 a = 0xB8" using that region_mono [of 4000 4096 VIDEO] by (intro screen_addr(1)) auto
    moreover have "drop_bit 22 a = drop_bit 10 (drop_bit 12 a)" by (simp only: drop_bit_drop_bit) simp
    ultimately show ?thesis by simp
  qed
  then show ?thesis by (auto simp: kpage_def)
qed

lemma init_paging_agree:
  assumes "\<not> paging_on v" and "tables_placed v"
  shows "agree kpage v (init_paging v)" "real_screen (init_paging v)"
proof -
  have l: "layout (init_paging v)" by (rule init_paging_layout [OF assms(2)])
  have pm: "pmem (init_paging v) = pmem v" by (simp add: init_paging_def Let_def enable_paging_def init_tables_fields)
  show "agree kpage v (init_paging v)"
    unfolding agree_def using ld8_kpage [OF l] translate_kernel_page(1) [OF l] pm assms(1) by (simp add: kpage_def flat_ld8 flat_translate)
  show "real_screen (init_paging v)" using l
    by (simp add: real_screen_def) (simp add: init_paging_def Let_def enable_paging_def init_tables_fields VIDEO_MEM_INDEX_def FOUR_KB_def)
qed

lemma rtc_set_freq_frame:
  assumes "rtc_set_freq dev f m = Some (r, m')"
  shows "m' = m\<lparr>rate := rate m', io := io m'\<rparr>"
  using assms by (auto simp: rtc_set_freq_def Let_def outb_def inb_def split: if_splits Option.bind_splits)

lemma init_rtc_frame:
  "init_rtc dev (i8259_init m) = m\<lparr>io := io (init_rtc dev (i8259_init m)), slave_mask := ucast (ucast (slave_mask m) AND NOT 1 :: u32)\<rparr>"
  by (simp add: init_rtc_def i8259_init_def enable_irq_def outb_def inb_def Let_def shl1_def)

lemma store_word: "\<not> paging_on v \<Longrightarrow> \<exists>v'. st_bytes v a (bytes_of_word 2) = Some v' \<and> ld32 v' a = Some 2 \<and> changes (region a 4) v v'"
proof -
  assume p: "\<not> paging_on v"
  have "mapped v (region a (length (bytes_of_word 2)))" by (simp add: mapped_def flat_translate [OF p] inj_on_def)
  then obtain v' where v': "st_bytes v a (bytes_of_word 2) = Some v'" "ld_bytes v' a 4 = Some (bytes_of_word 2)"
    using st_bytes_mapped [of v a "bytes_of_word 2"] by auto
  have "bytes_of_word 2 = [2, 0, 0, 0]" by (simp add: bytes_of_word_def)
  then have "ld_bytes v' a (Suc (Suc (Suc (Suc 0)))) = Some [2, 0, 0, 0]" using v'(2) by (simp add: numeral_eq_Suc)
  then have "ld8 v' a = Some 2" "ld8 v' (a + 1) = Some 0" "ld8 v' (a + 2) = Some 0" "ld8 v' (a + 3) = Some 0"
    by (auto simp: add.commute split: Option.bind_splits)
  then have "ld32 v' a = Some 2" by (simp add: ld32_def word_of_bytes_def)
  then show ?thesis using v'(1) st_bytes_changes [OF v'(1)] by auto
qed

lemma setup_devices_ok:
  assumes "\<not> paging_on (kvm k)"
  shows "\<exists>v i. setup_devices e k = Some (upd_term (vt k) (\<lambda>t. t\<lparr>enter_flag := 1\<rparr>)
    (k\<lparr>mach := (mach k)\<lparr>vm := v, rate := 14, io := i, master_mask := ucast (ucast (master_mask (mach k)) AND NOT 2 :: u32),
       slave_mask := ucast (ucast (slave_mask (mach k)) AND NOT 1 :: u32)\<rparr>, buf_kb := (buf_kb k)[127 := 0]\<rparr>)) \<and>
    changes (region (be_freq e) 4) (kvm k) v"
proof -
  obtain i where i: "init_rtc (be_dev e) (i8259_init (mach k)) =
    (mach k)\<lparr>io := i, slave_mask := ucast (ucast (slave_mask (mach k)) AND NOT 1 :: u32)\<rparr>" using init_rtc_frame by blast
  let ?m1 = "(mach k)\<lparr>io := i, slave_mask := ucast (ucast (slave_mask (mach k)) AND NOT 1 :: u32)\<rparr>"
  obtain v where v: "st_bytes (kvm k) (be_freq e) (bytes_of_word 2) = Some v" "ld32 v (be_freq e) = Some 2"
    "changes (region (be_freq e) 4) (kvm k) v" using store_word [OF assms] by blast
  obtain m2 where m2: "rtc_set_freq (be_dev e) 2 (?m1\<lparr>vm := v\<rparr>) = Some (0, m2)" "rate m2 = 14"
    using rtc_set_freq_accepts [of 1 "be_dev e" "?m1\<lparr>vm := v\<rparr>"] by auto
  have f2: "m2 = ?m1\<lparr>vm := v, rate := 14, io := io m2\<rparr>" using rtc_set_freq_frame [OF m2(1)] m2(2) by simp
  have w: "rtc_write (be_dev e) 0 (be_freq e) 2 (?m1\<lparr>vm := v\<rparr>) = Some (0, m2)" using v(2) m2(1) by (simp add: rtc_write_def)
  have "setup_devices e k = Some (init_keyboard (k\<lparr>mach := m2\<rparr>))"
    using v(1) w by (simp add: setup_devices_def Let_def i on_vm_def set_vm_def)
  moreover have "init_keyboard (k\<lparr>mach := m2\<rparr>) = upd_term (vt k) (\<lambda>t. t\<lparr>enter_flag := 1\<rparr>)
    (k\<lparr>mach := (mach k)\<lparr>vm := v, rate := 14, io := Outb PIC1_DATA (ucast (ucast (master_mask (mach k)) AND NOT 2 :: u32)) # io m2,
       master_mask := ucast (ucast (master_mask (mach k)) AND NOT 2 :: u32),
       slave_mask := ucast (ucast (slave_mask (mach k)) AND NOT 1 :: u32)\<rparr>, buf_kb := (buf_kb k)[127 := 0]\<rparr>)"
    by (subst f2) (simp add: init_keyboard_def enable_irq_def Let_def shl1_def outb_def word_le_nat_alt)
  ultimately show ?thesis using v(3) by auto
qed

text \<open>The memory that the initialisation reads must not be overwritten by the local variable \<open>rtc_freq\<close>.\<close>

lemma setup_system_ok:
  assumes "\<not> paging_on (kvm k)" and "tables_placed (kvm k)" and "filesys_init fs k = Some kf" and "region fs 12 \<subseteq> kpage"
    and "has_shell kf d eof blk hdr"
  shows "\<exists>k'. setup_system fs k = Some k' \<and> real_screen (kvm k') \<and> has_shell k' d eof blk hdr \<and> cur_terminal k' = 2 \<and> visible k' = 0 \<and>
    pitCount k' = 0 \<and> (\<forall>i < 3. saved k' i = fresh_session \<and> curr_process (terminals k' i) = -1 \<and> video_buffer (terminals k' i) = pa (Suc i)) \<and>
    (\<forall>i. 0 \<le> i \<and> i < 6 \<longrightarrow> pid_free k' i) \<and> iflag (mach k') \<and> tss k' = tss k \<and>
    screen_x (mach k') = screen_x (mach k) \<and> screen_y (mach k') = screen_y (mach k) \<and> curr_idx k' = curr_idx k \<and> num_chars k' = num_chars k \<and>
    save_x k' = save_x k \<and> save_y k' = save_y k \<and> previous_num_chars k' = previous_num_chars k \<and>
    previous_buf k' = previous_buf k \<and> buf_kb k' = buf_kb k \<and> flag_arr k' = flag_arr k \<and>
    master_mask (mach k') = ucast (ucast (master_mask (mach k)) AND NOT 1 :: u32) \<and> slave_mask (mach k') = slave_mask (mach k)"
proof -
  let ?v = "init_paging (kvm k)"
  note p = init_paging_agree [OF assms(1,2)]
  define k1 where "k1 = upd_mach sti (set_vm ?v k)"
  have v1: "kvm k1 = ?v" by (simp add: k1_def sti_def)
  from assms(3) obtain nd ni nb where n: "ld32 (kvm k) fs = Some nd" "ld32 (kvm k) (fs + 4) = Some ni" "ld32 (kvm k) (fs + 8) = Some nb"
    and kf: "kf = k\<lparr>start_addr := fs, numdentries := nd, numinodes := ni, numblocks := nb, startdentry := fs + 64, curfile := 1\<rparr>"
    by (auto simp: filesys_init_def split: Option.bind_splits)
  have ag: "agree (region (fs + word_of_nat j) 4) (kvm k) ?v" if "j + 4 \<le> 12" for j
    by (rule agree_mono [OF p(1)]) (use assms(4) region_sub [of j 4 12 fs] that in auto)
  have l: "ld32 ?v fs = Some nd" "ld32 ?v (fs + 4) = Some ni" "ld32 ?v (fs + 8) = Some nb"
    using ld32_agree [OF ag [of 0]] ld32_agree [OF ag [of 4]] ld32_agree [OF ag [of 8]] n by simp_all
  let ?fs = "\<lambda>k. k\<lparr>start_addr := fs, numdentries := nd, numinodes := ni, numblocks := nb, startdentry := fs + 64\<rparr>"
  define k2 where "k2 = init_PCB (?fs k1\<lparr>curfile := 1\<rparr>)"
  have v2: "kvm k2 = ?v" using v1 by (simp add: k2_def)
  obtain k3 where k3: "init_terminals k2 = Some (k3\<lparr>cur_terminal := 2, visible := 0, pitIntrCount := 0\<rparr>)" "backing k2 k3"
    "\<forall>i < 3. saved k3 i = fresh_session \<and> curr_process (terminals k3 i) = -1 \<and> video_buffer (terminals k3 i) = pa (Suc i)"
    using init_terminals_backing [of k2] p(2) v2 by auto
  obtain v t where f3: "k3 = (set_vm v k2)\<lparr>terminals := t\<rparr>" "agree kpage ?v v" "real_screen v"
    using k3(2) v2 by (auto simp: backing_def)
  define k4 where "k4 = upd_mach (enable_irq 0) (upd_mach (\<lambda>m. m\<lparr>io := [Outb 0x40 (word_of_nat (1193180 div 20 div 256)),
       Outb 0x40 (word_of_nat (1193180 div 20)), Outb 0x43 0x36] @ io m\<rparr>)
         (k3\<lparr>cur_terminal := 2, visible := 0, pitIntrCount := 0\<rparr>)\<lparr>pitCount := 0, pitIntrCount := 0\<rparr>)"
  have i: "filesys_init fs k1 = Some (?fs k1\<lparr>curfile := 1\<rparr>)" "pcb_filesys_init fs (?fs k1\<lparr>curfile := 1\<rparr>) = Some (?fs k1\<lparr>curfile := 1\<rparr>)"
    using l v1 by (simp_all add: filesys_init_def pcb_filesys_init_def)
  have "setup_system fs k = do { k \<leftarrow> filesys_init fs k1; k \<leftarrow> pcb_filesys_init fs k; k \<leftarrow> init_terminals (init_PCB k); init_PIT 20 k }"
    by (simp add: setup_system_def Let_def k1_def STARTING_PIT_FREQUENCY_def)
  also have "\<dots> = init_PIT 20 (k3\<lparr>cur_terminal := 2, visible := 0, pitIntrCount := 0\<rparr>)"
    using k3(1) i by (simp add: k2_def)
  also have "\<dots> = Some k4" using init_PIT_divisor [of 20 "k3\<lparr>cur_terminal := 2, visible := 0, pitIntrCount := 0\<rparr>"] by (simp add: k4_def)
  finally have r: "setup_system fs k = Some k4" .
  have q: "mach k4 = (mach k)\<lparr>vm := v, iflag := True, io := io (mach k4), master_mask := ucast (ucast (master_mask (mach k)) AND NOT 1 :: u32)\<rparr>"
    by (simp add: k4_def f3(1) k2_def k1_def set_vm_def sti_def enable_irq_def outb_def shl1_def word_le_nat_alt Let_def)
  have v4: "kvm k4 = v" by (subst q) simp
  have rest: "terminals k4 = terminals k3" "PCB_array k4 = PCB_array k2" "start_addr k4 = fs" "numinodes k4 = ni" "startdentry k4 = fs + 64"
    "elf_buf k4 = elf_buf k" "shell_name k4 = shell_name k" "kvm k3 = v"
    by (simp_all add: k4_def f3(1)) (simp_all add: k2_def k1_def set_vm_def)
  have "agree kpage (kvm k) (kvm k4)" using agree_trans [OF p(1) f3(2)] v4 by simp
  then have sh: "has_shell k4 d eof blk hdr"
    by (intro shell_agree [OF assms(5) agree_mono [OF _ shell_area_kpage [OF assms(5)]]]) (use rest kf in simp_all)
  have "pid_free k4 i" if "0 \<le> i" "i < 6" for i using init_PCB_free(1) [OF that] rest(2) by (simp add: k2_def pid_free_def)
  moreover have "saved k4 i = saved k3 i" for i using rest v4 by (simp add: saved_def)
  moreover have "tss (init_PCB k) = tss k" for k by (subst init_PCB_frame) simp
  moreover from this have "tss k4 = tss k" by (simp add: k4_def f3(1)) (simp add: k2_def k1_def set_vm_def)
  moreover have "curr_idx k4 = curr_idx k" "num_chars k4 = num_chars k" "save_x k4 = save_x k" "save_y k4 = save_y k"
    "previous_num_chars k4 = previous_num_chars k" "previous_buf k4 = previous_buf k" "buf_kb k4 = buf_kb k" "flag_arr k4 = flag_arr k" "cur_terminal k4 = 2" "visible k4 = 0" "pitCount k4 = 0"
    by (simp_all add: k4_def f3(1)) (simp_all add: k2_def k1_def set_vm_def)
  moreover have "iflag (mach k4)" "screen_x (mach k4) = screen_x (mach k)" "screen_y (mach k4) = screen_y (mach k)"
    "master_mask (mach k4) = ucast (ucast (master_mask (mach k)) AND NOT 1 :: u32)" "slave_mask (mach k4) = slave_mask (mach k)"
    by (subst q, simp)+
  ultimately show ?thesis using r sh f3(3) v4 k3(3) rest(1) by (intro exI [of _ k4]) simp
qed

section \<open>Properties\<close>

text \<open>A kernel before the boot: data zeroed, paging off, page tables placed, the shell in the file system image at \<open>fs\<close>.\<close>

definition loaded :: "boot_env \<Rightarrow> kernel \<Rightarrow> addr \<Rightarrow> addr \<Rightarrow> dentry_t \<Rightarrow> u32 \<Rightarrow> (nat \<Rightarrow> u32) \<Rightarrow> u8 list \<Rightarrow> bool" where
  "loaded e k mbi fs d eof blk hdr \<longleftrightarrow> (\<exists>m sp buf nm kf. k = zero_kernel m sp buf nm \<and> has_screen m \<and> \<not> paging_on (vm m) \<and>
     tables_placed (vm m) \<and> multiboot_ok (vm m) mbi fs \<and> filesys_init fs k = Some kf \<and> has_shell kf d eof blk hdr \<and>
     region fs 12 \<subseteq> kpage \<and> region (be_freq e) 4 \<inter> (shell_area kf d eof blk \<union> region fs 12) = {})"

lemma filesys_agree:
  assumes "filesys_init fs k = Some kf" and "agree (region fs 12) (kvm k) (kvm k')"
  shows "\<exists>kf'. filesys_init fs k' = Some kf' \<and> kvm kf' = kvm k' \<and> start_addr kf' = start_addr kf \<and> numinodes kf' = numinodes kf \<and>
    startdentry kf' = startdentry kf \<and> elf_buf kf' = elf_buf k' \<and> shell_name kf' = shell_name k'"
proof -
  have ag: "agree (region (fs + word_of_nat j) 4) (kvm k) (kvm k')" if "j + 4 \<le> 12" for j
    by (rule agree_mono [OF assms(2)]) (use region_sub [of j 4 12 fs] that in auto)
  have "ld32 (kvm k') fs = ld32 (kvm k) fs" "ld32 (kvm k') (fs + 4) = ld32 (kvm k) (fs + 4)" "ld32 (kvm k') (fs + 8) = ld32 (kvm k) (fs + 8)"
    using ld32_agree [OF ag [of 0]] ld32_agree [OF ag [of 4]] ld32_agree [OF ag [of 8]] by simp_all
  then show ?thesis using assms(1) by (auto simp: filesys_init_def split: Option.bind_splits)
qed

lemma mask_bits:
  fixes w :: u8
  shows "bit (ucast (ucast (ucast (ucast w AND NOT 2 :: u32) :: u8) AND NOT 1 :: u32) :: u8) i \<longleftrightarrow> bit w i \<and> 2 \<le> i"
    "bit (ucast (ucast w AND NOT 1 :: u32) :: u8) i \<longleftrightarrow> bit w i \<and> 1 \<le> i"
proof -
  have n: "NOT 2 = NOT (shl1 1)" "NOT 1 = NOT (shl1 0)" by (simp_all add: shl1_def)
  have b: "bit (u :: u8) i \<Longrightarrow> i < 8" for u using bit_imp_le_length [of u i] by simp
  show "bit (ucast (ucast (ucast (ucast w AND NOT 2 :: u32) :: u8) AND NOT 1 :: u32) :: u8) i \<longleftrightarrow> bit w i \<and> 2 \<le> i"
    "bit (ucast (ucast w AND NOT 1 :: u32) :: u8) i \<longleftrightarrow> bit w i \<and> 1 \<le> i"
    unfolding n using b bit_ucast_and_not_shl1 [of 0 i] bit_ucast_and_not_shl1 [of 1 i w] by auto
qed

text \<open>The devices are set up without touching the file system image.\<close>

lemma devices_loaded:
  assumes "printed k k1" and "loaded e k mbi fs d eof blk hdr"
    and k2: "k2 = k1\<lparr>tss := (tss k1)\<lparr>ldt_segment_selector := KERNEL_LDT, ss0 := KERNEL_DS, esp0 := 0x800000\<rparr>\<rparr>"
  obtains k3 kf where "setup_devices e k2 = Some k3" "\<not> paging_on (kvm k3)" "tables_placed (kvm k3)" "filesys_init fs k3 = Some kf"
    "has_shell kf d eof blk hdr" "cursor_ok (mach k3)" "tss k3 = tss k2" "curr_idx k3 = 0" "num_chars k3 = 0" "save_x k3 = 0" "save_y k3 = 0"
    "previous_num_chars k3 = 0" "length (previous_buf k3) = 128" "length (buf_kb k3) = 128" "length (flag_arr k3) = 5"
    "master_mask (mach k3) = ucast (ucast (master_mask (mach k)) AND NOT 2 :: u32)"
    "slave_mask (mach k3) = ucast (ucast (slave_mask (mach k)) AND NOT 1 :: u32)"
proof -
  obtain m sp buf nm kf where k: "k = zero_kernel m sp buf nm" and l: "\<not> paging_on (vm m)" "tables_placed (vm m)" "filesys_init fs k = Some kf"
    "has_shell kf d eof blk hdr" "region fs 12 \<subseteq> kpage" "region (be_freq e) 4 \<inter> (shell_area kf d eof blk \<union> region fs 12) = {}"
    using assms(2) unfolding loaded_def by blast
  have km: "mach k = m" by (simp add: k)
  obtain m1 where m1: "k1 = k\<lparr>mach := m1\<rparr>" "console_frame m m1" "has_screen m1" using assms(1) km by (auto simp: printed_def)
  have p2: "\<not> paging_on (kvm k2)" using printed_vm(2) [OF assms(1)] l(1) km by (simp add: k2)
  from setup_devices_ok [OF p2] obtain v i k3 where dev: "setup_devices e k2 = Some k3" "changes (region (be_freq e) 4) (kvm k2) v"
    and k3: "k3 = upd_term (vt k2) (\<lambda>t. t\<lparr>enter_flag := 1\<rparr>)
    (k2\<lparr>mach := (mach k2)\<lparr>vm := v, rate := 14, io := i, master_mask := ucast (ucast (master_mask (mach k2)) AND NOT 2 :: u32),
       slave_mask := ucast (ucast (slave_mask (mach k2)) AND NOT 1 :: u32)\<rparr>, buf_kb := (buf_kb k2)[127 := 0]\<rparr>)" by blast
  have c1: "changes screen_region (vm m) (vm m1)" "kvm k2 = vm m1" "kvm k3 = v" using m1 by (simp_all add: console_frame_def k2 k3)
  have ag: "agree A (vm m) v" if "A \<subseteq> kpage" "region (be_freq e) 4 \<inter> A = {}" for A
  proof (rule agree_trans [of _ _ "vm m1"])
    show "agree A (vm m) (vm m1)" by (rule agree_changes [OF c1(1) flat_apart [OF l(1)]]) (use that(1) screen_kpage in auto)
    show "agree A (vm m1) v" using agree_changes [OF dev(2) flat_apart [OF p2 that(2)]] c1(2) by simp
  qed
  have kfk: "kvm kf = vm m" "elf_buf kf = elf_buf k" "shell_name kf = shell_name k" using l(3) km by (auto simp: filesys_init_def split: Option.bind_splits)
  have k3k: "elf_buf k3 = elf_buf k" "shell_name k3 = shell_name k" by (simp_all add: k3 k2 m1(1))
  have "agree (region fs 12) (kvm k) (kvm k3)" using ag [OF l(5)] l(6) km c1(3) by auto
  from filesys_agree [OF l(3) this] obtain kf' where kf': "filesys_init fs k3 = Some kf'" "kvm kf' = v" "start_addr kf' = start_addr kf"
    "numinodes kf' = numinodes kf" "startdentry kf' = startdentry kf" "elf_buf kf' = elf_buf kf" "shell_name kf' = shell_name kf"
    using c1(3) kfk k3k by auto
  have sh: "has_shell kf' d eof blk hdr"
    by (rule shell_agree [OF l(4) _ kf'(3-7)]) (use ag [OF shell_area_kpage [OF l(4)]] l(6) kfk kf'(2) in auto)
  have "same_map (vm m) v" using changes_same_map [OF c1(1)] changes_same_map [OF dev(2)] c1(2) same_map_trans by metis
  then have p3: "\<not> paging_on (kvm k3)" "tables_placed (kvm k3)"
    using l(1,2) same_map_fields [of "vm m" v] by (simp_all add: tables_placed_def c1(3))
  have "mach k3 = m1\<lparr>vm := v, rate := 14, io := i, master_mask := ucast (ucast (master_mask m1) AND NOT 2 :: u32),
       slave_mask := ucast (ucast (slave_mask m1) AND NOT 1 :: u32)\<rparr>"
    by (simp add: k3 k2 m1(1))
  then have mm: "master_mask (mach k3) = ucast (ucast (master_mask m) AND NOT 2 :: u32)" "slave_mask (mach k3) = ucast (ucast (slave_mask m) AND NOT 1 :: u32)"
    "cursor_ok (mach k3) = cursor_ok m1"
    using m1(2) by (simp_all add: console_frame_def cursor_ok_def)
  have "cursor_ok m1" using m1(3) unfolding has_screen_def displays_def by blast
  with mm show ?thesis using km
    by (intro that [OF dev(1) p3 kf'(1) sh]) (simp_all add: k3 k2 m1(1) k zero_kernel_def)
qed

lemma entry_setup_ok:
  assumes "printed k k1" and "loaded e k mbi fs d eof blk hdr" and "b_kernel b = k1" and "modStartTemp b = fs"
  shows "\<exists>k'. entry_setup e b = Some (Idle, (setup_tss e (setup_ldt e b))\<lparr>b_idt := setup_idt_inplace (be_addr_of e) (b_idt b), b_kernel := k'\<rparr>) \<and>
    boot_ok 0 d eof blk hdr k' \<and> visible k' = 0 \<and> iflag (mach k') \<and> (\<forall>i < 3. saved k' i = fresh_session) \<and>
    ss0 (tss k') = KERNEL_DS \<and> esp0 (tss k') = 0x800000 \<and>
    (\<forall>i. bit (master_mask (mach k')) i \<longleftrightarrow> bit (master_mask (mach k)) i \<and> 2 \<le> i) \<and>
    (\<forall>i. bit (slave_mask (mach k')) i \<longleftrightarrow> bit (slave_mask (mach k)) i \<and> 1 \<le> i)"
proof -
  define k2 where "k2 = b_kernel (setup_tss e (setup_ldt e b))"
  have k2: "k2 = k1\<lparr>tss := (tss k1)\<lparr>ldt_segment_selector := KERNEL_LDT, ss0 := KERNEL_DS, esp0 := 0x800000\<rparr>\<rparr>"
    by (simp add: k2_def setup_tss_def setup_ldt_def Let_def assms(3))
  from devices_loaded [OF assms(1,2) k2] obtain k3 kf where d: "setup_devices e k2 = Some k3" "\<not> paging_on (kvm k3)" "tables_placed (kvm k3)"
    "filesys_init fs k3 = Some kf" "has_shell kf d eof blk hdr"
    and c3: "cursor_ok (mach k3)" "tss k3 = tss k2" "curr_idx k3 = 0" "num_chars k3 = 0" "save_x k3 = 0" "save_y k3 = 0"
    "previous_num_chars k3 = 0" "length (previous_buf k3) = 128" "length (buf_kb k3) = 128" "length (flag_arr k3) = 5" and m3: "master_mask (mach k3) = ucast (ucast (master_mask (mach k)) AND NOT 2 :: u32)"
    "slave_mask (mach k3) = ucast (ucast (slave_mask (mach k)) AND NOT 1 :: u32)" .
  have fs: "region fs 12 \<subseteq> kpage" using assms(2) by (auto simp: loaded_def)
  obtain k' where k': "setup_system fs k3 = Some k'" "real_screen (kvm k')" "has_shell k' d eof blk hdr" "cur_terminal k' = 2" "visible k' = 0"
    "pitCount k' = 0" "\<forall>i < 3. saved k' i = fresh_session \<and> curr_process (terminals k' i) = -1 \<and> video_buffer (terminals k' i) = pa (Suc i)"
    "\<forall>i. 0 \<le> i \<and> i < 6 \<longrightarrow> pid_free k' i" "iflag (mach k')" "tss k' = tss k3"
    and s: "screen_x (mach k') = screen_x (mach k3)" "screen_y (mach k') = screen_y (mach k3)" "curr_idx k' = curr_idx k3" "num_chars k' = num_chars k3"
    "save_x k' = save_x k3" "save_y k' = save_y k3" "previous_num_chars k' = previous_num_chars k3"
    "previous_buf k' = previous_buf k3" "buf_kb k' = buf_kb k3" "flag_arr k' = flag_arr k3"
    and mm: "master_mask (mach k') = ucast (ucast (master_mask (mach k3)) AND NOT 1 :: u32)" "slave_mask (mach k') = slave_mask (mach k3)"
    using setup_system_ok [OF d(2-4) fs d(5)] by (elim exE conjE) rule
  have so: "screens_ok k'"
    unfolding screens_ok_def live_bytes_def using k'(2,5,7) s c3 by (simp add: cursor_ok_def NUM_COLS_def NUM_ROWS_def)
  have "(uint (t_screen_x (terminals k' j)), uint (t_screen_y (terminals k' j))) = (0, 0)" if "j < 3" for j
    using k'(7) that by (simp add: saved_def fresh_session_def Let_def)
  then have co: "cursors_ok k'" using s(1,2) c3(1) by (simp add: cursors_ok_def cursor_ok_def)
  have "edit_ok (edit_state k' j)" if "j < 3" for j
  proof (cases "j = vt k'")
    case True
    then show ?thesis using s c3 by (simp add: edit_state_def)
  next
    case False
    then show ?thesis using k'(7) that by (simp add: edit_state_session session_def fresh_session_def)
  qed
  then have "lines_empty k'" using s c3 by (simp add: lines_empty_def)
  then have bo: "boot_ok 0 d eof blk hdr k'" using so co k'(3,4,6,7,8) by (simp add: boot_ok_def)
  have "entry_setup e b = Some (Idle, (setup_tss e (setup_ldt e b))\<lparr>b_idt := setup_idt_inplace (be_addr_of e) (b_idt b), b_kernel := k'\<rparr>)"
    using d(1) k'(1) assms(4)
    by (simp add: entry_setup_def Let_def k2_def [symmetric]) (simp add: setup_tss_def setup_ldt_def Let_def)
  moreover have "tss k' = (tss k1)\<lparr>ldt_segment_selector := KERNEL_LDT, ss0 := KERNEL_DS, esp0 := 0x800000\<rparr>" using k'(10) c3(2) k2 by simp
  moreover have "bit (master_mask (mach k')) i \<longleftrightarrow> bit (master_mask (mach k)) i \<and> 2 \<le> i"
    "bit (slave_mask (mach k')) i \<longleftrightarrow> bit (slave_mask (mach k)) i \<and> 1 \<le> i" for i unfolding mm m3 by (rule mask_bits)+
  ultimately show ?thesis using k'(5,7,9) bo by (intro exI [of _ k']) simp
qed

lemma entry_rejects:
  assumes "has_screen (mach (b_kernel b))" and "magic \<noteq> MULTIBOOT_BOOTLOADER_MAGIC"
  shows "\<exists>k. entry e magic mbi b = Some (Returned, b\<lparr>b_kernel := k\<rparr>) \<and> printed (b_kernel b) k"
proof -
  let ?k = "b_kernel b"
  obtain con where "displays (mach ?k) con" using assms(1) unfolding has_screen_def by blast
  then obtain m0 where m0: "clear (mach ?k) = Some m0" "console_frame (mach ?k) m0" "has_screen m0"
    using clear_keeps [OF displays_cellsI] unfolding keeps_console_def has_screen_def by blast
  define k0 where "k0 = ?k\<lparr>mach := m0\<rparr>"
  have k0: "on_mach clear ?k = Some k0" "printed ?k k0" "has_screen (mach k0)" using m0 by (auto simp: on_mach_def k0_def printed_def)
  have "fmt_ok False False (map of_char (''Invalid magic number: 0x%#x'' @ [CHR 0x0A]))" by simp
  from printf_args_ok [OF this k0(3), of "[magic]"] obtain k' where
    "printf_args (''Invalid magic number: 0x%#x'' @ [CHR 0x0A]) [magic] k0 = Some k'" "printed k0 k'" by blast
  then show ?thesis using k0(1,2) assms(2) printed_trans by (auto simp: entry_def simp del: append.simps)
qed

lemma entry_idles:
  assumes "loaded e (b_kernel b) mbi fs d eof blk hdr"
  shows "\<exists>b'. entry e MULTIBOOT_BOOTLOADER_MAGIC mbi b = Some (Idle, b') \<and> boot_ok 0 d eof blk hdr (b_kernel b')"
proof -
  have h: "has_screen (mach (b_kernel b))" "\<not> paging_on (kvm (b_kernel b))" "multiboot_ok (kvm (b_kernel b)) mbi fs"
    using assms by (auto simp: loaded_def)
  obtain k where k: "printed (b_kernel b) k" "entry e MULTIBOOT_BOOTLOADER_MAGIC mbi b = entry_setup e (b\<lparr>b_kernel := k, modStartTemp := fs\<rparr>)"
    using entry_reports [OF h, of e] by blast
  from entry_setup_ok [OF k(1) assms, of "b\<lparr>b_kernel := k, modStartTemp := fs\<rparr>"] show ?thesis unfolding k(2) by auto
qed

lemma tss_descriptor:
  "cpu_base (seg_val (tss_desc_ptr (setup_tss e b))) = be_tss e" "cpu_limit (seg_val (tss_desc_ptr (setup_tss e b))) = 103"
  "cpu_base (seg_val (ldt_desc_ptr (setup_ldt e b))) = be_ldt e" "cpu_limit (seg_val (ldt_desc_ptr (setup_ldt e b))) = 31"
  by (simp_all add: setup_tss_def setup_ldt_def Let_def set_params_base, simp_all add: set_params_limit tss_size_def ldt_size_def)

text \<open>
  C1: the kernel boots.  Started with a wrong magic number, \<open>entry\<close> only prints a message and
  returns.  Started by a multiboot loader that passes a readable information structure and a first
  module with the file system, on a machine with paging off, \<open>entry\<close> runs to its final idle loop
  without a fault and whatever the devices answer: every gate of the interrupt table is set, the
  descriptors of the task state segment and of the local descriptor table have the base and the
  limit of those objects, the task state segment names the kernel's stack, interrupts are on with
  exactly the lines 0, 1 and 8 unmasked in addition to those that already were, the three
  terminals are fresh and no process exists.  The first timer tick then leaves for user mode at
  the entry point of the shell, as process 0 in its own frame.
\<close>

theorem entry_boots:
  assumes "loaded e (b_kernel b) mbi fs d eof blk hdr"
  shows "(\<forall>magic. magic \<noteq> MULTIBOOT_BOOTLOADER_MAGIC \<longrightarrow> (\<exists>k. entry e magic mbi b = Some (Returned, b\<lparr>b_kernel := k\<rparr>) \<and> printed (b_kernel b) k)) \<and>
    (\<exists>b'. entry e MULTIBOOT_BOOTLOADER_MAGIC mbi b = Some (Idle, b') \<and>
      b_idt b' = setup_idt_inplace (be_addr_of e) (b_idt b) \<and>
      b_tr b' = KERNEL_TSS \<and> cpu_base (seg_val (tss_desc_ptr b')) = be_tss e \<and> cpu_limit (seg_val (tss_desc_ptr b')) = 103 \<and>
      b_ldtr b' = KERNEL_LDT \<and> cpu_base (seg_val (ldt_desc_ptr b')) = be_ldt e \<and> cpu_limit (seg_val (ldt_desc_ptr b')) = 31 \<and>
      ss0 (tss (b_kernel b')) = KERNEL_DS \<and> esp0 (tss (b_kernel b')) = 0x800000 \<and> iflag (mach (b_kernel b')) \<and>
      (\<forall>i. bit (master_mask (mach (b_kernel b'))) i \<longleftrightarrow> bit (master_mask (mach (b_kernel b))) i \<and> 2 \<le> i) \<and>
      (\<forall>i. bit (slave_mask (mach (b_kernel b'))) i \<longleftrightarrow> bit (slave_mask (mach (b_kernel b))) i \<and> 1 \<le> i) \<and>
      visible (b_kernel b') = 0 \<and> (\<forall>i < 3. saved (b_kernel b') i = fresh_session) \<and> boot_ok 0 d eof blk hdr (b_kernel b') \<and>
      (\<exists>k1. pit_handler rl (b_kernel b') = Some (To_user (user_entry hdr), k1) \<and> boot_ok 1 d eof blk hdr k1 \<and>
        page_directory (kvm k1) 32 = proc_pde 0))" (is "_ \<and> ?booted")
proof (intro conjI allI impI)
  have h: "has_screen (mach (b_kernel b))" "\<not> paging_on (kvm (b_kernel b))" "multiboot_ok (kvm (b_kernel b)) mbi fs"
    using assms by (auto simp: loaded_def)
  show "\<exists>k. entry e magic mbi b = Some (Returned, b\<lparr>b_kernel := k\<rparr>) \<and> printed (b_kernel b) k" if "magic \<noteq> MULTIBOOT_BOOTLOADER_MAGIC" for magic
    by (rule entry_rejects [OF h(1) that])
  obtain k where k: "printed (b_kernel b) k" "entry e MULTIBOOT_BOOTLOADER_MAGIC mbi b = entry_setup e (b\<lparr>b_kernel := k, modStartTemp := fs\<rparr>)"
    using entry_reports [OF h, of e] by blast
  let ?b = "b\<lparr>b_kernel := k, modStartTemp := fs\<rparr>"
  obtain k' where k': "entry_setup e ?b = Some (Idle, (setup_tss e (setup_ldt e ?b))\<lparr>b_idt := setup_idt_inplace (be_addr_of e) (b_idt b), b_kernel := k'\<rparr>)"
    and b: "boot_ok 0 d eof blk hdr k'" and p: "visible k' = 0" "iflag (mach k')" "\<forall>i < 3. saved k' i = fresh_session" "ss0 (tss k') = KERNEL_DS"
      "esp0 (tss k') = 0x800000" "\<forall>i. bit (master_mask (mach k')) i \<longleftrightarrow> bit (master_mask (mach (b_kernel b))) i \<and> 2 \<le> i"
      "\<forall>i. bit (slave_mask (mach k')) i \<longleftrightarrow> bit (slave_mask (mach (b_kernel b))) i \<and> 1 \<le> i"
    using entry_setup_ok [OF k(1) assms, of ?b] by auto
  obtain k1 where k1: "pit_handler rl k' = Some (To_user (user_entry hdr), k1)" "boot_ok 1 d eof blk hdr k1" "page_directory (kvm k1) 32 = proc_pde 0"
    using boot_step [OF b, of rl] by auto
  have "ldt_desc_ptr (setup_tss e b) = ldt_desc_ptr b" "b_ldtr (setup_tss e b) = b_ldtr b" "b_tr (setup_tss e b) = KERNEL_TSS"
    "b_ldtr (setup_ldt e b) = KERNEL_LDT" for b by (simp_all add: setup_tss_def setup_ldt_def Let_def)
  then show ?booted
    unfolding k(2) k' using b p k1
    by (intro exI [of _ "(setup_tss e (setup_ldt e ?b))\<lparr>b_idt := setup_idt_inplace (be_addr_of e) (b_idt b), b_kernel := k'\<rparr>"])
      (simp add: tss_descriptor)
qed

text \<open>An image with a multiboot structure at 0x9000, its module record at 0x9100 and the file system at 0x410000.\<close>

definition sample_image :: "u32 \<Rightarrow> u8" where
  "sample_image = sample_elf(0x9000 := 8, 0x9014 := 1, 0x9019 := 0x91, 0x9102 := 0x41)"

definition sample_env0 :: boot_env where
  "sample_env0 = \<lparr>be_dev = (\<lambda>_ _. 0), be_addr_of = (\<lambda>_. 0x400100), be_ldt = 0x40A000, be_tss = 0x40A100, be_freq = 0x7FFF00,
     be_seg = seg_of_val (0, 0)\<rparr>"

definition sample_start :: boot_state where
  "sample_start = \<lparr>b_kernel = zero_kernel (flat_machine sample_image) 0x7FFFF0 0x7FF000 0x420000, b_idt = zero_idt,
     ldt_desc_ptr = seg_of_val (0, 0), tss_desc_ptr = seg_of_val (0, 0), b_ldtr = 0, b_tr = 0, modStartTemp = 0\<rparr>"

lemma sample_image_elf: "0x400000 \<le> unat a \<Longrightarrow> sample_image a = sample_elf a"
  by (auto simp: sample_image_def)

lemma sample_loaded: "loaded sample_env0 (b_kernel sample_start) 0x9000 0x410000 sample_dentry 28 (\<lambda>_. 0) sample_hdr"
proof -
  let ?m = "flat_machine sample_image" and ?k = "b_kernel sample_start"
  define kf where "kf = ?k\<lparr>start_addr := 0x410000, numdentries := 1, numinodes := 1, numblocks := 1, startdentry := 0x410040, curfile := 1\<rparr>"
  have k: "?k = zero_kernel ?m 0x7FFFF0 0x7FF000 0x420000" by (simp add: sample_start_def)
  have r: "ld32 (flat_vmem sample_image) 0x9000 = Some 8" "ld32 (flat_vmem sample_image) 0x9018 = Some 0x9100"
    "ld32 (flat_vmem sample_image) 0x9100 = Some 0x410000" "ld32 (flat_vmem sample_image) 0x410000 = Some 1"
    "ld32 (flat_vmem sample_image) 0x410004 = Some 1" "ld32 (flat_vmem sample_image) 0x410008 = Some 1"
    by (simp_all add: ld32_flat sample_image_def sample_elf_def word_of_bytes_def)
  have flags: "check_flag 8 3" "\<not> check_flag 8 4" "\<not> check_flag 8 2" "\<not> check_flag 8 6" by (simp_all add: check_flag_def)
  have mb: "multiboot_ok (flat_vmem sample_image) 0x9000 0x410000"
    unfolding multiboot_ok_def
    using r(1-3) flags region_disjoint [of "0x9000" 52 VIDEO 4000] region_disjoint [of "0x9100" 4 VIDEO 4000]
    by (simp add: mbi_flags_def mbi_mods_addr_def mod_start_def VIDEO_def Int_commute)
  have fs: "filesys_init 0x410000 ?k = Some kf" using r(4-6) by (simp add: filesys_init_def kf_def k)
  have sb: "has_shell sample_boot sample_dentry 28 (\<lambda>_. 0) sample_hdr" using sample_boot_ok by (simp add: boot_ok_def)
  have sbf: "start_addr sample_boot = 0x410000" "numinodes sample_boot = 1" "startdentry sample_boot = 0x410040" "elf_buf sample_boot = 0x7FF000"
    "shell_name sample_boot = 0x420000" by (simp_all add: sample_boot_def) (simp add: sample_exec_def zero_kernel_def)
  have kff: "kvm kf = flat_vmem sample_image" "start_addr kf = 0x410000" "numinodes kf = 1" "startdentry kf = 0x410040" "elf_buf kf = 0x7FF000"
    "shell_name kf = 0x420000" by (simp_all add: kf_def k) (simp_all add: zero_kernel_def)
  have "ld8 (flat_vmem sample_image) a = ld8 (kvm sample_boot) a \<and> translate (flat_vmem sample_image) a = translate (kvm sample_boot) a"
    if a: "a \<in> kpage" for a
  proof -
    have "unat (drop_bit 22 a) = 1" using a by (simp add: kpage_def)
    then have "0x400000 \<le> unat a" by (simp only: unat_drop_bit_eq) (simp add: drop_bit_eq_div)
    then show ?thesis using flat_agree [of sample_elf] a sample_image_elf [of a] by (simp add: agree_def sample_boot_def)
  qed
  then have ag: "agree kpage (kvm sample_boot) (kvm kf)" by (simp add: agree_def kff(1))
  have sh: "has_shell kf sample_dentry 28 (\<lambda>_. 0) sample_hdr"
    by (rule shell_agree [OF sb agree_mono [OF ag shell_area_kpage [OF sb]]]) (simp_all only: kff sbf)
  have nb: "nblocks 28 = 1" by (simp add: nblocks_def)
  have sa: "shell_area kf sample_dentry 28 (\<lambda>_. 0) \<subseteq> region 0x410000 0x10080"
    using region_sub [of "0x1000" 4096 "0x10080" "0x410000"] region_sub [of "0x2000" 4096 "0x10080" "0x410000"]
      region_sub [of "0x40" 4096 "0x10080" "0x410000"] region_sub [of "0x10000" 128 "0x10080" "0x410000"]
    by (simp add: shell_area_def file_area_def nb inode_addr_def data_base_def lessThan_Suc kff sample_dentry_def)
  have "region (0x410000 :: addr) 0x10080 \<inter> region 0x7FFF00 4 = {}" by (rule region_disjoint) simp_all
  then have dj: "region 0x7FFF00 4 \<inter> (shell_area kf sample_dentry 28 (\<lambda>_. 0) \<union> region 0x410000 12) = {}"
    using sa region_mono [of 12 "0x10080" "0x410000"] by auto
  have sc: "has_screen ?m" using flat_displays [of sample_image] unfolding has_screen_def by blast
  have tp: "tables_placed (flat_vmem sample_image)" "\<not> paging_on (flat_vmem sample_image)" by (simp_all add: tables_placed_def flat_vmem_def)
  show ?thesis
    unfolding loaded_def
    by (intro exI [of _ ?m] exI [of _ "0x7FFFF0"] exI [of _ "0x7FF000"] exI [of _ "0x420000"] exI [of _ kf] conjI)
      (use k sc tp mb fs sh dj kpage_region [of "0x410000" 12] in \<open>simp_all add: sample_env0_def\<close>)
qed

theorem entry_boots_witness:
  "(\<exists>k. entry sample_env0 0 0x9000 sample_start = Some (Returned, sample_start\<lparr>b_kernel := k\<rparr>)) \<and>
   (\<exists>b'. entry sample_env0 MULTIBOOT_BOOTLOADER_MAGIC 0x9000 sample_start = Some (Idle, b') \<and> cpu_base (seg_val (tss_desc_ptr b')) = 0x40A100 \<and>
     iflag (mach (b_kernel b')) \<and> (\<exists>k1. pit_handler 0x401234 (b_kernel b') = Some (To_user (user_entry sample_hdr), k1)))"
proof -
  note t = entry_boots [OF sample_loaded, of "0x401234"]
  have "(0 :: u32) \<noteq> MULTIBOOT_BOOTLOADER_MAGIC" by (simp add: MULTIBOOT_BOOTLOADER_MAGIC_def)
  with conjunct1 [OF t] have "\<exists>k. entry sample_env0 0 0x9000 sample_start = Some (Returned, sample_start\<lparr>b_kernel := k\<rparr>)" by blast
  moreover have "be_tss sample_env0 = 0x40A100" by (simp add: sample_env0_def)
  ultimately show ?thesis using conjunct2 [OF t] by auto
qed

end
