(* ===== verification/System.thy ===== *)
theory System
  imports Kernel
begin

text \<open>
  The running system as a step relation: the timer, the keyboard and the clock interrupt the
  program of the scheduled terminal, and the program runs between them.  The invariants of the
  scheduler (theory \<open>Scheduler\<close>) and of the line editor (theory \<open>Keyboard\<close>) hold in every reachable
  state, and no sequence of interrupts reaches the memory of the kernel or of another program.
\<close>

section \<open>The steps\<close>

text \<open>
  A key press is a scan code of the keyboard; the Up key is left out, since it can fault
  (see \<open>up_key_recalls\<close>).  A tick is one of the scheduler, after the three shells were started.
\<close>

inductive system_step :: "u32 \<Rightarrow> kernel \<Rightarrow> kernel \<Rightarrow> bool" for rl where
  user: "user_run k k' \<Longrightarrow> system_step rl k k'"
| tick: "pit_handler rl k = Some (Returns n, k') \<Longrightarrow> system_step rl k k'"
| key: "keyboard_handler (kbd sc) stack k = Some k' \<Longrightarrow> sc \<noteq> 0x48 \<Longrightarrow> system_step rl k k'"
| clock: "system_step rl k (upd_mach (rtc_handler dev) k)"

inductive_cases system_stepE: "system_step rl k k'"

section \<open>Frames of physical memory\<close>

definition video_frame :: "u32 \<Rightarrow> bool" where
  "video_frame p \<longleftrightarrow> drop_bit 12 p \<in> {0xB8, 0xB9, 0xBA, 0xBB}"

definition kernel_frame :: "u32 \<Rightarrow> bool" where
  "kernel_frame p \<longleftrightarrow> drop_bit 22 p = 1"

definition frame_of :: "int \<Rightarrow> u32 \<Rightarrow> bool" where
  "frame_of pid p \<longleftrightarrow> drop_bit 22 p = word_of_int (pid + 2)"

lemma frames_apart:
  assumes "0 \<le> pid" and "pid < 6" and "frame_of pid p"
  shows "\<not> kernel_frame p" "\<not> video_frame p" "0 \<le> pid' \<Longrightarrow> pid' < 6 \<Longrightarrow> frame_of pid' p \<Longrightarrow> pid' = pid"
proof -
  have d: "drop_bit 22 p = word_of_int (pid + 2)" using assms(3) by (simp add: frame_of_def)
  have s: "sint (word_of_int (q + 2) :: u32) = q + 2" if "0 \<le> q" "q < 6" for q
    using that s32_id [of "q + 2"] by (simp add: s32_def)
  have n: "(word_of_int (pid + 2) :: u32) \<noteq> 0" "(word_of_int (pid + 2) :: u32) \<noteq> 1"
  proof -
    show "(word_of_int (pid + 2) :: u32) \<noteq> 1" by (rule proc_frame(2) [OF assms(1,2)])
    show "(word_of_int (pid + 2) :: u32) \<noteq> 0"
    proof
      assume e: "(word_of_int (pid + 2) :: u32) = 0"
      show False using s [OF assms(1,2)] assms(1) unfolding e by simp
    qed
  qed
  show "\<not> kernel_frame p" using n(2) by (simp only: kernel_frame_def d not_False_eq_True)
  show "\<not> video_frame p"
  proof
    assume "video_frame p"
    then have "drop_bit 12 p = 0xB8 \<or> drop_bit 12 p = 0xB9 \<or> drop_bit 12 p = 0xBA \<or> drop_bit 12 p = 0xBB"
      by (simp only: video_frame_def insert_iff empty_iff simp_thms)
    moreover have "drop_bit 22 p = drop_bit 10 (drop_bit 12 p)" by (simp only: drop_bit_drop_bit) simp
    ultimately have "drop_bit 22 p = 0" by (elim disjE) (simp_all only: , simp_all)
    with n(1) show False by (simp only: d)
  qed
  assume q: "0 \<le> pid'" "pid' < 6" "frame_of pid' p"
  then have "(word_of_int (pid' + 2) :: u32) = word_of_int (pid + 2)" using d by (simp only: frame_of_def)
  then have "sint (word_of_int (pid' + 2) :: u32) = sint (word_of_int (pid + 2) :: u32)" by (simp only:)
  then show "pid' = pid" unfolding s [OF q(1,2)] s [OF assms(1,2)] by simp
qed

lemma kernel_video_apart: "kernel_frame p \<Longrightarrow> \<not> video_frame p"
proof
  assume k: "kernel_frame p" and "video_frame p"
  then have "drop_bit 12 p = 0xB8 \<or> drop_bit 12 p = 0xB9 \<or> drop_bit 12 p = 0xBA \<or> drop_bit 12 p = 0xBB"
    by (simp only: video_frame_def insert_iff empty_iff simp_thms)
  moreover have "drop_bit 22 p = drop_bit 10 (drop_bit 12 p)" by (simp only: drop_bit_drop_bit) simp
  ultimately have "drop_bit 22 p = 0" by (elim disjE) (simp_all only: , simp_all)
  with k show False by (simp only: kernel_frame_def) simp
qed

section \<open>Ticks\<close>

lemma tick_keeps_editor:
  assumes "3 < pitCount k" and "pit_handler rl k = Some (Returns n, k')"
  shows "\<forall>i. edit_state k' i = edit_state k i" "flag_arr k' = flag_arr k" "\<forall>i. video_buffer (terminals k' i) = video_buffer (terminals k i)"
proof -
  obtain m where m: "test_interrupts (uint (pitIntrCount k + 1)) (mach k) = Some m"
    using assms(2) by (auto simp: pit_handler_def Let_def on_mach_def split: Option.bind_splits)
  have k': "k' = load_task ((save_task (k\<lparr>pitIntrCount := pitIntrCount k + 1, mach := m\<rparr>))\<lparr>cur_terminal := next_terminal (cur_terminal k)\<rparr>)"
    using tick_unfold [OF assms(1) m, of rl] assms(2) by simp
  show "flag_arr k' = flag_arr k" "\<forall>i. video_buffer (terminals k' i) = video_buffer (terminals k i)" "\<forall>i. edit_state k' i = edit_state k i"
    by (simp_all add: k' edit_state_def load_task_fields save_task_fields Let_def)
      (simp_all add: load_task_def save_task_def map_current_video_def Let_def)
qed

lemma tick_sys_inv:
  assumes "sys_inv k" and "pit_handler rl k = Some (Returns n, k')"
  shows "sys_inv k'" "\<forall>i < 3. task_ctx k' i = task_ctx k i" "\<forall>i. edit_state k' i = edit_state k i"
    "\<not> video_frame p \<Longrightarrow> pmem (kvm k') p = pmem (kvm k) p"
proof -
  have ok: "tasks_ok k" and kb: "kb_inv k" and pc: "3 < pitCount k" and c: "ct k < 3" using assms(1) by (simp_all add: sys_inv_def tasks_ok_def)
  have t: "tasks_ok k'" "visible k' = visible k" "\<forall>i < 3. task_ctx k' i = task_ctx k i" "page_directory (kvm k') 32 = proc_pde (cur_process k')"
    "\<forall>p. \<not> bit p 0 \<or> drop_bit 12 p \<noteq> drop_bit 12 (video_pte (cur_terminal k) (visible k)) \<longrightarrow> pmem (kvm k') p = pmem (kvm k) p"
    using tick_ok [OF ok, of rl] assms(2) by auto
  note ed = tick_keeps_editor [OF pc assms(2)]
  show "\<forall>i < 3. task_ctx k' i = task_ctx k i" "\<forall>i. edit_state k' i = edit_state k i" by (fact t(3) ed(1))+
  have "\<forall>i < 3. state_ok k' i" using kb t(3) ed(1) by (simp add: kb_inv_iff state_ok_def cursor_of_def)
  moreover have "cursor_ok (mach k')"
    using t(1) by (auto simp: tasks_ok_def task_ctx_def Let_def cursor_ok_def NUM_COLS_def NUM_ROWS_def)
  ultimately have "kb_inv k'" using kb t(1,2) ed(2,3) by (simp add: kb_inv_iff tasks_ok_def)
  then show "sys_inv k'" using t(1,4) by (simp add: sys_inv_def)
  have vf: "drop_bit 12 (video_pte (cur_terminal k) (visible k)) \<in> {0xB8, 0xB9, 0xBA, 0xBB}"
    using u8_cases3 [OF c] by (auto simp: video_pte_def)
  assume "\<not> video_frame p"
  then have "drop_bit 12 p \<noteq> drop_bit 12 (video_pte (cur_terminal k) (visible k))" using vf unfolding video_frame_def by metis
  then show "pmem (kvm k') p = pmem (kvm k) p" using t(5) by blast
qed

section \<open>Keys\<close>

lemma key_frame_sys_inv:
  assumes "sys_inv k" and "kb_inv k'" and "key_frame k k'" and "page_directory (kvm k') = page_directory (kvm k)"
  shows "sys_inv k'" "\<not> video_frame p \<Longrightarrow> pmem (kvm k') p = pmem (kvm k) p"
proof -
  have ok: "tasks_ok k" and pd: "page_directory (kvm k) 32 = proc_pde (cur_process k)" and l: "layout (kvm k)" and c: "ct k < 3"
    using assms(1) by (simp_all add: sys_inv_def tasks_ok_def)
  have pt: "page_table (kvm k') 0xB8 = video_pte (cur_terminal k') (visible k')"
  proof (cases "kvm k' = kvm k")
    case True
    then show ?thesis using ok assms(3) by (simp add: tasks_ok_def key_frame_def)
  next
    case False
    then show ?thesis using assms(3) video_pte_video_page [OF c, of "visible k"] by (auto simp: key_frame_def)
  qed
  then show "sys_inv k'"
    using assms(2-4) ok pd by (intro sys_invI) (simp_all add: key_frame_def tasks_ok_def)
  show "pmem (kvm k') p = pmem (kvm k) p" if "\<not> video_frame p"
  proof (cases "kvm k' = kvm k")
    case False
    then obtain v where v: "changes screen_region (map_video_page 0 (kvm k)) v" "pmem (kvm k') = pmem v"
      using assms(3) by (auto simp: key_frame_def map_video_page_def)
    have "drop_bit 12 p \<noteq> 0xB8 + ucast (0 :: u8)" using that by (auto simp: video_frame_def)
    then show ?thesis unfolding v(2) by (intro changes_screen_frame [OF l _ v(1)]) simp_all
  qed simp
qed

lemma page_changes_frame:
  assumes "real_screen v" and "i < 4" and "changes (region (pa i) 4096) v v'" and "\<not> video_frame p"
  shows "pmem v' p = pmem v p"
proof -
  have "translate v a \<noteq> Some p" if "a \<in> region (pa i) 4096" for a
    using translate_pages [OF assms(1) pa_page(2) [OF assms(2) that]] pa_page(2) [OF assms(2) that] assms(4) unfolding video_frame_def by (metis option.inject)
  then show ?thesis using assms(3) unfolding changes_def by blast
qed

text \<open>A switch of terminals copies video pages and changes the tables that map them.\<close>

definition video_only :: "vmem \<Rightarrow> vmem \<Rightarrow> bool" where
  "video_only v v' \<longleftrightarrow> page_directory v' = page_directory v \<and> (\<forall>p. \<not> video_frame p \<longrightarrow> pmem v' p = pmem v p)"

lemma video_only_trans: "video_only u v \<Longrightarrow> video_only v w \<Longrightarrow> video_only u w"
  by (simp add: video_only_def)

lemma video_only_upte: "video_only v (set_upte i e v)"
  by (simp add: video_only_def)

lemma video_only_copy:
  assumes "real_screen v" and "i < 4" and "j < 4" and "i \<noteq> j" and "memcpy v (pa i) (pa j) 4096 = Some v'"
  shows "video_only v v'"
proof -
  note ch = page_copy_changes [OF assms]
  show ?thesis
    using page_changes_frame [OF assms(1,2) ch] same_map_fields [OF changes_same_map [OF ch]] by (simp add: video_only_def)
qed

lemma save_terminal_video:
  assumes "screens_ok k" and "i < 3" and "save_terminal i k = Some k'"
  shows "video_only (kvm k) (kvm k')"
proof -
  have r: "real_screen (kvm k)" and vb: "video_buffer (terminals k i) = pa (Suc i)" using assms by (auto simp: screens_ok_def)
  let ?v = "set_upte i (pa (Suc i) OR 7) (kvm k)"
  have "word_of_nat (Suc i) < (4 :: u32)" using assms(2) by (simp add: word_less_nat_alt unat_word_of_nat_u32 del: of_nat_Suc)
  then have rv: "real_screen ?v" using set_upte_pages(1) [OF r, of i "word_of_nat (Suc i)"] pa_entry(1) [of "Suc i" 7] assms(2) by simp
  from assms(3) vb obtain v' where m: "memcpy ?v (pa (Suc i)) VIDEO_MEM 4096 = Some v'" and f: "kvm k' = v'"
    by (auto simp: save_terminal_def on_vm_def Let_def split: Option.bind_splits)
  have "video_only ?v v'" using video_only_copy [OF rv _ _ _ m [folded pa_entry(2)]] assms(2) by simp
  then show ?thesis unfolding f by (rule video_only_trans [OF video_only_upte])
qed

lemma restore_terminal_video:
  assumes "real_screen (kvm k)" and "i < 3" and "video_buffer (terminals k i) = pa (Suc i)" and "restore_terminal i k = Some k'"
  shows "video_only (kvm k) (kvm k')"
proof -
  from assms(3,4) obtain v' where m: "memcpy (kvm k) VIDEO_MEM (pa (Suc i)) 4096 = Some v'" and f: "kvm k' = set_upte i (VIDEO_MEM OR 7) v'"
    by (auto simp: restore_terminal_def on_vm_def Let_def set_cursor_def set_screenxy_def set_curr_idx_def set_num_chars_def
      set_save_x_def set_save_y_def set_previous_num_chars_def set_previous_buf_def split: Option.bind_splits)
  have "video_only (kvm k) v'" using video_only_copy [OF assms(1) _ _ _ m [folded pa_entry(2)]] assms(2) by simp
  then show ?thesis unfolding f using video_only_upte by (rule video_only_trans)
qed

lemma switch_terminal_video:
  assumes "screens_ok k" and "unat d < 3" and "switch_terminal d k = Some k'"
  shows "video_only (kvm k) (kvm k')"
proof (cases "d = visible k")
  case True
  then show ?thesis using assms(3) by (simp add: switch_terminal_def video_only_def)
next
  case False
  have g: "\<not> 3 < d" using assms(2) by (simp add: word_less_nat_alt)
  have v: "vt k < 3" using assms(1) by (simp add: screens_ok_def)
  obtain k1 where k1: "save_terminal (vt k) k = Some k1" "real_screen (kvm k1)"
    "\<forall>j. video_buffer (terminals k1 j) = video_buffer (terminals k j)"
    using save_terminal_ok [OF assms(1) v] by auto
  from assms(3) False g k1(1) obtain k2 where k2: "restore_terminal (unat d) k1 = Some k2" "kvm k' = kvm k2"
    by (auto simp: switch_terminal_def split: Option.bind_splits)
  have vb: "video_buffer (terminals k1 (unat d)) = pa (Suc (unat d))" using k1(3) assms(1,2) by (simp add: screens_ok_def)
  show ?thesis
    unfolding k2(2) using save_terminal_video [OF assms(1) v k1(1)] restore_terminal_video [OF k1(2) assms(2) vb k2(1)] by (rule video_only_trans)
qed

lemma switch_sys_inv:
  assumes inv: "sys_inv k" and op: "decode (flag_arr k) len (scan_code dev k) = Switch d" and h: "keyboard_handler dev stack k = Some k'"
  shows "sys_inv k'" "\<forall>i < 3. curr_process (terminals k' i) = curr_process (terminals k i)"
    "\<not> video_frame p \<Longrightarrow> pmem (kvm k') p = pmem (kvm k) p" "cur_terminal k' = cur_terminal k"
proof -
  have kb: "kb_inv k" and ok: "tasks_ok k" and pd: "page_directory (kvm k) 32 = proc_pde (cur_process k)" using inv by (simp_all add: sys_inv_def)
  obtain b es b' es' k1 where k': "kb_inv k'" "visible k' = d" "unat d < 3" "cur_terminal k' = cur_terminal k"
    "switch_terminal d (enter_editor (quiet b es k)) = Some k1" "k' = quiet b' es' (leave_editor k1)"
    using handler_switches [where dev = dev and k = k and len = len and d = d and stack = stack] kb op h by auto
  let ?e = "enter_editor (quiet b es k)"
  have so: "screens_ok ?e" using kb ed_ok_live(2) [of "enter_editor k"] by (simp add: kb_inv_def) (simp add: screens_ok_def live_bytes_def quiet_def)
  obtain k1' where k1': "switch_terminal d ?e = Some k1'" "cur_terminal k1' = cur_terminal ?e" "visible k1' = d"
    "\<forall>j. curr_process (terminals k1' j) = curr_process (terminals ?e j)"
    using switch_terminal_ok [OF so k'(3)] by blast
  have k1: "cur_terminal k1 = cur_terminal k" "visible k1 = d" "\<And>j. curr_process (terminals k1 j) = curr_process (terminals k j)"
    using k1' k'(5) by simp_all
  have ctl: "same_ctl ?e k1" by (rule switch_terminal_core(2) [OF so k'(3,5)])
  have vo: "video_only (kvm k) (kvm k')"
  proof -
    have "video_only (kvm k) (kvm ?e)" by (simp add: video_only_def editor_kvm) (simp add: map_video_page_def)
    moreover have "video_only (kvm k1) (kvm k')" unfolding k'(6) by (simp add: video_only_def editor_kvm) (simp add: map_video_page_def)
    ultimately show ?thesis using switch_terminal_video [OF so k'(3,5)] by (blast intro: video_only_trans)
  qed
  show cp: "\<forall>i < 3. curr_process (terminals k' i) = curr_process (terminals k i)" using k1(3) unfolding k'(6) by simp
  show "cur_terminal k' = cur_terminal k" by (fact k'(4))
  have pc: "pitCount k' = pitCount k" using ctl unfolding k'(6) by (simp add: same_ctl_def)
  have c: "ct k < 3" using ok by (simp add: tasks_ok_def)
  have pt: "page_table (kvm k') 0xB8 = video_pte (cur_terminal k') (visible k')"
    unfolding k'(6) using video_pte_video_page [OF c, of d "kvm k1"] k1(1,2) by (simp add: editor_kvm split: if_splits)
  show "sys_inv k'"
    using k'(1,4) cp pt pc ok pd vo by (intro sys_invI) (simp_all add: tasks_ok_def video_only_def inj_on_def)
  show "\<not> video_frame p \<Longrightarrow> pmem (kvm k') p = pmem (kvm k) p" using vo by (simp add: video_only_def)
qed

section \<open>User code and the clock\<close>

lemma user_sys_inv:
  assumes inv: "sys_inv k" and run: "user_run k k'"
  shows "sys_inv k'" "terminals k' = terminals k" "cur_terminal k' = cur_terminal k"
    "\<not> video_frame p \<Longrightarrow> \<not> frame_of (cur_process k) p \<Longrightarrow> pmem (kvm k') p = pmem (kvm k) p"
proof -
  have kb: "kb_inv k" and ok: "tasks_ok k" and pd: "page_directory (kvm k) 32 = proc_pde (cur_process k)" and l: "layout (kvm k)"
    using inv by (simp_all add: sys_inv_def tasks_ok_def)
  have pid: "0 \<le> cur_process k" "cur_process k < 6" using ok by (simp_all add: tasks_ok_def)
  obtain v e b where v: "k' = set_vm v (k\<lparr>esp := e, ebp := b\<rparr>)" "same_map (kvm k) v"
    "\<And>p. (\<forall>a. user_access (kvm k) a \<longrightarrow> translate (kvm k) a \<noteq> Some p) \<Longrightarrow> pmem v p = pmem (kvm k) p"
    using run by (auto simp: user_run_def)
  note core = user_run_core [OF run l]
  show same: "terminals k' = terminals k" "cur_terminal k' = cur_terminal k" unfolding v(1) by simp_all
  have "state_ok k' i = state_ok k i" for i
    unfolding v(1) by (simp add: state_ok_def cursor_of_def edit_state_def task_ctx_def Let_def set_vm_def)
  then have "kb_inv k'"
    using kb core(2) unfolding kb_inv_iff v(1) by (simp add: cursor_ok_def set_vm_def)
  then show "sys_inv k'"
    using ok pd core(3) same_map_fields [OF v(2)] by (intro sys_invI) (simp_all add: v(1) tasks_ok_def)
  show "pmem (kvm k') p = pmem (kvm k) p"
    if p: "\<not> video_frame p" "\<not> frame_of (cur_process k) p"
  proof -
    have "translate (kvm k) a \<noteq> Some p" if ua: "user_access (kvm k) a" for a
    proof
      assume tr: "translate (kvm k) a = Some p"
      from user_access_layout [OF l ua] show False
      proof (elim disjE conjE exE)
        assume "drop_bit 22 a = 32"
        then have "p = proc_page (cur_process k) OR take_bit 22 a" using translate_process_page(1) [OF l pid pd] tr by simp
        then show False using proc_frame(1) [OF pid, of a] p(2) by (simp only: frame_of_def)
      next
        fix t :: u32 assume t: "t < 4" and "translate (kvm k) a = Some (((0xB8 + t) * 4096) OR take_bit 12 a)"
        then have "drop_bit 12 p = 0xB8 + t" using video_frame_addr [OF t, of a] tr by simp
        then show False using p(1) u32_lt4 [OF t] by (auto simp: video_frame_def)
      qed
    qed
    then have "pmem v p = pmem (kvm k) p" by (intro v(3)) blast
    then show ?thesis by (simp add: v(1))
  qed
qed

lemma clock_sys_inv:
  assumes "sys_inv k"
  shows "sys_inv (upd_mach (rtc_handler dev) k)" "kvm (upd_mach (rtc_handler dev) k) = kvm k"
proof -
  let ?k = "upd_mach (rtc_handler dev) k"
  have m: "vm (rtc_handler dev (mach k)) = kvm k" "screen_x (rtc_handler dev (mach k)) = screen_x (mach k)"
    "screen_y (rtc_handler dev (mach k)) = screen_y (mach k)"
    by (simp_all add: rtc_handler_def Let_def cli_def outb_def inb_def send_eoi_def)
  then show "kvm ?k = kvm k" by simp
  have "state_ok ?k i = state_ok k i" for i
    using m by (simp add: state_ok_def cursor_of_def edit_state_def task_ctx_def Let_def)
  then have "kb_inv ?k" using assms m unfolding sys_inv_def kb_inv_iff by (simp add: cursor_ok_def)
  then show "sys_inv ?k" using assms m by (intro sys_invI) (simp_all add: sys_inv_def tasks_ok_def)
qed

section \<open>All steps\<close>

lemma kb_inv_edits:
  assumes "kb_inv k"
  shows "\<exists>con. edits (enter_editor k) (line k, history k, con)"
proof -
  obtain con where "displays (mach (enter_editor k)) con"
    using displays_exists [OF screen_mapped, of "mach (enter_editor k)"] ed_ok_live(3) [of "enter_editor k"] assms
    by (auto simp: kb_inv_def ed_ok_def real_screen_def)
  then have "edits (enter_editor k) (line k, history k, con)"
    by (simp add: edits_def line_def history_def) (simp add: enter_editor_def Let_def)
  then show ?thesis ..
qed

lemma scan_code_up: "sc \<noteq> 0x48 \<Longrightarrow> scan_code (kbd sc) k \<noteq> 0x48"
  using ucast_u8_eq [of sc "0x48"] by (simp add: kbd_def)

lemma key_sys_inv:
  assumes inv: "sys_inv k" and h: "keyboard_handler (kbd sc) stack k = Some k'" and sc: "sc \<noteq> 0x48"
  shows "sys_inv k'" "\<forall>i < 3. curr_process (terminals k' i) = curr_process (terminals k i)" "cur_terminal k' = cur_terminal k"
    "\<not> video_frame p \<Longrightarrow> pmem (kvm k') p = pmem (kvm k) p"
proof -
  have kb: "kb_inv k" using inv by (simp add: sys_inv_def)
  obtain con where ed: "edits (enter_editor k) (line k, history k, con)" using kb_inv_edits [OF kb] by blast
  let ?op = "decode (flag_arr k) (length (line k)) (scan_code (kbd sc) k)"
  note up = scan_code_up [OF sc, of k]
  have "sys_inv k' \<and> (\<forall>i < 3. curr_process (terminals k' i) = curr_process (terminals k i)) \<and> cur_terminal k' = cur_terminal k \<and>
     (\<forall>p. \<not> video_frame p \<longrightarrow> pmem (kvm k') p = pmem (kvm k) p)"
  proof (cases "\<exists>d. ?op = Switch d")
    case True
    then obtain d where "?op = Switch d" by blast
    from switch_sys_inv [OF inv this h] show ?thesis by blast
  next
    case False
    then have nsw: "?op \<noteq> Switch d" for d by blast
    have nn: "0 \<in> set (buf_kb k) \<or> keyboard_handler (kbd sc) stack k \<noteq> None" using h by simp
    have f: "kb_inv k'" "key_frame k k'" "page_directory (kvm k') = page_directory (kvm k)"
      using handler_edits [OF kb ed nn up refl nsw] h by auto
    from key_frame_sys_inv [OF inv f] f(2) show ?thesis by (auto simp: key_frame_def)
  qed
  then show "sys_inv k'" "\<forall>i < 3. curr_process (terminals k' i) = curr_process (terminals k i)" "cur_terminal k' = cur_terminal k"
    "\<not> video_frame p \<Longrightarrow> pmem (kvm k') p = pmem (kvm k) p" by blast+
qed

lemma step_sys_inv:
  assumes "system_step rl k k'" and "sys_inv k"
  shows "sys_inv k'" "\<forall>i < 3. curr_process (terminals k' i) = curr_process (terminals k i)"
    "\<not> video_frame p \<Longrightarrow> \<not> frame_of (cur_process k) p \<Longrightarrow> pmem (kvm k') p = pmem (kvm k) p"
proof -
  have "sys_inv k' \<and> (\<forall>i < 3. curr_process (terminals k' i) = curr_process (terminals k i)) \<and>
     (\<forall>p. \<not> video_frame p \<and> \<not> frame_of (cur_process k) p \<longrightarrow> pmem (kvm k') p = pmem (kvm k) p)"
    using assms(1)
  proof cases
    case user
    note u = user_sys_inv [OF assms(2) user]
    show ?thesis
    proof (intro conjI allI impI)
      fix p assume "\<not> video_frame p \<and> \<not> frame_of (cur_process k) p"
      then show "pmem (kvm k') p = pmem (kvm k) p" using u(4) by blast
    qed (simp_all add: u(1,2))
  next
    case (tick n)
    note t = tick_sys_inv [OF assms(2) tick]
    have "curr_process (terminals k' i) = curr_process (terminals k i)" if "i < 3" for i
      using t(2) that task_ctx_process [of k i] task_ctx_process [of k' i] by metis
    then show ?thesis using t(1,4) by blast
  next
    case (key sc stack)
    with key_sys_inv [OF assms(2)] show ?thesis by blast
  next
    case (clock dev)
    then show ?thesis using clock_sys_inv [OF assms(2), of dev] by simp
  qed
  then show "sys_inv k'" "\<forall>i < 3. curr_process (terminals k' i) = curr_process (terminals k i)"
    "\<not> video_frame p \<Longrightarrow> \<not> frame_of (cur_process k) p \<Longrightarrow> pmem (kvm k') p = pmem (kvm k) p"
    by blast+
qed

lemma step_progress:
  assumes "sys_inv k"
  shows "\<exists>k'. pit_handler rl k = Some (Returns 0, k')" "sc \<noteq> 0x48 \<Longrightarrow> 0 \<in> set (buf_kb k) \<Longrightarrow> keyboard_handler (kbd sc) stack k \<noteq> None"
proof -
  have ok: "tasks_ok k" and kb: "kb_inv k" using assms by (simp_all add: sys_inv_def)
  show "\<exists>k'. pit_handler rl k = Some (Returns 0, k')" using tick_ok [OF ok] by blast
  assume a: "sc \<noteq> 0x48" "0 \<in> set (buf_kb k)"
  obtain con where ed: "edits (enter_editor k) (line k, history k, con)" using kb_inv_edits [OF kb] by blast
  let ?op = "decode (flag_arr k) (length (line k)) (scan_code (kbd sc) k)"
  show "keyboard_handler (kbd sc) stack k \<noteq> None"
  proof (cases "\<exists>d. ?op = Switch d")
    case True
    then obtain d where "?op = Switch d" by blast
    then show ?thesis
      using handler_switches [where dev = "kbd sc" and k = k and len = "length (line k)" and d = d and stack = stack] kb by auto
  next
    case False
    then have nsw: "?op \<noteq> Switch d" for d by blast
    have nn: "0 \<in> set (buf_kb k) \<or> keyboard_handler (kbd sc) stack k \<noteq> None" using a(2) by simp
    show ?thesis using handler_edits [OF kb ed nn scan_code_up [OF a(1)] refl nsw] by auto
  qed
qed

lemma steps_sound:
  assumes "(system_step rl)\<^sup>*\<^sup>* k k'" and "sys_inv k"
  shows "sys_inv k' \<and> (\<forall>i < 3. curr_process (terminals k' i) = curr_process (terminals k i)) \<and>
    (\<forall>p. kernel_frame p \<longrightarrow> pmem (kvm k') p = pmem (kvm k) p) \<and>
    (\<forall>pid p. 0 \<le> pid \<and> pid < 6 \<and> (\<forall>i < 3. curr_process (terminals k i) \<noteq> pid) \<and> frame_of pid p \<longrightarrow> pmem (kvm k') p = pmem (kvm k) p)"
  using assms(1)
proof (induction rule: rtranclp_induct)
  case base
  then show ?case using assms(2) by blast
next
  case (step k1 k2)
  have cp1: "curr_process (terminals k1 i) = curr_process (terminals k i)" if "i < 3" for i using step.IH that by blast
  have inv: "sys_inv k1" using step.IH by blast
  note st = step_sys_inv [OF step.hyps(2) inv]
  have c: "ct k1 < 3" and pid: "0 \<le> cur_process k1" "cur_process k1 < 6" using inv by (simp_all add: sys_inv_def tasks_ok_def)
  have kf: "pmem (kvm k2) p = pmem (kvm k1) p" if "kernel_frame p" for p
    using st(3) [of p] kernel_video_apart [OF that] frames_apart(1) [OF pid, of p] that by blast
  have pf: "pmem (kvm k2) p = pmem (kvm k1) p"
    if q: "0 \<le> q" "q < 6" "\<forall>i < 3. curr_process (terminals k i) \<noteq> q" "frame_of q p" for q p
  proof -
    have "cur_process k1 \<noteq> q" using cp1 [OF c] q(3) c by metis
    then show ?thesis using st(3) [of p] frames_apart(2,3) [OF q(1,2,4)] pid by blast
  qed
  show ?case
  proof (intro conjI allI impI)
    show "sys_inv k2" by (fact st(1))
    fix i :: nat assume "i < 3"
    then show "curr_process (terminals k2 i) = curr_process (terminals k i)" using st(2) cp1 by metis
  next
    fix p assume "kernel_frame p"
    then show "pmem (kvm k2) p = pmem (kvm k) p" using kf step.IH by metis
  next
    fix q p assume "0 \<le> q \<and> q < 6 \<and> (\<forall>i < 3. curr_process (terminals k i) \<noteq> q) \<and> frame_of q p"
    then show "pmem (kvm k2) p = pmem (kvm k) p" using pf step.IH by metis
  qed
qed

section \<open>Properties\<close>

text \<open>
  C5: the invariant of the running system.  Start in a state in which the scheduler and the line
  editor are in order and let timer, keyboard and clock interrupt the programs in any order, any
  number of times.  In every state that is reached the invariant holds again; the terminals have
  their processes; the kernel's frame, and the frame of every process that no terminal runs, are
  as in the beginning; the next tick is handled without a fault, and so is every key but Up while
  the line buffer has its final zero byte.  Any further step leaves all memory alone but the video
  frames and the frame of the process that is scheduled.
\<close>

theorem system_stays_sound:
  assumes "(system_step rl)\<^sup>*\<^sup>* k k'" and "sys_inv k"
  shows "sys_inv k' \<and> (\<forall>i < 3. curr_process (terminals k' i) = curr_process (terminals k i)) \<and>
    (\<forall>p. kernel_frame p \<longrightarrow> pmem (kvm k') p = pmem (kvm k) p) \<and>
    (\<forall>pid p. 0 \<le> pid \<and> pid < 6 \<and> (\<forall>i < 3. curr_process (terminals k i) \<noteq> pid) \<and> frame_of pid p \<longrightarrow> pmem (kvm k') p = pmem (kvm k) p) \<and>
    (\<exists>k''. pit_handler rl k' = Some (Returns 0, k'')) \<and>
    (\<forall>sc. sc \<noteq> 0x48 \<and> 0 \<in> set (buf_kb k') \<longrightarrow> keyboard_handler (kbd sc) stack k' \<noteq> None) \<and>
    (\<forall>k'' p. system_step rl k' k'' \<and> \<not> video_frame p \<and> \<not> frame_of (cur_process k') p \<longrightarrow> pmem (kvm k'') p = pmem (kvm k') p)"
proof -
  note r = steps_sound [OF assms]
  then have inv: "sys_inv k'" by blast
  show ?thesis using r step_progress [OF inv] step_sys_inv(3) [OF _ inv] by blast
qed

definition sample_sys :: kernel where
  "sample_sys = sample_kb\<lparr>terminals := (\<lambda>i. zero_terminal\<lparr>video_buffer := pa (Suc i), enter_flag := 1, curr_process := 2 + int i\<rparr>), pitCount := 4\<rparr>"

lemma sample_sys_inv: "sys_inv sample_sys"
proof -
  have f: "visible sample_sys = 0" "cur_terminal sample_sys = 0" "pitCount sample_sys = 4" "mach sample_sys = mach sample_kb"
    "flag_arr sample_sys = flag_arr sample_kb" "length (flag_arr sample_kb) = 5"
    "terminals sample_sys = (\<lambda>i. zero_terminal\<lparr>video_buffer := pa (Suc i), enter_flag := 1, curr_process := 2 + int i\<rparr>)"
    using sample_kb_inv(1) by (simp_all add: sample_sys_def kb_inv_iff) (simp_all add: sample_kb_def zero_kernel_def)
  have st: "state_ok sample_sys i = state_ok sample_kb i" for i
    by (simp add: state_ok_def cursor_of_def edit_state_def task_ctx_def Let_def f)
      (simp add: sample_sys_def sample_kb_def zero_kernel_def)
  have kb: "kb_inv sample_sys" using sample_kb_inv(1) st by (simp add: kb_inv_iff f)
  have "page_table (kvm sample_sys) 0xB8 = video_pte 0 0" "page_directory (kvm sample_sys) 32 = proc_pde 2"
    using sample_kb_screen(1) sample_vmem_layout(3) by (simp_all add: f real_screen_def video_pte_def) (simp add: sample_kb_def)
  then show ?thesis using kb by (intro sys_invI) (simp_all add: f inj_on_def)
qed

theorem system_stays_sound_witness:
  "\<exists>k1 k2. system_step 0 sample_sys k1 \<and> system_step 0 k1 k2 \<and> cur_terminal k1 = 1 \<and> sys_inv k2 \<and>
    (\<forall>p. kernel_frame p \<longrightarrow> pmem (kvm k2) p = pmem (kvm sample_sys) p)"
proof -
  obtain k1 where k1: "pit_handler 0 sample_sys = Some (Returns 0, k1)" "cur_terminal k1 = next_terminal (cur_terminal sample_sys)"
    using tick_ok [of sample_sys 0] sample_sys_inv by (auto simp: sys_inv_def)
  let ?k2 = "upd_mach (rtc_handler (kbd 0)) k1"
  have s: "system_step 0 sample_sys k1" "system_step 0 k1 ?k2" by (rule system_step.tick [OF k1(1)], rule system_step.clock)
  then have "(system_step 0)\<^sup>*\<^sup>* sample_sys ?k2" by (rule converse_rtranclp_into_rtranclp [OF _ r_into_rtranclp])
  from system_stays_sound [OF this sample_sys_inv, of "\<lambda>_. 0"] have "sys_inv ?k2" "\<forall>p. kernel_frame p \<longrightarrow> pmem (kvm ?k2) p = pmem (kvm sample_sys) p"
    by blast+
  moreover have "cur_terminal k1 = 1" using k1(2) by (simp add: sample_sys_def sample_kb_def zero_kernel_def next_terminal_def)
  ultimately show ?thesis using s by blast
qed

text \<open>
  The way from the idle loop of \<open>entry\<close> to the running system: four ticks, with user code in
  between.
\<close>

inductive boot_path :: "u32 \<Rightarrow> kernel \<Rightarrow> nat \<Rightarrow> kernel \<Rightarrow> bool" for rl k0 where
  idle: "boot_path rl k0 0 k0"
| tick: "boot_path rl k0 n k \<Longrightarrow> user_run k k1 \<Longrightarrow> pit_handler rl k1 = Some (out, k2) \<Longrightarrow> n < 4 \<Longrightarrow> boot_path rl k0 (Suc n) k2"

lemma boot_path_ok:
  assumes "boot_path rl k0 n k" and "boot_ok 0 d eof blk hdr k0"
  shows "(n < 4 \<longrightarrow> boot_ok n d eof blk hdr k) \<and> (n = 4 \<longrightarrow> sys_inv k \<and> (\<forall>i < 3. curr_process (terminals k i) = int i))"
  using assms
proof (induction rule: boot_path.induct)
  case (tick n k k1 out k2)
  have b: "boot_ok n d eof blk hdr k1" using tick user_run_boot by blast
  show ?case
  proof (cases "n < 3")
    case True
    then show ?thesis using boot_step [OF b, of rl] tick.hyps(3) by auto
  next
    case False
    then have "n = 3" using tick.hyps(4) by simp
    then show ?thesis using boot_last [of d eof blk hdr k1 rl] b tick.hyps(3) by auto
  qed
qed simp

lemma boot_path_exists:
  assumes "boot_ok 0 d eof blk hdr k0" and "n \<le> 4"
  shows "\<exists>k. boot_path rl k0 n k"
  using assms(2)
proof (induction n)
  case (Suc n)
  then obtain k where k: "boot_path rl k0 n k" by auto
  then have b: "boot_ok n d eof blk hdr k" using boot_path_ok [OF k assms(1)] Suc.prems by simp
  have "\<exists>out k'. pit_handler rl k = Some (out, k')"
  proof (cases "n < 3")
    case True
    then show ?thesis using boot_step [OF b, of rl] by blast
  next
    case False
    then have "n = 3" using Suc.prems by simp
    then show ?thesis using boot_last [of d eof blk hdr k rl] b by blast
  qed
  then show ?case using boot_path.tick [OF k user_run_refl] Suc.prems by (metis Suc_le_lessD)
qed (use boot_path.idle in blast)



end
