(* ===== verification/Userlib.thy ===== *)
theory Userlib
  imports Syscall
begin

text \<open>
  The library of the user programs: the system call stubs of \<open>syscalls/ece391syscall.S\<close> and
  \<open>syscalls/ece391support.c\<close>.  A user program runs on the kernel state together with the
  environment of its calls; its own loads and stores go through the page tables with user
  privilege.  The addresses of its local arrays are arguments; its string constants are placed by
  the function \<open>lit\<close>.
\<close>

section \<open>Definitions\<close>

type_synonym 'e ustate = "'e sysenv \<times> kernel"

definition uld8 :: "vmem \<Rightarrow> addr \<Rightarrow> u8 option" where
  "uld8 v a = (if user_access v a then ld8 v a else None)"

definition ust8 :: "vmem \<Rightarrow> addr \<Rightarrow> u8 \<Rightarrow> vmem option" where
  "ust8 v a b = (if user_access v a then st8 v a b else None)"

definition load_byte :: "addr \<Rightarrow> 'e ustate \<Rightarrow> u8 option" where
  "load_byte a s = uld8 (kvm (snd s)) a"

definition store_byte :: "addr \<Rightarrow> u8 \<Rightarrow> 'e ustate \<Rightarrow> 'e ustate option" where
  "store_byte a b s = map_option (\<lambda>k. (fst s, k)) (on_vm (\<lambda>v. ust8 v a b) (snd s))"

text \<open>A call returns to the program, or the process is left for good: then it has no result here.\<close>

definition do_call :: "u32 \<Rightarrow> u32 \<Rightarrow> u32 \<Rightarrow> u32 \<Rightarrow> 'e ustate \<Rightarrow> (int \<times> 'e ustate) option" where
  "do_call number ebx ecx edx s =
     (case syscall_handler_asm (fst s) number ebx ecx edx (snd s) of
        Some (Returns n, e, k) \<Rightarrow> Some (n, e, k)
      | _ \<Rightarrow> None)"

definition ece391_read :: "int \<Rightarrow> addr \<Rightarrow> int \<Rightarrow> 'e ustate \<Rightarrow> (int \<times> 'e ustate) option" where
  "ece391_read fd buf nbytes s = do_call 3 (word_of_int fd) buf (word_of_int nbytes) s"

definition ece391_write :: "int \<Rightarrow> addr \<Rightarrow> int \<Rightarrow> 'e ustate \<Rightarrow> (int \<times> 'e ustate) option" where
  "ece391_write fd buf nbytes s = do_call 4 (word_of_int fd) buf (word_of_int nbytes) s"

definition ece391_open :: "addr \<Rightarrow> 'e ustate \<Rightarrow> (int \<times> 'e ustate) option" where
  "ece391_open filename s = do_call 5 filename (e_reg (fst s)) (e_reg (fst s)) s"

definition ece391_close :: "int \<Rightarrow> 'e ustate \<Rightarrow> (int \<times> 'e ustate) option" where
  "ece391_close fd s = do_call 6 (word_of_int fd) (e_reg (fst s)) (e_reg (fst s)) s"

definition ece391_getargs :: "addr \<Rightarrow> int \<Rightarrow> 'e ustate \<Rightarrow> (int \<times> 'e ustate) option" where
  "ece391_getargs buf nbytes s = do_call 7 buf (word_of_int nbytes) (e_reg (fst s)) s"

definition ece391_vidmap :: "addr \<Rightarrow> 'e ustate \<Rightarrow> (int \<times> 'e ustate) option" where
  "ece391_vidmap start s = do_call 8 start (e_reg (fst s)) (e_reg (fst s)) s"

partial_function (option) ece391_strlen_from :: "vmem \<Rightarrow> addr \<Rightarrow> u32 \<Rightarrow> u32 option" where
  "ece391_strlen_from v s len = do {
     c \<leftarrow> uld8 v s;
     if c \<noteq> 0 then ece391_strlen_from v (s + 1) (len + 1) else Some len
   }"

definition ece391_strlen :: "addr \<Rightarrow> 'e ustate \<Rightarrow> u32 option" where
  "ece391_strlen s u = ece391_strlen_from (kvm (snd u)) s 0"

partial_function (option) ece391_strcpy_from :: "vmem \<Rightarrow> addr \<Rightarrow> addr \<Rightarrow> vmem option" where
  "ece391_strcpy_from v dst src = do {
     c \<leftarrow> uld8 v src;
     v \<leftarrow> ust8 v dst c;
     if c \<noteq> 0 then ece391_strcpy_from v (dst + 1) (src + 1) else Some v
   }"

definition ece391_strcpy :: "addr \<Rightarrow> addr \<Rightarrow> 'e ustate \<Rightarrow> 'e ustate option" where
  "ece391_strcpy dst src u = map_option (\<lambda>k. (fst u, k)) (on_vm (\<lambda>v. ece391_strcpy_from v dst src) (snd u))"

definition ece391_fdputs :: "int \<Rightarrow> addr \<Rightarrow> 'e ustate \<Rightarrow> 'e ustate option" where
  "ece391_fdputs fd s u = do {
     n \<leftarrow> ece391_strlen s u;
     (_, u) \<leftarrow> ece391_write fd s (sint n) u;
     Some u
   }"

partial_function (option) ece391_strcmp_from :: "vmem \<Rightarrow> addr \<Rightarrow> addr \<Rightarrow> int option" where
  "ece391_strcmp_from v s1 s2 = do {
     c1 \<leftarrow> uld8 v s1;
     c2 \<leftarrow> uld8 v s2;
     if c1 = c2 then if c1 = 0 then Some 0 else ece391_strcmp_from v (s1 + 1) (s2 + 1)
     else Some (uint c1 - uint c2)
   }"

definition ece391_strcmp :: "addr \<Rightarrow> addr \<Rightarrow> 'e ustate \<Rightarrow> int option" where
  "ece391_strcmp s1 s2 u = ece391_strcmp_from (kvm (snd u)) s1 s2"

partial_function (option) ece391_strncmp_from :: "vmem \<Rightarrow> addr \<Rightarrow> addr \<Rightarrow> u32 \<Rightarrow> int option" where
  "ece391_strncmp_from v s1 s2 n = do {
     c1 \<leftarrow> uld8 v s1;
     c2 \<leftarrow> uld8 v s2;
     if c1 = c2 then if c1 = 0 \<or> n - 1 = 0 then Some 0 else ece391_strncmp_from v (s1 + 1) (s2 + 1) (n - 1)
     else Some (uint c1 - uint c2)
   }"

definition ece391_strncmp :: "addr \<Rightarrow> addr \<Rightarrow> u32 \<Rightarrow> 'e ustate \<Rightarrow> int option" where
  "ece391_strncmp s1 s2 n u = (if n = 0 then Some 0 else ece391_strncmp_from (kvm (snd u)) s1 s2 n)"

partial_function (option) ece391_strrev_loop :: "vmem \<Rightarrow> addr \<Rightarrow> int \<Rightarrow> int \<Rightarrow> vmem option" where
  "ece391_strrev_loop v s beg end' =
     (if beg < end' then do {
        tmp \<leftarrow> uld8 v (s + word_of_int end');
        b \<leftarrow> uld8 v (s + word_of_int beg);
        v \<leftarrow> ust8 v (s + word_of_int end') b;
        v \<leftarrow> ust8 v (s + word_of_int beg) tmp;
        ece391_strrev_loop v s (beg + 1) (end' - 1)
      }
      else Some v)"

definition ece391_strrev :: "addr \<Rightarrow> vmem \<Rightarrow> vmem option" where
  "ece391_strrev s v = do {
     n \<leftarrow> ece391_strlen_from v s 0;
     let end' = sint (n - 1);
     if end' \<le> 0 then Some v else ece391_strrev_loop v s 0 end'
   }"

definition ece391_lookup :: "u8 list" where
  "ece391_lookup = map of_char ''0123456789ABCDEFGHIJKLMNOPQRSTUVWXYZ''"

partial_function (option) ece391_itoa_loop :: "vmem \<Rightarrow> addr \<Rightarrow> u32 \<Rightarrow> u32 \<Rightarrow> (addr \<times> vmem) option" where
  "ece391_itoa_loop v newbuf newval radix =
     (if 0 < newval then
        (if unat (newval mod radix) < 36 \<and> radix \<noteq> 0 then do {
           v \<leftarrow> ust8 v newbuf (ece391_lookup ! unat (newval mod radix));
           ece391_itoa_loop v (newbuf + 1) (newval div radix) radix
         }
         else None)
      else Some (newbuf, v))"

definition ece391_itoa :: "u32 \<Rightarrow> addr \<Rightarrow> int \<Rightarrow> 'e ustate \<Rightarrow> 'e ustate option" where
  "ece391_itoa value buf radix u = map_option (\<lambda>k. (fst u, k)) (on_vm (\<lambda>v.
     if value = 0 then do { v \<leftarrow> ust8 v buf 0x30; ust8 v (buf + 1) 0 }
     else do {
       (newbuf, v) \<leftarrow> ece391_itoa_loop v buf value (word_of_int radix);
       v \<leftarrow> ust8 v newbuf 0;
       ece391_strrev buf v
     }) (snd u))"

section \<open>The system calls as the programs see them\<close>

definition int32 :: "int \<Rightarrow> bool" where
  "int32 x \<longleftrightarrow> - (2 ^ 31) \<le> x \<and> x < 2 ^ 31"

lemma sint_word_of_int32: "int32 x \<Longrightarrow> sint (word_of_int x :: u32) = x"
  using s32_id [of x] by (simp add: int32_def s32_def)

lemma word_of_int32_minus_one: "int32 x \<Longrightarrow> (word_of_int x :: u32) = -1 \<longleftrightarrow> x = -1"
proof
  assume x: "int32 x" and e: "(word_of_int x :: u32) = -1"
  show "x = -1" using sint_word_of_int32 [OF x] unfolding e by simp
qed simp

lemma ece391_read_eq:
  assumes "int32 fd" and "fd \<noteq> -1" and "buf \<noteq> -1" and "int32 nbytes" and "nbytes \<noteq> -1"
  shows "ece391_read fd buf nbytes (e, k) = sys_read e fd buf nbytes k"
  using assms word_of_int32_minus_one [OF assms(1)] word_of_int32_minus_one [OF assms(4)]
  by (auto simp: ece391_read_def do_call_def syscall_handler_asm_def syscall_read_def sint_word_of_int32 split: option.splits prod.splits)

lemma ece391_write_eq:
  assumes "int32 fd" and "int32 nbytes"
  shows "ece391_write fd buf nbytes (e, k) = map_option (\<lambda>(n, k). (n, e, k)) (sys_write e fd buf nbytes k)"
  using assms by (auto simp: ece391_write_def do_call_def syscall_handler_asm_def syscall_write_def sint_word_of_int32 split: option.splits prod.splits)

lemma ece391_open_eq: "ece391_open name (e, k) = map_option (\<lambda>(n, k). (n, e, k)) (sys_open name k)"
  by (auto simp: ece391_open_def do_call_def syscall_handler_asm_def syscall_open_def split: option.splits prod.splits)

lemma ece391_close_eq: "int32 fd \<Longrightarrow> ece391_close fd (e, k) = (let (n, k) = sys_close fd k in Some (n, e, k))"
  by (auto simp: ece391_close_def do_call_def syscall_handler_asm_def syscall_close_def sint_word_of_int32 Let_def split: option.splits prod.splits)

lemma ece391_getargs_eq:
  "int32 nbytes \<Longrightarrow> ece391_getargs buf nbytes (e, k) = map_option (\<lambda>(n, k). (n, e, k)) (sys_getargs buf nbytes k)"
  by (auto simp: ece391_getargs_def do_call_def syscall_handler_asm_def syscall_getargs_def sint_word_of_int32 split: option.splits prod.splits)

lemma ece391_vidmap_eq: "ece391_vidmap start (e, k) = map_option (\<lambda>(n, k). (n, e, k)) (sys_vidmap start k)"
  by (auto simp: ece391_vidmap_def do_call_def syscall_handler_asm_def syscall_vidmap_def split: option.splits prod.splits)

section \<open>A running process\<close>

definition upage :: "addr set" where
  "upage = {a. drop_bit 22 a = (32 :: u32)}"

definition running :: "int \<Rightarrow> kernel \<Rightarrow> bool" where
  "running pid k \<longleftrightarrow> layout (kvm k) \<and> 0 \<le> pid \<and> pid < 6 \<and> page_directory (kvm k) 32 = proc_pde pid \<and> cur_process k = pid"

lemma running_changes:
  assumes "running pid k" and "changes A (kvm k) v"
  shows "layout v" "page_directory v 32 = proc_pde pid"
  using assms layout_same_map [OF changes_same_map [OF assms(2)]] same_map_fields [OF changes_same_map [OF assms(2)]]
  by (simp_all add: running_def)

lemma user_access_upage:
  assumes "layout v" and "page_directory v 32 = proc_pde pid" and "0 \<le> pid" and "pid < 6" and "a \<in> upage"
  shows "user_access v a"
  using translate_process_page(2) [OF assms(1,3,4,2)] assms(5) by (simp add: upage_def)

lemma screen_upage_apart:
  assumes "layout v" and "page_directory v 32 = proc_pde pid" and "0 \<le> pid" and "pid < 6"
  shows "apart v screen_region upage"
proof -
  obtain t where t: "t < 4" "page_table v 0xB8 = ((0xB8 + t) * 4096) OR 3" using layoutD(8) [OF assms(1)] by blast
  have "translate v b \<noteq> Some p" if a: "a \<in> screen_region" "translate v a = Some p" and b: "b \<in> upage" for a b p
  proof
    assume "translate v b = Some p"
    then have p: "p = proc_page pid OR take_bit 22 b"
      using translate_process_page(1) [OF assms(1,3,4,2)] b by (simp add: upage_def)
    have "a \<in> region VIDEO 4096" using a(1) region_mono [of 4000 4096 VIDEO] by auto
    from translate_video_page(1) [OF assms(1) screen_addr(1) [OF this] t(2,1)] a(2)
    have "drop_bit 12 p = 0xB8 + t" using video_frame_addr [OF t(1)] by simp
    moreover have "drop_bit 22 p = drop_bit 10 (drop_bit 12 p)" by (simp only: drop_bit_drop_bit) simp
    ultimately have z: "drop_bit 22 p = 0" using u32_lt4 [OF t(1)] by (simp only:) auto
    have "drop_bit 22 p = word_of_int (pid + 2)" unfolding p by (rule proc_frame(1) [OF assms(3,4)])
    moreover have "(word_of_int (pid + 2) :: u32) \<noteq> 0"
    proof
      assume e: "(word_of_int (pid + 2) :: u32) = 0"
      have "sint (word_of_int (pid + 2) :: u32) = pid + 2" using assms(3,4) by (intro sint_word_of_int32) (simp add: int32_def)
      then show False unfolding e using assms(3) by simp
    qed
    ultimately show False using z by simp
  qed
  then show ?thesis unfolding apart_def by auto
qed

lemma strlen_user:
  assumes "running pid k" and "cstring (kvm k) s bs" and "region s (Suc (length bs)) \<subseteq> upage"
  shows "ece391_strlen s (e, k) = Some (word_of_nat (length bs))"
proof -
  have u: "uld8 (kvm k) a = ld8 (kvm k) a" if "a \<in> upage" for a
    using user_access_upage [of "kvm k" pid a] assms(1) that by (simp add: uld8_def running_def)
  have w: "ece391_strlen_from (kvm k) a n = Some (n + word_of_nat (length bs))"
    if "ld_bytes (kvm k) a (Suc (length bs)) = Some (bs @ [0])" "0 \<notin> set bs" "region a (Suc (length bs)) \<subseteq> upage" for a n bs
    using that
  proof (induction bs arbitrary: a n)
    case Nil
    then have "ld8 (kvm k) a = Some 0" by (auto split: Option.bind_splits)
    moreover have "a \<in> upage" using Nil.prems(3) by (simp add: region_Suc)
    ultimately show ?case using u [of a] by (subst ece391_strlen_from.simps) simp
  next
    case (Cons b bs)
    then have b: "ld8 (kvm k) a = Some b" "ld_bytes (kvm k) (a + 1) (Suc (length bs)) = Some (bs @ [0])"
      by (auto split: Option.bind_splits)
    have r: "a \<in> upage" "region (a + 1) (Suc (length bs)) \<subseteq> upage"
      using Cons.prems(3) region_Suc [of a "Suc (length bs)"] by auto
    show ?case using Cons.IH [OF b(2) _ r(2)] Cons.prems(2) b(1) u [OF r(1)]
      by (subst ece391_strlen_from.simps) (simp add: algebra_simps)
  qed
  have "ld_bytes (kvm k) s (Suc (length bs)) = Some (bs @ [0])" "0 \<notin> set bs" using assms(2) unfolding cstring_def by blast+
  from w [OF this assms(3), of 0] show ?thesis by (simp add: ece391_strlen_def)
qed

lemma write_user:
  assumes "running pid k" and "ld_bytes (kvm k) buf n = Some bs" and "region buf n \<subseteq> upage" and "displays (mach k) con"
    and "n < 2 ^ 31" and "buf \<noteq> 0"
  shows "\<exists>m'. ece391_write 1 buf (int n) (e, k) = Some (int n, e, k\<lparr>mach := m'\<rparr>) \<and> displays m' (fold con_putc bs con) \<and>
    console_frame (mach k) m'"
proof -
  have "apart (kvm k) screen_region (region buf n)"
    using apart_subset [OF screen_upage_apart subset_refl assms(3)] assms(1) by (simp add: running_def)
  then obtain m' where "write_loop buf n (mach k) = Some m'" "displays m' (fold con_putc bs con)" "console_frame (mach k) m'"
    using write_loop_displays [OF assms(2,4)] by blast
  then show ?thesis
    using assms(5,6) by (auto simp: ece391_write_eq int32_def sys_write_def terminal_write_def on_mach_def)
qed

lemma fdputs_user:
  assumes "running pid k" and "cstring (kvm k) s bs" and "region s (Suc (length bs)) \<subseteq> upage" and "displays (mach k) con" and "s \<noteq> 0"
  shows "\<exists>m'. ece391_fdputs 1 s (e, k) = Some (e, k\<lparr>mach := m'\<rparr>) \<and> displays m' (fold con_putc bs con) \<and> console_frame (mach k) m'"
proof -
  have l: "length bs < 2 ^ 31" using assms(2) by (simp add: cstring_def)
  have ld: "ld_bytes (kvm k) s (length bs) = Some bs"
    using assms(2) ld_bytes_append [of "kvm k" s "length bs" 1] by (auto simp: cstring_def split: Option.bind_splits)
  have rg: "region s (length bs) \<subseteq> upage" using assms(3) region_mono [of "length bs" "Suc (length bs)" s] by auto
  have "sint (word_of_nat (length bs) :: u32) = int (length bs)"
    using sint_word_of_int32 [of "int (length bs)"] l by (simp add: int32_def)
  then show ?thesis
    using write_user [OF assms(1) ld rg assms(4) l assms(5), of e] strlen_user [OF assms(1-3), of e] by (auto simp: ece391_fdputs_def)
qed

end
