(* ===== verification/Programs.thy ===== *)
theory Programs
  imports Userlib
begin

text \<open>
  User programs of \<open>syscalls/\<close> that run on the kernel: \<open>ece391cat.c\<close>, \<open>ece391ls.c\<close>,
  \<open>ece391hello.c\<close>, \<open>ece391testprint.c\<close> and \<open>ece391counter.c\<close>.  \<open>lit s\<close> is the address of the string constant \<open>s\<close>, \<open>buf\<close> that of the
  program's local array.  The lemmas show what the programs print.
\<close>

section \<open>Definitions\<close>

abbreviation line_of :: "string \<Rightarrow> string" where
  "line_of s \<equiv> s @ [CHR 0x0A]"

definition puts_lit :: "(string \<Rightarrow> addr) \<Rightarrow> string \<Rightarrow> 'e ustate \<Rightarrow> 'e ustate option" where
  "puts_lit lit s u = ece391_fdputs 1 (lit s) u"

definition say :: "(string \<Rightarrow> addr) \<Rightarrow> string \<Rightarrow> int \<Rightarrow> 'e ustate \<Rightarrow> (int \<times> 'e ustate) option" where
  "say lit s r u = do { u \<leftarrow> puts_lit lit s u; Some (r, u) }"

subsection \<open>\<open>ece391cat.c\<close>\<close>

partial_function (option) cat_loop :: "(string \<Rightarrow> addr) \<Rightarrow> int \<Rightarrow> addr \<Rightarrow> 'e ustate \<Rightarrow> (int \<times> 'e ustate) option" where
  "cat_loop lit fd buf u = do {
     (cnt, u) \<leftarrow> ece391_read fd buf 1024 u;
     if cnt = 0 then Some (0, u)
     else if cnt = -1 then say lit (line_of ''file read failed'') 3 u
     else do {
       (r, u) \<leftarrow> ece391_write 1 buf cnt u;
       if r = -1 then Some (3, u) else cat_loop lit fd buf u
     }
   }"

definition cat_main :: "(string \<Rightarrow> addr) \<Rightarrow> addr \<Rightarrow> 'e ustate \<Rightarrow> (int \<times> 'e ustate) option" where
  "cat_main lit buf u = do {
     (r, u) \<leftarrow> ece391_getargs buf 1024 u;
     if r \<noteq> 0 then say lit (line_of ''could not read arguments'') 3 u
     else do {
       (fd, u) \<leftarrow> ece391_open buf u;
       if fd = -1 then say lit (line_of ''file not found'') 2 u
       else cat_loop lit fd buf u
     }
   }"

subsection \<open>\<open>ece391ls.c\<close>\<close>

partial_function (option) ls_loop :: "(string \<Rightarrow> addr) \<Rightarrow> int \<Rightarrow> addr \<Rightarrow> 'e ustate \<Rightarrow> (int \<times> 'e ustate) option" where
  "ls_loop lit fd buf u = do {
     (cnt, u) \<leftarrow> ece391_read fd buf 32 u;
     if cnt = 0 then Some (0, u)
     else if cnt = -1 then say lit (line_of ''directory entry read failed'') 3 u
     else do {
       u \<leftarrow> store_byte (buf + word_of_int cnt) 10 u;
       (r, u) \<leftarrow> ece391_write 1 buf (cnt + 1) u;
       if r = -1 then Some (3, u) else ls_loop lit fd buf u
     }
   }"

definition ls_main :: "(string \<Rightarrow> addr) \<Rightarrow> addr \<Rightarrow> 'e ustate \<Rightarrow> (int \<times> 'e ustate) option" where
  "ls_main lit buf u = do {
     (fd, u) \<leftarrow> ece391_open (lit ''.'') u;
     if fd = -1 then say lit (line_of ''directory open failed'') 2 u
     else ls_loop lit fd buf u
   }"

subsection \<open>\<open>ece391hello.c\<close>, \<open>ece391testprint.c\<close> and \<open>ece391counter.c\<close>\<close>

definition hello_main :: "(string \<Rightarrow> addr) \<Rightarrow> addr \<Rightarrow> 'e ustate \<Rightarrow> (int \<times> 'e ustate) option" where
  "hello_main lit buf u = do {
     u \<leftarrow> puts_lit lit (''Hi, what'' @ [CHR 0x27] @ ''s your name? '') u;
     (cnt, u) \<leftarrow> ece391_read 0 buf 1023 u;
     if cnt = -1 then say lit (''Can'' @ [CHR 0x27] @ line_of ''t read name from keyboard.'') 3 u
     else do {
       u \<leftarrow> store_byte (buf + word_of_int cnt) 0 u;
       u \<leftarrow> puts_lit lit ''Hello, '' u;
       u \<leftarrow> ece391_fdputs 1 buf u;
       Some (0, u)
     }
   }"

definition testprint_main :: "(string \<Rightarrow> addr) \<Rightarrow> 'e ustate \<Rightarrow> (int \<times> 'e ustate) option" where
  "testprint_main lit u = say lit (line_of ''Hello, if this ran, the program was correct. Yay!'') 0 u"

fun counter_loop :: "(string \<Rightarrow> addr) \<Rightarrow> addr \<Rightarrow> u32 \<Rightarrow> nat \<Rightarrow> 'e ustate \<Rightarrow> 'e ustate option" where
  "counter_loop lit buf i 0 u = Some u"
| "counter_loop lit buf i (Suc n) u = do {
     u \<leftarrow> ece391_itoa (i + 1) buf 10 u;
     u \<leftarrow> ece391_fdputs 1 buf u;
     u \<leftarrow> puts_lit lit (line_of '''') u;
     counter_loop lit buf (i + 1) n u
   }"

definition counter_max :: "u8 \<Rightarrow> nat" where
  "counter_max c = (if c = 0x30 then 100 else if c = 0x31 then 10000 else if c = 0x32 then 100000 else 0)"

definition counter_main :: "(string \<Rightarrow> addr) \<Rightarrow> addr \<Rightarrow> 'e ustate \<Rightarrow> (int \<times> 'e ustate) option" where
  "counter_main lit buf u = do {
     u \<leftarrow> puts_lit lit (line_of ''Enter the Test Number: (0): 100, (1): 10000, (2): 100000'') u;
     (cnt, u) \<leftarrow> ece391_read 0 buf 1023 u;
     if cnt = -1 then say lit (''Can'' @ [CHR 0x27] @ line_of ''t read the number from keyboard.'') 3 u
     else do {
       u \<leftarrow> store_byte (buf + word_of_int cnt) 0 u;
       n \<leftarrow> ece391_strlen buf u;
       c \<leftarrow> load_byte buf u;
       if n > 2 \<or> (n = 2 \<and> (c < 0x30 \<or> c > 0x32)) then say lit (line_of ''Wrong Choice!'') 0 u
       else do {
         u \<leftarrow> counter_loop lit buf 0 (counter_max c) u;
         Some (0, u)
       }
     }
   }"

section \<open>Reading an open file\<close>

lemma apart_sym: "apart v A B \<Longrightarrow> apart v B A"
  unfolding apart_def by blast

lemma displays_changes:
  assumes "displays m con" and "changes A (vm m) v" and "apart (vm m) A screen_region"
  shows "displays (m\<lparr>vm := v\<rparr>) con"
proof -
  obtain cells p where con: "con = (cells, p)" by (cases con)
  have w: "window (vm m) VIDEO (cell_bytes cells)" and l: "length cells = 2000"
    using assms(1) con by (auto simp: displays_def displays_cells_def)
  have "window v VIDEO (cell_bytes cells)"
    by (rule window_changes [OF w assms(2)]) (use assms(3) l in simp)
  then show ?thesis using assms(1) con l by (auto simp: displays_def displays_cells_def cursor_ok_def)
qed

definition reading :: "int \<Rightarrow> int \<Rightarrow> u32 \<Rightarrow> u32 \<Rightarrow> (nat \<Rightarrow> u32) \<Rightarrow> nat \<Rightarrow> kernel \<Rightarrow> bool" where
  "reading pid fd ino eof blk pos k \<longleftrightarrow> running pid k \<and> currPid k = pid \<and> currFD k = fd \<and> 2 \<le> fd \<and> fd < 6 \<and>
     present (fd_of k pid fd) \<noteq> -1 \<and> jump_start_idx (fd_of k pid fd) = Some file_struct \<and>
     word_of_int (inode_number (fd_of k pid fd)) = ino \<and> file_pos (fd_of k pid fd) = int pos \<and>
     file_at (kvm k) k ino eof blk \<and> ino \<le> numinodes k \<and> file_area k ino eof blk \<subseteq> kpage"

lemma reading_read:
  assumes "reading pid fd ino eof blk pos k" and "buf \<noteq> 0" and "buf \<noteq> -1"
  shows "ece391_read fd buf 1024 (e, k) = map_option (\<lambda>(n, k). (n, e, k)) (file_read fd buf 1024 k)"
  using assms ece391_read_eq [of fd buf 1024 e k] by (auto simp: reading_def int32_def sys_read_def)

lemma user_dest:
  assumes "running pid k" and "region buf n \<subseteq> upage" and "unat buf + n \<le> 2 ^ 32" and "A \<subseteq> kpage"
  shows "dest_ok (kvm k) buf n A"
proof -
  have m: "mapped (kvm k) upage" using process_page_mapped [of "kvm k" pid] assms(1) by (simp add: running_def upage_def)
  have "apart (kvm k) upage kpage" using process_kpage_apart [of "kvm k" pid] assms(1) by (simp add: running_def upage_def)
  then show ?thesis using mapped_subset [OF m assms(2)] apart_subset [of "kvm k" upage kpage "region buf n" A] assms(2-4)
    by (simp add: dest_ok_def)
qed

lemma fs_upd_fd [simp]:
  "file_at w (upd_fd i j f k) = file_at w k" "file_byte w (upd_fd i j f k) = file_byte w k" "file_area (upd_fd i j f k) = file_area k"
  using fs_cong [of "upd_fd i j f k" k] by simp_all

lemma fs_set_vm [simp]:
  "file_at w (set_vm v k) = file_at w k" "file_byte w (set_vm v k) = file_byte w k" "file_area (set_vm v k) = file_area k"
  using fs_cong [of "set_vm v k" k] by simp_all

lemma fs_mach [simp]:
  "file_at w (k\<lparr>mach := m\<rparr>) = file_at w k" "file_byte w (k\<lparr>mach := m\<rparr>) = file_byte w k" "file_area (k\<lparr>mach := m\<rparr>) = file_area k"
  using fs_cong [of "k\<lparr>mach := m\<rparr>" k] by simp_all

lemma reading_step:
  assumes r: "reading pid fd ino eof blk pos k" and pos: "1024 dvd pos" "pos < unat eof" and n: "n = min 1024 (unat eof - pos)"
    and buf: "region buf 1024 \<subseteq> upage" "unat buf + 1024 \<le> 2 ^ 32" "buf \<noteq> 0" "buf \<noteq> -1" and d: "displays (mach k) con"
    and bs: "\<forall>i < unat eof. file_byte (kvm k) k ino i = Some (bs ! i)"
  shows "\<exists>k'. ece391_read fd buf 1024 (e, k) = Some (int n, e, k') \<and> reading pid fd ino eof blk (pos + n) k' \<and>
    ld_bytes (kvm k') buf n = Some (map (\<lambda>i. bs ! (pos + i)) [0..<n]) \<and> displays (mach k') con \<and>
    (\<forall>i < unat eof. file_byte (kvm k') k' ino i = Some (bs ! i))"
proof -
  have run: "running pid k" and f: "file_at (kvm k) k ino eof blk" and fa: "file_area k ino eof blk \<subseteq> kpage"
    and cp: "cur_process k = pid" using r by (simp_all add: reading_def running_def)
  have "(unat eof + 4095) div 4096 \<le> 1023" using f by (simp add: file_at_def nblocks_def)
  then have sz: "unat eof \<le> 4096 * 1023" by linarith
  have n4: "n \<le> 1024" "n \<le> unat eof - pos" "0 < n" using n pos(2) by simp_all
  have rn: "region buf n \<subseteq> upage" using region_mono [OF n4(1), of buf] buf(1) by blast
  obtain q where q: "pos = 1024 * q" using pos(1) by auto
  have fit: "pos mod 4096 + n \<le> 4096"
  proof -
    have "pos mod 4096 = 1024 * (q mod 4)" using q mult_mod_right [of 1024 q 4] by simp
    moreover have "q mod 4 \<le> 3" using mod_less_divisor [of 4 q] by linarith
    ultimately show ?thesis using n4(1) by linarith
  qed
  have dst: "dest_ok (kvm k) buf n (file_area k ino eof blk)" by (rule user_dest [OF run rn _ fa]) (use buf(2) n4(1) in simp)
  obtain v where v: "file_read fd buf 1024 k = Some (int n, upd_fd pid fd (\<lambda>e. e\<lparr>file_pos := int (pos + n)\<rparr>) (set_vm v k))"
    "changes (region buf n) (kvm k) v" "\<forall>i < n. ld8 v (buf + word_of_nat i) = file_byte (kvm k) k ino (pos + i)"
    using file_read_chunk [of fd "fd_of k pid fd" k eof blk pos 1024 n buf] r pos(2) n sz fit dst cp
    by (auto simp: reading_def)
  let ?k' = "upd_fd pid fd (\<lambda>e. e\<lparr>file_pos := int (pos + n)\<rparr>) (set_vm v k)"
  have ag: "agree kpage (kvm k) v"
  proof (rule agree_changes [OF v(2)])
    have "apart (kvm k) upage kpage" using process_kpage_apart [of "kvm k" pid] run by (simp add: running_def upage_def)
    then show "apart (kvm k) (region buf n) kpage" by (rule apart_subset [OF _ rn]) simp
  qed
  note fag = file_agree [OF agree_mono [OF ag fa] f]
  have "running pid ?k'" using running_changes [OF run v(2)] run by (simp add: running_def)
  then have r': "reading pid fd ino eof blk (pos + n) ?k'" using r fag(1) fa by (simp add: reading_def)
  have "ld_bytes v buf n = Some (map (\<lambda>i. bs ! (pos + i)) [0..<n])"
    using v(3) bs n4(2) by (intro ld_bytesI) auto
  moreover have "displays ((mach k)\<lparr>vm := v\<rparr>) con"
  proof (rule displays_changes [OF d v(2)])
    have "apart (kvm k) upage screen_region" using apart_sym [OF screen_upage_apart] run by (simp add: running_def)
    then show "apart (kvm k) (region buf n) screen_region" by (rule apart_subset [OF _ rn]) simp
  qed
  moreover have "file_byte v k ino i = Some (bs ! i)" if "i < unat eof" for i using fag(2) [OF that] bs that by simp
  ultimately show ?thesis
    using reading_read [OF r buf(3,4), of e] v(1) r' by simp (simp add: set_vm_def)
qed

lemma console_kpage:
  assumes "layout (vm m)" and "console_frame m m'"
  shows "agree kpage (vm m) (vm m')" "layout (vm m')" "page_directory (vm m') = page_directory (vm m)"
proof -
  have ch: "changes screen_region (vm m) (vm m')" using assms(2) by (simp add: console_frame_def)
  show "agree kpage (vm m) (vm m')" by (rule agree_changes [OF ch screen_kpage_apart [OF assms(1)]])
  show "layout (vm m')" "page_directory (vm m') = page_directory (vm m)"
    using assms(1) layout_same_map [OF changes_same_map [OF ch]] same_map_fields [OF changes_same_map [OF ch]] by simp_all
qed

lemma running_console:
  assumes "running pid k" and "console_frame (mach k) m"
  shows "running pid (k\<lparr>mach := m\<rparr>)"
  using assms console_kpage [of "mach k" m] by (simp add: running_def)

lemma reading_console:
  assumes "reading pid fd ino eof blk pos k" and "console_frame (mach k) m"
  shows "reading pid fd ino eof blk pos (k\<lparr>mach := m\<rparr>)"
    and "i < unat eof \<Longrightarrow> file_byte (vm m) (k\<lparr>mach := m\<rparr>) ino i = file_byte (kvm k) k ino i"
proof -
  have l: "layout (kvm k)" and fa: "file_area k ino eof blk \<subseteq> kpage" and f: "file_at (kvm k) k ino eof blk"
    using assms(1) by (simp_all add: reading_def running_def)
  note fag = file_agree [OF agree_mono [OF console_kpage(1) [OF l assms(2)] fa] f]
  show "reading pid fd ino eof blk pos (k\<lparr>mach := m\<rparr>)"
    using assms(1) running_console [OF _ assms(2)] fag(1) by (simp add: reading_def)
  show "i < unat eof \<Longrightarrow> file_byte (vm m) (k\<lparr>mach := m\<rparr>) ino i = file_byte (kvm k) k ino i" using fag(2) by simp
qed

lemma reading_end:
  assumes "reading pid fd ino eof blk (unat eof) k" and "buf \<noteq> 0" and "buf \<noteq> -1"
  shows "\<exists>k'. ece391_read fd buf 1024 (e, k) = Some (0, e, k') \<and> reading pid fd ino eof blk 0 k' \<and> mach k' = mach k"
proof -
  have f: "file_at (kvm k) k ino eof blk" and cp: "cur_process k = pid" using assms(1) by (simp_all add: reading_def running_def)
  have "(unat eof + 4095) div 4096 \<le> 1023" using f by (simp add: file_at_def nblocks_def)
  then have "unat eof < 2 ^ 31 - 4096" by simp
  moreover have "dest_ok (kvm k) buf 0 (file_area k ino eof blk)"
    using unat_u32_lt [of buf] by (simp add: dest_ok_def mapped_def apart_def)
  ultimately have "file_read fd buf 1024 k = Some (0, upd_fd pid fd (\<lambda>e. e\<lparr>file_pos := 0\<rparr>) k)"
    using file_read_chunk [of fd "fd_of k pid fd" k eof blk "unat eof" 1024 0 buf] assms(1) cp by (auto simp: reading_def)
  then show ?thesis using reading_read [OF assms, of e] assms(1) by (simp add: reading_def running_def)
qed

lemma map_nth_split:
  assumes "pos + n \<le> length bs"
  shows "map (\<lambda>i. bs ! (pos + i)) [0..<n] @ drop (pos + n) bs = drop pos bs"
proof -
  have "map (\<lambda>i. bs ! (pos + i)) [0..<n] = take n (drop pos bs)" using assms by (intro nth_equalityI) auto
  then show ?thesis by (simp add: add.commute flip: drop_drop)
qed

lemma cat_loop_prints:
  assumes "reading pid fd ino eof blk pos k" and "1024 dvd pos \<or> pos = unat eof" and "pos \<le> unat eof"
    and buf: "region buf 1024 \<subseteq> upage" "unat buf + 1024 \<le> 2 ^ 32" "buf \<noteq> 0" "buf \<noteq> -1" and "displays (mach k) con"
    and "length bs = unat eof" and "\<forall>i < unat eof. file_byte (kvm k) k ino i = Some (bs ! i)"
  shows "\<exists>k'. cat_loop lit fd buf (e, k) = Some (0, e, k') \<and> displays (mach k') (fold con_putc (drop pos bs) con) \<and>
    reading pid fd ino eof blk 0 k'"
  using assms(1-3,8-10)
proof (induction "unat eof - pos" arbitrary: pos k con rule: less_induct)
  case less
  show ?case
  proof (cases "pos = unat eof")
    case True
    obtain k' where "ece391_read fd buf 1024 (e, k) = Some (0, e, k')" "reading pid fd ino eof blk 0 k'" "mach k' = mach k"
      using reading_end [OF less.prems(1) [unfolded True] buf(3,4), of e] by blast
    then show ?thesis using less.prems(4,5) True by (subst cat_loop.simps) simp
  next
    case False
    then have d: "1024 dvd pos" and lt: "pos < unat eof" using less.prems(2,3) by simp_all
    define n where "n = min 1024 (unat eof - pos)"
    have n0: "0 < n" "pos + n \<le> unat eof" "n \<le> 1024" using lt by (auto simp: n_def)
    obtain k1 where k1: "ece391_read fd buf 1024 (e, k) = Some (int n, e, k1)" "reading pid fd ino eof blk (pos + n) k1"
      "ld_bytes (kvm k1) buf n = Some (map (\<lambda>i. bs ! (pos + i)) [0..<n])" "displays (mach k1) con"
      "\<forall>i < unat eof. file_byte (kvm k1) k1 ino i = Some (bs ! i)"
      using reading_step [OF less.prems(1) d lt n_def buf less.prems(4,6), of e] by blast
    have run: "running pid k1" using k1(2) by (simp add: reading_def)
    have rn: "region buf n \<subseteq> upage" using region_mono [OF n0(3), of buf] buf(1) by blast
    obtain m where m: "ece391_write 1 buf (int n) (e, k1) = Some (int n, e, k1\<lparr>mach := m\<rparr>)"
      "displays m (fold con_putc (map (\<lambda>i. bs ! (pos + i)) [0..<n]) con)" "console_frame (mach k1) m"
      using write_user [OF run k1(3) rn k1(4) _ buf(3), of e] n0(3) by auto
    let ?k2 = "k1\<lparr>mach := m\<rparr>"
    note r2 = reading_console [OF k1(2) m(3)]
    have "1024 dvd pos + n \<or> pos + n = unat eof" using d by (auto simp: n_def min_def)
    moreover have "\<forall>i < unat eof. file_byte (kvm ?k2) ?k2 ino i = Some (bs ! i)" using r2(2) k1(5) by simp
    moreover have "displays (mach ?k2) (fold con_putc (map (\<lambda>i. bs ! (pos + i)) [0..<n]) con)" using m(2) by simp
    moreover have "unat eof - (pos + n) < unat eof - pos" using n0 lt by simp
    ultimately obtain k' where k': "cat_loop lit fd buf (e, ?k2) = Some (0, e, k')"
      "displays (mach k') (fold con_putc (drop (pos + n) bs) (fold con_putc (map (\<lambda>i. bs ! (pos + i)) [0..<n]) con))"
      "reading pid fd ino eof blk 0 k'"
      using less.hyps [OF _ r2(1) _ n0(2) _ less.prems(5)] by blast
    have "fold con_putc (drop (pos + n) bs) (fold con_putc (map (\<lambda>i. bs ! (pos + i)) [0..<n]) con) = fold con_putc (drop pos bs) con"
      using map_nth_split [of pos n bs] n0(2) less.prems(5) by (metis comp_apply fold_append)
    then show ?thesis using k1(1) m(1) k' n0(1) by (subst cat_loop.simps) simp
  qed
qed

section \<open>Arguments and names\<close>

lemma getargs_user:
  assumes "running pid k" and "length (args (PCB_array k pid)) = 1024" and "storeargs k = cs @ 0 # rest" and "length (storeargs k) = 1024"
    and "cs \<noteq> []" and "0 \<notin> set cs" and "length cs < 1023" and "region buf 1024 \<subseteq> upage"
  shows "\<exists>v as. ece391_getargs buf 1024 (e, k) = Some (0, e, set_vm v (upd_pcb pid (\<lambda>p. p\<lparr>args := as\<rparr>) k)) \<and>
    changes (region buf 1024) (kvm k) v \<and> ld_bytes v buf 1024 = Some as \<and> take (length cs + 1) as = cs @ [0]"
proof -
  let ?as = "(storeargs k)[1023 := 10]"
  have m: "mapped (kvm k) (region buf 1024)"
    using mapped_subset [OF process_page_mapped [of "kvm k" pid]] assms(1,8) by (simp add: running_def upage_def)
  have l: "length ?as = 1024" using assms(4) by simp
  obtain v where v: "st_bytes (kvm k) buf ?as = Some v" "ld_bytes v buf 1024 = Some ?as"
    using st_bytes_mapped [of "kvm k" buf ?as] m l by auto
  have ch: "changes (region buf 1024) (kvm k) v" using st_bytes_changes [OF v(1)] l by simp
  have a0: "?as ! 0 \<noteq> 0" using assms(3,5,6,7) by (cases cs) auto
  have tk: "take (length cs + 1) ?as = cs @ [0]" using assms(3,7) by (simp add: take_update_cancel)
  have "terminal_getargs (args (get_current_PCB k)) 1024 k = Some ?as"
    using assms(1,2,4) by (simp add: terminal_getargs_def get_current_PCB_def running_def lcopy_def)
  then have "sys_getargs buf 1024 k = Some (0, set_vm v (upd_pcb pid (\<lambda>p. p\<lparr>args := ?as\<rparr>) k))"
    using a0 v(1) l assms(1) by (simp add: sys_getargs_def copy_out_def on_vm_def Let_def running_def)
  then show ?thesis using ch v(2) tk by (simp add: ece391_getargs_eq int32_def) blast
qed

lemma reads_user:
  assumes "ld_bytes v buf n = Some as" and "take (length cs + 1) as = cs @ [0]" and "0 \<notin> set cs" and "length cs < n"
  shows "reads (str_at v buf) cs" "cs \<noteq> [] \<Longrightarrow> \<exists>c. ld8 v buf = Some c \<and> c \<noteq> 0"
proof -
  have len: "length as = n" by (rule ld_bytes_length [OF assms(1)])
  have nth: "str_at v buf i = Some ((cs @ [0]) ! i)" if "i \<le> length cs" for i
  proof -
    have "as ! i = take (length cs + 1) as ! i" using that by simp
    also have "\<dots> = (cs @ [0]) ! i" by (simp only: assms(2))
    finally show ?thesis using ld_bytes_nth [OF assms(1), of i] that assms(4) by (simp add: str_at_def)
  qed
  then show "reads (str_at v buf) cs" using assms(3) by (auto simp: reads_def nth_append)
  show "cs \<noteq> [] \<Longrightarrow> \<exists>c. ld8 v buf = Some c \<and> c \<noteq> 0"
    using nth [of 0] assms(3) by (cases cs) (auto simp: str_at_def)
qed

lemma open_user:
  assumes "directory (kvm k) (startdentry k) = Some ds" and "find (\<lambda>d. entry_name (dname d) = take 32 cs) ds = Some d"
    and "reads (str_at (kvm k) name) cs" and "ld8 (kvm k) name = Some c" and "c \<noteq> 0"
    and "fst (get_fdAvail (cur_process k) k) = fd" and "fd \<noteq> -1"
  shows "ece391_open name (e, k) = Some (fd, e,
    (upd_fd (cur_process k) fd (opened d) (k\<lparr>currDentry := d\<rparr>))\<lparr>currFD := fd, currPid := cur_process k\<rparr>)"
proof -
  obtain k1 where "get_fdAvail (cur_process k) k = (fd, k1)" using assms(6) by (cases "get_fdAvail (cur_process k) k") auto
  from insert_fdt_found [OF assms(1,3,2) this assms(7)] show ?thesis
    using assms(4,5) by (simp add: ece391_open_eq sys_open_def Let_def)
qed

section \<open>Listing the directory\<close>

definition listing :: "int \<Rightarrow> int \<Rightarrow> dentry_t list \<Rightarrow> nat \<Rightarrow> nat \<Rightarrow> kernel \<Rightarrow> bool" where
  "listing pid fd ds nd i k \<longleftrightarrow> running pid k \<and> currPid k = pid \<and> currFD k = fd \<and> 2 \<le> fd \<and> fd < 6 \<and>
     present (fd_of k pid fd) \<noteq> -1 \<and> jump_start_idx (fd_of k pid fd) = Some dir_struct \<and>
     directory (kvm k) (startdentry k) = Some ds \<and> region (startdentry k) 4096 \<subseteq> kpage \<and>
     nd \<le> 64 \<and> numdentries k = word_of_nat nd \<and> curfile k = word_of_nat i"

lemma listing_console:
  assumes "listing pid fd ds nd i k" and "console_frame (mach k) m"
  shows "listing pid fd ds nd i (k\<lparr>mach := m\<rparr>)"
proof -
  have l: "layout (kvm k)" and s: "region (startdentry k) 4096 \<subseteq> kpage" using assms(1) by (simp_all add: listing_def running_def)
  have "directory (vm m) (startdentry k) = directory (kvm k) (startdentry k)"
    by (rule directory_agree [OF agree_mono [OF console_kpage(1) [OF l assms(2)] s]])
  then show ?thesis using assms(1) running_console [OF _ assms(2)] by (simp add: listing_def)
qed

lemma listing_upage:
  assumes "listing pid fd ds nd i k" and "changes A (kvm k) v" and "A \<subseteq> upage"
  shows "listing pid fd ds nd i (set_vm v k)" and "displays (mach k) con \<Longrightarrow> displays (mach (set_vm v k)) con"
proof -
  have run: "running pid k" using assms(1) by (simp add: listing_def)
  have up: "apart (kvm k) A kpage" "apart (kvm k) A screen_region"
    using apart_subset [OF process_kpage_apart [of "kvm k" pid], of A kpage] apart_subset [OF apart_sym [OF screen_upage_apart [of "kvm k" pid]], of A screen_region]
      run assms(3) by (simp_all add: running_def upage_def)
  have "directory v (startdentry k) = directory (kvm k) (startdentry k)"
    using assms(1) by (intro directory_agree agree_mono [OF agree_changes [OF assms(2) up(1)]]) (simp add: listing_def)
  then show "listing pid fd ds nd i (set_vm v k)"
    using assms(1) running_changes [OF run assms(2)] run by (simp add: listing_def running_def)
  show "displays (mach k) con \<Longrightarrow> displays (mach (set_vm v k)) con"
    using displays_changes [OF _ assms(2) up(2)] by (simp add: set_vm_def)
qed

lemma listing_read:
  assumes l: "listing pid fd ds nd i k" and i: "i < nd" and buf: "region buf 33 \<subseteq> upage" "unat buf + 33 \<le> 2 ^ 32" "buf \<noteq> 0" "buf \<noteq> -1"
    and d: "displays (mach k) con"
  shows "\<exists>k'. ece391_read fd buf 32 (e, k) = Some (if i + 1 = nd then 0 else int (length (entry_name (dname (ds ! i)))), e, k') \<and>
    listing pid fd ds nd (if i + 1 = nd then 0 else i + 1) k' \<and> displays (mach k') con \<and> ld_bytes (kvm k') buf 32 = Some (padded_name (ds ! i)) \<and>
    changes (region buf 32) (kvm k) (kvm k') \<and> k' = k\<lparr>mach := mach k', curfile := curfile k'\<rparr>"
proof -
  have run: "running pid k" and nd: "nd \<le> 64" and dir: "directory (kvm k) (startdentry k) = Some ds" and s: "region (startdentry k) 4096 \<subseteq> kpage"
    and ci: "curfile k = word_of_nat i" "numdentries k = word_of_nat nd" using l by (simp_all add: listing_def)
  have c: "copy_dentry (kvm k) (startdentry k + 64 * curfile k) = Some (ds ! i)"
    using those_nth [OF dir [unfolded directory_def], of i] i nd ci by simp
  have c64: "curfile k < 64" using ci i nd by (simp add: word_less_nat_alt unat_word_of_nat_u32)
  have rb: "region buf 32 \<subseteq> upage" using region_mono [of 32 33 buf] buf(1) by auto
  have "region (startdentry k + 64 * curfile k) 64 \<subseteq> kpage"
    using region_sub [of "64 * i" 64 4096 "startdentry k"] i nd s ci by simp
  then have dst: "dest_ok (kvm k) buf 32 (region (startdentry k + 64 * curfile k) 64)"
    using user_dest [OF run rb] buf(2) by simp
  obtain v where v: "ld_bytes v buf 32 = Some (padded_name (ds ! i))" "changes (region buf 32) (kvm k) v"
    "dir_read fd buf 32 (e_dentry e) k = Some (if curfile k + 1 = numdentries k then (0, (set_vm v k)\<lparr>curfile := 0\<rparr>)
       else (int (length (entry_name (dname (ds ! i)))), (set_vm v k)\<lparr>curfile := curfile k + 1\<rparr>))"
    using dir_read_ok [OF c c64 dst] by blast
  have "(word_of_nat (i + 1) :: u32) = word_of_nat nd \<longleftrightarrow> i + 1 = nd"
    using word_of_nat_inj_u32 [of "i + 1" nd] i nd by auto
  then have e1: "curfile k + 1 = numdentries k \<longleftrightarrow> i + 1 = nd" using ci by (simp add: add.commute)
  note lu = listing_upage [OF l v(2) rb]
  have l': "listing pid fd ds nd 0 ((set_vm v k)\<lparr>curfile := 0\<rparr>)" "listing pid fd ds nd (i + 1) ((set_vm v k)\<lparr>curfile := curfile k + 1\<rparr>)"
    using lu(1) ci(1) by (simp_all add: listing_def running_def add.commute)
  have "ece391_read fd buf 32 (e, k) = map_option (\<lambda>(n, k). (n, e, k)) (dir_read fd buf 32 (e_dentry e) k)"
    using l buf(3,4) ece391_read_eq [of fd buf 32 e k] by (auto simp: listing_def int32_def sys_read_def)
  then show ?thesis using v e1 l' lu(2) [OF d] by (auto simp: set_vm_def)
qed

lemma store_user:
  assumes "running pid k" and "a \<in> upage"
  shows "\<exists>v. store_byte a b (e, k) = Some (e, set_vm v k) \<and> st8 (kvm k) a b = Some v"
proof -
  have "user_access (kvm k) a" using user_access_upage [of "kvm k" pid a] assms by (simp add: running_def)
  moreover have "mapped (kvm k) upage" using process_page_mapped [of "kvm k" pid] assms(1) by (simp add: running_def upage_def)
  then obtain p where "translate (kvm k) a = Some p" using assms(2) by (auto simp: mapped_def)
  ultimately show ?thesis by (simp add: store_byte_def on_vm_def ust8_def st8_def)
qed

lemma ld_bytes_store:
  assumes "mapped v (region a n)" and "ld_bytes v a n = Some d" and "i < n" and "n \<le> 2 ^ 32" and "st8 v (a + word_of_nat i) b = Some v'"
  shows "ld_bytes v' a n = Some (d[i := b])"
proof (rule ld_bytesI)
  have len: "length d = n" by (rule ld_bytes_length [OF assms(2)])
  then show "length (d[i := b]) = n" by simp
  fix j assume j: "j < n"
  show "ld8 v' (a + word_of_nat j) = Some (d[i := b] ! j)"
  proof (cases "j = i")
    case True
    then show ?thesis using assms(3,5) len ld8_st8 [of v "a + word_of_nat i" b v'] by simp
  next
    case False
    then have "a + word_of_nat i \<noteq> a + word_of_nat j" using word_of_nat_inj_u32 [of i j] j assms(3,4) by simp
    then have "apart v {a + word_of_nat i} {a + word_of_nat j}"
      using j assms(3) by (intro apart_mapped mapped_subset [OF assms(1)]) (auto intro: region_memI)
    from ld8_changes [OF st8_changes [OF assms(5)] this] show ?thesis using ld_bytes_nth [OF assms(2) j] False by simp
  qed
qed

lemma ld_bytes_terminated:
  assumes "mapped v (region buf (Suc n))" and "ld_bytes v buf m = Some bs" and "n \<le> m" and "st8 v (buf + word_of_nat n) c = Some v'"
    and "Suc n \<le> 2 ^ 32"
  shows "ld_bytes v' buf (Suc n) = Some (take n bs @ [c])"
proof -
  let ?a = "buf + word_of_nat n"
  have ch: "changes {?a} v v'" by (rule st8_changes [OF assms(4)])
  have a: "?a \<in> region buf (Suc n)" by (rule region_memI) simp
  have "?a \<notin> region buf n"
  proof
    assume "?a \<in> region buf n"
    then obtain i where "i < n" "word_of_nat n = (word_of_nat i :: u32)" by (auto simp: region_def)
    then show False using word_of_nat_inj_u32 [of n i] assms(5) by simp
  qed
  then have "apart v {?a} (region buf n)"
    using a region_mono [of n "Suc n" buf] by (intro apart_mapped mapped_subset [OF assms(1)]) auto
  then have "ld_bytes v' buf n = ld_bytes v buf n" by (rule ld_bytes_changes [OF ch])
  also have "\<dots> = Some (take n bs)"
    using ld_bytes_append [of v buf n "m - n"] assms(2,3) by (auto split: Option.bind_splits dest: ld_bytes_length)
  finally have "ld_bytes v' buf n = Some (take n bs)" .
  moreover have "ld8 v' ?a = Some c" using assms(4) ld8_st8 [of v ?a c v'] by simp
  ultimately show ?thesis using ld_bytes_append [of v' buf n 1] by simp
qed

lemma listing_print:
  assumes l: "listing pid fd ds nd i k" and buf: "region buf 33 \<subseteq> upage" "buf \<noteq> 0" and d: "displays (mach k) con"
    and b: "ld_bytes (kvm k) buf 32 = Some (padded_name d')" and n: "n = length (entry_name (dname d'))" "n \<le> 32"
  shows "\<exists>k1 k2. store_byte (buf + word_of_int (int n)) 10 (e, k) = Some (e, k1) \<and>
    ece391_write 1 buf (int n + 1) (e, k1) = Some (int n + 1, e, k2) \<and> listing pid fd ds nd i k2 \<and>
    displays (mach k2) (fold con_putc (entry_name (dname d') @ [10]) con)"
proof -
  have run: "running pid k" using l by (simp add: listing_def)
  have a: "buf + word_of_nat n \<in> upage" using buf(1) region_memI [of n 33 buf] n(2) by auto
  obtain v where v: "store_byte (buf + word_of_nat n) 10 (e, k) = Some (e, set_vm v k)" "st8 (kvm k) (buf + word_of_nat n) 10 = Some v"
    using store_user [OF run a, of 10 e] by blast
  have rb: "region buf (Suc n) \<subseteq> upage" using region_mono [of "Suc n" 33 buf] buf(1) n(2) by auto
  have m: "mapped (kvm k) (region buf (Suc n))"
    using mapped_subset [OF process_page_mapped [of "kvm k" pid]] rb run by (simp add: running_def upage_def)
  have ld: "ld_bytes v buf (Suc n) = Some (entry_name (dname d') @ [10])"
    using ld_bytes_terminated [OF m b n(2) v(2)] n by (simp add: padded_name_def)
  note lu = listing_upage [OF l st8_changes [OF v(2)]]
  have l1: "listing pid fd ds nd i (set_vm v k)" "displays (mach (set_vm v k)) con" using lu a d by simp_all
  have run1: "running pid (set_vm v k)" using l1(1) by (simp add: listing_def)
  have ld1: "ld_bytes (kvm (set_vm v k)) buf (Suc n) = Some (entry_name (dname d') @ [10])" using ld by simp
  obtain m' where "ece391_write 1 buf (int (Suc n)) (e, set_vm v k) = Some (int (Suc n), e, (set_vm v k)\<lparr>mach := m'\<rparr>)"
    "displays m' (fold con_putc (entry_name (dname d') @ [10]) con)" "console_frame (mach (set_vm v k)) m'"
    using write_user [OF run1 ld1 rb l1(2) _ buf(2), of e] n(2) by auto
  then show ?thesis using v(1) listing_console [OF l1(1), of m']
    by (intro exI [of _ "set_vm v k"] exI [of _ "(set_vm v k)\<lparr>mach := m'\<rparr>"]) (simp add: add.commute)
qed

definition ls_output :: "dentry_t list \<Rightarrow> u8 list" where
  "ls_output ds = concat (map (\<lambda>d. entry_name (dname d) @ [10]) ds)"

lemma ls_loop_prints:
  assumes "listing pid fd ds nd i k" and "i < nd" and buf: "region buf 33 \<subseteq> upage" "unat buf + 33 \<le> 2 ^ 32" "buf \<noteq> 0" "buf \<noteq> -1"
    and "displays (mach k) con" and named: "\<forall>j < nd. entry_name (dname (ds ! j)) \<noteq> []"
  shows "\<exists>k'. ls_loop lit fd buf (e, k) = Some (0, e, k') \<and> listing pid fd ds nd 0 k' \<and>
    displays (mach k') (fold con_putc (ls_output (map ((!) ds) [i..<nd - 1])) con)"
  using assms(1,2,7)
proof (induction "nd - i" arbitrary: i k con rule: less_induct)
  case less
  let ?d = "ds ! i"
  obtain k1 where k1: "ece391_read fd buf 32 (e, k) = Some (if i + 1 = nd then 0 else int (length (entry_name (dname ?d))), e, k1)"
    "listing pid fd ds nd (if i + 1 = nd then 0 else i + 1) k1" "displays (mach k1) con" "ld_bytes (kvm k1) buf 32 = Some (padded_name ?d)"
    using listing_read [OF less.prems(1,2) buf less.prems(3), of e] by blast
  show ?case
  proof (cases "i + 1 = nd")
    case True
    then have "[i..<nd - 1] = []" by simp
    then show ?thesis using k1 True by (subst ls_loop.simps) (simp add: ls_output_def)
  next
    case False
    define n where "n = length (entry_name (dname ?d))"
    have pl: "length (padded_name ?d) = 32" by (rule ld_bytes_length [OF k1(4)])
    then have n: "n \<le> 32" "0 < n" using named less.prems(2) by (auto simp: n_def padded_name_def)
    have l1: "listing pid fd ds nd (i + 1) k1" using k1(2) False by simp
    obtain k2 k3 where k3: "store_byte (buf + word_of_int (int n)) 10 (e, k1) = Some (e, k2)"
      "ece391_write 1 buf (int n + 1) (e, k2) = Some (int n + 1, e, k3)" "listing pid fd ds nd (i + 1) k3"
      "displays (mach k3) (fold con_putc (entry_name (dname ?d) @ [10]) con)"
      using listing_print [OF l1 buf(1,3) k1(3,4) n_def n(1), of e] by blast
    have lt: "nd - (i + 1) < nd - i" "i + 1 < nd" using less.prems(2) False by simp_all
    obtain k' where k': "ls_loop lit fd buf (e, k3) = Some (0, e, k')" "listing pid fd ds nd 0 k'"
      "displays (mach k') (fold con_putc (ls_output (map ((!) ds) [i + 1..<nd - 1])) (fold con_putc (entry_name (dname ?d) @ [10]) con))"
      using less.hyps [OF lt(1) k3(3) lt(2) k3(4)] by blast
    have "[i..<nd - 1] = i # [i + 1..<nd - 1]" using lt(2) by (simp add: upt_rec)
    then have "ls_output (map ((!) ds) [i..<nd - 1]) = (entry_name (dname ?d) @ [10]) @ ls_output (map ((!) ds) [i + 1..<nd - 1])"
      by (simp add: ls_output_def)
    then show ?thesis using k1(1) k3(1,2) k' False n(2) by (subst ls_loop.simps) (simp add: n_def)
  qed
qed

section \<open>Printing string constants\<close>

text \<open>The string constants of \<open>ss\<close> are in the user page.\<close>

definition has_literals :: "(string \<Rightarrow> addr) \<Rightarrow> string set \<Rightarrow> kernel \<Rightarrow> bool" where
  "has_literals lit ss k \<longleftrightarrow> (\<forall>s \<in> ss. cstring (kvm k) (lit s) (map of_char s) \<and> region (lit s) (Suc (length s)) \<subseteq> upage)"

lemma upage_nonzero: "region a (Suc n) \<subseteq> upage \<Longrightarrow> a \<noteq> 0"
proof
  assume r: "region a (Suc n) \<subseteq> upage" and a: "a = 0"
  have "a \<in> upage" using r by (simp add: region_Suc)
  then show False using a by (simp add: upage_def)
qed

definition prints :: "'e sysenv \<Rightarrow> kernel \<Rightarrow> u8 list \<Rightarrow> console \<Rightarrow> int \<Rightarrow> (int \<times> 'e ustate) option \<Rightarrow> bool" where
  "prints e k bs con r res \<longleftrightarrow> (\<exists>m. res = Some (r, e, k\<lparr>mach := m\<rparr>) \<and> displays m (fold con_putc bs con) \<and> console_frame (mach k) m)"

lemma say_prints:
  assumes "running pid k" and "has_literals lit ss k" and "s \<in> ss" and "displays (mach k) con"
  shows "prints e k (map of_char s) con r (say lit s r (e, k))"
proof -
  have c: "cstring (kvm k) (lit s) (map of_char s)" "region (lit s) (Suc (length (map of_char s :: u8 list))) \<subseteq> upage"
    using assms(2,3) by (simp_all add: has_literals_def)
  from fdputs_user [OF assms(1) c assms(4) upage_nonzero [OF c(2)], of e] show ?thesis
    by (auto simp: prints_def say_def puts_lit_def)
qed

section \<open>Properties\<close>

text \<open>
  C7: \<open>cat\<close> prints the file.  A process runs \<open>ece391cat\<close> with a file name as its argument
  string, the file is a regular file of the directory with the bytes \<open>bs\<close>, and the lowest free
  descriptor \<open>fd\<close> is below 6 and has position 0.  Then \<open>main\<close> ends: through \<open>getargs\<close>, \<open>open\<close>
  and reads of 1024 bytes until one returns 0, each followed by a write, it prints exactly the
  bytes of the file on the console and returns 0.
\<close>

theorem cat_prints_file:
  assumes "running pid k" and "length (args (PCB_array k pid)) = 1024" and "storeargs k = cs @ 0 # rest" and "length (storeargs k) = 1024"
    and "cs \<noteq> []" and "0 \<notin> set cs" and "length cs < 1023"
    and "directory (kvm k) (startdentry k) = Some ds" and "region (startdentry k) 4096 \<subseteq> kpage"
    and "find (\<lambda>d. entry_name (dname d) = take 32 cs) ds = Some d" and "fileType d = 2"
    and "file_at (kvm k) k (inodeNum d) eof blk" and "inodeNum d \<le> numinodes k" and "file_area k (inodeNum d) eof blk \<subseteq> kpage"
    and "fst (get_fdAvail pid k) = fd" and "2 \<le> fd" and "fd < 6" and "file_pos (fd_of k pid fd) = 0"
    and "length bs = unat eof" and "\<forall>i < unat eof. file_byte (kvm k) k (inodeNum d) i = Some (bs ! i)"
    and "displays (mach k) con" and "region buf 1024 \<subseteq> upage" and "unat buf + 1024 \<le> 2 ^ 32" and "buf \<noteq> -1"
  shows "\<exists>k'. cat_main lit buf (e, k) = Some (0, e, k') \<and> displays (mach k') (fold con_putc bs con)"
proof -
  have b0: "buf \<noteq> 0"
  proof
    assume "buf = 0"
    then have "(0 :: u32) \<in> upage" using assms(22) region_memI [of 0 1024 buf] by auto
    then show False by (simp add: upage_def)
  qed
  obtain v as where g: "ece391_getargs buf 1024 (e, k) = Some (0, e, set_vm v (upd_pcb pid (\<lambda>p. p\<lparr>args := as\<rparr>) k))"
    "changes (region buf 1024) (kvm k) v" "ld_bytes v buf 1024 = Some as" "take (length cs + 1) as = cs @ [0]"
    using getargs_user [OF assms(1-7,22), of e] by blast
  let ?k1 = "set_vm v (upd_pcb pid (\<lambda>p. p\<lparr>args := as\<rparr>) k)"
  have up: "apart (kvm k) upage kpage" "apart (kvm k) upage screen_region"
    using process_kpage_apart [of "kvm k" pid] apart_sym [OF screen_upage_apart [of "kvm k" pid]] assms(1)
    by (simp_all add: running_def upage_def)
  have ag: "agree kpage (kvm k) v" by (rule agree_changes [OF g(2) apart_subset [OF up(1) assms(22) subset_refl]])
  have run1: "running pid ?k1" using running_changes [OF assms(1) g(2)] assms(1) by (simp add: running_def)
  have dir1: "directory (kvm ?k1) (startdentry ?k1) = Some ds" using directory_agree [OF agree_mono [OF ag assms(9)]] assms(8) by simp
  note fag = file_agree [OF agree_mono [OF ag assms(14)] assms(12)]
  have rd: "reads (str_at (kvm ?k1) buf) cs" and c0: "\<exists>c. ld8 (kvm ?k1) buf = Some c \<and> c \<noteq> 0"
    using reads_user [OF g(3,4) assms(6)] assms(5,7) by simp_all
  have fd1: "fst (get_fdAvail pid ?k1) = fd"
  proof -
    have "fst (get_fdAvail_from pid i n ?k1) = fst (get_fdAvail_from pid i n k)" for i n
      by (induction n arbitrary: i) auto
    then show ?thesis using assms(15) by (simp add: get_fdAvail_def)
  qed
  have cp1: "cur_process ?k1 = pid" using run1 by (simp add: running_def)
  define k2 where "k2 = (upd_fd pid fd (opened d) (?k1\<lparr>currDentry := d\<rparr>))\<lparr>currFD := fd, currPid := pid\<rparr>"
  have o: "ece391_open buf (e, ?k1) = Some (fd, e, k2)"
    using open_user [OF dir1 assms(10) rd, of _ fd e] c0 fd1 cp1 assms(16) unfolding k2_def by auto
  have cg: "file_at w k2 = file_at w k" "file_byte w k2 = file_byte w k" "file_area k2 = file_area k" for w
    using fs_cong [of k2 k] by (simp_all add: k2_def)
  have kv2: "kvm k2 = v" "mach k2 = (mach k)\<lparr>vm := v\<rparr>" "numinodes k2 = numinodes k" by (simp_all add: k2_def) (simp add: set_vm_def)
  have "running pid k2" using run1 by (simp add: running_def k2_def)
  moreover have "word_of_int (inode_number (fd_of k2 pid fd)) = inodeNum d" "jump_start_idx (fd_of k2 pid fd) = Some file_struct"
    "present (fd_of k2 pid fd) = 0" "file_pos (fd_of k2 pid fd) = int 0"
    using assms(11,18) by (simp_all add: k2_def opened_def fop_of_type_def)
  ultimately have rdg: "reading pid fd (inodeNum d) eof blk 0 k2"
    using assms(13,14,16,17) fag(1) by (simp add: reading_def kv2 cg) (simp add: k2_def)
  have dis: "displays (mach k2) con"
    unfolding kv2 by (rule displays_changes [OF assms(21) g(2) apart_subset [OF up(2) assms(22) subset_refl]])
  have fb: "\<forall>i < unat eof. file_byte (kvm k2) k2 (inodeNum d) i = Some (bs ! i)" using fag(2) assms(20) by (simp add: kv2 cg)
  obtain k' where k': "cat_loop lit fd buf (e, k2) = Some (0, e, k')" "displays (mach k') (fold con_putc bs con)"
    using cat_loop_prints [OF rdg _ _ assms(22,23) b0 assms(24) dis assms(19) fb, of lit e] by auto
  have "fd \<noteq> -1" using assms(16) by simp
  then show ?thesis using g(1) o k' by (simp add: cat_main_def)
qed

definition sample_cat :: kernel where
  "sample_cat = (set_vm (map_page (proc_page 0) 0x08000000 0x87 (kvm sample_exec)) sample_exec)\<lparr>storeargs := 0x61 # replicate 1023 0\<rparr>"

lemma upage_region:
  assumes "0x8000000 \<le> unat a" and "unat a + n \<le> 0x8400000"
  shows "region a n \<subseteq> upage"
proof
  fix x assume "x \<in> region a n"
  then obtain i where i: "i < n" "x = a + word_of_nat i" by (auto simp: region_def)
  have "unat x = unat a + i" using i assms(2) by (simp add: unat_word_ariths unat_word_of_nat_u32)
  then have "unat (drop_bit 22 x) = unat (32 :: u32)"
    using i assms by (simp only: unat_drop_bit_eq) (simp add: drop_bit_eq_div)
  then have "drop_bit 22 x = 32" by (rule unsigned_word_eqI)
  then show "x \<in> upage" by (simp add: upage_def)
qed

lemma sample_cat_fields:
  "cur_terminal sample_cat = 0" "cur_process sample_cat = 0" "startdentry sample_cat = 0x410040" "start_addr sample_cat = 0x410000"
  "numinodes sample_cat = 1" "elf_buf sample_cat = 0x7FF000" "PCB_array sample_cat = PCB_array sample_exec" "cursor_ok (mach sample_cat)"
  by (simp_all add: sample_cat_def)
    (simp_all add: sample_exec_def zero_kernel_def zero_terminal_def set_vm_def cursor_ok_def NUM_COLS_def NUM_ROWS_def)

lemma sample_cat_running: "running 0 sample_cat" "agree kpage (kvm sample_exec) (kvm sample_cat)"
proof -
  note mp = map_process_page [OF sample_exec_ready(1), of 0]
  have kv: "kvm sample_cat = set_pde 32 (proc_pde 0) (kvm sample_exec)" using mp(1) by (simp add: sample_cat_def)
  have l: "layout (kvm sample_cat)" using mp unfolding kv by simp
  show "running 0 sample_cat" using l by (simp add: running_def sample_cat_fields(2)) (simp add: kv)
  show "agree kpage (kvm sample_exec) (kvm sample_cat)" using kpage_pde [OF sample_exec_ready(1)] l unfolding kv by simp
qed

lemma sample_cat_program: "program sample_cat [0x61] sample_dentry 28 (\<lambda>_. 0) sample_hdr"
proof (rule program_agree(1) [OF sample_program])
  have "file_area sample_exec (inodeNum sample_dentry) 28 (\<lambda>_. 0) \<union> region (startdentry sample_exec) 4096 \<subseteq> kpage"
    using sample_program by (simp add: program_def)
  then show "agree (file_area sample_exec (inodeNum sample_dentry) 28 (\<lambda>_. 0) \<union> region (startdentry sample_exec) 4096)
      (kvm sample_exec) (kvm sample_cat)" by (rule agree_mono [OF sample_cat_running(2)])
qed (simp_all add: sample_cat_fields)

lemma init_PCB_args: "length (args (PCB_array (init_PCB k) i)) = length (args (PCB_array k i))"
  "2 \<le> fd \<Longrightarrow> file_pos (fd_of (init_PCB k) i fd) = file_pos (fd_of k i fd)"
proof -
  have f: "length (args (PCB_array (init_fds j l n k) i)) = length (args (PCB_array k i)) \<and>
      file_pos (fd_of (init_fds j l n k) i fd) = file_pos (fd_of k i fd)" for j l n k
    by (induction n arbitrary: l k) (auto simp: upd_fd_def)
  have "length (args (PCB_array (init_pcbs j n k) i)) = length (args (PCB_array k i)) \<and>
      (2 \<le> fd \<longrightarrow> file_pos (fd_of (init_pcbs j n k) i fd) = file_pos (fd_of k i fd))" for j n k
    by (induction n arbitrary: j k) (auto simp: Let_def f upd_fd_def)
  then show "length (args (PCB_array (init_PCB k) i)) = length (args (PCB_array k i))"
    "2 \<le> fd \<Longrightarrow> file_pos (fd_of (init_PCB k) i fd) = file_pos (fd_of k i fd)" by (simp_all add: init_PCB_def)
qed

theorem cat_prints_file_witness:
  "\<exists>k' con. cat_main (\<lambda>_. 0) 0x08100000 (sample_env, sample_cat) = Some (0, sample_env, k') \<and>
    displays (mach k') (fold con_putc sample_hdr con)"
proof -
  let ?k = sample_cat
  have P: "\<exists>ds. directory (kvm ?k) 0x410040 = Some ds \<and> find (\<lambda>d. entry_name (dname d) = take 32 [0x61]) ds = Some sample_dentry"
    "file_at (kvm ?k) ?k 0 28 (\<lambda>_. 0)" "\<forall>i < 28. file_byte (kvm ?k) ?k 0 i = Some (sample_hdr ! i)"
    "file_area ?k 0 28 (\<lambda>_. 0) \<subseteq> kpage" "region (0x410040 :: addr) 4096 \<subseteq> kpage" "length sample_hdr = 28"
    using sample_cat_program by (auto simp: program_def sample_dentry_def sample_cat_fields)
  obtain ds where ds: "directory (kvm ?k) 0x410040 = Some ds" "find (\<lambda>d. entry_name (dname d) = take 32 [0x61]) ds = Some sample_dentry"
    using P(1) by blast
  have l: "layout (kvm ?k)" using sample_cat_running(1) by (simp add: running_def)
  obtain con where con: "displays (mach ?k) con"
    using displays_exists [of "mach ?k"] screen_mapped [OF l] sample_cat_fields(8) by auto
  have pcb: "PCB_array ?k 0 = PCB_array (init_PCB ((zero_kernel (flat_machine (\<lambda>_. 0)\<lparr>vm := init_paging (flat_vmem sample_elf)\<rparr>) 0x7FFFFC 0x7FF000 0x420000)
     \<lparr>start_addr := 0x410000, numdentries := 1, numinodes := 1, numblocks := 1, startdentry := 0x410040\<rparr>)) 0"
    by (simp add: sample_cat_fields) (simp add: sample_exec_def)
  have a: "length (args (PCB_array ?k 0)) = 1024" "file_pos (fd_of ?k 0 2) = 0"
    unfolding pcb by (simp_all add: init_PCB_args) (simp_all add: zero_pcb_def zero_fd_def)
  have "fd_free 0 ?k 2" unfolding fd_free_def pcb using init_PCB_free(2) [of 0 2] by (simp add: fd_free_def)
  then have fd: "fst (get_fdAvail 0 ?k) = 2" by (simp add: get_fdAvail_def fd_free_def eval_nat_numeral)
  have st: "storeargs ?k = [0x61] @ 0 # replicate 1022 0" "length (storeargs ?k) = 1024"
    by (simp_all add: sample_cat_def replicate_Suc [symmetric] del: replicate_Suc)
  have rg: "region (0x08100000 :: addr) 1024 \<subseteq> upage" by (rule upage_region) simp_all
  have nm: "[0x61 :: u8] \<noteq> []" "0 \<notin> set [0x61 :: u8]" "length [0x61 :: u8] < 1023" by simp_all
  obtain k' where "cat_main (\<lambda>_. 0) 0x08100000 (sample_env, ?k) = Some (0, sample_env, k')" "displays (mach k') (fold con_putc sample_hdr con)"
    using cat_prints_file [OF sample_cat_running(1) a(1) st nm, of ds sample_dentry 28 "\<lambda>_. 0" 2 sample_hdr con "0x08100000" "\<lambda>_. 0" sample_env]
      ds P(2-6) fd a(2) con rg by (auto simp: sample_dentry_def sample_cat_fields)
  then show ?thesis by blast
qed

text \<open>A program image for the witnesses: its string constants, one after the other, in the user page.\<close>

definition lit_bytes :: "string list \<Rightarrow> u8 list" where
  "lit_bytes ss = concat (map (\<lambda>s. map of_char s @ [0]) ss)"

fun lit_at :: "addr \<Rightarrow> string list \<Rightarrow> string \<Rightarrow> addr" where
  "lit_at a [] s = a"
| "lit_at a (x # xs) s = (if s = x then a else lit_at (a + word_of_nat (Suc (length x))) xs s)"

lemma lit_at_literal:
  assumes "ld_bytes v a (length (lit_bytes ss)) = Some (lit_bytes ss)" and "region a (length (lit_bytes ss)) \<subseteq> upage"
    and "s \<in> set ss" and "0 \<notin> set (map of_char s :: u8 list)" and "length s < 2 ^ 31"
  shows "cstring v (lit_at a ss s) (map of_char s) \<and> region (lit_at a ss s) (Suc (length s)) \<subseteq> upage"
  using assms(1-3)
proof (induction ss arbitrary: a)
  case Nil
  then show ?case by simp
next
  case (Cons x xs)
  have len: "length (lit_bytes (x # xs)) = Suc (length x) + length (lit_bytes xs)" by (simp add: lit_bytes_def)
  have ld: "ld_bytes v a (Suc (length x)) = Some (map of_char x @ [0])"
    "ld_bytes v (a + word_of_nat (Suc (length x))) (length (lit_bytes xs)) = Some (lit_bytes xs)"
  proof -
    obtain bs bs' where b: "ld_bytes v a (Suc (length x)) = Some bs" "ld_bytes v (a + word_of_nat (Suc (length x))) (length (lit_bytes xs)) = Some bs'"
      "lit_bytes (x # xs) = bs @ bs'"
      using Cons.prems(1) unfolding len ld_bytes_append by (auto split: Option.bind_splits simp del: ld_bytes.simps)
    have "length bs = Suc (length x)" by (rule ld_bytes_length [OF b(1)])
    moreover have "(map of_char x @ [0]) @ lit_bytes xs = bs @ bs'" using b(3) by (simp add: lit_bytes_def)
    ultimately have "bs = map of_char x @ [0]" "bs' = lit_bytes xs"
      using append_eq_append_conv [of "map of_char x @ [0]" bs "lit_bytes xs" bs'] by simp_all
    then show "ld_bytes v a (Suc (length x)) = Some (map of_char x @ [0])"
      "ld_bytes v (a + word_of_nat (Suc (length x))) (length (lit_bytes xs)) = Some (lit_bytes xs)" using b(1,2) by simp_all
  qed
  have rg: "region a (Suc (length x)) \<subseteq> upage" "region (a + word_of_nat (Suc (length x))) (length (lit_bytes xs)) \<subseteq> upage"
    using Cons.prems(2) region_mono [of "Suc (length x)" "length (lit_bytes (x # xs))" a]
      region_sub [of "Suc (length x)" "length (lit_bytes xs)" "length (lit_bytes (x # xs))" a] unfolding len by auto
  show ?case
  proof (cases "s = x")
    case True
    then show ?thesis using ld(1) rg(1) assms(4,5) by (simp add: cstring_def)
  next
    case False
    then show ?thesis using Cons.IH [OF ld(2) rg(2)] Cons.prems(3) by simp
  qed
qed

definition sample_prog_mem :: "u32 \<Rightarrow> u8" where
  "sample_prog_mem = (\<lambda>_. 0)(0x410000 := 3, 0x410004 := 1, 0x410008 := 1, 0x410040 := 0x2E, 0x410060 := 1,
     0x410080 := 0x61, 0x4100A0 := 2, 0x4100C0 := 0x62, 0x4100E0 := 2)"

definition sample_prog_on :: "string list \<Rightarrow> (u32 \<Rightarrow> u8) \<Rightarrow> kernel" where
  "sample_prog_on ss p =
     (let k = init_PCB ((zero_kernel (flat_machine (\<lambda>_. 0)) 0x7FFFFC 0x7FF000 0x420000)
        \<lparr>start_addr := 0x410000, numdentries := 3, numinodes := 1, numblocks := 1, startdentry := 0x410040\<rparr>);
          v = map_page (proc_page 0) 0x08000000 0x87 (init_paging (flat_vmem p))
      in set_vm (case st_bytes v 0x08048000 (lit_bytes ss) of Some v' \<Rightarrow> v' | None \<Rightarrow> v) k)"

abbreviation sample_prog :: "string list \<Rightarrow> kernel" where
  "sample_prog ss \<equiv> sample_prog_on ss sample_prog_mem"

lemma sample_prog_fields:
  "cur_terminal (sample_prog_on ss p) = 0" "cur_process (sample_prog_on ss p) = 0" "startdentry (sample_prog_on ss p) = 0x410040" "curfile (sample_prog_on ss p) = 1"
  "numdentries (sample_prog_on ss p) = 3" "cursor_ok (mach (sample_prog_on ss p))" "2 \<le> i \<Longrightarrow> i < 8 \<Longrightarrow> fd_free 0 (sample_prog_on ss p) i"
  "start_addr (sample_prog_on ss p) = 0x410000" "numinodes (sample_prog_on ss p) = 1" "length (args (PCB_array (sample_prog_on ss p) 0)) = 1024"
  "2 \<le> j \<Longrightarrow> file_pos (fd_of (sample_prog_on ss p) 0 j) = 0"
proof -
  let ?k0 = "(zero_kernel (flat_machine (\<lambda>_. 0)) 0x7FFFFC 0x7FF000 0x420000)
        \<lparr>start_addr := 0x410000, numdentries := 3, numinodes := 1, numblocks := 1, startdentry := 0x410040\<rparr>"
  show "cur_terminal (sample_prog_on ss p) = 0" "cur_process (sample_prog_on ss p) = 0" "startdentry (sample_prog_on ss p) = 0x410040"
    by (simp_all add: sample_prog_on_def Let_def) (simp_all add: zero_terminal_def)
  show "cursor_ok (mach (sample_prog_on ss p))"
    by (simp add: sample_prog_on_def Let_def) (simp add: cursor_ok_def set_vm_def NUM_COLS_def NUM_ROWS_def)
  have "curfile (init_PCB ?k0) = 1 \<and> numdentries (init_PCB ?k0) = 3"
    by (simp add: zero_kernel_def)
  then show "curfile (sample_prog_on ss p) = 1" "numdentries (sample_prog_on ss p) = 3"
    by (simp_all add: sample_prog_on_def Let_def)
  show "2 \<le> i \<Longrightarrow> i < 8 \<Longrightarrow> fd_free 0 (sample_prog_on ss p) i" for i
    using init_PCB_free(2) [of 0 i ?k0] by (simp add: sample_prog_on_def Let_def fd_free_def)
  have z: "start_addr (init_PCB ?k0) = 0x410000 \<and> numinodes (init_PCB ?k0) = 1"
    by (simp add: zero_kernel_def)
  then show "start_addr (sample_prog_on ss p) = 0x410000" "numinodes (sample_prog_on ss p) = 1"
    by (simp_all add: sample_prog_on_def Let_def)
  show "length (args (PCB_array (sample_prog_on ss p) 0)) = 1024" "2 \<le> j \<Longrightarrow> file_pos (fd_of (sample_prog_on ss p) 0 j) = 0"
    by (simp_all add: sample_prog_on_def Let_def init_PCB_args) (simp_all add: zero_kernel_def zero_pcb_def zero_fd_def)
qed

lemma sample_prog_mem_zero:
  assumes "0x410100 \<le> unat a"
  shows "sample_prog_mem a = 0"
proof (rule ccontr)
  assume "sample_prog_mem a \<noteq> 0"
  then have "a \<in> {0x410000, 0x410004, 0x410008, 0x410040, 0x410060, 0x410080, 0x4100A0, 0x4100C0, 0x4100E0}"
    by (auto simp: sample_prog_mem_def split: if_splits)
  then show False using assms by auto
qed

lemma sample_prog_directory:
  "\<exists>ds. directory (flat_vmem sample_prog_mem) 0x410040 = Some ds \<and>
    take 3 ds = [\<lparr>dname = 0x2E # replicate 31 0, fileType = 1, inodeNum = 0\<rparr>, \<lparr>dname = 0x61 # replicate 31 0, fileType = 2, inodeNum = 0\<rparr>,
      \<lparr>dname = 0x62 # replicate 31 0, fileType = 2, inodeNum = 0\<rparr>] \<and>
    (\<forall>i. 3 \<le> i \<and> i < 64 \<longrightarrow> entry_name (dname (ds ! i)) = []) \<and> length ds = 64"
proof -
  obtain ds where ds: "directory (flat_vmem sample_prog_mem) 0x410040 = Some ds" using directory_flat by blast
  have len: "length ds = 64" using length_those [OF ds [unfolded directory_def]] by simp
  have c: "copy_dentry (flat_vmem sample_prog_mem) (0x410040 + 64 * word_of_nat i) = Some (ds ! i)" if "i < 64" for i
    using those_nth [OF ds [unfolded directory_def], of i] that by simp
  have e: "copy_dentry (flat_vmem sample_prog_mem) 0x410040 = Some \<lparr>dname = 0x2E # replicate 31 0, fileType = 1, inodeNum = 0\<rparr>"
    "copy_dentry (flat_vmem sample_prog_mem) 0x410080 = Some \<lparr>dname = 0x61 # replicate 31 0, fileType = 2, inodeNum = 0\<rparr>"
    "copy_dentry (flat_vmem sample_prog_mem) 0x4100C0 = Some \<lparr>dname = 0x62 # replicate 31 0, fileType = 2, inodeNum = 0\<rparr>"
    by (simp add: copy_dentry_def ld_bytes_flat ld32_flat sample_prog_mem_def word_of_bytes_def upt_rec, simp add: numeral_eq_Suc)+
  have "take 3 ds = [ds ! 0, ds ! 1, ds ! 2]" using len by (simp add: take_Suc_conv_app_nth numeral_3_eq_3 numeral_2_eq_2)
  then have "take 3 ds = [\<lparr>dname = 0x2E # replicate 31 0, fileType = 1, inodeNum = 0\<rparr>, \<lparr>dname = 0x61 # replicate 31 0, fileType = 2, inodeNum = 0\<rparr>,
      \<lparr>dname = 0x62 # replicate 31 0, fileType = 2, inodeNum = 0\<rparr>]" using c [of 0] c [of 1] c [of 2] e by simp
  moreover have "entry_name (dname (ds ! i)) = []" if i: "3 \<le> i" "i < 64" for i
  proof -
    have "ld_bytes (flat_vmem sample_prog_mem) (0x410040 + 64 * word_of_nat i) 32 = Some (dname (ds ! i))"
      by (rule copy_dentry_name [OF c [OF i(2)]])
    then have "dname (ds ! i) = map (\<lambda>j. sample_prog_mem (0x410040 + 64 * word_of_nat i + word_of_nat j)) [0..<32]"
      by (simp add: ld_bytes_flat)
    then have "dname (ds ! i) ! 0 = sample_prog_mem (0x410040 + 64 * word_of_nat i)" by simp
    moreover have "unat (0x410040 + 64 * word_of_nat i :: u32) = 0x410040 + 64 * i"
      using i by (simp add: unat_word_ariths unat_word_of_nat_u32)
    then have "sample_prog_mem (0x410040 + 64 * word_of_nat i) = 0" using i by (intro sample_prog_mem_zero) simp
    ultimately show ?thesis by (cases "dname (ds ! i)") (simp_all add: entry_name_def)
  qed
  ultimately show ?thesis using ds len by blast
qed

lemma sample_prog_ready:
  assumes "length (lit_bytes ss) \<le> 0x100000" and "\<forall>s \<in> set ss. 0 \<notin> set (map of_char s :: u8 list) \<and> length s < 2 ^ 31"
  shows "running 0 (sample_prog_on ss p)" "has_literals (lit_at 0x08048000 ss) (set ss) (sample_prog_on ss p)"
    "directory (kvm (sample_prog_on ss p)) 0x410040 = directory (flat_vmem p) 0x410040"
    "\<exists>con. displays (mach (sample_prog_on ss p)) con" "agree kpage (flat_vmem p) (kvm (sample_prog_on ss p))"
    "a \<in> upage - region 0x08048000 (length (lit_bytes ss)) \<Longrightarrow> ld8 (kvm (sample_prog_on ss p)) a = Some (p (proc_page 0 OR take_bit 22 a))"
proof -
  let ?v0 = "init_paging (flat_vmem p)" and ?n = "length (lit_bytes ss)"
  define v where "v = map_page (proc_page 0) 0x08000000 0x87 ?v0"
  note mp = map_process_page [OF sample_vmem_layout(1), of 0 p]
  have l: "layout v" and pd: "page_directory v 32 = proc_pde 0" and v: "v = set_pde 32 (proc_pde 0) ?v0" using mp by (simp_all add: v_def)
  have rg: "region (0x08048000 :: addr) ?n \<subseteq> upage" by (rule upage_region) (use assms(1) in simp_all)
  have "mapped v upage" using process_page_mapped [of v 0] l pd by (simp add: upage_def)
  then obtain v' where v': "st_bytes v 0x08048000 (lit_bytes ss) = Some v'" "ld_bytes v' 0x08048000 ?n = Some (lit_bytes ss)"
    using st_bytes_mapped [OF mapped_subset [OF _ rg], of v] assms(1) by fastforce
  have ch: "changes (region 0x08048000 ?n) v v'" by (rule st_bytes_changes [OF v'(1)])
  have kv: "kvm (sample_prog_on ss p) = v'" using v'(1) by (simp add: sample_prog_on_def Let_def v_def)
  have l': "layout v'" "page_directory v' 32 = proc_pde 0"
    using l pd layout_same_map [OF changes_same_map [OF ch]] same_map_fields [OF changes_same_map [OF ch]] by simp_all
  then show r: "running 0 (sample_prog_on ss p)" using sample_prog_fields(2) by (simp add: running_def kv)
  show "has_literals (lit_at 0x08048000 ss) (set ss) (sample_prog_on ss p)"
    unfolding has_literals_def kv using lit_at_literal [OF v'(2) rg] assms(2) by blast
  have ag: "agree kpage (flat_vmem p) v'"
  proof -
    have a: "agree kpage ?v0 v" using kpage_pde [OF sample_vmem_layout(1)] l unfolding v by simp
    have "apart v upage kpage" using process_kpage_apart [of v 0] l pd by (simp add: upage_def)
    then have "agree kpage v v'" by (intro agree_changes [OF ch] apart_subset [OF _ rg subset_refl])
    with a show ?thesis using flat_agree [of p] by (simp add: agree_def)
  qed
  then show "agree kpage (flat_vmem p) (kvm (sample_prog_on ss p))" unfolding kv .
  show "ld8 (kvm (sample_prog_on ss p)) a = Some (p (proc_page 0 OR take_bit 22 a))" if a: "a \<in> upage - region 0x08048000 ?n"
  proof -
    have "apart v (region 0x08048000 ?n) {a}" using a rg by (intro apart_mapped mapped_subset [OF \<open>mapped v upage\<close>]) auto
    then have "ld8 (kvm (sample_prog_on ss p)) a = ld8 v a" unfolding kv by (rule ld8_changes [OF ch, of "{a}"]) simp_all
    also have "\<dots> = Some (pmem v (proc_page 0 OR take_bit 22 a))"
      using translate_process_page(1) [OF l _ _ pd, of a] a by (simp add: ld8_def upage_def)
    also have "pmem v = p" by (simp add: v set_pde_def init_paging_def Let_def enable_paging_def init_tables_fields flat_vmem_def)
    finally show ?thesis .
  qed
  have "region (0x410040 :: addr) 4096 \<subseteq> kpage" by (rule kpage_region) simp_all
  then show "directory (kvm (sample_prog_on ss p)) 0x410040 = directory (flat_vmem p) 0x410040"
    unfolding kv by (rule directory_agree [OF agree_mono [OF ag]])
  have "mapped (vm (mach (sample_prog_on ss p))) screen_region" using screen_mapped [OF l'(1)] unfolding kv .
  from displays_exists [OF this sample_prog_fields(6)] show "\<exists>con. displays (mach (sample_prog_on ss p)) con" by blast
qed

text \<open>
  C35: \<open>ls\<close> lists the directory from the kernel's read position on, without its last entry.  A
  process runs \<open>ece391ls\<close>, the directory has an entry of type 1 named \<open>.\<close>, and the lowest free
  descriptor is below 6.  Then \<open>main\<close> ends and returns 0: it prints the names of the entries
  from \<open>curfile\<close> up to the last but one, each with a newline.  The name of the last entry is read,
  but \<open>dir_read\<close> returns 0 for it, which ends the loop; the read position is back at 0.
\<close>

theorem ls_prints_directory:
  assumes "running pid k" and "directory (kvm k) (startdentry k) = Some ds" and "region (startdentry k) 4096 \<subseteq> kpage"
    and "has_literals lit {''.''} k" and "find (\<lambda>d. entry_name (dname d) = [0x2E]) ds = Some d" and "fileType d = 1"
    and "fst (get_fdAvail pid k) = fd" and "2 \<le> fd" and "fd < 6"
    and "numdentries k = word_of_nat nd" and "nd \<le> 64" and "curfile k = word_of_nat i" and "i < nd"
    and "\<forall>j < nd. entry_name (dname (ds ! j)) \<noteq> []" and "displays (mach k) con"
    and "region buf 33 \<subseteq> upage" and "unat buf + 33 \<le> 2 ^ 32" and "buf \<noteq> 0" and "buf \<noteq> -1"
  shows "\<exists>k'. ls_main lit buf (e, k) = Some (0, e, k') \<and> curfile k' = 0 \<and>
    displays (mach k') (fold con_putc (concat (map (\<lambda>j. entry_name (dname (ds ! j)) @ [10]) [i..<nd - 1])) con)"
proof -
  have c: "cstring (kvm k) (lit ''.'') [0x2E]" and cp: "cur_process k = pid" using assms(1,4) by (auto simp: has_literals_def running_def)
  have c0: "ld8 (kvm k) (lit ''.'') = Some 0x2E" using cstring_nth [OF c, of 0] by simp
  have f: "find (\<lambda>d. entry_name (dname d) = take 32 [0x2E]) ds = Some d" using assms(5) by simp
  let ?k = "(upd_fd pid fd (opened d) (k\<lparr>currDentry := d\<rparr>))\<lparr>currFD := fd, currPid := pid\<rparr>"
  have o: "ece391_open (lit ''.'') (e, k) = Some (fd, e, ?k)"
    using open_user [OF assms(2) f cstring_reads [OF c] c0, of fd e] assms(7,8) cp by simp
  have "listing pid fd ds nd i ?k"
    using assms(1-3,6,8-12) by (simp add: listing_def running_def opened_def fop_of_type_def)
  moreover have "displays (mach ?k) con" using assms(15) by simp
  ultimately obtain k' where "ls_loop lit fd buf (e, ?k) = Some (0, e, k')" "listing pid fd ds nd 0 k'"
    "displays (mach k') (fold con_putc (ls_output (map ((!) ds) [i..<nd - 1])) con)"
    using ls_loop_prints [OF _ assms(13,16-19) _ assms(14), of pid fd ?k con lit e] by blast
  then show ?thesis using o assms(8) by (simp add: ls_main_def listing_def ls_output_def comp_def)
qed

theorem ls_prints_directory_witness:
  "\<exists>k' con. ls_main (lit_at 0x08048000 [''.'']) 0x08100000 (sample_env, sample_prog [''.'']) = Some (0, sample_env, k') \<and> curfile k' = 0 \<and>
    displays (mach k') (fold con_putc [0x61, 10] con)"
proof -
  let ?k = "sample_prog [''.'']"
  obtain ds where ds: "directory (flat_vmem sample_prog_mem) 0x410040 = Some ds" "length ds = 64"
    "take 3 ds = [\<lparr>dname = 0x2E # replicate 31 0, fileType = 1, inodeNum = 0\<rparr>, \<lparr>dname = 0x61 # replicate 31 0, fileType = 2, inodeNum = 0\<rparr>,
      \<lparr>dname = 0x62 # replicate 31 0, fileType = 2, inodeNum = 0\<rparr>]" (is "_ = [?d0, ?d1, ?d2]") using sample_prog_directory by blast
  have split: "ds = ?d0 # ?d1 # ?d2 # drop 3 ds" using append_take_drop_id [of 3 ds] ds(3) by simp
  have nth: "ds ! 0 = ?d0" "ds ! 1 = ?d1" "ds ! 2 = ?d2" by (subst split, simp)+
  have fnd: "find (\<lambda>d. entry_name (dname d) = [0x2E]) ds = Some ?d0" by (subst split) (simp add: entry_name_def)
  have named: "\<forall>j < 3. entry_name (dname (ds ! j)) \<noteq> []"
  proof (intro allI impI)
    fix j :: nat assume "j < 3"
    then have "j = 0 \<or> j = 1 \<or> j = 2" by linarith
    then show "entry_name (dname (ds ! j)) \<noteq> []" by (auto simp only: nth) (simp_all add: entry_name_def)
  qed
  have r: "running 0 ?k" "has_literals (lit_at 0x08048000 [''.'']) {''.''} ?k" "directory (kvm ?k) (startdentry ?k) = Some ds"
    "\<exists>con. displays (mach ?k) con"
    using sample_prog_ready [of "[''.'']"] ds(1) sample_prog_fields(3) [of "[''.'']"] by (simp_all add: lit_bytes_def)
  obtain con where con: "displays (mach ?k) con" using r(4) by blast
  have fd: "fst (get_fdAvail 0 ?k) = 2" using sample_prog_fields(7) [of 2] by (simp add: get_fdAvail_def fd_free_def eval_nat_numeral)
  have rg: "region (startdentry ?k) 4096 \<subseteq> kpage" "region (0x08100000 :: addr) 33 \<subseteq> upage"
    unfolding sample_prog_fields by (rule kpage_region upage_region; simp)+
  from ls_prints_directory [OF r(1,3) rg(1) r(2) fnd _ fd _ _ _ _ _ _ named con rg(2), of 1 sample_env]
  obtain k' where k': "ls_main (lit_at 0x08048000 [''.'']) 0x08100000 (sample_env, ?k) = Some (0, sample_env, k')" "curfile k' = 0"
    "displays (mach k') (fold con_putc (concat (map (\<lambda>j. entry_name (dname (ds ! j)) @ [10]) [1..<2])) con)"
    by (auto simp: sample_prog_fields)
  have "concat (map (\<lambda>j. entry_name (dname (ds ! j)) @ [10]) [1..<2]) = [0x61, 10]"
    using nth(2) by (simp add: upt_rec) (simp add: entry_name_def)
  with k' show ?thesis by metis
qed

end
