(* ===== verification/Syserr.thy ===== *)
theory Syserr
  imports Programs
begin

text \<open>
  \<open>syscalls/ece391syserr.c\<close>, the test program for the error paths of the system calls, on the
  model of the kernel: its eight tests and what they print.
\<close>

section \<open>Definitions\<close>

definition call_sys :: "u32 \<Rightarrow> 'e ustate \<Rightarrow> (int \<times> 'e ustate) option" where
  "call_sys num u = do_call num (e_reg (fst u)) (e_reg (fst u)) (e_reg (fst u)) u"

text \<open>The two statements that every test repeats: the check of one call, and the verdict.\<close>

definition expect_fail :: "(string \<Rightarrow> addr) \<Rightarrow> string \<Rightarrow> (int \<times> 'e ustate) option \<Rightarrow> int \<Rightarrow> (int \<times> 'e ustate) option" where
  "expect_fail lit msg call fail = do {
     (r, u) \<leftarrow> call;
     if r \<noteq> -1 then say lit msg 2 u else Some (fail, u)
   }"

definition verdict :: "(string \<Rightarrow> addr) \<Rightarrow> string \<Rightarrow> int \<Rightarrow> 'e ustate \<Rightarrow> (int \<times> 'e ustate) option" where
  "verdict lit name fail u = say lit (name @ (if fail \<noteq> 0 then line_of '': FAIL'' else line_of '': PASS'')) fail u"

definition err_fd :: "(string \<Rightarrow> addr) \<Rightarrow> string \<Rightarrow> int \<Rightarrow> addr \<Rightarrow> 'e ustate \<Rightarrow> (int \<times> 'e ustate) option" where
  "err_fd lit name fd buf u = do {
     (fail, u) \<leftarrow> expect_fail lit (line_of ''read fail'') (ece391_read fd buf 31 u) 0;
     (fail, u) \<leftarrow> expect_fail lit (line_of ''write fail'') (ece391_write fd buf 31 u) fail;
     (fail, u) \<leftarrow> expect_fail lit (line_of ''close fail'') (ece391_close fd u) fail;
     verdict lit name fail u
   }"

definition err_neg_fd :: "(string \<Rightarrow> addr) \<Rightarrow> addr \<Rightarrow> 'e ustate \<Rightarrow> (int \<times> 'e ustate) option" where
  "err_neg_fd lit buf u = err_fd lit ''err_neg_fd'' (-1073741823) buf u"

definition err_big_fd :: "(string \<Rightarrow> addr) \<Rightarrow> addr \<Rightarrow> 'e ustate \<Rightarrow> (int \<times> 'e ustate) option" where
  "err_big_fd lit buf u = err_fd lit ''err_big_fd'' 1073741823 buf u"

fun open_lots :: "(string \<Rightarrow> addr) \<Rightarrow> nat \<Rightarrow> int \<Rightarrow> 'e ustate \<Rightarrow> (int \<times> 'e ustate) option" where
  "open_lots lit 0 cnt u = Some (cnt, u)"
| "open_lots lit (Suc n) cnt u = do {
     (fd, u) \<leftarrow> ece391_open (lit ''.'') u;
     open_lots lit n (if fd = -1 then cnt + 1 else cnt) u
   }"

fun close_lots :: "nat \<Rightarrow> int \<Rightarrow> 'e ustate \<Rightarrow> 'e ustate option" where
  "close_lots 0 i u = Some u"
| "close_lots (Suc n) i u = do { (_, u) \<leftarrow> ece391_close i u; close_lots n (i + 1) u }"

definition err_open_lots :: "(string \<Rightarrow> addr) \<Rightarrow> 'e ustate \<Rightarrow> (int \<times> 'e ustate) option" where
  "err_open_lots lit u = do {
     (cnt, u) \<leftarrow> open_lots lit 7 0 u;
     u \<leftarrow> close_lots 6 2 u;
     if cnt = 1 then say lit (line_of ''err_open_lots: PASS'') 0 u
     else say lit (line_of ''err_open_lots: FAIL'') 2 u
   }"

definition err_open :: "(string \<Rightarrow> addr) \<Rightarrow> 'e ustate \<Rightarrow> (int \<times> 'e ustate) option" where
  "err_open lit u = do {
     (fail, u) \<leftarrow> expect_fail lit ([CHR 0x27] @ ''helloo'' @ [CHR 0x27] @ line_of '' fail'') (ece391_open (lit ''helloo'') u) 0;
     (fail, u) \<leftarrow> expect_fail lit ([CHR 0x27] @ ''shel'' @ [CHR 0x27] @ line_of '' fail'') (ece391_open (lit ''shel'') u) fail;
     (fail, u) \<leftarrow> expect_fail lit (line_of ''empty string fail'') (ece391_open (lit '''') u) fail;
     verdict lit ''err_open'' fail u
   }"

fun expect_fails :: "(string \<Rightarrow> addr) \<Rightarrow> string \<Rightarrow> (int \<Rightarrow> 'e ustate \<Rightarrow> (int \<times> 'e ustate) option) \<Rightarrow> nat \<Rightarrow> int \<Rightarrow> int \<Rightarrow> 'e ustate \<Rightarrow> (int \<times> 'e ustate) option" where
  "expect_fails lit msg call 0 i fail u = Some (fail, u)"
| "expect_fails lit msg call (Suc n) i fail u = do {
     (fail, u) \<leftarrow> expect_fail lit msg (call i u) fail;
     expect_fails lit msg call n (i + 1) fail u
   }"

definition err_unopened :: "(string \<Rightarrow> addr) \<Rightarrow> addr \<Rightarrow> 'e ustate \<Rightarrow> (int \<times> 'e ustate) option" where
  "err_unopened lit buf u = do {
     (fail, u) \<leftarrow> expect_fails lit (line_of ''close unopened or invalid fd fail'') ece391_close 8 0 0 u;
     (fail, u) \<leftarrow> expect_fails lit (line_of ''read from unopened fd fail'') (\<lambda>i. ece391_read i buf 31) 6 2 fail u;
     (fail, u) \<leftarrow> expect_fails lit (line_of ''write to unopened fd fail'') (\<lambda>i. ece391_write i buf 31) 6 2 fail u;
     verdict lit ''err_unopened'' fail u
   }"

definition err_vidmap :: "(string \<Rightarrow> addr) \<Rightarrow> 'e ustate \<Rightarrow> (int \<times> 'e ustate) option" where
  "err_vidmap lit u = do {
     (fail, u) \<leftarrow> expect_fail lit (line_of ''Null pointer fail'') (ece391_vidmap 0 u) 0;
     (fail, u) \<leftarrow> expect_fail lit (line_of ''Kernel pointer fail fail'') (ece391_vidmap 0x400000 u) fail;
     verdict lit ''err_vidmap'' fail u
   }"

definition err_stdin_out :: "(string \<Rightarrow> addr) \<Rightarrow> addr \<Rightarrow> 'e ustate \<Rightarrow> (int \<times> 'e ustate) option" where
  "err_stdin_out lit buf u = do {
     (fail, u) \<leftarrow> expect_fail lit (line_of ''write to stdin fail'') (ece391_write 0 buf 31 u) 0;
     (fail, u) \<leftarrow> expect_fail lit (line_of ''read from stdout fail'') (ece391_read 1 buf 31 u) fail;
     verdict lit ''err_stdin_out'' fail u
   }"

definition err_syscall_num :: "(string \<Rightarrow> addr) \<Rightarrow> 'e ustate \<Rightarrow> (int \<times> 'e ustate) option" where
  "err_syscall_num lit u = do {
     (fail, u) \<leftarrow> expect_fail lit (line_of ''syscall 0 fail'') (call_sys (word_of_int 1073741823) u) 0;
     (fail, u) \<leftarrow> expect_fail lit (line_of ''big num syscall fail'') (call_sys (word_of_int (-1073741823)) u) fail;
     (fail, u) \<leftarrow> expect_fail lit (line_of ''neg num syscall fail'') (call_sys 0 u) fail;
     verdict lit ''err_syscall_num'' fail u
   }"

definition syserr_all :: "(string \<Rightarrow> addr) \<Rightarrow> addr \<Rightarrow> 'e ustate \<Rightarrow> (int \<times> 'e ustate) option" where
  "syserr_all lit buf u = do {
     (f1, u) \<leftarrow> err_neg_fd lit buf u;
     (f2, u) \<leftarrow> err_big_fd lit buf u;
     (f3, u) \<leftarrow> err_open_lots lit u;
     (f4, u) \<leftarrow> err_open lit u;
     (f5, u) \<leftarrow> err_unopened lit buf u;
     (f6, u) \<leftarrow> err_vidmap lit u;
     (f7, u) \<leftarrow> err_stdin_out lit buf u;
     (f8, u) \<leftarrow> err_syscall_num lit u;
     let fail = f1 + f2 + f3 + f4 + f5 + f6 + f7 + f8;
     if fail \<noteq> 0 then say lit ([CHR 0x0A] @ line_of ''Overall Tests: FAIL'') fail u
     else say lit ([CHR 0x0A] @ line_of ''Overall Tests: PASS'') fail u
   }"

definition syserr_main :: "(string \<Rightarrow> addr) \<Rightarrow> addr \<Rightarrow> addr \<Rightarrow> 'e ustate \<Rightarrow> (int \<times> 'e ustate) option" where
  "syserr_main lit buf buf' u = do {
     u \<leftarrow> puts_lit lit ''Choose from tests 1-8. 0 to run all: '' u;
     (cnt, u) \<leftarrow> ece391_read 0 buf 127 u;
     if cnt = -1 then say lit (''Can'' @ [CHR 0x27] @ line_of ''t read test #'') 2 u
     else do {
       c \<leftarrow> load_byte buf u;
       let select = uint c - 0x30;
       if select = 0 then syserr_all lit buf' u
       else if select = 1 then err_neg_fd lit buf' u
       else if select = 2 then err_big_fd lit buf' u
       else if select = 3 then err_open_lots lit u
       else if select = 4 then err_open lit u
       else if select = 5 then err_unopened lit buf' u
       else if select = 6 then err_vidmap lit u
       else if select = 7 then err_stdin_out lit buf' u
       else if select = 8 then err_syscall_num lit u
       else say lit ''Invalid test number. Choose from tests 1-8 or 0'' 0 u
     }
   }"

section \<open>Rejected calls\<close>

lemma verdict_pass:
  assumes "running pid k" and "has_literals lit ss k" and "name @ line_of '': PASS'' \<in> ss" and "displays (mach k) con"
  shows "prints e k (map of_char (name @ line_of '': PASS'')) con 0 (verdict lit name 0 (e, k))"
  using say_prints [OF assms, of e 0] by (simp add: verdict_def)

lemma bad_fd_calls:
  assumes "int32 fd" and "fd \<noteq> -1" and "fd < 0 \<or> 6 \<le> fd" and "buf \<noteq> -1"
  shows "ece391_read fd buf 31 (e, k) = Some (-1, e, k)" "ece391_write fd buf 31 (e, k) = Some (-1, e, k)"
    "ece391_close fd (e, k) = Some (-1, e, k)"
  using assms ece391_read_eq [OF assms(1,2,4), of 31 e k]
  by (auto simp: int32_def sys_read_def ece391_write_eq sys_write_def ece391_close_eq sys_close_def)

lemma err_fd_pass:
  assumes "running pid k" and "has_literals lit ss k" and "name @ line_of '': PASS'' \<in> ss" and "displays (mach k) con"
    and "int32 fd" and "fd \<noteq> -1" and "fd < 0 \<or> 6 \<le> fd" and "buf \<noteq> -1"
  shows "prints e k (map of_char (name @ line_of '': PASS'')) con 0 (err_fd lit name fd buf (e, k))"
  using verdict_pass [OF assms(1-4), of e] bad_fd_calls [OF assms(5-8), of e k] by (simp add: err_fd_def expect_fail_def)

lemma err_vidmap_pass:
  assumes "running pid k" and "has_literals lit ss k" and "''err_vidmap'' @ line_of '': PASS'' \<in> ss" and "displays (mach k) con"
  shows "prints e k (map of_char (''err_vidmap'' @ line_of '': PASS'')) con 0 (err_vidmap lit (e, k))"
proof -
  have "ece391_vidmap 0 (e, k) = Some (-1, e, k)" "ece391_vidmap 0x400000 (e, k) = Some (-1, e, k)"
    by (simp_all add: ece391_vidmap_eq sys_vidmap_def)
  then show ?thesis using verdict_pass [OF assms, of e] by (simp add: err_vidmap_def expect_fail_def)
qed

lemma err_stdin_out_pass:
  assumes "running pid k" and "has_literals lit ss k" and "''err_stdin_out'' @ line_of '': PASS'' \<in> ss" and "displays (mach k) con" and "buf \<noteq> -1"
  shows "prints e k (map of_char (''err_stdin_out'' @ line_of '': PASS'')) con 0 (err_stdin_out lit buf (e, k))"
proof -
  have "ece391_write 0 buf 31 (e, k) = Some (-1, e, k)" "ece391_read 1 buf 31 (e, k) = Some (-1, e, k)"
    using ece391_read_eq [of 1 buf 31 e k] assms(5) by (simp_all add: int32_def ece391_write_eq sys_write_def sys_read_def)
  then show ?thesis using verdict_pass [OF assms(1-4), of e] by (simp add: err_stdin_out_def expect_fail_def)
qed

lemma call_sys_invalid:
  assumes "sint w \<le> 0 \<or> 8 < sint w"
  shows "call_sys w (e, k) = Some (-1, e, k)"
  using assms by (auto simp: call_sys_def do_call_def syscall_handler_asm_def)

lemma err_syscall_num_pass:
  assumes "running pid k" and "has_literals lit ss k" and "''err_syscall_num'' @ line_of '': PASS'' \<in> ss" and "displays (mach k) con"
  shows "prints e k (map of_char (''err_syscall_num'' @ line_of '': PASS'')) con 0 (err_syscall_num lit (e, k))"
proof -
  have s: "sint (word_of_int 1073741823 :: u32) = 1073741823" "sint (word_of_int (-1073741823) :: u32) = -1073741823"
    by (rule sint_word_of_int32, simp add: int32_def)+
  have c: "call_sys (word_of_int 1073741823) (e, k) = Some (-1, e, k)" "call_sys (word_of_int (-1073741823)) (e, k) = Some (-1, e, k)"
    "call_sys 0 (e, k) = Some (-1, e, k)"
    using s by (auto intro!: call_sys_invalid)
  show ?thesis using verdict_pass [OF assms, of e] c by (simp add: err_syscall_num_def expect_fail_def)
qed

section \<open>A process under test\<close>

text \<open>The string constants \<open>ss\<close> of the program are in its page, the directory \<open>ds\<close> is in the kernel page.\<close>

definition testing :: "int \<Rightarrow> (string \<Rightarrow> addr) \<Rightarrow> string set \<Rightarrow> dentry_t list \<Rightarrow> kernel \<Rightarrow> bool" where
  "testing pid lit ss ds k \<longleftrightarrow> running pid k \<and> has_literals lit ss k \<and>
     directory (kvm k) (startdentry k) = Some ds \<and> region (startdentry k) 4096 \<subseteq> kpage"

lemma testing_cong:
  assumes "testing pid lit ss ds k" and "kvm k' = kvm k" and "startdentry k' = startdentry k" and "cur_process k' = cur_process k"
  shows "testing pid lit ss ds k'"
  using assms by (simp add: testing_def running_def has_literals_def)

lemma has_literals_console:
  assumes "running pid k" and "has_literals lit ss k" and "console_frame (mach k) m"
  shows "has_literals lit ss (k\<lparr>mach := m\<rparr>)"
  unfolding has_literals_def
proof
  fix s assume s: "s \<in> ss"
  have c: "cstring (kvm k) (lit s) (map of_char s)" "region (lit s) (Suc (length s)) \<subseteq> upage"
    using assms(2) s by (simp_all add: has_literals_def)
  have ch: "changes screen_region (kvm k) (vm m)" using assms(3) by (simp add: console_frame_def)
  have "apart (kvm k) screen_region (region (lit s) (Suc (length s)))"
    using apart_subset [OF screen_upage_apart subset_refl c(2)] assms(1) by (simp add: running_def)
  then have "ld_bytes (vm m) (lit s) (Suc (length s)) = ld_bytes (kvm k) (lit s) (Suc (length s))" by (rule ld_bytes_changes [OF ch])
  then show "cstring (kvm (k\<lparr>mach := m\<rparr>)) (lit s) (map of_char s) \<and> region (lit s) (Suc (length s)) \<subseteq> upage"
    using c by (simp add: cstring_def)
qed

lemma testing_console:
  assumes "testing pid lit ss ds k" and "console_frame (mach k) m"
  shows "testing pid lit ss ds (k\<lparr>mach := m\<rparr>)"
proof -
  have r: "running pid k" "has_literals lit ss k" and l: "layout (kvm k)" and s: "region (startdentry k) 4096 \<subseteq> kpage"
    using assms(1) by (simp_all add: testing_def running_def)
  have "directory (vm m) (startdentry k) = directory (kvm k) (startdentry k)"
    by (rule directory_agree [OF agree_mono [OF console_kpage(1) [OF l assms(2)] s]])
  then show ?thesis
    using assms(1) running_console [OF r(1) assms(2)] has_literals_console [OF r assms(2)] by (simp add: testing_def)
qed

text \<open>A test passes: it returns 0, prints \<open>bs\<close> and leaves a state with \<open>P\<close>.\<close>

definition passes :: "int \<Rightarrow> (string \<Rightarrow> addr) \<Rightarrow> string set \<Rightarrow> dentry_t list \<Rightarrow> (kernel \<Rightarrow> bool) \<Rightarrow> 'e sysenv \<Rightarrow> console \<Rightarrow> string \<Rightarrow>
    (int \<times> 'e ustate) option \<Rightarrow> bool" where
  "passes pid lit ss ds P e con s res \<longleftrightarrow> (\<exists>k'. res = Some (0, e, k') \<and> testing pid lit ss ds k' \<and>
     displays (mach k') (fold con_putc (map of_char s) con) \<and> P k')"

text \<open>What the tests observe of the file descriptors.\<close>

definition fd_view :: "int \<Rightarrow> (int \<Rightarrow> bool) \<Rightarrow> kernel \<Rightarrow> bool" where
  "fd_view pid opn k \<longleftrightarrow> (\<forall>i. 2 \<le> i \<and> i < 8 \<longrightarrow> present (fd_of k pid i) = (if opn i then 0 else -1))"

definition fd_now :: "int \<Rightarrow> (int \<Rightarrow> bool) \<Rightarrow> int \<Rightarrow> kernel \<Rightarrow> bool" where
  "fd_now pid opn fd k \<longleftrightarrow> fd_view pid opn k \<and> currFD k = fd"

lemma fd_now_mach [simp]: "fd_now pid opn fd (k\<lparr>mach := m\<rparr>) = fd_now pid opn fd k"
  by (simp add: fd_now_def fd_view_def)

lemma prints_passes:
  assumes "testing pid lit ss ds k" and "prints e k (map of_char s) con 0 res" and "fd_now pid opn fd k"
  shows "passes pid lit ss ds (fd_now pid opn fd) e con s res"
proof -
  obtain m where "res = Some (0, e, k\<lparr>mach := m\<rparr>)" "displays m (fold con_putc (map of_char s) con)" "console_frame (mach k) m"
    using assms(2) by (auto simp: prints_def)
  then show ?thesis using testing_console [OF assms(1), of m] assms(3) by (simp add: passes_def)
qed

lemma say_passes:
  assumes "testing pid lit ss ds k" and "s \<in> ss" and "displays (mach k) con" and "fd_now pid opn fd k"
  shows "passes pid lit ss ds (fd_now pid opn fd) e con s (say lit s 0 (e, k))"
  using say_prints [of pid k lit ss s con e 0] assms by (intro prints_passes) (simp_all add: testing_def)

section \<open>Opening and closing\<close>

lemma open_dot:
  assumes t: "testing pid lit ss ds k" and "''.'' \<in> ss" and d: "find (\<lambda>d. entry_name (dname d) = [0x2E]) ds = Some d"
    and v: "fd_view pid (\<lambda>i. i < 2 + int n) k" and n: "n < 6"
  shows "\<exists>k'. ece391_open (lit ''.'') (e, k) = Some (2 + int n, e, k') \<and> testing pid lit ss ds k' \<and> mach k' = mach k \<and>
    fd_view pid (\<lambda>i. i < 2 + int (Suc n)) k'"
proof -
  have dir: "directory (kvm k) (startdentry k) = Some ds" and cp: "cur_process k = pid" and c: "cstring (kvm k) (lit ''.'') [0x2E]"
    using t assms(2) by (auto simp: testing_def running_def has_literals_def)
  have f: "find (\<lambda>d. entry_name (dname d) = take 32 [0x2E]) ds = Some d" using d by simp
  have c0: "ld8 (kvm k) (lit ''.'') = Some 0x2E" using cstring_nth [OF c, of 0] by simp
  obtain fd k1 where g: "get_fdAvail pid k = (fd, k1)" by (cases "get_fdAvail pid k")
  have fr: "fd_free pid k (2 + int n)" "\<And>i. 2 \<le> i \<Longrightarrow> i < 2 + int n \<Longrightarrow> \<not> fd_free pid k i"
    using v n by (auto simp: fd_view_def fd_free_def)
  then have "fd \<noteq> -1" using fds.alloc_none [of pid k k1] g n by auto
  from fds.alloc_some [OF g this] have "fd = 2 + int n" using fr
    by (metis linorder_cases fds.alloc_some g \<open>fd \<noteq> - 1\<close> le_add_same_cancel1 of_nat_0_le_iff)
  then have o: "ece391_open (lit ''.'') (e, k) = Some (2 + int n, e,
      (upd_fd pid (2 + int n) (opened d) (k\<lparr>currDentry := d\<rparr>))\<lparr>currFD := 2 + int n, currPid := pid\<rparr>)" (is "_ = Some (_, _, ?k')")
    using open_user [OF dir f cstring_reads [OF c] c0, of "2 + int n" e] g cp by simp
  have "testing pid lit ss ds ?k'" by (rule testing_cong [OF t]) simp_all
  moreover have "fd_view pid (\<lambda>i. i < 2 + int (Suc n)) ?k'" using v by (auto simp: fd_view_def opened_def)
  ultimately show ?thesis using o by simp
qed

lemma open_dot_full:
  assumes t: "testing pid lit ss ds k" and "''.'' \<in> ss" and d: "find (\<lambda>d. entry_name (dname d) = [0x2E]) ds = Some d"
    and v: "fd_view pid (\<lambda>i. i < 8) k"
  shows "\<exists>k'. ece391_open (lit ''.'') (e, k) = Some (-1, e, k') \<and> testing pid lit ss ds k' \<and> mach k' = mach k \<and>
    fd_now pid (\<lambda>i. i < 8) (-1) k'"
proof -
  have dir: "directory (kvm k) (startdentry k) = Some ds" and cp: "cur_process k = pid" and c: "cstring (kvm k) (lit ''.'') [0x2E]"
    using t assms(2) by (auto simp: testing_def running_def has_literals_def)
  have c0: "ld8 (kvm k) (lit ''.'') = Some 0x2E" using cstring_nth [OF c, of 0] by simp
  have "\<forall>i. 2 \<le> i \<and> i < 8 \<longrightarrow> \<not> fd_free (cur_process k) k i" using v cp by (simp add: fd_view_def fd_free_def)
  from insert_fdt_full [OF dir cstring_reads [OF c] _ this, of d] d
  have o: "ece391_open (lit ''.'') (e, k) = Some (-1, e, k\<lparr>currDentry := d, currFD := -1, currPid := pid\<rparr>)" (is "_ = Some (_, _, ?k')")
    using c0 cp by (simp add: ece391_open_eq sys_open_def Let_def)
  have "testing pid lit ss ds ?k'" by (rule testing_cong [OF t]) simp_all
  then show ?thesis using o v by (simp add: fd_now_def fd_view_def)
qed

lemma open_lots_ok:
  assumes "testing pid lit ss ds k" and "''.'' \<in> ss" and d: "find (\<lambda>d. entry_name (dname d) = [0x2E]) ds = Some d"
    and "fd_view pid (\<lambda>i. i < 2 + int n) k" and "n + m = 6"
  shows "\<exists>k'. open_lots lit (Suc m) c (e, k) = Some (c + 1, e, k') \<and> testing pid lit ss ds k' \<and> mach k' = mach k \<and>
    fd_now pid (\<lambda>i. i < 8) (-1) k'"
  using assms(1,4,5)
proof (induction m arbitrary: n k)
  case 0
  then have v: "fd_view pid (\<lambda>i. i < 8) k" by simp
  from open_dot_full [OF 0(1) assms(2) d v, of e] show ?case by auto
next
  case (Suc m)
  then have "n < 6" by simp
  from open_dot [OF Suc.prems(1) assms(2) d Suc.prems(2) this, of e] obtain k1 where
    k1: "ece391_open (lit ''.'') (e, k) = Some (2 + int n, e, k1)" "testing pid lit ss ds k1" "mach k1 = mach k"
      "fd_view pid (\<lambda>i. i < 2 + int (Suc n)) k1" by blast
  from Suc.IH [OF k1(2,4)] Suc.prems(3) k1(1,3) show ?case by auto
qed

lemma close_rejected: "i \<le> 2 \<or> 6 \<le> i \<Longrightarrow> int32 i \<Longrightarrow> ece391_close i (e, k) = Some (-1, e, k)"
  by (simp add: ece391_close_eq sys_close_def)

lemma close_unopened:
  assumes "testing pid lit ss ds k" and "fd_view pid opn k" and "\<not> opn i" and "3 \<le> i" and "i < 6"
  shows "ece391_close i (e, k) = Some (-1, e, k)"
  using assms by (simp add: ece391_close_eq sys_close_def remove_fd_entry_def testing_def running_def fd_view_def int32_def Let_def)

lemma close_opened:
  assumes t: "testing pid lit ss ds k" and v: "fd_now pid opn fd k" and "opn i" and "3 \<le> i" and "i < 6"
  shows "\<exists>k'. ece391_close i (e, k) = Some (0, e, k') \<and> testing pid lit ss ds k' \<and> mach k' = mach k \<and>
    fd_now pid (\<lambda>j. opn j \<and> j \<noteq> i) (fd - 1) k'"
proof -
  let ?k' = "(upd_fd pid i (\<lambda>e. e\<lparr>present := -1\<rparr>) k)\<lparr>currFD := currFD k - 1\<rparr>"
  have "ece391_close i (e, k) = Some (0, e, ?k')"
    using assms by (simp add: ece391_close_eq sys_close_def remove_fd_entry_def testing_def running_def fd_view_def fd_now_def int32_def Let_def)
  moreover have "testing pid lit ss ds ?k'" by (rule testing_cong [OF t]) simp_all
  moreover have "fd_now pid (\<lambda>j. opn j \<and> j \<noteq> i) (fd - 1) ?k'" using v by (auto simp: fd_now_def fd_view_def)
  ultimately show ?thesis by simp
qed

lemma close_lots_ok:
  assumes "testing pid lit ss ds k" and "fd_now pid (\<lambda>i. i < 8) fd k"
  shows "\<exists>k'. close_lots 6 2 (e, k) = Some (e, k') \<and> testing pid lit ss ds k' \<and> mach k' = mach k \<and>
    fd_now pid (\<lambda>i. i = 2 \<or> 6 \<le> i) (fd - 3) k'"
proof -
  obtain k3 where k3: "ece391_close 3 (e, k) = Some (0, e, k3)" "testing pid lit ss ds k3" "mach k3 = mach k"
    "fd_now pid (\<lambda>j. j < 8 \<and> j \<noteq> 3) (fd - 1) k3" using close_opened [OF assms, of 3 e] by auto
  obtain k4 where k4: "ece391_close 4 (e, k3) = Some (0, e, k4)" "testing pid lit ss ds k4" "mach k4 = mach k3"
    "fd_now pid (\<lambda>j. (j < 8 \<and> j \<noteq> 3) \<and> j \<noteq> 4) (fd - 1 - 1) k4" using close_opened [OF k3(2,4), of 4 e] by auto
  obtain k5 where k5: "ece391_close 5 (e, k4) = Some (0, e, k5)" "testing pid lit ss ds k5" "mach k5 = mach k4"
    "fd_now pid (\<lambda>j. ((j < 8 \<and> j \<noteq> 3) \<and> j \<noteq> 4) \<and> j \<noteq> 5) (fd - 1 - 1 - 1) k5" using close_opened [OF k4(2,4), of 5 e] by auto
  have "fd_now pid (\<lambda>i. i = 2 \<or> 6 \<le> i) (fd - 3) k5" using k5(4) by (auto simp: fd_now_def fd_view_def)
  then show ?thesis using k3(1,3) k4(1,3) k5(1-3) close_rejected [of 2 e k] close_rejected [of 6 e k5] close_rejected [of 7 e k5]
    by (simp add: eval_nat_numeral int32_def)
qed

lemma open_missing:
  assumes t: "testing pid lit ss ds k" and "s \<in> ss" and "s \<noteq> ''''" and "length s \<le> 32"
    and d: "find (\<lambda>d. entry_name (dname d) = map of_char s) ds = None" and v: "fd_now pid opn fd k"
  shows "\<exists>k'. ece391_open (lit s) (e, k) = Some (-1, e, k') \<and> testing pid lit ss ds k' \<and> mach k' = mach k \<and> fd_now pid opn (-1) k'"
proof -
  let ?cs = "map of_char s :: u8 list"
  have dir: "directory (kvm k) (startdentry k) = Some ds" and cp: "cur_process k = pid" and c: "cstring (kvm k) (lit s) ?cs"
    using t assms(2) by (auto simp: testing_def running_def has_literals_def)
  have c0: "ld8 (kvm k) (lit s) = Some (?cs ! 0)" using cstring_nth [OF c, of 0] assms(3) by simp
  have c1: "?cs ! 0 \<noteq> 0" using c assms(3) nth_mem [of 0 ?cs] by (auto simp: cstring_def)
  have f: "find (\<lambda>d. entry_name (dname d) = take 32 ?cs) ds = None" using d assms(4) by simp
  have "insert_fdt (str_at (kvm k) (lit s)) k = Some (-1, k)"
    using file_open_eq [OF dir cstring_reads [OF c]] f by (simp add: insert_fdt_def)
  then have o: "ece391_open (lit s) (e, k) = Some (-1, e, k\<lparr>currFD := -1, currPid := pid\<rparr>)" (is "_ = Some (_, _, ?k')")
    using c0 c1 cp by (simp add: ece391_open_eq sys_open_def Let_def)
  have "testing pid lit ss ds ?k'" by (rule testing_cong [OF t]) simp_all
  then show ?thesis using o v by (simp add: fd_now_def fd_view_def)
qed

lemma open_empty: "testing pid lit ss ds k \<Longrightarrow> '''' \<in> ss \<Longrightarrow> ece391_open (lit '''') (e, k) = Some (-1, e, k)"
  by (auto simp: testing_def has_literals_def cstring_def ece391_open_eq sys_open_def split: Option.bind_splits)

section \<open>The tests pass\<close>

lemma passes_bind:
  assumes "passes pid lit ss ds P e con s res"
    and "\<And>k'. testing pid lit ss ds k' \<Longrightarrow> P k' \<Longrightarrow> displays (mach k') (fold con_putc (map of_char s) con) \<Longrightarrow>
      passes pid lit ss ds Q e (fold con_putc (map of_char s) con) s' (f (0, e, k'))"
  shows "passes pid lit ss ds Q e con (s @ s') (res \<bind> f)"
  using assms unfolding passes_def by fastforce

lemma err_open_lots_passes:
  assumes "testing pid lit ss ds k" and "{''.'', line_of ''err_open_lots: PASS''} \<subseteq> ss" and "displays (mach k) con"
    and d: "find (\<lambda>d. entry_name (dname d) = [0x2E]) ds = Some d" and v: "fd_view pid (\<lambda>_. False) k"
  shows "passes pid lit ss ds (fd_now pid (\<lambda>i. i = 2 \<or> 6 \<le> i) (-4)) e con (line_of ''err_open_lots: PASS'') (err_open_lots lit (e, k))"
proof -
  have v0: "fd_view pid (\<lambda>i. i < 2 + int 0) k" using v by (simp add: fd_view_def)
  obtain k1 where k1: "open_lots lit 7 0 (e, k) = Some (1, e, k1)" "testing pid lit ss ds k1" "mach k1 = mach k" "fd_now pid (\<lambda>i. i < 8) (-1) k1"
    using open_lots_ok [OF assms(1) _ d v0, of 6 0 e] assms(2) by (auto simp: eval_nat_numeral)
  obtain k2 where k2: "close_lots 6 2 (e, k1) = Some (e, k2)" "testing pid lit ss ds k2" "mach k2 = mach k1"
    "fd_now pid (\<lambda>i. i = 2 \<or> 6 \<le> i) (-4) k2" using close_lots_ok [OF k1(2,4), of e] by auto
  have "displays (mach k2) con" using assms(3) k1(3) k2(3) by simp
  from say_passes [OF k2(2) _ this k2(4), of "line_of ''err_open_lots: PASS''" e] k1(1) k2(1) assms(2) show ?thesis
    by (simp add: err_open_lots_def)
qed

lemma verdict_passes:
  assumes "testing pid lit ss ds k" and "name @ line_of '': PASS'' \<in> ss" and "displays (mach k) con" and "fd_now pid opn fd k"
  shows "passes pid lit ss ds (fd_now pid opn fd) e con (name @ line_of '': PASS'') (verdict lit name 0 (e, k))"
  using say_passes [OF assms, of e] by (simp add: verdict_def)

lemma err_open_passes:
  assumes "testing pid lit ss ds k" and "{''helloo'', ''shel'', '''', ''err_open'' @ line_of '': PASS''} \<subseteq> ss" and "displays (mach k) con"
    and "\<forall>s \<in> {''helloo'', ''shel''}. find (\<lambda>d. entry_name (dname d) = map of_char s) ds = None" and "fd_now pid opn fd k"
  shows "passes pid lit ss ds (fd_now pid opn (-1)) e con (''err_open'' @ line_of '': PASS'') (err_open lit (e, k))"
proof -
  obtain k1 where k1: "ece391_open (lit ''helloo'') (e, k) = Some (-1, e, k1)" "testing pid lit ss ds k1" "mach k1 = mach k" "fd_now pid opn (-1) k1"
    using open_missing [OF assms(1) _ _ _ _ assms(5), of "''helloo''" e] assms(2,4) by auto
  obtain k2 where k2: "ece391_open (lit ''shel'') (e, k1) = Some (-1, e, k2)" "testing pid lit ss ds k2" "mach k2 = mach k1" "fd_now pid opn (-1) k2"
    using open_missing [OF k1(2) _ _ _ _ k1(4), of "''shel''" e] assms(2,4) by auto
  have d: "displays (mach k2) con" using assms(3) k1(3) k2(3) by simp
  have "passes pid lit ss ds (fd_now pid opn (-1)) e con (''err_open'' @ line_of '': PASS'') (verdict lit ''err_open'' 0 (e, k2))"
    by (rule verdict_passes [OF k2(2) _ d k2(4)]) (use assms(2) in simp)
  then show ?thesis using k1(1) k2(1) open_empty [OF k2(2), of e] assms(2) by (simp add: err_open_def expect_fail_def)
qed

lemma expect_fails_id:
  assumes "\<And>j. i \<le> j \<Longrightarrow> j < i + int n \<Longrightarrow> call j (e, k) = Some (-1, e, k)"
  shows "expect_fails lit msg call n i fail (e, k) = Some (fail, e, k)"
  using assms by (induction n arbitrary: i) (simp_all add: expect_fail_def)

lemma err_unopened_passes:
  assumes "testing pid lit ss ds k" and "''err_unopened'' @ line_of '': PASS'' \<in> ss" and "displays (mach k) con"
    and "fd_now pid opn (-1) k" and "\<forall>i. 3 \<le> i \<and> i < 6 \<longrightarrow> \<not> opn i" and "buf \<noteq> -1"
  shows "passes pid lit ss ds (fd_now pid opn (-1)) e con (''err_unopened'' @ line_of '': PASS'') (err_unopened lit buf (e, k))"
proof -
  have v: "fd_view pid opn k" and fd: "currFD k = -1" using assms(4) by (simp_all add: fd_now_def)
  have c: "ece391_close j (e, k) = Some (-1, e, k)" if "0 \<le> j" "j < 0 + int 8" for j
    using close_rejected [of j e k] close_unopened [OF assms(1) v, of j e] assms(5) that by (cases "3 \<le> j \<and> j < 6") (auto simp: int32_def)
  have r: "ece391_read j buf 31 (e, k) = Some (-1, e, k)" "ece391_write j buf 31 (e, k) = Some (-1, e, k)" if "2 \<le> j" "j < 2 + int 6" for j
    using ece391_read_eq [of j buf 31 e k] that fd assms(6)
    by (auto simp: int32_def ece391_write_eq sys_read_def sys_write_def)
  show ?thesis
    using verdict_passes [OF assms(1-4), of e] expect_fails_id [of 0 8 ece391_close e k, OF c]
      expect_fails_id [of 2 6 "\<lambda>i. ece391_read i buf 31" e k, OF r(1)] expect_fails_id [of 2 6 "\<lambda>i. ece391_write i buf 31" e k, OF r(2)]
    by (simp add: err_unopened_def)
qed

definition syserr_lines :: "string list" where
  "syserr_lines = [''err_neg_fd'' @ line_of '': PASS'', ''err_big_fd'' @ line_of '': PASS'', line_of ''err_open_lots: PASS'',
     ''err_open'' @ line_of '': PASS'', ''err_unopened'' @ line_of '': PASS'', ''err_vidmap'' @ line_of '': PASS'',
     ''err_stdin_out'' @ line_of '': PASS'', ''err_syscall_num'' @ line_of '': PASS'', [CHR 0x0A] @ line_of ''Overall Tests: PASS'']"

definition syserr_names :: "string list" where
  "syserr_names = [''.'', ''helloo'', ''shel'', '''']"

lemma err_fd_passes:
  assumes "testing pid lit ss ds k" and "name @ line_of '': PASS'' \<in> ss" and "displays (mach k) con" and "fd_now pid opn fd k"
    and "int32 bad" and "bad < -1 \<or> 6 \<le> bad" and "buf \<noteq> -1"
  shows "passes pid lit ss ds (fd_now pid opn fd) e con (name @ line_of '': PASS'') (err_fd lit name bad buf (e, k))"
  using assms err_fd_pass [of pid k lit ss name con bad buf e] by (intro prints_passes) (auto simp: testing_def)

text \<open>The last three tests and the overall verdict.\<close>

lemma syserr_rest:
  assumes t: "testing pid lit ss ds k" and ss: "set (syserr_lines @ syserr_names) \<subseteq> ss" and dis: "displays (mach k) con"
    and v: "fd_now pid opn fd k" and b: "buf \<noteq> -1"
  shows "passes pid lit ss ds (fd_now pid opn fd) e con ((''err_vidmap'' @ line_of '': PASS'') @
     (''err_stdin_out'' @ line_of '': PASS'') @ (''err_syscall_num'' @ line_of '': PASS'') @ [CHR 0x0A] @ line_of ''Overall Tests: PASS'')
     (do {
       (f6, u) \<leftarrow> err_vidmap lit (e, k);
       (f7, u) \<leftarrow> err_stdin_out lit buf u;
       (f8, u) \<leftarrow> err_syscall_num lit u;
       let fail = 0 + 0 + 0 + 0 + 0 + f6 + f7 + f8;
       if fail \<noteq> 0 then say lit ([CHR 0x0A] @ line_of ''Overall Tests: FAIL'') fail u
       else say lit ([CHR 0x0A] @ line_of ''Overall Tests: PASS'') fail u
     })"
proof -
  note L = ss [unfolded syserr_lines_def syserr_names_def]
  have tp: "running pid k" "has_literals lit ss k" if "testing pid lit ss ds k" for k using that by (simp_all add: testing_def)
  have vid: "passes pid lit ss ds (fd_now pid opn fd) e con (''err_vidmap'' @ line_of '': PASS'') (err_vidmap lit (e, k))"
    using t v err_vidmap_pass [OF tp [OF t] _ dis, of e] L by (intro prints_passes) simp_all
  have sio: "passes pid lit ss ds (fd_now pid opn fd) e con (''err_stdin_out'' @ line_of '': PASS'') (err_stdin_out lit buf (e, k))"
    if "testing pid lit ss ds k" "fd_now pid opn fd k" "displays (mach k) con" for k con
    using that err_stdin_out_pass [OF tp [OF that(1)] _ that(3) b, of e] L by (intro prints_passes) simp_all
  have num: "passes pid lit ss ds (fd_now pid opn fd) e con (''err_syscall_num'' @ line_of '': PASS'') (err_syscall_num lit (e, k))"
    if "testing pid lit ss ds k" "fd_now pid opn fd k" "displays (mach k) con" for k con
    using that err_syscall_num_pass [OF tp [OF that(1)] _ that(3), of e] L by (intro prints_passes) simp_all
  have fin: "passes pid lit ss ds (fd_now pid opn fd) e con ([CHR 0x0A] @ line_of ''Overall Tests: PASS'')
      (say lit ([CHR 0x0A] @ line_of ''Overall Tests: PASS'') 0 (e, k))"
    if "testing pid lit ss ds k" "fd_now pid opn fd k" "displays (mach k) con" for k con
    using that say_passes [OF that(1) _ that(3,2), of "[CHR 0x0A] @ line_of ''Overall Tests: PASS''" e] L by simp
  show ?thesis
    by (rule passes_bind [OF vid], simp only: prod.case, rule passes_bind [OF sio], assumption+, simp only: prod.case,
      rule passes_bind [OF num], assumption+, simp only: prod.case Let_def add_0 if_False simp_thms, rule fin, assumption+)
qed

lemma syserr_passes:
  assumes t: "testing pid lit ss ds k" and ss: "set (syserr_lines @ syserr_names) \<subseteq> ss" and dis: "displays (mach k) con"
    and d: "find (\<lambda>d. entry_name (dname d) = [0x2E]) ds = Some d"
    and n: "\<forall>s \<in> {''helloo'', ''shel''}. find (\<lambda>d. entry_name (dname d) = map of_char s) ds = None"
    and v: "fd_view pid (\<lambda>_. False) k" and b: "buf \<noteq> -1"
  shows "passes pid lit ss ds (fd_now pid (\<lambda>i. i = 2 \<or> 6 \<le> i) (-1)) e con (concat syserr_lines) (syserr_all lit buf (e, k))"
proof -
  note L = ss [unfolded syserr_lines_def syserr_names_def]
  have lines: "concat syserr_lines = (''err_neg_fd'' @ line_of '': PASS'') @ (''err_big_fd'' @ line_of '': PASS'') @ line_of ''err_open_lots: PASS'' @
     (''err_open'' @ line_of '': PASS'') @ (''err_unopened'' @ line_of '': PASS'') @ (''err_vidmap'' @ line_of '': PASS'') @
     (''err_stdin_out'' @ line_of '': PASS'') @ (''err_syscall_num'' @ line_of '': PASS'') @ [CHR 0x0A] @ line_of ''Overall Tests: PASS''"
    by (simp add: syserr_lines_def)
  have "fd_now pid (\<lambda>_. False) (currFD k) k" using v by (simp add: fd_now_def)
  note p1 = err_fd_passes [OF t _ dis this _ _ b, of "''err_neg_fd''" "-1073741823" e, folded err_neg_fd_def]
  show ?thesis unfolding lines syserr_all_def
  proof (rule passes_bind [OF p1], goal_cases)
    case (4 k1)
    note p2 = err_fd_passes [OF 4(1) _ 4(3,2) _ _ b, of "''err_big_fd''" 1073741823 e, folded err_big_fd_def]
    show ?case unfolding prod.case
    proof (rule passes_bind [OF p2], goal_cases)
      case (4 k2)
      then have "fd_view pid (\<lambda>_. False) k2" by (simp add: fd_now_def)
      note p3 = err_open_lots_passes [OF 4(1) _ 4(3) d this, of e]
      show ?case unfolding prod.case
      proof (rule passes_bind [OF p3], goal_cases)
        case (2 k3)
        show ?case unfolding prod.case
        proof (rule passes_bind [OF err_open_passes [OF 2(1) _ 2(3) n 2(2), of e]], goal_cases)
          case (2 k4)
          show ?case unfolding prod.case
          proof (rule passes_bind [OF err_unopened_passes [OF 2(1) _ 2(3,2) _ b, of e]], goal_cases)
            case (3 k5)
            show ?case by (simp only: prod.case) (rule syserr_rest [OF 3(1) ss 3(3,2) b])
          qed (use L in simp_all)
        qed (use L in simp_all)
      qed (use L in simp_all)
    qed (use L in \<open>simp_all add: int32_def\<close>)
  qed (use L in \<open>simp_all add: int32_def\<close>)
qed

section \<open>Properties\<close>

text \<open>
  C36: the kernel passes its own test program.  A fresh process (no descriptor open) runs all eight
  tests of \<open>ece391syserr\<close>, the directory has the entry \<open>.\<close> but neither \<open>helloo\<close> nor \<open>shel\<close>,
  and the program's string constants are in its page.  Then the run ends and returns 0: every
  system call with a bad number, descriptor, name or pointer returns -1 to the program, and it
  prints the eight lines \<open>...: PASS\<close> and the overall \<open>PASS\<close>.  But the descriptors 2, 6 and 7 that
  the third test opened are still open at the end: \<open>sys_close\<close> rejects them.
\<close>

theorem syserr_all_passes:
  assumes "running pid k" and "has_literals lit (set (syserr_lines @ syserr_names)) k" and "displays (mach k) con"
    and "directory (kvm k) (startdentry k) = Some ds" and "region (startdentry k) 4096 \<subseteq> kpage"
    and "find (\<lambda>d. entry_name (dname d) = [0x2E]) ds = Some d"
    and "\<forall>s \<in> {''helloo'', ''shel''}. find (\<lambda>d. entry_name (dname d) = map of_char s) ds = None"
    and "\<forall>i. 2 \<le> i \<and> i < 8 \<longrightarrow> present (fd_of k pid i) = -1" and "buf \<noteq> -1"
  shows "\<exists>k'. syserr_all lit buf (e, k) = Some (0, e, k') \<and> displays (mach k') (fold con_putc (map of_char (concat syserr_lines)) con) \<and>
    present (fd_of k' pid 2) = 0 \<and> present (fd_of k' pid 6) = 0 \<and> present (fd_of k' pid 7) = 0"
proof -
  have t: "testing pid lit (set (syserr_lines @ syserr_names)) ds k" using assms(1,2,4,5) by (simp add: testing_def)
  have v: "fd_view pid (\<lambda>_. False) k" using assms(8) by (simp add: fd_view_def)
  show ?thesis using syserr_passes [OF t subset_refl assms(3,6,7) v assms(9), of e]
    by (auto simp: passes_def fd_now_def fd_view_def)
qed

lemma syserr_literals_ok:
  "length (lit_bytes (syserr_lines @ syserr_names)) \<le> 0x100000"
  "\<forall>s \<in> set (syserr_lines @ syserr_names). 0 \<notin> set (map of_char s :: u8 list) \<and> length s < 2 ^ 31"
  by (simp_all add: syserr_lines_def syserr_names_def lit_bytes_def)

theorem syserr_all_passes_witness:
  "\<exists>k' con. syserr_all (lit_at 0x08048000 (syserr_lines @ syserr_names)) 0x08100000 (sample_env, sample_prog (syserr_lines @ syserr_names)) =
      Some (0, sample_env, k') \<and>
    displays (mach k') (fold con_putc (map of_char (concat syserr_lines)) con) \<and> present (fd_of k' 0 2) = 0"
proof -
  let ?ss = "syserr_lines @ syserr_names"
  let ?k = "sample_prog ?ss"
  note r = sample_prog_ready [OF syserr_literals_ok]
  obtain ds where ds: "directory (flat_vmem sample_prog_mem) 0x410040 = Some ds" "length ds = 64"
    "take 3 ds = [\<lparr>dname = 0x2E # replicate 31 0, fileType = 1, inodeNum = 0\<rparr>, \<lparr>dname = 0x61 # replicate 31 0, fileType = 2, inodeNum = 0\<rparr>,
      \<lparr>dname = 0x62 # replicate 31 0, fileType = 2, inodeNum = 0\<rparr>]" (is "_ = [?d0, ?d1, ?d2]")
    "\<forall>i. 3 \<le> i \<and> i < 64 \<longrightarrow> entry_name (dname (ds ! i)) = []" using sample_prog_directory by blast
  have split: "ds = ?d0 # ?d1 # ?d2 # drop 3 ds" using append_take_drop_id [of 3 ds] ds(3) by simp
  have rest: "entry_name (dname d) = []" if d: "d \<in> set (drop 3 ds)" for d
  proof -
    obtain i where "i < length (drop 3 ds)" "drop 3 ds ! i = d" using d unfolding in_set_conv_nth by blast
    then show ?thesis using ds(2,4) by auto
  qed
  have fnd: "find (\<lambda>d. entry_name (dname d) = [0x2E]) ds = Some ?d0" by (subst split) (simp add: entry_name_def)
  have "set ds = insert ?d0 (insert ?d1 (insert ?d2 (set (drop 3 ds))))" using arg_cong [OF split, of set] by (simp only: list.set)
  then have names: "entry_name (dname d) \<in> {[0x2E], [0x61], [0x62], []}" if "d \<in> set ds" for d
    using that rest [of d] by (auto simp: entry_name_def)
  have none: "find (\<lambda>d. entry_name (dname d) = map of_char s) ds = None" if s: "s \<in> {''helloo'', ''shel''}" for s
  proof -
    have "entry_name (dname d) \<noteq> map of_char s" if "d \<in> set ds" for d
      using names [OF that] s by auto
    then show ?thesis by (simp add: find_None_iff)
  qed
  obtain con where con: "displays (mach ?k) con" using r(4) by blast
  have dir: "directory (kvm ?k) (startdentry ?k) = Some ds" using r(3) ds(1) sample_prog_fields(3) by simp
  have rg: "region (startdentry ?k) 4096 \<subseteq> kpage" unfolding sample_prog_fields by (rule kpage_region) simp_all
  have fds: "\<forall>i. 2 \<le> i \<and> i < 8 \<longrightarrow> present (fd_of ?k 0 i) = -1" using sample_prog_fields(7) by (simp add: fd_free_def)
  have b: "(0x08100000 :: addr) \<noteq> -1" by simp
  have nn: "\<forall>s \<in> {''helloo'', ''shel''}. find (\<lambda>d. entry_name (dname d) = map of_char s) ds = None" by (intro ballI none)
  from syserr_all_passes [OF r(1,2) con dir rg fnd nn fds b, of sample_env] obtain k' where
    "syserr_all (lit_at 0x08048000 ?ss) 0x08100000 (sample_env, ?k) = Some (0, sample_env, k')"
    "displays (mach k') (fold con_putc (map of_char (concat syserr_lines)) con)" "present (fd_of k' 0 2) = 0" by (elim exE conjE)
  then show ?thesis by (intro exI conjI)
qed

end
