(* ===== verification/Blink.thy ===== *)
theory Blink
  imports Programs
begin

text \<open>
  The blinking characters of the program \<open>fish\<close>: \<open>fish/blink.S\<close> and the allocator of
  \<open>fish/fish.c\<close>.  The blink structures are the elements of an array; those in use are linked into a
  list.  A pointer to an element is its index, the null pointer is \<open>None\<close>.  The lemmas show that
  the operations on the linked structures are those on a list of values.
\<close>

section \<open>Definitions\<close>

type_synonym blink_ptr = "nat option"

record mp1_blink_struct =
  location :: u16
  on_char :: u8
  off_char :: u8
  on_length :: u16
  off_length :: u16
  countdown :: u16
  status :: u16
  next_blink :: blink_ptr

definition zero_blink :: mp1_blink_struct where
  "zero_blink = \<lparr>location = 0, on_char = 0, off_char = 0, on_length = 0, off_length = 0, countdown = 0, status = 0, next_blink = None\<rparr>"

record blink_state =
  blink_array :: "nat \<Rightarrow> mp1_blink_struct"
  mp1_list_head :: blink_ptr

type_synonym 'e fish_state = "blink_state \<times> 'e ustate"

definition set_blink :: "nat \<Rightarrow> mp1_blink_struct \<Rightarrow> blink_state \<Rightarrow> blink_state" where
  "set_blink i b s = s\<lparr>blink_array := (blink_array s)(i := b)\<rparr>"

definition load_word :: "addr \<Rightarrow> 'e ustate \<Rightarrow> u32 option" where
  "load_word a u = do {
     b0 \<leftarrow> load_byte a u; b1 \<leftarrow> load_byte (a + 1) u; b2 \<leftarrow> load_byte (a + 2) u; b3 \<leftarrow> load_byte (a + 3) u;
     Some (word_of_bytes b0 b1 b2 b3)
   }"

text \<open>\<open>vb\<close> is the address of the variable \<open>vmem_base_addr\<close>.\<close>

definition mp1_poke :: "addr \<Rightarrow> u8 \<Rightarrow> u32 \<Rightarrow> 'e ustate \<Rightarrow> 'e ustate option" where
  "mp1_poke vb cl eax u = do { edx \<leftarrow> load_word vb u; store_byte (edx + eax) cl u }"

fun mp1_malloc_from :: "blink_state \<Rightarrow> nat \<Rightarrow> nat \<Rightarrow> blink_ptr" where
  "mp1_malloc_from s i 0 = None"
| "mp1_malloc_from s i (Suc n) = (if location (blink_array s i) = 0 then Some i else mp1_malloc_from s (i + 1) n)"

definition mp1_malloc :: "blink_state \<Rightarrow> blink_ptr" where
  "mp1_malloc s = mp1_malloc_from s 0 (80 * 25)"

definition mp1_free :: "nat \<Rightarrow> blink_state \<Rightarrow> blink_state" where
  "mp1_free i s = set_blink i zero_blink s"

partial_function (option) find_from :: "u16 \<Rightarrow> blink_ptr \<Rightarrow> blink_state \<Rightarrow> blink_ptr option" where
  "find_from ax ebx s =
     (case ebx of
        None \<Rightarrow> Some None
      | Some i \<Rightarrow> if location (blink_array s i) = ax then Some (Some i) else find_from ax (next_blink (blink_array s i)) s)"

definition mp1_find_helper :: "u32 \<Rightarrow> blink_state \<Rightarrow> blink_ptr option" where
  "mp1_find_helper arg s = find_from (ucast arg) (mp1_list_head s) s"

definition video_offset :: "mp1_blink_struct \<Rightarrow> u32" where
  "video_offset b = push_bit 1 (ucast (location b))"

text \<open>One element of the list in \<open>mp1_rtc_tasklet\<close>.\<close>

definition blink_once :: "addr \<Rightarrow> nat \<Rightarrow> 'e fish_state \<Rightarrow> 'e fish_state option" where
  "blink_once vb i = (\<lambda>(s, u).
     let b = blink_array s i;
         b = b\<lparr>countdown := countdown b - 1\<rparr>
     in if sint (countdown b) > 0 then Some (set_blink i b s, u)
     else if status b AND 1 \<noteq> 0 then do {
       u \<leftarrow> mp1_poke vb (off_char b) (video_offset b) u;
       Some (set_blink i (b\<lparr>countdown := off_length b, status := status b XOR 1\<rparr>) s, u)
     }
     else do {
       u \<leftarrow> mp1_poke vb (on_char b) (video_offset b) u;
       Some (set_blink i (b\<lparr>countdown := on_length b, status := status b XOR 1\<rparr>) s, u)
     })"

partial_function (option) tasklet_loop :: "addr \<Rightarrow> blink_ptr \<Rightarrow> 'e fish_state \<Rightarrow> 'e fish_state option" where
  "tasklet_loop vb ebx f =
     (case ebx of
        None \<Rightarrow> Some f
      | Some i \<Rightarrow> do { f \<leftarrow> blink_once vb i f; tasklet_loop vb (next_blink (blink_array (fst f) i)) f })"

definition mp1_rtc_tasklet :: "addr \<Rightarrow> 'e fish_state \<Rightarrow> 'e fish_state option" where
  "mp1_rtc_tasklet vb f = tasklet_loop vb (mp1_list_head (fst f)) f"

definition mp1_ioctl_add :: "addr \<Rightarrow> mp1_blink_struct \<Rightarrow> 'e fish_state \<Rightarrow> (int \<times> 'e fish_state) option" where
  "mp1_ioctl_add vb b = (\<lambda>(s, u).
     if 80 * 25 \<le> location b then Some (-1, s, u)
     else
       let b = b\<lparr>status := 1, countdown := on_length b\<rparr>
       in case mp1_malloc s of
            None \<Rightarrow> Some (-1, s, u)
          | Some edx \<Rightarrow>
              let s = set_blink edx b s;
                  s = set_blink edx ((blink_array s edx)\<lparr>next_blink := mp1_list_head s\<rparr>) s;
                  s = s\<lparr>mp1_list_head := Some edx\<rparr>
              in do { u \<leftarrow> mp1_poke vb (on_char b) (video_offset b) u; Some (0, s, u) })"

text \<open>A cell that holds a pointer: the head of the list or the \<open>NEXT\<close> field of an element.\<close>

datatype link = Head | Next nat

fun link_get :: "link \<Rightarrow> blink_state \<Rightarrow> blink_ptr" where
  "link_get Head s = mp1_list_head s"
| "link_get (Next i) s = next_blink (blink_array s i)"

fun link_set :: "link \<Rightarrow> blink_ptr \<Rightarrow> blink_state \<Rightarrow> blink_state" where
  "link_set Head p s = s\<lparr>mp1_list_head := p\<rparr>"
| "link_set (Next i) p s = set_blink i ((blink_array s i)\<lparr>next_blink := p\<rparr>) s"

partial_function (option) remove_find_prev :: "nat \<Rightarrow> link \<Rightarrow> blink_state \<Rightarrow> link option" where
  "remove_find_prev eax edx s =
     (if link_get edx s = Some eax then Some edx
      else case link_get edx s of None \<Rightarrow> None | Some i \<Rightarrow> remove_find_prev eax (Next i) s)"

definition mp1_ioctl_remove :: "u32 \<Rightarrow> 'e fish_state \<Rightarrow> (int \<times> 'e fish_state) option" where
  "mp1_ioctl_remove arg = (\<lambda>(s, u). do {
     eax \<leftarrow> mp1_find_helper arg s;
     case eax of
       None \<Rightarrow> Some (-1, s, u)
     | Some i \<Rightarrow> do {
         edx \<leftarrow> remove_find_prev i Head s;
         let s = link_set edx (next_blink (blink_array s i)) s;
         Some (0, mp1_free i s, u)
       }
   })"

definition mp1_ioctl_find :: "u16 \<Rightarrow> 'e fish_state \<Rightarrow> (int \<times> mp1_blink_struct option \<times> 'e fish_state) option" where
  "mp1_ioctl_find loc = (\<lambda>(s, u). do {
     eax \<leftarrow> mp1_find_helper (ucast loc) s;
     case eax of None \<Rightarrow> Some (-1, None, s, u) | Some i \<Rightarrow> Some (0, Some (blink_array s i), s, u)
   })"

text \<open>
  The end of \<open>mp1_ioctl_sync\<close>: \<open>cmovl\<close> moves when the sign flag differs from the overflow flag,
  which \<open>testb\<close> clears.
\<close>

definition sync_char :: "mp1_blink_struct \<Rightarrow> u8" where
  "sync_char b = (if bit (ucast (status b) AND 1 :: u8) 7 then on_char b else off_char b)"

definition mp1_ioctl_sync :: "addr \<Rightarrow> u32 \<Rightarrow> 'e fish_state \<Rightarrow> (int \<times> 'e fish_state) option" where
  "mp1_ioctl_sync vb arg = (\<lambda>(s, u). do {
     esi \<leftarrow> mp1_find_helper (drop_bit 16 arg) s;
     case esi of
       None \<Rightarrow> Some (-1, s, u)
     | Some i \<Rightarrow> do {
         edi \<leftarrow> mp1_find_helper (arg AND 0xFFFF) s;
         case edi of
           None \<Rightarrow> Some (-1, s, u)
         | Some j \<Rightarrow>
             let a = blink_array s i;
                 b = (blink_array s j)\<lparr>on_length := on_length a, off_length := off_length a, countdown := countdown a, status := status a\<rparr>
             in do { u \<leftarrow> mp1_poke vb (sync_char b) (video_offset b) u; Some (0, set_blink j b s, u) }
       }
   })"

text \<open>The calls of \<open>mp1_ioctl\<close>; the argument of \<open>RTC_ADD\<close> and \<open>RTC_FIND\<close> is what the pointer points to.\<close>

datatype ioctl = RTC_ADD mp1_blink_struct | RTC_REMOVE u32 | RTC_FIND u16 | RTC_SYNC u32

fun mp1_ioctl :: "addr \<Rightarrow> ioctl \<Rightarrow> 'e fish_state \<Rightarrow> (int \<times> mp1_blink_struct option \<times> 'e fish_state) option" where
  "mp1_ioctl vb (RTC_ADD b) f = map_option (\<lambda>(r, f). (r, None, f)) (mp1_ioctl_add vb b f)"
| "mp1_ioctl vb (RTC_REMOVE arg) f = map_option (\<lambda>(r, f). (r, None, f)) (mp1_ioctl_remove arg f)"
| "mp1_ioctl vb (RTC_FIND loc) f = mp1_ioctl_find loc f"
| "mp1_ioctl vb (RTC_SYNC arg) f = map_option (\<lambda>(r, f). (r, None, f)) (mp1_ioctl_sync vb arg f)"

section \<open>The list of values\<close>

fun chain :: "(nat \<Rightarrow> mp1_blink_struct) \<Rightarrow> blink_ptr \<Rightarrow> nat list \<Rightarrow> bool" where
  "chain a p [] \<longleftrightarrow> p = None"
| "chain a p (i # is) \<longleftrightarrow> p = Some i \<and> chain a (next_blink (a i)) is"

text \<open>The list links the elements \<open>is\<close>, which are those in use: an element with location 0 is free.\<close>

definition linked :: "blink_state \<Rightarrow> nat list \<Rightarrow> bool" where
  "linked s is \<longleftrightarrow> chain (blink_array s) (mp1_list_head s) is \<and> distinct is \<and>
     (\<forall>i. i \<in> set is \<longleftrightarrow> i < 2000 \<and> location (blink_array s i) \<noteq> 0)"

abbreviation unlink :: "mp1_blink_struct \<Rightarrow> mp1_blink_struct" where
  "unlink b \<equiv> b\<lparr>next_blink := None\<rparr>"

definition values_of :: "blink_state \<Rightarrow> nat list \<Rightarrow> mp1_blink_struct list" where
  "values_of s is = map (\<lambda>i. unlink (blink_array s i)) is"

fun do_pokes :: "addr \<Rightarrow> (u8 \<times> u32) list \<Rightarrow> 'e ustate \<Rightarrow> 'e ustate option" where
  "do_pokes vb [] u = Some u"
| "do_pokes vb ((c, a) # ps) u = do { u \<leftarrow> mp1_poke vb c a u; do_pokes vb ps u }"

fun remove_loc :: "u16 \<Rightarrow> mp1_blink_struct list \<Rightarrow> mp1_blink_struct list" where
  "remove_loc l [] = []"
| "remove_loc l (b # bs) = (if location b = l then bs else b # remove_loc l bs)"

fun update_loc :: "u16 \<Rightarrow> (mp1_blink_struct \<Rightarrow> mp1_blink_struct) \<Rightarrow> mp1_blink_struct list \<Rightarrow> mp1_blink_struct list" where
  "update_loc l f [] = []"
| "update_loc l f (b # bs) = (if location b = l then f b # bs else b # update_loc l f bs)"

definition find_loc :: "u16 \<Rightarrow> mp1_blink_struct list \<Rightarrow> mp1_blink_struct option" where
  "find_loc l = find (\<lambda>b. location b = l)"

definition started_blink :: "mp1_blink_struct \<Rightarrow> mp1_blink_struct" where
  "started_blink b = b\<lparr>status := 1, countdown := on_length b, next_blink := None\<rparr>"

definition synced :: "mp1_blink_struct \<Rightarrow> mp1_blink_struct \<Rightarrow> mp1_blink_struct" where
  "synced a b = b\<lparr>on_length := on_length a, off_length := off_length a, countdown := countdown a, status := status a\<rparr>"

text \<open>The calls as operations on the list: the result, the characters drawn, and the new list.\<close>

fun list_ioctl :: "ioctl \<Rightarrow> mp1_blink_struct list \<Rightarrow> (int \<times> mp1_blink_struct option) \<times> (u8 \<times> u32) list \<times> mp1_blink_struct list" where
  "list_ioctl (RTC_ADD b) bs =
     (if 2000 \<le> location b \<or> length bs = 2000 then ((-1, None), [], bs)
      else ((0, None), [(on_char b, video_offset b)], started_blink b # bs))"
| "list_ioctl (RTC_REMOVE arg) bs =
     (if find_loc (ucast arg) bs = None then ((-1, None), [], bs) else ((0, None), [], remove_loc (ucast arg) bs))"
| "list_ioctl (RTC_FIND l) bs = (case find_loc l bs of None \<Rightarrow> ((-1, None), [], bs) | Some b \<Rightarrow> ((0, Some b), [], bs))"
| "list_ioctl (RTC_SYNC arg) bs =
     (case (find_loc (ucast (drop_bit 16 arg)) bs, find_loc (ucast arg) bs) of
        (Some a, Some b) \<Rightarrow> ((0, None), [(off_char b, video_offset b)], update_loc (ucast arg) (synced a) bs)
      | _ \<Rightarrow> ((-1, None), [], bs))"

definition due :: "mp1_blink_struct \<Rightarrow> bool" where
  "due b \<longleftrightarrow> sint (countdown b - 1) \<le> 0"

definition tick :: "mp1_blink_struct \<Rightarrow> mp1_blink_struct" where
  "tick b = (if due b then b\<lparr>countdown := if bit (status b) 0 then off_length b else on_length b, status := status b XOR 1\<rparr>
     else b\<lparr>countdown := countdown b - 1\<rparr>)"

definition tick_pokes :: "mp1_blink_struct \<Rightarrow> (u8 \<times> u32) list" where
  "tick_pokes b = (if due b then [(if bit (status b) 0 then off_char b else on_char b, video_offset b)] else [])"

section \<open>Refinement\<close>

lemma chain_upd: "i \<notin> set is \<Longrightarrow> chain (a(i := b)) p is = chain a p is"
  by (induction "is" arbitrary: p) auto

lemma chain_same_next:
  assumes "\<And>i. i \<in> set is \<Longrightarrow> next_blink (a' i) = next_blink (a i)"
  shows "chain a' p is = chain a p is"
  using assms by (induction "is" arbitrary: p) auto

lemma set_blink_fields [simp]:
  "blink_array (set_blink i b s) = (blink_array s)(i := b)" "mp1_list_head (set_blink i b s) = mp1_list_head s"
  by (simp_all add: set_blink_def)

lemma values_of_upd: "i \<notin> set is \<Longrightarrow> values_of (set_blink i b s) is = values_of s is"
  by (auto simp: values_of_def)

lemma linked_update:
  assumes "linked s is" and "i \<in> set is" and "next_blink b = next_blink (blink_array s i)" and "location b = location (blink_array s i)"
  shows "linked (set_blink i b s) is"
  using assms chain_same_next [of "is" "(blink_array s)(i := b)" "blink_array s"] by (auto simp: linked_def)

lemma find_from_chain:
  assumes "chain (blink_array s) p is"
  shows "find_from l p s = Some (find (\<lambda>i. location (blink_array s i) = l) is)"
  using assms by (induction "is" arbitrary: p) (auto simp: find_from.simps)

lemma find_loc_values: "find_loc l (values_of s is) = map_option (\<lambda>i. unlink (blink_array s i)) (find (\<lambda>i. location (blink_array s i) = l) is)"
  by (induction "is") (auto simp: find_loc_def values_of_def)

lemma find_helper_linked:
  assumes "linked s is"
  shows "mp1_find_helper arg s = Some (find (\<lambda>i. location (blink_array s i) = ucast arg) is)"
  using assms find_from_chain by (simp add: linked_def mp1_find_helper_def)

lemma find_in: "find P xs = Some x \<Longrightarrow> P x \<and> x \<in> set xs"
  by (induction xs) (auto split: if_splits)

lemma malloc_from_spec:
  "mp1_malloc_from s i n = find (\<lambda>j. location (blink_array s j) = 0) [i..<i + n]"
  by (induction n arbitrary: i) (auto simp: upt_rec)

lemma malloc_spec:
  "mp1_malloc s = None \<longleftrightarrow> (\<forall>j < 2000. location (blink_array s j) \<noteq> 0)"
  "mp1_malloc s = Some i \<Longrightarrow> i < 2000 \<and> location (blink_array s i) = 0"
proof -
  have e: "mp1_malloc s = find (\<lambda>j. location (blink_array s j) = 0) [0..<2000]"
    unfolding mp1_malloc_def malloc_from_spec by simp
  have s: "j \<in> set [0..<2000] \<longleftrightarrow> j < 2000" for j :: nat unfolding set_upt by simp
  show "mp1_malloc s = None \<longleftrightarrow> (\<forall>j < 2000. location (blink_array s j) \<noteq> 0)" unfolding e find_None_iff s by blast
  show "i < 2000 \<and> location (blink_array s i) = 0" if "mp1_malloc s = Some i" using find_in [OF that [unfolded e]] s by blast
qed

lemma malloc_linked:
  assumes "linked s is"
  shows "length is = 2000 \<Longrightarrow> mp1_malloc s = None"
    and "length is \<noteq> 2000 \<Longrightarrow> \<exists>i. mp1_malloc s = Some i \<and> i < 2000 \<and> i \<notin> set is"
proof -
  have sub: "set is \<subseteq> {..<2000}" and len: "card (set is) = length is" using assms by (auto simp: linked_def distinct_card)
  have use: "i \<in> set is \<longleftrightarrow> i < 2000 \<and> location (blink_array s i) \<noteq> 0" for i using assms unfolding linked_def by blast
  show "mp1_malloc s = None" if l: "length is = 2000"
  proof -
    have "set is = {..<2000}" using sub len l by (intro card_subset_eq) simp_all
    then show ?thesis using use unfolding malloc_spec by blast
  qed
  show "\<exists>i. mp1_malloc s = Some i \<and> i < 2000 \<and> i \<notin> set is" if l: "length is \<noteq> 2000"
  proof -
    have "set is \<noteq> {..<2000}" using len l card_lessThan [of 2000] by metis
    then obtain j where "j \<in> {..<2000} - set is" using psubset_imp_ex_mem [OF psubsetI [OF sub]] by blast
    then have "j < 2000" "location (blink_array s j) = 0" using use [of j] by auto
    then have "mp1_malloc s \<noteq> None" unfolding malloc_spec by blast
    then show ?thesis using malloc_spec(2) use by blast
  qed
qed

lemma values_length [simp]: "length (values_of s is) = length is"
  by (simp add: values_of_def)

lemma video_offset_cong: "location b = location b' \<Longrightarrow> video_offset b = video_offset b'"
  by (simp add: video_offset_def)

lemma add_linked:
  assumes l: "linked s is" and b: "location b \<noteq> 0" "location b < 2000" and n: "length is \<noteq> 2000"
  shows "\<exists>s' i. mp1_ioctl_add vb b (s, u) = map_option (\<lambda>u. (0, s', u)) (mp1_poke vb (on_char b) (video_offset b) u) \<and>
    linked s' (i # is) \<and> values_of s' (i # is) = started_blink b # values_of s is"
proof -
  obtain i where i: "mp1_malloc s = Some i" "i < 2000" "i \<notin> set is" using malloc_linked(2) [OF l n] by blast
  let ?b = "b\<lparr>status := 1, countdown := on_length b, next_blink := mp1_list_head s\<rparr>"
  let ?s = "(set_blink i ?b s)\<lparr>mp1_list_head := Some i\<rparr>"
  have "\<not> 80 * 25 \<le> location b" using b(2) by (simp add: not_le)
  then have "mp1_ioctl_add vb b (s, u) = map_option (\<lambda>u. (0, ?s, u)) (mp1_poke vb (on_char b) (video_offset b) u)"
    using i(1) by (auto simp: mp1_ioctl_add_def Let_def set_blink_def video_offset_def intro!: Option.bind_cong split: Option.bind_splits)
  moreover have "linked ?s (i # is)" using l b i(2,3) unfolding linked_def by (auto simp: chain_upd)
  moreover have "values_of ?s (i # is) = started_blink b # values_of s is" using i(3) by (auto simp: values_of_def started_blink_def)
  ultimately show ?thesis by blast
qed

lemma find_prev_chain:
  assumes "chain (blink_array s) (link_get e s) is" and "find P is = Some i" and "distinct is"
  shows "\<exists>is1 is2 e'. is = is1 @ i # is2 \<and> find P is1 = None \<and> remove_find_prev i e s = Some e' \<and> link_get e' s = Some i \<and>
    ((is1 = [] \<and> e' = e) \<or> (\<exists>is0 j. is1 = is0 @ [j] \<and> e' = Next j))"
  using assms
proof (induction "is" arbitrary: e)
  case Nil
  then show ?case by simp
next
  case (Cons a "is")
  have e: "link_get e s = Some a" "chain (blink_array s) (link_get (Next a) s) is" using Cons.prems(1) by simp_all
  show ?case
  proof (cases "P a")
    case True
    then have "i = a" using Cons.prems(2) by simp
    then show ?thesis using e(1) by (intro exI [of _ "[]"] exI [of _ "is"] exI [of _ e]) (simp add: remove_find_prev.simps)
  next
    case False
    then have f: "find P is = Some i" using Cons.prems(2) by simp
    obtain is1 is2 e' where r: "is = is1 @ i # is2" "find P is1 = None" "remove_find_prev i (Next a) s = Some e'" "link_get e' s = Some i"
      "(is1 = [] \<and> e' = Next a) \<or> (\<exists>is0 j. is1 = is0 @ [j] \<and> e' = Next j)"
      using Cons.IH [OF e(2) f] Cons.prems(3) unfolding distinct.simps by blast
    have "a \<noteq> i" using Cons.prems(3) r(1) by auto
    then have "remove_find_prev i e s = Some e'" using e(1) r(3) by (subst remove_find_prev.simps) simp
    then show ?thesis using r False by (intro exI [of _ "a # is1"] exI [of _ is2] exI [of _ e']) auto
  qed
qed

lemma chain_skip:
  assumes "chain a p (is0 @ j # i # is2)" and "distinct (is0 @ j # i # is2)"
  shows "chain (a(j := (a j)\<lparr>next_blink := next_blink (a i)\<rparr>)) p (is0 @ j # is2)"
  using assms by (induction is0 arbitrary: p) (auto simp: chain_upd)

lemma remove_loc_values:
  assumes "is = is1 @ i # is2" and "find (\<lambda>i. location (blink_array s i) = l) is1 = None" and "location (blink_array s i) = l"
  shows "remove_loc l (values_of s is) = values_of s (is1 @ is2)"
  using assms by (induction is1 arbitrary: "is") (auto simp: values_of_def split: if_splits)

lemma remove_linked:
  assumes l: "linked s is"
  shows "find_loc (ucast arg) (values_of s is) = None \<Longrightarrow> mp1_ioctl_remove arg (s, u) = Some (-1, s, u)"
    and "find_loc (ucast arg) (values_of s is) \<noteq> None \<Longrightarrow> \<exists>s' is'. mp1_ioctl_remove arg (s, u) = Some (0, s', u) \<and> linked s' is' \<and>
      values_of s' is' = remove_loc (ucast arg) (values_of s is)"
proof -
  let ?P = "\<lambda>i. location (blink_array s i) = ucast arg"
  have fh: "mp1_find_helper arg s = Some (find ?P is)" by (rule find_helper_linked [OF l])
  show "mp1_ioctl_remove arg (s, u) = Some (-1, s, u)" if "find_loc (ucast arg) (values_of s is) = None"
    using that fh by (simp add: find_loc_values mp1_ioctl_remove_def)
  show "\<exists>s' is'. mp1_ioctl_remove arg (s, u) = Some (0, s', u) \<and> linked s' is' \<and> values_of s' is' = remove_loc (ucast arg) (values_of s is)"
    if nz: "find_loc (ucast arg) (values_of s is) \<noteq> None"
  proof -
    obtain i where i: "find ?P is = Some i" using nz by (auto simp: find_loc_values)
    have ch: "chain (blink_array s) (link_get Head s) is" and d: "distinct is" using l by (simp_all add: linked_def)
    obtain is1 is2 e' where r: "is = is1 @ i # is2" "find ?P is1 = None" "remove_find_prev i Head s = Some e'"
      "(is1 = [] \<and> e' = Head) \<or> (\<exists>is0 j. is1 = is0 @ [j] \<and> e' = Next j)" using find_prev_chain [OF ch i d] by blast
    let ?s = "mp1_free i (link_set e' (next_blink (blink_array s i)) s)"
    have rem: "mp1_ioctl_remove arg (s, u) = Some (0, ?s, u)" using fh i r(3) by (simp add: mp1_ioctl_remove_def Let_def)
    have "values_of ?s (is1 @ is2) = values_of s (is1 @ is2) \<and> (\<forall>k. k \<noteq> i \<longrightarrow> location (blink_array ?s k) = location (blink_array s k)) \<and>
        chain (blink_array ?s) (mp1_list_head ?s) (is1 @ is2)"
      using r(4)
    proof (elim disjE exE conjE)
      assume h: "is1 = []" "e' = Head"
      have "chain (blink_array s) (next_blink (blink_array s i)) is2" "i \<notin> set is2" using ch d r(1) h by auto
      then show ?thesis using h by (auto simp: mp1_free_def values_of_def chain_upd)
    next
      fix is0 j assume h: "is1 = is0 @ [j]" "e' = Next j"
      have "chain (blink_array s) (mp1_list_head s) (is0 @ j # i # is2)" "distinct (is0 @ j # i # is2)" using ch d r(1) h by auto
      note c = chain_skip [OF this] this(2)
      show ?thesis using h c by (auto simp: mp1_free_def values_of_def chain_upd)
    qed
    then have vals: "values_of ?s (is1 @ is2) = values_of s (is1 @ is2)" and loc: "\<And>k. k \<noteq> i \<Longrightarrow> location (blink_array ?s k) = location (blink_array s k)"
      and chn: "chain (blink_array ?s) (mp1_list_head ?s) (is1 @ is2)" by blast+
    have pi: "location (blink_array s i) = ucast arg" using find_in [OF i] by simp
    have use: "k \<in> set is \<longleftrightarrow> k < 2000 \<and> location (blink_array s k) \<noteq> 0" for k using l unfolding linked_def by blast
    have "k \<in> set (is1 @ is2) \<longleftrightarrow> k < 2000 \<and> location (blink_array ?s k) \<noteq> 0" for k
    proof (cases "k = i")
      case True
      then show ?thesis using d r(1) by (simp add: mp1_free_def zero_blink_def)
    next
      case False
      then show ?thesis using use [of k] loc [OF False] r(1) by auto
    qed
    then have "linked ?s (is1 @ is2)" using chn d r(1) unfolding linked_def by auto
    moreover have "values_of ?s (is1 @ is2) = remove_loc (ucast arg) (values_of s is)" using vals remove_loc_values [OF r(1,2) pi] by simp
    ultimately show ?thesis using rem by blast
  qed
qed

lemma low_half: "(ucast (arg AND 0xFFFF :: u32) :: u16) = ucast arg"
proof -
  have e: "(0xFFFF :: u32) = mask 16" by (simp add: mask_eq_exp_minus_1)
  show ?thesis unfolding e take_bit_eq_mask [symmetric] by (rule bit_eqI) (auto simp: bit_simps)
qed

lemma sync_char_off: "sync_char b = off_char b"
proof -
  have "\<not> bit (ucast (status b) AND 1 :: u8) 7" by (simp add: bit_and_iff bit_1_iff)
  then show ?thesis by (simp add: sync_char_def)
qed

lemma update_loc_values:
  assumes "find (\<lambda>i. location (blink_array s i) = l) is = Some j" and "distinct is" and "unlink b = f (unlink (blink_array s j))"
  shows "values_of (set_blink j b s) is = update_loc l f (values_of s is)"
  using assms(1,2)
proof (induction "is")
  case Nil
  then show ?case by simp
next
  case (Cons a "is")
  show ?case
  proof (cases "location (blink_array s a) = l")
    case True
    then have "j = a" using Cons.prems(1) by simp
    moreover have "a \<notin> set is" using Cons.prems(2) by simp
    ultimately show ?thesis using True assms(3) by (auto simp: values_of_def)
  next
    case False
    then have f: "find (\<lambda>i. location (blink_array s i) = l) is = Some j" using Cons.prems(1) by simp
    then have "a \<noteq> j" using find_in [OF f] Cons.prems(2) by auto
    then show ?thesis using Cons.IH [OF f] Cons.prems(2) False by (simp add: values_of_def)
  qed
qed

lemma sync_linked:
  assumes l: "linked s is" and a: "find_loc (ucast (drop_bit 16 arg)) (values_of s is) = Some a" and b: "find_loc (ucast arg) (values_of s is) = Some b"
  shows "\<exists>s'. mp1_ioctl_sync vb arg (s, u) = map_option (\<lambda>u. (0, s', u)) (mp1_poke vb (off_char b) (video_offset b) u) \<and>
    linked s' is \<and> values_of s' is = update_loc (ucast arg) (synced a) (values_of s is)"
proof -
  obtain i where i: "find (\<lambda>i. location (blink_array s i) = ucast (drop_bit 16 arg)) is = Some i" "a = unlink (blink_array s i)"
    using a by (auto simp: find_loc_values)
  obtain j where j: "find (\<lambda>i. location (blink_array s i) = ucast arg) is = Some j" "b = unlink (blink_array s j)"
    using b by (auto simp: find_loc_values)
  let ?b = "synced (blink_array s i) (blink_array s j)"
  have h: "mp1_find_helper (drop_bit 16 arg) s = Some (Some i)" "mp1_find_helper (arg AND 0xFFFF) s = Some (Some j)"
    using find_helper_linked [OF l] i(1) j(1) by (simp_all add: low_half)
  have "mp1_ioctl_sync vb arg (s, u) = map_option (\<lambda>u. (0, set_blink j ?b s, u)) (mp1_poke vb (off_char b) (video_offset b) u)"
    using h j(2) by (auto simp: mp1_ioctl_sync_def Let_def sync_char_off synced_def video_offset_def split: Option.bind_splits)
  moreover have "linked (set_blink j ?b s) is" using find_in [OF j(1)] by (intro linked_update [OF l]) (simp_all add: synced_def)
  moreover have "values_of (set_blink j ?b s) is = update_loc (ucast arg) (synced a) (values_of s is)"
    by (rule update_loc_values [OF j(1)]) (use l i(2) in \<open>simp_all add: linked_def synced_def\<close>)
  ultimately show ?thesis by blast
qed

lemma sync_fails:
  assumes "linked s is" and "find_loc (ucast (drop_bit 16 arg)) (values_of s is) = None \<or> find_loc (ucast arg) (values_of s is) = None"
  shows "mp1_ioctl_sync vb arg (s, u) = Some (-1, s, u)"
  using assms find_helper_linked [OF assms(1)] by (auto simp: find_loc_values mp1_ioctl_sync_def low_half split: option.split)

lemma low_bit: "(x :: u16) AND 1 \<noteq> 0 \<longleftrightarrow> bit x 0"
  by (simp add: and_one_eq bit_0 odd_iff_mod_2_eq_one)

lemma do_pokes_append: "do_pokes vb (ps @ qs) u = do { u \<leftarrow> do_pokes vb ps u; do_pokes vb qs u }"
  by (induction ps arbitrary: u) (auto split: Option.bind_splits)

lemma blink_once_tick:
  "blink_once vb i (s, u) = map_option (\<lambda>u. (set_blink i (tick (blink_array s i)) s, u)) (do_pokes vb (tick_pokes (blink_array s i)) u)"
proof -
  let ?b = "blink_array s i"
  have v: "video_offset (?b\<lparr>countdown := countdown ?b - 1\<rparr>) = video_offset ?b" by (simp add: video_offset_def)
  show ?thesis
    by (cases "due ?b"; cases "bit (status ?b) 0")
      (auto simp: blink_once_def Let_def low_bit v tick_def tick_pokes_def due_def not_less split: Option.bind_splits)
qed

definition ticked :: "nat set \<Rightarrow> blink_state \<Rightarrow> blink_state" where
  "ticked A s = s\<lparr>blink_array := (\<lambda>i. if i \<in> A then tick (blink_array s i) else blink_array s i)\<rparr>"

lemma tick_fields: "next_blink (tick b) = next_blink b" "location (tick b) = location b" "unlink (tick b) = tick (unlink b)"
  by (auto simp: tick_def due_def)

lemma tasklet_chain:
  fixes u :: "'e ustate"
  assumes "chain (blink_array s) p is" and "distinct is"
  shows "tasklet_loop vb p (s, u) = map_option (\<lambda>u. (ticked (set is) s, u)) (do_pokes vb (concat (map tick_pokes (map (blink_array s) is))) u)"
  using assms
proof (induction "is" arbitrary: p s u)
  case Nil
  then show ?case by (simp add: tasklet_loop.simps ticked_def)
next
  case (Cons i "is")
  let ?s = "set_blink i (tick (blink_array s i)) s"
  have p: "p = Some i" and i: "i \<notin> set is" and d: "distinct is" using Cons.prems by simp_all
  have c: "chain (blink_array ?s) (next_blink (blink_array ?s i)) is" using Cons.prems(1) i by (simp add: chain_upd tick_fields)
  have m: "map (blink_array ?s) is = map (blink_array s) is" using i by auto
  have t: "ticked (set is) ?s = ticked (set (i # is)) s" using i by (intro blink_state.equality ext) (auto simp: ticked_def)
  have IH: "tasklet_loop vb (next_blink (tick (blink_array s i))) (?s, u') =
      map_option (\<lambda>u. (ticked (set (i # is)) s, u)) (do_pokes vb (concat (map tick_pokes (map (blink_array s) is))) u')" for u' :: "'e ustate"
    using Cons.IH [OF c d, of u'] unfolding m t by simp
  show ?case unfolding p
    by (subst tasklet_loop.simps) (simp add: blink_once_tick do_pokes_append IH del: map_map split: Option.bind_splits)
qed

lemma tasklet_linked:
  assumes l: "linked s is"
  shows "\<exists>s'. mp1_rtc_tasklet vb (s, u) = map_option (\<lambda>u. (s', u)) (do_pokes vb (concat (map tick_pokes (values_of s is))) u) \<and>
    linked s' is \<and> values_of s' is = map tick (values_of s is)"
proof -
  have "map tick_pokes (values_of s is) = map tick_pokes (map (blink_array s) is)" by (simp add: values_of_def tick_pokes_def due_def video_offset_def)
  then have "mp1_rtc_tasklet vb (s, u) = map_option (\<lambda>u. (ticked (set is) s, u)) (do_pokes vb (concat (map tick_pokes (values_of s is))) u)"
    using tasklet_chain [of s "mp1_list_head s" "is" vb u] l by (simp add: linked_def mp1_rtc_tasklet_def)
  moreover have "linked (ticked (set is) s) is"
    using l chain_same_next [of "is" "blink_array (ticked (set is) s)" "blink_array s"] by (auto simp: linked_def ticked_def tick_fields)
  moreover have "values_of (ticked (set is) s) is = map tick (values_of s is)" by (simp add: values_of_def ticked_def tick_fields)
  ultimately show ?thesis by blast
qed

section \<open>Sequences of operations\<close>

datatype blink_op = Ioctl ioctl | Tasklet

fun run_op :: "addr \<Rightarrow> blink_op \<Rightarrow> 'e fish_state \<Rightarrow> ((int \<times> mp1_blink_struct option) \<times> 'e fish_state) option" where
  "run_op vb (Ioctl c) f = map_option (\<lambda>(r, b, f). ((r, map_option unlink b), f)) (mp1_ioctl vb c f)"
| "run_op vb Tasklet f = map_option (\<lambda>f. ((0, None), f)) (mp1_rtc_tasklet vb f)"

fun run_ops :: "addr \<Rightarrow> blink_op list \<Rightarrow> 'e fish_state \<Rightarrow> ((int \<times> mp1_blink_struct option) list \<times> 'e fish_state) option" where
  "run_ops vb [] f = Some ([], f)"
| "run_ops vb (c # cs) f = do { (r, f) \<leftarrow> run_op vb c f; (rs, f) \<leftarrow> run_ops vb cs f; Some (r # rs, f) }"

fun list_op :: "blink_op \<Rightarrow> mp1_blink_struct list \<Rightarrow> (int \<times> mp1_blink_struct option) \<times> (u8 \<times> u32) list \<times> mp1_blink_struct list" where
  "list_op (Ioctl c) bs = list_ioctl c bs"
| "list_op Tasklet bs = ((0, None), concat (map tick_pokes bs), map tick bs)"

fun list_ops :: "blink_op list \<Rightarrow> mp1_blink_struct list \<Rightarrow> (int \<times> mp1_blink_struct option) list \<times> (u8 \<times> u32) list \<times> mp1_blink_struct list" where
  "list_ops [] bs = ([], [], bs)"
| "list_ops (c # cs) bs =
     (let (r, ps, bs) = list_op c bs; (rs, qs, bs) = list_ops cs bs in (r # rs, ps @ qs, bs))"

text \<open>Location 0 marks a free element, so it cannot be added.\<close>

fun op_ok :: "blink_op \<Rightarrow> bool" where
  "op_ok (Ioctl (RTC_ADD b)) \<longleftrightarrow> location b \<noteq> 0"
| "op_ok c \<longleftrightarrow> True"

lemma op_refines:
  assumes l: "linked s is" and ok: "op_ok c" and r: "list_op c (values_of s is) = (r, ps, bs)"
  shows "\<exists>s' is'. run_op vb c (s, u) = map_option (\<lambda>u. (r, s', u)) (do_pokes vb ps u) \<and> linked s' is' \<and> values_of s' is' = bs"
proof (cases c)
  case Tasklet
  then show ?thesis using tasklet_linked [OF l, of vb u] r by (auto simp: option.map_comp comp_def)
next
  case (Ioctl q)
  show ?thesis
  proof (cases q)
    case (RTC_ADD b)
    show ?thesis
    proof (cases "2000 \<le> location b \<or> length is = 2000")
      case True
      then have "mp1_ioctl_add vb b (s, u) = Some (-1, s, u)" using malloc_linked(1) [OF l] by (auto simp: mp1_ioctl_add_def)
      then show ?thesis using l r Ioctl RTC_ADD True by auto
    next
      case False
      then have b: "location b \<noteq> 0" "location b < 2000" "length is \<noteq> 2000" using ok Ioctl RTC_ADD by (auto simp: not_le)
      then show ?thesis using add_linked [OF l b, of vb u] r Ioctl RTC_ADD False by (auto simp: option.map_comp comp_def split: Option.bind_splits)
    qed
  next
    case (RTC_REMOVE a)
    show ?thesis
    proof (cases "find_loc (ucast a) (values_of s is) = None")
      case True
      then show ?thesis using remove_linked(1) [OF l True, of u] l r Ioctl RTC_REMOVE by auto
    next
      case False
      then obtain s' is' where "mp1_ioctl_remove a (s, u) = Some (0, s', u)" "linked s' is'" "values_of s' is' = remove_loc (ucast a) (values_of s is)"
        using remove_linked(2) [OF l False, of u] by blast
      then show ?thesis using r Ioctl RTC_REMOVE False by auto
    qed
  next
    case (RTC_FIND a)
    have "(ucast (ucast a :: u32) :: u16) = a" by (rule bit_eqI) (auto simp: bit_simps)
    then show ?thesis using RTC_FIND find_helper_linked [OF l, of "ucast a"] find_loc_values [of a s "is"] l r Ioctl
      by (auto simp: mp1_ioctl_find_def split: option.splits)
  next
    case (RTC_SYNC a)
    show ?thesis
    proof (cases "find_loc (ucast (drop_bit 16 a)) (values_of s is) = None \<or> find_loc (ucast a) (values_of s is) = None")
      case True
      then show ?thesis using sync_fails [OF l True, of vb u] l r Ioctl RTC_SYNC by (auto split: option.splits)
    next
      case False
      then obtain x y where xy: "find_loc (ucast (drop_bit 16 a)) (values_of s is) = Some x" "find_loc (ucast a) (values_of s is) = Some y" by auto
      then show ?thesis using sync_linked [OF l xy, of vb u] r Ioctl RTC_SYNC by (auto simp: option.map_comp comp_def split: Option.bind_splits)
    qed
  qed
qed

lemma ops_refine:
  assumes "linked s is" and "\<forall>c \<in> set cs. op_ok c" and "list_ops cs (values_of s is) = (rs, ps, bs)"
  shows "\<exists>s' is'. run_ops vb cs (s, u) = map_option (\<lambda>u. (rs, s', u)) (do_pokes vb ps u) \<and> linked s' is' \<and> values_of s' is' = bs"
  using assms
proof (induction cs arbitrary: s "is" u rs ps)
  case Nil
  then show ?case by auto
next
  case (Cons c cs)
  obtain r ps1 bs1 where r: "list_op c (values_of s is) = (r, ps1, bs1)" by (cases "list_op c (values_of s is)") auto
  obtain rs2 ps2 bs2 where rs2: "list_ops cs bs1 = (rs2, ps2, bs2)" by (cases "list_ops cs bs1") auto
  have e: "rs = r # rs2" "ps = ps1 @ ps2" "bs = bs2" using Cons.prems(3) r rs2 by simp_all
  obtain s1 is1 where s1: "run_op vb c (s, u) = map_option (\<lambda>u. (r, s1, u)) (do_pokes vb ps1 u)" "linked s1 is1" "values_of s1 is1 = bs1"
    using op_refines [OF Cons.prems(1) _ r, of vb u] Cons.prems(2) by auto
  show ?case
  proof (cases "do_pokes vb ps1 u")
    case None
    obtain s2 is2 where "run_ops vb cs (s1, u) = map_option (\<lambda>u. (rs2, s2, u)) (do_pokes vb ps2 u)" "linked s2 is2" "values_of s2 is2 = bs2"
      using Cons.IH [OF s1(2), of rs2 ps2 u] Cons.prems(2) rs2 s1(3) e(3) by auto
    then show ?thesis using s1(1) None e by (auto simp: do_pokes_append)
  next
    case (Some u1)
    obtain s2 is2 where "run_ops vb cs (s1, u1) = map_option (\<lambda>u. (rs2, s2, u)) (do_pokes vb ps2 u1)" "linked s2 is2" "values_of s2 is2 = bs2"
      using Cons.IH [OF s1(2), of rs2 ps2 u1] Cons.prems(2) rs2 s1(3) e(3) by auto
    then show ?thesis using s1(1) Some e by (auto simp: do_pokes_append option.map_comp comp_def split: Option.bind_splits)
  qed
qed

section \<open>What is drawn\<close>

text \<open>
  The screen of the program: the variable \<open>vmem_base_addr\<close> at \<open>vb\<close> holds the address \<open>w\<close>, through
  which user code reaches the bytes of the video page that the console uses.
\<close>

definition canvas :: "int \<Rightarrow> addr \<Rightarrow> addr \<Rightarrow> console \<Rightarrow> kernel \<Rightarrow> bool" where
  "canvas pid vb w con k \<longleftrightarrow> running pid k \<and> ld32 (kvm k) vb = Some w \<and> region vb 4 \<subseteq> upage \<and>
     (\<forall>i < 4000. user_access (kvm k) (w + word_of_nat i) \<and> translate (kvm k) (w + word_of_nat i) = translate (kvm k) (VIDEO + word_of_nat i)) \<and>
     displays (mach k) con"

fun draw :: "(u8 \<times> u32) list \<Rightarrow> cell list \<Rightarrow> cell list" where
  "draw [] cells = cells"
| "draw ((c, a) # ps) cells = (let i = unat a div 2 in draw ps (cells[i := (c, snd (cells ! i))]))"

lemma cell_bytes_char:
  assumes "i < length cells"
  shows "(cell_bytes cells)[2 * i := c] = cell_bytes (cells[i := (c, snd (cells ! i))])"
  using assms by (induction cells arbitrary: i) (auto simp: nth_Cons' split: nat.split)

lemma user_access_same_map: "same_map v v' \<Longrightarrow> user_access v' = user_access v"
  by (rule ext) (simp add: user_access_def table_at_def same_map_fields)

lemma poke_displays:
  assumes cv: "canvas pid vb w (cells, p) k" and i: "i < 2000"
  shows "\<exists>k'. mp1_poke vb c (2 * word_of_nat i) (e, k) = Some (e, k') \<and> canvas pid vb w (cells[i := (c, snd (cells ! i))], p) k' \<and>
    k' = k\<lparr>mach := mach k'\<rparr> \<and> changes screen_region (kvm k) (kvm k')"
proof -
  let ?a = "w + 2 * word_of_nat i"
  have run: "running pid k" and d: "displays (mach k) (cells, p)" and vb: "ld32 (kvm k) vb = Some w" "region vb 4 \<subseteq> upage"
    and al: "\<And>j. j < 4000 \<Longrightarrow> user_access (kvm k) (w + word_of_nat j) \<and> translate (kvm k) (w + word_of_nat j) = translate (kvm k) (VIDEO + word_of_nat j)"
    using cv by (simp_all add: canvas_def)
  have vu: "vb \<in> upage" "vb + 1 \<in> upage" "vb + 2 \<in> upage" "vb + 3 \<in> upage"
    using vb(2) region_memI [of 0 4 vb] region_memI [of 1 4 vb] region_memI [of 2 4 vb] region_memI [of 3 4 vb] by auto
  then have lw: "load_word vb (e, k) = Some w"
    using vb(1) user_access_upage [of "kvm k" pid] run by (simp add: load_word_def load_byte_def uld8_def ld32_def running_def)
  have len: "length cells = 2000" and win: "window (kvm k) VIDEO (cell_bytes cells)" using d by (simp_all add: displays_def displays_cells_def)
  have l4: "length (cell_bytes cells) = 4000" using displays_cells_window [of "kvm k" cells] d by (simp add: displays_def)
  obtain v where v: "st8 (kvm k) (VIDEO + word_of_nat (2 * i)) c = Some v" "window v VIDEO ((cell_bytes cells)[2 * i := c])"
    "changes (region VIDEO 4000) (kvm k) v" using window_st8 [OF win, of "2 * i" c] i l4 by auto
  have "?a = w + word_of_nat (2 * i)" by simp
  then have st: "ust8 (kvm k) ?a c = Some v" using al [of "2 * i"] i v(1) by (simp add: ust8_def st8_def)
  let ?cells = "cells[i := (c, snd (cells ! i))]" and ?k = "set_vm v k"
  have "displays_cells v ?cells" using v(2) cell_bytes_char [of i cells c] i len by (simp add: displays_cells_def)
  then have d': "displays (mach ?k) (?cells, p)" using d by (simp add: displays_def set_vm_def cursor_ok_def)
  have sm: "same_map (kvm k) v" by (rule changes_same_map [OF v(3)])
  have "apart (kvm k) screen_region (region vb 4)" using apart_subset [OF screen_upage_apart subset_refl vb(2)] run by (simp add: running_def)
  then have "ld32 v vb = Some w" using vb(1) ld32_agree [OF agree_changes [OF v(3)]] by simp
  moreover have "running pid ?k" using running_changes [OF run v(3)] run by (simp add: running_def)
  ultimately have "canvas pid vb w (?cells, p) ?k"
    using d' vb(2) al same_map_translate [OF sm] user_access_same_map [OF sm] by (simp add: canvas_def)
  moreover have "mp1_poke vb c (2 * word_of_nat i) (e, k) = Some (e, ?k)" using lw st by (simp add: mp1_poke_def store_byte_def on_vm_def)
  ultimately show ?thesis using v(3) by (intro exI [of _ ?k]) (simp add: set_vm_def)
qed

definition pokes_ok :: "(u8 \<times> u32) list \<Rightarrow> bool" where
  "pokes_ok ps \<longleftrightarrow> (\<forall>(c, a) \<in> set ps. \<exists>i < 2000. a = 2 * word_of_nat i)"

lemma do_pokes_draw:
  assumes "canvas pid vb w (cells, p) k" and "pokes_ok ps"
  shows "\<exists>k'. do_pokes vb ps (e, k) = Some (e, k') \<and> canvas pid vb w (draw ps cells, p) k' \<and> k' = k\<lparr>mach := mach k'\<rparr> \<and>
    changes screen_region (kvm k) (kvm k')"
  using assms
proof (induction ps arbitrary: cells k)
  case Nil
  then show ?case by auto
next
  case (Cons q ps)
  obtain c a where q: "q = (c, a)" by (cases q)
  obtain i where i: "i < 2000" "a = 2 * word_of_nat i" using Cons.prems(2) q by (auto simp: pokes_ok_def)
  have "unat a = 2 * i" using i by (simp add: unat_word_ariths unat_word_of_nat_u32)
  then have u: "unat a div 2 = i" by simp
  obtain k1 where k1: "mp1_poke vb c (2 * word_of_nat i) (e, k) = Some (e, k1)" "canvas pid vb w (cells[i := (c, snd (cells ! i))], p) k1"
    "k1 = k\<lparr>mach := mach k1\<rparr>" "changes screen_region (kvm k) (kvm k1)" using poke_displays [OF Cons.prems(1) i(1), of c e] by blast
  have "pokes_ok ps" using Cons.prems(2) by (simp add: pokes_ok_def)
  then obtain k2 where k2: "do_pokes vb ps (e, k1) = Some (e, k2)" "canvas pid vb w (draw ps (cells[i := (c, snd (cells ! i))]), p) k2"
    "k2 = k1\<lparr>mach := mach k2\<rparr>" "changes screen_region (kvm k1) (kvm k2)" using Cons.IH [OF k1(2)] by blast
  have "k2 = k\<lparr>mach := mach k2\<rparr>" using k1(3) k2(3) by (metis kernel.surjective kernel.update_convs(1))
  then show ?case using q k1(1) k2 u i(2) changes_trans [OF k1(4) k2(4)] by (auto simp: Let_def)
qed

definition placed :: "mp1_blink_struct list \<Rightarrow> bool" where
  "placed bs \<longleftrightarrow> (\<forall>b \<in> set bs. location b < 2000)"

lemma video_offset_nat: "video_offset b = 2 * word_of_nat (unat (location b))"
proof -
  have "(ucast (location b) :: u32) = word_of_nat (unat (location b))" by simp
  then show ?thesis by (simp add: video_offset_def push_bit_eq_mult)
qed

lemma unat_location: "location b < 2000 \<Longrightarrow> unat (location b) < 2000"
  by (simp add: word_less_nat_alt)

lemma pokes_ok_append [simp]: "pokes_ok (ps @ qs) \<longleftrightarrow> pokes_ok ps \<and> pokes_ok qs" "pokes_ok []"
  by (simp_all add: pokes_ok_def ball_Un)

lemma pokes_ok_single: "location b < 2000 \<Longrightarrow> pokes_ok [(c, video_offset b)]"
  using unat_location [of b] by (auto simp: pokes_ok_def video_offset_nat)

lemma find_loc_in: "find_loc l bs = Some b \<Longrightarrow> b \<in> set bs"
  using find_in [of "\<lambda>b. location b = l" bs b] by (simp add: find_loc_def)

lemma update_loc_placed: "placed bs \<Longrightarrow> placed (update_loc l (synced a) bs)"
  by (induction bs) (auto simp: placed_def synced_def)

lemma remove_loc_placed: "placed bs \<Longrightarrow> placed (remove_loc l bs)"
  by (induction bs) (auto simp: placed_def)

lemma tick_placed: "placed bs \<Longrightarrow> placed (map tick bs)" "placed bs \<Longrightarrow> pokes_ok (concat (map tick_pokes bs))"
proof -
  show "placed bs \<Longrightarrow> placed (map tick bs)" by (simp add: placed_def tick_fields)
  show "placed bs \<Longrightarrow> pokes_ok (concat (map tick_pokes bs))"
  proof (induction bs)
    case (Cons b bs)
    then show ?case using pokes_ok_single [of b] by (auto simp: placed_def tick_pokes_def)
  qed simp
qed

lemma list_op_placed:
  assumes "placed bs" and "list_op c bs = (r, ps, bs')"
  shows "placed bs' \<and> pokes_ok ps"
proof (cases c)
  case Tasklet
  then show ?thesis using assms tick_placed by auto
next
  case (Ioctl q)
  show ?thesis
  proof (cases q)
    case (RTC_ADD b)
    then show ?thesis using assms Ioctl pokes_ok_single [of b]
      by (auto simp: placed_def started_blink_def not_le split: if_splits)
  next
    case (RTC_REMOVE a)
    then show ?thesis using assms Ioctl remove_loc_placed by (auto split: if_splits)
  next
    case (RTC_FIND a)
    then show ?thesis using assms Ioctl by (auto split: option.splits)
  next
    case (RTC_SYNC a)
    then show ?thesis using assms Ioctl update_loc_placed pokes_ok_single find_loc_in
      by (auto simp: placed_def split: option.splits)
  qed
qed

lemma list_ops_placed:
  assumes "placed bs" and "list_ops cs bs = (rs, ps, bs')"
  shows "placed bs' \<and> pokes_ok ps"
  using assms
proof (induction cs arbitrary: bs rs ps)
  case (Cons c cs)
  obtain r ps1 bs1 where r: "list_op c bs = (r, ps1, bs1)" by (cases "list_op c bs") auto
  obtain rs2 ps2 bs2 where rs2: "list_ops cs bs1 = (rs2, ps2, bs2)" by (cases "list_ops cs bs1") auto
  have p: "placed bs1" "pokes_ok ps1" using list_op_placed [OF Cons.prems(1) r] by simp_all
  have "ps = ps1 @ ps2" "bs' = bs2" using Cons.prems(2) r rs2 by simp_all
  then show ?case using Cons.IH [OF p(1)] rs2 p(2) by auto
qed auto

lemma ops_draw:
  assumes "linked s is" and "placed (values_of s is)" and "\<forall>c \<in> set cs. op_ok c" and "list_ops cs (values_of s is) = (rs, ps, bs)"
    and "canvas pid vb w (cells, p) k"
  shows "\<exists>s' is' k'. run_ops vb cs (s, e, k) = Some (rs, s', e, k') \<and> linked s' is' \<and> values_of s' is' = bs \<and> placed bs \<and>
    canvas pid vb w (draw ps cells, p) k' \<and> k' = k\<lparr>mach := mach k'\<rparr> \<and> changes screen_region (kvm k) (kvm k')"
proof -
  have p: "placed bs" "pokes_ok ps" using list_ops_placed [OF assms(2,4)] by simp_all
  obtain s' is' where s: "run_ops vb cs (s, e, k) = map_option (\<lambda>u. (rs, s', u)) (do_pokes vb ps (e, k))" "linked s' is'" "values_of s' is' = bs"
    using ops_refine [OF assms(1,3,4), of vb "(e, k)"] by blast
  obtain k' where "do_pokes vb ps (e, k) = Some (e, k')" "canvas pid vb w (draw ps cells, p) k'" "k' = k\<lparr>mach := mach k'\<rparr>"
    "changes screen_region (kvm k) (kvm k')" using do_pokes_draw [OF assms(5) p(2), of e] by blast
  then show ?thesis using s p(1) by auto
qed

section \<open>A second element at location 0\<close>

text \<open>
  The element that \<open>mp1_malloc\<close> returns counts as free for as long as its location is 0.  The second
  addition at location 0 takes the element at the head of the list again and links it to itself.
\<close>

lemma tasklet_cycle:
  fixes f :: "'e fish_state"
  assumes "next_blink (blink_array (fst f) i) = Some i"
  shows "tasklet_loop vb (Some i) f = None"
proof -
  have no: "p = Some i \<longrightarrow> next_blink (blink_array (fst f) i) \<noteq> Some i" if "tasklet_loop vb p f = Some f'" for p and f f' :: "'e fish_state"
  proof (rule tasklet_loop.raw_induct [where P = "\<lambda>vb p f y. p = Some i \<longrightarrow> next_blink (blink_array (fst f) i) \<noteq> Some i", OF _ that], intro impI notI)
    fix go :: "addr \<Rightarrow> blink_ptr \<Rightarrow> 'e fish_state \<Rightarrow> 'e fish_state option" and vb p and f y :: "'e fish_state"
    assume IH: "\<And>vb p f y. go vb p f = Some y \<Longrightarrow> p = Some i \<longrightarrow> next_blink (blink_array (fst f) i) \<noteq> Some i"
      and run: "(case p of None \<Rightarrow> Some f | Some i \<Rightarrow> blink_once vb i f \<bind> (\<lambda>f. go vb (next_blink (blink_array (fst f) i)) f)) = Some y"
      and p: "p = Some i" and n: "next_blink (blink_array (fst f) i) = Some i"
    obtain s u where f: "f = (s, u)" by (cases f)
    obtain u1 where "go vb (Some i) (set_blink i (tick (blink_array s i)) s, u1) = Some y"
      using run p n f by (auto simp: blink_once_tick tick_fields split: Option.bind_splits)
    from IH [OF this] n f show False by (simp add: tick_fields)
  qed
  show ?thesis using no [of "Some i" f] assms by (cases "tasklet_loop vb (Some i) f") auto
qed

lemma malloc_cong:
  assumes "\<And>j. location (blink_array s j) = 0 \<longleftrightarrow> location (blink_array s' j) = 0"
  shows "mp1_malloc s = mp1_malloc s'"
proof -
  have "mp1_malloc_from s i n = mp1_malloc_from s' i n" for i n by (induction n arbitrary: i) (auto simp: assms)
  then show ?thesis by (simp add: mp1_malloc_def)
qed

lemma add_result:
  assumes "mp1_ioctl_add vb b (s, u) = Some (0, s', u')"
  shows "\<exists>i. mp1_malloc s = Some i \<and> mp1_list_head s' = Some i \<and>
    blink_array s' = (blink_array s)(i := b\<lparr>status := 1, countdown := on_length b, next_blink := mp1_list_head s\<rparr>)"
  using assms by (auto simp: mp1_ioctl_add_def Let_def split: if_splits option.splits Option.bind_splits)

lemma location_zero_hangs:
  assumes "location b = 0" and "location b' = 0"
    and "mp1_ioctl_add vb b (s, u) = Some (0, s1, u1)" and "mp1_ioctl_add vb b' (s1, u1) = Some (0, s2, u2)"
  shows "mp1_rtc_tasklet vb (s2, u2) = None"
proof -
  obtain i where i: "mp1_malloc s = Some i" "mp1_list_head s1 = Some i"
    "blink_array s1 = (blink_array s)(i := b\<lparr>status := 1, countdown := on_length b, next_blink := mp1_list_head s\<rparr>)"
    using add_result [OF assms(3)] by blast
  have "location (blink_array s i) = 0" using malloc_spec(2) [OF i(1)] by simp
  then have m: "mp1_malloc s1 = Some i" using malloc_cong [of s1 s] i assms(1) by simp
  then have "mp1_list_head s2 = Some i" "next_blink (blink_array s2 i) = Some i" using add_result [OF assms(4)] i(2) by auto
  then show ?thesis using tasklet_cycle [of "(s2, u2)" i vb] by (simp add: mp1_rtc_tasklet_def)
qed

end
