(* ===== verification/Grep.thy ===== *)
theory Grep
  imports Programs
begin

text \<open>
  \<open>syscalls/ece391grep.c\<close>: \<open>do_one_file\<close> reads a file in pieces into an array of 1025 bytes, searches
  every complete line and moves an incomplete last line to the front of the array before it reads
  on; \<open>main\<close> does so for every name of the directory.  The lemmas show that the lines printed are
  those that contain the search string.
\<close>

section \<open>Definitions\<close>

text \<open>The end of the line that begins at \<open>line_end\<close>.\<close>

function line_end_from :: "addr \<Rightarrow> int \<Rightarrow> int \<Rightarrow> 'e ustate \<Rightarrow> int option" where
  "line_end_from data last' line_end u =
     (if line_end < last' then do {
        c \<leftarrow> load_byte (data + word_of_int line_end) u;
        if c \<noteq> 10 then line_end_from data last' (line_end + 1) u else Some line_end
      }
      else Some line_end)"
  by pat_completeness auto
termination by (relation "measure (\<lambda>(data, last', line_end, u). nat (last' - line_end))") auto

declare line_end_from.simps [simp del]

definition print_match :: "(string \<Rightarrow> addr) \<Rightarrow> addr \<Rightarrow> addr \<Rightarrow> 'e ustate \<Rightarrow> 'e ustate option" where
  "print_match lit fname start u = do {
     u \<leftarrow> ece391_fdputs 1 fname u;
     u \<leftarrow> puts_lit lit '':'' u;
     u \<leftarrow> ece391_fdputs 1 start u;
     puts_lit lit (line_of '''') u
   }"

text \<open>The search of one line: the first place where the string begins prints the line.\<close>

function search_from :: "(string \<Rightarrow> addr) \<Rightarrow> addr \<Rightarrow> u32 \<Rightarrow> addr \<Rightarrow> addr \<Rightarrow> int \<Rightarrow> int \<Rightarrow> int \<Rightarrow> 'e ustate \<Rightarrow> 'e ustate option" where
  "search_from lit s s_len fname data line_start line_end check u =
     (if check < line_end then do {
        s0 \<leftarrow> load_byte s u;
        c \<leftarrow> load_byte (data + word_of_int check) u;
        if s0 = c then do {
          r \<leftarrow> ece391_strncmp (data + word_of_int check) s s_len u;
          if r = 0 then print_match lit fname (data + word_of_int line_start) u
          else search_from lit s s_len fname data line_start line_end (check + 1) u
        }
        else search_from lit s s_len fname data line_start line_end (check + 1) u
      }
      else Some u)"
  by pat_completeness auto
termination by (relation "measure (\<lambda>(lit, s, s_len, fname, data, line_start, line_end, check, u). nat (line_end - check))") auto

declare search_from.simps [simp del]

text \<open>All lines of the array; the result is the number of bytes kept for the next piece.\<close>

partial_function (option) grep_lines ::
  "(string \<Rightarrow> addr) \<Rightarrow> addr \<Rightarrow> u32 \<Rightarrow> addr \<Rightarrow> addr \<Rightarrow> int \<Rightarrow> int \<Rightarrow> int \<Rightarrow> 'e ustate \<Rightarrow> (int \<times> 'e ustate) option" where
  "grep_lines lit s s_len fname data cnt last' line_start u = do {
     line_end \<leftarrow> line_end_from data last' line_start u;
     c \<leftarrow> load_byte (data + word_of_int line_end) u;
     if c \<noteq> 10 \<and> cnt \<noteq> 0 \<and> line_start \<noteq> 0 then do {
       u \<leftarrow> store_byte (data + word_of_int line_end) 0 u;
       u \<leftarrow> ece391_strcpy data (data + word_of_int line_start) u;
       Some (last' - line_start, u)
     }
     else do {
       u \<leftarrow> store_byte (data + word_of_int line_end) 0 u;
       u \<leftarrow> search_from lit s s_len fname data line_start line_end line_start u;
       if line_end + 1 \<ge> last' then Some (0, u)
       else grep_lines lit s s_len fname data cnt last' (line_end + 1) u
     }
   }"

partial_function (option) grep_read ::
  "(string \<Rightarrow> addr) \<Rightarrow> addr \<Rightarrow> u32 \<Rightarrow> addr \<Rightarrow> int \<Rightarrow> addr \<Rightarrow> int \<Rightarrow> 'e ustate \<Rightarrow> (int \<times> 'e ustate) option" where
  "grep_read lit s s_len fname fd data last' u = do {
     (cnt, u) \<leftarrow> ece391_read fd (data + word_of_int last') (1024 - last') u;
     if cnt = -1 then say lit (line_of ''file read failed'') (-1) u
     else do {
       (last', u) \<leftarrow> grep_lines lit s s_len fname data cnt (last' + cnt) 0 u;
       if cnt = 0 then Some (0, u) else grep_read lit s s_len fname fd data last' u
     }
   }"

definition do_one_file :: "(string \<Rightarrow> addr) \<Rightarrow> addr \<Rightarrow> addr \<Rightarrow> addr \<Rightarrow> 'e ustate \<Rightarrow> (int \<times> 'e ustate) option" where
  "do_one_file lit s fname data u = do {
     s_len \<leftarrow> ece391_strlen s u;
     (fd, u) \<leftarrow> ece391_open fname u;
     if fd = -1 then say lit (line_of ''file open failed'') (-1) u
     else do {
       (r, u) \<leftarrow> grep_read lit s s_len fname fd data 0 u;
       if r = -1 then Some (-1, u)
       else do {
         (r, u) \<leftarrow> ece391_close fd u;
         if r = -1 then say lit (line_of ''file close failed'') (-1) u else Some (0, u)
       }
     }
   }"

partial_function (option) grep_files ::
  "(string \<Rightarrow> addr) \<Rightarrow> addr \<Rightarrow> int \<Rightarrow> addr \<Rightarrow> addr \<Rightarrow> 'e ustate \<Rightarrow> (int \<times> 'e ustate) option" where
  "grep_files lit search fd buf data u = do {
     (cnt, u) \<leftarrow> ece391_read fd buf 32 u;
     if cnt = 0 then Some (0, u)
     else if cnt = -1 then say lit (line_of ''directory entry read failed'') 3 u
     else do {
       c \<leftarrow> load_byte buf u;
       if c = 0x2E then grep_files lit search fd buf data u
       else do {
         u \<leftarrow> store_byte (buf + word_of_int cnt) 0 u;
         (r, u) \<leftarrow> do_one_file lit search buf data u;
         if r \<noteq> 0 then Some (3, u) else grep_files lit search fd buf data u
       }
     }
   }"

definition grep_main :: "(string \<Rightarrow> addr) \<Rightarrow> addr \<Rightarrow> addr \<Rightarrow> addr \<Rightarrow> 'e ustate \<Rightarrow> (int \<times> 'e ustate) option" where
  "grep_main lit search buf data u = do {
     (r, u) \<leftarrow> ece391_getargs search 1024 u;
     if r \<noteq> 0 then say lit (line_of ''could not read argument'') 3 u
     else do {
       (fd, u) \<leftarrow> ece391_open (lit ''.'') u;
       if fd = -1 then say lit (line_of ''directory open failed'') 2 u
       else grep_files lit search fd buf data u
     }
   }"

section \<open>What is printed\<close>

fun split_lines :: "u8 list \<Rightarrow> u8 list list" where
  "split_lines [] = [[]]"
| "split_lines (c # cs) = (if c = 10 then [] # split_lines cs else (c # hd (split_lines cs)) # tl (split_lines cs))"

definition occurs :: "u8 list \<Rightarrow> u8 list \<Rightarrow> bool" where
  "occurs ps l \<longleftrightarrow> ps \<noteq> [] \<and> (\<exists>i < length l. take (length ps) (drop i l) = ps)"

definition line_output :: "u8 list \<Rightarrow> u8 list \<Rightarrow> u8 list \<Rightarrow> u8 list" where
  "line_output fn ps l = (if occurs ps l then fn @ [58] @ l @ [10] else [])"

definition grep_output :: "u8 list \<Rightarrow> u8 list \<Rightarrow> u8 list \<Rightarrow> u8 list" where
  "grep_output fn ps bs = concat (map (line_output fn ps) (split_lines bs))"

lemma split_lines_nonempty [simp]: "split_lines bs \<noteq> []"
  by (induction bs) auto

lemma split_lines_plain: "10 \<notin> set l \<Longrightarrow> split_lines l = [l]"
  by (induction l) auto

lemma split_lines_line: "10 \<notin> set l \<Longrightarrow> split_lines (l @ 10 # rest) = l # split_lines rest"
  by (induction l) auto

lemma line_output_Nil [simp]: "line_output fn ps [] = []"
  by (simp add: line_output_def occurs_def)

lemma grep_output_plain: "10 \<notin> set l \<Longrightarrow> grep_output fn ps l = line_output fn ps l"
  by (simp add: grep_output_def split_lines_plain)

lemma grep_output_line: "10 \<notin> set l \<Longrightarrow> grep_output fn ps (l @ 10 # rest) = line_output fn ps l @ grep_output fn ps rest"
  by (simp add: grep_output_def split_lines_line)

section \<open>The state of the search\<close>

text \<open>
  What stays fixed while one file is searched: the process, the open file and its bytes, the
  address of the array, and the kernel state at the start.
\<close>

record grep_run =
  g_pid :: int
  g_fd :: int
  g_ino :: u32
  g_eof :: u32
  g_blk :: "nat \<Rightarrow> u32"
  g_bytes :: "u8 list"
  g_data :: addr
  g_start :: kernel

definition grepping :: "grep_run \<Rightarrow> nat \<Rightarrow> u8 list \<Rightarrow> console \<Rightarrow> kernel \<Rightarrow> bool" where
  "grepping g pos d con k \<longleftrightarrow> reading (g_pid g) (g_fd g) (g_ino g) (g_eof g) (g_blk g) pos k \<and>
     (\<forall>i < unat (g_eof g). file_byte (kvm k) k (g_ino g) i = Some (g_bytes g ! i)) \<and>
     length (g_bytes g) = unat (g_eof g) \<and> unat (g_eof g) \<le> 4096 \<and> region (g_data g) 1025 \<subseteq> upage \<and>
     k = (upd_fd (g_pid g) (g_fd g) (\<lambda>f. f\<lparr>file_pos := int pos\<rparr>) (g_start g))\<lparr>mach := mach k\<rparr> \<and>
     agree (kpage \<union> (upage - region (g_data g) 1025)) (kvm (g_start g)) (kvm k) \<and>
     ld_bytes (kvm k) (g_data g) 1025 = Some d \<and> displays (mach k) con"

lemma grepping_running: "grepping g pos d con k \<Longrightarrow> running (g_pid g) k"
  by (simp add: grepping_def reading_def)

lemma grepping_length: "grepping g pos d con k \<Longrightarrow> length d = 1025"
  unfolding grepping_def using ld_bytes_length by blast

lemma upage_unat: "a \<in> upage \<Longrightarrow> 0x8000000 \<le> unat a \<and> unat a < 0x8400000"
proof -
  assume "a \<in> upage"
  then have "unat (drop_bit 22 a) = 32" by (simp add: upage_def)
  then have "unat a div 0x400000 = 32" by (simp only: unat_drop_bit_eq) (simp add: drop_bit_eq_div)
  then show ?thesis by linarith
qed

lemma upage_memory:
  assumes "running pid k"
  shows "mapped (kvm k) upage" "apart (kvm k) upage kpage" "apart (kvm k) upage screen_region" "a \<in> upage \<Longrightarrow> uld8 (kvm k) a = ld8 (kvm k) a"
  using process_page_mapped [of "kvm k" pid] process_kpage_apart [of "kvm k" pid] apart_sym [OF screen_upage_apart [of "kvm k" pid]]
    user_access_upage [of "kvm k" pid a] assms by (simp_all add: running_def upage_def uld8_def)

lemma grepping_changes:
  assumes g: "grepping g pos d con k" and ch: "changes A (kvm k) v" and A: "A \<subseteq> region (g_data g) 1025"
    and d': "ld_bytes v (g_data g) 1025 = Some d'"
  shows "grepping g pos d' con (set_vm v k)"
proof -
  let ?B = "region (g_data g) 1025"
  have r: "reading (g_pid g) (g_fd g) (g_ino g) (g_eof g) (g_blk g) pos k" and B: "?B \<subseteq> upage" using g by (simp_all add: grepping_def)
  then have run: "running (g_pid g) k" and f: "file_at (kvm k) k (g_ino g) (g_eof g) (g_blk g)" and fa: "file_area k (g_ino g) (g_eof g) (g_blk g) \<subseteq> kpage"
    by (simp_all add: reading_def)
  note um = upage_memory [OF run]
  have "apart (kvm k) A (upage - ?B)" using A B by (intro apart_mapped mapped_subset [OF um(1)]) auto
  moreover have "apart (kvm k) A kpage" using apart_subset [OF um(2)] A B by blast
  ultimately have "apart (kvm k) A (kpage \<union> (upage - ?B))" unfolding apart_def by blast
  then have ag: "agree (kpage \<union> (upage - ?B)) (kvm k) v" by (rule agree_changes [OF ch])
  note fag = file_agree [OF agree_mono [OF ag] f]
  have "reading (g_pid g) (g_fd g) (g_ino g) (g_eof g) (g_blk g) pos (set_vm v k)"
    using r fag(1) fa running_changes [OF run ch] run by (simp add: reading_def running_def le_supI1)
  moreover have "\<forall>i < unat (g_eof g). file_byte v k (g_ino g) i = Some (g_bytes g ! i)"
    using g fag(2) fa by (simp add: grepping_def le_supI1)
  moreover have "displays (mach (set_vm v k)) con"
    using displays_changes [OF _ ch apart_subset [OF um(3)]] g A B by (simp add: grepping_def set_vm_def)
  moreover have "agree (kpage \<union> (upage - ?B)) (kvm (g_start g)) v" using agree_trans [OF _ ag] g by (simp add: grepping_def)
  moreover have "set_vm v k = (upd_fd (g_pid g) (g_fd g) (\<lambda>f. f\<lparr>file_pos := int pos\<rparr>) (g_start g))\<lparr>mach := mach (set_vm v k)\<rparr>"
  proof -
    have "k = (upd_fd (g_pid g) (g_fd g) (\<lambda>f. f\<lparr>file_pos := int pos\<rparr>) (g_start g))\<lparr>mach := mach k\<rparr>" using g by (simp only: grepping_def)
    from arg_cong [OF this, of "\<lambda>x. x\<lparr>mach := mach (set_vm v k)\<rparr>"] show ?thesis by (simp add: set_vm_def)
  qed
  ultimately show ?thesis using g d' by (simp add: grepping_def)
qed

lemma grepping_console:
  assumes g: "grepping g pos d con k" and m: "console_frame (mach k) m" "displays m con'"
  shows "grepping g pos d con' (k\<lparr>mach := m\<rparr>)"
proof -
  let ?B = "region (g_data g) 1025"
  have r: "reading (g_pid g) (g_fd g) (g_ino g) (g_eof g) (g_blk g) pos k" and B: "?B \<subseteq> upage" using g by (simp_all add: grepping_def)
  have run: "running (g_pid g) k" by (rule grepping_running [OF g])
  then have l: "layout (kvm k)" by (simp add: running_def)
  have ch: "changes screen_region (kvm k) (vm m)" using m(1) by (simp add: console_frame_def)
  have "agree upage (kvm k) (vm m)" by (rule agree_changes [OF ch apart_sym [OF upage_memory(3) [OF run]]])
  then have au: "agree (kpage \<union> upage) (kvm k) (vm m)" using console_kpage(1) [OF l m(1)] by (auto simp: agree_def)
  have "ld_bytes (vm m) (g_data g) 1025 = Some d"
    using ld_bytes_agree [OF agree_mono [OF au]] B g by (simp add: grepping_def le_supI2)
  moreover have "agree (kpage \<union> (upage - ?B)) (kvm (g_start g)) (vm m)"
    using agree_trans [OF _ agree_mono [OF au]] g by (auto simp: grepping_def)
  moreover have "k\<lparr>mach := m\<rparr> = (upd_fd (g_pid g) (g_fd g) (\<lambda>f. f\<lparr>file_pos := int pos\<rparr>) (g_start g))\<lparr>mach := m\<rparr>"
  proof -
    have "k = (upd_fd (g_pid g) (g_fd g) (\<lambda>f. f\<lparr>file_pos := int pos\<rparr>) (g_start g))\<lparr>mach := mach k\<rparr>" using g by (simp only: grepping_def)
    from arg_cong [OF this, of "\<lambda>x. x\<lparr>mach := m\<rparr>"] show ?thesis by simp
  qed
  ultimately show ?thesis using g reading_console [OF r m(1)] m(2) by (simp add: grepping_def)
qed

subsection \<open>Loads, stores and strings\<close>

lemma grep_addr:
  assumes "grepping g pos d con k" and "i < 1025"
  shows "g_data g + word_of_nat i \<in> upage"
  using assms region_memI [of i 1025 "g_data g"] by (auto simp: grepping_def)

lemma grep_load:
  assumes "grepping g pos d con k" and "i < 1025"
  shows "load_byte (g_data g + word_of_nat i) (e, k) = Some (d ! i)"
  using assms ld_bytes_nth [of "kvm k" "g_data g" 1025 d i] upage_memory(4) [OF grepping_running [OF assms(1)] grep_addr [OF assms]]
  by (simp add: load_byte_def grepping_def)

lemma grep_store:
  assumes g: "grepping g pos d con k" and i: "i < 1025"
  shows "\<exists>v. ust8 (kvm k) (g_data g + word_of_nat i) b = Some v \<and> grepping g pos (d[i := b]) con (set_vm v k)"
proof -
  have run: "running (g_pid g) k" by (rule grepping_running [OF g])
  have up: "g_data g + word_of_nat i \<in> upage" by (rule grep_addr [OF g i])
  obtain p where p: "translate (kvm k) (g_data g + word_of_nat i) = Some p" using upage_memory(1) [OF run] up by (auto simp: mapped_def)
  have "user_access (kvm k) (g_data g + word_of_nat i)" using user_access_upage [of "kvm k" "g_pid g"] up run by (simp add: running_def)
  then obtain v where v: "ust8 (kvm k) (g_data g + word_of_nat i) b = Some v" "st8 (kvm k) (g_data g + word_of_nat i) b = Some v"
    using p by (simp add: ust8_def st8_def)
  have m: "mapped (kvm k) (region (g_data g) 1025)" using mapped_subset [OF upage_memory(1) [OF run]] g by (simp add: grepping_def)
  have "ld_bytes (kvm k) (g_data g) 1025 = Some d" using g by (simp add: grepping_def)
  from ld_bytes_store [OF m this i _ v(2)] have "ld_bytes v (g_data g) 1025 = Some (d[i := b])" by simp
  then have "grepping g pos (d[i := b]) con (set_vm v k)"
    using i by (intro grepping_changes [OF g st8_changes [OF v(2)]]) (auto intro: region_memI)
  then show ?thesis using v(1) by blast
qed

lemma grep_store_byte:
  assumes "grepping g pos d con k" and "i < 1025"
  shows "\<exists>k'. store_byte (g_data g + word_of_nat i) b (e, k) = Some (e, k') \<and> grepping g pos (d[i := b]) con k'"
  using grep_store [OF assms, of b] by (auto simp: store_byte_def on_vm_def)

lemma cstring_in_list:
  assumes "ld_bytes v a n = Some d" and "drop i d = l @ 0 # rest" and "0 \<notin> set l" and "n < 2 ^ 31"
  shows "cstring v (a + word_of_nat i) l"
proof -
  have len: "length d = n" by (rule ld_bytes_length [OF assms(1)])
  have n: "i + Suc (length l) \<le> n" using arg_cong [OF assms(2), of length] len by simp
  have "ld8 v (a + word_of_nat i + word_of_nat j) = Some ((l @ [0]) ! j)" if "j < Suc (length l)" for j
  proof -
    have "d ! (i + j) = drop i d ! j" using n len by simp
    also have "\<dots> = (l @ [0]) ! j" using that unfolding assms(2) by (auto simp: nth_append less_Suc_eq)
    finally show ?thesis using ld_bytes_nth [OF assms(1), of "i + j"] n that by (simp add: add.assoc)
  qed
  then have "ld_bytes v (a + word_of_nat i) (Suc (length l)) = Some (l @ [0])" by (intro ld_bytesI) simp_all
  then show ?thesis using assms(3,4) n by (simp add: cstring_def)
qed

lemma grep_line:
  assumes g: "grepping g pos d con k" and l: "drop i d = l @ 0 # rest" "0 \<notin> set l"
  shows "cstring (kvm k) (g_data g + word_of_nat i) l" "region (g_data g + word_of_nat i) (Suc (length l)) \<subseteq> upage"
proof -
  show "cstring (kvm k) (g_data g + word_of_nat i) l" by (rule cstring_in_list [OF _ l, of "kvm k" "g_data g" 1025]) (use g in \<open>simp_all add: grepping_def\<close>)
  have "i + Suc (length l) \<le> 1025" using arg_cong [OF l(1), of length] grepping_length [OF g] by simp
  then show "region (g_data g + word_of_nat i) (Suc (length l)) \<subseteq> upage"
    using region_sub [of i "Suc (length l)" 1025 "g_data g"] g by (auto simp: grepping_def)
qed

text \<open>A string of the program outside the array.\<close>

definition outside :: "grep_run \<Rightarrow> addr \<Rightarrow> u8 list \<Rightarrow> bool" where
  "outside g a bs \<longleftrightarrow> cstring (kvm (g_start g)) a bs \<and> region a (Suc (length bs)) \<subseteq> upage - region (g_data g) 1025"

lemma grep_outside:
  assumes "grepping g pos d con k" and "outside g a bs"
  shows "cstring (kvm k) a bs" "region a (Suc (length bs)) \<subseteq> upage"
  using assms ld_bytes_agree [OF agree_mono, of "kpage \<union> (upage - region (g_data g) 1025)" "kvm (g_start g)" "kvm k" a "Suc (length bs)"]
  by (auto simp: grepping_def outside_def cstring_def)

lemma grep_puts:
  assumes g: "grepping g pos d con k" and s: "cstring (kvm k) a bs" "region a (Suc (length bs)) \<subseteq> upage"
  shows "\<exists>k'. ece391_fdputs 1 a (e, k) = Some (e, k') \<and> grepping g pos d (fold con_putc bs con) k'"
proof -
  have "displays (mach k) con" using g by (simp add: grepping_def)
  from fdputs_user [OF grepping_running [OF g] s this upage_nonzero [OF s(2)], of e] show ?thesis
    using grepping_console [OF g] by blast
qed

lemma strncmp_user:
  assumes "running pid k" and "cstring (kvm k) a t" and "cstring (kvm k) b ps" and "region a (Suc (length t)) \<subseteq> upage"
    and "region b (Suc (length ps)) \<subseteq> upage" and "ps \<noteq> []"
  shows "\<exists>r. ece391_strncmp_from (kvm k) a b (word_of_nat (length ps)) = Some r \<and> (r = 0 \<longleftrightarrow> take (length ps) t = ps)"
  using assms(2-)
proof (induction ps arbitrary: t a b)
  case Nil
  then show ?case by simp
next
  case (Cons p ps)
  note u = upage_memory(4) [OF assms(1)]
  have b: "ld8 (kvm k) b = Some p" "p \<noteq> 0" "cstring (kvm k) (b + 1) ps" using cstring_Cons [OF Cons.prems(2)] by auto
  have rb: "b \<in> upage" "region (b + 1) (Suc (length ps)) \<subseteq> upage" using Cons.prems(4) region_Suc [of b "Suc (length ps)"] by auto
  show ?case
  proof (cases t)
    case Nil
    have "ld8 (kvm k) a = Some 0" "a \<in> upage" using Cons.prems(1,3) Nil by (simp_all add: cstring_Nil region_Suc)
    then show ?thesis using b u [OF rb(1)] u [of a] Nil by (subst ece391_strncmp_from.simps) (simp add: uint_0_iff)
  next
    case (Cons x t')
    have a: "ld8 (kvm k) a = Some x" "x \<noteq> 0" "cstring (kvm k) (a + 1) t'" using cstring_Cons Cons.prems(1) Cons by auto
    have ra: "a \<in> upage" "region (a + 1) (Suc (length t')) \<subseteq> upage" using Cons.prems(3) Cons region_Suc [of a "Suc (length t')"] by auto
    have l: "length ps < 2 ^ 31" using b(3) by (simp add: cstring_def)
    have n: "(word_of_nat (length (p # ps)) :: u32) - 1 = word_of_nat (length ps)" by simp
    have z: "(word_of_nat (length ps) :: u32) = 0 \<longleftrightarrow> ps = []" using word_of_nat_inj_u32 [of "length ps" 0] l by simp
    show ?thesis
    proof (cases "x = p \<and> ps \<noteq> []")
      case True
      with Cons.IH [OF a(3) b(3) ra(2) rb(2)] show ?thesis
        using a b u [OF ra(1)] u [OF rb(1)] Cons z by (subst ece391_strncmp_from.simps) (simp only: n, simp)
    next
      case False
      then show ?thesis
        using a b u [OF ra(1)] u [OF rb(1)] Cons z by (subst ece391_strncmp_from.simps) (simp only: n, auto dest: unsigned_word_eqI)
    qed
  qed
qed

lemma copied_nth:
  assumes "drop i d = l @ 0 # rest" and "0 < i" and "j \<le> length l"
  shows "(take j l @ drop j d) ! (i + j) = (l @ [0]) ! j"
proof -
  have n: "i + Suc (length l) \<le> length d" using arg_cong [OF assms(1), of length] by simp
  have "(take j l @ drop j d) ! (i + j) = d ! (i + j)" using assms(2,3) n by (simp add: nth_append min_absorb2 add.commute)
  also have "\<dots> = drop i d ! j" using n assms(3) by simp
  also have "\<dots> = (l @ [0]) ! j" unfolding assms(1) using assms(3) by (auto simp: nth_append)
  finally show ?thesis .
qed

lemma strcpy_from_grep:
  assumes "grepping g pos (take j l @ drop j d) con k" and "drop i d = l @ 0 # rest" and "0 \<notin> set l" and "0 < i" and "j \<le> length l" and "length d = 1025"
  shows "\<exists>v. ece391_strcpy_from (kvm k) (g_data g + word_of_nat j) (g_data g + word_of_nat (i + j)) = Some v \<and>
    grepping g pos (l @ 0 # drop (Suc (length l)) d) con (set_vm v k)"
  using assms(1,5)
proof (induction "length l - j" arbitrary: j k)
  case 0
  then have j: "j = length l" by simp
  have n: "i + Suc (length l) \<le> 1025" using arg_cong [OF assms(2), of length] assms(6) by simp
  have c: "(take j l @ drop j d) ! (i + j) = 0" using copied_nth [OF assms(2,4), of j] j by simp
  have ld: "uld8 (kvm k) (g_data g + word_of_nat (i + j)) = Some 0"
    using grep_load [OF 0(2), of "i + j"] c n j by (simp add: load_byte_def)
  obtain v where v: "ust8 (kvm k) (g_data g + word_of_nat j) 0 = Some v" "grepping g pos ((take j l @ drop j d)[j := 0]) con (set_vm v k)"
    using grep_store [OF 0(2), of j 0] n j by auto
  have "(take j l @ drop j d)[j := 0] = l @ 0 # drop (Suc (length l)) d"
    using j n assms(6) by (simp add: list_update_append Cons_nth_drop_Suc [symmetric])
  then show ?case using v ld by (subst ece391_strcpy_from.simps) simp
next
  case (Suc x)
  then have j: "j < length l" by simp
  have n: "i + Suc (length l) \<le> 1025" using arg_cong [OF assms(2), of length] assms(6) by simp
  have c: "(take j l @ drop j d) ! (i + j) = l ! j" using copied_nth [OF assms(2,4), of j] j by (simp add: nth_append)
  have nz: "l ! j \<noteq> 0" using assms(3) j by (metis nth_mem)
  have ld: "uld8 (kvm k) (g_data g + word_of_nat (i + j)) = Some (l ! j)"
    using grep_load [OF Suc.prems(1), of "i + j"] c n j by (simp add: load_byte_def)
  obtain v where v: "ust8 (kvm k) (g_data g + word_of_nat j) (l ! j) = Some v"
    "grepping g pos ((take j l @ drop j d)[j := l ! j]) con (set_vm v k)"
    using grep_store [OF Suc.prems(1), of j "l ! j"] n j by auto
  have "(take j l @ drop j d)[j := l ! j] = take (Suc j) l @ drop (Suc j) d"
    using j n assms(6) by (simp add: list_update_append take_Suc_conv_app_nth Cons_nth_drop_Suc [symmetric])
  then have g': "grepping g pos (take (Suc j) l @ drop (Suc j) d) con (set_vm v k)" using v(2) by simp
  have x: "x = length l - Suc j" "Suc j \<le> length l" using Suc.hyps(2) j by simp_all
  obtain w where "ece391_strcpy_from v (g_data g + word_of_nat (Suc j)) (g_data g + word_of_nat (i + Suc j)) = Some w"
    "grepping g pos (l @ 0 # drop (Suc (length l)) d) con (set_vm w (set_vm v k))" using Suc.hyps(1) [OF x(1) g' x(2)] by auto
  moreover have "set_vm w (set_vm v k) = set_vm w k" by (simp add: set_vm_def)
  ultimately show ?case using v(1) ld nz by (subst ece391_strcpy_from.simps) (simp add: algebra_simps)
qed

lemma grep_strcpy:
  assumes g: "grepping g pos d con k" and l: "drop i d = l @ 0 # rest" "0 \<notin> set l" "0 < i"
  shows "\<exists>k'. ece391_strcpy (g_data g) (g_data g + word_of_nat i) (e, k) = Some (e, k') \<and>
    grepping g pos (l @ 0 # drop (Suc (length l)) d) con k'"
proof -
  have "grepping g pos (take 0 l @ drop 0 d) con k" using g by simp
  from strcpy_from_grep [OF this l _ grepping_length [OF g]] show ?thesis
    by (auto simp: ece391_strcpy_def on_vm_def)
qed

subsection \<open>One line\<close>

lemma grep_line_end:
  assumes g: "grepping g pos d con k" and t: "take (b - a) (drop a d) = l @ r" "10 \<notin> set l" "r = [] \<or> hd r = 10" and b: "a \<le> b" "b \<le> 1024"
  shows "line_end_from (g_data g) (int b) (int a) (e, k) = Some (int (a + length l))"
  using t b
proof (induction l arbitrary: a)
  case Nil
  show ?case
  proof (cases "a < b")
    case True
    then have "r \<noteq> []" using Nil.prems(1) grepping_length [OF g] Nil.prems(5) by auto
    moreover have "take (b - a) (drop a d) ! 0 = d ! a" using True grepping_length [OF g] Nil.prems(5) by simp
    ultimately have "d ! a = 10" using Nil.prems(1,3) by (cases r) auto
    then show ?thesis using grep_load [OF g, of a e] True Nil.prems(5) by (subst line_end_from.simps) simp
  next
    case False
    then show ?thesis by (subst line_end_from.simps) simp
  qed
next
  case (Cons c l)
  have lt: "a < b" using Cons.prems(1) by (cases "a < b") auto
  have dr: "drop a d = d ! a # drop (Suc a) d" using lt Cons.prems(5) grepping_length [OF g] by (simp add: Cons_nth_drop_Suc)
  obtain m where m: "b - a = Suc m" "m = b - Suc a" using lt by (cases "b - a") auto
  have tl: "d ! a = c" "take (b - Suc a) (drop (Suc a) d) = l @ r" using Cons.prems(1) unfolding dr m(1) by (simp_all add: m(2))
  have IH: "line_end_from (g_data g) (int b) (int (Suc a)) (e, k) = Some (int (Suc a + length l))"
    using Cons.IH [OF tl(2)] Cons.prems lt by simp
  have "c \<noteq> 10" using Cons.prems(2) by auto
  then show ?case using grep_load [OF g, of a e] tl(1) lt Cons.prems(5) IH
    by (subst line_end_from.simps) (simp add: add.commute)
qed

definition grep_strings :: "grep_run \<Rightarrow> (string \<Rightarrow> addr) \<Rightarrow> addr \<Rightarrow> u8 list \<Rightarrow> addr \<Rightarrow> u8 list \<Rightarrow> bool" where
  "grep_strings g lit fname fn s ps \<longleftrightarrow> outside g fname fn \<and> outside g s ps \<and>
     outside g (lit '':'') (map of_char '':'') \<and> outside g (lit (line_of '''')) (map of_char (line_of ''''))"

lemma grep_print:
  assumes g: "grepping g pos d con k" and s: "grep_strings g lit fname fn s ps" and l: "drop i d = l @ 0 # rest" "0 \<notin> set l"
  shows "\<exists>k'. print_match lit fname (g_data g + word_of_nat i) (e, k) = Some (e, k') \<and>
    grepping g pos d (fold con_putc (fn @ [58] @ l @ [10]) con) k'"
proof -
  have o: "outside g fname fn" "outside g (lit '':'') [58]" "outside g (lit (line_of '''')) [10]" using s by (simp_all add: grep_strings_def)
  obtain k1 where k1: "ece391_fdputs 1 fname (e, k) = Some (e, k1)" "grepping g pos d (fold con_putc fn con) k1"
    using grep_puts [OF g grep_outside [OF g o(1)], of e] by blast
  obtain k2 where k2: "ece391_fdputs 1 (lit '':'') (e, k1) = Some (e, k2)" "grepping g pos d (fold con_putc [58] (fold con_putc fn con)) k2"
    using grep_puts [OF k1(2) grep_outside [OF k1(2) o(2)], of e] by blast
  obtain k3 where k3: "ece391_fdputs 1 (g_data g + word_of_nat i) (e, k2) = Some (e, k3)"
    "grepping g pos d (fold con_putc l (fold con_putc [58] (fold con_putc fn con))) k3"
    using grep_puts [OF k2(2) grep_line [OF k2(2) l], of e] by blast
  obtain k4 where k4: "ece391_fdputs 1 (lit (line_of '''')) (e, k3) = Some (e, k4)"
    "grepping g pos d (fold con_putc [10] (fold con_putc l (fold con_putc [58] (fold con_putc fn con)))) k4"
    using grep_puts [OF k3(2) grep_outside [OF k3(2) o(3)], of e] by blast
  show ?thesis using k1(1) k2(1) k3(1) k4 by (auto simp: print_match_def puts_lit_def)
qed

definition occurs_from :: "nat \<Rightarrow> u8 list \<Rightarrow> u8 list \<Rightarrow> bool" where
  "occurs_from j ps l \<longleftrightarrow> ps \<noteq> [] \<and> (\<exists>i < length l. j \<le> i \<and> take (length ps) (drop i l) = ps)"

lemma occurs_from_step:
  assumes "j < length l"
  shows "occurs_from j ps l \<longleftrightarrow> (ps \<noteq> [] \<and> take (length ps) (drop j l) = ps) \<or> occurs_from (Suc j) ps l"
proof -
  have "(\<exists>i < length l. j \<le> i \<and> P i) \<longleftrightarrow> P j \<or> (\<exists>i < length l. Suc j \<le> i \<and> P i)" for P
    using assms by (metis Suc_leD Suc_leI le_eq_less_or_eq order_refl)
  then show ?thesis by (simp add: occurs_from_def conj_disj_distribL)
qed

lemma grep_search:
  assumes g: "grepping g pos d con k" and s: "grep_strings g lit fname fn s ps" and l: "drop i d = l @ 0 # rest" "0 \<notin> set l" and j: "j \<le> length l"
  shows "\<exists>k'. search_from lit s (word_of_nat (length ps)) fname (g_data g) (int i) (int (i + length l)) (int (i + j)) (e, k) = Some (e, k') \<and>
    grepping g pos d (fold con_putc (if occurs_from j ps l then fn @ [58] @ l @ [10] else []) con) k'"
  using j
proof (induction "length l - j" arbitrary: j)
  case 0
  then have "j = length l" by simp
  moreover from this have "\<not> occurs_from j ps l" by (auto simp: occurs_from_def)
  ultimately show ?case using g by (subst search_from.simps) simp
next
  case (Suc x)
  then have j: "j < length l" by simp
  have run: "running (g_pid g) k" by (rule grepping_running [OF g])
  have n: "i + Suc (length l) \<le> 1025" using arg_cong [OF l(1), of length] grepping_length [OF g] by simp
  have o: "outside g s ps" using s by (simp add: grep_strings_def)
  note cs = grep_outside [OF g o]
  have dj: "drop (i + j) d = drop j l @ 0 # rest" using arg_cong [OF l(1), of "drop j"] j by (simp add: add.commute)
  have z: "0 \<notin> set (drop j l)" using l(2) by (auto dest: in_set_dropD)
  note cd = grep_line [OF g dj z]
  have c: "d ! (i + j) = l ! j" "l ! j \<noteq> 0"
  proof -
    have "d ! (i + j) = drop i d ! j" using n j grepping_length [OF g] by simp
    then show "d ! (i + j) = l ! j" unfolding l(1) using j by (simp add: nth_append)
    show "l ! j \<noteq> 0" using l(2) j by (metis nth_mem)
  qed
  have ldc: "load_byte (g_data g + word_of_nat (i + j)) (e, k) = Some (l ! j)" using grep_load [OF g, of "i + j" e] n j c(1) by simp
  have s0: "load_byte s (e, k) = Some (if ps = [] then 0 else hd ps)"
  proof -
    have "s \<in> upage" using cs(2) by (simp add: region_Suc)
    then have "load_byte s (e, k) = ld8 (kvm k) s" using upage_memory(4) [OF run] by (simp add: load_byte_def)
    then show ?thesis using cs(1) cstring_Cons [of "kvm k" s] by (cases ps) (auto simp: cstring_Nil)
  qed
  have IH: "\<exists>k'. search_from lit s (word_of_nat (length ps)) fname (g_data g) (int i) (int (i + length l)) (int (i + Suc j)) (e, k) = Some (e, k') \<and>
      grepping g pos d (fold con_putc (if occurs_from (Suc j) ps l then fn @ [58] @ l @ [10] else []) con) k'"
    using Suc.hyps(1) [of "Suc j"] Suc.hyps(2) j by simp
  have step: "occurs_from j ps l \<longleftrightarrow> (ps \<noteq> [] \<and> take (length ps) (drop j l) = ps) \<or> occurs_from (Suc j) ps l" by (rule occurs_from_step [OF j])
  have dl: "drop j l = l ! j # drop (Suc j) l" using j by (simp add: Cons_nth_drop_Suc)
  have w: "word_of_int (int (i + j)) = (word_of_nat (i + j) :: u32)" "int (i + j) + 1 = int (i + Suc j)" "int (i + j) < int (i + length l)"
    using j by simp_all
  show ?case
  proof (cases "ps \<noteq> [] \<and> hd ps = l ! j")
    case False
    then have nm: "\<not> (ps \<noteq> [] \<and> take (length ps) (drop j l) = ps)" unfolding dl by (cases ps) auto
    have "(if ps = [] then 0 else hd ps) \<noteq> l ! j" using False c(2) by auto
    then show ?thesis using IH nm step s0 ldc by (subst search_from.simps) (simp only: w if_True bind.bind_lunit if_False simp_thms)
  next
    case True
    obtain r where r: "ece391_strncmp_from (kvm k) (g_data g + word_of_nat (i + j)) s (word_of_nat (length ps)) = Some r"
      "r = 0 \<longleftrightarrow> take (length ps) (drop j l) = ps" using strncmp_user [OF run cd(1) cs(1) cd(2) cs(2)] True by blast
    have "(word_of_nat (length ps) :: u32) \<noteq> 0" using word_of_nat_inj_u32 [of "length ps" 0] True cs(1) by (simp add: cstring_def)
    then have cmp: "ece391_strncmp (g_data g + word_of_nat (i + j)) s (word_of_nat (length ps)) (e, k) = Some r" using r(1) by (simp add: ece391_strncmp_def)
    show ?thesis
    proof (cases "r = 0")
      case True': True
      then show ?thesis using grep_print [OF g s l, of e] step r(2) True s0 ldc cmp
        by (subst search_from.simps) (simp only: w if_True bind.bind_lunit if_False simp_thms of_int_of_nat_eq)
    next
      case False
      then show ?thesis using IH step r(2) True s0 ldc cmp
        by (subst search_from.simps) (simp only: w if_True bind.bind_lunit if_False simp_thms)
    qed
  qed
qed

subsection \<open>All lines of the array\<close>

lemma drop_terminated:
  assumes "a \<le> b" and "b < length d"
  shows "drop a (d[b := c]) = take (b - a) (drop a d) @ c # drop (Suc b) d"
proof -
  have "drop a (d[b := c]) = take (b - a) (drop a (d[b := c])) @ drop b (d[b := c])"
    using assms(1) by (metis append_take_drop_id drop_drop le_add_diff_inverse2)
  also have "take (b - a) (drop a (d[b := c])) = take (b - a) (drop a d)" using assms by (simp add: drop_update_swap)
  also have "drop b (d[b := c]) = c # drop (Suc b) d" using assms by (simp add: Cons_nth_drop_Suc [symmetric])
  finally show ?thesis .
qed

lemma grep_one_line:
  assumes g: "grepping g pos d con k" and s: "grep_strings g lit fname fn s ps" and b: "a \<le> b" "b \<le> 1024"
    and l: "take (b - a) (drop a d) = l" "0 \<notin> set l"
  shows "\<exists>k1 k'. store_byte (g_data g + word_of_nat b) 0 (e, k) = Some (e, k1) \<and>
    search_from lit s (word_of_nat (length ps)) fname (g_data g) (int a) (int b) (int a) (e, k1) = Some (e, k') \<and>
    grepping g pos (d[b := 0]) (fold con_putc (line_output fn ps l) con) k'"
proof -
  have len: "length d = 1025" by (rule grepping_length [OF g])
  obtain k1 where k1: "store_byte (g_data g + word_of_nat b) 0 (e, k) = Some (e, k1)" "grepping g pos (d[b := 0]) con k1"
    using grep_store_byte [OF g, of b 0 e] b by auto
  have ll: "b = a + length l" using l(1) b len by auto
  have dr: "drop a (d[b := 0]) = l @ 0 # drop (Suc b) d" using drop_terminated [of a b d 0] b l(1) len by simp
  have "occurs_from 0 ps l \<longleftrightarrow> occurs ps l" by (simp add: occurs_from_def occurs_def)
  then show ?thesis using k1(1) grep_search [OF k1(2) s dr l(2), of 0 e] ll by (auto simp: line_output_def)
qed

lemma grep_carry:
  assumes g: "grepping g pos d con k" and b: "0 < a" "a \<le> b" "b \<le> 1024" and l: "take (b - a) (drop a d) = l" "0 \<notin> set l"
  shows "\<exists>k1 k'. store_byte (g_data g + word_of_nat b) 0 (e, k) = Some (e, k1) \<and>
    ece391_strcpy (g_data g) (g_data g + word_of_nat a) (e, k1) = Some (e, k') \<and>
    grepping g pos (l @ 0 # drop (Suc (length l)) (d[b := 0])) con k'"
proof -
  have len: "length d = 1025" by (rule grepping_length [OF g])
  obtain k1 where k1: "store_byte (g_data g + word_of_nat b) 0 (e, k) = Some (e, k1)" "grepping g pos (d[b := 0]) con k1"
    using grep_store_byte [OF g, of b 0 e] b by auto
  have dr: "drop a (d[b := 0]) = l @ 0 # drop (Suc b) d" using drop_terminated [of a b d 0] b l(1) len by simp
  then show ?thesis using k1(1) grep_strcpy [OF k1(2) dr l(2) b(1), of e] by blast
qed

definition short_lines :: "u8 list \<Rightarrow> bool" where
  "short_lines bs \<longleftrightarrow> (\<forall>l \<in> set (split_lines bs). length l < 1024)"

text \<open>
  After the lines of \<open>t\<close> are searched, with \<open>rest\<close> still in the file: \<open>out\<close> has been printed and
  \<open>c\<close> is kept.
\<close>

definition searched :: "u8 list \<Rightarrow> u8 list \<Rightarrow> u8 list \<Rightarrow> u8 list \<Rightarrow> u8 list \<Rightarrow> u8 list \<Rightarrow> bool" where
  "searched fn ps t rest out c \<longleftrightarrow> grep_output fn ps (t @ rest) = out @ grep_output fn ps (c @ rest) \<and>
     (short_lines (t @ rest) \<longrightarrow> short_lines (c @ rest)) \<and> 10 \<notin> set c \<and> set c \<subseteq> set t"

lemma searched_carry: "10 \<notin> set t \<Longrightarrow> searched fn ps t rest [] t"
  by (simp add: searched_def)

lemma searched_last: "10 \<notin> set t \<Longrightarrow> searched fn ps t [] (line_output fn ps t) []"
  by (simp add: searched_def grep_output_plain short_lines_def)

lemma searched_line:
  assumes "10 \<notin> set l" and "searched fn ps t rest out c"
  shows "searched fn ps (l @ 10 # t) rest (line_output fn ps l @ out) c"
  using assms by (auto simp: searched_def grep_output_line split_lines_line short_lines_def)

lemma grep_lines_search:
  assumes "grepping g pos d con k" and s: "grep_strings g lit fname fn s ps" and "a \<le> b" and b: "b \<le> 1024"
    and "take (b - a) (drop a d) = t" and "0 \<notin> set t" and "d ! 1024 \<noteq> 10"
    and "rest = [] \<or> (cnt \<noteq> 0 \<and> b = 1024 \<and> (a \<noteq> 0 \<or> 10 \<in> set t))"
  shows "\<exists>k' d' out c. grep_lines lit s (word_of_nat (length ps)) fname (g_data g) cnt (int b) (int a) (e, k) = Some (int (length c), e, k') \<and>
    grepping g pos d' (fold con_putc out con) k' \<and> take (length c) d' = c \<and> length c < 1024 \<and> (cnt = 0 \<longrightarrow> c = []) \<and> d' ! 1024 \<noteq> 10 \<and>
    searched fn ps t rest out c"
  using assms(1,3,5-)
proof (induction "length t" arbitrary: a d con k t rule: less_induct)
  case less
  note g = less.prems(1) and a = less.prems(2) and t = less.prems(3)
  have len: "length d = 1025" by (rule grepping_length [OF g])
  have lt: "length t = b - a" using t b len by auto
  show ?case
  proof (cases "10 \<in> set t")
    case False
    have le: "line_end_from (g_data g) (int b) (int a) (e, k) = Some (int b)"
      using grep_line_end [OF g, of b a t "[]"] t False a b lt by simp
    have ld: "load_byte (g_data g + word_of_nat b) (e, k) = Some (d ! b)" using grep_load [OF g, of b e] b by simp
    show ?thesis
    proof (cases "d ! b \<noteq> 10 \<and> cnt \<noteq> 0 \<and> a \<noteq> 0")
      case True
      obtain k1 k' where k': "store_byte (g_data g + word_of_nat b) 0 (e, k) = Some (e, k1)"
        "ece391_strcpy (g_data g) (g_data g + word_of_nat a) (e, k1) = Some (e, k')"
        "grepping g pos (t @ 0 # drop (Suc (length t)) (d[b := 0])) con k'"
        using grep_carry [OF g _ a b t less.prems(4), of e] True by auto
      have lt': "length t < 1024" using lt b True by linarith
      have "(t @ 0 # drop (Suc (length t)) (d[b := 0])) ! 1024 \<noteq> 10"
        using less.prems(5) lt' len b by (auto simp: nth_append nth_Cons' nth_list_update)
      then show ?thesis using le ld k' True lt lt' a searched_carry [OF False, of fn ps rest]
        by (intro exI [of _ k'] exI [of _ "t @ 0 # drop (Suc (length t)) (d[b := 0])"] exI [of _ "[]"] exI [of _ t])
          (subst grep_lines.simps, simp add: of_nat_diff)
    next
      case F: False
      have r: "rest = []" using less.prems(5,6) False F by auto
      obtain k1 k' where k': "store_byte (g_data g + word_of_nat b) 0 (e, k) = Some (e, k1)"
        "search_from lit s (word_of_nat (length ps)) fname (g_data g) (int a) (int b) (int a) (e, k1) = Some (e, k')"
        "grepping g pos (d[b := 0]) (fold con_putc (line_output fn ps t) con) k'"
        using grep_one_line [OF g s a b t less.prems(4), of e] by blast
      have "d[b := 0] ! 1024 \<noteq> 10" using less.prems(5) len by (cases "b = 1024") simp_all
      then show ?thesis using le ld k' F searched_last [OF False, of fn ps] unfolding r
        by (intro exI [of _ k'] exI [of _ "d[b := 0]"] exI [of _ "line_output fn ps t"] exI [of _ "[]"])
          (subst grep_lines.simps, auto)
    qed
  next
    case True
    then obtain l t' where tt: "t = l @ 10 # t'" "10 \<notin> set l" by (metis split_list_first)
    define b' where "b' = a + length l"
    have b': "a \<le> b'" "b' < b" "b' \<le> 1024" using lt tt(1) b by (simp_all add: b'_def)
    have le: "line_end_from (g_data g) (int b) (int a) (e, k) = Some (int b')"
      using grep_line_end [OF g, of b a l "10 # t'"] t tt a b by (simp add: b'_def)
    have tb: "take (b' - a) (drop a d) = l" "take (b - Suc b') (drop (Suc b') d) = t'" "d ! b' = 10"
    proof -
      have dt: "drop a d = t @ drop b d" using t a append_take_drop_id [of "b - a" "drop a d"] by simp
      show "take (b' - a) (drop a d) = l" unfolding dt by (simp add: tt(1) b'_def)
      have "drop (Suc b') d = drop (Suc (length l)) (drop a d)" by (simp add: b'_def add.commute)
      then have "drop (Suc b') d = t' @ drop b d" unfolding dt by (simp add: tt(1))
      moreover have "b - Suc b' = length t'" using lt tt(1) a by (simp add: b'_def)
      ultimately show "take (b - Suc b') (drop (Suc b') d) = t'" by simp
      have "d ! b' = drop a d ! length l" using len b'(3) by (simp add: b'_def)
      then show "d ! b' = 10" unfolding dt by (simp add: tt(1))
    qed
    have ld: "load_byte (g_data g + word_of_nat b') (e, k) = Some 10" using grep_load [OF g, of b' e] b'(3) tb(3) by simp
    have z: "0 \<notin> set l" "0 \<notin> set t'" using less.prems(4) tt(1) by auto
    let ?d = "d[b' := 0]" and ?con = "fold con_putc (line_output fn ps l) con"
    obtain k1 k2 where k2: "store_byte (g_data g + word_of_nat b') 0 (e, k) = Some (e, k1)"
      "search_from lit s (word_of_nat (length ps)) fname (g_data g) (int a) (int b') (int a) (e, k1) = Some (e, k2)"
      "grepping g pos ?d ?con k2"
      using grep_one_line [OF g s b'(1,3) tb(1) z(1), of e] by blast
    have d1024: "?d ! 1024 \<noteq> 10" using less.prems(5) b'(2) b by simp
    have step: "grep_lines lit s (word_of_nat (length ps)) fname (g_data g) cnt (int b) (int a) (e, k) =
      (if Suc b' \<ge> b then Some (0, e, k2) else grep_lines lit s (word_of_nat (length ps)) fname (g_data g) cnt (int b) (int (Suc b')) (e, k2))"
      using le ld k2(1,2) by (subst grep_lines.simps) (simp add: add.commute)
    show ?thesis
    proof (cases "Suc b' \<ge> b")
      case End: True
      moreover have "Suc (length l + length t') = b - a" using lt tt(1) by simp
      ultimately have "length t' = 0" unfolding b'_def by linarith
      then have "t' = []" by simp
      moreover have "searched fn ps [] rest [] []" by (simp add: searched_def)
      ultimately have "searched fn ps t rest (line_output fn ps l) []" using searched_line [OF tt(2), of fn ps "[]" rest "[]" "[]"] tt(1) by simp
      then show ?thesis using step End k2(3) d1024
        by (intro exI [of _ k2] exI [of _ ?d] exI [of _ "line_output fn ps l"] exI [of _ "[]"]) simp
    next
      case More: False
      have u: "take (b - Suc b') (drop (Suc b') ?d) = t'" using tb(2) by simp
      have "length t' < length t" "Suc b' \<le> b" using tt(1) More by simp_all
      moreover have "rest = [] \<or> (cnt \<noteq> 0 \<and> b = 1024 \<and> (Suc b' \<noteq> 0 \<or> 10 \<in> set t'))" using less.prems(6) by auto
      ultimately obtain k' d' out c where k': "grep_lines lit s (word_of_nat (length ps)) fname (g_data g) cnt (int b) (int (Suc b')) (e, k2) = Some (int (length c), e, k')"
        "grepping g pos d' (fold con_putc out ?con) k'" "take (length c) d' = c" "length c < 1024" "cnt = 0 \<longrightarrow> c = []" "d' ! 1024 \<noteq> 10"
        "searched fn ps t' rest out c"
        using less.hyps [OF _ k2(3) _ u z(2) d1024] by blast
      have "searched fn ps t rest (line_output fn ps l @ out) c" using searched_line [OF tt(2) k'(7)] tt(1) by simp
      then show ?thesis using step More k'
        by (intro exI [of _ k'] exI [of _ d'] exI [of _ "line_output fn ps l @ out"] exI [of _ c]) simp
    qed
  qed
qed

subsection \<open>The whole file\<close>

lemma reading_read_any:
  assumes "reading pid fd ino eof blk pos k" and "buf \<noteq> 0" and "buf \<noteq> -1" and "0 < n" and "n \<le> 1024"
  shows "ece391_read fd buf (int n) (e, k) = map_option (\<lambda>(n, k). (n, e, k)) (file_read fd buf (int n) k)"
  using assms ece391_read_eq [of fd buf "int n" e k] by (auto simp: reading_def int32_def sys_read_def)

lemma grepping_seek:
  assumes "grepping g pos d con k"
  shows "grepping g p d con (upd_fd (g_pid g) (g_fd g) (\<lambda>f. f\<lparr>file_pos := int p\<rparr>) k)"
proof -
  let ?u = "\<lambda>p. upd_fd (g_pid g) (g_fd g) (\<lambda>f. f\<lparr>file_pos := int p\<rparr>)"
  have "k = (?u pos (g_start g))\<lparr>mach := mach k\<rparr>" using assms by (simp only: grepping_def)
  from arg_cong [OF this, of "?u p"] have e: "?u p k = (?u p (g_start g))\<lparr>mach := mach (?u p k)\<rparr>" by (simp add: upd_fd_def upd_pcb_def)
  show ?thesis unfolding grepping_def using assms by (intro conjI e) (simp_all add: grepping_def reading_def running_def)
qed

lemma grep_read_piece:
  assumes g: "grepping g pos d con k" and b: "b < 1024" and pos: "pos \<le> unat (g_eof g)" and n: "n = min (1024 - b) (unat (g_eof g) - pos)"
  shows "\<exists>k'. ece391_read (g_fd g) (g_data g + word_of_nat b) (1024 - int b) (e, k) = Some (int n, e, k') \<and>
    grepping g (if n = 0 then 0 else pos + n) (take b d @ take n (drop pos (g_bytes g)) @ drop (b + n) d) con k'"
proof -
  let ?buf = "g_data g + word_of_nat b" and ?pid = "g_pid g" and ?fd = "g_fd g"
  have r: "reading ?pid ?fd (g_ino g) (g_eof g) (g_blk g) pos k" and sz: "unat (g_eof g) \<le> 4096" "length (g_bytes g) = unat (g_eof g)"
    and B: "region (g_data g) 1025 \<subseteq> upage" using g by (simp_all add: grepping_def)
  have run: "running ?pid k" and f: "file_at (kvm k) k (g_ino g) (g_eof g) (g_blk g)" and cp: "cur_process k = ?pid"
    and fa: "file_area k (g_ino g) (g_eof g) (g_blk g) \<subseteq> kpage" using r by (simp_all add: reading_def running_def)
  have up: "?buf \<in> upage" using grep_addr [OF g] b by simp
  have "?buf \<noteq> 0" "?buf \<noteq> -1" "unat ?buf + n \<le> 2 ^ 32" using upage_unat [OF up] n by (auto simp: unsigned_minus_1_eq_mask mask_eq_exp_minus_1)
  note buf = this
  have rd: "ece391_read ?fd ?buf (1024 - int b) (e, k) = map_option (\<lambda>(n, k). (n, e, k)) (file_read ?fd ?buf (int (1024 - b)) k)"
    using reading_read_any [OF r buf(1,2), of "1024 - b" e] b by (simp add: of_nat_diff)
  have rn: "region ?buf n \<subseteq> region (g_data g) 1025" using region_sub [of b n 1025 "g_data g"] n b by simp
  have dst: "dest_ok (kvm k) ?buf n (file_area k (g_ino g) (g_eof g) (g_blk g))"
    by (rule user_dest [OF run _ buf(3) fa]) (use rn B in auto)
  have fit: "pos mod 4096 + n \<le> 4096" using sz(1) pos n by (cases "pos = 4096") auto
  have chunk: "(pos < unat (g_eof g) \<longrightarrow> (\<exists>v'. file_read ?fd ?buf (int (1024 - b)) k =
          Some (int n, upd_fd ?pid ?fd (\<lambda>e. e\<lparr>file_pos := int (pos + n)\<rparr>) (set_vm v' k)) \<and> changes (region ?buf n) (kvm k) v' \<and>
        (\<forall>i < n. ld8 v' (?buf + word_of_nat i) = file_byte (kvm k) k (g_ino g) (pos + i)))) \<and>
    (unat (g_eof g) \<le> pos \<longrightarrow> file_read ?fd ?buf (int (1024 - b)) k = Some (0, upd_fd ?pid ?fd (\<lambda>e. e\<lparr>file_pos := 0\<rparr>) k))"
  proof -
    have i: "word_of_int (inode_number (fd_of k ?pid ?fd)) = g_ino g" and o: "0 \<le> ?fd" "g_ino g \<le> numinodes k" "file_pos (fd_of k ?pid ?fd) = int pos"
      using r by (simp_all add: reading_def)
    have p: "pos < 2 ^ 31 - 4096" "0 < int (1024 - b)" "int (1024 - b) < 4096" "n = min (nat (int (1024 - b))) (unat (g_eof g) - pos)"
      using sz(1) pos b n by simp_all
    from file_read_chunk [of ?fd "fd_of k ?pid ?fd" k "g_eof g" "g_blk g" pos "int (1024 - b)" n ?buf, unfolded cp i, OF o(1) refl f o(2,3) p fit dst]
    show ?thesis .
  qed
  have len: "length d = 1025" by (rule grepping_length [OF g])
  show ?thesis
  proof (cases "pos < unat (g_eof g)")
    case False
    then have "n = 0" using pos n by simp
    then show ?thesis using chunk False rd grepping_seek [OF g, of 0] by simp
  next
    case True
    then have n0: "0 < n" using n b by simp
    obtain v where v: "file_read ?fd ?buf (int (1024 - b)) k = Some (int n, upd_fd ?pid ?fd (\<lambda>e. e\<lparr>file_pos := int (pos + n)\<rparr>) (set_vm v k))"
      "changes (region ?buf n) (kvm k) v" "\<forall>i < n. ld8 v (?buf + word_of_nat i) = file_byte (kvm k) k (g_ino g) (pos + i)"
      using chunk True by blast
    let ?d = "take b d @ take n (drop pos (g_bytes g)) @ drop (b + n) d"
    have fb: "\<forall>i < unat (g_eof g). file_byte (kvm k) k (g_ino g) i = Some (g_bytes g ! i)"
      and ld: "ld_bytes (kvm k) (g_data g) 1025 = Some d" using g unfolding grepping_def by blast+
    have "ld_bytes v (g_data g) 1025 = Some ?d"
    proof (rule ld_bytesI)
      show "length ?d = 1025" using len n b sz(2) True by simp
      fix i :: nat assume i: "i < 1025"
      show "ld8 v (g_data g + word_of_nat i) = Some (?d ! i)"
      proof (cases "b \<le> i \<and> i < b + n")
        case In: True
        then obtain j where j: "i = b + j" "j < n" by (metis add_less_cancel_left le_Suc_ex)
        have "pos + j < unat (g_eof g)" using j(2) n by auto
        then have "file_byte (kvm k) k (g_ino g) (pos + j) = Some (g_bytes g ! (pos + j))" using fb by blast
        moreover have "?d ! i = g_bytes g ! (pos + j)" using j n b len sz(2) True by (simp add: nth_append)
        ultimately show ?thesis using v(3) j by (simp add: add.assoc)
      next
        case Out: False
        have "g_data g + word_of_nat i \<notin> region ?buf n"
        proof
          assume "g_data g + word_of_nat i \<in> region ?buf n"
          then obtain j where "j < n" "(word_of_nat i :: u32) = word_of_nat (b + j)" by (auto simp: region_def add.assoc)
          moreover have "n \<le> 1024" using n by simp
          ultimately have "b + j < 2 ^ 32" "j < n" "(word_of_nat i :: u32) = word_of_nat (b + j)" using b by simp_all
          then show False using word_of_nat_inj_u32 [of i "b + j"] i Out by auto
        qed
        then have "apart (kvm k) (region ?buf n) {g_data g + word_of_nat i}"
          using rn B grep_addr [OF g i] by (intro apart_mapped mapped_subset [OF upage_memory(1) [OF run]]) auto
        then have "ld8 v (g_data g + word_of_nat i) = ld8 (kvm k) (g_data g + word_of_nat i)" using ld8_changes [OF v(2)] by simp
        also have "\<dots> = Some (d ! i)" by (rule ld_bytes_nth [OF ld i])
        also have "d ! i = ?d ! i" using Out i n b len sz(2) True by (auto simp: nth_append)
        finally show ?thesis .
      qed
    qed
    then have "grepping g pos ?d con (set_vm v k)" by (rule grepping_changes [OF g v(2) rn])
    from grepping_seek [OF this, of "pos + n"] show ?thesis using rd v(1) n0 by simp
  qed
qed

lemma short_lines_newline:
  assumes "short_lines (t @ rest)" and "1024 \<le> length t"
  shows "10 \<in> set t"
proof (rule ccontr)
  assume n: "10 \<notin> set t"
  have "t @ r = hd (split_lines (t @ rest)) \<or> length t \<le> length (hd (split_lines (t @ rest)))" for r
    using n by (induction t) auto
  then have "length t \<le> length (hd (split_lines (t @ rest)))" by (metis length_append le_add1)
  moreover have "length (hd (split_lines (t @ rest))) < 1024" using assms(1) by (auto simp: short_lines_def)
  ultimately show False using assms(2) by simp
qed

lemma grep_read_search:
  assumes "grepping g pos d con k" and s: "grep_strings g lit fname fn s ps" and "pos \<le> unat (g_eof g)" and z: "0 \<notin> set (g_bytes g)"
    and "take (length c) d = c" and "length c < 1024" and "10 \<notin> set c" and "0 \<notin> set c" and "d ! 1024 \<noteq> 10"
    and "short_lines (c @ drop pos (g_bytes g))"
  shows "\<exists>k' d'. grep_read lit s (word_of_nat (length ps)) fname (g_fd g) (g_data g) (int (length c)) (e, k) = Some (0, e, k') \<and>
    grepping g 0 d' (fold con_putc (grep_output fn ps (c @ drop pos (g_bytes g))) con) k' \<and> d' ! 1024 \<noteq> 10"
  using assms(1,3,5-)
proof (induction "unat (g_eof g) - pos" arbitrary: pos d con k c rule: less_induct)
  case less
  note g = less.prems(1)
  define n where "n = min (1024 - length c) (unat (g_eof g) - pos)"
  have len: "length d = 1025" "length (g_bytes g) = unat (g_eof g)" using grepping_length [OF g] g by (simp_all add: grepping_def)
  let ?p = "take n (drop pos (g_bytes g))" and ?rest = "drop (pos + n) (g_bytes g)"
  let ?d = "take (length c) d @ ?p @ drop (length c + n) d"
  obtain k1 where k1: "ece391_read (g_fd g) (g_data g + word_of_nat (length c)) (1024 - int (length c)) (e, k) = Some (int n, e, k1)"
    "grepping g (if n = 0 then 0 else pos + n) ?d con k1" using grep_read_piece [OF g less.prems(4,2) n_def, of e] by blast
  have lp: "length ?p = n" using len(2) by (simp add: n_def)
  have all: "(c @ ?p) @ ?rest = c @ drop pos (g_bytes g)" using append_take_drop_id [of n "drop pos (g_bytes g)"] by (simp add: add.commute)
  have t: "take (length c + n - 0) (drop 0 ?d) = c @ ?p" using less.prems(3) lp by simp
  have b: "length c + n \<le> 1024" using less.prems(4) by (simp add: n_def)
  have "set ?p \<subseteq> set (g_bytes g)" by (auto dest: in_set_takeD in_set_dropD)
  then have z': "0 \<notin> set (c @ ?p)" using z less.prems(6) by auto
  have d1024: "?d ! 1024 \<noteq> 10" using less.prems(3,7) lp len(1) b by (auto simp: nth_append)
  have rest: "?rest = [] \<or> (int n \<noteq> 0 \<and> length c + n = 1024 \<and> ((0::nat) \<noteq> 0 \<or> 10 \<in> set (c @ ?p)))"
  proof (cases "?rest = []")
    case False
    then have n1: "length c + n = 1024" using len(2) less.prems(4) by (auto simp: n_def min_def split: if_splits)
    then have "10 \<in> set (c @ ?p)" using short_lines_newline [of "c @ ?p" ?rest] less.prems(8) lp unfolding all by simp
    then show ?thesis using n1 less.prems(4) by simp
  qed simp
  obtain k2 d2 out c2 where k2: "grep_lines lit s (word_of_nat (length ps)) fname (g_data g) (int n) (int (length c + n)) (int 0) (e, k1) = Some (int (length c2), e, k2)"
    "grepping g (if n = 0 then 0 else pos + n) d2 (fold con_putc out con) k2" "take (length c2) d2 = c2" "length c2 < 1024" "int n = 0 \<longrightarrow> c2 = []" "d2 ! 1024 \<noteq> 10"
    "searched fn ps (c @ ?p) ?rest out c2"
    using grep_lines_search [OF k1(2) s le0 b t z' d1024 rest, of e] by blast
  have sr: "grep_output fn ps (c @ drop pos (g_bytes g)) = out @ grep_output fn ps (c2 @ ?rest)" "short_lines (c2 @ ?rest)" "10 \<notin> set c2" "0 \<notin> set c2"
    using k2(7) less.prems(8) z' unfolding searched_def all by auto
  have step: "grep_read lit s (word_of_nat (length ps)) fname (g_fd g) (g_data g) (int (length c)) (e, k) =
    (if n = 0 then Some (0, e, k2) else grep_read lit s (word_of_nat (length ps)) fname (g_fd g) (g_data g) (int (length c2)) (e, k2))"
    using k1(1) k2(1) by (subst grep_read.simps) simp
  show ?case
  proof (cases "n = 0")
    case True
    then have "?rest = []" using less.prems(2,4) len(2) by (simp add: n_def min_def split: if_splits)
    then have "out = grep_output fn ps (c @ drop pos (g_bytes g))" using sr(1) k2(5) True by (simp add: grep_output_def)
    then show ?thesis using step k2(2,6) True by auto
  next
    case False
    have "unat (g_eof g) - (pos + n) < unat (g_eof g) - pos" "pos + n \<le> unat (g_eof g)" using False less.prems(2) by (auto simp: n_def)
    moreover have "grepping g (pos + n) d2 (fold con_putc out con) k2" using k2(2) False by simp
    ultimately obtain k' d' where "grep_read lit s (word_of_nat (length ps)) fname (g_fd g) (g_data g) (int (length c2)) (e, k2) = Some (0, e, k')"
      "grepping g 0 d' (fold con_putc (grep_output fn ps (c2 @ ?rest)) (fold con_putc out con)) k'" "d' ! 1024 \<noteq> 10"
      using less.hyps [OF _ _ _ k2(3,4) sr(3,4) k2(6) sr(2)] by blast
    then show ?thesis using step False sr(1) by auto
  qed
qed

subsection \<open>Opening, searching and closing\<close>

definition regular_file :: "kernel \<Rightarrow> dentry_t \<Rightarrow> u8 list \<Rightarrow> bool" where
  "regular_file k d bs \<longleftrightarrow> fileType d = 2 \<and> inodeNum d \<le> numinodes k \<and> length bs \<le> 4096 * 1023 \<and>
     (\<exists>blk. file_at (kvm k) k (inodeNum d) (word_of_nat (length bs)) blk \<and> file_area k (inodeNum d) (word_of_nat (length bs)) blk \<subseteq> kpage \<and>
       (\<forall>i < length bs. file_byte (kvm k) k (inodeNum d) i = Some (bs ! i)))"

lemma regular_file_agree:
  assumes "regular_file k d bs" and "agree kpage (kvm k) (kvm k')" and "start_addr k' = start_addr k" and "numinodes k' = numinodes k"
  shows "regular_file k' d bs"
proof -
  obtain blk where b: "file_at (kvm k) k (inodeNum d) (word_of_nat (length bs)) blk" "file_area k (inodeNum d) (word_of_nat (length bs)) blk \<subseteq> kpage"
    "\<forall>i < length bs. file_byte (kvm k) k (inodeNum d) i = Some (bs ! i)" using assms(1) by (auto simp: regular_file_def)
  have "length bs \<le> 4096 * 1023" using assms(1) by (simp add: regular_file_def)
  then have u: "unat (word_of_nat (length bs) :: u32) = length bs" by (simp add: unat_word_of_nat_u32)
  note fag = file_agree [OF agree_mono [OF assms(2) b(2)] b(1)]
  show ?thesis using assms(1,4) b fag fs_cong [OF assms(3,4)] unfolding regular_file_def u
    by (intro conjI exI [of _ blk]) simp_all
qed

text \<open>A file of text: at most 4096 bytes, no zero byte, lines of less than 1024 bytes.\<close>

definition text_file :: "kernel \<Rightarrow> dentry_t \<Rightarrow> u8 list \<Rightarrow> bool" where
  "text_file k d bs \<longleftrightarrow> regular_file k d bs \<and> length bs \<le> 4096 \<and> 0 \<notin> set bs \<and> short_lines bs"

text \<open>The state of \<open>main\<close> between two files: the directory is descriptor 2 and descriptor 3 is free.\<close>

definition grep_dir :: "int \<Rightarrow> dentry_t list \<Rightarrow> nat \<Rightarrow> nat \<Rightarrow> addr \<Rightarrow> console \<Rightarrow> kernel \<Rightarrow> bool" where
  "grep_dir pid ds nd i data con k \<longleftrightarrow> listing pid 2 ds nd i k \<and> present (fd_of k pid 3) = -1 \<and> file_pos (fd_of k pid 3) = 0 \<and>
     region data 1025 \<subseteq> upage \<and> (\<exists>c. ld8 (kvm k) (data + 1024) = Some c \<and> c \<noteq> 10) \<and> displays (mach k) con"

definition holds :: "kernel \<Rightarrow> addr \<Rightarrow> addr \<Rightarrow> u8 list \<Rightarrow> bool" where
  "holds k data a bs \<longleftrightarrow> cstring (kvm k) a bs \<and> region a (Suc (length bs)) \<subseteq> upage - region data 1025"

lemma holds_agree:
  assumes "holds k data a bs" and "agree (region a (Suc (length bs))) (kvm k) (kvm k')"
  shows "holds k' data a bs"
  using assms ld_bytes_agree [OF assms(2)] by (simp add: holds_def cstring_def)

text \<open>The file system and the user memory outside \<open>A\<close> are left alone.\<close>

definition leaves :: "addr set \<Rightarrow> kernel \<Rightarrow> kernel \<Rightarrow> bool" where
  "leaves A k k' \<longleftrightarrow> start_addr k' = start_addr k \<and> numinodes k' = numinodes k \<and> agree (kpage \<union> (upage - A)) (kvm k) (kvm k')"

lemma leaves_trans: "leaves A k k' \<Longrightarrow> leaves B k' k'' \<Longrightarrow> leaves (A \<union> B) k k''"
  by (auto simp: leaves_def agree_def)

lemma leaves_mono: "leaves A k k' \<Longrightarrow> A \<subseteq> B \<Longrightarrow> leaves B k k'"
  by (auto simp: leaves_def agree_def)

lemma leaves_text_file: "leaves A k k' \<Longrightarrow> text_file k d bs \<Longrightarrow> text_file k' d bs"
  unfolding leaves_def text_file_def using regular_file_agree [of k d bs k'] by (auto intro: agree_mono)

lemma leaves_holds: "leaves A k k' \<Longrightarrow> holds k data a bs \<Longrightarrow> region a (Suc (length bs)) \<inter> A = {} \<Longrightarrow> holds k' data a bs"
  by (rule holds_agree, assumption) (auto simp: leaves_def holds_def intro: agree_mono)

lemma leaves_changes:
  assumes "running pid k" and "changes A (kvm k) (kvm k')" and "A \<subseteq> upage" and "start_addr k' = start_addr k" and "numinodes k' = numinodes k"
  shows "leaves A k k'"
proof -
  note um = upage_memory [OF assms(1)]
  have "apart (kvm k) A (upage - A)" using assms(3) by (intro apart_mapped mapped_subset [OF um(1)]) auto
  moreover have "apart (kvm k) A kpage" using apart_subset [OF um(2)] assms(3) by blast
  ultimately have "apart (kvm k) A (kpage \<union> (upage - A))" unfolding apart_def by blast
  then show ?thesis using agree_changes [OF assms(2)] assms(4,5) by (simp add: leaves_def)
qed

lemma upd_fd_same: "f (fd_of k i j) = fd_of k i j \<Longrightarrow> upd_fd i j f k = k"
  by (simp add: upd_fd_def upd_pcb_def)

lemma close_user:
  assumes "cur_process k = pid" and "3 \<le> fd" and "fd < 6" and "present (fd_of k pid fd) = 0"
  shows "ece391_close fd (e, k) = Some (0, e, (upd_fd pid fd (\<lambda>f. f\<lparr>present := -1\<rparr>) k)\<lparr>currFD := currFD k - 1\<rparr>)"
  using assms by (simp add: ece391_close_eq int32_def sys_close_def remove_fd_entry_def Let_def)

lemma do_one_file_prints:
  assumes gd: "grep_dir pid ds nd i data con k" and tf: "text_file k d bs" and fnd: "find (\<lambda>d. entry_name (dname d) = take 32 fn) ds = Some d"
    and h: "holds k data fname fn" "holds k data s ps" "holds k data (lit '':'') [58]" "holds k data (lit (line_of '''')) [10]" and fn: "fn \<noteq> []"
  shows "\<exists>k'. do_one_file lit s fname data (e, k) = Some (0, e, k') \<and> grep_dir pid ds nd i data (fold con_putc (grep_output fn ps bs) con) k' \<and>
    leaves (region data 1025) k k'"
proof -
  have L: "listing pid 2 ds nd i k" and f3: "present (fd_of k pid 3) = -1" "file_pos (fd_of k pid 3) = 0" and B: "region data 1025 \<subseteq> upage"
    and dis: "displays (mach k) con" using gd by (simp_all add: grep_dir_def)
  have run: "running pid k" and dir: "directory (kvm k) (startdentry k) = Some ds" and f2: "present (fd_of k pid 2) \<noteq> -1" and cp: "cur_process k = pid"
    using L by (simp_all add: listing_def running_def)
  have sl: "ece391_strlen s (e, k) = Some (word_of_nat (length ps))" by (rule strlen_user [OF run]) (use h(2) in \<open>auto simp: holds_def\<close>)
  have av: "fst (get_fdAvail pid k) = 3" using f2 f3(1) by (simp add: get_fdAvail_def eval_nat_numeral)
  have cf: "cstring (kvm k) fname fn" using h(1) by (simp add: holds_def)
  have c0: "\<exists>c. ld8 (kvm k) fname = Some c \<and> c \<noteq> 0" using cstring_nth [OF cf, of 0] fn by auto
  define k2 where "k2 = (upd_fd pid 3 (opened d) (k\<lparr>currDentry := d\<rparr>))\<lparr>currFD := 3, currPid := pid\<rparr>"
  have op: "ece391_open fname (e, k) = Some (3, e, k2)"
    using open_user [OF dir fnd cstring_reads [OF cf], of _ 3 e] c0 av cp unfolding k2_def by auto
  obtain blk where b: "file_at (kvm k) k (inodeNum d) (word_of_nat (length bs)) blk" "file_area k (inodeNum d) (word_of_nat (length bs)) blk \<subseteq> kpage"
    "\<forall>i < length bs. file_byte (kvm k) k (inodeNum d) i = Some (bs ! i)" using tf by (auto simp: text_file_def regular_file_def)
  have T: "fileType d = 2" "inodeNum d \<le> numinodes k" "length bs \<le> 4096" "0 \<notin> set bs" "short_lines bs" using tf by (simp_all add: text_file_def regular_file_def)
  have u: "unat (word_of_nat (length bs) :: u32) = length bs" using T(3) by (simp add: unat_word_of_nat_u32)
  have m2: "mach k2 = mach k" "fd_of k2 pid 3 = opened d (fd_of k pid 3)" by (simp_all add: k2_def)
  have cg: "file_at w k2 = file_at w k" "file_byte w k2 = file_byte w k" "file_area k2 = file_area k" for w
    using fs_cong [of k2 k] by (simp_all add: k2_def)
  obtain dl where dl: "ld_bytes (kvm k) data 1025 = Some dl" using ld_bytes_mapped [OF mapped_subset [OF upage_memory(1) [OF run] B]] by blast
  have d10: "dl ! 1024 \<noteq> 10" using gd ld_bytes_nth [OF dl, of 1024] by (auto simp: grep_dir_def)
  define g where "g = \<lparr>g_pid = pid, g_fd = 3, g_ino = inodeNum d, g_eof = word_of_nat (length bs), g_blk = blk, g_bytes = bs, g_data = data, g_start = k2\<rparr>"
  have gf: "g_pid g = pid" "g_fd g = 3" "g_ino g = inodeNum d" "g_eof g = word_of_nat (length bs)" "g_blk g = blk" "g_bytes g = bs" "g_data g = data" "g_start g = k2"
    by (simp_all add: g_def)
  have "running pid k2" using run by (simp add: running_def m2 k2_def)
  then have "reading pid 3 (inodeNum d) (word_of_nat (length bs)) blk 0 k2"
    using T(1,2) b(1,2) f3(2) by (simp add: reading_def m2 cg opened_def fop_of_type_def) (simp add: k2_def)
  moreover have "k2 = (upd_fd pid 3 (\<lambda>f. f\<lparr>file_pos := int 0\<rparr>) k2)\<lparr>mach := mach k2\<rparr>"
    using upd_fd_same [of "\<lambda>f. f\<lparr>file_pos := int 0\<rparr>" k2 pid 3] f3(2) by (simp add: m2 opened_def)
  ultimately have G: "grepping g 0 dl con k2"
    unfolding grepping_def gf using b(3) u T(3) B dl dis by (intro conjI) (simp_all add: m2 cg agree_def)
  have st: "grep_strings g lit fname fn s ps" using h by (simp add: grep_strings_def outside_def holds_def gf m2)
  obtain k3 d3 where k3: "grep_read lit s (word_of_nat (length ps)) fname 3 data 0 (e, k2) = Some (0, e, k3)"
    "grepping g 0 d3 (fold con_putc (grep_output fn ps bs) con) k3" "d3 ! 1024 \<noteq> 10"
    using grep_read_search [OF G st, of "[]" e] T(4,5) d10 by (auto simp: gf)
  have r3: "reading pid 3 (inodeNum d) (word_of_nat (length bs)) blk 0 k3" and e3: "k3 = (upd_fd pid 3 (\<lambda>f. f\<lparr>file_pos := int 0\<rparr>) k2)\<lparr>mach := mach k3\<rparr>"
    and a3: "agree (kpage \<union> (upage - region data 1025)) (kvm k2) (kvm k3)" and ld3: "ld_bytes (kvm k3) data 1025 = Some d3"
    and dis3: "displays (mach k3) (fold con_putc (grep_output fn ps bs) con)"
    using k3(2) unfolding grepping_def gf by blast+
  have F: "startdentry k3 = startdentry k" "numdentries k3 = numdentries k" "curfile k3 = curfile k" "start_addr k3 = start_addr k"
    "numinodes k3 = numinodes k" "fd_of k3 pid 2 = fd_of k pid 2" "present (fd_of k3 pid 3) = 0" "file_pos (fd_of k3 pid 3) = 0"
    by (subst e3, simp add: k2_def opened_def)+
  have R: "running pid k3" "cur_process k3 = pid" "currPid k3 = pid" "currFD k3 = 3" using r3 by (simp_all add: reading_def running_def)
  let ?k = "(upd_fd pid 3 (\<lambda>f. f\<lparr>present := -1\<rparr>) k3)\<lparr>currFD := currFD k3 - 1\<rparr>"
  have cl: "ece391_close 3 (e, k3) = Some (0, e, ?k)" by (rule close_user [OF R(2) _ _ F(7)]) simp_all
  have ag: "agree (kpage \<union> (upage - region data 1025)) (kvm k) (kvm ?k)" using a3 by (simp add: m2)
  have "region (startdentry k) 4096 \<subseteq> kpage \<union> (upage - region data 1025)" using L by (auto simp: listing_def)
  then have "directory (kvm ?k) (startdentry k) = Some ds" using directory_agree [OF agree_mono [OF ag]] dir by simp
  then have "listing pid 2 ds nd i ?k" using L R F by (simp add: listing_def running_def)
  moreover have "ld8 (kvm ?k) (data + 1024) = Some (d3 ! 1024)" using ld_bytes_nth [OF ld3, of 1024] by simp
  ultimately have "grep_dir pid ds nd i data (fold con_putc (grep_output fn ps bs) con) ?k" using F B k3(3) dis3 by (simp add: grep_dir_def)
  moreover have "leaves (region data 1025) k ?k" using ag F by (simp add: leaves_def)
  ultimately show ?thesis using sl op k3(1) cl by (simp add: do_one_file_def)
qed

subsection \<open>Every file of the directory\<close>

lemma grep_dir_keeps:
  assumes "grep_dir pid ds nd i data con k" and "leaves A k k'" and "A \<subseteq> upage - region data 1025" and "listing pid 2 ds nd j k'"
    and "displays (mach k') con'" and "PCB_array k' = PCB_array k"
  shows "grep_dir pid ds nd j data con' k'"
proof -
  have a: "data + 1024 \<in> region data 1025" using region_memI [of 1024 1025 data] by simp
  moreover have "region data 1025 \<subseteq> upage" using assms(1) by (simp add: grep_dir_def)
  ultimately have "data + 1024 \<in> kpage \<union> (upage - A)" using assms(3) by blast
  then have "ld8 (kvm k') (data + 1024) = ld8 (kvm k) (data + 1024)" using assms(2) by (auto simp: leaves_def agree_def)
  then show ?thesis using assms by (simp add: grep_dir_def)
qed

lemma grep_dir_read:
  assumes gd: "grep_dir pid ds nd i data con k" and i: "i < nd" and buf: "region buf 33 \<subseteq> upage - region data 1025"
  shows "\<exists>k'. ece391_read 2 buf 32 (e, k) = Some (if i + 1 = nd then 0 else int (length (entry_name (dname (ds ! i)))), e, k') \<and>
    grep_dir pid ds nd (if i + 1 = nd then 0 else i + 1) data con k' \<and> ld_bytes (kvm k') buf 32 = Some (padded_name (ds ! i)) \<and>
    leaves (region buf 33) k k'"
proof -
  have L: "listing pid 2 ds nd i k" and dis: "displays (mach k) con" using gd by (simp_all add: grep_dir_def)
  have run: "running pid k" using L by (simp add: listing_def)
  have bu: "buf \<in> upage" "region buf 33 \<subseteq> upage" using buf region_memI [of 0 33 buf] by auto
  have "unat buf + 33 \<le> 2 ^ 32" "buf \<noteq> 0" "buf \<noteq> -1" using upage_unat [OF bu(1)] by (auto simp: unsigned_minus_1_eq_mask mask_eq_exp_minus_1)
  from listing_read [OF L i bu(2) this dis, of e] obtain k' where k':
    "ece391_read 2 buf 32 (e, k) = Some (if i + 1 = nd then 0 else int (length (entry_name (dname (ds ! i)))), e, k')"
    "listing pid 2 ds nd (if i + 1 = nd then 0 else i + 1) k'" "displays (mach k') con" "ld_bytes (kvm k') buf 32 = Some (padded_name (ds ! i))"
    "changes (region buf 32) (kvm k) (kvm k')" "k' = k\<lparr>mach := mach k', curfile := curfile k'\<rparr>" by blast
  have F: "PCB_array k' = PCB_array k" "start_addr k' = start_addr k" "numinodes k' = numinodes k" by (subst k'(6), simp)+
  have "leaves (region buf 33) k k'"
    by (rule leaves_changes [OF run changes_mono [OF k'(5) region_mono] bu(2)]) (use F in simp_all)
  then show ?thesis using k'(1,4) grep_dir_keeps [OF gd _ buf k'(2,3) F(1)] by blast
qed

lemma grep_dir_name:
  assumes gd: "grep_dir pid ds nd i data con k" and buf: "region buf 33 \<subseteq> upage - region data 1025"
    and b: "ld_bytes (kvm k) buf 32 = Some (padded_name d')" and n: "n = length (entry_name (dname d'))" "n \<le> 32"
  shows "\<exists>k'. store_byte (buf + word_of_int (int n)) 0 (e, k) = Some (e, k') \<and> grep_dir pid ds nd i data con k' \<and>
    holds k' data buf (entry_name (dname d')) \<and> leaves (region buf 33) k k'"
proof -
  have L: "listing pid 2 ds nd i k" and dis: "displays (mach k) con" using gd by (simp_all add: grep_dir_def)
  have run: "running pid k" using L by (simp add: listing_def)
  have bu: "region buf 33 \<subseteq> upage" using buf by auto
  have a: "buf + word_of_nat n \<in> region buf 33" by (rule region_memI) (use n(2) in simp)
  then have au: "buf + word_of_nat n \<in> upage" using bu by blast
  obtain v where v: "store_byte (buf + word_of_nat n) 0 (e, k) = Some (e, set_vm v k)" "st8 (kvm k) (buf + word_of_nat n) 0 = Some v"
    using store_user [OF run au, of 0 e] by blast
  have rb: "region buf (Suc n) \<subseteq> region buf 33" using region_mono [of "Suc n" 33 buf] n(2) by auto
  have m: "mapped (kvm k) (region buf (Suc n))" using mapped_subset [OF upage_memory(1) [OF run]] rb bu by blast
  have ld: "ld_bytes v buf (Suc n) = Some (entry_name (dname d') @ [0])"
    using ld_bytes_terminated [OF m b n(2) v(2)] n by (simp add: padded_name_def)
  have "0 \<notin> set (entry_name (dname d'))" by (auto simp: entry_name_def dest: set_takeWhileD)
  then have "holds (set_vm v k) data buf (entry_name (dname d'))"
    using ld n rb buf by (auto simp: holds_def cstring_def)
  moreover have lv: "leaves (region buf 33) k (set_vm v k)"
    by (rule leaves_changes [OF run changes_mono [OF _ _] bu]) (use st8_changes [OF v(2)] a in auto)
  moreover have "grep_dir pid ds nd i data con (set_vm v k)"
    using listing_upage [OF L st8_changes [OF v(2)]] au dis by (intro grep_dir_keeps [OF gd lv buf]) simp_all
  ultimately show ?thesis using v(1) by auto
qed

definition greppable :: "kernel \<Rightarrow> dentry_t list \<Rightarrow> (nat \<Rightarrow> u8 list) \<Rightarrow> nat \<Rightarrow> bool" where
  "greppable k ds files j \<longleftrightarrow> (let name = entry_name (dname (ds ! j)) in name \<noteq> [] \<and>
     (hd name \<noteq> 0x2E \<longrightarrow> find (\<lambda>d. entry_name (dname d) = name) ds = Some (ds ! j) \<and> text_file k (ds ! j) (files j)))"

definition entry_output :: "u8 list \<Rightarrow> dentry_t list \<Rightarrow> (nat \<Rightarrow> u8 list) \<Rightarrow> nat \<Rightarrow> u8 list" where
  "entry_output ps ds files j =
     (let name = entry_name (dname (ds ! j)) in if hd name = 0x2E then [] else grep_output name ps (files j))"

text \<open>The constant strings of \<open>main\<close>: the search string, the colon and the newline.\<close>

definition grep_consts :: "kernel \<Rightarrow> addr \<Rightarrow> addr \<Rightarrow> (string \<Rightarrow> addr) \<Rightarrow> addr \<Rightarrow> u8 list \<Rightarrow> bool" where
  "grep_consts k data buf lit s ps \<longleftrightarrow>
     (\<forall>(a, bs) \<in> {(s, ps), (lit '':'', [58]), (lit (line_of ''''), [10])}. holds k data a bs \<and> region a (Suc (length bs)) \<inter> region buf 33 = {})"

lemma leaves_greppable: "leaves A k k' \<Longrightarrow> greppable k ds files j \<Longrightarrow> greppable k' ds files j"
  by (auto simp: greppable_def Let_def intro: leaves_text_file)

lemma leaves_consts:
  assumes "leaves A k k'" and "A \<subseteq> region data 1025 \<union> region buf 33" and "grep_consts k data buf lit s ps"
  shows "grep_consts k' data buf lit s ps"
proof -
  have "holds k' data a bs" if h: "holds k data a bs" "region a (Suc (length bs)) \<inter> region buf 33 = {}" for a bs
  proof (rule leaves_holds [OF assms(1) h(1)])
    have "region a (Suc (length bs)) \<inter> region data 1025 = {}" using h(1) by (auto simp: holds_def)
    then show "region a (Suc (length bs)) \<inter> A = {}" using h(2) assms(2) by blast
  qed
  then show ?thesis using assms(3) by (auto simp: grep_consts_def)
qed

lemma grep_files_prints:
  assumes "grep_dir pid ds nd i data con k" and "i < nd" and buf: "region buf 33 \<subseteq> upage - region data 1025"
    and "grep_consts k data buf lit s ps" and "\<forall>j. i \<le> j \<and> j < nd - 1 \<longrightarrow> greppable k ds files j"
  shows "\<exists>k'. grep_files lit s 2 buf data (e, k) = Some (0, e, k') \<and>
    grep_dir pid ds nd 0 data (fold con_putc (concat (map (entry_output ps ds files) [i..<nd - 1])) con) k'"
  using assms(1,2,4-)
proof (induction "nd - i" arbitrary: i k con rule: less_induct)
  case less
  note gd = less.prems(1)
  define name where "name = entry_name (dname (ds ! i))"
  obtain k1 where k1: "ece391_read 2 buf 32 (e, k) = Some (if i + 1 = nd then 0 else int (length name), e, k1)"
    "grep_dir pid ds nd (if i + 1 = nd then 0 else i + 1) data con k1" "ld_bytes (kvm k1) buf 32 = Some (padded_name (ds ! i))" "leaves (region buf 33) k k1"
    using grep_dir_read [OF gd less.prems(2) buf, of e] unfolding name_def by blast
  show ?case
  proof (cases "i + 1 = nd")
    case True
    then have "[i..<nd - 1] = []" by simp
    then show ?thesis using k1(1,2) True by (subst grep_files.simps) simp
  next
    case False
    then have lt: "i + 1 < nd" "nd - (i + 1) < nd - i" "i < nd - 1" using less.prems(2) by simp_all
    have gi: "greppable k ds files i" using less.prems(4) lt by blast
    then have nm: "name \<noteq> []" by (simp add: greppable_def name_def Let_def)
    have "length (padded_name (ds ! i)) = 32" by (rule ld_bytes_length [OF k1(3)])
    then have n32: "length name \<le> 32" by (simp add: padded_name_def name_def)
    have g1: "grep_dir pid ds nd (i + 1) data con k1" using k1(2) False by simp
    have run1: "running pid k1" using g1 by (simp add: grep_dir_def listing_def)
    have c: "load_byte buf (e, k1) = Some (hd name)"
    proof -
      have "buf \<in> upage" using buf region_memI [of 0 33 buf] by auto
      moreover have "ld8 (kvm k1) buf = Some (padded_name (ds ! i) ! 0)" using ld_bytes_nth [OF k1(3), of 0] by simp
      ultimately show ?thesis using upage_memory(4) [OF run1] nm by (simp add: load_byte_def padded_name_def name_def hd_conv_nth nth_append)
    qed
    have cs1: "grep_consts k1 data buf lit s ps" by (rule leaves_consts [OF k1(4) _ less.prems(3)]) simp
    have rd: "int (length name) \<noteq> 0" "int (length name) \<noteq> -1" using nm by simp_all
    have up: "[i..<nd - 1] = i # [i + 1..<nd - 1]" using lt(3) by (simp add: upt_rec)
    show ?thesis
    proof (cases "hd name = 0x2E")
      case dot: True
      have gr: "\<forall>j. i + 1 \<le> j \<and> j < nd - 1 \<longrightarrow> greppable k1 ds files j" using less.prems(4) leaves_greppable [OF k1(4)] by auto
      obtain k' where "grep_files lit s 2 buf data (e, k1) = Some (0, e, k')"
        "grep_dir pid ds nd 0 data (fold con_putc (concat (map (entry_output ps ds files) [i + 1..<nd - 1])) con) k'"
        using less.hyps [OF lt(2) g1 lt(1) cs1 gr] by blast
      moreover have "entry_output ps ds files i = []" using dot by (simp add: entry_output_def name_def)
      ultimately show ?thesis using k1(1) c dot rd False up by (subst grep_files.simps) simp
    next
      case plain: False
      obtain k2 where k2: "store_byte (buf + word_of_int (int (length name))) 0 (e, k1) = Some (e, k2)" "grep_dir pid ds nd (i + 1) data con k2"
        "holds k2 data buf name" "leaves (region buf 33) k1 k2"
        using grep_dir_name [OF g1 buf k1(3) refl, of e] n32 unfolding name_def by auto
      have l2: "leaves (region buf 33) k k2" using leaves_trans [OF k1(4) k2(4)] by simp
      have tf: "text_file k2 (ds ! i) (files i)" "find (\<lambda>d. entry_name (dname d) = take 32 name) ds = Some (ds ! i)"
        using gi plain n32 leaves_text_file [OF l2] by (simp_all add: greppable_def name_def Let_def)
      have cs2: "grep_consts k2 data buf lit s ps" by (rule leaves_consts [OF k2(4) _ cs1]) simp
      have h: "holds k2 data s ps" "holds k2 data (lit '':'') [58]" "holds k2 data (lit (line_of '''')) [10]" using cs2 by (simp_all add: grep_consts_def)
      obtain k3 where k3: "do_one_file lit s buf data (e, k2) = Some (0, e, k3)"
        "grep_dir pid ds nd (i + 1) data (fold con_putc (grep_output name ps (files i)) con) k3" "leaves (region data 1025) k2 k3"
        using do_one_file_prints [OF k2(2) tf k2(3) h nm, of e] by blast
      have cs3: "grep_consts k3 data buf lit s ps" by (rule leaves_consts [OF k3(3) _ cs2]) simp
      have gr: "\<forall>j. i + 1 \<le> j \<and> j < nd - 1 \<longrightarrow> greppable k3 ds files j"
        using less.prems(4) leaves_greppable [OF leaves_trans [OF l2 k3(3)]] by auto
      obtain k' where "grep_files lit s 2 buf data (e, k3) = Some (0, e, k')"
        "grep_dir pid ds nd 0 data (fold con_putc (concat (map (entry_output ps ds files) [i + 1..<nd - 1])) (fold con_putc (grep_output name ps (files i)) con)) k'"
        using less.hyps [OF lt(2) k3(2) lt(1) cs3 gr] by blast
      moreover have "entry_output ps ds files i = grep_output name ps (files i)" using plain by (simp add: entry_output_def name_def)
      ultimately show ?thesis using k1(1) k2(1) k3(1) c plain rd False up by (subst grep_files.simps) simp
    qed
  qed
qed

section \<open>Property\<close>

text \<open>
  Where the program's strings and arrays lie: the constants and the three arrays do not overlap.
  The last byte of \<open>data\<close>, which the first full read does not fill, is not a newline.
\<close>

definition grep_memory :: "(string \<Rightarrow> addr) \<Rightarrow> addr \<Rightarrow> addr \<Rightarrow> addr \<Rightarrow> kernel \<Rightarrow> bool" where
  "grep_memory lit search buf data k \<longleftrightarrow>
     (let ls = {''.'', '':'', line_of ''''}; arrays = region data 1025 \<union> region buf 33 \<union> region search 1024 in
      has_literals lit ls k \<and> arrays \<subseteq> upage \<and> region data 1025 \<inter> region buf 33 = {} \<and> region data 1025 \<inter> region search 1024 = {} \<and>
      region buf 33 \<inter> region search 1024 = {} \<and> (\<forall>s \<in> ls. region (lit s) (Suc (length s)) \<inter> arrays = {}) \<and>
      (\<exists>c. ld8 (kvm k) (data + 1024) = Some c \<and> c \<noteq> 10))"

lemma grep_memory_literal:
  assumes "grep_memory lit search buf data k" and "s \<in> {''.'', '':'', line_of ''''}"
  shows "holds k data (lit s) (map of_char s)" "region (lit s) (Suc (length s)) \<inter> region buf 33 = {}" "region (lit s) (Suc (length s)) \<inter> region search 1024 = {}"
proof -
  have "\<forall>s \<in> {''.'', '':'', line_of ''''}. cstring (kvm k) (lit s) (map of_char s) \<and> region (lit s) (Suc (length s)) \<subseteq> upage \<and>
      region (lit s) (Suc (length s)) \<inter> (region data 1025 \<union> region buf 33 \<union> region search 1024) = {}"
    using assms(1) unfolding grep_memory_def Let_def has_literals_def by blast
  from bspec [OF this assms(2)]
  show "holds k data (lit s) (map of_char s)" "region (lit s) (Suc (length s)) \<inter> region buf 33 = {}" "region (lit s) (Suc (length s)) \<inter> region search 1024 = {}"
    unfolding holds_def length_map by blast+
qed

lemma cstring_prefix:
  assumes "ld_bytes v a n = Some as" and "take (length cs + 1) as = cs @ [0]" and "0 \<notin> set cs" and "n < 2 ^ 31"
  shows "cstring v a cs"
proof -
  have "drop 0 as = take (length cs + 1) as @ drop (length cs + 1) as" by simp
  also have "\<dots> = cs @ 0 # drop (length cs + 1) as" unfolding assms(2) by simp
  finally have "drop 0 as = cs @ 0 # drop (length cs + 1) as" .
  from cstring_in_list [OF assms(1) this assms(3,4)] show ?thesis by simp
qed

text \<open>
  C8: \<open>grep\<close> prints the matching lines.  A process runs \<open>ece391grep\<close> with the search string \<open>ps\<close>
  as its argument; descriptors 2 and 3 are free, the directory has an entry of type 1 named \<open>.\<close>,
  and every entry from the kernel's read position up to the last but one either has a name that
  begins with a dot or is a text file of at most 4096 bytes, found under its own name, whose lines
  are shorter than 1024 bytes.  Then \<open>main\<close> ends and returns 0.  It prints, file by file and line
  by line, exactly the lines that contain \<open>ps\<close>, each after the file name and a colon, although a
  file is read in pieces of at most 1024 bytes that end in the middle of a line.
\<close>

theorem grep_prints_matches:
  assumes "running pid k" and "length (args (PCB_array k pid)) = 1024" and "storeargs k = ps @ 0 # rest" and "length (storeargs k) = 1024"
    and "ps \<noteq> []" and "0 \<notin> set ps" and "length ps < 1023"
    and "directory (kvm k) (startdentry k) = Some ds" and "region (startdentry k) 4096 \<subseteq> kpage"
    and "find (\<lambda>d. entry_name (dname d) = [0x2E]) ds = Some d" and "fileType d = 1"
    and "present (fd_of k pid 2) = -1" and "present (fd_of k pid 3) = -1" and "file_pos (fd_of k pid 3) = 0"
    and "numdentries k = word_of_nat nd" and "nd \<le> 64" and "curfile k = word_of_nat i" and "i < nd"
    and "\<forall>j. i \<le> j \<and> j < nd - 1 \<longrightarrow> greppable k ds files j"
    and "displays (mach k) con" and "grep_memory lit search buf data k"
  shows "\<exists>k'. grep_main lit search buf data (e, k) = Some (0, e, k') \<and>
    displays (mach k') (fold con_putc (concat (map (entry_output ps ds files) [i..<nd - 1])) con)"
proof -
  have rg: "region data 1025 \<subseteq> upage" "region buf 33 \<subseteq> upage - region data 1025" "region search 1024 \<subseteq> upage - region data 1025"
    "region buf 33 \<inter> region search 1024 = {}" and d10: "\<exists>c. ld8 (kvm k) (data + 1024) = Some c \<and> c \<noteq> 10"
    using assms(21) by (auto simp: grep_memory_def Let_def)
  have su: "region search 1024 \<subseteq> upage" using rg(3) by blast
  obtain v as where g: "ece391_getargs search 1024 (e, k) = Some (0, e, set_vm v (upd_pcb pid (\<lambda>p. p\<lparr>args := as\<rparr>) k))"
    "changes (region search 1024) (kvm k) v" "ld_bytes v search 1024 = Some as" "take (length ps + 1) as = ps @ [0]"
    using getargs_user [OF assms(1-7) su, of e] by blast
  define k1 where "k1 = set_vm v (upd_pcb pid (\<lambda>p. p\<lparr>args := as\<rparr>) k)"
  have k1: "kvm k1 = v" "mach k1 = (mach k)\<lparr>vm := v\<rparr>" "startdentry k1 = startdentry k" "numdentries k1 = numdentries k" "curfile k1 = curfile k"
    "fd_of k1 pid = fd_of k pid" by (simp_all add: k1_def) (simp add: set_vm_def)
  have lv: "leaves (region search 1024) k k1" by (rule leaves_changes [OF assms(1) _ su]) (use g(2) in \<open>simp_all add: k1_def\<close>)
  have run1: "running pid k1" using running_changes [OF assms(1) g(2)] assms(1) by (simp add: running_def k1_def)
  have dis1: "displays (mach k1) con" unfolding k1(2)
    by (rule displays_changes [OF assms(20) g(2) apart_subset [OF upage_memory(3) [OF assms(1)] su subset_refl]])
  have agk: "agree kpage (kvm k) (kvm k1)" using lv by (auto simp: leaves_def intro: agree_mono)
  have dir1: "directory (kvm k1) (startdentry k) = Some ds" using directory_agree [OF agree_mono [OF agk assms(9)]] assms(8) by simp
  have ml: "holds k1 data (lit s) (map of_char s)" "region (lit s) (Suc (length s)) \<inter> region buf 33 = {}" if "s \<in> {''.'', '':'', line_of ''''}" for s
    using leaves_holds [OF lv] grep_memory_literal [OF assms(21) that] by simp_all
  have rps: "region search (Suc (length ps)) \<subseteq> region search 1024" by (rule region_mono) (use assms(7) in simp)
  have sp: "holds k1 data search ps" using cstring_prefix [OF g(3,4) assms(6)] rps rg(3) by (auto simp: holds_def k1)
  have cs1: "grep_consts k1 data buf lit search ps"
    using ml(1) [of "'':''"] ml(2) [of "'':''"] ml(1) [of "line_of ''''"] ml(2) [of "line_of ''''"] sp rps rg(4) by (auto simp: grep_consts_def)
  have c: "cstring (kvm k1) (lit ''.'') [0x2E]" using ml(1) [of "''.''"] by (simp add: holds_def)
  have c0: "ld8 (kvm k1) (lit ''.'') = Some 0x2E" using cstring_nth [OF c, of 0] by simp
  have f: "find (\<lambda>d. entry_name (dname d) = take 32 [0x2E]) ds = Some d" using assms(10) by simp
  have av: "fst (get_fdAvail pid k1) = 2" using assms(12) k1(6) by (simp add: get_fdAvail_def eval_nat_numeral)
  define k2 where "k2 = (upd_fd pid 2 (opened d) (k1\<lparr>currDentry := d\<rparr>))\<lparr>currFD := 2, currPid := pid\<rparr>"
  have cp1: "cur_process k1 = pid" using run1 by (simp add: running_def)
  have dir1': "directory (kvm k1) (startdentry k1) = Some ds" using dir1 by (simp add: k1(3))
  have o: "ece391_open (lit ''.'') (e, k1) = Some (2, e, k2)"
    using open_user [OF dir1' f cstring_reads [OF c] c0, of 2 e] av cp1 unfolding k2_def by simp
  have k2: "mach k2 = mach k1" "start_addr k2 = start_addr k1" "numinodes k2 = numinodes k1" by (simp_all add: k2_def)
  have l2: "leaves {} k1 k2" by (simp add: leaves_def k2 agree_def)
  have "listing pid 2 ds nd i k2"
    using run1 dir1 assms(9,11,15-17) by (simp add: listing_def running_def k2_def k1 opened_def fop_of_type_def)
  moreover have "ld8 (kvm k2) (data + 1024) = ld8 (kvm k) (data + 1024)"
  proof -
    have "data + 1024 \<in> upage - region search 1024" using region_memI [of 1024 1025 data] rg(1,3) by auto
    then show ?thesis using lv by (simp add: leaves_def agree_def k2(1))
  qed
  ultimately have gd: "grep_dir pid ds nd i data con k2"
    using rg(1) d10 dis1 assms(13,14) k1(6) by (simp add: grep_dir_def k2(1)) (simp add: k2_def)
  have gr: "\<forall>j. i \<le> j \<and> j < nd - 1 \<longrightarrow> greppable k2 ds files j" using assms(19) leaves_greppable [OF leaves_trans [OF lv l2]] by blast
  have cs2: "grep_consts k2 data buf lit search ps" by (rule leaves_consts [OF l2 _ cs1]) simp
  obtain k' where "grep_files lit search 2 buf data (e, k2) = Some (0, e, k')"
    "grep_dir pid ds nd 0 data (fold con_putc (concat (map (entry_output ps ds files) [i..<nd - 1])) con) k'"
    using grep_files_prints [OF gd assms(18) rg(2) cs2 gr, of e] by blast
  then show ?thesis using g(1) o unfolding k1_def [symmetric] by (simp add: grep_main_def grep_dir_def)
qed

text \<open>A directory with the file \<open>a\<close>, whose text is the lines \<open>xy\<close> and \<open>z\<close>.\<close>

definition sample_text_mem :: "u32 \<Rightarrow> u8" where
  "sample_text_mem = sample_prog_mem(0x4100A4 := 1, 0x412000 := 5, 0x412004 := 1,
     0x413000 := 0x78, 0x413001 := 0x79, 0x413002 := 10, 0x413003 := 0x7A, 0x413004 := 10)"

definition sample_text :: "u8 list" where
  "sample_text = [0x78, 0x79, 10, 0x7A, 10]"

definition grep_literals :: "string list" where
  "grep_literals = [''.'', '':'', line_of '''']"

definition sample_grep :: kernel where
  "sample_grep = (sample_prog_on grep_literals sample_text_mem)\<lparr>storeargs := 0x79 # replicate 1023 0\<rparr>"

lemma sample_grep_directory:
  "\<exists>ds. directory (flat_vmem sample_text_mem) 0x410040 = Some ds \<and> length ds = 64 \<and>
    take 2 ds = [\<lparr>dname = 0x2E # replicate 31 0, fileType = 1, inodeNum = 0\<rparr>, \<lparr>dname = 0x61 # replicate 31 0, fileType = 2, inodeNum = 1\<rparr>]"
proof -
  obtain ds where ds: "directory (flat_vmem sample_text_mem) 0x410040 = Some ds" using directory_flat by blast
  have len: "length ds = 64" using length_those [OF ds [unfolded directory_def]] by simp
  have c: "copy_dentry (flat_vmem sample_text_mem) (0x410040 + 64 * word_of_nat i) = Some (ds ! i)" if "i < 64" for i
    using those_nth [OF ds [unfolded directory_def], of i] that by simp
  have e: "copy_dentry (flat_vmem sample_text_mem) 0x410040 = Some \<lparr>dname = 0x2E # replicate 31 0, fileType = 1, inodeNum = 0\<rparr>"
    "copy_dentry (flat_vmem sample_text_mem) 0x410080 = Some \<lparr>dname = 0x61 # replicate 31 0, fileType = 2, inodeNum = 1\<rparr>"
    by (simp add: copy_dentry_def ld_bytes_flat ld32_flat sample_text_mem_def sample_prog_mem_def word_of_bytes_def upt_rec, simp add: numeral_eq_Suc)+
  have "take 2 ds = [ds ! 0, ds ! 1]" using len by (simp add: take_Suc_conv_app_nth numeral_2_eq_2)
  then show ?thesis using ds len c [of 0] c [of 1] e by simp
qed

lemma sample_grep_file: "text_file sample_grep \<lparr>dname = 0x61 # replicate 31 0, fileType = 2, inodeNum = 1\<rparr> sample_text"
proof -
  let ?p = "sample_prog_on grep_literals sample_text_mem"
  have nb: "nblocks 5 = 1" by (simp add: nblocks_def)
  have w: "ld32 (flat_vmem sample_text_mem) 0x412000 = Some 5" "ld32 (flat_vmem sample_text_mem) 0x412004 = Some 1"
    by (simp_all add: ld32_flat sample_text_mem_def sample_prog_mem_def word_of_bytes_def)
  have m: "sample_text_mem 0x413000 = 0x78" "sample_text_mem 0x413001 = 0x79" "sample_text_mem 0x413002 = 10"
    "sample_text_mem 0x413003 = 0x7A" "sample_text_mem 0x413004 = 10" by (simp_all add: sample_text_mem_def)
  have ad: "inode_addr ?p 1 = 0x412000" "data_base ?p = 0x412000" by (simp_all add: inode_addr_def data_base_def sample_prog_fields)
  have fa: "file_area ?p 1 5 (\<lambda>_. 1) = region 0x412000 4096 \<union> region 0x413000 4096"
    by (simp add: file_area_def nb ad lessThan_Suc)
  have kp: "file_area ?p 1 5 (\<lambda>_. 1) \<subseteq> kpage" unfolding fa by (intro Un_least kpage_region) simp_all
  have flat: "file_at (flat_vmem sample_text_mem) ?p 1 5 (\<lambda>_. 1)"
    unfolding file_at_def nb ad by (simp add: w)
  have "\<forall>i \<in> set [0..<5]. file_byte (flat_vmem sample_text_mem) ?p 1 i = Some (sample_text ! i)"
    unfolding file_byte_def ad by (simp add: upt_rec w m sample_text_def)
  then have fb: "\<forall>i < 5. file_byte (flat_vmem sample_text_mem) ?p 1 i = Some (sample_text ! i)" by simp
  have "agree kpage (flat_vmem sample_text_mem) (kvm ?p)" by (rule sample_prog_ready(5)) (simp_all add: grep_literals_def lit_bytes_def)
  note fag = file_agree [OF agree_mono [OF this kp] flat]
  have cg: "file_at w sample_grep = file_at w ?p" "file_byte w sample_grep = file_byte w ?p" "file_area sample_grep = file_area ?p"
    "kvm sample_grep = kvm ?p" "numinodes sample_grep = 1" for w
    using fs_cong [of sample_grep ?p] sample_prog_fields(9) by (simp_all add: sample_grep_def)
  have "short_lines sample_text" by (simp add: short_lines_def sample_text_def)
  then show ?thesis unfolding text_file_def regular_file_def cg using fag fb kp
    by (intro conjI exI [of _ "\<lambda>_. 1"]) (simp_all add: sample_text_def)
qed

lemma sample_grep_memory: "grep_memory (lit_at 0x08048000 grep_literals) 0x08100000 0x08101000 0x08102000 sample_grep"
proof -
  let ?p = "sample_prog_on grep_literals sample_text_mem" and ?lit = "lit_at 0x08048000 grep_literals"
  have n: "length (lit_bytes grep_literals) = 6" by (simp add: grep_literals_def lit_bytes_def)
  have hl: "has_literals ?lit (set grep_literals) ?p" by (rule sample_prog_ready(2)) (simp_all add: grep_literals_def lit_bytes_def)
  have "(0x08102400 :: addr) \<in> upage - region 0x08048000 6"
  proof -
    have "region (0x08048000 :: addr) 6 \<inter> region 0x08102400 1 = {}" by (rule region_disjoint) simp_all
    then show ?thesis by (auto simp: upage_def region_Suc)
  qed
  then have "ld8 (kvm ?p) 0x08102400 = Some (sample_text_mem (proc_page 0 OR take_bit 22 0x08102400))"
    using sample_prog_ready(6) [of grep_literals "0x08102400" sample_text_mem] n by (simp add: grep_literals_def)
  moreover have "sample_text_mem (proc_page 0 OR take_bit 22 0x08102400) = 0"
    by (simp add: proc_page_def sample_text_mem_def sample_prog_mem_def)
  ultimately have last_byte: "ld8 (kvm ?p) (0x08102000 + 1024) = Some 0" by simp
  have up: "region (0x08102000 :: addr) 1025 \<subseteq> upage" "region (0x08101000 :: addr) 33 \<subseteq> upage" "region (0x08100000 :: addr) 1024 \<subseteq> upage"
    by (rule upage_region; simp)+
  have dj: "region (0x08100000 :: addr) 1024 \<inter> region 0x08101000 33 = {}" "region (0x08100000 :: addr) 1024 \<inter> region 0x08102000 1025 = {}"
    "region (0x08101000 :: addr) 33 \<inter> region 0x08102000 1025 = {}" by (rule region_disjoint; simp)+
  have ll: "region (?lit s) (Suc (length s)) \<inter> (region 0x08102000 1025 \<union> region 0x08101000 33 \<union> region 0x08100000 1024) = {}"
    if "s \<in> set grep_literals" for s
  proof -
    have a: "unat (?lit s) + Suc (length s) \<le> 0x08100000" using that by (auto simp: grep_literals_def)
    have "region (?lit s) (Suc (length s)) \<inter> region 0x08102000 1025 = {}" "region (?lit s) (Suc (length s)) \<inter> region 0x08101000 33 = {}"
      "region (?lit s) (Suc (length s)) \<inter> region 0x08100000 1024 = {}" by (rule region_disjoint; use a in simp)+
    then show ?thesis by blast
  qed
  have kv: "kvm sample_grep = kvm ?p" by (simp add: sample_grep_def)
  have ls: "set grep_literals = {''.'', '':'', line_of ''''}" by (simp add: grep_literals_def)
  have hl': "has_literals ?lit {''.'', '':'', line_of ''''} sample_grep" using hl unfolding ls has_literals_def kv .
  have ll': "\<forall>s \<in> {''.'', '':'', line_of ''''}. region (?lit s) (Suc (length s)) \<inter>
      (region 0x08102000 1025 \<union> region 0x08101000 33 \<union> region 0x08100000 1024) = {}" using ll unfolding ls by blast
  have lb: "\<exists>c. ld8 (kvm sample_grep) (0x08102000 + 1024) = Some c \<and> c \<noteq> 10"
    unfolding kv last_byte by (intro exI [of _ 0]) simp
  have dj': "region (0x08102000 :: addr) 1025 \<inter> region 0x08101000 33 = {}" "region (0x08102000 :: addr) 1025 \<inter> region 0x08100000 1024 = {}"
    "region (0x08101000 :: addr) 33 \<inter> region 0x08100000 1024 = {}" using dj by (simp_all only: Int_commute)
  show ?thesis unfolding grep_memory_def Let_def by (intro conjI hl' ll' lb dj' Un_least up)
qed

theorem grep_prints_matches_witness:
  "\<exists>k' con. grep_main (lit_at 0x08048000 grep_literals) 0x08100000 0x08101000 0x08102000 (sample_env, sample_grep) = Some (0, sample_env, k') \<and>
    displays (mach k') (fold con_putc [0x61, 58, 0x78, 0x79, 10] con)"
proof -
  let ?k = sample_grep
  obtain ds where ds: "directory (flat_vmem sample_text_mem) 0x410040 = Some ds" "length ds = 64"
    "take 2 ds = [\<lparr>dname = 0x2E # replicate 31 0, fileType = 1, inodeNum = 0\<rparr>, \<lparr>dname = 0x61 # replicate 31 0, fileType = 2, inodeNum = 1\<rparr>]"
    (is "_ = [?d0, ?d1]") using sample_grep_directory by blast
  have split: "ds = ?d0 # ?d1 # drop 2 ds" using append_take_drop_id [of 2 ds] ds(3) by simp
  have nth: "ds ! 1 = ?d1" by (subst split) simp
  have nm: "entry_name (dname ?d0) = [0x2E]" "entry_name (dname ?d1) = [0x61]" by (simp_all add: entry_name_def)
  have fnd: "find (\<lambda>d. entry_name (dname d) = [0x2E]) ds = Some ?d0" "find (\<lambda>d. entry_name (dname d) = [0x61]) ds = Some ?d1"
    by (subst split, simp add: entry_name_def)+
  have pr: "length (lit_bytes grep_literals) \<le> 0x100000" "\<forall>s \<in> set grep_literals. 0 \<notin> set (map of_char s :: u8 list) \<and> length s < 2 ^ 31"
    by (simp_all add: grep_literals_def lit_bytes_def)
  note r = sample_prog_ready [OF pr, where p = sample_text_mem] and F = sample_prog_fields [where ss = grep_literals and p = sample_text_mem]
  have kf: "startdentry ?k = 0x410040" "numdentries ?k = word_of_nat 3" "curfile ?k = word_of_nat 1" "PCB_array ?k = PCB_array (sample_prog_on grep_literals sample_text_mem)"
    "mach ?k = mach (sample_prog_on grep_literals sample_text_mem)" by (simp_all add: sample_grep_def F(3-5))
  have run: "running 0 ?k" using r(1) by (simp add: running_def sample_grep_def)
  have dir: "directory (kvm ?k) (startdentry ?k) = Some ds" using r(3) ds(1) by (simp add: kf)
  obtain con where con: "displays (mach ?k) con" using r(4) kf(5) by auto
  have fd: "present (fd_of ?k 0 2) = -1" "present (fd_of ?k 0 3) = -1" "file_pos (fd_of ?k 0 3) = 0" "length (args (PCB_array ?k 0)) = 1024"
    using F(7) [of 2] F(7) [of 3] F(10) F(11) [of 3] by (simp_all add: kf(4) fd_free_def)
  have st: "storeargs ?k = [0x79] @ 0 # replicate 1022 0" "length (storeargs ?k) = 1024"
    by (simp_all add: sample_grep_def replicate_Suc [symmetric] del: replicate_Suc)
  have ps: "[0x79 :: u8] \<noteq> []" "0 \<notin> set [0x79 :: u8]" "length [0x79 :: u8] < 1023" by simp_all
  have kp: "region (startdentry ?k) 4096 \<subseteq> kpage" unfolding kf by (rule kpage_region) simp_all
  have "greppable ?k ds (\<lambda>_. sample_text) 1" unfolding greppable_def nth nm Let_def using fnd(2) sample_grep_file by simp
  then have gr: "\<forall>j. 1 \<le> j \<and> j < 3 - 1 \<longrightarrow> greppable ?k ds (\<lambda>_. sample_text) j" 
  proof (intro allI impI)
    fix j :: nat assume "1 \<le> j \<and> j < 3 - 1"
    then have "j = 1" by simp
    then show "greppable ?k ds (\<lambda>_. sample_text) j" using \<open>greppable ?k ds (\<lambda>_. sample_text) 1\<close> by simp
  qed
  have ty: "fileType ?d0 = 1" by simp
  from grep_prints_matches [OF run fd(4) st ps dir kp fnd(1) ty fd(1-3) kf(2) _ kf(3) _ gr con sample_grep_memory, of sample_env]
  obtain k' where k': "grep_main (lit_at 0x08048000 grep_literals) 0x08100000 0x08101000 0x08102000 (sample_env, ?k) = Some (0, sample_env, k')"
    "displays (mach k') (fold con_putc (concat (map (entry_output [0x79] ds (\<lambda>_. sample_text)) [1..<3 - 1])) con)" by auto
  have "occurs [0x79] [0x78, 0x79]" "\<not> occurs [0x79] [0x7A]" by (auto simp: occurs_def intro!: exI [of _ 1])
  then have "grep_output [0x61] [0x79] sample_text = [0x61, 58, 0x78, 0x79, 10]" by (simp add: grep_output_def sample_text_def line_output_def occurs_def)
  then have "entry_output [0x79] ds (\<lambda>_. sample_text) 1 = [0x61, 58, 0x78, 0x79, 10]" unfolding entry_output_def nth nm Let_def by simp
  moreover have "[1..<3 - 1] = [1 :: nat]" by (simp add: upt_rec)
  ultimately have "concat (map (entry_output [0x79] ds (\<lambda>_. sample_text)) [1..<3 - 1]) = [0x61, 58, 0x78, 0x79, 10]" by simp
  with k' show ?thesis by metis
qed

end
