(* ===== verification/Fish.thy ===== *)
theory Fish
  imports Blink Grep
begin

text \<open>
  The program \<open>fish/fish.c\<close>: it maps the screen, makes a blinking character of every place where one
  of two frames has a character, and lets the clock blink them.  \<open>f0\<close> and \<open>f1\<close> are the addresses of
  the file names, \<open>pc0\<close>, \<open>pc1\<close>, \<open>pr\<close> and \<open>pg\<close> those of the variables \<open>c0\<close>, \<open>c1\<close>, \<open>ret_val\<close> and
  \<open>garbage\<close>; \<open>b0\<close> is what the uninitialised \<open>blink_struct\<close> holds.
\<close>

section \<open>Definitions\<close>

definition ece391_halt :: "int \<Rightarrow> 'e ustate \<Rightarrow> (int \<times> 'e ustate) option" where
  "ece391_halt st u = do_call 1 (word_of_int st) (e_reg (fst u)) (e_reg (fst u)) u"

definition store_word :: "addr \<Rightarrow> u32 \<Rightarrow> 'e ustate \<Rightarrow> 'e ustate option" where
  "store_word a w u = do {
     u \<leftarrow> store_byte a (bytes_of_word w ! 0) u; u \<leftarrow> store_byte (a + 1) (bytes_of_word w ! 1) u;
     u \<leftarrow> store_byte (a + 2) (bytes_of_word w ! 2) u; store_byte (a + 3) (bytes_of_word w ! 3) u
   }"

definition mp1_set_video_mode :: "addr \<Rightarrow> 'e ustate \<Rightarrow> (addr \<times> 'e ustate) option" where
  "mp1_set_video_mode vb u = do {
     (r, u) \<leftarrow> ece391_vidmap vb u;
     if r = -1 then Some (0, u) else do { w \<leftarrow> load_word vb u; Some (w, u) }
   }"

text \<open>The next character of a frame, unless its line has ended.\<close>

definition frame_char :: "int \<Rightarrow> addr \<Rightarrow> bool \<Rightarrow> 'e ustate \<Rightarrow> (bool \<times> 'e ustate) option" where
  "frame_char fd pc eof u = do {
     c \<leftarrow> load_byte pc u;
     if c \<noteq> 10 then do {
       (num_bytes, u) \<leftarrow> ece391_read fd pc 1 u;
       if num_bytes = 0 then do { u \<leftarrow> store_byte pc 10 u; Some (True, u) } else Some (eof, u)
     }
     else Some (eof, u)
   }"

definition frame_blink :: "mp1_blink_struct \<Rightarrow> int \<Rightarrow> int \<Rightarrow> u8 \<Rightarrow> u8 \<Rightarrow> mp1_blink_struct" where
  "frame_blink b0 row col c0 c1 =
     b0\<lparr>on_length := 15, off_length := 15, on_char := (if c0 = 10 then 0x20 else c0), off_char := (if c1 = 10 then 0x20 else c1),
       location := word_of_int (row * 80 + col + 40)\<rparr>"

partial_function (option) frame_row ::
  "addr \<Rightarrow> mp1_blink_struct \<Rightarrow> int \<Rightarrow> addr \<Rightarrow> int \<Rightarrow> addr \<Rightarrow> int \<Rightarrow> int \<Rightarrow> bool \<Rightarrow> bool \<Rightarrow> 'e fish_state \<Rightarrow> (bool \<times> bool \<times> 'e fish_state) option" where
  "frame_row vb b0 fd0 pc0 fd1 pc1 row col eof0 eof1 f = do {
     (eof0, u) \<leftarrow> frame_char fd0 pc0 eof0 (snd f);
     (eof1, u) \<leftarrow> frame_char fd1 pc1 eof1 u;
     c0 \<leftarrow> load_byte pc0 u;
     c1 \<leftarrow> load_byte pc1 u;
     if c0 = 10 \<and> c1 = 10 then Some (eof0, eof1, fst f, u)
     else do {
       f \<leftarrow> (if (c0 \<noteq> 0x20 \<and> c0 \<noteq> 10) \<or> (c1 \<noteq> 0x20 \<and> c1 \<noteq> 10)
             then map_option (\<lambda>(_, _, f). f) (mp1_ioctl vb (RTC_ADD (frame_blink b0 row col c0 c1)) (fst f, u))
             else Some (fst f, u));
       frame_row vb b0 fd0 pc0 fd1 pc1 row (col + 1) eof0 eof1 f
     }
   }"

definition frame_line_end :: "int \<Rightarrow> addr \<Rightarrow> bool \<Rightarrow> 'e ustate \<Rightarrow> 'e ustate option" where
  "frame_line_end fd pc eof u =
     (if eof then do { u \<leftarrow> store_byte pc 10 u; (_, u) \<leftarrow> ece391_close fd u; Some u }
      else store_byte pc 0x30 u)"

partial_function (option) frame_rows ::
  "addr \<Rightarrow> mp1_blink_struct \<Rightarrow> int \<Rightarrow> addr \<Rightarrow> int \<Rightarrow> addr \<Rightarrow> int \<Rightarrow> bool \<Rightarrow> bool \<Rightarrow> 'e fish_state \<Rightarrow> 'e fish_state option" where
  "frame_rows vb b0 fd0 pc0 fd1 pc1 row eof0 eof1 f =
     (if \<not> eof0 \<or> \<not> eof1 then do {
        (eof0, eof1, s, u) \<leftarrow> frame_row vb b0 fd0 pc0 fd1 pc1 row 0 eof0 eof1 f;
        u \<leftarrow> frame_line_end fd0 pc0 eof0 u;
        u \<leftarrow> frame_line_end fd1 pc1 eof1 u;
        frame_rows vb b0 fd0 pc0 fd1 pc1 (row + 1) eof0 eof1 (s, u)
      }
      else Some f)"

definition add_frames :: "addr \<Rightarrow> mp1_blink_struct \<Rightarrow> addr \<Rightarrow> addr \<Rightarrow> addr \<Rightarrow> addr \<Rightarrow> 'e fish_state \<Rightarrow> 'e fish_state option" where
  "add_frames vb b0 f0 f1 pc0 pc1 f = do {
     u \<leftarrow> store_byte pc0 0x30 (snd f);
     u \<leftarrow> store_byte pc1 0x30 u;
     (fd0, u) \<leftarrow> ece391_open f0 u;
     u \<leftarrow> (if fd0 < 0 then map_option snd (ece391_halt (-1) u) else Some u);
     (fd1, u) \<leftarrow> ece391_open f1 u;
     u \<leftarrow> (if fd1 < 0 then map_option snd (ece391_halt (-1) u) else Some u);
     frame_rows vb b0 fd0 pc0 fd1 pc1 0 False False (fst f, u)
   }"

text \<open>A loop of \<open>main\<close> that waits for \<open>n\<close> ticks of the clock.\<close>

fun fish_wait :: "addr \<Rightarrow> int \<Rightarrow> addr \<Rightarrow> nat \<Rightarrow> 'e fish_state \<Rightarrow> 'e fish_state option" where
  "fish_wait vb rtc_fd pg 0 f = Some f"
| "fish_wait vb rtc_fd pg (Suc n) f = do {
     (_, u) \<leftarrow> ece391_read rtc_fd pg 4 (snd f);
     f \<leftarrow> mp1_rtc_tasklet vb (fst f, u);
     fish_wait vb rtc_fd pg n f
   }"

definition im_blink :: "mp1_blink_struct \<Rightarrow> mp1_blink_struct" where
  "im_blink b0 = b0\<lparr>on_char := 0x49, off_char := 0x4D, on_length := 7, off_length := 6, location := 6 * 80 + 60\<rparr>"

definition clear_blinks :: "blink_state \<Rightarrow> blink_state" where
  "clear_blinks s = s\<lparr>blink_array := (\<lambda>i. if i < 80 * 25 then zero_blink else blink_array s i)\<rparr>"

definition fish_main ::
  "(string \<Rightarrow> addr) \<Rightarrow> addr \<Rightarrow> mp1_blink_struct \<Rightarrow> mp1_blink_struct \<Rightarrow> addr \<Rightarrow> addr \<Rightarrow> addr \<Rightarrow> addr \<Rightarrow> addr \<Rightarrow> addr \<Rightarrow> 'e fish_state \<Rightarrow> (int \<times> 'e fish_state) option" where
  "fish_main lit vb b0 b1 f0 f1 pc0 pc1 pr pg f = do {
     let s = clear_blinks (fst f);
     (p, u) \<leftarrow> mp1_set_video_mode vb (snd f);
     if p = 0 then Some (-1, s, u)
     else do {
       (rtc_fd, u) \<leftarrow> ece391_open (lit ''rtc'') u;
       (s, u) \<leftarrow> add_frames vb b1 f0 f1 pc0 pc1 (s, u);
       u \<leftarrow> store_word pr 32 u;
       (r, u) \<leftarrow> ece391_write rtc_fd pr 4 u;
       u \<leftarrow> store_word pr (word_of_int r) u;
       f \<leftarrow> fish_wait vb rtc_fd pg 100 (s, u);
       (_, _, f) \<leftarrow> mp1_ioctl vb (RTC_ADD (im_blink b0)) f;
       f \<leftarrow> fish_wait vb rtc_fd pg 100 f;
       (_, _, f) \<leftarrow> mp1_ioctl vb (RTC_SYNC (push_bit 16 40 OR (6 * 80 + 60))) f;
       f \<leftarrow> fish_wait vb rtc_fd pg 100 f;
       (_, _, f) \<leftarrow> mp1_ioctl vb (RTC_REMOVE (6 * 80 + 60)) f;
       (s, u) \<leftarrow> fish_wait vb rtc_fd pg 100 f;
       (_, u) \<leftarrow> ece391_close rtc_fd u;
       Some (0, s, u)
     }
   }"

section \<open>Mapping the screen\<close>

lemma word_of_bytes_of_word: "word_of_bytes (ucast w) (ucast (drop_bit 8 w)) (ucast (drop_bit 16 w)) (ucast (drop_bit 24 w)) = (w :: u32)"
proof (rule bit_eqI)
  fix n :: nat assume "possible_bit TYPE(32 word) n"
  then have "n < 8 \<or> (8 \<le> n \<and> n < 16) \<or> (16 \<le> n \<and> n < 24) \<or> (24 \<le> n \<and> n < 32)" by auto
  then show "bit (word_of_bytes (ucast w) (ucast (drop_bit 8 w)) (ucast (drop_bit 16 w)) (ucast (drop_bit 24 w))) n = bit w n"
    by (elim disjE) (auto simp: word_of_bytes_def bit_simps)
qed

lemma ld32_of_bytes: "ld_bytes v a 4 = Some (bytes_of_word w) \<Longrightarrow> ld32 v a = Some w"
  using word_of_bytes_of_word [of w]
  by (auto simp: ld32_def bytes_of_word_def numeral_eq_Suc add.assoc split: Option.bind_splits)

lemma upage_word: "region a 4 \<subseteq> upage \<Longrightarrow> a \<in> upage \<and> a + 1 \<in> upage \<and> a + 2 \<in> upage \<and> a + 3 \<in> upage"
  using region_memI [of 0 4 a] region_memI [of 1 4 a] region_memI [of 2 4 a] region_memI [of 3 4 a] by auto

lemma load_word_user:
  assumes "running pid k" and "region a 4 \<subseteq> upage" and "ld32 (kvm k) a = Some w"
  shows "load_word a (e, k) = Some w"
  using assms upage_word [OF assms(2)] upage_memory(4) [OF assms(1)] by (simp add: load_word_def load_byte_def ld32_def)

text \<open>The entries \<open>vid_map\<close> sets are not used by the kernel page, the user page and the video page.\<close>

lemma vid_map_tables_agree:
  assumes l: "layout v" and pid: "0 \<le> pid" "pid < 6" "page_directory v 32 = proc_pde pid" and b8: "page_table v 0xB8 = 0xB8003" and i: "i < 1024"
  shows "agree (kpage \<union> upage \<union> screen_region) v (set_upte i (VIDEO_MEM OR 7) (set_pde 33 (user_video_page_table_addr v OR 7) v))"
    (is "agree _ v ?v")
proof -
  have l': "layout ?v" by (rule vid_map_layout [OF l i])
  have "translate ?v a = translate v a" if "a \<in> kpage \<union> upage \<union> screen_region" for a
    using that
  proof (elim UnE)
    assume "a \<in> kpage"
    then show ?thesis using translate_kernel_page(1) [OF l] translate_kernel_page(1) [OF l'] by (simp add: kpage_def)
  next
    assume "a \<in> upage"
    then show ?thesis using translate_process_page(1) [OF l pid] translate_process_page(1) [OF l' pid(1,2)] pid(3) by (simp add: upage_def)
  next
    assume "a \<in> screen_region"
    then have d: "drop_bit 12 a = 0xB8" using screen_addr(1) region_mono [of 4000 4096 VIDEO] by auto
    have e: "page_table v 0xB8 = ((0xB8 + 0) * 4096) OR 3" "page_table ?v 0xB8 = ((0xB8 + 0) * 4096) OR 3" using b8 by simp_all
    show ?thesis using translate_video_page(1) [OF l d e(1)] translate_video_page(1) [OF l' d e(2)] by simp
  qed
  then show ?thesis by (simp add: agree_def ld8_def)
qed

lemma displays_agree:
  assumes "displays m con" and "agree screen_region (vm m) v"
  shows "displays (m\<lparr>vm := v\<rparr>) con"
proof -
  have l: "length (fst con) = 2000" "length (cell_bytes (fst con)) = 4000" and w: "window (vm m) VIDEO (cell_bytes (fst con))"
    using assms(1) displays_cells_window [of "vm m" "fst con"] by (simp_all add: displays_def displays_cells_def)
  have "window v VIDEO (cell_bytes (fst con))" using w mapped_agree [OF assms(2)] ld_bytes_agree [OF assms(2)] unfolding window_def l by simp
  then show ?thesis using assms(1) l by (simp add: displays_def displays_cells_def cursor_ok_def)
qed

lemma set_video_mode_canvas:
  assumes run: "running pid k" and b8: "page_table (kvm k) 0xB8 = 0xB8003" and ct: "cur_terminal k < 3" and vb: "region vb 4 \<subseteq> upage"
    and d: "displays (mach k) con"
  shows "\<exists>k' w. mp1_set_video_mode vb (e, k) = Some (w, e, k') \<and> w \<noteq> 0 \<and> canvas pid vb w con k' \<and> leaves (region vb 4) k k' \<and>
    PCB_array k' = PCB_array k \<and> startdentry k' = startdentry k"
proof -
  let ?w = "USER_MAP_LOC + ucast (cur_terminal k) * FOUR_KB"
  let ?v = "set_upte (ct k) (VIDEO_MEM OR 7) (set_pde 33 (user_video_page_table_addr (kvm k) OR 7) (kvm k))"
  have R: "layout (kvm k)" "0 \<le> pid" "pid < 6" "page_directory (kvm k) 32 = proc_pde pid" using run by (simp_all add: running_def)
  have "\<forall>j < 4. drop_bit 22 (vb + word_of_nat j) = (32 :: u32)" using vb region_memI [of _ 4 vb] by (auto simp: upage_def)
  then obtain v where v: "vid_map vb k = Some (0, set_vm v (upd_term (ct k) (\<lambda>t. t\<lparr>screen_start := vb\<rparr>) k))" "layout v"
    "ld_bytes v vb 4 = Some (bytes_of_word ?w)" "st_bytes ?v vb (bytes_of_word ?w) = Some v"
    "\<forall>i < 4096. user_access v (?w + word_of_nat i) \<and> translate v (?w + word_of_nat i) = Some (VIDEO_MEM OR word_of_nat i)"
    using vid_map_ok [OF R _ ct] by blast
  let ?k = "set_vm v (upd_term (ct k) (\<lambda>t. t\<lparr>screen_start := vb\<rparr>) k)"
  have t: "cur_terminal k = 0 \<or> cur_terminal k = 1 \<or> cur_terminal k = 2" using ct u8_lt3 by blast
  have w0: "?w \<noteq> 0" using t by (auto simp: USER_MAP_LOC_def FOUR_KB_def)
  have ct1: "ct k < 1024" using t by auto
  note ag = vid_map_tables_agree [OF R b8 ct1]
  have ch: "changes (region vb 4) ?v v" using st_bytes_changes [OF v(4)] by simp
  have lv: "layout ?v" "page_directory ?v 32 = proc_pde pid" using vid_map_layout [OF R(1) ct1] R(4) by simp_all
  have um: "mapped ?v upage" "apart ?v upage kpage" "apart ?v upage screen_region"
    using process_page_mapped [OF lv(1) R(2,3) lv(2)] process_kpage_apart [OF lv(1) R(2,3) lv(2)] apart_sym [OF screen_upage_apart [OF lv R(2,3)]]
    by (simp_all add: upage_def)
  have ap: "apart ?v (region vb 4) (kpage \<union> (upage - region vb 4) \<union> screen_region)"
  proof -
    have "apart ?v (region vb 4) (upage - region vb 4)" using vb by (intro apart_mapped mapped_subset [OF um(1)]) auto
    moreover have "apart ?v (region vb 4) kpage" "apart ?v (region vb 4) screen_region" using apart_subset [OF um(2) vb] apart_subset [OF um(3) vb] by blast+
    ultimately show ?thesis unfolding apart_def by blast
  qed
  have av: "agree (kpage \<union> (upage - region vb 4) \<union> screen_region) (kvm k) v"
    using agree_trans [OF agree_mono [OF ag] agree_changes [OF ch ap]] by blast
  have lv': "leaves (region vb 4) k ?k" using agree_mono [OF av] by (simp add: leaves_def)
  have "page_directory v 32 = proc_pde pid" using same_map_fields [OF changes_same_map [OF ch]] lv(2) by simp
  then have run': "running pid ?k" using run v(2) by (simp add: running_def)
  have d': "displays (mach ?k) con" using displays_agree [OF d agree_mono [OF av]] by (simp add: set_vm_def)
  have "translate v (VIDEO + word_of_nat i) = Some (VIDEO_MEM OR word_of_nat i)" if "i < 4000" for i
  proof -
    have i: "VIDEO + word_of_nat i \<in> region VIDEO 4096" by (rule region_memI) (use that in simp)
    have e: "page_table v 0xB8 = ((0xB8 + 0) * 4096) OR 3" using b8 same_map_fields [OF changes_same_map [OF ch]] by simp
    obtain j where j: "j < 4096" "VIDEO + word_of_nat i = VIDEO + (word_of_nat j :: u32)" "take_bit 12 (VIDEO + word_of_nat i) = (word_of_nat j :: u32)"
      using screen_addr(2) [OF i] by blast
    have "take_bit 12 (VIDEO + word_of_nat i) = (word_of_nat i :: u32)" using j by simp
    then show ?thesis using translate_video_page(1) [OF v(2) screen_addr(1) [OF i] e] by (simp add: VIDEO_MEM_def)
  qed
  then have cv: "canvas pid vb ?w con ?k" using run' d' vb v(5) ld32_of_bytes [OF v(3)] by (simp add: canvas_def)
  have "vb \<in> upage" using upage_word [OF vb] by simp
  then have "vb \<noteq> 0 \<and> \<not> (vb \<ge> 0x400000 \<and> vb < 0x800000)" using upage_unat [of vb] by (auto simp: word_le_nat_alt word_less_nat_alt)
  then have "ece391_vidmap vb (e, k) = Some (0, e, ?k)" using v(1) by (auto simp: ece391_vidmap_eq sys_vidmap_def)
  moreover have "load_word vb (e, ?k) = Some ?w" by (rule load_word_user [OF run' vb]) (use ld32_of_bytes [OF v(3)] in simp)
  ultimately have "mp1_set_video_mode vb (e, k) = Some (?w, e, ?k)" by (simp add: mp1_set_video_mode_def)
  then show ?thesis using w0 cv lv' by (intro exI [of _ ?k] exI [of _ ?w]) simp
qed

section \<open>Reading two frames\<close>

record frame_cursor =
  c_fd :: int
  c_dentry :: dentry_t
  c_text :: "u8 list"
  c_addr :: addr

text \<open>The frame is open, \<open>pos\<close> of its characters have been read, and its variable holds \<open>x\<close>.\<close>

definition cursor :: "int \<Rightarrow> frame_cursor \<Rightarrow> nat \<Rightarrow> u8 \<Rightarrow> kernel \<Rightarrow> bool" where
  "cursor pid A pos x k \<longleftrightarrow> (c_fd A = 3 \<or> c_fd A = 4) \<and> present (fd_of k pid (c_fd A)) = 0 \<and>
     jump_start_idx (fd_of k pid (c_fd A)) = Some file_struct \<and> word_of_int (inode_number (fd_of k pid (c_fd A))) = inodeNum (c_dentry A) \<and>
     file_pos (fd_of k pid (c_fd A)) = int pos \<and> regular_file k (c_dentry A) (c_text A) \<and> c_addr A \<in> upage \<and> ld8 (kvm k) (c_addr A) = Some x"

definition rtc_open_at :: "int \<Rightarrow> int \<Rightarrow> kernel \<Rightarrow> bool" where
  "rtc_open_at pid fd k \<longleftrightarrow> present (fd_of k pid fd) \<noteq> -1 \<and> jump_start_idx (fd_of k pid fd) = Some rtc_struct"

definition stage :: "int \<Rightarrow> addr \<Rightarrow> addr \<Rightarrow> console \<Rightarrow> frame_cursor \<Rightarrow> nat \<Rightarrow> u8 \<Rightarrow> frame_cursor \<Rightarrow> nat \<Rightarrow> u8 \<Rightarrow> kernel \<Rightarrow> bool" where
  "stage pid vb w con A qa xa B qb xb k \<longleftrightarrow> canvas pid vb w con k \<and> currPid k = pid \<and> currFD k = 4 \<and> rtc_open_at pid 2 k \<and>
     cursor pid A qa xa k \<and> cursor pid B qb xb k \<and> c_fd A \<noteq> c_fd B \<and> c_addr A \<noteq> c_addr B \<and>
     c_addr A \<notin> region vb 4 \<and> c_addr B \<notin> region vb 4"

lemma stage_swap: "stage pid vb w con A qa xa B qb xb k \<longleftrightarrow> stage pid vb w con B qb xb A qa xa k"
  by (auto simp: stage_def)

lemma stage_running: "stage pid vb w con A qa xa B qb xb k \<Longrightarrow> running pid k"
  by (simp add: stage_def canvas_def)

lemma canvas_changes:
  assumes cv: "canvas pid vb w con k" and ch: "changes A (kvm k) v" and A: "A \<subseteq> upage - region vb 4"
  shows "canvas pid vb w con (set_vm v k)"
proof -
  have run: "running pid k" and vb: "region vb 4 \<subseteq> upage" using cv by (simp_all add: canvas_def)
  note um = upage_memory [OF run] and sm = changes_same_map [OF ch]
  have "apart (kvm k) A (region vb 4)" using A vb by (intro apart_mapped mapped_subset [OF um(1)]) auto
  then have "ld32 v vb = ld32 (kvm k) vb" by (intro ld32_agree agree_changes [OF ch])
  moreover have "displays (mach (set_vm v k)) con"
    using displays_changes [OF _ ch apart_subset [OF um(3)], where con = con] cv A by (auto simp: canvas_def set_vm_def)
  moreover have "running pid (set_vm v k)" using running_changes [OF run ch] run by (simp add: running_def)
  ultimately show ?thesis using cv same_map_translate [OF sm] user_access_same_map [OF sm] by (simp add: canvas_def)
qed

lemma cursor_agree:
  assumes "cursor pid A pos x k" and "agree kpage (kvm k) (kvm k')" and "ld8 (kvm k') (c_addr A) = Some x'"
    and "start_addr k' = start_addr k" and "numinodes k' = numinodes k" and "fd_of k' pid (c_fd A) = fd_of k pid (c_fd A)"
  shows "cursor pid A pos x' k'"
  using assms regular_file_agree [OF _ assms(2,4,5)] by (simp add: cursor_def)

lemma stage_changes:
  assumes st: "stage pid vb w con A qa xa B qb xb k" and ch: "changes {c_addr A} (kvm k) v" and x: "ld8 v (c_addr A) = Some x"
  shows "stage pid vb w con A qa x B qb xb (set_vm v k)"
proof -
  have run: "running pid k" by (rule stage_running [OF st])
  have a: "c_addr A \<in> upage" "c_addr B \<in> upage" "c_addr A \<noteq> c_addr B" "c_addr A \<notin> region vb 4" using st by (simp_all add: stage_def cursor_def)
  note um = upage_memory [OF run]
  have "agree kpage (kvm k) (kvm (set_vm v k))" using agree_changes [OF ch apart_subset [OF um(2)]] a(1) by simp
  note ca = cursor_agree [OF _ this]
  have "apart (kvm k) {c_addr A} {c_addr B}" using a by (intro apart_mapped mapped_subset [OF um(1)]) auto
  then have "ld8 v (c_addr B) = ld8 (kvm k) (c_addr B)" using ld8_changes [OF ch] by simp
  then have b: "ld8 v (c_addr B) = Some xb" using st by (simp add: stage_def cursor_def)
  have "canvas pid vb w con (set_vm v k)" by (rule canvas_changes [OF _ ch]) (use st a in \<open>auto simp: stage_def\<close>)
  then show ?thesis using st ca [of pid A qa xa x] ca [of pid B qb xb xb] x b by (simp add: stage_def rtc_open_at_def)
qed

lemma stage_screen:
  assumes st: "stage pid vb w con A qa xa B qb xb k" and m: "k' = k\<lparr>mach := mach k'\<rparr>" "changes screen_region (kvm k) (kvm k')" "canvas pid vb w con' k'"
  shows "stage pid vb w con' A qa xa B qb xb k'"
proof -
  have run: "running pid k" by (rule stage_running [OF st])
  then have l: "layout (kvm k)" by (simp add: running_def)
  have kp: "agree kpage (kvm k) (kvm k')" by (rule agree_changes [OF m(2) screen_kpage_apart [OF l]])
  have "agree upage (kvm k) (kvm k')" by (rule agree_changes [OF m(2) apart_sym [OF upage_memory(3) [OF run]]])
  then have ld: "ld8 (kvm k') (c_addr A) = Some xa" "ld8 (kvm k') (c_addr B) = Some xb" using st by (auto simp: stage_def cursor_def agree_def)
  have F: "start_addr k' = start_addr k" "numinodes k' = numinodes k" "PCB_array k' = PCB_array k" "currPid k' = currPid k" "currFD k' = currFD k"
    by (subst m(1), simp)+
  have "cursor pid A qa xa k'" "cursor pid B qb xb k'"
    using cursor_agree [OF _ kp ld(1) F(1,2), of pid qa xa] cursor_agree [OF _ kp ld(2) F(1,2), of pid qb xb] st F(3) by (simp_all add: stage_def)
  then show ?thesis using st m(3) F by (simp add: stage_def rtc_open_at_def)
qed

lemma stage_seek:
  assumes "stage pid vb w con A qa xa B qb xb k"
  shows "stage pid vb w con A p xa B qb xb (upd_fd pid (c_fd A) (\<lambda>f. f\<lparr>file_pos := int p\<rparr>) k)"
proof -
  have c: "canvas pid vb w con (upd_fd pid (c_fd A) (\<lambda>f. f\<lparr>file_pos := int p\<rparr>) k)" using assms by (simp add: stage_def canvas_def running_def)
  have r: "regular_file (upd_fd pid (c_fd A) (\<lambda>f. f\<lparr>file_pos := int p\<rparr>) k) d t \<longleftrightarrow> regular_file k d t" for d t by (simp add: regular_file_def)
  show ?thesis using assms c by (auto simp: stage_def cursor_def r rtc_open_at_def)
qed

lemma stage_read:
  assumes st: "stage pid vb w con A qa xa B qb xb k"
  shows "qa < length (c_text A) \<Longrightarrow> \<exists>k'. ece391_read (c_fd A) (c_addr A) 1 (e, k) = Some (1, e, k') \<and>
      stage pid vb w con A (qa + 1) (c_text A ! qa) B qb xb k'"
    and "qa = length (c_text A) \<Longrightarrow> \<exists>k'. ece391_read (c_fd A) (c_addr A) 1 (e, k) = Some (0, e, k') \<and> stage pid vb w con A 0 xa B qb xb k'"
proof -
  let ?fd = "c_fd A" and ?a = "c_addr A" and ?f = "\<lambda>p f. f\<lparr>file_pos := int p\<rparr>"
  have run: "running pid k" by (rule stage_running [OF st])
  then have cp: "cur_process k = pid" by (simp add: running_def)
  have fd: "?fd = 3 \<or> ?fd = 4" "c_fd B = 3 \<or> c_fd B = 4" "?fd \<noteq> c_fd B" and cur: "currPid k = pid" "currFD k = 4"
    and pr: "present (fd_of k pid ?fd) = 0" "present (fd_of k pid (c_fd B)) = 0" and js: "jump_start_idx (fd_of k pid ?fd) = Some file_struct"
      "jump_start_idx (fd_of k pid (c_fd B)) = Some file_struct"
    and ino: "word_of_int (inode_number (fd_of k pid ?fd)) = inodeNum (c_dentry A)" and pos: "file_pos (fd_of k pid ?fd) = int qa"
    and rf: "regular_file k (c_dentry A) (c_text A)" and up: "?a \<in> upage" using st by (simp_all add: stage_def cursor_def)
  have p4: "present (fd_of k pid 4) \<noteq> -1" "jump_start_idx (fd_of k pid 4) = Some file_struct" using fd pr js by auto
  have a0: "?a \<noteq> 0" "?a \<noteq> -1" "unat ?a + 1 \<le> 2 ^ 32" using upage_unat [OF up] by (auto simp: unsigned_minus_1_eq_mask mask_eq_exp_minus_1)
  have rd: "ece391_read ?fd ?a 1 (e, k) = map_option (\<lambda>(n, k). (n, e, k)) (file_read ?fd ?a 1 k)"
    using ece391_read_eq [of ?fd ?a 1 e k] fd(1) a0 p4 cur by (auto simp: sys_read_def int32_def)
  let ?ino = "inodeNum (c_dentry A)" and ?eof = "word_of_nat (length (c_text A)) :: u32"
  obtain blk where b: "file_at (kvm k) k ?ino ?eof blk" "file_area k ?ino ?eof blk \<subseteq> kpage"
    "\<forall>i < length (c_text A). file_byte (kvm k) k ?ino i = Some (c_text A ! i)" and T: "?ino \<le> numinodes k" "length (c_text A) \<le> 4096 * 1023"
    using rf by (auto simp: regular_file_def)
  have u: "unat ?eof = length (c_text A)" using T(2) by (simp add: unat_word_of_nat_u32)
  have chunk: "(qa < length (c_text A) \<longrightarrow> (\<exists>v'. file_read ?fd ?a 1 k = Some (int n, upd_fd pid ?fd (?f (qa + n)) (set_vm v' k)) \<and>
        changes (region ?a n) (kvm k) v' \<and> (\<forall>i < n. ld8 v' (?a + word_of_nat i) = file_byte (kvm k) k ?ino (qa + i)))) \<and>
    (length (c_text A) \<le> qa \<longrightarrow> file_read ?fd ?a 1 k = Some (0, upd_fd pid ?fd (\<lambda>f. f\<lparr>file_pos := 0\<rparr>) k))"
    if q: "qa \<le> length (c_text A)" and n: "n = min 1 (length (c_text A) - qa)" for n
  proof -
    have n1: "region ?a n \<subseteq> upage" "unat ?a + n \<le> 2 ^ 32" using up a0(3) n by (auto simp: min_def region_Suc)
    have g: "0 \<le> ?fd" "file_at (kvm k) k ?ino ?eof blk" "qa < 2 ^ 31 - 4096" "(0 :: int) < 1" "(1 :: int) < 4096" "n = min (nat 1) (unat ?eof - qa)"
      "qa mod 4096 + n \<le> 4096" using fd(1) b(1) q T(2) n u by (auto simp: min_def intro: Suc_leI)
    from file_read_chunk [of ?fd "fd_of k pid ?fd" k ?eof blk qa 1 n ?a, unfolded cp ino u, OF g(1) refl g(2) T(1) pos g(3-5) _ g(7) user_dest [OF run n1 b(2)]] g(6) u
    show ?thesis by simp
  qed
  show "\<exists>k'. ece391_read ?fd ?a 1 (e, k) = Some (1, e, k') \<and> stage pid vb w con A (qa + 1) (c_text A ! qa) B qb xb k'" if q: "qa < length (c_text A)"
  proof -
    obtain v where v: "file_read ?fd ?a 1 k = Some (1, upd_fd pid ?fd (?f (qa + 1)) (set_vm v k))" "changes (region ?a 1) (kvm k) v"
      "ld8 v ?a = file_byte (kvm k) k ?ino qa" using chunk [OF less_imp_le [OF q], of 1] q by auto
    have "region ?a 1 = {?a}" by (simp add: region_Suc)
    then have "stage pid vb w con A qa (c_text A ! qa) B qb xb (set_vm v k)" using stage_changes [OF st] v(2,3) b(3) q by simp
    from stage_seek [OF this, of "qa + 1"] show ?thesis using rd v(1) by simp
  qed
  show "\<exists>k'. ece391_read ?fd ?a 1 (e, k) = Some (0, e, k') \<and> stage pid vb w con A 0 xa B qb xb k'" if "qa = length (c_text A)"
    using chunk [of 0] that rd stage_seek [OF st, of 0] by simp
qed

lemma stage_store:
  assumes st: "stage pid vb w con A qa xa B qb xb k"
  shows "\<exists>k'. store_byte (c_addr A) x (e, k) = Some (e, k') \<and> stage pid vb w con A qa x B qb xb k'"
proof -
  have "c_addr A \<in> upage" using st by (simp add: stage_def cursor_def)
  then obtain v where v: "store_byte (c_addr A) x (e, k) = Some (e, set_vm v k)" "st8 (kvm k) (c_addr A) x = Some v"
    using store_user [OF stage_running [OF st]] by blast
  have "ld8 v (c_addr A) = Some x" using ld8_st8 [OF v(2)] by simp
  then show ?thesis using v(1) stage_changes [OF st st8_changes [OF v(2)]] by blast
qed

lemma stage_load:
  assumes "stage pid vb w con A qa xa B qb xb k"
  shows "load_byte (c_addr A) (e, k) = Some xa" "load_byte (c_addr B) (e, k) = Some xb"
  using assms upage_memory(4) [OF stage_running [OF assms]] by (simp_all add: stage_def cursor_def load_byte_def)


section \<open>What the frames draw\<close>

text \<open>The operations of a program as a function on the list of blinking characters and the cells of the screen.\<close>

definition animate :: "blink_op list \<Rightarrow> mp1_blink_struct list \<times> cell list \<Rightarrow> mp1_blink_struct list \<times> cell list" where
  "animate cs = (\<lambda>(bs, cells). let (_, ps, bs) = list_ops cs bs in (bs, draw ps cells))"

definition cell_ops :: "mp1_blink_struct \<Rightarrow> int \<Rightarrow> int \<Rightarrow> u8 \<Rightarrow> u8 \<Rightarrow> blink_op list" where
  "cell_ops b0 row col c0 c1 =
     (if (c0 \<noteq> 0x20 \<and> c0 \<noteq> 10) \<or> (c1 \<noteq> 0x20 \<and> c1 \<noteq> 10) then [Ioctl (RTC_ADD (frame_blink b0 row col c0 c1))] else [])"

definition char_at :: "u8 list \<Rightarrow> nat \<Rightarrow> u8" where
  "char_at l i = (if i < length l then l ! i else 10)"

definition row_ops :: "mp1_blink_struct \<Rightarrow> int \<Rightarrow> nat \<Rightarrow> u8 list \<Rightarrow> u8 list \<Rightarrow> blink_op list" where
  "row_ops b0 row from l0 l1 = concat (map (\<lambda>col. cell_ops b0 row (int col) (char_at l0 col) (char_at l1 col)) [from..<max (length l0) (length l1)])"

fun frames_ops :: "mp1_blink_struct \<Rightarrow> int \<Rightarrow> u8 list list \<Rightarrow> u8 list list \<Rightarrow> blink_op list" where
  "frames_ops b0 row (l0 # ls0) (l1 # ls1) = row_ops b0 row 0 l0 l1 @ frames_ops b0 (row + 1) ls0 ls1"
| "frames_ops b0 row _ _ = []"

definition blinks :: "blink_state \<Rightarrow> mp1_blink_struct list \<Rightarrow> bool" where
  "blinks s bs \<longleftrightarrow> (\<exists>is. linked s is \<and> values_of s is = bs \<and> placed bs)"

lemma draw_append: "draw (ps @ qs) cells = draw qs (draw ps cells)"
  by (induction ps cells rule: draw.induct) (auto simp: Let_def)

lemma animate_Nil [simp]: "animate [] x = x"
  by (simp add: animate_def split: prod.split)

lemma list_ops_append:
  "list_ops (cs @ ds) bs = (let (rs, ps, bs) = list_ops cs bs; (rs', qs, bs) = list_ops ds bs in (rs @ rs', ps @ qs, bs))"
  by (induction cs arbitrary: bs) (auto simp: Let_def split: prod.split)

lemma animate_append: "animate (cs @ ds) x = animate ds (animate cs x)"
  by (auto simp: animate_def list_ops_append draw_append Let_def split: prod.split)

lemma canvas_ops:
  assumes "canvas pid vb w (cells, p) k" and "blinks s bs" and "\<forall>c \<in> set cs. op_ok c" and "animate cs (bs, cells) = (bs', cells')"
  shows "\<exists>rs s' k'. run_ops vb cs (s, e, k) = Some (rs, s', e, k') \<and> blinks s' bs' \<and> canvas pid vb w (cells', p) k' \<and>
    k' = k\<lparr>mach := mach k'\<rparr> \<and> changes screen_region (kvm k) (kvm k')"
proof -
  obtain "is" where l: "linked s is" "values_of s is = bs" "placed bs" using assms(2) by (auto simp: blinks_def)
  obtain rs ps where o: "list_ops cs bs = (rs, ps, bs')" "cells' = draw ps cells" using assms(4) by (auto simp: animate_def split: prod.splits)
  obtain s' is' k' where "run_ops vb cs (s, e, k) = Some (rs, s', e, k')" "linked s' is'" "values_of s' is' = bs'" "placed bs'"
    "canvas pid vb w (draw ps cells, p) k'" "k' = k\<lparr>mach := mach k'\<rparr>" "changes screen_region (kvm k) (kvm k')"
    using ops_draw [OF l(1) _ assms(3) _ assms(1), of rs ps bs' e] l(2,3) o(1) by auto
  then show ?thesis using o(2) by (auto simp: blinks_def)
qed

lemma run_ioctl: "run_ops vb [Ioctl c] f = Some (rs, f') \<Longrightarrow> map_option (\<lambda>(_, _, f). f) (mp1_ioctl vb c f) = Some f'"
  by (cases "mp1_ioctl vb c f") auto

lemma stage_ops:
  assumes st: "stage pid vb w (cells, p) A qa xa B qb xb k" and "blinks s bs" and "\<forall>c \<in> set cs. op_ok c" and "animate cs (bs, cells) = (bs', cells')"
  shows "\<exists>rs s' k'. run_ops vb cs (s, e, k) = Some (rs, s', e, k') \<and> blinks s' bs' \<and> stage pid vb w (cells', p) A qa xa B qb xb k'"
proof -
  have "canvas pid vb w (cells, p) k" using st by (simp add: stage_def)
  from canvas_ops [OF this assms(2-4), of e] show ?thesis using stage_screen [OF st] by blast
qed

text \<open>
  The state of one frame within a line: \<open>l\<close> is what is left of the line, \<open>rest\<close> what follows its
  newline, \<open>None\<close> for the last line.
\<close>

fun line_tail :: "u8 list option \<Rightarrow> u8 list" where
  "line_tail None = []"
| "line_tail (Some r) = 10 # r"

definition in_line :: "u8 list \<Rightarrow> nat \<Rightarrow> u8 \<Rightarrow> bool \<Rightarrow> u8 list \<Rightarrow> u8 list option \<Rightarrow> bool" where
  "in_line t q x eof l rest \<longleftrightarrow> 10 \<notin> set l \<and>
     (if x = 10 then l = [] \<and> (case rest of None \<Rightarrow> eof | Some r \<Rightarrow> \<not> eof \<and> q \<le> length t \<and> drop q t = r)
      else \<not> eof \<and> q \<le> length t \<and> drop q t = l @ line_tail rest)"

lemma drop_step: "drop q t = x # xs \<Longrightarrow> q < length t \<and> t ! q = x \<and> drop (Suc q) t = xs"
  by (metis Cons_nth_drop_Suc drop_eq_Nil linorder_not_le list.distinct(1) list.inject)

lemma frame_char_step:
  assumes st: "stage pid vb w con A qa xa B qb xb k" and i: "in_line (c_text A) qa xa eof (drop col l) rest" and l: "10 \<notin> set l"
  shows "\<exists>eof' q k'. frame_char (c_fd A) (c_addr A) eof (e, k) = Some (eof', e, k') \<and> stage pid vb w con A q (char_at l col) B qb xb k' \<and>
    in_line (c_text A) q (char_at l col) eof' (drop (Suc col) l) rest"
proof -
  note ld = stage_load(1) [OF st, of e]
  show ?thesis
  proof (cases "xa = 10")
    case True
    then have "drop col l = []" using i by (simp add: in_line_def)
    then show ?thesis using ld st i True by (intro exI [of _ eof] exI [of _ qa] exI [of _ k]) (simp add: frame_char_def char_at_def)
  next
    case x: False
    then have q: "\<not> eof" "qa \<le> length (c_text A)" "drop qa (c_text A) = drop col l @ line_tail rest" using i by (simp_all add: in_line_def)
    show ?thesis
    proof (cases "col < length l")
      case True
      then have d: "drop col l = l ! col # drop (Suc col) l" by (rule Cons_nth_drop_Suc [symmetric])
      then have t: "qa < length (c_text A)" "c_text A ! qa = l ! col" "drop (Suc qa) (c_text A) = drop (Suc col) l @ line_tail rest"
        using drop_step [of qa "c_text A"] q(3) by auto
      have c: "l ! col \<noteq> 10" "10 \<notin> set (drop (Suc col) l)" using l nth_mem [OF True] in_set_dropD [of 10 "Suc col" l] by metis+
      obtain k' where "ece391_read (c_fd A) (c_addr A) 1 (e, k) = Some (1, e, k')" "stage pid vb w con A (qa + 1) (c_text A ! qa) B qb xb k'"
        using stage_read(1) [OF st t(1), of e] by blast
      then show ?thesis using ld x t c q(1) True
        by (intro exI [of _ eof] exI [of _ "qa + 1"] exI [of _ k']) (simp add: frame_char_def char_at_def in_line_def)
    next
      case False
      then have c: "char_at l col = 10" "drop col l = []" "drop (Suc col) l = []" by (simp_all add: char_at_def)
      show ?thesis
      proof (cases rest)
        case None
        then have "qa = length (c_text A)" using q(2,3) c(2) by simp
        then obtain k1 where k1: "ece391_read (c_fd A) (c_addr A) 1 (e, k) = Some (0, e, k1)" "stage pid vb w con A 0 xa B qb xb k1"
          using stage_read(2) [OF st, of e] by blast
        obtain k' where "store_byte (c_addr A) 10 (e, k1) = Some (e, k')" "stage pid vb w con A 0 10 B qb xb k'"
          using stage_store [OF k1(2), of 10 e] by blast
        then show ?thesis using ld x k1(1) c None by (intro exI [of _ True] exI [of _ 0] exI [of _ k']) (simp add: frame_char_def in_line_def)
      next
        case (Some r)
        then have t: "qa < length (c_text A)" "c_text A ! qa = 10" "drop (Suc qa) (c_text A) = r"
          using drop_step [of qa "c_text A" 10 r] q(3) c(2) by auto
        obtain k' where "ece391_read (c_fd A) (c_addr A) 1 (e, k) = Some (1, e, k')" "stage pid vb w con A (qa + 1) (c_text A ! qa) B qb xb k'"
          using stage_read(1) [OF st t(1), of e] by blast
        then show ?thesis using ld x t c q(1) Some
          by (intro exI [of _ eof] exI [of _ "qa + 1"] exI [of _ k']) (simp add: frame_char_def in_line_def)
      qed
    qed
  qed
qed


lemma row_ops_step:
  "row_ops b0 row col l0 l1 =
     (if col < length l0 \<or> col < length l1 then cell_ops b0 row (int col) (char_at l0 col) (char_at l1 col) @ row_ops b0 row (Suc col) l0 l1 else [])"
  by (auto simp: row_ops_def upt_rec [of col] less_max_iff_disj)

lemma char_at_end: "10 \<notin> set l \<Longrightarrow> char_at l i = 10 \<longleftrightarrow> length l \<le> i"
  by (auto simp: char_at_def in_set_conv_nth)

lemma frame_row_draws:
  fixes e :: "'e sysenv"
  assumes "stage pid vb w (cells, p) A qa xa B qb xb k" and "in_line (c_text A) qa xa eof0 (drop col l0) r0" and "in_line (c_text B) qb xb eof1 (drop col l1) r1"
    and "10 \<notin> set l0" and "10 \<notin> set l1" and "blinks s bs" and "\<forall>c \<in> set (row_ops b0 row col l0 l1). op_ok c"
    and "animate (row_ops b0 row col l0 l1) (bs, cells) = (bs', cells')"
  shows "\<exists>eof0' eof1' qa' qb' s' k'. frame_row vb b0 (c_fd A) (c_addr A) (c_fd B) (c_addr B) row (int col) eof0 eof1 (s, e, k) = Some (eof0', eof1', s', e, k') \<and>
    stage pid vb w (cells', p) A qa' 10 B qb' 10 k' \<and> in_line (c_text A) qa' 10 eof0' [] r0 \<and> in_line (c_text B) qb' 10 eof1' [] r1 \<and> blinks s' bs'"
  using assms
proof (induction "max (length l0) (length l1) - col" arbitrary: col cells qa xa eof0 qb xb eof1 k s bs rule: less_induct)
  case (less col)
  note n0 = less.prems(4) and n1 = less.prems(5)
  let ?c0 = "char_at l0 col" and ?c1 = "char_at l1 col"
  obtain eof0' qa' k1 where k1: "frame_char (c_fd A) (c_addr A) eof0 (e, k) = Some (eof0', e, k1)"
    "stage pid vb w (cells, p) A qa' ?c0 B qb xb k1" "in_line (c_text A) qa' ?c0 eof0' (drop (Suc col) l0) r0"
    using frame_char_step [OF less.prems(1,2) n0, of e] by blast
  obtain eof1' qb' k2 where k2: "frame_char (c_fd B) (c_addr B) eof1 (e, k1) = Some (eof1', e, k2)"
    "stage pid vb w (cells, p) B qb' ?c1 A qa' ?c0 k2" "in_line (c_text B) qb' ?c1 eof1' (drop (Suc col) l1) r1"
    using frame_char_step [OF iffD1 [OF stage_swap k1(2)] less.prems(3) n1, of e] by blast
  note st = iffD1 [OF stage_swap k2(2)] and ld = stage_load [OF k2(2), of e]
  show ?case
  proof (cases "?c0 = 10 \<and> ?c1 = 10")
    case True
    then have c: "length l0 \<le> col" "length l1 \<le> col" using char_at_end [OF n0] char_at_end [OF n1] by auto
    then have "row_ops b0 row col l0 l1 = []" by (simp add: row_ops_step [of b0 row col])
    then have "bs' = bs" "cells' = cells" using less.prems(8) by simp_all
    then show ?thesis using True c k1(1,3) k2(1,3) st ld less.prems(6)
      by (intro exI [of _ eof0'] exI [of _ eof1'] exI [of _ qa'] exI [of _ qb'] exI [of _ s] exI [of _ k2]) (simp add: frame_row.simps)
  next
    case False
    then have c: "col < length l0 \<or> col < length l1" using char_at_end [OF n0, of col] char_at_end [OF n1, of col] by auto
    let ?cs = "cell_ops b0 row (int col) ?c0 ?c1" and ?ds = "row_ops b0 row (Suc col) l0 l1"
    have ro: "row_ops b0 row col l0 l1 = ?cs @ ?ds" using c by (subst row_ops_step) simp
    obtain bs1 cells1 where a: "animate ?cs (bs, cells) = (bs1, cells1)" by (cases "animate ?cs (bs, cells)")
    have a2: "animate ?ds (bs1, cells1) = (bs', cells')" using less.prems(8) ro a by (simp add: animate_append)
    have ok: "\<forall>c \<in> set ?cs. op_ok c" "\<forall>c \<in> set ?ds. op_ok c" using less.prems(7) ro by auto
    obtain rs s1 k3 where k3: "run_ops vb ?cs (s, e, k2) = Some (rs, s1, e, k3)" "blinks s1 bs1" "stage pid vb w (cells1, p) A qa' ?c0 B qb' ?c1 k3"
      using stage_ops [OF st less.prems(6) ok(1) a, of e] by blast
    have add: "(if (?c0 \<noteq> 0x20 \<and> ?c0 \<noteq> 10) \<or> (?c1 \<noteq> 0x20 \<and> ?c1 \<noteq> 10)
        then map_option (\<lambda>(_, _, f). f) (mp1_ioctl vb (RTC_ADD (frame_blink b0 row (int col) ?c0 ?c1)) (s, e, k2)) else Some (s, e, k2)) = Some (s1, e, k3)"
      using k3(1) run_ioctl [of vb "RTC_ADD (frame_blink b0 row (int col) ?c0 ?c1)" "(s, e, k2)"] by (auto simp: cell_ops_def split: if_splits)
    have sm: "max (length l0) (length l1) - Suc col < max (length l0) (length l1) - col" using c by auto
    obtain e0 e1 qa'' qb'' s' k' where r: "frame_row vb b0 (c_fd A) (c_addr A) (c_fd B) (c_addr B) row (int (Suc col)) eof0' eof1' (s1, e, k3) = Some (e0, e1, s', e, k')"
      "stage pid vb w (cells', p) A qa'' 10 B qb'' 10 k'" "in_line (c_text A) qa'' 10 e0 [] r0" "in_line (c_text B) qb'' 10 e1 [] r1" "blinks s' bs'"
      using less.hyps [OF sm k3(3) k1(3) k2(3) n0 n1 k3(2) ok(2) a2] by blast
    have "frame_row vb b0 (c_fd A) (c_addr A) (c_fd B) (c_addr B) row (int col) eof0 eof1 (s, e, k) = Some (e0, e1, s', e, k')"
      using r(1) by (subst frame_row.simps) (simp only: k1(1) k2(1) ld add False if_False fst_conv snd_conv bind.bind_lunit prod.case int_Suc)
    then show ?thesis using r(2-5) by blast
  qed
qed


section \<open>All lines of the frames\<close>

lemma split_lines_cases:
  "\<exists>l rest. 10 \<notin> set l \<and> t = l @ line_tail rest \<and> split_lines t = l # (case rest of None \<Rightarrow> [] | Some r \<Rightarrow> split_lines r)"
proof (cases "10 \<in> set t")
  case True
  then obtain l r where "t = l @ 10 # r" "10 \<notin> set l" by (meson split_list_first)
  then show ?thesis using split_lines_line by (intro exI [of _ l] exI [of _ "Some r"]) simp
next
  case False
  then show ?thesis using split_lines_plain by (intro exI [of _ t] exI [of _ None]) simp
qed

text \<open>After the frames are read the current descriptor is again that of the clock.\<close>

definition clocked :: "int \<Rightarrow> addr \<Rightarrow> addr \<Rightarrow> console \<Rightarrow> kernel \<Rightarrow> bool" where
  "clocked pid vb w con k \<longleftrightarrow> canvas pid vb w con k \<and> currPid k = pid \<and> currFD k = 2 \<and> rtc_open_at pid 2 k"

lemma frame_line_next:
  assumes st: "stage pid vb w con A qa 10 B qb 10 k"
  shows "\<exists>k'. do { u \<leftarrow> frame_line_end (c_fd A) (c_addr A) False (e, k); frame_line_end (c_fd B) (c_addr B) False u } = Some (e, k') \<and>
    stage pid vb w con A qa 0x30 B qb 0x30 k'"
proof -
  obtain k1 where k1: "store_byte (c_addr A) 0x30 (e, k) = Some (e, k1)" "stage pid vb w con A qa 0x30 B qb 10 k1" using stage_store [OF st, of "0x30" e] by blast
  obtain k2 where k2: "store_byte (c_addr B) 0x30 (e, k1) = Some (e, k2)" "stage pid vb w con B qb 0x30 A qa 0x30 k2"
    using stage_store [OF iffD1 [OF stage_swap k1(2)], of "0x30" e] by blast
  then show ?thesis using k1(1) iffD1 [OF stage_swap k2(2)] by (simp add: frame_line_end_def)
qed

lemma frames_close:
  assumes st: "stage pid vb w con A qa 10 B qb 10 k" and fd: "c_fd A = 3" "c_fd B = 4"
  shows "\<exists>k'. do { u \<leftarrow> frame_line_end (c_fd A) (c_addr A) True (e, k); frame_line_end (c_fd B) (c_addr B) True u } = Some (e, k') \<and>
    clocked pid vb w con k'"
proof -
  obtain k1 where k1: "store_byte (c_addr A) 10 (e, k) = Some (e, k1)" "stage pid vb w con A qa 10 B qb 10 k1" using stage_store [OF st, of 10 e] by blast
  define k2 where "k2 = (upd_fd pid 3 (\<lambda>f. f\<lparr>present := -1\<rparr>) k1)\<lparr>currFD := currFD k1 - 1\<rparr>"
  have r1: "running pid k1" by (rule stage_running [OF k1(2)])
  have F: "present (fd_of k1 pid 3) = 0" "present (fd_of k1 pid 4) = 0" "currFD k1 = 4" "currPid k1 = pid" "canvas pid vb w con k1"
    "rtc_open_at pid 2 k1" "c_addr B \<in> upage" "c_addr B \<notin> region vb 4" using k1(2) fd by (simp_all add: stage_def cursor_def)
  have c1: "ece391_close 3 (e, k1) = Some (0, e, k2)" using close_user [of k1 pid 3 e] r1 F(1) by (simp add: k2_def running_def)
  have cv2: "canvas pid vb w con k2" using F(5) by (simp add: canvas_def k2_def running_def)
  have r2: "running pid k2" using cv2 by (simp add: canvas_def)
  obtain v where v: "store_byte (c_addr B) 10 (e, k2) = Some (e, set_vm v k2)" "st8 (kvm k2) (c_addr B) 10 = Some v" using store_user [OF r2 F(7)] by blast
  have cv3: "canvas pid vb w con (set_vm v k2)" by (rule canvas_changes [OF cv2 st8_changes [OF v(2)]]) (use F(7,8) in auto)
  then have r3: "running pid (set_vm v k2)" by (simp add: canvas_def)
  let ?k = "(upd_fd pid 4 (\<lambda>f. f\<lparr>present := -1\<rparr>) (set_vm v k2))\<lparr>currFD := currFD (set_vm v k2) - 1\<rparr>"
  have c2: "ece391_close 4 (e, set_vm v k2) = Some (0, e, ?k)" using close_user [of "set_vm v k2" pid 4 e] r3 F(2) by (simp add: k2_def running_def)
  have "canvas pid vb w con ?k" using cv3 by (simp add: canvas_def running_def)
  then have "clocked pid vb w con ?k" using F(3,4,6) by (simp add: clocked_def k2_def rtc_open_at_def)
  then show ?thesis using k1(1) c1 v(1) c2 fd by (intro exI [of _ ?k]) (simp add: frame_line_end_def)
qed

lemma frame_rows_draws:
  fixes e :: "'e sysenv"
  assumes "stage pid vb w (cells, p) A qa 0x30 B qb 0x30 k" and "c_fd A = 3" and "c_fd B = 4" and "qa \<le> length (c_text A)" and "qb \<le> length (c_text B)"
    and "length (split_lines (drop qa (c_text A))) = length (split_lines (drop qb (c_text B)))" and "blinks s bs"
    and "\<forall>c \<in> set (frames_ops b0 row (split_lines (drop qa (c_text A))) (split_lines (drop qb (c_text B)))). op_ok c"
    and "animate (frames_ops b0 row (split_lines (drop qa (c_text A))) (split_lines (drop qb (c_text B)))) (bs, cells) = (bs', cells')"
  shows "\<exists>s' k'. frame_rows vb b0 (c_fd A) (c_addr A) (c_fd B) (c_addr B) row False False (s, e, k) = Some (s', e, k') \<and>
    clocked pid vb w (cells', p) k' \<and> blinks s' bs'"
  using assms
proof (induction "length (split_lines (drop qa (c_text A)))" arbitrary: qa qb row cells k s bs)
  case 0
  then show ?case by simp
next
  case (Suc n)
  obtain l0 r0 where l0: "10 \<notin> set l0" "drop qa (c_text A) = l0 @ line_tail r0"
    "split_lines (drop qa (c_text A)) = l0 # (case r0 of None \<Rightarrow> [] | Some r \<Rightarrow> split_lines r)" using split_lines_cases [of "drop qa (c_text A)"] by blast
  obtain l1 r1 where l1: "10 \<notin> set l1" "drop qb (c_text B) = l1 @ line_tail r1"
    "split_lines (drop qb (c_text B)) = l1 # (case r1 of None \<Rightarrow> [] | Some r \<Rightarrow> split_lines r)" using split_lines_cases [of "drop qb (c_text B)"] by blast
  let ?ls0 = "case r0 of None \<Rightarrow> [] | Some r \<Rightarrow> split_lines r" and ?ls1 = "case r1 of None \<Rightarrow> [] | Some r \<Rightarrow> split_lines r"
  let ?cs = "row_ops b0 row 0 l0 l1" and ?ds = "frames_ops b0 (row + 1) ?ls0 ?ls1"
  have fo: "frames_ops b0 row (split_lines (drop qa (c_text A))) (split_lines (drop qb (c_text B))) = ?cs @ ?ds" using l0(3) l1(3) by simp
  obtain bs1 cells1 where a: "animate ?cs (bs, cells) = (bs1, cells1)" by (cases "animate ?cs (bs, cells)")
  have a2: "animate ?ds (bs1, cells1) = (bs', cells')" using Suc.prems(9) a unfolding fo by (simp add: animate_append)
  have ok: "\<forall>c \<in> set ?cs. op_ok c" "\<forall>c \<in> set ?ds. op_ok c" using Suc.prems(8) unfolding fo by auto
  have i: "in_line (c_text A) qa 0x30 False (drop 0 l0) r0" "in_line (c_text B) qb 0x30 False (drop 0 l1) r1"
    using l0 l1 Suc.prems(4,5) by (simp_all add: in_line_def)
  obtain e0 e1 qa' qb' s1 k1 where k1: "frame_row vb b0 (c_fd A) (c_addr A) (c_fd B) (c_addr B) row (int 0) False False (s, e, k) = Some (e0, e1, s1, e, k1)"
    "stage pid vb w (cells1, p) A qa' 10 B qb' 10 k1" "in_line (c_text A) qa' 10 e0 [] r0" "in_line (c_text B) qb' 10 e1 [] r1" "blinks s1 bs1"
    using frame_row_draws [OF Suc.prems(1) i l0(1) l1(1) Suc.prems(7) ok(1) a, of e] by blast
  have len: "length ?ls0 = length ?ls1" "n = length ?ls0" using Suc.prems(6) Suc.hyps(2) l0(3) l1(3) by simp_all
  show ?case
  proof (cases r0)
    case None
    then have r1: "r1 = None" using len(1) by (cases r1) auto
    then have e: "e0" "e1" using None k1(3,4) by (simp_all add: in_line_def)
    have "bs' = bs1" "cells' = cells1" using a2 None by simp_all
    moreover obtain k2 where "do { u \<leftarrow> frame_line_end (c_fd A) (c_addr A) True (e, k1); frame_line_end (c_fd B) (c_addr B) True u } = Some (e, k2)"
      "clocked pid vb w (cells1, p) k2" using frames_close [OF k1(2) Suc.prems(2,3), of e] by blast
    ultimately show ?thesis using k1(1,5) e
      by (intro exI [of _ s1] exI [of _ k2]) (subst frame_rows.simps, auto simp: frame_rows.simps [of _ _ _ _ _ _ _ True] split: Option.bind_splits)
  next
    case (Some t0)
    then obtain t1 where t1: "r1 = Some t1" using len(1) by (cases r1) auto
    have q: "\<not> e0" "qa' \<le> length (c_text A)" "drop qa' (c_text A) = t0" "\<not> e1" "qb' \<le> length (c_text B)" "drop qb' (c_text B) = t1"
      using Some t1 k1(3,4) by (simp_all add: in_line_def)
    obtain k2 where k2: "do { u \<leftarrow> frame_line_end (c_fd A) (c_addr A) False (e, k1); frame_line_end (c_fd B) (c_addr B) False u } = Some (e, k2)"
      "stage pid vb w (cells1, p) A qa' 0x30 B qb' 0x30 k2" using frame_line_next [OF k1(2), of e] by blast
    obtain s' k' where "frame_rows vb b0 (c_fd A) (c_addr A) (c_fd B) (c_addr B) (row + 1) False False (s1, e, k2) = Some (s', e, k')"
      "clocked pid vb w (cells', p) k'" "blinks s' bs'"
      using Suc.hyps(1) [OF _ k2(2) Suc.prems(2,3) q(2,5) _ k1(5), of "row + 1"] len ok(2) a2 Some t1 q(3,6) by auto
    then show ?thesis using k1(1) k2(1) q(1,4)
      by (intro exI [of _ s'] exI [of _ k']) (subst frame_rows.simps, auto split: Option.bind_splits)
  qed
qed


section \<open>Opening the frames\<close>

text \<open>The string at \<open>a\<close>, outside \<open>A\<close>, is the name of the directory entry \<open>d\<close>.\<close>

definition names :: "addr set \<Rightarrow> addr \<Rightarrow> dentry_t \<Rightarrow> kernel \<Rightarrow> bool" where
  "names A a d k \<longleftrightarrow> (\<exists>cs ds. cs \<noteq> [] \<and> cstring (kvm k) a cs \<and> region a (Suc (length cs)) \<subseteq> upage - A \<and>
     directory (kvm k) (startdentry k) = Some ds \<and> region (startdentry k) 4096 \<subseteq> kpage \<and> find (\<lambda>d. entry_name (dname d) = take 32 cs) ds = Some d)"

definition opened_at :: "int \<Rightarrow> int \<Rightarrow> dentry_t \<Rightarrow> kernel \<Rightarrow> kernel" where
  "opened_at pid fd d k = (upd_fd pid fd (opened d) (k\<lparr>currDentry := d\<rparr>))\<lparr>currFD := fd, currPid := pid\<rparr>"

lemma opened_at_fields [simp]:
  "mach (opened_at pid fd d k) = mach k" "start_addr (opened_at pid fd d k) = start_addr k" "numinodes (opened_at pid fd d k) = numinodes k"
  "startdentry (opened_at pid fd d k) = startdentry k" "currFD (opened_at pid fd d k) = fd" "currPid (opened_at pid fd d k) = pid"
  "fd_of (opened_at pid fd d k) pid fd' = (if fd' = fd then opened d (fd_of k pid fd) else fd_of k pid fd')"
  "running p (opened_at pid fd d k) = running p k" "canvas p vb w con (opened_at pid fd d k) = canvas p vb w con k"
  by (simp_all add: opened_at_def running_def canvas_def)

lemma names_leaves:
  assumes "names A a d k" and "leaves B k k'" and "B \<subseteq> A" and "startdentry k' = startdentry k"
  shows "names A a d k'"
proof -
  obtain cs ds where c: "cs \<noteq> []" "cstring (kvm k) a cs" "region a (Suc (length cs)) \<subseteq> upage - A" "directory (kvm k) (startdentry k) = Some ds"
    "region (startdentry k) 4096 \<subseteq> kpage" "find (\<lambda>d. entry_name (dname d) = take 32 cs) ds = Some d" using assms(1) unfolding names_def by blast
  have ag: "agree (kpage \<union> (upage - B)) (kvm k) (kvm k')" using assms(2) by (simp add: leaves_def)
  have "cstring (kvm k') a cs" using c(2) ld_bytes_agree [OF agree_mono [OF ag], of a "Suc (length cs)"] c(3) assms(3) by (auto simp: cstring_def)
  moreover have "directory (kvm k') (startdentry k) = Some ds" using c(4) directory_agree [OF agree_mono [OF ag]] c(5) by (simp add: le_supI1)
  ultimately show ?thesis unfolding names_def using c assms(4) by (intro exI [of _ cs] exI [of _ ds]) simp
qed

lemma open_named:
  assumes "names A a d k" and "running pid k" and "fst (get_fdAvail pid k) = fd" and "fd \<noteq> -1"
  shows "ece391_open a (e, k) = Some (fd, e, opened_at pid fd d k)"
proof -
  obtain cs ds where c: "cs \<noteq> []" "cstring (kvm k) a cs" "directory (kvm k) (startdentry k) = Some ds"
    "find (\<lambda>d. entry_name (dname d) = take 32 cs) ds = Some d" using assms(1) unfolding names_def by blast
  obtain x xs where "cs = x # xs" using c(1) by (cases cs) auto
  then have "ld8 (kvm k) a = Some x" "x \<noteq> 0" using cstring_Cons [of "kvm k" a x xs] c(2) by simp_all
  from open_user [OF c(3,4) cstring_reads [OF c(2)] this, of fd e] show ?thesis using assms(2-4) by (simp add: opened_at_def running_def)
qed

text \<open>What \<open>add_frames\<close> needs: the frames \<open>t0\<close> and \<open>t1\<close> are files, and the descriptors 3 and 4 are free.\<close>

definition frames_ready :: "int \<Rightarrow> addr \<Rightarrow> addr \<Rightarrow> addr \<Rightarrow> addr \<Rightarrow> addr \<Rightarrow> u8 list \<Rightarrow> u8 list \<Rightarrow> kernel \<Rightarrow> bool" where
  "frames_ready pid vb f0 f1 pc0 pc1 t0 t1 k \<longleftrightarrow> pc0 \<in> upage - region vb 4 \<and> pc1 \<in> upage - region vb 4 \<and> pc0 \<noteq> pc1 \<and>
     (\<exists>d0. names (region vb 4 \<union> {pc0, pc1}) f0 d0 k \<and> regular_file k d0 t0) \<and> (\<exists>d1. names (region vb 4 \<union> {pc0, pc1}) f1 d1 k \<and> regular_file k d1 t1) \<and>
     present (fd_of k pid 3) = -1 \<and> file_pos (fd_of k pid 3) = 0 \<and> present (fd_of k pid 4) = -1 \<and> file_pos (fd_of k pid 4) = 0"

lemma leaves_regular: "leaves A k k' \<Longrightarrow> regular_file k d t \<Longrightarrow> regular_file k' d t"
  unfolding leaves_def using regular_file_agree [of k d t k'] by (auto intro: agree_mono)

lemma frames_ready_leaves:
  assumes "frames_ready pid vb f0 f1 pc0 pc1 t0 t1 k" and "leaves (region vb 4) k k'" and "startdentry k' = startdentry k"
    and "fd_of k' pid 3 = fd_of k pid 3" and "fd_of k' pid 4 = fd_of k pid 4"
  shows "frames_ready pid vb f0 f1 pc0 pc1 t0 t1 k'"
  using assms(1) names_leaves [OF _ assms(2) Un_upper1 assms(3)] leaves_regular [OF assms(2)] unfolding frames_ready_def assms(4,5) by blast

lemma canvas_store:
  assumes cv: "canvas pid vb w con k" and a: "a \<in> upage - region vb 4"
  shows "\<exists>v. store_byte a x (e, k) = Some (e, set_vm v k) \<and> canvas pid vb w con (set_vm v k) \<and> leaves {a} k (set_vm v k) \<and> ld8 v a = Some x"
proof -
  have run: "running pid k" using cv by (simp add: canvas_def)
  obtain v where v: "store_byte a x (e, k) = Some (e, set_vm v k)" "st8 (kvm k) a x = Some v" using store_user [OF run] a by blast
  have "canvas pid vb w con (set_vm v k)" by (rule canvas_changes [OF cv st8_changes [OF v(2)]]) (use a in auto)
  moreover have "leaves {a} k (set_vm v k)" by (rule leaves_changes [OF run]) (use a st8_changes [OF v(2)] in auto)
  ultimately show ?thesis using v(1) ld8_st8 [OF v(2)] by auto
qed

lemma add_frames_draws:
  assumes cv: "canvas pid vb w (cells, p) k" and rtc: "rtc_open_at pid 2 k" and fr: "frames_ready pid vb f0 f1 pc0 pc1 t0 t1 k"
    and len: "length (split_lines t0) = length (split_lines t1)" and bl: "blinks s bs"
    and ok: "\<forall>c \<in> set (frames_ops b0 0 (split_lines t0) (split_lines t1)). op_ok c"
    and an: "animate (frames_ops b0 0 (split_lines t0) (split_lines t1)) (bs, cells) = (bs', cells')"
  shows "\<exists>s' k'. add_frames vb b0 f0 f1 pc0 pc1 (s, e, k) = Some (s', e, k') \<and> clocked pid vb w (cells', p) k' \<and> blinks s' bs'"
proof -
  have pc: "pc0 \<in> upage - region vb 4" "pc1 \<in> upage - region vb 4" "pc0 \<noteq> pc1" and fd: "present (fd_of k pid 3) = -1" "file_pos (fd_of k pid 3) = 0"
    "present (fd_of k pid 4) = -1" "file_pos (fd_of k pid 4) = 0" using fr by (simp_all add: frames_ready_def)
  obtain d0 d1 where d: "names (region vb 4 \<union> {pc0, pc1}) f0 d0 k" "regular_file k d0 t0" "names (region vb 4 \<union> {pc0, pc1}) f1 d1 k" "regular_file k d1 t1"
    using fr by (auto simp: frames_ready_def)
  obtain v1 where v1: "store_byte pc0 0x30 (e, k) = Some (e, set_vm v1 k)" "canvas pid vb w (cells, p) (set_vm v1 k)" "leaves {pc0} k (set_vm v1 k)"
    "ld8 v1 pc0 = Some 0x30" using canvas_store [OF cv pc(1), of "0x30" e] by blast
  obtain v2 where v2: "store_byte pc1 0x30 (e, set_vm v1 k) = Some (e, set_vm v2 (set_vm v1 k))" "canvas pid vb w (cells, p) (set_vm v2 (set_vm v1 k))"
    "leaves {pc1} (set_vm v1 k) (set_vm v2 (set_vm v1 k))" "ld8 v2 pc1 = Some 0x30" using canvas_store [OF v1(2) pc(2), of "0x30" e] by blast
  define k2 where "k2 = set_vm v2 (set_vm v1 k)"
  define k3 where "k3 = opened_at pid 3 d0 k2"
  define k4 where "k4 = opened_at pid 4 d1 k3"
  have x0: "ld8 v2 pc0 = Some 0x30" using v1(4) v2(3) pc by (auto simp: leaves_def agree_def)
  have k2: "fd_of k2 pid = fd_of k pid" "kvm k2 = v2" "startdentry k2 = startdentry k" "canvas pid vb w (cells, p) k2"
    using v2(2) by (simp_all add: k2_def fun_eq_iff)
  have run: "running pid k2" using k2(4) by (simp add: canvas_def)
  have l2: "leaves {pc0, pc1} k k2" using leaves_trans [OF v1(3) v2(3)] by (simp add: k2_def insert_commute)
  have l4: "leaves {} k2 k4" "leaves {} k2 k3" by (simp_all add: k4_def k3_def leaves_def agree_def)
  have nm: "names (region vb 4 \<union> {pc0, pc1}) f0 d0 k2" "names (region vb 4 \<union> {pc0, pc1}) f1 d1 k3"
    using names_leaves [OF d(1) l2] names_leaves [OF d(3) leaves_trans [OF l2 l4(2)]] k2(3) by (simp_all add: k3_def)
  have "present (fd_of k pid 2) \<noteq> -1" using rtc by (simp add: rtc_open_at_def)
  then have av: "fst (get_fdAvail pid k2) = 3" "fst (get_fdAvail pid k3) = 4"
    using fd by (simp_all add: get_fdAvail_def eval_nat_numeral k3_def k2(1) opened_def)
  have o: "ece391_open f0 (e, k2) = Some (3, e, k3)" "ece391_open f1 (e, k3) = Some (4, e, k4)"
    using open_named [OF nm(1) run av(1), of e] open_named [OF nm(2) _ av(2), of e] run by (simp_all add: k3_def k4_def)
  define A where "A = \<lparr>c_fd = 3, c_dentry = d0, c_text = t0, c_addr = pc0\<rparr>"
  define B where "B = \<lparr>c_fd = 4, c_dentry = d1, c_text = t1, c_addr = pc1\<rparr>"
  have rf: "regular_file k4 d0 t0" "regular_file k4 d1 t1" using leaves_regular [OF leaves_trans [OF l2 l4(1)]] d(2,4) by blast+
  then have ft: "fileType d0 = 2" "fileType d1 = 2" by (simp_all add: regular_file_def)
  have "stage pid vb w (cells, p) A 0 0x30 B 0 0x30 k4"
    using rf ft fd pc k2 x0 v2(4) rtc by (simp add: stage_def cursor_def A_def B_def k4_def k3_def opened_def fop_of_type_def rtc_open_at_def)
  from frame_rows_draws [OF this _ _ _ _ _ bl, of b0 0 bs' cells' e] obtain s' k' where
    "frame_rows vb b0 3 pc0 4 pc1 0 False False (s, e, k4) = Some (s', e, k')" "clocked pid vb w (cells', p) k'" "blinks s' bs'"
    using len ok an by (auto simp: A_def B_def)
  then show ?thesis using v1(1) v2(1) o by (simp add: add_frames_def k2_def)
qed


section \<open>The program\<close>

lemma store_word_user:
  assumes run: "running pid k" and a: "region a 4 \<subseteq> upage"
  shows "\<exists>v. store_word a x (e, k) = Some (e, set_vm v k) \<and> changes (region a 4) (kvm k) v \<and> ld32 v a = Some x"
proof -
  have len: "length (bytes_of_word x) = 4" by (simp add: bytes_of_word_def)
  obtain v where v: "st_bytes (kvm k) a (bytes_of_word x) = Some v" "ld_bytes v a 4 = Some (bytes_of_word x)"
    using st_bytes_mapped [of "kvm k" a "bytes_of_word x"] mapped_subset [OF upage_memory(1) [OF run] a] len by auto
  have ua: "user_access v' b" if "same_map (kvm k) v'" "b \<in> upage" for v' b
    using user_access_upage [of "kvm k" pid b] run that user_access_same_map by (simp add: running_def)
  have sto: "store_byte b y (e, set_vm v' k) = map_option (\<lambda>v. (e, set_vm v k)) (st8 v' b y)" if "same_map (kvm k) v'" "b \<in> upage" for v' b y
    using ua [OF that] by (simp add: store_byte_def on_vm_def ust8_def set_vm_def option.map_comp comp_def)
  note u = upage_word [OF a]
  have k0: "(e, k) = (e, set_vm (kvm k) k)" by (simp add: set_vm_def)
  obtain v1 v2 v3 where s: "st8 (kvm k) a (bytes_of_word x ! 0) = Some v1" "st8 v1 (a + 1) (bytes_of_word x ! 1) = Some v2"
    "st8 v2 (a + 2) (bytes_of_word x ! 2) = Some v3" "st8 v3 (a + 3) (bytes_of_word x ! 3) = Some v"
    using v(1) by (auto simp: bytes_of_word_def add.assoc split: Option.bind_splits)
  have m: "same_map (kvm k) v1" "same_map (kvm k) v2" "same_map (kvm k) v3"
    using same_map_trans [OF same_map_trans] st8_same_map [OF s(1)] st8_same_map [OF s(2)] st8_same_map [OF s(3)] same_map_trans by blast+
  have "store_word a x (e, k) = Some (e, set_vm v k)"
    unfolding store_word_def using s sto [OF _ conjunct1 [OF u], of "kvm k"] sto [OF m(1)] sto [OF m(2)] sto [OF m(3)] u
    by (subst k0) (simp add: same_map_def)
  then show ?thesis using st_bytes_changes [OF v(1)] ld32_of_bytes [OF v(2)] len by auto
qed

lemma canvas_mach:
  assumes "canvas pid vb w con k" and "vm m = kvm k" and "screen_x m = screen_x (mach k)" and "screen_y m = screen_y (mach k)"
  shows "canvas pid vb w con (k\<lparr>mach := m\<rparr>)"
  using assms by (simp add: canvas_def running_def displays_def cursor_ok_def)

lemma clocked_store_word:
  assumes c: "clocked pid vb w con k" and a: "region a 4 \<subseteq> upage - region vb 4"
  shows "\<exists>k'. store_word a x (e, k) = Some (e, k') \<and> clocked pid vb w con k' \<and> ld32 (kvm k') a = Some x"
proof -
  have cv: "canvas pid vb w con k" and run: "running pid k" using c by (simp_all add: clocked_def canvas_def)
  obtain v where "store_word a x (e, k) = Some (e, set_vm v k)" "changes (region a 4) (kvm k) v" "ld32 v a = Some x"
    using store_word_user [OF run, of a x e] a by blast
  then show ?thesis using canvas_changes [OF cv _ a] c by (intro exI [of _ "set_vm v k"]) (simp add: clocked_def rtc_open_at_def)
qed

text \<open>The clock is descriptor 2, the one the calls use.\<close>

definition on_clock :: "int \<Rightarrow> kernel \<Rightarrow> bool" where
  "on_clock pid k \<longleftrightarrow> currPid k = pid \<and> currFD k = 2 \<and> rtc_open_at pid 2 k"

lemma rtc_wait:
  assumes c: "on_clock pid k" and pg: "pg \<in> upage" and i: "e_rtc_irqs e = Irq_rtc # irqs"
  shows "\<exists>m. ece391_read 2 pg 4 (e, k) = Some (0, e\<lparr>e_rtc_irqs := irqs\<rparr>, k\<lparr>mach := m\<rparr>) \<and> vm m = kvm k \<and>
    screen_x m = screen_x (mach k) \<and> screen_y m = screen_y (mach k)"
proof -
  let ?m = "rtc_handler (e_dev e) ((mach k)\<lparr>waiting := 1\<rparr>)"
  have "rtc_read (e_dev e) (e_other e) (e_rtc_irqs e) (mach k) = Some (0, irqs, ?m)"
    by (simp add: rtc_read_def i rtc_spin.simps)
  moreover have "pg \<noteq> 0" "pg \<noteq> -1" using upage_unat [OF pg] by (auto simp: unsigned_minus_1_eq_mask mask_eq_exp_minus_1)
  ultimately have "ece391_read 2 pg 4 (e, k) = Some (0, e\<lparr>e_rtc_irqs := irqs\<rparr>, k\<lparr>mach := ?m\<rparr>)"
    using c ece391_read_eq [of 2 pg 4 e k] by (auto simp: sys_read_def on_clock_def rtc_open_at_def int32_def rtc_fread_def)
  then show ?thesis by (intro exI [of _ ?m]) (simp add: rtc_handler_def send_eoi_def outb_def inb_def cli_def Let_def)
qed

lemma rtc_rate:
  assumes c: "on_clock pid k" and pr: "pr \<in> upage" and x: "ld32 (kvm k) pr = Some 32"
  shows "\<exists>m. ece391_write 2 pr 4 (e, k) = Some (0, e, k\<lparr>mach := m\<rparr>) \<and> vm m = kvm k \<and> screen_x m = screen_x (mach k) \<and> screen_y m = screen_y (mach k)"
proof -
  have "(32 :: int) = 2 ^ 5" by simp
  then have r: "rtc_count 32 0 = Some 10" using rtc_count_pow [of 5 0] by simp
  have "sint (32 :: u32) = 32" by simp
  then obtain m where m: "rtc_write (e_dev e) 2 pr 4 (mach k) = Some (0, m)" "vm m = kvm k" "screen_x m = screen_x (mach k)" "screen_y m = screen_y (mach k)"
    using r x by (auto simp: rtc_write_def rtc_set_freq_def outb_def inb_def Let_def)
  have "pr \<noteq> 0" using upage_unat [OF pr] by auto
  then have "ece391_write 2 pr 4 (e, k) = Some (0, e, k\<lparr>mach := m\<rparr>)"
    using c m(1) ece391_write_eq [of 2 4 pr e k] by (auto simp: sys_write_def on_clock_def rtc_open_at_def int32_def)
  then show ?thesis using m by blast
qed

lemma clocked_mach:
  assumes "clocked pid vb w con k" and "vm m = kvm k" and "screen_x m = screen_x (mach k)" and "screen_y m = screen_y (mach k)"
  shows "clocked pid vb w con (k\<lparr>mach := m\<rparr>)"
  using assms canvas_mach [OF _ assms(2-4)] by (simp add: clocked_def rtc_open_at_def)

lemma clocked_on_clock: "clocked pid vb w con k \<Longrightarrow> on_clock pid k"
  by (simp add: clocked_def on_clock_def)

lemma clock_tick:
  assumes c: "clocked pid vb w con k" and pg: "pg \<in> upage" and i: "e_rtc_irqs e = Irq_rtc # irqs"
  shows "\<exists>k'. ece391_read 2 pg 4 (e, k) = Some (0, e\<lparr>e_rtc_irqs := irqs\<rparr>, k') \<and> clocked pid vb w con k'"
  using rtc_wait [OF clocked_on_clock [OF c] pg i] clocked_mach [OF c] by blast

lemma clocked_ops:
  assumes c: "clocked pid vb w (cells, p) k" and bl: "blinks s bs" and ok: "\<forall>c \<in> set cs. op_ok c" and an: "animate cs (bs, cells) = (bs', cells')"
  shows "\<exists>rs s' k'. run_ops vb cs (s, e, k) = Some (rs, s', e, k') \<and> clocked pid vb w (cells', p) k' \<and> blinks s' bs'"
proof -
  have cv: "canvas pid vb w (cells, p) k" using c by (simp add: clocked_def)
  obtain rs s' k' where k': "run_ops vb cs (s, e, k) = Some (rs, s', e, k')" "blinks s' bs'" "canvas pid vb w (cells', p) k'" "k' = k\<lparr>mach := mach k'\<rparr>"
    using canvas_ops [OF cv bl ok an, of e] by blast
  have F: "currPid k' = currPid k" "currFD k' = currFD k" "PCB_array k' = PCB_array k" by (subst k'(4), simp)+
  then show ?thesis using k'(1-3) c by (auto simp: clocked_def rtc_open_at_def)
qed

lemma fish_wait_ticks:
  assumes "clocked pid vb w (cells, p) k" and "blinks s bs" and "pg \<in> upage" and "e_rtc_irqs e = replicate n Irq_rtc @ irqs"
    and "animate (replicate n Tasklet) (bs, cells) = (bs', cells')"
  shows "\<exists>s' k'. fish_wait vb 2 pg n (s, e, k) = Some (s', e\<lparr>e_rtc_irqs := irqs\<rparr>, k') \<and> clocked pid vb w (cells', p) k' \<and> blinks s' bs'"
  using assms
proof (induction n arbitrary: s bs cells k e)
  case 0
  then show ?case by auto
next
  case (Suc n)
  let ?e = "e\<lparr>e_rtc_irqs := replicate n Irq_rtc @ irqs\<rparr>"
  obtain k1 where k1: "ece391_read 2 pg 4 (e, k) = Some (0, ?e, k1)" "clocked pid vb w (cells, p) k1"
    using clock_tick [OF Suc.prems(1,3), of e] Suc.prems(4) by auto
  obtain bs1 cells1 where a: "animate [Tasklet] (bs, cells) = (bs1, cells1)" by (cases "animate [Tasklet] (bs, cells)")
  have a2: "animate (replicate n Tasklet) (bs1, cells1) = (bs', cells')"
    using Suc.prems(5) a animate_append [of "[Tasklet]" "replicate n Tasklet" "(bs, cells)"] by simp
  obtain rs s1 k2 where k2: "run_ops vb [Tasklet] (s, ?e, k1) = Some (rs, s1, ?e, k2)" "clocked pid vb w (cells1, p) k2" "blinks s1 bs1"
    using clocked_ops [OF k1(2) Suc.prems(2) _ a, of ?e] by auto
  then have t: "mp1_rtc_tasklet vb (s, ?e, k1) = Some (s1, ?e, k2)" by (auto split: Option.bind_splits)
  obtain s' k' where "fish_wait vb 2 pg n (s1, ?e, k2) = Some (s', ?e\<lparr>e_rtc_irqs := irqs\<rparr>, k')" "clocked pid vb w (cells', p) k'" "blinks s' bs'"
    using Suc.IH [OF k2(2,3) Suc.prems(3) _ a2, of ?e] by auto
  then show ?case using k1(1) t by auto
qed


lemma clock_rate:
  assumes c: "clocked pid vb w con k" and pr: "pr \<in> upage" and x: "ld32 (kvm k) pr = Some 32"
  shows "\<exists>k'. ece391_write 2 pr 4 (e, k) = Some (0, e, k') \<and> clocked pid vb w con k'"
  using rtc_rate [OF clocked_on_clock [OF c] pr x, of e] clocked_mach [OF c] by blast

text \<open>The calls of \<open>main\<close>, in their order.\<close>

definition fish_ops :: "mp1_blink_struct \<Rightarrow> mp1_blink_struct \<Rightarrow> u8 list \<Rightarrow> u8 list \<Rightarrow> blink_op list" where
  "fish_ops b0 b1 t0 t1 = frames_ops b1 0 (split_lines t0) (split_lines t1) @ replicate 100 Tasklet @
     [Ioctl (RTC_ADD (im_blink b0))] @ replicate 100 Tasklet @ [Ioctl (RTC_SYNC (push_bit 16 40 OR (6 * 80 + 60)))] @ replicate 100 Tasklet @
     [Ioctl (RTC_REMOVE (6 * 80 + 60))] @ replicate 100 Tasklet"

lemma clear_blinks_empty: "mp1_list_head s = None \<Longrightarrow> blinks (clear_blinks s) []"
  by (auto simp: blinks_def linked_def clear_blinks_def values_of_def placed_def zero_blink_def intro!: exI [of _ "[]"])

text \<open>One loop of \<open>main\<close> and the call before it.\<close>

lemma ioctl_wait:
  assumes c: "clocked pid vb w (cells, p) k" and bl: "blinks s bs" and pg: "pg \<in> upage" and i: "e_rtc_irqs e = replicate n Irq_rtc @ irqs" and ok: "op_ok (Ioctl q)"
  shows "\<exists>r b f s' k' cells' bs'. mp1_ioctl vb q (s, e, k) = Some (r, b, f) \<and> fish_wait vb 2 pg n f = Some (s', e\<lparr>e_rtc_irqs := irqs\<rparr>, k') \<and>
    clocked pid vb w (cells', p) k' \<and> blinks s' bs' \<and> animate ([Ioctl q] @ replicate n Tasklet) (bs, cells) = (bs', cells')"
proof -
  obtain bs1 cells1 where a: "animate [Ioctl q] (bs, cells) = (bs1, cells1)" by (cases "animate [Ioctl q] (bs, cells)")
  obtain bs2 cells2 where a2: "animate (replicate n Tasklet) (bs1, cells1) = (bs2, cells2)" by (cases "animate (replicate n Tasklet) (bs1, cells1)")
  obtain rs s1 k1 where k1: "run_ops vb [Ioctl q] (s, e, k) = Some (rs, s1, e, k1)" "clocked pid vb w (cells1, p) k1" "blinks s1 bs1"
    using clocked_ops [OF c bl _ a, of e] ok by auto
  obtain r b where "mp1_ioctl vb q (s, e, k) = Some (r, b, s1, e, k1)" using run_ioctl [OF k1(1)] by auto
  moreover obtain s' k' where "fish_wait vb 2 pg n (s1, e, k1) = Some (s', e\<lparr>e_rtc_irqs := irqs\<rparr>, k')" "clocked pid vb w (cells2, p) k'" "blinks s' bs2"
    using fish_wait_ticks [OF k1(2,3) pg i a2] by blast
  moreover have "animate ([Ioctl q] @ replicate n Tasklet) (bs, cells) = (bs2, cells2)" using a a2 by (simp only: animate_append)
  ultimately show ?thesis by blast
qed

abbreviation im_location :: u32 where
  "im_location \<equiv> 6 * 80 + 60"

lemma fish_start:
  assumes "running pid k" and "page_table (kvm k) 0xB8 = 0xB8003" and "cur_terminal k < 3" and "displays (mach k) (cells, p)" and "region vb 4 \<subseteq> upage"
    and "names (region vb 4) a d k" and "fileType d = 0" and "present (fd_of k pid 2) = -1" and "frames_ready pid vb f0 f1 pc0 pc1 t0 t1 k"
    and "length (split_lines t0) = length (split_lines t1)" and "\<forall>c \<in> set (frames_ops b1 0 (split_lines t0) (split_lines t1)). op_ok c" and "blinks s bs"
    and "animate (frames_ops b1 0 (split_lines t0) (split_lines t1)) (bs, cells) = (bs', cells')"
  shows "\<exists>w k1 k2 s' k'. mp1_set_video_mode vb (e, k) = Some (w, e, k1) \<and> w \<noteq> 0 \<and> ece391_open a (e, k1) = Some (2, e, k2) \<and>
    add_frames vb b1 f0 f1 pc0 pc1 (s, e, k2) = Some (s', e, k') \<and> clocked pid vb w (cells', p) k' \<and> blinks s' bs'"
proof -
  obtain k1 w where k1: "mp1_set_video_mode vb (e, k) = Some (w, e, k1)" "w \<noteq> 0" "canvas pid vb w (cells, p) k1" "leaves (region vb 4) k k1"
    "PCB_array k1 = PCB_array k" "startdentry k1 = startdentry k" using set_video_mode_canvas [OF assms(1-3,5,4), of e] by blast
  define k2 where "k2 = opened_at pid 2 d k1"
  have run1: "running pid k1" using k1(3) by (simp add: canvas_def)
  have "fst (get_fdAvail pid k1) = 2" using assms(8) k1(5) by (simp add: get_fdAvail_def eval_nat_numeral)
  then have o: "ece391_open a (e, k1) = Some (2, e, k2)"
    using open_named [OF names_leaves [OF assms(6) k1(4) subset_refl k1(6)] run1, of 2 e] by (simp add: k2_def)
  have cv2: "canvas pid vb w (cells, p) k2" "rtc_open_at pid 2 k2" using k1(3) assms(7) by (simp_all add: k2_def rtc_open_at_def opened_def fop_of_type_def)
  have l2: "leaves (region vb 4) k k2" using k1(4) by (simp add: leaves_def k2_def)
  have fr2: "frames_ready pid vb f0 f1 pc0 pc1 t0 t1 k2" by (rule frames_ready_leaves [OF assms(9) l2]) (simp_all add: k2_def k1(5,6))
  show ?thesis using add_frames_draws [OF cv2 fr2 assms(10,12,11,13), of e] k1(1,2) o by blast
qed

text \<open>The program after the frames are drawn and the clock is set.\<close>

lemma fish_loops:
  assumes c: "clocked pid vb w (cells, p) k" and bl: "blinks s bs" and pg: "pg \<in> upage" and irqs: "e_rtc_irqs e = replicate 400 Irq_rtc @ irqs"
    and an: "animate (replicate 100 Tasklet @ [Ioctl (RTC_ADD (im_blink b0))] @ replicate 100 Tasklet @ [Ioctl (RTC_SYNC (push_bit 16 40 OR im_location))] @
      replicate 100 Tasklet @ [Ioctl (RTC_REMOVE im_location)] @ replicate 100 Tasklet) (bs, cells) = (bs', cells')"
  shows "\<exists>f1 r1 q1 g1 f2 r2 q2 g2 f3 r3 q3 g3 s' k'. fish_wait vb 2 pg 100 (s, e, k) = Some f1 \<and>
    mp1_ioctl vb (RTC_ADD (im_blink b0)) f1 = Some (r1, q1, g1) \<and> fish_wait vb 2 pg 100 g1 = Some f2 \<and>
    mp1_ioctl vb (RTC_SYNC (push_bit 16 40 OR im_location)) f2 = Some (r2, q2, g2) \<and> fish_wait vb 2 pg 100 g2 = Some f3 \<and>
    mp1_ioctl vb (RTC_REMOVE im_location) f3 = Some (r3, q3, g3) \<and> fish_wait vb 2 pg 100 g3 = Some (s', e\<lparr>e_rtc_irqs := irqs\<rparr>, k') \<and>
    clocked pid vb w (cells', p) k' \<and> blinks s' bs'"
proof -
  let ?irqs = "\<lambda>n. replicate n Irq_rtc @ irqs" and ?t = "replicate 100 Tasklet"
  let ?e1 = "e\<lparr>e_rtc_irqs := ?irqs 300\<rparr>" and ?e2 = "e\<lparr>e_rtc_irqs := ?irqs 200\<rparr>" and ?e3 = "e\<lparr>e_rtc_irqs := ?irqs 100\<rparr>"
  have i: "e_rtc_irqs e = replicate 100 Irq_rtc @ ?irqs 300" "e_rtc_irqs ?e1 = replicate 100 Irq_rtc @ ?irqs 200"
    "e_rtc_irqs ?e2 = replicate 100 Irq_rtc @ ?irqs 100" "e_rtc_irqs ?e3 = replicate 100 Irq_rtc @ irqs"
    using irqs by (simp_all flip: append_assoc replicate_add)
  obtain bs1 cells1 where a1: "animate ?t (bs, cells) = (bs1, cells1)" by (cases "animate ?t (bs, cells)")
  obtain s1 k1 where k1: "fish_wait vb 2 pg 100 (s, e, k) = Some (s1, ?e1, k1)" "clocked pid vb w (cells1, p) k1" "blinks s1 bs1"
    using fish_wait_ticks [OF c bl pg i(1) a1] by blast
  have im: "op_ok (Ioctl (RTC_ADD (im_blink b0)))" by (simp add: im_blink_def)
  obtain r1 q1 g1 s2 k2 cells2 bs2 where k2: "mp1_ioctl vb (RTC_ADD (im_blink b0)) (s1, ?e1, k1) = Some (r1, q1, g1)"
    "fish_wait vb 2 pg 100 g1 = Some (s2, ?e2, k2)" "clocked pid vb w (cells2, p) k2" "blinks s2 bs2"
    "animate ([Ioctl (RTC_ADD (im_blink b0))] @ ?t) (bs1, cells1) = (bs2, cells2)"
    using ioctl_wait [OF k1(2,3) pg i(2) im] by auto
  obtain r2 q2 g2 s3 k3 cells3 bs3 where k3: "mp1_ioctl vb (RTC_SYNC (push_bit 16 40 OR im_location)) (s2, ?e2, k2) = Some (r2, q2, g2)"
    "fish_wait vb 2 pg 100 g2 = Some (s3, ?e3, k3)" "clocked pid vb w (cells3, p) k3" "blinks s3 bs3"
    "animate ([Ioctl (RTC_SYNC (push_bit 16 40 OR im_location))] @ ?t) (bs2, cells2) = (bs3, cells3)"
    using ioctl_wait [OF k2(3,4) pg i(3), of "RTC_SYNC (push_bit 16 40 OR im_location)"] by auto
  obtain r3 q3 g3 s4 k4 cells4 bs4 where k4: "mp1_ioctl vb (RTC_REMOVE im_location) (s3, ?e3, k3) = Some (r3, q3, g3)"
    "fish_wait vb 2 pg 100 g3 = Some (s4, e\<lparr>e_rtc_irqs := irqs\<rparr>, k4)" "clocked pid vb w (cells4, p) k4" "blinks s4 bs4"
    "animate ([Ioctl (RTC_REMOVE im_location)] @ ?t) (bs3, cells3) = (bs4, cells4)"
    using ioctl_wait [OF k3(3,4) pg i(4), of "RTC_REMOVE im_location"] by auto
  have "(bs', cells') = (bs4, cells4)" using an k2(5) k3(5) k4(5) by (simp only: animate_append a1)
  then have "clocked pid vb w (cells', p) k4" "blinks s4 bs'" using k4(3,4) by simp_all
  then show ?thesis using k1(1) k2(1,2) k3(1,2) k4(1,2) by blast
qed


section \<open>A blinking character\<close>

definition blink_on :: "mp1_blink_struct \<Rightarrow> nat \<Rightarrow> bool" where
  "blink_on b n \<longleftrightarrow> n mod (unat (on_length b) + unat (off_length b)) < unat (on_length b)"

definition lengths_ok :: "mp1_blink_struct \<Rightarrow> bool" where
  "lengths_ok b \<longleftrightarrow> 0 < on_length b \<and> on_length b < 0x8000 \<and> 0 < off_length b \<and> off_length b < 0x8000"

definition blink_after :: "mp1_blink_struct \<Rightarrow> nat \<Rightarrow> mp1_blink_struct" where
  "blink_after b n = (started_blink b)\<lparr>countdown := word_of_nat ((if blink_on b n then unat (on_length b) else unat (on_length b) + unat (off_length b)) -
     n mod (unat (on_length b) + unat (off_length b))), status := (if blink_on b n then 1 else 0)\<rparr>"

lemma countdown_due:
  assumes "0 < m" and "m < 0x8000" and "countdown b = word_of_nat m"
  shows "due b \<longleftrightarrow> m = 1" and "countdown b - 1 = word_of_nat (m - 1)"
proof -
  show e: "countdown b - 1 = word_of_nat (m - 1)" using assms by (simp add: of_nat_diff)
  have "sint (word_of_nat (m - 1) :: u16) = int (m - 1)"
    using assms by (subst signed_of_nat) (simp add: signed_take_bit_int_eq_self_iff)
  then show "due b \<longleftrightarrow> m = 1" using assms(1) by (auto simp: due_def e)
qed

lemma tick_after:
  assumes "lengths_ok b"
  shows "tick (blink_after b n) = blink_after b (Suc n)"
    and "due (blink_after b n) \<longleftrightarrow> blink_on b n \<noteq> blink_on b (Suc n)"
    and "bit (status (blink_after b n)) 0 \<longleftrightarrow> blink_on b n"
proof -
  let ?a = "unat (on_length b)" and ?o = "unat (off_length b)" and ?B = "blink_after b n"
  let ?r = "n mod (?a + ?o)"
  have ao: "0 < ?a" "?a < 0x8000" "0 < ?o" "?o < 0x8000" using assms by (simp_all add: lengths_ok_def word_less_nat_alt unat_gt_0)
  then have r: "?r < ?a + ?o" by simp
  have s: "Suc n mod (?a + ?o) = (if Suc ?r = ?a + ?o then 0 else Suc ?r)" by (rule mod_Suc)
  define m where "m = (if blink_on b n then ?a else ?a + ?o) - ?r"
  have m: "0 < m" "m < 0x8000" "countdown ?B = word_of_nat m" using r ao by (auto simp: m_def blink_on_def blink_after_def)
  note cd = countdown_due [OF m]
  show d: "due ?B \<longleftrightarrow> blink_on b n \<noteq> blink_on b (Suc n)" unfolding cd(1) using ao r s by (auto simp: m_def blink_on_def)
  show st: "bit (status ?B) 0 \<longleftrightarrow> blink_on b n" by (simp add: blink_after_def bit_1_iff)
  show "tick ?B = blink_after b (Suc n)"
  proof (cases "due ?B")
    case True
    have c: "(if blink_on b (Suc n) then ?a else ?a + ?o) - Suc n mod (?a + ?o) = (if blink_on b n then ?o else ?a)"
      using True cd(1) ao r s by (auto simp: m_def blink_on_def split: if_splits)
    show ?thesis using True d st unfolding tick_def blink_after_def c by (auto simp: started_blink_def)
  next
    case False
    have c: "(if blink_on b (Suc n) then ?a else ?a + ?o) - Suc n mod (?a + ?o) = m - 1"
      using False d cd(1) ao r s by (auto simp: m_def blink_on_def split: if_splits)
    show ?thesis using False d cd(2) unfolding tick_def blink_after_def [of b "Suc n"] c by (auto simp: blink_after_def)
  qed
qed


lemma draw_length [simp]: "length (draw ps cells) = length cells"
  by (induction ps cells rule: draw.induct) (auto simp: Let_def)

lemma draw_other:
  assumes "\<forall>(c, a) \<in> set ps. unat a div 2 \<noteq> i"
  shows "draw ps cells ! i = cells ! i"
  using assms by (induction ps cells rule: draw.induct) (auto simp: Let_def)

lemma offset_cell: "location b < 2000 \<Longrightarrow> unat (video_offset b) div 2 = unat (location b)"
proof -
  assume "location b < 2000"
  then have i: "unat (location b) < 2000" by (rule unat_location)
  have "unat (2 * word_of_nat i :: u32) = 2 * i" if "i < 2000" for i using that by (simp add: unat_word_ariths unat_word_of_nat_u32)
  from this [OF i] show ?thesis unfolding video_offset_nat by simp
qed

lemma others_pokes:
  assumes "\<forall>b \<in> set bs. location b < 2000 \<and> location b \<noteq> l"
  shows "\<forall>(c, a) \<in> set (concat (map tick_pokes bs)). unat a div 2 \<noteq> unat l"
  using assms offset_cell by (auto simp: tick_pokes_def word_unat_eq_iff split: if_splits)

lemma animate_ticks:
  assumes b: "lengths_ok b" "location b < 2000" and bs: "\<forall>c \<in> set bs. location c < 2000 \<and> location c \<noteq> location b"
    and cells: "length cells = 2000" "fst (cells ! unat (location b)) = on_char b"
  shows "\<exists>bs' cells'. animate (replicate n Tasklet) (started_blink b # bs, cells) = (blink_after b n # bs', cells') \<and> length cells' = 2000 \<and>
    (\<forall>c \<in> set bs'. location c < 2000 \<and> location c \<noteq> location b) \<and> fst (cells' ! unat (location b)) = (if blink_on b n then on_char b else off_char b)"
proof (induction n)
  case 0
  have "blink_on b 0" using b(1) by (simp add: blink_on_def lengths_ok_def unat_gt_0 word_gt_0)
  moreover from this have "started_blink b = blink_after b 0" by (simp add: blink_after_def started_blink_def)
  ultimately show ?case using assms by simp
next
  case (Suc n)
  let ?B = "blink_after b n" and ?l = "unat (location b)"
  obtain bs1 cells1 where a: "animate (replicate n Tasklet) (started_blink b # bs, cells) = (?B # bs1, cells1)" "length cells1 = 2000"
    "\<forall>c \<in> set bs1. location c < 2000 \<and> location c \<noteq> location b" "fst (cells1 ! ?l) = (if blink_on b n then on_char b else off_char b)" using Suc.IH by blast
  let ?ps = "concat (map tick_pokes bs1)"
  have "replicate (Suc n) Tasklet = replicate n Tasklet @ [Tasklet]" by (simp add: replicate_append_same)
  then have t: "animate (replicate (Suc n) Tasklet) (started_blink b # bs, cells) = (blink_after b (Suc n) # map tick bs1, draw ?ps (draw (tick_pokes ?B) cells1))"
    using a(1) tick_after(1) [OF b(1), of n] by (simp only: animate_append) (simp add: animate_def draw_append)
  have o: "unat (video_offset ?B) div 2 = ?l" "on_char ?B = on_char b" "off_char ?B = off_char b"
    using offset_cell [of ?B] b(2) by (simp_all add: blink_after_def started_blink_def)
  have "fst (draw (tick_pokes ?B) cells1 ! ?l) = (if blink_on b (Suc n) then on_char b else off_char b)"
    using a(2,4) tick_after(2,3) [OF b(1), of n] unat_location [OF b(2)] o by (auto simp: tick_pokes_def Let_def)
  moreover have "draw ?ps (draw (tick_pokes ?B) cells1) ! ?l = draw (tick_pokes ?B) cells1 ! ?l" by (rule draw_other [OF others_pokes [OF a(3)]])
  ultimately show ?case using t a(2,3) by (intro exI [of _ "map tick bs1"] exI [of _ "draw ?ps (draw (tick_pokes ?B) cells1)"]) (simp add: tick_fields)
qed

text \<open>
  C10: A character blinks with its two lengths: \<open>n\<close> ticks after \<open>RTC_ADD\<close> its place on the screen
  shows \<open>on_char\<close> in the first \<open>on_length\<close> ticks of every period and \<open>off_char\<close> in the other
  \<open>off_length\<close>, whatever characters blink at other places.
\<close>

theorem blink_alternates:
  assumes "canvas pid vb w (cells, p) k" and "linked s is" and "length is < 2000"
    and "\<forall>i \<in> set is. location (blink_array s i) < 2000 \<and> location (blink_array s i) \<noteq> location b"
    and "location b \<noteq> 0" and "location b < 2000" and "lengths_ok b"
  shows "\<exists>rs s' k' cells'. run_ops vb (Ioctl (RTC_ADD b) # replicate n Tasklet) (s, e, k) = Some (rs, s', e, k') \<and> displays (mach k') (cells', p) \<and>
    fst (cells' ! unat (location b)) =
      (if n mod (unat (on_length b) + unat (off_length b)) < unat (on_length b) then on_char b else off_char b)"
proof -
  let ?bs = "values_of s is" and ?l = "unat (location b)"
  define cells1 where "cells1 = draw [(on_char b, video_offset b)] cells"
  have bs: "\<forall>c \<in> set ?bs. location c < 2000 \<and> location c \<noteq> location b" using assms(4) by (auto simp: values_of_def)
  then have bl: "blinks s ?bs" using assms(2) by (auto simp: blinks_def placed_def)
  have len: "length cells = 2000" using assms(1) by (simp add: canvas_def displays_def displays_cells_def)
  have "animate [Ioctl (RTC_ADD b)] (?bs, cells) = (started_blink b # ?bs, cells1)" using assms(3,6) by (simp add: animate_def not_le cells1_def)
  moreover have "fst (cells1 ! ?l) = on_char b" using offset_cell [OF assms(6)] unat_location [OF assms(6)] len by (simp add: Let_def cells1_def)
  moreover have "length cells1 = 2000" using len by (simp only: cells1_def draw_length)
  ultimately obtain bs' cells' where a: "animate (Ioctl (RTC_ADD b) # replicate n Tasklet) (?bs, cells) = (bs', cells')"
    "fst (cells' ! ?l) = (if blink_on b n then on_char b else off_char b)"
    using animate_ticks [OF assms(7,6) bs, of cells1 n] animate_append [of "[Ioctl (RTC_ADD b)]" "replicate n Tasklet" "(?bs, cells)"] by auto
  have "\<forall>c \<in> set (Ioctl (RTC_ADD b) # replicate n Tasklet). op_ok c" using assms(5) by simp
  from canvas_ops [OF assms(1) bl this a(1), of e] obtain rs s' k' where
    "run_ops vb (Ioctl (RTC_ADD b) # replicate n Tasklet) (s, e, k) = Some (rs, s', e, k')" "canvas pid vb w (cells', p) k'" by blast
  then show ?thesis using a(2) unfolding canvas_def blink_on_def by blast
qed


section \<open>A sample\<close>

text \<open>A directory with the clock and two frames, whose texts are \<open>a\<close> and \<open>b\<close>.\<close>

definition sample_fish_mem :: "u32 \<Rightarrow> u8" where
  "sample_fish_mem = (\<lambda>_. 0)(0x410040 := 0x72, 0x410041 := 0x74, 0x410042 := 0x63,
     0x410080 := 0x66, 0x410081 := 0x72, 0x410082 := 0x61, 0x410083 := 0x6D, 0x410084 := 0x65, 0x410085 := 0x30, 0x410086 := 0x2E, 0x410087 := 0x74,
     0x410088 := 0x78, 0x410089 := 0x74, 0x4100A0 := 2,
     0x4100C0 := 0x66, 0x4100C1 := 0x72, 0x4100C2 := 0x61, 0x4100C3 := 0x6D, 0x4100C4 := 0x65, 0x4100C5 := 0x31, 0x4100C6 := 0x2E, 0x4100C7 := 0x74,
     0x4100C8 := 0x78, 0x4100C9 := 0x74, 0x4100E0 := 2, 0x4100E4 := 1,
     0x411000 := 1, 0x411004 := 2, 0x414000 := 0x61, 0x412000 := 1, 0x412004 := 1, 0x413000 := 0x62)"

definition fish_literals :: "string list" where
  "fish_literals = [''rtc'', ''frame0.txt'', ''frame1.txt'']"

definition sample_fish :: kernel where
  "sample_fish = sample_prog_on fish_literals sample_fish_mem"

definition sample_entry :: "string \<Rightarrow> u32 \<Rightarrow> u32 \<Rightarrow> dentry_t" where
  "sample_entry s t i = \<lparr>dname = map of_char s @ replicate (32 - length s) 0, fileType = t, inodeNum = i\<rparr>"

lemma sample_fish_directory:
  "\<exists>ds. directory (flat_vmem sample_fish_mem) 0x410040 = Some ds \<and>
    (\<exists>ds'. ds = sample_entry ''rtc'' 0 0 # sample_entry ''frame0.txt'' 2 0 # sample_entry ''frame1.txt'' 2 1 # ds')"
proof -
  obtain ds where ds: "directory (flat_vmem sample_fish_mem) 0x410040 = Some ds" using directory_flat by blast
  have len: "length ds = 64" using length_those [OF ds [unfolded directory_def]] by simp
  have c: "copy_dentry (flat_vmem sample_fish_mem) (0x410040 + 64 * word_of_nat i) = Some (ds ! i)" if "i < 64" for i
    using those_nth [OF ds [unfolded directory_def], of i] that by simp
  have e: "copy_dentry (flat_vmem sample_fish_mem) 0x410040 = Some (sample_entry ''rtc'' 0 0)"
    "copy_dentry (flat_vmem sample_fish_mem) 0x410080 = Some (sample_entry ''frame0.txt'' 2 0)"
    "copy_dentry (flat_vmem sample_fish_mem) 0x4100C0 = Some (sample_entry ''frame1.txt'' 2 1)"
    by (simp add: copy_dentry_def ld_bytes_flat ld32_flat sample_fish_mem_def word_of_bytes_def upt_rec, simp add: numeral_eq_Suc sample_entry_def)+
  have "take 3 ds = [ds ! 0, ds ! 1, ds ! 2]" using len by (simp add: take_Suc_conv_app_nth numeral_3_eq_3 numeral_2_eq_2)
  then have "ds = sample_entry ''rtc'' 0 0 # sample_entry ''frame0.txt'' 2 0 # sample_entry ''frame1.txt'' 2 1 # drop 3 ds"
    using c [of 0] c [of 1] c [of 2] e append_take_drop_id [of 3 ds] by simp
  then show ?thesis using ds by blast
qed


lemma sample_fish_page: "page_table (kvm sample_fish) 0xB8 = 0xB8003"
proof -
  let ?v0 = "init_paging (flat_vmem sample_fish_mem)" and ?b = "lit_bytes fish_literals"
  define v where "v = map_page (proc_page 0) 0x08000000 0x87 ?v0"
  have "page_table ?v0 0xB8 = 0xB8003"
    by (simp add: init_paging_def Let_def enable_paging_def init_tables_fields VIDEO_MEM_INDEX_def FOUR_KB_def)
  then have p: "page_table v 0xB8 = 0xB8003" using map_process_page [OF sample_vmem_layout(1), of 0 sample_fish_mem] by (simp add: v_def)
  have kv: "kvm sample_fish = (case st_bytes v 0x08048000 ?b of Some v' \<Rightarrow> v' | None \<Rightarrow> v)" unfolding sample_fish_def sample_prog_on_def Let_def v_def by simp
  show ?thesis
  proof (cases "st_bytes v 0x08048000 ?b")
    case None
    then show ?thesis using kv p by simp
  next
    case (Some v')
    then show ?thesis using kv p same_map_fields [OF st_bytes_same_map [OF Some]] by simp
  qed
qed

lemma fish_literals_ok:
  "length (lit_bytes fish_literals) = 26" "length (lit_bytes fish_literals) \<le> 0x100000"
  "\<forall>s \<in> set fish_literals. 0 \<notin> set (map of_char s :: u8 list) \<and> length s < 2 ^ 31"
  by (simp_all add: fish_literals_def lit_bytes_def)

lemma sample_fish_file:
  assumes "ld32 (flat_vmem sample_fish_mem) (0x411000 + ino * 0x1000) = Some 1" and "ld32 (flat_vmem sample_fish_mem) (0x411004 + ino * 0x1000) = Some blk"
    and "sample_fish_mem (0x412000 + blk * 0x1000) = c" and "ino = 0 \<or> ino = 1" and "blk = 1 \<or> blk = 2"
  shows "regular_file sample_fish (sample_entry s 2 ino) [c]"
proof -
  let ?p = sample_fish
  note F = sample_prog_fields [where ss = fish_literals and p = sample_fish_mem]
  have nb: "nblocks 1 = 1" by (simp add: nblocks_def)
  have ad: "inode_addr ?p ino = 0x411000 + ino * 0x1000" "data_base ?p = 0x412000"
    by (simp_all add: inode_addr_def data_base_def sample_fish_def F(8,9) algebra_simps)
  have fa: "file_area ?p ino 1 (\<lambda>_. blk) = region (0x411000 + ino * 0x1000) 4096 \<union> region (0x412000 + blk * 0x1000) 4096"
    by (simp add: file_area_def nb ad lessThan_Suc algebra_simps)
  have kp: "file_area ?p ino 1 (\<lambda>_. blk) \<subseteq> kpage" unfolding fa using assms(4,5) by (intro Un_least kpage_region) auto
  have flat: "file_at (flat_vmem sample_fish_mem) ?p ino 1 (\<lambda>_. blk)"
    unfolding file_at_def nb ad using assms by (simp add: algebra_simps)
  have fb: "file_byte (flat_vmem sample_fish_mem) ?p ino 0 = Some c"
    unfolding file_byte_def ad using assms by (simp add: algebra_simps)
  have "agree kpage (flat_vmem sample_fish_mem) (kvm ?p)" unfolding sample_fish_def by (rule sample_prog_ready(5) [OF fish_literals_ok(2,3)])
  note fag = file_agree [OF agree_mono [OF this kp] flat]
  have "numinodes ?p = 1" by (simp add: sample_fish_def F(9))
  then show ?thesis unfolding regular_file_def using fag fb kp assms(4)
    by (intro conjI exI [of _ "\<lambda>_. blk"]) (auto simp: sample_entry_def)
qed
lemma sample_fish_frames:
  "regular_file sample_fish (sample_entry ''frame0.txt'' 2 0) [0x61]" "regular_file sample_fish (sample_entry ''frame1.txt'' 2 1) [0x62]"
proof -
  have "ld32 (flat_vmem sample_fish_mem) 0x411000 = Some 1" "ld32 (flat_vmem sample_fish_mem) 0x411004 = Some 2" "sample_fish_mem 0x414000 = 0x61"
    "ld32 (flat_vmem sample_fish_mem) 0x412000 = Some 1" "ld32 (flat_vmem sample_fish_mem) 0x412004 = Some 1" "sample_fish_mem 0x413000 = 0x62"
    by (simp_all add: ld32_flat sample_fish_mem_def word_of_bytes_def)
  then show "regular_file sample_fish (sample_entry ''frame0.txt'' 2 0) [0x61]" "regular_file sample_fish (sample_entry ''frame1.txt'' 2 1) [0x62]"
    using sample_fish_file [of 0 2 "0x61" "''frame0.txt''"] sample_fish_file [of 1 1 "0x62" "''frame1.txt''"] by simp_all
qed

lemma sample_fish_names:
  assumes "A \<inter> region 0x08048000 26 = {}"
  shows "names A 0x08048000 (sample_entry ''rtc'' 0 0) sample_fish" "names A 0x08048004 (sample_entry ''frame0.txt'' 2 0) sample_fish"
    "names A 0x0804800F (sample_entry ''frame1.txt'' 2 1) sample_fish"
proof -
  let ?lit = "lit_at 0x08048000 fish_literals"
  obtain ds ds' where ds: "directory (flat_vmem sample_fish_mem) 0x410040 = Some ds"
    "ds = sample_entry ''rtc'' 0 0 # sample_entry ''frame0.txt'' 2 0 # sample_entry ''frame1.txt'' 2 1 # ds'" using sample_fish_directory by blast
  note r = sample_prog_ready [OF fish_literals_ok(2,3), where p = sample_fish_mem, folded sample_fish_def]
  note F = sample_prog_fields [where ss = fish_literals and p = sample_fish_mem, folded sample_fish_def]
  have dir: "directory (kvm sample_fish) (startdentry sample_fish) = Some ds" "region (startdentry sample_fish) 4096 \<subseteq> kpage"
    unfolding F(3) using r(3) ds(1) kpage_region [of "0x410040" 4096] by simp_all
  have hl: "cstring (kvm sample_fish) (?lit s) (map of_char s)" "region (?lit s) (Suc (length s)) \<subseteq> upage" if "s \<in> set fish_literals" for s
    using r(2) that by (auto simp: has_literals_def)
  have nm: "names A (?lit s) d sample_fish" if s: "s \<in> set fish_literals" "region (?lit s) n \<subseteq> region 0x08048000 26" "n = Suc (length s)"
    "find (\<lambda>d. entry_name (dname d) = take 32 (map of_char s)) ds = Some d" "s \<noteq> []" for s d n
    unfolding names_def using hl [OF s(1)] dir s(2-5) assms by (intro exI [of _ "map of_char s"] exI [of _ ds]) auto
  have e: "entry_name (dname (sample_entry ''rtc'' 0 0)) = map of_char ''rtc''" "entry_name (dname (sample_entry ''frame0.txt'' 2 0)) = map of_char ''frame0.txt''"
    "entry_name (dname (sample_entry ''frame1.txt'' 2 1)) = map of_char ''frame1.txt''" by (simp_all add: entry_name_def sample_entry_def)
  have g: "region (0x08048000 :: addr) 4 \<subseteq> region 0x08048000 26" "region (0x08048004 :: addr) 11 \<subseteq> region 0x08048000 26"
    "region (0x0804800F :: addr) 11 \<subseteq> region 0x08048000 26"
    using region_sub [of 0 4 26 "0x08048000"] region_sub [of 4 11 26 "0x08048000"] region_sub [of 15 11 26 "0x08048000"] by simp_all
  have l: "?lit ''rtc'' = 0x08048000" "?lit ''frame0.txt'' = 0x08048004" "?lit ''frame1.txt'' = 0x0804800F" by (simp_all add: fish_literals_def)
  show "names A 0x08048000 (sample_entry ''rtc'' 0 0) sample_fish"
    by (rule nm [of "''rtc''" 4, unfolded l]) (use g in \<open>simp_all add: fish_literals_def ds(2) e\<close>)
  show "names A 0x08048004 (sample_entry ''frame0.txt'' 2 0) sample_fish"
    by (rule nm [of "''frame0.txt''" 11, unfolded l]) (use g in \<open>simp_all add: fish_literals_def ds(2) e\<close>)
  show "names A 0x0804800F (sample_entry ''frame1.txt'' 2 1) sample_fish"
    by (rule nm [of "''frame1.txt''" 11, unfolded l]) (use g in \<open>simp_all add: fish_literals_def ds(2) e\<close>)
qed

text \<open>The variables of the program are at the addresses from \<open>0x08100000\<close> on.\<close>

lemma sample_fish_ready: "frames_ready 0 0x08100000 0x08048004 0x0804800F 0x08100008 0x0810000C [0x61] [0x62] sample_fish"
proof -
  note F = sample_prog_fields [where ss = fish_literals and p = sample_fish_mem, folded sample_fish_def]
  let ?A = "region (0x08100000 :: addr) 4 \<union> {0x08100008, 0x0810000C}"
  have sub: "region (0x08100000 :: addr) 13 \<subseteq> upage" by (rule upage_region) simp_all
  have m: "0x08100008 \<in> region (0x08100000 :: addr) 13" "0x0810000C \<in> region (0x08100000 :: addr) 13" "region (0x08100000 :: addr) 4 \<subseteq> region 0x08100000 13"
    using region_memI [of 8 13 "0x08100000"] region_memI [of 12 13 "0x08100000"] region_mono [of 4 13 "0x08100000"] by simp_all
  have "region (0x08048000 :: addr) 26 \<inter> region 0x08100000 13 = {}" by (rule region_disjoint) simp_all
  then have d: "?A \<inter> region 0x08048000 26 = {}" using m by blast
  have "region (0x08100000 :: addr) 4 \<inter> region 0x08100008 5 = {}" by (rule region_disjoint) simp_all
  then have n: "0x08100008 \<notin> region (0x08100000 :: addr) 4" "0x0810000C \<notin> region (0x08100000 :: addr) 4"
    using region_memI [of 0 5 "0x08100008"] region_memI [of 4 5 "0x08100008"] by auto
  show ?thesis unfolding frames_ready_def
    using sample_fish_names(2,3) [OF d] sample_fish_frames n m sub F(7) [of 3] F(7) [of 4] F(11) [of 3] F(11) [of 4] by (auto simp: fd_free_def)
qed

definition no_blinks :: blink_state where
  "no_blinks = \<lparr>blink_array = (\<lambda>_. zero_blink), mp1_list_head = None\<rparr>"

lemma sample_frames_ops: "frames_ops zero_blink 0 (split_lines [0x61]) (split_lines [0x62]) = [Ioctl (RTC_ADD (frame_blink zero_blink 0 0 0x61 0x62))]"
  by (simp add: row_ops_def cell_ops_def char_at_def)


theorem blink_alternates_witness:
  "\<exists>k vb w rs s' k' cells' p. canvas 0 vb w (cells', p) k \<and>
    run_ops vb (Ioctl (RTC_ADD (im_blink zero_blink)) # replicate 10 Tasklet) (no_blinks, sample_env, k) = Some (rs, s', sample_env, k') \<and>
    (\<exists>cells'. displays (mach k') (cells', p) \<and> fst (cells' ! 540) = 0x4D)"
proof -
  note F = sample_prog_fields [where ss = fish_literals and p = sample_fish_mem, folded sample_fish_def]
  note r = sample_prog_ready [OF fish_literals_ok(2,3), where p = sample_fish_mem, folded sample_fish_def]
  obtain con where "displays (mach sample_fish) con" using r(4) by blast
  then obtain cells p where d: "displays (mach sample_fish) (cells, p)" by (cases con) auto
  have vb: "region (0x08100000 :: addr) 4 \<subseteq> upage" "cur_terminal sample_fish < 3" using upage_region [of "0x08100000" 4] F(1) by simp_all
  obtain k w where c: "canvas 0 0x08100000 w (cells, p) k" using set_video_mode_canvas [OF r(1) sample_fish_page vb(2,1) d, of sample_env] by blast
  have l: "linked no_blinks []" by (simp add: linked_def no_blinks_def zero_blink_def)
  have b: "location (im_blink zero_blink) = 540" "on_length (im_blink zero_blink) = 7" "off_length (im_blink zero_blink) = 6" "off_char (im_blink zero_blink) = 0x4D"
    by (simp_all add: im_blink_def)
  have "location (im_blink zero_blink) \<noteq> 0" "location (im_blink zero_blink) < 2000" "lengths_ok (im_blink zero_blink)" by (simp_all add: b lengths_ok_def)
  from blink_alternates [OF c l _ _ this, of 10 sample_env] c show ?thesis by (simp add: b) blast
qed

end
