(* ===== verification/Pingpong.thy ===== *)
theory Pingpong
  imports Fish
begin

text \<open>
  \<open>syscalls/ece391pingpong.c\<close>: a character that moves between two walls, one place for each tick of
  the clock.  The loop of \<open>main\<close> does not end; \<open>n\<close> is the number of its rounds that are observed.
  \<open>buf\<close> is the address of the array of 81 bytes, \<open>pr\<close> and \<open>pg\<close> are those of \<open>ret_val\<close> and
  \<open>garbage\<close>.
\<close>

section \<open>Definitions\<close>

fun put_spaces :: "addr \<Rightarrow> nat \<Rightarrow> nat \<Rightarrow> 'e ustate \<Rightarrow> 'e ustate option" where
  "put_spaces buf i 0 u = Some u"
| "put_spaces buf i (Suc n) u = do { u \<leftarrow> store_byte (buf + word_of_nat i) 0x20 u; put_spaces buf (i + 1) n u }"

text \<open>The body of both inner loops: the world with the character at \<open>j\<close>, and a wait.\<close>

definition ping_frame :: "addr \<Rightarrow> addr \<Rightarrow> int \<Rightarrow> u8 \<Rightarrow> nat \<Rightarrow> 'e ustate \<Rightarrow> 'e ustate option" where
  "ping_frame buf pg rtc_fd curchar j u = do {
     u \<leftarrow> put_spaces buf 2 76 u;
     u \<leftarrow> store_byte (buf + word_of_nat j) curchar u;
     u \<leftarrow> ece391_fdputs 1 buf u;
     (_, u) \<leftarrow> ece391_read rtc_fd pg 4 u;
     Some u
   }"

fun ping_out :: "addr \<Rightarrow> addr \<Rightarrow> int \<Rightarrow> u8 \<Rightarrow> nat \<Rightarrow> nat \<Rightarrow> 'e ustate \<Rightarrow> 'e ustate option" where
  "ping_out buf pg rtc_fd curchar j 0 u = Some u"
| "ping_out buf pg rtc_fd curchar j (Suc n) u = do { u \<leftarrow> ping_frame buf pg rtc_fd curchar j u; ping_out buf pg rtc_fd curchar (j + 1) n u }"

fun ping_back :: "addr \<Rightarrow> addr \<Rightarrow> int \<Rightarrow> u8 \<Rightarrow> nat \<Rightarrow> 'e ustate \<Rightarrow> 'e ustate option" where
  "ping_back buf pg rtc_fd curchar 0 u = Some u"
| "ping_back buf pg rtc_fd curchar (Suc n) u = do { u \<leftarrow> ping_frame buf pg rtc_fd curchar (n + 2) u; ping_back buf pg rtc_fd curchar n u }"

definition next_char :: "u8 \<Rightarrow> u8" where
  "next_char c = (if c = 0x5A then 0x41 else c + 1)"

fun pingpong_loop :: "addr \<Rightarrow> addr \<Rightarrow> int \<Rightarrow> u8 \<Rightarrow> nat \<Rightarrow> 'e ustate \<Rightarrow> 'e ustate option" where
  "pingpong_loop buf pg rtc_fd curchar 0 u = Some u"
| "pingpong_loop buf pg rtc_fd curchar (Suc n) u = do {
     u \<leftarrow> ping_out buf pg rtc_fd curchar 2 76 u;
     u \<leftarrow> ping_back buf pg rtc_fd curchar 76 u;
     pingpong_loop buf pg rtc_fd (next_char curchar) n u
   }"

definition ping_world :: "addr \<Rightarrow> 'e ustate \<Rightarrow> 'e ustate option" where
  "ping_world buf u = do {
     u \<leftarrow> put_spaces buf 0 81 u;
     u \<leftarrow> store_byte (buf + word_of_nat 80) 0 u;
     u \<leftarrow> store_byte (buf + word_of_nat 79) 10 u;
     u \<leftarrow> store_byte (buf + word_of_nat 78) 0x7C u;
     store_byte (buf + word_of_nat 1) 0x7C u
   }"

definition pingpong_main :: "(string \<Rightarrow> addr) \<Rightarrow> addr \<Rightarrow> addr \<Rightarrow> addr \<Rightarrow> nat \<Rightarrow> 'e ustate \<Rightarrow> 'e ustate option" where
  "pingpong_main lit buf pr pg n u = do {
     u \<leftarrow> ping_world buf u;
     (rtc_fd, u) \<leftarrow> ece391_open (lit ''rtc'') u;
     u \<leftarrow> store_word pr 32 u;
     (r, u) \<leftarrow> ece391_write rtc_fd pr 4 u;
     u \<leftarrow> store_word pr (word_of_int r) u;
     pingpong_loop buf pg rtc_fd 0x41 n u
   }"

section \<open>What is printed\<close>

definition ping_line :: "u8 \<Rightarrow> nat \<Rightarrow> u8 list" where
  "ping_line c i = [0x20, 0x7C] @ (replicate 76 0x20)[i := c] @ [0x7C, 10]"

definition round_output :: "u8 \<Rightarrow> u8 list" where
  "round_output c = concat (map (ping_line c) ([0..<76] @ rev [0..<76]))"

definition round_char :: "nat \<Rightarrow> u8" where
  "round_char i = 0x41 + word_of_nat (i mod 26)"

section \<open>The state of the game\<close>

definition playing :: "int \<Rightarrow> addr \<Rightarrow> u8 list \<Rightarrow> console \<Rightarrow> kernel \<Rightarrow> bool" where
  "playing pid buf bs con k \<longleftrightarrow> running pid k \<and> region buf 81 \<subseteq> upage \<and> ld_bytes (kvm k) buf 81 = Some bs \<and> displays (mach k) con"

lemma playing_changes:
  assumes "playing pid buf bs con k" and "changes A (kvm k) v" and "A \<subseteq> upage" and "ld_bytes v buf 81 = Some bs'"
  shows "playing pid buf bs' con (set_vm v k)"
  using assms running_changes [OF _ assms(2)] displays_changes [OF _ assms(2) apart_subset [OF upage_memory(3) assms(3) subset_refl]]
  by (auto simp: playing_def running_def set_vm_def)

lemma set_vm_mach: "set_vm v k = k\<lparr>mach := (mach k)\<lparr>vm := v\<rparr>\<rparr>"
  by (simp add: set_vm_def)

lemma playing_store:
  assumes p: "playing pid buf bs con k" and i: "i < 81"
  shows "\<exists>m. store_byte (buf + word_of_nat i) x (e, k) = Some (e, k\<lparr>mach := m\<rparr>) \<and> playing pid buf (bs[i := x]) con (k\<lparr>mach := m\<rparr>) \<and>
    leaves (region buf 81) k (k\<lparr>mach := m\<rparr>)"
proof -
  have run: "running pid k" and up: "region buf 81 \<subseteq> upage" and ld: "ld_bytes (kvm k) buf 81 = Some bs" using p by (simp_all add: playing_def)
  have m: "buf + word_of_nat i \<in> region buf 81" by (rule region_memI [OF i])
  obtain v where v: "store_byte (buf + word_of_nat i) x (e, k) = Some (e, set_vm v k)" "st8 (kvm k) (buf + word_of_nat i) x = Some v"
    using store_user [OF run] m up by blast
  have "ld_bytes v buf 81 = Some (bs[i := x])" using ld_bytes_store [OF mapped_subset [OF upage_memory(1) [OF run] up] ld i _ v(2)] by simp
  then have "playing pid buf (bs[i := x]) con (set_vm v k)" using playing_changes [OF p st8_changes [OF v(2)]] m up by blast
  moreover have "leaves {buf + word_of_nat i} k (set_vm v k)" by (rule leaves_changes [OF run]) (use m up st8_changes [OF v(2)] in auto)
  then have "leaves (region buf 81) k (set_vm v k)" by (rule leaves_mono) (use m in simp)
  ultimately show ?thesis using v(1) unfolding set_vm_mach by blast
qed

lemma playing_length: "playing pid buf bs con k \<Longrightarrow> length bs = 81"
  unfolding playing_def using ld_bytes_length by blast

lemma playing_spaces:
  assumes "playing pid buf bs con k" and "i + n \<le> 81"
  shows "\<exists>m. put_spaces buf i n (e, k) = Some (e, k\<lparr>mach := m\<rparr>) \<and>
    playing pid buf (take i bs @ replicate n 0x20 @ drop (i + n) bs) con (k\<lparr>mach := m\<rparr>) \<and> leaves (region buf 81) k (k\<lparr>mach := m\<rparr>)"
  using assms
proof (induction n arbitrary: i bs k)
  case 0
  then show ?case by (intro exI [of _ "mach k"]) (simp add: leaves_def agree_def)
next
  case (Suc n)
  obtain m where m: "store_byte (buf + word_of_nat i) 0x20 (e, k) = Some (e, k\<lparr>mach := m\<rparr>)" "playing pid buf (bs[i := 0x20]) con (k\<lparr>mach := m\<rparr>)"
    "leaves (region buf 81) k (k\<lparr>mach := m\<rparr>)" using playing_store [OF Suc.prems(1), of i "0x20" e] Suc.prems(2) by auto
  obtain m' where m': "put_spaces buf (i + 1) n (e, k\<lparr>mach := m\<rparr>) = Some (e, k\<lparr>mach := m'\<rparr>)"
    "playing pid buf (take (i + 1) (bs[i := 0x20]) @ replicate n 0x20 @ drop (i + 1 + n) (bs[i := 0x20])) con (k\<lparr>mach := m'\<rparr>)"
    "leaves (region buf 81) (k\<lparr>mach := m\<rparr>) (k\<lparr>mach := m'\<rparr>)" using Suc.IH [OF m(2), of "i + 1"] Suc.prems(2) by auto
  have "take (i + 1) (bs[i := 0x20]) @ replicate n 0x20 @ drop (i + 1 + n) (bs[i := 0x20]) = take i bs @ replicate (Suc n) 0x20 @ drop (i + Suc n) bs"
    using playing_length [OF Suc.prems(1)] Suc.prems(2) by (simp add: take_Suc_conv_app_nth)
  moreover have "leaves (region buf 81) k (k\<lparr>mach := m'\<rparr>)" using leaves_trans [OF m(3) m'(3)] by simp
  ultimately show ?case using m(1) m'(1,2) by auto
qed

lemma playing_mach:
  assumes "playing pid buf bs con k" and "vm m = kvm k" and "screen_x m = screen_x (mach k)" and "screen_y m = screen_y (mach k)"
  shows "playing pid buf bs con (k\<lparr>mach := m\<rparr>)"
  using assms by (simp add: playing_def running_def displays_def cursor_ok_def)

lemma playing_puts:
  assumes p: "playing pid buf (l @ [0]) con k" and l: "0 \<notin> set l"
  shows "\<exists>m. ece391_fdputs 1 buf (e, k) = Some (e, k\<lparr>mach := m\<rparr>) \<and> playing pid buf (l @ [0]) (fold con_putc l con) (k\<lparr>mach := m\<rparr>)"
proof -
  have run: "running pid k" and up: "region buf 81 \<subseteq> upage" and ld: "ld_bytes (kvm k) buf 81 = Some (l @ [0])" and d: "displays (mach k) con"
    using p by (simp_all add: playing_def)
  have n: "Suc (length l) = 81" using playing_length [OF p] by simp
  then have c: "cstring (kvm k) buf l" using ld l by (simp add: cstring_def)
  have r: "region buf (Suc (length l)) \<subseteq> upage" using up n by simp
  then obtain m where m: "ece391_fdputs 1 buf (e, k) = Some (e, k\<lparr>mach := m\<rparr>)" "displays m (fold con_putc l con)" "console_frame (mach k) m"
    using fdputs_user [OF run c r d upage_nonzero [OF r], of e] by blast
  have "changes screen_region (kvm k) (vm m)" using m(3) by (simp add: console_frame_def)
  then have "agree upage (kvm k) (vm m)" by (rule agree_changes [OF _ apart_sym [OF upage_memory(3) [OF run]]])
  then have "ld_bytes (vm m) buf 81 = Some (l @ [0])" using ld ld_bytes_agree [OF agree_mono [OF _ up]] by simp
  then show ?thesis using m running_console [OF run m(3)] up by (intro exI [of _ m]) (simp add: playing_def)
qed

section \<open>One frame, one round\<close>

definition world :: "u8 list \<Rightarrow> bool" where
  "world bs \<longleftrightarrow> (\<exists>inner. length inner = 76 \<and> bs = [0x20, 0x7C] @ inner @ [0x7C, 10, 0])"

lemma on_clock_mach [simp]: "on_clock pid (k\<lparr>mach := m\<rparr>) = on_clock pid k"
  by (simp add: on_clock_def rtc_open_at_def)

lemma ping_line_facts: "i < 76 \<Longrightarrow> world (ping_line c i @ [0])" "c \<noteq> 0 \<Longrightarrow> 0 \<notin> set (ping_line c i)"
proof -
  show "world (ping_line c i @ [0])" by (auto simp: world_def ping_line_def intro!: exI [of _ "(replicate 76 0x20)[i := c]"])
  show "c \<noteq> 0 \<Longrightarrow> 0 \<notin> set (ping_line c i)" using set_update_subset_insert [of "replicate 76 (0x20 :: u8)" i c] by (auto simp: ping_line_def)
qed

lemma ping_frame_prints:
  assumes p: "playing pid buf bs con k" and w: "world bs" and c: "on_clock pid k" and pg: "pg \<in> upage" and i: "i < 76" and cc: "cc \<noteq> 0"
    and irq: "e_rtc_irqs e = Irq_rtc # irqs"
  shows "\<exists>m. ping_frame buf pg 2 cc (i + 2) (e, k) = Some (e\<lparr>e_rtc_irqs := irqs\<rparr>, k\<lparr>mach := m\<rparr>) \<and>
    playing pid buf (ping_line cc i @ [0]) (fold con_putc (ping_line cc i) con) (k\<lparr>mach := m\<rparr>)"
proof -
  obtain inner where inner: "length inner = 76" "bs = [0x20, 0x7C] @ inner @ [0x7C, 10, 0]" using w by (auto simp: world_def)
  let ?bs = "[0x20, 0x7C] @ replicate 76 0x20 @ [0x7C, 10, 0 :: u8]"
  have "take 2 bs @ replicate 76 0x20 @ drop (2 + 76) bs = ?bs" using inner by simp
  then obtain m1 where m1: "put_spaces buf 2 76 (e, k) = Some (e, k\<lparr>mach := m1\<rparr>)" "playing pid buf ?bs con (k\<lparr>mach := m1\<rparr>)"
    using playing_spaces [OF p, of 2 76 e] by auto
  have "?bs[i + 2 := cc] = ping_line cc i @ [0]" using i by (simp add: ping_line_def list_update_append)
  then obtain m2 where m2: "store_byte (buf + word_of_nat (i + 2)) cc (e, k\<lparr>mach := m1\<rparr>) = Some (e, k\<lparr>mach := m2\<rparr>)"
    "playing pid buf (ping_line cc i @ [0]) con (k\<lparr>mach := m2\<rparr>)" using playing_store [OF m1(2), of "i + 2" cc e] i by auto
  obtain m3 where m3: "ece391_fdputs 1 buf (e, k\<lparr>mach := m2\<rparr>) = Some (e, k\<lparr>mach := m3\<rparr>)"
    "playing pid buf (ping_line cc i @ [0]) (fold con_putc (ping_line cc i) con) (k\<lparr>mach := m3\<rparr>)"
    using playing_puts [OF m2(2) ping_line_facts(2) [OF cc], of e] by auto
  obtain m4 where "ece391_read 2 pg 4 (e, k\<lparr>mach := m3\<rparr>) = Some (0, e\<lparr>e_rtc_irqs := irqs\<rparr>, k\<lparr>mach := m4\<rparr>)" "vm m4 = vm m3" "screen_x m4 = screen_x m3"
    "screen_y m4 = screen_y m3" using rtc_wait [of pid "k\<lparr>mach := m3\<rparr>" pg e irqs] c pg irq by auto
  moreover from this have "playing pid buf (ping_line cc i @ [0]) (fold con_putc (ping_line cc i) con) (k\<lparr>mach := m4\<rparr>)"
    using playing_mach [OF m3(2), of m4] by simp
  ultimately show ?thesis using m1(1) m2(1) m3(1) unfolding ping_frame_def by (intro exI [of _ m4]) (simp del: of_nat_add)
qed

lemma ping_out_prints:
  assumes "playing pid buf bs con k" and "world bs" and "on_clock pid k" and "pg \<in> upage" and "i + n \<le> 76" and "cc \<noteq> 0"
    and "e_rtc_irqs e = replicate n Irq_rtc @ irqs"
  shows "\<exists>m bs'. ping_out buf pg 2 cc (i + 2) n (e, k) = Some (e\<lparr>e_rtc_irqs := irqs\<rparr>, k\<lparr>mach := m\<rparr>) \<and> world bs' \<and>
    playing pid buf bs' (fold con_putc (concat (map (ping_line cc) [i..<i + n])) con) (k\<lparr>mach := m\<rparr>)"
  using assms
proof (induction n arbitrary: i bs con k e)
  case 0
  then show ?case by (intro exI [of _ "mach k"] exI [of _ bs]) simp
next
  case (Suc n)
  let ?e = "e\<lparr>e_rtc_irqs := replicate n Irq_rtc @ irqs\<rparr>"
  obtain m where m: "ping_frame buf pg 2 cc (i + 2) (e, k) = Some (?e, k\<lparr>mach := m\<rparr>)"
    "playing pid buf (ping_line cc i @ [0]) (fold con_putc (ping_line cc i) con) (k\<lparr>mach := m\<rparr>)"
    using ping_frame_prints [OF Suc.prems(1-4) _ Suc.prems(6), of i e] Suc.prems(5,7) by auto
  obtain m' bs' where "ping_out buf pg 2 cc (Suc i + 2) n (?e, k\<lparr>mach := m\<rparr>) = Some (?e\<lparr>e_rtc_irqs := irqs\<rparr>, k\<lparr>mach := m'\<rparr>)" "world bs'"
    "playing pid buf bs' (fold con_putc (concat (map (ping_line cc) [Suc i..<Suc i + n])) (fold con_putc (ping_line cc i) con)) (k\<lparr>mach := m'\<rparr>)"
    using Suc.IH [OF m(2), of "Suc i" ?e] ping_line_facts(1) [of i cc] Suc.prems(3-6) by auto
  moreover have "[i..<i + Suc n] = i # [Suc i..<Suc i + n]" by (simp add: upt_conv_Cons)
  ultimately show ?case using m(1) by (intro exI [of _ m'] exI [of _ bs']) simp
qed

lemma ping_back_prints:
  assumes "playing pid buf bs con k" and "world bs" and "on_clock pid k" and "pg \<in> upage" and "n \<le> 76" and "cc \<noteq> 0"
    and "e_rtc_irqs e = replicate n Irq_rtc @ irqs"
  shows "\<exists>m bs'. ping_back buf pg 2 cc n (e, k) = Some (e\<lparr>e_rtc_irqs := irqs\<rparr>, k\<lparr>mach := m\<rparr>) \<and> world bs' \<and>
    playing pid buf bs' (fold con_putc (concat (map (ping_line cc) (rev [0..<n]))) con) (k\<lparr>mach := m\<rparr>)"
  using assms
proof (induction n arbitrary: bs con k e)
  case 0
  then show ?case by (intro exI [of _ "mach k"] exI [of _ bs]) simp
next
  case (Suc n)
  let ?e = "e\<lparr>e_rtc_irqs := replicate n Irq_rtc @ irqs\<rparr>"
  obtain m where m: "ping_frame buf pg 2 cc (n + 2) (e, k) = Some (?e, k\<lparr>mach := m\<rparr>)"
    "playing pid buf (ping_line cc n @ [0]) (fold con_putc (ping_line cc n) con) (k\<lparr>mach := m\<rparr>)"
    using ping_frame_prints [OF Suc.prems(1-4) _ Suc.prems(6), of n e] Suc.prems(5,7) by auto
  obtain m' bs' where "ping_back buf pg 2 cc n (?e, k\<lparr>mach := m\<rparr>) = Some (?e\<lparr>e_rtc_irqs := irqs\<rparr>, k\<lparr>mach := m'\<rparr>)" "world bs'"
    "playing pid buf bs' (fold con_putc (concat (map (ping_line cc) (rev [0..<n]))) (fold con_putc (ping_line cc n) con)) (k\<lparr>mach := m'\<rparr>)"
    using Suc.IH [OF m(2), of ?e] ping_line_facts(1) [of n cc] Suc.prems(3-6) by auto
  then show ?case using m(1) by (intro exI [of _ m'] exI [of _ bs']) simp
qed

lemma round_char_facts: "round_char i \<noteq> 0" "next_char (round_char i) = round_char (Suc i)"
proof -
  have "\<forall>r < 26. (0x41 + word_of_nat r :: u8) \<noteq> 0 \<and>
    next_char (0x41 + word_of_nat r) = 0x41 + word_of_nat (if Suc r = 26 then 0 else Suc r)" unfolding next_char_def by code_simp
  then have "(0x41 + word_of_nat (i mod 26) :: u8) \<noteq> 0 \<and>
    next_char (0x41 + word_of_nat (i mod 26)) = 0x41 + word_of_nat (if Suc (i mod 26) = 26 then 0 else Suc (i mod 26))" using mod_less_divisor [of 26 i, OF zero_less_numeral] by blast
  then show "round_char i \<noteq> 0" "next_char (round_char i) = round_char (Suc i)" unfolding round_char_def mod_Suc [of i 26] by blast+
qed

lemma pingpong_loop_prints:
  assumes "playing pid buf bs con k" and "world bs" and "on_clock pid k" and "pg \<in> upage" and "e_rtc_irqs e = replicate (152 * n) Irq_rtc @ irqs"
  shows "\<exists>m bs'. pingpong_loop buf pg 2 (round_char r) n (e, k) = Some (e\<lparr>e_rtc_irqs := irqs\<rparr>, k\<lparr>mach := m\<rparr>) \<and>
    playing pid buf bs' (fold con_putc (concat (map (round_output \<circ> round_char) [r..<r + n])) con) (k\<lparr>mach := m\<rparr>)"
  using assms
proof (induction n arbitrary: r bs con k e)
  case 0
  then show ?case by (intro exI [of _ "mach k"] exI [of _ bs]) simp
next
  case (Suc n)
  let ?c = "round_char r" and ?i1 = "replicate 76 Irq_rtc @ replicate (152 * n) Irq_rtc @ irqs" and ?i2 = "replicate (152 * n) Irq_rtc @ irqs"
  have i: "e_rtc_irqs e = replicate 76 Irq_rtc @ ?i1" using Suc.prems(5) by (simp flip: append_assoc replicate_add)
  obtain m1 bs1 where m1: "ping_out buf pg 2 ?c 2 76 (e, k) = Some (e\<lparr>e_rtc_irqs := ?i1\<rparr>, k\<lparr>mach := m1\<rparr>)" "world bs1"
    "playing pid buf bs1 (fold con_putc (concat (map (ping_line ?c) [0..<76])) con) (k\<lparr>mach := m1\<rparr>)"
    using ping_out_prints [of pid buf bs con k pg 0 76 ?c e ?i1, unfolded add_0, OF Suc.prems(1-4) order_refl round_char_facts(1) i] by blast
  obtain m2 bs2 where m2: "ping_back buf pg 2 ?c 76 (e\<lparr>e_rtc_irqs := ?i1\<rparr>, k\<lparr>mach := m1\<rparr>) = Some (e\<lparr>e_rtc_irqs := ?i2\<rparr>, k\<lparr>mach := m2\<rparr>)" "world bs2"
    "playing pid buf bs2 (fold con_putc (concat (map (ping_line ?c) (rev [0..<76]))) (fold con_putc (concat (map (ping_line ?c) [0..<76])) con)) (k\<lparr>mach := m2\<rparr>)"
    using ping_back_prints [OF m1(3,2) _ Suc.prems(4) order_refl round_char_facts(1) [of r], of "e\<lparr>e_rtc_irqs := ?i1\<rparr>" ?i2] Suc.prems(3) by auto
  have f: "fold con_putc (concat (map (ping_line ?c) (rev [0..<76]))) (fold con_putc (concat (map (ping_line ?c) [0..<76])) con) = fold con_putc (round_output ?c) con"
    unfolding round_output_def by (simp only: map_append concat_append fold_append comp_apply)
  obtain m3 bs3 where "pingpong_loop buf pg 2 (round_char (Suc r)) n (e\<lparr>e_rtc_irqs := ?i2\<rparr>, k\<lparr>mach := m2\<rparr>) = Some (e\<lparr>e_rtc_irqs := irqs\<rparr>, k\<lparr>mach := m3\<rparr>)"
    "playing pid buf bs3 (fold con_putc (concat (map (round_output \<circ> round_char) [Suc r..<Suc r + n])) (fold con_putc (round_output ?c) con)) (k\<lparr>mach := m3\<rparr>)"
    using Suc.IH [OF m2(3,2) _ Suc.prems(4), of "e\<lparr>e_rtc_irqs := ?i2\<rparr>" "Suc r"] Suc.prems(3) unfolding f by (auto simp: comp_def simp del: upt_Suc)
  moreover have "[r..<r + Suc n] = r # [Suc r..<Suc r + n]" by (simp add: upt_conv_Cons)
  ultimately show ?case using m1(1) m2(1) round_char_facts(2) [of r] by (intro exI [of _ m3] exI [of _ bs3]) (simp add: comp_def del: upt_Suc)
qed


section \<open>The program\<close>

lemma ping_world_ready:
  assumes run: "running pid k" and up: "region buf 81 \<subseteq> upage" and d: "displays (mach k) con"
  shows "\<exists>m bs. ping_world buf (e, k) = Some (e, k\<lparr>mach := m\<rparr>) \<and> playing pid buf bs con (k\<lparr>mach := m\<rparr>) \<and> world bs \<and> leaves (region buf 81) k (k\<lparr>mach := m\<rparr>)"
proof -
  obtain bs0 where bs0: "ld_bytes (kvm k) buf 81 = Some bs0" using ld_bytes_mapped [OF mapped_subset [OF upage_memory(1) [OF run] up]] by blast
  have p0: "playing pid buf bs0 con k" using run up d bs0 by (simp add: playing_def)
  have "take 0 bs0 @ replicate 81 0x20 @ drop (0 + 81) bs0 = replicate 81 0x20" using playing_length [OF p0] by simp
  then obtain m1 where m1: "put_spaces buf 0 81 (e, k) = Some (e, k\<lparr>mach := m1\<rparr>)" "playing pid buf (replicate 81 0x20) con (k\<lparr>mach := m1\<rparr>)"
    "leaves (region buf 81) k (k\<lparr>mach := m1\<rparr>)" using playing_spaces [OF p0, of 0 81 e] by auto
  have store: "\<exists>m'. store_byte (buf + word_of_nat i) x (e, k\<lparr>mach := m\<rparr>) = Some (e, k\<lparr>mach := m'\<rparr>) \<and> playing pid buf (bs[i := x]) con (k\<lparr>mach := m'\<rparr>) \<and>
      leaves (region buf 81) k (k\<lparr>mach := m'\<rparr>)"
    if p: "playing pid buf bs con (k\<lparr>mach := m\<rparr>)" and l: "leaves (region buf 81) k (k\<lparr>mach := m\<rparr>)" and i: "i < 81" for m bs i x
  proof -
    obtain m' where m': "store_byte (buf + word_of_nat i) x (e, k\<lparr>mach := m\<rparr>) = Some (e, k\<lparr>mach := m'\<rparr>)" "playing pid buf (bs[i := x]) con (k\<lparr>mach := m'\<rparr>)"
      "leaves (region buf 81) (k\<lparr>mach := m\<rparr>) (k\<lparr>mach := m'\<rparr>)" using playing_store [OF p i, of x e] by auto
    then show ?thesis using leaves_trans [OF l m'(3)] by auto
  qed
  obtain m2 where m2: "store_byte (buf + word_of_nat 80) 0 (e, k\<lparr>mach := m1\<rparr>) = Some (e, k\<lparr>mach := m2\<rparr>)"
    "playing pid buf ((replicate 81 0x20)[80 := 0]) con (k\<lparr>mach := m2\<rparr>)" "leaves (region buf 81) k (k\<lparr>mach := m2\<rparr>)" using store [OF m1(2,3), of 80 0] by auto
  obtain m3 where m3: "store_byte (buf + word_of_nat 79) 10 (e, k\<lparr>mach := m2\<rparr>) = Some (e, k\<lparr>mach := m3\<rparr>)"
    "playing pid buf ((replicate 81 0x20)[80 := 0, 79 := 10]) con (k\<lparr>mach := m3\<rparr>)" "leaves (region buf 81) k (k\<lparr>mach := m3\<rparr>)" using store [OF m2(2,3), of 79 10] by auto
  obtain m4 where m4: "store_byte (buf + word_of_nat 78) 0x7C (e, k\<lparr>mach := m3\<rparr>) = Some (e, k\<lparr>mach := m4\<rparr>)"
    "playing pid buf ((replicate 81 0x20)[80 := 0, 79 := 10, 78 := 0x7C]) con (k\<lparr>mach := m4\<rparr>)" "leaves (region buf 81) k (k\<lparr>mach := m4\<rparr>)"
    using store [OF m3(2,3), of 78 "0x7C"] by auto
  obtain m5 where m5: "store_byte (buf + word_of_nat 1) 0x7C (e, k\<lparr>mach := m4\<rparr>) = Some (e, k\<lparr>mach := m5\<rparr>)"
    "playing pid buf ((replicate 81 0x20)[80 := 0, 79 := 10, 78 := 0x7C, 1 := 0x7C]) con (k\<lparr>mach := m5\<rparr>)" "leaves (region buf 81) k (k\<lparr>mach := m5\<rparr>)"
    using store [OF m4(2,3), of 1 "0x7C"] by auto
  have "world ((replicate 81 0x20)[80 := 0, 79 := 10, 78 := 0x7C, 1 := 0x7C])"
    unfolding world_def by (intro exI [of _ "replicate 76 0x20"]) (simp add: numeral_eq_Suc)
  moreover have "ping_world buf (e, k) = Some (e, k\<lparr>mach := m5\<rparr>)"
    unfolding ping_world_def by (simp only: m1(1) m2(1) m3(1) m4(1) m5(1) bind.bind_lunit)
  ultimately show ?thesis using m5(2,3) by blast
qed

lemma playing_store_word:
  assumes p: "playing pid buf bs con k" and a: "region a 4 \<subseteq> upage - region buf 81"
  shows "\<exists>m. store_word a x (e, k) = Some (e, k\<lparr>mach := m\<rparr>) \<and> playing pid buf bs con (k\<lparr>mach := m\<rparr>) \<and> ld32 (vm m) a = Some x"
proof -
  have run: "running pid k" and up: "region buf 81 \<subseteq> upage" and ld: "ld_bytes (kvm k) buf 81 = Some bs" using p by (simp_all add: playing_def)
  have a4: "region a 4 \<subseteq> upage" using a by blast
  obtain v where v: "store_word a x (e, k) = Some (e, set_vm v k)" "changes (region a 4) (kvm k) v" "ld32 v a = Some x"
    using store_word_user [OF run a4, of x e] by blast
  have "apart (kvm k) (region a 4) (region buf 81)" using a up by (intro apart_mapped mapped_subset [OF upage_memory(1) [OF run]]) auto
  then have "ld_bytes v buf 81 = Some bs" using ld ld_bytes_agree [OF agree_changes [OF v(2)]] by simp
  then have "playing pid buf bs con (set_vm v k)" by (rule playing_changes [OF p v(2) a4])
  then show ?thesis using v(1,3) unfolding set_vm_mach by (intro exI [of _ "(mach k)\<lparr>vm := v\<rparr>"]) simp
qed

text \<open>
  C11: The program \<open>pingpong\<close> prints, in every round of its endless loop, the 152 lines on which a
  character moves from the left wall to the right one and back, one line per tick of the clock; the
  character is \<open>A\<close> in the first round and the next letter, after \<open>Z\<close> again \<open>A\<close>, in each later one.
\<close>

theorem pingpong_prints:
  assumes "running pid k" and "region buf 81 \<subseteq> upage" and "region pr 4 \<subseteq> upage - region buf 81" and "pg \<in> upage" and "displays (mach k) con"
    and "names (region buf 81) (lit ''rtc'') d k" and "fileType d = 0" and "present (fd_of k pid 2) = -1"
    and "e_rtc_irqs e = replicate (152 * n) Irq_rtc @ irqs"
  shows "\<exists>k'. pingpong_main lit buf pr pg n (e, k) = Some (e\<lparr>e_rtc_irqs := irqs\<rparr>, k') \<and>
    displays (mach k') (fold con_putc (concat (map (\<lambda>i. round_output (0x41 + word_of_nat (i mod 26))) [0..<n])) con)"
proof -
  obtain m1 bs where m1: "ping_world buf (e, k) = Some (e, k\<lparr>mach := m1\<rparr>)" "playing pid buf bs con (k\<lparr>mach := m1\<rparr>)" "world bs"
    "leaves (region buf 81) k (k\<lparr>mach := m1\<rparr>)" using ping_world_ready [OF assms(1,2,5), of e] by blast
  define k2 where "k2 = opened_at pid 2 d (k\<lparr>mach := m1\<rparr>)"
  have run1: "running pid (k\<lparr>mach := m1\<rparr>)" using m1(2) by (simp add: playing_def)
  have nm: "names (region buf 81) (lit ''rtc'') d (k\<lparr>mach := m1\<rparr>)" by (rule names_leaves [OF assms(6) m1(4) subset_refl]) simp
  have "fst (get_fdAvail pid (k\<lparr>mach := m1\<rparr>)) = 2" using assms(8) by (simp add: get_fdAvail_def eval_nat_numeral)
  then have o: "ece391_open (lit ''rtc'') (e, k\<lparr>mach := m1\<rparr>) = Some (2, e, k2)" using open_named [OF nm run1, of 2 e] by (simp add: k2_def)
  have p2: "playing pid buf bs con k2" "on_clock pid k2" using m1(2) assms(7) by (simp_all add: k2_def playing_def on_clock_def rtc_open_at_def opened_def fop_of_type_def)
  obtain m3 where m3: "store_word pr 32 (e, k2) = Some (e, k2\<lparr>mach := m3\<rparr>)" "playing pid buf bs con (k2\<lparr>mach := m3\<rparr>)" "ld32 (vm m3) pr = Some 32"
    using playing_store_word [OF p2(1) assms(3), of 32 e] by blast
  have pr: "pr \<in> upage" using upage_word [of pr] assms(3) by auto
  obtain m4 where m4: "ece391_write 2 pr 4 (e, k2\<lparr>mach := m3\<rparr>) = Some (0, e, k2\<lparr>mach := m4\<rparr>)" "vm m4 = vm m3" "screen_x m4 = screen_x m3" "screen_y m4 = screen_y m3"
    using rtc_rate [of pid "k2\<lparr>mach := m3\<rparr>" pr e] p2(2) pr m3(3) by auto
  have p4: "playing pid buf bs con (k2\<lparr>mach := m4\<rparr>)" using playing_mach [OF m3(2), of m4] m4 by simp
  obtain m5 where m5: "store_word pr 0 (e, k2\<lparr>mach := m4\<rparr>) = Some (e, k2\<lparr>mach := m5\<rparr>)" "playing pid buf bs con (k2\<lparr>mach := m5\<rparr>)"
    using playing_store_word [OF p4 assms(3), of 0 e] by auto
  have r0: "round_char 0 = 0x41" by (simp add: round_char_def)
  obtain m6 bs6 where m6: "pingpong_loop buf pg 2 0x41 n (e, k2\<lparr>mach := m5\<rparr>) = Some (e\<lparr>e_rtc_irqs := irqs\<rparr>, k2\<lparr>mach := m6\<rparr>)"
    "playing pid buf bs6 (fold con_putc (concat (map (round_output \<circ> round_char) [0..<n])) con) (k2\<lparr>mach := m6\<rparr>)"
    using pingpong_loop_prints [OF m5(2) m1(3) _ assms(4,9), of 0] p2(2) by (auto simp: r0)
  have "pingpong_main lit buf pr pg n (e, k) = Some (e\<lparr>e_rtc_irqs := irqs\<rparr>, k2\<lparr>mach := m6\<rparr>)"
    unfolding pingpong_main_def by (simp only: m1(1) o m3(1) m4(1) m5(1) m6(1) bind.bind_lunit prod.case of_int_0)
  then show ?thesis using m6(2) by (intro exI [of _ "k2\<lparr>mach := m6\<rparr>"]) (simp add: playing_def round_char_def comp_def)
qed

theorem pingpong_prints_witness:
  "\<exists>con k'. pingpong_main (lit_at 0x08048000 fish_literals) 0x08100000 0x08100060 0x08100064 1 (sample_env\<lparr>e_rtc_irqs := replicate 152 Irq_rtc\<rparr>, sample_fish) =
      Some (sample_env\<lparr>e_rtc_irqs := []\<rparr>, k') \<and>
    displays (mach sample_fish) con \<and> displays (mach k') (fold con_putc (round_output 0x41) con)"
proof -
  note F = sample_prog_fields [where ss = fish_literals and p = sample_fish_mem, folded sample_fish_def]
  note r = sample_prog_ready [OF fish_literals_ok(2,3), where p = sample_fish_mem, folded sample_fish_def]
  let ?buf = "0x08100000 :: addr"
  obtain con where d: "displays (mach sample_fish) con" using r(4) by blast
  have up: "region ?buf 81 \<subseteq> upage" "region (0x08100060 :: addr) 4 \<subseteq> upage" by (rule upage_region; simp)+
  have dj: "region ?buf 81 \<inter> region 0x08100060 4 = {}" "region (0x08048000 :: addr) 26 \<inter> region ?buf 81 = {}" by (rule region_disjoint; simp)+
  have pr: "region (0x08100060 :: addr) 4 \<subseteq> upage - region ?buf 81" using up dj(1) by blast
  have pg: "(0x08100064 :: addr) \<in> upage" by (simp add: upage_def)
  have nm: "names (region ?buf 81) (lit_at 0x08048000 fish_literals ''rtc'') (sample_entry ''rtc'' 0 0) sample_fish"
    using sample_fish_names(1) [of "region ?buf 81"] dj(2) by (simp add: fish_literals_def Int_commute)
  have ft: "fileType (sample_entry ''rtc'' 0 0) = 0" "present (fd_of sample_fish 0 2) = -1" using F(7) [of 2] by (simp_all add: sample_entry_def fd_free_def)
  have i: "e_rtc_irqs (sample_env\<lparr>e_rtc_irqs := replicate 152 Irq_rtc\<rparr>) = replicate (152 * 1) Irq_rtc @ []" by simp
  from pingpong_prints [where lit = "lit_at 0x08048000 fish_literals", OF r(1) up(1) pr pg d nm ft i] obtain k' where
    "pingpong_main (lit_at 0x08048000 fish_literals) ?buf 0x08100060 0x08100064 1 (sample_env\<lparr>e_rtc_irqs := replicate 152 Irq_rtc\<rparr>, sample_fish) =
      Some (sample_env\<lparr>e_rtc_irqs := []\<rparr>, k')" "displays (mach k') (fold con_putc (round_output 0x41) con)" by auto
  then show ?thesis using d by blast
qed


end
