(* ===== verification/Sigtest.thy ===== *)
theory Sigtest
  imports Fish
begin

text \<open>
  \<open>syscalls/ece391sigtest.c\<close>: the test of signals, a feature this kernel does not have.  The calls
  that install the handlers fail, and the store through the null pointer \<open>badbuf\<close> faults: the
  process is ended by the exception handler (theory \<open>Idt\<close>), no message is printed.  \<open>buf\<close> is the
  address of the array of \<open>main\<close>, \<open>ch\<close> and \<open>pb\<close> are those of the variables \<open>charbuf\<close> and
  \<open>badbuf\<close>; \<open>seg\<close> and \<open>alm\<close> are the addresses of the handlers.
\<close>

section \<open>Definitions\<close>

definition SEGFAULT :: int where
  "SEGFAULT = 1"

definition ALARM :: int where
  "ALARM = 3"

definition ece391_set_handler :: "int \<Rightarrow> addr \<Rightarrow> 'e ustate \<Rightarrow> (int \<times> 'e ustate) option" where
  "ece391_set_handler signum handler u = do_call 9 (word_of_int signum) handler (e_reg (fst u)) u"

definition ece391_sigreturn :: "'e ustate \<Rightarrow> (int \<times> 'e ustate) option" where
  "ece391_sigreturn u = do_call 10 (e_reg (fst u)) (e_reg (fst u)) (e_reg (fst u)) u"

definition signum_text :: "int \<Rightarrow> string" where
  "signum_text signum = line_of (if signum = 0 then ''0'' else if signum = 1 then ''1'' else if signum = 2 then ''2'' else if signum = 3 then ''3'' else ''invalid'')"

text \<open>\<open>ps\<close> is the address of the argument \<open>signum\<close> on the stack, \<open>pbuf\<close> that of the local \<open>buf\<close>.\<close>

definition segfault_sighandler :: "(string \<Rightarrow> addr) \<Rightarrow> addr \<Rightarrow> addr \<Rightarrow> addr \<Rightarrow> addr \<Rightarrow> int \<Rightarrow> 'e ustate \<Rightarrow> 'e ustate option" where
  "segfault_sighandler lit ch pb ps pbuf signum u = do {
     u \<leftarrow> puts_lit lit ''Segfault signal handler called, signum: '' u;
     u \<leftarrow> puts_lit lit (signum_text signum) u;
     u \<leftarrow> puts_lit lit (line_of ''Press enter to continue...'') u;
     (_, u) \<leftarrow> ece391_read 0 pbuf 1 u;
     u \<leftarrow> store_word pb ch u;
     u \<leftarrow> store_word (ps + 28) ch u;
     puts_lit lit (line_of ''Signal handler returning'') u
   }"

definition alarm_sighandler :: "(string \<Rightarrow> addr) \<Rightarrow> int \<Rightarrow> 'e ustate \<Rightarrow> 'e ustate option" where
  "alarm_sighandler lit signum u = do {
     u \<leftarrow> puts_lit lit ''Alarm signal handler called, signum: '' u;
     puts_lit lit (signum_text signum) u
   }"

definition install_handlers :: "(string \<Rightarrow> addr) \<Rightarrow> addr \<Rightarrow> addr \<Rightarrow> 'e ustate \<Rightarrow> 'e ustate option" where
  "install_handlers lit seg alm u = do {
     u \<leftarrow> puts_lit lit (line_of ''Installing signal handlers'') u;
     (_, u) \<leftarrow> ece391_set_handler SEGFAULT seg u;
     (_, u) \<leftarrow> ece391_set_handler ALARM alm u;
     Some u
   }"

text \<open>\<open>main\<close> from the store through \<open>badbuf\<close> on.\<close>

definition sigtest_rest :: "(string \<Rightarrow> addr) \<Rightarrow> addr \<Rightarrow> addr \<Rightarrow> addr \<Rightarrow> int \<Rightarrow> 'e ustate \<Rightarrow> (int \<times> 'e ustate) option" where
  "sigtest_rest lit buf ch pb cnt u = do {
     badbuf \<leftarrow> load_word pb u;
     u \<leftarrow> store_byte badbuf 1 u;
     u \<leftarrow> store_byte (buf + word_of_int cnt) 0 u;
     u \<leftarrow> puts_lit lit ''Hello, '' u;
     u \<leftarrow> ece391_fdputs 1 buf u;
     charbuf \<leftarrow> load_byte ch u;
     if charbuf = 1 then say lit (line_of ''success'') 0 u else say lit (line_of ''failure'') 0 u
   }"

definition sigtest_main :: "(string \<Rightarrow> addr) \<Rightarrow> addr \<Rightarrow> addr \<Rightarrow> addr \<Rightarrow> addr \<Rightarrow> addr \<Rightarrow> 'e ustate \<Rightarrow> (int \<times> 'e ustate) option" where
  "sigtest_main lit buf ch pb seg alm u = do {
     (r, u) \<leftarrow> ece391_getargs buf 1024 u;
     if r \<noteq> 0 then say lit (line_of ''could not read argument'') 3 u
     else do {
       c \<leftarrow> load_byte buf u;
       u \<leftarrow> (if c = 0x31 then install_handlers lit seg alm u else Some u);
       u \<leftarrow> puts_lit lit (''Hi, what'' @ [CHR 0x27] @ ''s your name? '') u;
       (cnt, u) \<leftarrow> ece391_read 0 buf 1023 u;
       if cnt = -1 then say lit (''Can'' @ [CHR 0x27] @ line_of ''t read name from keyboard.'') 3 u
       else sigtest_rest lit buf ch pb cnt u
     }
   }"

section \<open>No signals\<close>

text \<open>The numbers of the signal calls are outside the table of calls.\<close>

lemma signal_calls_fail:
  "ece391_set_handler signum handler u = Some (-1, u)" "ece391_sigreturn u = Some (-1, u)"
  by (simp_all add: ece391_set_handler_def ece391_sigreturn_def do_call_def syscall_handler_asm_def)

lemma install_handlers_only_prints: "install_handlers lit seg alm u = puts_lit lit (line_of ''Installing signal handlers'') u"
  by (simp add: install_handlers_def signal_calls_fail)

lemma null_not_user: "layout v \<Longrightarrow> \<not> user_access v 0"
  using aligned_entry_bits [of "page_table_addr v"] by (auto simp: user_access_def layout_def Let_def)

text \<open>The store through the null pointer faults, whatever was typed and whether or not the handlers were to be installed.\<close>

lemma sigtest_faults:
  assumes "running pid k" and "region pb 4 \<subseteq> upage" and "ld32 (kvm k) pb = Some 0"
  shows "sigtest_rest lit buf ch pb cnt (e, k) = None"
proof -
  have "\<not> user_access (kvm k) 0" using null_not_user assms(1) by (simp add: running_def)
  then have "store_byte 0 1 (e, k) = None" by (simp add: store_byte_def on_vm_def ust8_def)
  then show ?thesis using load_word_user [OF assms, of e] by (simp add: sigtest_rest_def)
qed

end
