(* ===== verification/Shell.thy ===== *)
theory Shell
  imports Programs
begin

text \<open>
  The shell, \<open>syscalls/ece391shell.c\<close>, which every terminal runs.  \<open>shell_turn\<close> is one turn of its
  loop: it prints the prompt, reads a line, and either returns from \<open>main\<close>, goes on, or starts a
  program.  In the last case the child runs until it halts and control is back at the return label
  of \<open>execute\<close>; what the child does is the argument \<open>child\<close> of \<open>shell_loop\<close>.  The lemmas follow a
  line from the keys to the call of \<open>execute\<close>, and a session of typed lines to its transcript.
\<close>

section \<open>Definitions\<close>

definition ece391_execute :: "addr \<Rightarrow> 'e ustate \<Rightarrow> (outcome \<times> 'e ustate) option" where
  "ece391_execute command s = syscall_handler_asm (fst s) 2 command (e_reg (fst s)) (e_reg (fst s)) (snd s)"

datatype shell_next = Shell_return int | Shell_continue | Shell_runs user_ctx

definition shell_report :: "(string \<Rightarrow> addr) \<Rightarrow> int \<Rightarrow> 'e ustate \<Rightarrow> 'e ustate option" where
  "shell_report lit rval u =
     (if rval = -1 then puts_lit lit (line_of ''no such command'') u
      else if rval = 256 then puts_lit lit (line_of ''program terminated by exception'') u
      else if rval \<noteq> 0 then puts_lit lit (line_of ''program terminated abnormally'') u
      else Some u)"

definition strip_newline :: "addr \<Rightarrow> int \<Rightarrow> 'e ustate \<Rightarrow> int option" where
  "strip_newline buf cnt u =
     (if cnt > 0 then do {
        c \<leftarrow> load_byte (buf + word_of_int (cnt - 1)) u;
        Some (if c = 10 then cnt - 1 else cnt)
      }
      else Some cnt)"

definition shell_command :: "(string \<Rightarrow> addr) \<Rightarrow> addr \<Rightarrow> 'e ustate \<Rightarrow> (shell_next \<times> 'e ustate) option" where
  "shell_command lit buf u = do {
     r \<leftarrow> ece391_strcmp buf (lit ''exit'') u;
     if r = 0 then Some (Shell_return 0, u)
     else do {
       c \<leftarrow> load_byte buf u;
       if c = 0 then Some (Shell_continue, u)
       else do {
         (out, u) \<leftarrow> ece391_execute buf u;
         case out of
           Returns rval \<Rightarrow> do { u \<leftarrow> shell_report lit rval u; Some (Shell_continue, u) }
         | To_user ctx \<Rightarrow> Some (Shell_runs ctx, u)
         | Jumps _ \<Rightarrow> None
       }
     }
   }"

definition shell_turn :: "(string \<Rightarrow> addr) \<Rightarrow> addr \<Rightarrow> 'e ustate \<Rightarrow> (shell_next \<times> 'e ustate) option" where
  "shell_turn lit buf u = do {
     u \<leftarrow> puts_lit lit ''391OS> '' u;
     (cnt, u) \<leftarrow> ece391_read 0 buf 1023 u;
     if cnt = -1 then do {
       u \<leftarrow> puts_lit lit (line_of ''read from keyboard failed'') u;
       Some (Shell_return 3, u)
     }
     else do {
       cnt \<leftarrow> strip_newline buf cnt u;
       u \<leftarrow> store_byte (buf + word_of_int cnt) 0 u;
       shell_command lit buf u
     }
   }"

partial_function (option) shell_loop ::
  "(user_ctx \<Rightarrow> 'e ustate \<Rightarrow> (int \<times> 'e ustate) option) \<Rightarrow> (string \<Rightarrow> addr) \<Rightarrow> addr \<Rightarrow> 'e ustate \<Rightarrow> (int \<times> 'e ustate) option" where
  "shell_loop child lit buf u = do {
     (nxt, u) \<leftarrow> shell_turn lit buf u;
     case nxt of
       Shell_return r \<Rightarrow> Some (r, u)
     | Shell_continue \<Rightarrow> shell_loop child lit buf u
     | Shell_runs ctx \<Rightarrow> do {
         (rval, u) \<leftarrow> child ctx u;
         u \<leftarrow> shell_report lit rval u;
         shell_loop child lit buf u
       }
   }"

definition shell_main ::
  "(user_ctx \<Rightarrow> 'e ustate \<Rightarrow> (int \<times> 'e ustate) option) \<Rightarrow> (string \<Rightarrow> addr) \<Rightarrow> addr \<Rightarrow> 'e ustate \<Rightarrow> (int \<times> 'e ustate) option" where
  "shell_main child lit buf u = do {
     u \<leftarrow> puts_lit lit (line_of ''Starting 391 Shell'') u;
     shell_loop child lit buf u
   }"

section \<open>Memory of the running process\<close>

lemma ld_bytes_screen:
  assumes "running pid k" and "changes screen_region (kvm k) v" and "region a n \<subseteq> upage"
  shows "ld_bytes v a n = ld_bytes (kvm k) a n"
  using assms(1) by (intro ld_bytes_changes [OF assms(2)] apart_subset [OF screen_upage_apart subset_refl assms(3), of _ pid])
    (simp_all add: running_def)

lemma has_literals_changes:
  assumes "has_literals lit ss k" and "\<And>s. s \<in> ss \<Longrightarrow> ld_bytes (kvm k') (lit s) (Suc (length s)) = ld_bytes (kvm k) (lit s) (Suc (length s))"
  shows "has_literals lit ss k'"
  using assms by (simp add: has_literals_def cstring_def)

lemma strcmp_user:
  assumes "running pid k" and "cstring (kvm k) a as" "region a (Suc (length as)) \<subseteq> upage"
    and "cstring (kvm k) b bs" "region b (Suc (length bs)) \<subseteq> upage"
  shows "\<exists>r. ece391_strcmp a b (e, k) = Some r \<and> (r = 0 \<longleftrightarrow> as = bs)"
proof -
  have u: "uld8 (kvm k) x = ld8 (kvm k) x" if "x \<in> upage" for x
    using user_access_upage [of "kvm k" pid x] assms(1) that by (simp add: uld8_def running_def)
  have "\<exists>r. ece391_strcmp_from (kvm k) a b = Some r \<and> (r = 0 \<longleftrightarrow> as = bs)"
    if "ld_bytes (kvm k) a (Suc (length as)) = Some (as @ [0])" "0 \<notin> set as" "region a (Suc (length as)) \<subseteq> upage"
      "ld_bytes (kvm k) b (Suc (length bs)) = Some (bs @ [0])" "0 \<notin> set bs" "region b (Suc (length bs)) \<subseteq> upage" for a b as bs
    using that
  proof (induction as arbitrary: a b bs)
    case Nil
    have "a \<in> upage" "b \<in> upage" using Nil.prems(3,6) by (simp_all add: region_Suc)
    moreover have "ld8 (kvm k) a = Some 0" "ld8 (kvm k) b = Some (hd (bs @ [0]))"
      using Nil.prems(1,4) by (cases bs; auto split: Option.bind_splits)+
    ultimately show ?case using Nil.prems(5) u by (subst ece391_strcmp_from.simps) (cases bs; auto simp: unsigned_eq_0_iff)
  next
    case (Cons c as)
    have c: "ld8 (kvm k) a = Some c" "ld_bytes (kvm k) (a + 1) (Suc (length as)) = Some (as @ [0])" "c \<noteq> 0" "0 \<notin> set as"
      using Cons.prems(1,2) by (auto split: Option.bind_splits)
    have r: "a \<in> upage" "region (a + 1) (Suc (length as)) \<subseteq> upage" "b \<in> upage"
      using Cons.prems(3,6) region_Suc [of a "Suc (length as)"] region_Suc [of b "length bs"] by auto
    show ?case
    proof (cases bs)
      case Nil
      then have "ld8 (kvm k) b = Some 0" using Cons.prems(4) by (auto split: Option.bind_splits)
      then show ?thesis using c(1,3) r u Nil by (subst ece391_strcmp_from.simps) (auto simp: unsigned_eq_0_iff)
    next
      case B: (Cons d bs')
      have d: "ld8 (kvm k) b = Some d" "ld_bytes (kvm k) (b + 1) (Suc (length bs')) = Some (bs' @ [0])" "0 \<notin> set bs'"
        using Cons.prems(4,5) B by (auto split: Option.bind_splits)
      have rb: "region (b + 1) (Suc (length bs')) \<subseteq> upage" using Cons.prems(6) B region_Suc [of b "Suc (length bs')"] by auto
      show ?thesis
        using Cons.IH [OF c(2,4) r(2) d(2,3) rb] c(1,3) d(1) r u B by (subst ece391_strcmp_from.simps) (auto simp: unsigned_eq_0_iff dest: unsigned_word_eqI)
    qed
  qed
  with assms show ?thesis by (auto simp: cstring_def ece391_strcmp_def)
qed

section \<open>A process of the visible terminal\<close>

lemma enter_editor_shown:
  assumes "ed_ok k" and "cur_terminal k = visible k"
  shows "enter_editor k = upd_term (vt k) (\<lambda>t. t\<lparr>t_screen_x := word_of_int (screen_x (mach k)), t_screen_y := word_of_int (screen_y (mach k))\<rparr>) k"
proof -
  have r: "real_screen (kvm k)" using assms(1) by (simp add: ed_ok_def)
  have u: "uint (word_of_int (screen_x (mach k)) :: u8) = screen_x (mach k)" "uint (word_of_int (screen_y (mach k)) :: u8) = screen_y (mach k)"
    using ed_ok_live(1) [OF assms(1)] by (simp_all add: live_def uint_byte)
  show ?thesis
    using map_video_twice(2) [OF r] u assms(2)
    by (simp add: enter_editor_def Let_def set_screenxy_def get_screen_x_def get_screen_y_def upd_term_def set_vm_def)
qed

lemma ed_ok_shown:
  assumes "real_screen (kvm k)" and "cur_terminal k = visible k"
  shows "kb_inv k \<and> edits (enter_editor k) ed \<longleftrightarrow> ed_ok k \<and> edits k ed"
proof
  assume a: "ed_ok k \<and> edits k ed"
  then have "session (enter_editor k) i = session k i" for i
    using enter_editor_shown [OF _ assms(2)] by (simp add: session_def live_def saved_def)
  then have "ed_ok (enter_editor k)"
    using a enter_editor_shown [OF _ assms(2)] by (simp add: ed_ok_def)
  moreover have "edits (enter_editor k) ed"
    using a enter_editor_shown [OF _ assms(2)] by (simp add: edits_def line_def history_def split: prod.splits)
  ultimately show "kb_inv k \<and> edits (enter_editor k) ed"
    using ed_ok_live(3) a assms(1) by (auto simp: kb_inv_def real_screen_def)
next
  assume a: "kb_inv k \<and> edits (enter_editor k) ed"
  have c: "cursor_ok (mach k)" and o: "ed_ok (enter_editor k)" using a by (simp_all add: kb_inv_def)
  have u: "uint (word_of_int (screen_x (mach k)) :: u8) = screen_x (mach k)" "uint (word_of_int (screen_y (mach k)) :: u8) = screen_y (mach k)"
    using c by (simp_all add: cursor_ok_def NUM_COLS_def NUM_ROWS_def uint_byte)
  have e: "enter_editor k = upd_term (vt k) (\<lambda>t. t\<lparr>t_screen_x := word_of_int (screen_x (mach k)), t_screen_y := word_of_int (screen_y (mach k))\<rparr>) k"
    using map_video_twice(2) [OF assms(1)] u assms(2)
    by (simp add: enter_editor_def Let_def set_screenxy_def get_screen_x_def get_screen_y_def upd_term_def set_vm_def)
  have "session (enter_editor k) i = session k i" for i unfolding e by (simp add: session_def live_def saved_def)
  moreover have "video_buffer (terminals (enter_editor k) i) = video_buffer (terminals k i)" for i unfolding e by simp
  ultimately have "ed_ok k" using o assms(1) by (simp add: ed_ok_def)
  moreover have "edits k ed" using a unfolding e by (simp add: edits_def line_def history_def split: prod.splits)
  ultimately show "ed_ok k \<and> edits k ed" ..
qed

text \<open>The terminal is visible and scheduled, no line has been begun, and none is pending.\<close>

definition waits :: "kernel \<Rightarrow> u8 list \<Rightarrow> console \<Rightarrow> bool" where
  "waits k h con \<longleftrightarrow> ed_ok k \<and> cur_terminal k = visible k \<and> edits k ([], h, con) \<and> buf_kb k ! 127 = 0 \<and> enter_flag (terminals k (vt k)) \<noteq> 0"

lemma waits_awaits:
  assumes "waits k h con"
  shows "awaits k ([], h, con)" "real_screen (kvm k)" "displays (mach k) con"
proof -
  show r: "real_screen (kvm k)" and "displays (mach k) con" using assms by (simp_all add: waits_def ed_ok_def edits_def)
  show "awaits k ([], h, con)"
    using assms ed_ok_shown [OF r, of "([], h, con)"] by (simp add: waits_def awaits_def)
qed

lemma waits_buf: "waits k h con \<Longrightarrow> length (buf_kb k) = 128"
  using ed_fields(5) [of k "[]" h con] by (simp add: waits_def)

lemma waits_frame:
  assumes "ed_ok k" and "cur_terminal k = visible k" and "edits k ([], h, con)" and "real_screen (kvm k')" and "displays (mach k') con'"
    and "visible k' = visible k" "cur_terminal k' = cur_terminal k" "flag_arr k' = flag_arr k" "curr_idx k' = curr_idx k"
      "num_chars k' = num_chars k" "save_x k' = save_x k" "save_y k' = save_y k" "previous_num_chars k' = previous_num_chars k"
      "previous_buf k' = previous_buf k"
    and "terminals k' = (\<lambda>i. (terminals k i)\<lparr>enter_flag := f i\<rparr>)" and "f (vt k) \<noteq> 0"
    and "length (buf_kb k') = 128" and "buf_kb k' ! 127 = 0"
  shows "waits k' h con'"
proof -
  have ci: "curr_idx k = 0" using ed_fields(1) [OF assms(1,3)] by simp
  have c: "cursor_ok (mach k')" using assms(5) by (simp add: displays_def)
  have "session_ok (live k)" by (rule ed_ok_live [OF assms(1)])
  then have l: "session_ok (live k')" using assms c ci by (simp add: live_def cursor_ok_def NUM_COLS_def NUM_ROWS_def)
  have "session_ok (session k' i)" if i: "i < 3" for i
  proof (cases "i = vt k")
    case False
    have "session_ok (session k i)" using assms(1) i by (simp add: ed_ok_def)
    then have "session_ok (saved k i)" using False by (simp add: session_def)
    then show ?thesis using False assms(6,15) by (simp add: session_def saved_def Let_def)
  qed (use l assms(6) in \<open>simp add: session_def\<close>)
  then have "ed_ok k'" using assms by (simp add: ed_ok_def)
  then show ?thesis using assms ci by (simp add: waits_def edits_def line_def history_def)
qed


section \<open>The shell at its prompt\<close>

definition shell_strings :: "string set" where
  "shell_strings = {line_of ''Starting 391 Shell'', ''391OS> '', line_of ''read from keyboard failed'', ''exit'', line_of ''no such command'',
     line_of ''program terminated by exception'', line_of ''program terminated abnormally''}"

text \<open>A program with the string constants \<open>ss\<close> that reads lines into its array \<open>buf\<close>.\<close>

definition prompting :: "string set \<Rightarrow> int \<Rightarrow> (string \<Rightarrow> addr) \<Rightarrow> addr \<Rightarrow> kernel \<Rightarrow> bool" where
  "prompting ss pid lit buf k \<longleftrightarrow> running pid k \<and> has_literals lit ss k \<and> region buf 1024 \<subseteq> upage \<and>
     (\<forall>s \<in> ss. region (lit s) (Suc (length s)) \<inter> region buf 1024 = {})"

abbreviation shell_at :: "int \<Rightarrow> (string \<Rightarrow> addr) \<Rightarrow> addr \<Rightarrow> kernel \<Rightarrow> bool" where
  "shell_at \<equiv> prompting shell_strings"

lemma array_not_minus_one:
  assumes "prompting ss pid lit buf k"
  shows "buf \<noteq> -1"
proof
  assume "buf = -1"
  moreover have "buf \<in> upage" using assms region_memI [of 0 1024 buf] by (auto simp: prompting_def)
  ultimately show False by (simp add: upage_def mask_eq_exp_minus_1)
qed

text \<open>What a turn of the shell leaves alone, until it starts a program.\<close>

definition shell_frame :: "kernel \<Rightarrow> kernel \<Rightarrow> bool" where
  "shell_frame k k' \<longleftrightarrow> sys_same k k' \<and> agree kpage (kvm k) (kvm k') \<and> flag_arr k' = flag_arr k \<and> visible k' = visible k \<and>
     cur_terminal k' = cur_terminal k \<and> (\<forall>i. curr_process (terminals k' i) = curr_process (terminals k i))"

lemma shell_frame_refl [simp]: "shell_frame k k"
  by (simp add: shell_frame_def agree_def)

lemma shell_frame_trans: "shell_frame k k' \<Longrightarrow> shell_frame k' k'' \<Longrightarrow> shell_frame k k''"
  by (auto simp: shell_frame_def intro: agree_trans)

lemma shell_frame_fs:
  assumes "shell_frame k k'" and "region (startdentry k) 4096 \<subseteq> kpage"
  shows "directory (kvm k') (startdentry k') = directory (kvm k) (startdentry k)" "startdentry k' = startdentry k"
  using assms directory_agree [OF agree_mono [OF _ assms(2)], of "kvm k" "kvm k'"] by (simp_all add: shell_frame_def)

lemma shell_frame_program:
  assumes "shell_frame k k'" and "program k cs d eof blk hdr"
  shows "program k' cs d eof blk hdr" "i < unat eof \<Longrightarrow> file_byte (kvm k') k' (inodeNum d) i = file_byte (kvm k) k (inodeNum d) i"
proof -
  have "file_area k (inodeNum d) eof blk \<union> region (startdentry k) 4096 \<subseteq> kpage" using assms(2) by (simp add: program_def)
  note p = program_agree [OF assms(2) agree_mono [OF _ this], of k']
  show "program k' cs d eof blk hdr" by (rule p(1)) (use assms(1) in \<open>simp_all add: shell_frame_def\<close>)
  show "i < unat eof \<Longrightarrow> file_byte (kvm k') k' (inodeNum d) i = file_byte (kvm k) k (inodeNum d) i"
    by (rule p(2)) (use assms(1) in \<open>simp_all add: shell_frame_def\<close>)
qed

text \<open>A change of the screen, or of the program's own array.\<close>

lemma prompting_screen:
  assumes "prompting ss pid lit buf k" and "changes screen_region (kvm k) (kvm k')" and "cur_process k' = cur_process k"
  shows "prompting ss pid lit buf k'" "agree kpage (kvm k) (kvm k')"
proof -
  have r: "running pid k" using assms(1) by (simp add: prompting_def)
  have "running pid k'" using running_changes [OF r assms(2)] r assms(3) by (simp add: running_def)
  moreover have "has_literals lit ss k'"
  proof (rule has_literals_changes [of lit ss k])
    fix s assume "s \<in> ss"
    then have "region (lit s) (Suc (length s)) \<subseteq> upage" using assms(1) by (simp add: prompting_def has_literals_def)
    then show "ld_bytes (kvm k') (lit s) (Suc (length s)) = ld_bytes (kvm k) (lit s) (Suc (length s))" by (rule ld_bytes_screen [OF r assms(2)])
  qed (use assms(1) in \<open>simp add: prompting_def\<close>)
  ultimately show "prompting ss pid lit buf k'" using assms(1) by (simp add: prompting_def)
  show "agree kpage (kvm k) (kvm k')"
    by (rule agree_changes [OF assms(2) screen_kpage_apart]) (use r in \<open>simp add: running_def\<close>)
qed

lemma prompting_buf:
  assumes "prompting ss pid lit buf k" and "changes A (kvm k) (kvm k')" and "A \<subseteq> region buf 1024" and "cur_process k' = cur_process k"
  shows "prompting ss pid lit buf k'" "agree kpage (kvm k) (kvm k')" "apart (kvm k) A screen_region"
proof -
  have r: "running pid k" and u: "region buf 1024 \<subseteq> upage" using assms(1) by (simp_all add: prompting_def)
  have l: "layout (kvm k)" "0 \<le> pid" "pid < 6" "page_directory (kvm k) 32 = proc_pde pid" using r by (simp_all add: running_def)
  have m: "mapped (kvm k) upage" using process_page_mapped [OF l] by (simp add: upage_def)
  have "running pid k'" using running_changes [OF r assms(2)] r assms(4) by (simp add: running_def)
  moreover have "has_literals lit ss k'"
  proof (rule has_literals_changes [of lit ss k])
    fix s assume s: "s \<in> ss"
    have "region (lit s) (Suc (length s)) \<subseteq> upage" "region (lit s) (Suc (length s)) \<inter> region buf 1024 = {}"
      using s assms(1) by (simp_all add: prompting_def has_literals_def)
    then have "A \<union> region (lit s) (Suc (length s)) \<subseteq> upage" "A \<inter> region (lit s) (Suc (length s)) = {}" using assms(3) u by blast+
    then have "apart (kvm k) A (region (lit s) (Suc (length s)))" using apart_mapped [OF mapped_subset [OF m]] by blast
    then show "ld_bytes (kvm k') (lit s) (Suc (length s)) = ld_bytes (kvm k) (lit s) (Suc (length s))" by (rule ld_bytes_changes [OF assms(2)])
  qed (use assms(1) in \<open>simp add: prompting_def\<close>)
  ultimately show "prompting ss pid lit buf k'" using assms(1) by (simp add: prompting_def)
  have up: "A \<subseteq> upage" using assms(3) u by blast
  show "agree kpage (kvm k) (kvm k')"
    using apart_subset [OF process_kpage_apart [OF l(1-4)], of A kpage] up by (intro agree_changes [OF assms(2)]) (simp add: upage_def)
  show "apart (kvm k) A screen_region"
    using apart_subset [OF apart_sym [OF screen_upage_apart [OF l(1,4,2,3)]] up subset_refl] .
qed

lemma prompting_puts:
  assumes "prompting ss pid lit buf k" and "waits k h con" and "cstring (kvm k) a r" and "region a (Suc (length r)) \<subseteq> upage"
  shows "\<exists>k'. ece391_fdputs 1 a (e, k) = Some (e, k') \<and> prompting ss pid lit buf k' \<and> waits k' h (fold con_putc r con) \<and>
    shell_frame k k' \<and> storeargs k' = storeargs k \<and> agree upage (kvm k) (kvm k')"
proof -
  have run: "running pid k" using assms(1) by (simp add: prompting_def)
  obtain m where m: "ece391_fdputs 1 a (e, k) = Some (e, k\<lparr>mach := m\<rparr>)" "displays m (fold con_putc r con)" "console_frame (mach k) m"
    using fdputs_user [OF run assms(3,4) waits_awaits(3) [OF assms(2)] upage_nonzero [OF assms(4)], of e] by blast
  let ?k = "k\<lparr>mach := m\<rparr>"
  have ch: "changes screen_region (kvm k) (kvm ?k)" using m(3) by (simp add: console_frame_def)
  have rs: "real_screen (kvm ?k)" using waits_awaits(2) [OF assms(2)] real_screen_same_map [OF changes_same_map [OF ch]] by simp
  have "length (buf_kb k) = 128" using waits_buf [OF assms(2)] .
  then have "waits ?k h (fold con_putc r con)"
    using assms(2) rs m(2) by (intro waits_frame [of k h con ?k _ "\<lambda>i. enter_flag (terminals k i)"]) (simp_all add: waits_def)
  moreover have "shell_frame k ?k" using prompting_screen(2) [OF assms(1) ch] by (simp add: shell_frame_def)
  moreover have "agree upage (kvm k) (kvm ?k)"
    using agree_changes [OF ch screen_upage_apart [of "kvm k" pid]] run by (simp add: running_def)
  ultimately show ?thesis using m(1) prompting_screen(1) [OF assms(1) ch] by (intro exI [of _ ?k]) simp
qed

lemma prompting_prints:
  assumes "prompting ss pid lit buf k" and "waits k h con" and "s \<in> ss"
  shows "\<exists>k'. puts_lit lit s (e, k) = Some (e, k') \<and> prompting ss pid lit buf k' \<and> waits k' h (fold con_putc (map of_char s) con) \<and>
    shell_frame k k' \<and> storeargs k' = storeargs k \<and> agree upage (kvm k) (kvm k')"
  using prompting_puts [OF assms(1,2), of "lit s" "map of_char s" e] assms(1,3) by (simp add: puts_lit_def prompting_def has_literals_def)


definition chars :: "int list \<Rightarrow> u8 list \<Rightarrow> u8 list" where
  "chars flags scs = map (\<lambda>sc. key_char flags (unat sc)) scs"

definition typeable :: "int list \<Rightarrow> u8 list \<Rightarrow> bool" where
  "typeable flags scs \<longleftrightarrow> length scs \<le> 127 \<and> (\<forall>sc \<in> set scs. typing flags sc)"

text \<open>The line without its leading spaces, as \<open>terminal_read\<close> sees it.\<close>

definition trimmed :: "int list \<Rightarrow> u8 list \<Rightarrow> u8 list" where
  "trimmed flags scs = dropWhile (\<lambda>c. c = 0x20) (chars flags scs)"

lemma chars_trimmed: "\<exists>s. chars flags scs = replicate s 0x20 @ trimmed flags scs"
proof -
  let ?t = "takeWhile (\<lambda>c. c = 0x20) (chars flags scs)"
  have "\<forall>c \<in> set ?t. c = 0x20" by (auto dest: set_takeWhileD)
  then have "?t = replicate (length ?t) 0x20" by (simp add: replicate_eqI)
  then show ?thesis unfolding trimmed_def by (metis takeWhile_dropWhile_id)
qed

lemma trimmed_hd: "trimmed flags scs = [] \<or> hd (trimmed flags scs) \<noteq> 0x20"
  unfolding trimmed_def using hd_dropWhile [of "\<lambda>c. c = 0x20" "chars flags scs"] by blast

lemma trimmed_chars:
  assumes "typeable flags scs"
  shows "10 \<notin> set (trimmed flags scs)" "0 \<notin> set (trimmed flags scs)" "length (trimmed flags scs) \<le> 127"
proof -
  have s: "set (trimmed flags scs) \<subseteq> set (chars flags scs)" unfolding trimmed_def by (auto dest: set_dropWhileD)
  have "10 \<notin> set (chars flags scs)" "0 \<notin> set (chars flags scs)"
    using assms key_char_nonl by (auto simp: chars_def typeable_def typing_def word_less_nat_alt)
  with s show "10 \<notin> set (trimmed flags scs)" "0 \<notin> set (trimmed flags scs)" by auto
  show "length (trimmed flags scs) \<le> 127"
    using assms length_dropWhile_le [of "\<lambda>c. c = 0x20" "chars flags scs"] by (simp add: trimmed_def chars_def typeable_def)
qed

lemma prompting_reads:
  assumes at: "prompting ss pid lit buf k" and w: "waits k h con" and ty: "typeable (flag_arr k) scs"
    and e: "e_handler e = key_irq stack" "e_irqs e = scs @ 0x1C # rest" and l: "l = trimmed (flag_arr k) scs" and b: "buf \<noteq> -1"
  shows "\<exists>k' h'. ece391_read 0 buf 1023 (e, k) = Some (int (length (line_result l)), e\<lparr>e_irqs := rest\<rparr>, k') \<and> prompting ss pid lit buf k' \<and>
    waits k' h' (con_putc 10 (fold con_putc (chars (flag_arr k) scs) con)) \<and> shell_frame k k' \<and> storeargs k' = args_array l \<and>
    ld_bytes (kvm k') buf (length (line_result l)) = Some (line_result l)"
proof -
  let ?t = "chars (flag_arr k) scs" and ?n = "length (line_result l)" and ?con = "con_putc 10 (fold con_putc (chars (flag_arr k) scs) con)"
  obtain s where s: "?t = replicate s 0x20 @ l" using chars_trimmed l by blast
  have ty': "\<forall>sc \<in> set scs. typing (flag_arr k) sc" "length scs \<le> 127" using ty by (simp_all add: typeable_def)
  obtain k1 where k1: "terminal_spin (key_irq stack) (scs @ 0x1C # rest) k = Some (rest, k1)" "key_frame\<^sup>*\<^sup>* k k1" "kb_inv k1"
    "edits (enter_editor k1) ([], if ?t = [] then h else ?t, ?con)" "buf_kb k1 = ?t @ 10 # drop (length ?t + 1) (buf_kb k1)"
    "length (buf_kb k1) = 128" "flag_arr k1 = flag_arr k"
    using typed_line [OF waits_awaits(1) [OF w] ty' chars_def [symmetric], of stack rest] by blast
  have cv: "cur_terminal k = visible k" using w by (simp add: waits_def)
  note fr = key_frames_shown [OF k1(2) cv waits_awaits(2) [OF w]]
  have rs: "real_screen (kvm k1)" and cv1: "cur_terminal k1 = visible k1" and cp: "cur_process k1 = cur_process k" using fr cv by simp_all
  have ed: "ed_ok k1" "edits k1 ([], if ?t = [] then h else ?t, ?con)"
    using ed_ok_shown [OF rs cv1, of "([], if ?t = [] then h else ?t, ?con)"] k1(3,4) by simp_all
  have at1: "prompting ss pid lit buf k1" "agree kpage (kvm k) (kvm k1)" using prompting_screen [OF at _ cp] fr by simp_all
  have bk: "buf_kb k1 = replicate s 0x20 @ l @ 10 # drop (length ?t + 1) (buf_kb k1)" using k1(5) s by simp
  have nl: "10 \<notin> set l" and len: "length l \<le> 127" using trimmed_chars [OF ty] l by simp_all
  have n: "?n \<le> 128" using len length_takeWhile_le [of "\<lambda>c. c \<noteq> 0x20" l] by (simp add: line_result_def line_cmd_def)
  have rg: "region buf ?n \<subseteq> region buf 1024" by (rule region_mono) (use n in simp)
  have "mapped (kvm k1) upage" using process_page_mapped [of "kvm k1" pid] at1(1) by (simp add: prompting_def running_def upage_def)
  then have mp: "mapped (kvm k1) (region buf ?n)" using at1(1) rg by (auto simp: prompting_def intro: mapped_subset)
  have hd: "l = [] \<or> hd l \<noteq> 0x20" using trimmed_hd l by simp
  have n': "?n = min ?n (nat 1023)" using n by simp
  obtain v where v: "read_line buf 1023 k1 = Some (int ?n,
      (upd_term (vt k1) (\<lambda>t. t\<lparr>enter_flag := 1\<rparr>) (set_vm v (k1\<lparr>storeargs := args_array l\<rparr>)))\<lparr>buf_kb := replicate 128 0\<rparr>)"
    "ld_bytes v buf ?n = Some (line_result l)" "changes (region buf ?n) (kvm k1) v"
    using read_line_eq [OF bk k1(6) nl hd _ n' mp] by auto
  let ?k = "(upd_term (vt k1) (\<lambda>t. t\<lparr>enter_flag := 1\<rparr>) (set_vm v (k1\<lparr>storeargs := args_array l\<rparr>)))\<lparr>buf_kb := replicate 128 0\<rparr>"
  have at2: "prompting ss pid lit buf ?k" "agree kpage (kvm k1) (kvm ?k)" "apart (kvm k1) (region buf ?n) screen_region"
    using prompting_buf [OF at1(1) _ rg, of ?k] v(3) by simp_all
  have "displays (mach k1) ?con" using ed(2) by (simp add: edits_def)
  then have d: "displays (mach ?k) ?con" using displays_changes [OF _ v(3) at2(3)] by (simp add: set_vm_def)
  have rs2: "real_screen (kvm ?k)" using rs real_screen_same_map [OF changes_same_map [OF v(3)]] by simp
  have tm: "terminals ?k = (\<lambda>i. (terminals k1 i)\<lparr>enter_flag := if i = vt k1 then 1 else enter_flag (terminals k1 i)\<rparr>)" by (auto simp: fun_eq_iff)
  have "waits ?k (if ?t = [] then h else ?t) ?con"
    by (rule waits_frame [OF ed(1) cv1 ed(2) rs2 d _ _ _ _ _ _ _ _ _ tm]) simp_all
  moreover have "shell_frame k ?k"
    using fr at1(2) at2(2) k1(7) by (auto simp: shell_frame_def intro: agree_trans)
  moreover have "ece391_read 0 buf 1023 (e, k) = Some (int ?n, e\<lparr>e_irqs := rest\<rparr>, ?k)"
    using k1(1) v(1) e b upage_nonzero [of buf 1023] at
    by (simp add: ece391_read_eq int32_def sys_read_def terminal_fread_def terminal_read_def prompting_def)
  ultimately show ?thesis using at2(1) v(2)
    by (intro exI [of _ ?k] exI [of _ "if ?t = [] then h else ?t"]) simp
qed


text \<open>Both forms of a line end as the command word in the array, closed by a zero byte.\<close>

lemma line_result_cmd:
  shows "take (length (line_cmd l)) (line_result l) = line_cmd l"
    and "0x20 \<notin> set l \<Longrightarrow> line_cmd l = l \<and> line_result l = line_cmd l @ [10]"
    and "0x20 \<in> set l \<Longrightarrow> line_result l = line_cmd l"
proof -
  show a: "0x20 \<in> set l \<Longrightarrow> line_result l = line_cmd l" by (simp add: line_result_def)
  have "line_cmd l = l" if "0x20 \<notin> set l" unfolding line_cmd_def using that by (intro takeWhile_eq_all_conv [THEN iffD2]) auto
  then show b: "0x20 \<notin> set l \<Longrightarrow> line_cmd l = l \<and> line_result l = line_cmd l @ [10]" by (simp add: line_result_def)
  show "take (length (line_cmd l)) (line_result l) = line_cmd l" using a b by (cases "0x20 \<in> set l") auto
qed

lemma line_cmd_sub: "set (line_cmd l) \<subseteq> set l" "length (line_cmd l) \<le> length l"
  by (auto simp: line_cmd_def length_takeWhile_le dest: set_takeWhileD)

lemma strip_newline_user:
  assumes r: "running pid k" and ld: "ld_bytes (kvm k) buf (length (line_result l)) = Some (line_result l)"
    and rg: "region buf (length (line_result l)) \<subseteq> upage" and nl: "10 \<notin> set l"
  shows "strip_newline buf (int (length (line_result l))) (e, k) = Some (int (length (line_cmd l)))"
proof (cases "line_result l")
  case Nil
  then show ?thesis using line_result_cmd(1) [of l] by (auto simp: strip_newline_def)
next
  case (Cons c cs)
  then obtain j where n: "length (line_result l) = Suc j" by simp
  have b: "ld8 (kvm k) (buf + word_of_nat j) = Some (last (line_result l))"
    using ld_bytes_nth [OF ld, of j] n last_conv_nth [of "line_result l"] by (simp add: Cons)
  have "buf + word_of_nat j \<in> upage" using rg region_memI [of j "Suc j" buf] n by auto
  then have ua: "user_access (kvm k) (buf + word_of_nat j)" using user_access_upage [of "kvm k" pid] r by (simp add: running_def)
  show ?thesis
  proof (cases "0x20 \<in> set l")
    case True
    have "last (line_result l) \<noteq> 10" using Cons line_result_cmd(3) [OF True] line_cmd_sub(1) [of l] nl last_in_set [of "line_result l"] by auto
    then show ?thesis using n b ua line_result_cmd(3) [OF True] by (simp add: strip_newline_def load_byte_def uld8_def)
  next
    case False
    then show ?thesis using n b ua line_result_cmd(2) [OF False] by (simp add: strip_newline_def load_byte_def uld8_def)
  qed
qed

lemma prompting_changes:
  assumes at: "prompting ss pid lit buf k" and w: "waits k h con" and ch: "changes A (kvm k) v" and A: "A \<subseteq> region buf 1024"
  shows "prompting ss pid lit buf (set_vm v k) \<and> waits (set_vm v k) h con \<and> shell_frame k (set_vm v k)"
proof -
  let ?k = "set_vm v k"
  have at': "prompting ss pid lit buf ?k" "agree kpage (kvm k) (kvm ?k)" "apart (kvm k) A screen_region"
    using prompting_buf [OF at, of A ?k] ch A by simp_all
  have d: "displays (mach ?k) con" using displays_changes [OF waits_awaits(3) [OF w] ch at'(3)] by (simp add: set_vm_def)
  have rs: "real_screen (kvm ?k)" using waits_awaits(2) [OF w] real_screen_same_map [OF changes_same_map [OF ch]] by simp
  have "waits ?k h con"
    using w rs d waits_buf [OF w] by (intro waits_frame [of k h con ?k _ "\<lambda>i. enter_flag (terminals k i)"]) (simp_all add: waits_def)
  moreover have "shell_frame k ?k" using at'(2) by (simp add: shell_frame_def)
  ultimately show ?thesis using at'(1) by blast
qed

lemma prompting_store:
  assumes at: "prompting ss pid lit buf k" and w: "waits k h con" and i: "i < 1024"
  shows "\<exists>v. store_byte (buf + word_of_nat i) x (e, k) = Some (e, set_vm v k) \<and> st8 (kvm k) (buf + word_of_nat i) x = Some v \<and>
    prompting ss pid lit buf (set_vm v k) \<and> waits (set_vm v k) h con \<and> shell_frame k (set_vm v k)"
proof -
  let ?a = "buf + word_of_nat i"
  have r: "running pid k" and u: "region buf 1024 \<subseteq> upage" using at by (simp_all add: prompting_def)
  have a: "?a \<in> region buf 1024" by (rule region_memI [OF i])
  obtain v where v: "store_byte ?a x (e, k) = Some (e, set_vm v k)" "st8 (kvm k) ?a x = Some v" using store_user [OF r] a u by blast
  then show ?thesis using prompting_changes [OF at w st8_changes [OF v(2)]] a by blast
qed

lemma prompting_ends:
  assumes at: "prompting ss pid lit buf k" and w: "waits k h con" and ld: "ld_bytes (kvm k) buf (length r) = Some r" and r: "0 \<notin> set r" "length r < 1024"
  shows "\<exists>k'. store_byte (buf + word_of_nat (length r)) 0 (e, k) = Some (e, k') \<and> prompting ss pid lit buf k' \<and> waits k' h con \<and>
    shell_frame k k' \<and> storeargs k' = storeargs k \<and> cstring (kvm k') buf r"
proof -
  let ?a = "buf + word_of_nat (length r)"
  obtain v where v: "store_byte ?a 0 (e, k) = Some (e, set_vm v k)" "st8 (kvm k) ?a 0 = Some v"
    "prompting ss pid lit buf (set_vm v k)" "waits (set_vm v k) h con" "shell_frame k (set_vm v k)" using prompting_store [OF at w r(2), of 0 e] by blast
  have "mapped (kvm k) upage" using process_page_mapped [of "kvm k" pid] at by (simp add: prompting_def running_def upage_def)
  moreover have "region buf (length r + 1) \<subseteq> region buf 1024" by (rule region_mono) (use r(2) in simp)
  then have "region buf (length r + 1) \<subseteq> upage" using at unfolding prompting_def by blast
  ultimately have m: "mapped (kvm k) (region buf (length r + 1))" by (rule mapped_subset)
  then obtain c where c: "ld8 (kvm k) ?a = Some c" using region_memI [of "length r" "length r + 1" buf] by (auto simp: mapped_def ld8_def)
  have "ld_bytes (kvm k) buf (length r + 1) = Some (r @ [c])" unfolding ld_bytes_append using ld c by simp
  then have "ld_bytes v buf (length r + 1) = Some ((r @ [c])[length r := 0])"
    by (rule ld_bytes_store [OF m _ _ _ v(2)]) (use r(2) in simp_all)
  then have "cstring v buf r" using r by (simp add: cstring_def)
  then show ?thesis using v by (intro exI [of _ "set_vm v k"]) simp
qed

lemma prompting_stores:
  assumes at: "prompting ss pid lit buf k" and w: "waits k h con" and ld: "ld_bytes (kvm k) buf (length (line_result l)) = Some (line_result l)"
    and l: "0 \<notin> set l" "length l \<le> 127"
  shows "\<exists>k'. store_byte (buf + word_of_nat (length (line_cmd l))) 0 (e, k) = Some (e, k') \<and> prompting ss pid lit buf k' \<and> waits k' h con \<and>
    shell_frame k k' \<and> storeargs k' = storeargs k \<and> cstring (kvm k') buf (line_cmd l)"
proof (rule prompting_ends [OF at w])
  let ?c = "line_cmd l"
  have "length ?c \<le> length (line_result l)" using arg_cong [OF line_result_cmd(1) [of l], of length] by simp
  then obtain x where "length (line_result l) = length ?c + x" using le_Suc_ex by blast
  then have "ld_bytes (kvm k) buf (length ?c) = Some (take (length ?c) (line_result l))"
    using ld ld_bytes_append [of "kvm k" buf "length ?c" x] by (auto split: Option.bind_splits dest: ld_bytes_length)
      (metis append_eq_conv_conj ld_bytes_length)
  then show "ld_bytes (kvm k) buf (length ?c) = Some ?c" using line_result_cmd(1) [of l] by simp
  show "0 \<notin> set ?c" "length ?c < 1024" using line_cmd_sub [of l] l by auto
qed

section \<open>A turn of the shell\<close>

abbreviation prompt :: "u8 list" where
  "prompt \<equiv> map of_char ''391OS> ''"

text \<open>
  What one turn reads: the prompt and the typed line are on the screen, the array holds the command
  word, and the argument string is the rest of the line.
\<close>

lemma shell_turn_reads:
  assumes at: "shell_at pid lit buf k" and w: "waits k h con" and ty: "typeable (flag_arr k) scs"
    and e: "e_handler e = key_irq stack" "e_irqs e = scs @ 0x1C # rest" and l: "l = trimmed (flag_arr k) scs"
  shows "\<exists>k' h'. shell_turn lit buf (e, k) = shell_command lit buf (e\<lparr>e_irqs := rest\<rparr>, k') \<and> shell_at pid lit buf k' \<and>
    waits k' h' (fold con_putc (prompt @ chars (flag_arr k) scs @ [10]) con) \<and> shell_frame k k' \<and>
    storeargs k' = args_array l \<and> cstring (kvm k') buf (line_cmd l)"
proof -
  have b: "buf \<noteq> -1" by (rule array_not_minus_one [OF at])
  obtain k1 where k1: "puts_lit lit ''391OS> '' (e, k) = Some (e, k1)" "shell_at pid lit buf k1" "waits k1 h (fold con_putc prompt con)" "shell_frame k k1"
    using prompting_prints [OF at w, of "''391OS> ''" e] by (auto simp: shell_strings_def)
  have fl: "flag_arr k1 = flag_arr k" using k1(4) by (simp add: shell_frame_def)
  obtain k2 h' where k2: "ece391_read 0 buf 1023 (e, k1) = Some (int (length (line_result l)), e\<lparr>e_irqs := rest\<rparr>, k2)" "shell_at pid lit buf k2"
    "waits k2 h' (con_putc 10 (fold con_putc (chars (flag_arr k) scs) (fold con_putc prompt con)))" "shell_frame k1 k2" "storeargs k2 = args_array l"
    "ld_bytes (kvm k2) buf (length (line_result l)) = Some (line_result l)"
    using prompting_reads [OF k1(2,3) _ e _ b, of l] ty l unfolding fl by blast
  have lc: "10 \<notin> set l" "0 \<notin> set l" "length l \<le> 127" using trimmed_chars [OF ty] l by simp_all
  obtain k3 where k3: "store_byte (buf + word_of_nat (length (line_cmd l))) 0 (e\<lparr>e_irqs := rest\<rparr>, k2) = Some (e\<lparr>e_irqs := rest\<rparr>, k3)"
    "shell_at pid lit buf k3" "waits k3 h' (con_putc 10 (fold con_putc (chars (flag_arr k) scs) (fold con_putc prompt con)))"
    "shell_frame k2 k3" "storeargs k3 = storeargs k2" "cstring (kvm k3) buf (line_cmd l)"
    using prompting_stores [OF k2(2,3,6) lc(2,3), of "e\<lparr>e_irqs := rest\<rparr>"] by blast
  have n: "length (line_result l) \<le> 128" using lc(3) line_cmd_sub(2) [of l] by (simp add: line_result_def)
  have "region buf (length (line_result l)) \<subseteq> upage" using region_mono [of "length (line_result l)" 1024 buf] n k2(2) by (auto simp: prompting_def)
  then have "strip_newline buf (int (length (line_result l))) (e\<lparr>e_irqs := rest\<rparr>, k2) = Some (int (length (line_cmd l)))"
    using k2(2,6) lc(1) by (intro strip_newline_user [of pid]) (simp_all add: prompting_def)
  then have "shell_turn lit buf (e, k) = shell_command lit buf (e\<lparr>e_irqs := rest\<rparr>, k3)"
    using k1(1) k2(1) k3(1) by (simp add: shell_turn_def)
  moreover have "shell_frame k k3" using k1(4) k2(4) k3(4) by (blast intro: shell_frame_trans)
  ultimately show ?thesis using k3 k2(5) by (intro exI [of _ k3] exI [of _ h']) simp
qed

lemma shell_command_user:
  assumes at: "shell_at pid lit buf k" and c: "cstring (kvm k) buf cs" "length cs \<le> 127"
  shows "cs = map of_char ''exit'' \<Longrightarrow> shell_command lit buf (e, k) = Some (Shell_return 0, e, k)"
    and "cs = [] \<Longrightarrow> shell_command lit buf (e, k) = Some (Shell_continue, e, k)"
    and "cs \<noteq> map of_char ''exit'' \<Longrightarrow> cs \<noteq> [] \<Longrightarrow> shell_command lit buf (e, k) = do {
         (out, k) \<leftarrow> execute (e_label e) buf k;
         case out of
           Returns rval \<Rightarrow> do { u \<leftarrow> shell_report lit rval (e, k); Some (Shell_continue, u) }
         | To_user ctx \<Rightarrow> Some (Shell_runs ctx, e, k)
         | Jumps _ \<Rightarrow> None }"
    and "\<exists>temp. ld_bytes (kvm k) buf 128 = Some temp" "reads (str_at (kvm k) buf) cs"
proof -
  have r: "running pid k" and u: "region buf 1024 \<subseteq> upage" using at by (simp_all add: prompting_def)
  have rb: "region buf (Suc (length cs)) \<subseteq> upage" using region_mono [of "Suc (length cs)" 1024 buf] c(2) u by auto
  have ex: "cstring (kvm k) (lit ''exit'') (map of_char ''exit'')" "region (lit ''exit'') (Suc (length (map of_char ''exit'' :: u8 list))) \<subseteq> upage"
    using at by (simp_all add: prompting_def has_literals_def shell_strings_def)
  obtain x where x: "ece391_strcmp buf (lit ''exit'') (e, k) = Some x" "x = 0 \<longleftrightarrow> cs = map of_char ''exit''"
    using strcmp_user [OF r c(1) rb ex, of e] by blast
  show "cs = map of_char ''exit'' \<Longrightarrow> shell_command lit buf (e, k) = Some (Shell_return 0, e, k)"
    using x by (simp add: shell_command_def)
  have ld: "ld_bytes (kvm k) buf (Suc (length cs)) = Some (cs @ [0])" and nz: "0 \<notin> set cs" using c(1) by (simp_all add: cstring_def)
  have "buf \<in> upage" using rb by (simp add: region_Suc)
  then have ua: "user_access (kvm k) buf" using user_access_upage [of "kvm k" pid buf] r by (simp add: running_def)
  have b0: "load_byte buf (e, k) = Some (hd (cs @ [0]))"
    using ld_bytes_nth [OF ld, of 0] ua by (simp add: load_byte_def uld8_def hd_conv_nth)
  show "cs = [] \<Longrightarrow> shell_command lit buf (e, k) = Some (Shell_continue, e, k)"
    using x b0 by (simp add: shell_command_def)
  have m: "mapped (kvm k) (region buf 1024)"
    using process_page_mapped [of "kvm k" pid] r u by (auto simp: running_def upage_def intro: mapped_subset)
  show "\<exists>temp. ld_bytes (kvm k) buf 128 = Some temp"
    using ld_bytes_mapped [OF mapped_subset [OF m region_mono [of 128 1024 buf]]] by auto
  show "reads (str_at (kvm k) buf) cs"
    using ld_bytes_nth [OF ld] nz by (auto simp: reads_def str_at_def nth_append)
  assume ne: "cs \<noteq> map of_char ''exit''" "cs \<noteq> []"
  have "hd (cs @ [0]) \<noteq> 0" using ne(2) nz by (cases cs) auto
  then show "shell_command lit buf (e, k) = do {
         (out, k) \<leftarrow> execute (e_label e) buf k;
         case out of
           Returns rval \<Rightarrow> do { u \<leftarrow> shell_report lit rval (e, k); Some (Shell_continue, u) }
         | To_user ctx \<Rightarrow> Some (Shell_runs ctx, e, k)
         | Jumps _ \<Rightarrow> None }"
    using x ne(1) b0
    by (cases "execute (e_label e) buf k")
      (auto simp: shell_command_def ece391_execute_def syscall_handler_asm_def syscall_execute_def sys_execute_def)
qed


section \<open>A session\<close>

text \<open>
  The directory does not have the command of the line: the line is empty, or the shell answers that
  there is no such command.
\<close>

definition shell_cmd :: "int list \<Rightarrow> u8 list \<Rightarrow> u8 list" where
  "shell_cmd flags scs = line_cmd (trimmed flags scs)"

definition no_command :: "dentry_t list \<Rightarrow> u8 list \<Rightarrow> bool" where
  "no_command ds cs \<longleftrightarrow> cs = [] \<or> (cs \<noteq> map of_char ''exit'' \<and> find (\<lambda>d. entry_name (dname d) = take 32 cs) ds = None)"

definition turn_text :: "int list \<Rightarrow> u8 list \<Rightarrow> u8 list" where
  "turn_text flags scs = prompt @ chars flags scs @ [10] @
     (if shell_cmd flags scs = [] then [] else map of_char (line_of ''no such command''))"

lemma execute_unknown:
  assumes "directory (kvm k) (startdentry k) = Some ds" and "find (\<lambda>d. entry_name (dname d) = take 32 cs) ds = None"
    and "ld_bytes (kvm k) fname 128 = Some temp" and "reads (str_at (kvm k) fname) cs"
  shows "execute rl fname k = Some (Returns (-1), k)"
  using assms(2,3) read_dentry_by_name_eq [OF assms(1,4), of "currDentry k"] by (simp add: execute_def read_ELF_def file_open_def)

lemma shell_turn_unknown:
  assumes at: "shell_at pid lit buf k" and w: "waits k h con" and ty: "typeable (flag_arr k) scs"
    and e: "e_handler e = key_irq stack" "e_irqs e = scs @ 0x1C # rest"
    and d: "directory (kvm k) (startdentry k) = Some ds" "region (startdentry k) 4096 \<subseteq> kpage" and nc: "no_command ds (shell_cmd (flag_arr k) scs)"
  shows "\<exists>k' h'. shell_turn lit buf (e, k) = Some (Shell_continue, e\<lparr>e_irqs := rest\<rparr>, k') \<and> shell_at pid lit buf k' \<and>
    waits k' h' (fold con_putc (turn_text (flag_arr k) scs) con) \<and> shell_frame k k'"
proof -
  let ?e = "e\<lparr>e_irqs := rest\<rparr>" and ?c = "shell_cmd (flag_arr k) scs"
  obtain k1 h' where k1: "shell_turn lit buf (e, k) = shell_command lit buf (?e, k1)" "shell_at pid lit buf k1"
    "waits k1 h' (fold con_putc (prompt @ chars (flag_arr k) scs @ [10]) con)" "shell_frame k k1" "cstring (kvm k1) buf ?c"
    using shell_turn_reads [OF at w ty e refl] unfolding shell_cmd_def by blast
  have len: "length ?c \<le> 127" using trimmed_chars(3) [OF ty] line_cmd_sub(2) [of "trimmed (flag_arr k) scs"] by (simp add: shell_cmd_def)
  note cmd = shell_command_user [OF k1(2,5) len]
  show ?thesis
  proof (cases "?c = []")
    case True
    then show ?thesis using k1 cmd(2) by (intro exI [of _ k1] exI [of _ h']) (simp add: turn_text_def)
  next
    case False
    then have nf: "?c \<noteq> map of_char ''exit''" "find (\<lambda>d. entry_name (dname d) = take 32 ?c) ds = None" using nc by (simp_all add: no_command_def)
    obtain temp where t: "ld_bytes (kvm k1) buf 128 = Some temp" using cmd(4) by blast
    have d1: "directory (kvm k1) (startdentry k1) = Some ds" using shell_frame_fs [OF k1(4) d(2)] d(1) by simp
    obtain k2 where k2: "puts_lit lit (line_of ''no such command'') (?e, k1) = Some (?e, k2)" "shell_at pid lit buf k2"
      "waits k2 h' (fold con_putc (map of_char (line_of ''no such command'')) (fold con_putc (prompt @ chars (flag_arr k) scs @ [10]) con))"
      "shell_frame k1 k2"
      using prompting_prints [OF k1(2,3), of "line_of ''no such command''" ?e] by (auto simp: shell_strings_def)
    have "shell_command lit buf (?e, k1) = Some (Shell_continue, ?e, k2)"
      using cmd(3) [OF nf(1) False, of ?e] execute_unknown [OF d1 nf(2) t cmd(5)] k2(1) by (simp add: shell_report_def)
    moreover have "fold con_putc (turn_text (flag_arr k) scs) con =
        fold con_putc (map of_char (line_of ''no such command'')) (fold con_putc (prompt @ chars (flag_arr k) scs @ [10]) con)"
      using False by (simp only: turn_text_def fold_append comp_apply if_False)
    ultimately show ?thesis using k1(1) k2(2,3) shell_frame_trans [OF k1(4) k2(4)] by (intro exI [of _ k2] exI [of _ h']) simp
  qed
qed

definition keys :: "u8 list list \<Rightarrow> u8 list" where
  "keys sess = concat (map (\<lambda>scs. scs @ [0x1C]) sess)"

lemma shell_loop_session:
  assumes "shell_at pid lit buf k" and "waits k h con" and "flag_arr k = flags" and "\<forall>scs \<in> set (sess @ [fin]). typeable flags scs"
    and "e_handler e = key_irq stack" and "e_irqs e = keys sess @ fin @ 0x1C # rest"
    and "directory (kvm k) (startdentry k) = Some ds" and "region (startdentry k) 4096 \<subseteq> kpage"
    and "\<forall>scs \<in> set sess. no_command ds (shell_cmd flags scs)" and "shell_cmd flags fin = map of_char ''exit''"
  shows "\<exists>k' h'. shell_loop child lit buf (e, k) = Some (0, e\<lparr>e_irqs := rest\<rparr>, k') \<and> shell_at pid lit buf k' \<and>
    waits k' h' (fold con_putc (concat (map (turn_text flags) sess) @ prompt @ chars flags fin @ [10]) con) \<and> shell_frame k k'"
  using assms
proof (induction sess arbitrary: e k h con)
  case Nil
  have ty: "typeable (flag_arr k) fin" and ei: "e_irqs e = fin @ 0x1C # rest" using Nil.prems(3,4,6) by (simp_all add: keys_def)
  obtain k1 h' where k1: "shell_turn lit buf (e, k) = shell_command lit buf (e\<lparr>e_irqs := rest\<rparr>, k1)" "shell_at pid lit buf k1"
    "waits k1 h' (fold con_putc (prompt @ chars (flag_arr k) fin @ [10]) con)" "shell_frame k k1" "cstring (kvm k1) buf (map of_char ''exit'')"
    using shell_turn_reads [OF Nil.prems(1,2) ty Nil.prems(5) ei refl] Nil.prems(3,10) unfolding shell_cmd_def by auto
  have "shell_command lit buf (e\<lparr>e_irqs := rest\<rparr>, k1) = Some (Shell_return 0, e\<lparr>e_irqs := rest\<rparr>, k1)"
    by (rule shell_command_user(1) [OF k1(2,5)]) simp_all
  then show ?case using k1 Nil.prems(3) by (intro exI [of _ k1] exI [of _ h'], subst shell_loop.simps) simp
next
  case (Cons scs sess)
  let ?r = "keys sess @ fin @ 0x1C # rest"
  have ty: "typeable (flag_arr k) scs" and ei: "e_irqs e = scs @ 0x1C # ?r" and nc: "no_command ds (shell_cmd (flag_arr k) scs)"
    using Cons.prems(3,4,6,9) by (simp_all add: keys_def)
  obtain k1 h1 where k1: "shell_turn lit buf (e, k) = Some (Shell_continue, e\<lparr>e_irqs := ?r\<rparr>, k1)" "shell_at pid lit buf k1"
    "waits k1 h1 (fold con_putc (turn_text (flag_arr k) scs) con)" "shell_frame k k1"
    using shell_turn_unknown [OF Cons.prems(1,2) ty Cons.prems(5) ei Cons.prems(7,8) nc] by blast
  have f1: "flag_arr k1 = flags" "directory (kvm k1) (startdentry k1) = Some ds" "region (startdentry k1) 4096 \<subseteq> kpage"
    using k1(4) shell_frame_fs [OF k1(4) Cons.prems(8)] Cons.prems(3,7,8) by (simp_all add: shell_frame_def)
  obtain k' h' where k': "shell_loop child lit buf (e\<lparr>e_irqs := ?r\<rparr>, k1) = Some (0, e\<lparr>e_irqs := ?r\<rparr>\<lparr>e_irqs := rest\<rparr>, k')" "shell_at pid lit buf k'"
    "waits k' h' (fold con_putc (concat (map (turn_text flags) sess) @ prompt @ chars flags fin @ [10]) (fold con_putc (turn_text (flag_arr k) scs) con))"
    "shell_frame k1 k'"
    using Cons.IH [OF k1(2,3) f1(1) _ _ _ f1(2,3) _ Cons.prems(10), of "e\<lparr>e_irqs := ?r\<rparr>"] Cons.prems(4,5,9) by auto
  show ?case
    using k1(1) k' Cons.prems(3) shell_frame_trans [OF k1(4) k'(4)]
    by (intro exI [of _ k'] exI [of _ h'], subst shell_loop.simps) simp
qed


lemma shell_turn_runs:
  assumes at: "shell_at pid lit buf k" and w: "waits k h con" and ty: "typeable (flag_arr k) scs"
    and e: "e_handler e = key_irq stack" "e_irqs e = scs @ 0x1C # rest" and c: "cs = shell_cmd (flag_arr k) scs" "cs \<noteq> []" "cs \<noteq> map of_char ''exit''"
    and p: "program k cs d eof blk hdr" "elf_magic hdr" and g: "fst (getPID k) = cpid" "cpid \<noteq> -1"
  shows "\<exists>k'. shell_turn lit buf (e, k) = Some (Shell_runs (user_entry hdr), e\<lparr>e_irqs := rest\<rparr>, k') \<and> running cpid k' \<and>
    parent_pid (PCB_array k' cpid) = pid \<and> return_label_add (PCB_array k' cpid) = e_label e \<and> storeargs k' = args_array (trimmed (flag_arr k) scs) \<and>
    (\<forall>i < unat eof. ld8 (kvm k') (0x08048000 + word_of_nat i) = file_byte (kvm k) k (inodeNum d) i)"
proof -
  let ?e = "e\<lparr>e_irqs := rest\<rparr>"
  obtain k1 h' where k1: "shell_turn lit buf (e, k) = shell_command lit buf (?e, k1)" "shell_at pid lit buf k1"
    "shell_frame k k1" "storeargs k1 = args_array (trimmed (flag_arr k) scs)" "cstring (kvm k1) buf cs"
    using shell_turn_reads [OF at w ty e refl] c(1) unfolding shell_cmd_def by blast
  have len: "length cs \<le> 127" using trimmed_chars(3) [OF ty] line_cmd_sub(2) [of "trimmed (flag_arr k) scs"] c(1) by (simp add: shell_cmd_def)
  note cmd = shell_command_user [OF k1(2,5) len]
  obtain temp where t: "ld_bytes (kvm k1) buf 128 = Some temp" using cmd(4) by blast
  note pr = shell_frame_program [OF k1(3) p(1)]
  have r1: "running pid k1" using k1(2) by (simp add: prompting_def)
  then have l1: "layout (kvm k1)" "cur_process k1 = pid" by (simp_all add: running_def)
  have "fst (getPID k1) = cpid" using getPID_cong [of k1 k] k1(3) g(1) by (simp add: shell_frame_def)
  then obtain k0 where g1: "getPID k1 = (cpid, k0)" by (cases "getPID k1") simp
  obtain k' where k': "execute (e_label e) buf k1 = Some (To_user (user_entry hdr), k')" "layout (kvm k')" "page_directory (kvm k') 32 = proc_pde cpid"
    "\<forall>i < unat eof. ld8 (kvm k') (0x08048000 + word_of_nat i) = file_byte (kvm k1) k1 (inodeNum d) i"
    "PCB_array k' = (PCB_array k1)(cpid := started (e_label e) k1 (PCB_array k1 cpid))"
    "terminals k' = (terminals k1)(ct k1 := (terminals k1 (ct k1))\<lparr>curr_process := cpid\<rparr>)" "cur_terminal k' = cur_terminal k1"
    "0 \<le> cpid" "cpid < 6" "same_rest k1 k'"
    using execute_ok [OF pr(1) l1(1) t cmd(5) _ p(2) g1 g(2), of "e_label e"] len by auto
  have "storeargs k' = storeargs k1" using arg_cong [of _ _ storeargs, OF k'(10) [unfolded same_rest_def, THEN conjunct1]] by simp
  moreover have "shell_command lit buf (?e, k1) = Some (Shell_runs (user_entry hdr), ?e, k')"
    using cmd(3) [OF c(3,2), of ?e] k'(1) by simp
  ultimately show ?thesis using k1(1,4) k' pr(2) l1(2) by (intro exI [of _ k']) (simp add: running_def started_def)
qed


section \<open>Properties\<close>

lemma lit_at_region: "s \<in> set ss \<Longrightarrow> region (lit_at a ss s) (Suc (length s)) \<subseteq> region a (length (lit_bytes ss))"
proof (induction ss arbitrary: a)
  case (Cons x xs)
  have len: "length (lit_bytes (x # xs)) = Suc (length x) + length (lit_bytes xs)" by (simp add: lit_bytes_def)
  show ?case
  proof (cases "s = x")
    case True
    then show ?thesis using region_mono [of "Suc (length x)" "length (lit_bytes (x # xs))" a] len by simp
  next
    case False
    then have "region (lit_at a (x # xs) s) (Suc (length s)) \<subseteq> region (a + word_of_nat (Suc (length x))) (length (lit_bytes xs))"
      using Cons.IH [of "a + word_of_nat (Suc (length x))"] Cons.prems by simp
    then show ?thesis unfolding len region_add by blast
  qed
qed simp

text \<open>
  A kernel with the program \<open>a\<close> in its file system, in which process 0 runs in the visible terminal
  with the string constants \<open>ss\<close> at 0x08048000 and an array at 0x08100000; \<open>shell_sample\<close> has the
  constants of the shell.
\<close>

definition shell_list :: "string list" where
  "shell_list = [line_of ''Starting 391 Shell'', ''391OS> '', line_of ''read from keyboard failed'', ''exit'', line_of ''no such command'',
     line_of ''program terminated by exception'', line_of ''program terminated abnormally'']"

abbreviation shell_lit :: "string \<Rightarrow> addr" where
  "shell_lit \<equiv> lit_at 0x08048000 shell_list"

definition prompt_sample :: "string list \<Rightarrow> kernel" where
  "prompt_sample ss =
     (let v = set_pde 32 (proc_pde 0) (kvm sample_exec);
          k = set_vm (case st_bytes v 0x08048000 (lit_bytes ss) of Some v' \<Rightarrow> v' | None \<Rightarrow> v)
                (upd_pcb 0 (\<lambda>p. p\<lparr>pcb_in_use := 0\<rparr>) sample_exec)
      in k\<lparr>terminals := (\<lambda>i. zero_terminal\<lparr>video_buffer := pa (Suc i), enter_flag := 1\<rparr>)\<rparr>)"

lemma prompt_sample_fields:
  "visible (prompt_sample ss) = 0" "cur_terminal (prompt_sample ss) = 0" "screen_x (mach (prompt_sample ss)) = 0" "screen_y (mach (prompt_sample ss)) = 0"
  "flag_arr (prompt_sample ss) = replicate 5 0" "curr_idx (prompt_sample ss) = 0" "num_chars (prompt_sample ss) = 0" "save_x (prompt_sample ss) = 0"
  "save_y (prompt_sample ss) = 0" "previous_num_chars (prompt_sample ss) = 0" "buf_kb (prompt_sample ss) = replicate 128 0"
  "previous_buf (prompt_sample ss) = replicate 128 0" "startdentry (prompt_sample ss) = 0x410040" "start_addr (prompt_sample ss) = 0x410000"
  "numinodes (prompt_sample ss) = 1" "elf_buf (prompt_sample ss) = 0x7FF000"
  "terminals (prompt_sample ss) = (\<lambda>i. zero_terminal\<lparr>video_buffer := pa (Suc i), enter_flag := 1\<rparr>)"
  "PCB_array (prompt_sample ss) = (PCB_array sample_exec)(0 := (PCB_array sample_exec 0)\<lparr>pcb_in_use := 0\<rparr>)"
  by (simp_all add: prompt_sample_def Let_def) (simp_all add: sample_exec_def zero_kernel_def set_vm_def)

lemma prompt_sample_vm:
  assumes n: "length (lit_bytes ss) \<le> 4096" and ok: "\<forall>s \<in> set ss. 0 \<notin> set (map of_char s :: u8 list) \<and> length s < 2 ^ 31"
  shows "layout (kvm (prompt_sample ss))" "page_directory (kvm (prompt_sample ss)) 32 = proc_pde 0" "page_table (kvm (prompt_sample ss)) 0xB8 = 0xB8003"
  "agree kpage (kvm sample_exec) (kvm (prompt_sample ss))" "has_literals (lit_at 0x08048000 ss) (set ss) (prompt_sample ss)"
proof -
  let ?v0 = "init_paging (flat_vmem sample_elf)" and ?n = "length (lit_bytes ss)"
  define v where "v = set_pde 32 (proc_pde 0) ?v0"
  have l0: "layout ?v0" by (rule sample_vmem_layout)
  have l: "layout v" using map_process_page [OF l0, of 0] by (simp add: v_def)
  have pd: "page_directory v 32 = proc_pde 0" by (simp add: v_def)
  have rg: "region (0x08048000 :: addr) ?n \<subseteq> upage" by (rule subset_trans [OF region_mono [OF n] upage_region]) simp_all
  have m: "mapped v upage" using process_page_mapped [of v 0] l pd by (simp add: upage_def)
  obtain v' where v': "st_bytes v 0x08048000 (lit_bytes ss) = Some v'" "ld_bytes v' 0x08048000 ?n = Some (lit_bytes ss)"
    using st_bytes_mapped [OF mapped_subset [OF m rg]] n by auto
  have ch: "changes (region 0x08048000 ?n) v v'" by (rule st_bytes_changes [OF v'(1)])
  have kv: "kvm (prompt_sample ss) = v'" using v'(1) by (simp add: prompt_sample_def Let_def v_def)
  note sm = changes_same_map [OF ch]
  show "layout (kvm (prompt_sample ss))" "page_directory (kvm (prompt_sample ss)) 32 = proc_pde 0"
    using l pd layout_same_map [OF sm] same_map_fields [OF sm] unfolding kv by simp_all
  have "page_table ?v0 0xB8 = 0xB8003"
    by (simp add: init_paging_def Let_def enable_paging_def init_tables_fields VIDEO_MEM_INDEX_def FOUR_KB_def)
  then show "page_table (kvm (prompt_sample ss)) 0xB8 = 0xB8003" using same_map_fields [OF sm] unfolding kv by (simp add: v_def)
  have "agree kpage ?v0 v" unfolding v_def by (rule kpage_pde [OF l0]) (use l in \<open>simp add: v_def\<close>)
  moreover have "agree kpage v v'"
    using process_kpage_apart [of v 0] l pd by (intro agree_changes [OF ch] apart_subset [OF _ rg subset_refl]) (simp add: upage_def)
  ultimately show "agree kpage (kvm sample_exec) (kvm (prompt_sample ss))" unfolding kv by (simp add: agree_def)
  show "has_literals (lit_at 0x08048000 ss) (set ss) (prompt_sample ss)"
    unfolding has_literals_def kv using ok lit_at_literal [OF v'(2) rg] by blast
qed

lemma prompt_sample_ready:
  assumes "length (lit_bytes ss) \<le> 4096" and "\<forall>s \<in> set ss. 0 \<notin> set (map of_char s :: u8 list) \<and> length s < 2 ^ 31"
  shows "prompting (set ss) 0 (lit_at 0x08048000 ss) 0x08100000 (prompt_sample ss)" "\<exists>con. waits (prompt_sample ss) [] con"
proof -
  note vm = prompt_sample_vm [OF assms]
  have r: "running 0 (prompt_sample ss)" using vm(1,2) by (simp add: running_def prompt_sample_fields zero_terminal_def)
  have u: "region (0x08100000 :: addr) 1024 \<subseteq> upage" by (rule upage_region) simp_all
  have dj: "region (0x08048000 :: addr) 4096 \<inter> region 0x08100000 1024 = {}" by (rule region_disjoint) simp_all
  have "region (lit_at 0x08048000 ss s) (Suc (length s)) \<inter> region 0x08100000 1024 = {}" if "s \<in> set ss" for s
    using lit_at_region [OF that, of "0x08048000"] region_mono [OF assms(1), of "0x08048000"] dj by fast
  with r u vm(5) show "prompting (set ss) 0 (lit_at 0x08048000 ss) 0x08100000 (prompt_sample ss)" by (simp add: prompting_def)
  have rs: "real_screen (kvm (prompt_sample ss))" using vm(1,3) by (simp add: real_screen_def)
  then have ed: "ed_ok (prompt_sample ss)" by (simp add: ed_ok_def prompt_sample_fields session_def live_def saved_def zero_terminal_def)
  obtain con where "displays (mach (prompt_sample ss)) con"
    using displays_exists [OF screen_mapped [OF vm(1)] ed_ok_live(3) [OF ed]] by blast
  then show "\<exists>con. waits (prompt_sample ss) [] con"
    using ed by (intro exI [of _ con]) (simp add: waits_def edits_def line_def history_def prompt_sample_fields)
qed

abbreviation shell_sample :: kernel where
  "shell_sample \<equiv> prompt_sample shell_list"

lemma shell_list_ok: "length (lit_bytes shell_list) \<le> 4096" "\<forall>s \<in> set shell_list. 0 \<notin> set (map of_char s :: u8 list) \<and> length s < 2 ^ 31"
  by (simp_all add: lit_bytes_def shell_list_def)

lemmas shell_sample_fields = prompt_sample_fields [of shell_list]
lemmas shell_sample_vm = prompt_sample_vm [OF shell_list_ok]

lemma shell_sample_ready:
  "shell_at 0 shell_lit 0x08100000 shell_sample" "\<exists>con. waits shell_sample [] con"
  "program shell_sample [0x61] sample_dentry 28 (\<lambda>_. 0) sample_hdr" "fst (getPID shell_sample) = 1"
proof -
  have ss: "set shell_list = shell_strings" by (auto simp: shell_list_def shell_strings_def)
  show "shell_at 0 shell_lit 0x08100000 shell_sample" "\<exists>con. waits shell_sample [] con"
    using prompt_sample_ready [OF shell_list_ok] unfolding ss by blast+
  have kp: "file_area sample_exec (inodeNum sample_dentry) 28 (\<lambda>_. 0) \<union> region (startdentry sample_exec) 4096 \<subseteq> kpage"
    using sample_program by (simp add: program_def)
  show "program shell_sample [0x61] sample_dentry 28 (\<lambda>_. 0) sample_hdr"
    by (rule program_agree(1) [OF sample_program agree_mono [OF shell_sample_vm(4) kp]]) (simp_all add: shell_sample_fields)
  show "fst (getPID shell_sample) = 1"
    using init_PCB_free unfolding getPID_def by (auto simp: eval_nat_numeral shell_sample_fields sample_exec_def pid_free_def)
qed


text \<open>
  C13: a typed command starts its program.  The shell of the visible, scheduled terminal is at the
  top of its loop, and up to 127 character keys and Enter arrive.  When the first word of the line
  is the name of an ELF file, is not \<open>exit\<close>, and a process is free, the turn ends with the new
  process in user mode at the entry point of the file: the process is running, the shell is its
  parent and the label of \<open>execute\<close> its return address, its page holds the bytes of the file, the
  rest of the line is its argument string, and the interrupts after Enter are still to come.
\<close>

theorem shell_runs_command:
  assumes "shell_at pid lit buf k" and "waits k h con" and "typeable (flag_arr k) scs"
    and "e_handler e = key_irq stack" and "e_irqs e = scs @ 0x1C # rest" and "cs = shell_cmd (flag_arr k) scs" and "cs \<noteq> []"
    and "cs \<noteq> map of_char ''exit''" and "program k cs d eof blk hdr" and "elf_magic hdr" and "fst (getPID k) = cpid" and "cpid \<noteq> -1"
  shows "\<exists>k'. shell_turn lit buf (e, k) = Some (Shell_runs (user_entry hdr), e\<lparr>e_irqs := rest\<rparr>, k') \<and> running cpid k' \<and>
    parent_pid (PCB_array k' cpid) = pid \<and> return_label_add (PCB_array k' cpid) = e_label e \<and> storeargs k' = args_array (trimmed (flag_arr k) scs) \<and>
    (\<forall>i < unat eof. ld8 (kvm k') (0x08048000 + word_of_nat i) = file_byte (kvm k) k (inodeNum d) i)"
  by (rule shell_turn_runs [OF assms])

definition shell_env :: "u8 list \<Rightarrow> u8 sysenv" where
  "shell_env irqs = \<lparr>e_dev = (\<lambda>_ _. 0), e_label = 0x401234, e_other = id, e_rtc_irqs = [], e_handler = key_irq (\<lambda>_. 0), e_irqs = irqs,
     e_dentry = zero_dentry, e_eax = 0, e_reg = 0\<rparr>"

theorem shell_runs_command_witness:
  "\<exists>k'. shell_turn shell_lit 0x08100000 (shell_env [0x39, 0x1E, 0x39, 0x30, 0x1C, 0x23], shell_sample) =
      Some (Shell_runs (user_entry sample_hdr), shell_env [0x23], k') \<and> running 1 k' \<and> parent_pid (PCB_array k' 1) = 0 \<and>
    storeargs k' = 98 # replicate 1023 0"
proof -
  let ?scs = "[0x39, 0x1E, 0x39, 0x30] :: u8 list" and ?f = "replicate 5 0 :: int list"
  obtain con where con: "waits shell_sample [] con" using shell_sample_ready(2) by blast
  have ty: "typeable (flag_arr shell_sample) ?scs"
    by (simp add: shell_sample_fields typeable_def typing_def flag_key_def key_char_def char_array_def)
  have tr: "trimmed ?f ?scs = [97, 32, 98]" by (simp add: trimmed_def chars_def key_char_def char_array_def)
  have c: "[0x61] = shell_cmd (flag_arr shell_sample) ?scs" by (simp add: shell_sample_fields shell_cmd_def tr line_cmd_def)
  have a: "args_array [97, 32, 98] = 98 # replicate 1023 0" by (simp add: args_array_def line_args_def line_cmd_def)
  from shell_runs_command [OF shell_sample_ready(1) con ty _ _ c _ _ shell_sample_ready(3) sample_exec_ready(5) shell_sample_ready(4),
      of "shell_env [0x39, 0x1E, 0x39, 0x30, 0x1C, 0x23]" "\<lambda>_. 0" "[0x23]"]
  show ?thesis using tr a by (auto simp: shell_env_def shell_sample_fields)
qed

text \<open>
  C14: a session of the shell ends, and its transcript.  Lines are typed, each with a first word that
  is empty or not in the directory, and then a line whose first word is \<open>exit\<close>.  Then \<open>main\<close>
  returns 0 after the last Enter, and the console shows the banner and, for every line, the prompt,
  the line as typed with a newline, and \<open>no such command\<close> when the line has a first word.
\<close>

theorem shell_session_transcript:
  assumes "shell_at pid lit buf k" and "waits k h con" and "flag_arr k = flags" and "\<forall>scs \<in> set (sess @ [fin]). typeable flags scs"
    and "e_handler e = key_irq stack" and "e_irqs e = keys sess @ fin @ 0x1C # rest"
    and "directory (kvm k) (startdentry k) = Some ds" and "region (startdentry k) 4096 \<subseteq> kpage"
    and "\<forall>scs \<in> set sess. no_command ds (shell_cmd flags scs)" and "shell_cmd flags fin = map of_char ''exit''"
  shows "\<exists>k'. shell_main child lit buf (e, k) = Some (0, e\<lparr>e_irqs := rest\<rparr>, k') \<and>
    displays (mach k') (fold con_putc (map of_char (line_of ''Starting 391 Shell'') @ concat (map (turn_text flags) sess) @
      prompt @ chars flags fin @ [10]) con)"
proof -
  let ?b = "line_of ''Starting 391 Shell''"
  obtain k1 where k1: "puts_lit lit ?b (e, k) = Some (e, k1)" "shell_at pid lit buf k1" "waits k1 h (fold con_putc (map of_char ?b) con)" "shell_frame k k1"
    using prompting_prints [OF assms(1,2), of ?b e] by (auto simp: shell_strings_def)
  have f1: "flag_arr k1 = flags" "directory (kvm k1) (startdentry k1) = Some ds" "region (startdentry k1) 4096 \<subseteq> kpage"
    using k1(4) shell_frame_fs [OF k1(4) assms(8)] assms(3,7,8) by (simp_all add: shell_frame_def)
  obtain k' h' where k': "shell_loop child lit buf (e, k1) = Some (0, e\<lparr>e_irqs := rest\<rparr>, k')"
    "waits k' h' (fold con_putc (concat (map (turn_text flags) sess) @ prompt @ chars flags fin @ [10]) (fold con_putc (map of_char ?b) con))"
    using shell_loop_session [OF k1(2,3) f1(1) assms(4-6) f1(2,3) assms(9,10), of child] by blast
  show ?thesis
    using k1(1) k'(1) waits_awaits(3) [OF k'(2)] by (intro exI [of _ k']) (simp add: shell_main_def)
qed

theorem shell_session_transcript_witness:
  "\<exists>k' con con'. shell_main (\<lambda>_ _. None) shell_lit 0x08100000
      (shell_env [0x1C, 0x30, 0x1C, 0x12, 0x2D, 0x17, 0x14, 0x1C], shell_sample) = Some (0, shell_env [], k') \<and>
    displays (mach shell_sample) con \<and> con' = fold con_putc (map of_char (line_of ''Starting 391 Shell'' @ line_of ''391OS> '' @
      line_of ''391OS> b'' @ line_of ''no such command'' @ line_of ''391OS> exit'')) con \<and> displays (mach k') con'"
proof -
  let ?sess = "[[], [0x30]] :: u8 list list" and ?fin = "[0x12, 0x2D, 0x17, 0x14] :: u8 list" and ?f = "replicate 5 0 :: int list"
  obtain con where con: "waits shell_sample [] con" using shell_sample_ready(2) by blast
  obtain ds where ds: "directory (flat_vmem sample_elf) 0x410040 = Some ds" using sample_exec_directory by blast
  have kp: "region (0x410040 :: addr) 4096 \<subseteq> kpage" by (rule kpage_region) simp_all
  have "agree (region 0x410040 4096) (flat_vmem sample_elf) (kvm shell_sample)"
    using agree_trans [OF flat_agree [of sample_elf]] shell_sample_vm(4) agree_mono [OF _ kp] by simp
  then have dir: "directory (kvm shell_sample) (startdentry shell_sample) = Some ds" using directory_agree ds by (simp add: shell_sample_fields)
  have none: "find (\<lambda>d. entry_name (dname d) = take 32 [0x62]) ds = None"
  proof -
    have "entry_name (dname d) \<noteq> [0x62]" if dm: "d \<in> set ds" for d
    proof
      assume e: "entry_name (dname d) = [0x62]"
      have "length ds = 64" using length_those [OF ds [unfolded directory_def]] by simp
      then obtain i where i: "i < 64" "d = ds ! i" using dm by (auto simp: in_set_conv_nth)
      have "copy_dentry (flat_vmem sample_elf) (0x410040 + 64 * word_of_nat i) = Some d"
        using those_nth [OF ds [unfolded directory_def], of i] i by simp
      then have "dname d ! 0 = sample_elf (0x410040 + 64 * word_of_nat i)" by (auto simp: copy_dentry_def ld_bytes_flat ld32_flat)
      moreover have "dname d ! 0 = 0x62" using entry_name_nth [of 0 "dname d"] e by simp
      ultimately show False by (auto simp: sample_elf_def split: if_splits)
    qed
    then show ?thesis by (simp add: find_None_iff)
  qed
  have ch: "chars ?f [] = []" "chars ?f [0x30] = [98]" "chars ?f ?fin = [101, 120, 105, 116]"
    by (simp_all add: chars_def key_char_def char_array_def)
  then have sc: "shell_cmd ?f [] = []" "shell_cmd ?f [0x30] = [98]" "shell_cmd ?f ?fin = map of_char ''exit''"
    by (simp_all add: shell_cmd_def trimmed_def line_cmd_def)
  have ty: "\<forall>scs \<in> set (?sess @ [?fin]). typeable ?f scs"
    by (simp add: typeable_def typing_def flag_key_def key_char_def char_array_def)
  have nc: "\<forall>scs \<in> set ?sess. no_command ds (shell_cmd ?f scs)" using none by (simp add: sc no_command_def)
  have tx: "map of_char (line_of ''Starting 391 Shell'') @ concat (map (turn_text ?f) ?sess) @ prompt @ chars ?f ?fin @ [10] =
      (map of_char (line_of ''Starting 391 Shell'' @ line_of ''391OS> '' @ line_of ''391OS> b'' @ line_of ''no such command'' @ line_of ''391OS> exit'') :: u8 list)"
    by (simp add: turn_text_def sc ch)
  have sd: "region (startdentry shell_sample) 4096 \<subseteq> kpage" using kp by (simp add: shell_sample_fields)
  obtain k' where "shell_main (\<lambda>_ _. None) shell_lit 0x08100000 (shell_env [0x1C, 0x30, 0x1C, 0x12, 0x2D, 0x17, 0x14, 0x1C], shell_sample) = Some (0, shell_env [], k')"
    "displays (mach k') (fold con_putc (map of_char (line_of ''Starting 391 Shell'' @ line_of ''391OS> '' @ line_of ''391OS> b'' @
      line_of ''no such command'' @ line_of ''391OS> exit'')) con)"
    using shell_session_transcript [OF shell_sample_ready(1) con shell_sample_fields(5) ty _ _ dir sd nc sc(3),
      of "shell_env [0x1C, 0x30, 0x1C, 0x12, 0x2D, 0x17, 0x14, 0x1C]" "\<lambda>_. 0" "[]" "\<lambda>_ _. None"]
    unfolding tx by (auto simp: shell_env_def keys_def)
  with waits_awaits(3) [OF con] show ?thesis by blast
qed

end
