(* ===== verification/Dialog.thy ===== *)
theory Dialog
  imports Shell
begin

text \<open>
  The programs that read a line from the keyboard: \<open>ece391hello.c\<close> and \<open>ece391counter.c\<close>.  The
  library's \<open>ece391_itoa\<close>, which works in the memory of the program, agrees with the kernel's
  \<open>itoa\<close> on lists.
\<close>

section \<open>Numbers in the memory of a program\<close>

text \<open>An array of the program that holds the bytes \<open>bs\<close>.\<close>

definition user_array :: "vmem \<Rightarrow> addr \<Rightarrow> u8 list \<Rightarrow> bool" where
  "user_array v buf bs \<longleftrightarrow> mapped v (region buf (length bs)) \<and> (\<forall>a \<in> region buf (length bs). user_access v a) \<and>
     ld_bytes v buf (length bs) = Some bs \<and> length bs < 2 ^ 31"

lemma user_array_store:
  assumes "user_array v buf bs" and "i < length bs"
  shows "\<exists>v'. ust8 v (buf + word_of_nat i) x = Some v' \<and> user_array v' buf (bs[i := x]) \<and> changes (region buf (length bs)) v v'"
proof -
  let ?a = "buf + word_of_nat i" and ?n = "length bs"
  have m: "mapped v (region buf ?n)" and ua: "\<And>a. a \<in> region buf ?n \<Longrightarrow> user_access v a" and ld: "ld_bytes v buf ?n = Some bs" and n: "?n < 2 ^ 31"
    using assms(1) by (simp_all add: user_array_def)
  have a: "?a \<in> region buf ?n" by (rule region_memI [OF assms(2)])
  then obtain v' where v': "st8 v ?a x = Some v'" using m by (auto simp: mapped_def st8_def)
  have sm: "same_map v v'" by (rule st8_same_map [OF v'])
  have ld': "ld_bytes v' buf ?n = Some (bs[i := x])" using ld_bytes_store [OF m ld assms(2) _ v'] n by simp
  have "user_access v' b = user_access v b" for b by (simp add: user_access_def table_at_def same_map_fields [OF sm])
  then have "user_array v' buf (bs[i := x])"
    using m ua ld' n same_map_translate [OF sm] by (simp add: user_array_def mapped_def)
  moreover have "changes (region buf ?n) v v'" using st8_changes [OF v'] a by (auto simp: changes_def)
  ultimately show ?thesis using v' ua [OF a] by (simp add: ust8_def)
qed

lemma user_array_load:
  assumes "user_array v buf bs" and "i < length bs"
  shows "uld8 v (buf + word_of_nat i) = Some (bs ! i)"
  using assms ld_bytes_nth [of v buf "length bs" bs i] region_memI [OF assms(2), of buf] by (simp add: user_array_def uld8_def)

lemma lookup_agree: "d < 36 \<Longrightarrow> ece391_lookup ! d = itoa_lookup ! d"
proof -
  have "\<forall>d < 36. ece391_lookup ! d = itoa_lookup ! d" by code_simp
  then show "d < 36 \<Longrightarrow> ece391_lookup ! d = itoa_lookup ! d" by blast
qed

lemma user_itoa_loop:
  assumes r: "2 \<le> unat r" "unat r \<le> 36" and "unat w < unat r ^ n" and "user_array v buf bs" and "j + n < length bs"
  shows "\<exists>ds v'. itoa_loop w r acc = Some (acc @ ds) \<and> length ds \<le> n \<and>
    ece391_itoa_loop v (buf + word_of_nat j) w r = Some (buf + word_of_nat (j + length ds), v') \<and>
    user_array v' buf (take j bs @ ds @ drop (j + length ds) bs) \<and> changes (region buf (length bs)) v v'"
  using assms(3-5)
proof (induction n arbitrary: w acc v j bs)
  case 0
  then have "w = 0" by (simp add: unat_eq_0)
  then show ?case using 0 by (subst itoa_loop.simps, subst ece391_itoa_loop.simps) (simp add: changes_def)
next
  case (Suc n)
  show ?case
  proof (cases "w = 0")
    case True
    then show ?thesis using Suc.prems by (subst itoa_loop.simps, subst ece391_itoa_loop.simps) (intro exI [of _ "[]"] exI [of _ v], simp add: changes_def)
  next
    case False
    let ?d = "unat (w mod r)"
    let ?c = "itoa_lookup ! ?d"
    have r0: "r \<noteq> 0" using r(1) by auto
    have d: "?d = unat w mod unat r" "unat (w div r) = unat w div unat r" by (simp_all add: unat_mod unat_div)
    have "unat w mod unat r < unat r" using r(1) by (intro mod_less_divisor) simp
    with d(1) r(2) have lt: "?d < 36" by simp
    have q: "unat (w div r) < unat r ^ n" using Suc.prems(1) d(2) by (simp add: less_mult_imp_div_less mult.commute)
    have j: "j < length bs" using Suc.prems(3) by simp
    obtain v1 where v1: "ust8 v (buf + word_of_nat j) ?c = Some v1" "user_array v1 buf (bs[j := ?c])" "changes (region buf (length bs)) v v1"
      using user_array_store [OF Suc.prems(2) j, of ?c] by blast
    obtain ds v' where ds: "itoa_loop (w div r) r (acc @ [?c]) = Some ((acc @ [?c]) @ ds)" "length ds \<le> n"
      "ece391_itoa_loop v1 (buf + word_of_nat (Suc j)) (w div r) r = Some (buf + word_of_nat (Suc j + length ds), v')"
      "user_array v' buf (take (Suc j) (bs[j := ?c]) @ ds @ drop (Suc j + length ds) (bs[j := ?c]))" "changes (region buf (length (bs[j := ?c]))) v1 v'"
      using Suc.IH [OF q v1(2), of "Suc j" "acc @ [?c]"] Suc.prems(3) by auto
    have l: "take (Suc j) (bs[j := ?c]) @ ds @ drop (Suc j + length ds) (bs[j := ?c]) = take j bs @ (?c # ds) @ drop (j + length (?c # ds)) bs"
      using j by (simp add: take_Suc_conv_app_nth)
    have "itoa_loop w r acc = Some (acc @ (?c # ds))" using False r0 lt ds(1) by (subst itoa_loop.simps) (simp add: word_gt_0)
    moreover have "ece391_itoa_loop v (buf + word_of_nat j) w r = Some (buf + word_of_nat (j + length (?c # ds)), v')"
      using False r0 lt v1(1) ds(3) by (subst ece391_itoa_loop.simps) (simp add: word_gt_0 lookup_agree add.assoc add.commute [of 1])
    ultimately show ?thesis using ds(2,4,5) changes_trans [OF v1(3)] unfolding l by (intro exI [of _ "?c # ds"] exI [of _ v']) simp
  qed
qed

lemma user_strrev_loop:
  assumes "user_array v buf bs" and "0 \<le> b" and "e < int (length bs)"
  shows "\<exists>v'. ece391_strrev_loop v buf b e = Some v' \<and> user_array v' buf (strrev_loop bs b e) \<and> changes (region buf (length bs)) v v'"
  using assms
proof (induction bs b e arbitrary: v rule: strrev_loop.induct)
  case (1 bs b e)
  show ?case
  proof (cases "b < e")
    case False
    then show ?thesis using "1.prems"(1) by (subst ece391_strrev_loop.simps, subst strrev_loop.simps) (simp add: changes_def)
  next
    case True
    have n: "nat b < length bs" "nat e < length bs" and w: "(word_of_int b :: u32) = word_of_nat (nat b)" "(word_of_int e :: u32) = word_of_nat (nat e)"
      using "1.prems" True by simp_all
    obtain v1 where v1: "ust8 v (buf + word_of_nat (nat e)) (bs ! nat b) = Some v1" "user_array v1 buf (bs[nat e := bs ! nat b])"
      "changes (region buf (length bs)) v v1" using user_array_store [OF "1.prems"(1) n(2)] by blast
    obtain v2 where v2: "ust8 v1 (buf + word_of_nat (nat b)) (bs ! nat e) = Some v2" "user_array v2 buf (bs[nat e := bs ! nat b, nat b := bs ! nat e])"
      "changes (region buf (length bs)) v1 v2" using user_array_store [OF v1(2), of "nat b" "bs ! nat e"] n(1) by auto
    obtain v' where v': "ece391_strrev_loop v2 buf (b + 1) (e - 1) = Some v'" "user_array v' buf (strrev_loop (bs[nat e := bs ! nat b, nat b := bs ! nat e]) (b + 1) (e - 1))"
      "changes (region buf (length bs)) v2 v'" using "1.IH" [OF True v2(2)] "1.prems"(2,3) by auto
    have ld: "uld8 v (buf + word_of_int e) = Some (bs ! nat e)" "uld8 v (buf + word_of_int b) = Some (bs ! nat b)"
      unfolding w by (rule user_array_load [OF "1.prems"(1) n(2)], rule user_array_load [OF "1.prems"(1) n(1)])
    have "ece391_strrev_loop v buf b e = Some v'" using True ld v1(1) v2(1) v'(1) w by (subst ece391_strrev_loop.simps) simp
    moreover have "changes (region buf (length bs)) v v'" using changes_trans [OF changes_trans [OF v1(3) v2(3)] v'(3)] .
    ultimately show ?thesis using v'(2) True by (subst strrev_loop.simps) auto
  qed
qed

lemma strrev_loop_prefix: "strrev_loop (s @ t) 0 (int (length s) - 1) = rev s @ t"
proof (rule nth_equalityI)
  fix i assume "i < length (strrev_loop (s @ t) 0 (int (length s) - 1))"
  then have i: "i < length (s @ t)" by simp
  show "strrev_loop (s @ t) 0 (int (length s) - 1) ! i = (rev s @ t) ! i"
  proof (cases "i < length s")
    case True
    have "nat (0 + (int (length s) - 1) - int i) = length s - Suc i" "length s - Suc i < length s" using True by simp_all
    then show ?thesis using True i strrev_loop_nth [of 0 "int (length s) - 1" "s @ t" i] by (simp add: nth_append rev_nth)
  next
    case False
    then show ?thesis using i strrev_loop_nth [of 0 "int (length s) - 1" "s @ t" i] by (simp add: nth_append)
  qed
qed simp

lemma user_array_strlen:
  assumes "user_array v buf (s @ 0 # t)" and "0 \<notin> set s"
  shows "ece391_strlen_from v buf 0 = Some (word_of_nat (length s))"
proof -
  have "ece391_strlen_from v (buf + word_of_nat i) (word_of_nat i) = Some (word_of_nat (length s))" if "i \<le> length s" for i
    using that
  proof (induction "length s - i" arbitrary: i)
    case 0
    then have "uld8 v (buf + word_of_nat i) = Some 0" using user_array_load [OF assms(1), of i] by (simp add: nth_append)
    then show ?case using 0 by (subst ece391_strlen_from.simps) simp
  next
    case (Suc n)
    then have "i < length s" by simp
    then have "uld8 v (buf + word_of_nat i) = Some (s ! i)" "s ! i \<noteq> 0"
      using user_array_load [OF assms(1), of i] assms(2) by (auto simp: nth_append in_set_conv_nth)
    then show ?case using Suc.hyps(1) [of "Suc i"] Suc.hyps(2) Suc.prems by (subst ece391_strlen_from.simps) (simp add: add.assoc add.commute [of 1])
  qed
  from this [of 0] show ?thesis by simp
qed

lemma user_strrev:
  assumes a: "user_array v buf (s @ 0 # t)" and s: "0 \<notin> set s"
  shows "\<exists>v'. ece391_strrev buf v = Some v' \<and> user_array v' buf (rev s @ 0 # t) \<and> changes (region buf (length (s @ 0 # t))) v v'"
proof -
  have n: "length s < 2 ^ 31" using a by (simp add: user_array_def)
  have e: "sint (word_of_nat (length s) - 1 :: u32) = int (length s) - 1"
    using sint_word_of_int32 [of "int (length s) - 1"] n by (simp add: int32_def)
  show ?thesis
  proof (cases "length s \<le> 1")
    case True
    then have "rev s = s" by (cases s) auto
    then show ?thesis using a e True user_array_strlen [OF a s] by (simp add: ece391_strrev_def changes_def)
  next
    case False
    then show ?thesis using user_strrev_loop [OF a, of 0 "int (length s) - 1"] e user_array_strlen [OF a s]
      by (simp add: ece391_strrev_def strrev_loop_prefix)
  qed
qed

text \<open>The library's conversion leaves in the array the digits that the kernel's conversion computes.\<close>

lemma user_itoa:
  assumes a: "user_array v buf bs" and n: "12 \<le> length bs" and w: "w \<noteq> 0"
  shows "\<exists>s v' t. itoa w 10 = Some s \<and> 0 \<notin> set s \<and> ece391_itoa w buf 10 (e, set_vm v k) = Some (e, set_vm v' k) \<and>
    user_array v' buf (s @ 0 # t) \<and> length (s @ 0 # t) = length bs \<and> changes (region buf (length bs)) v v'"
proof -
  have r: "2 \<le> unat (10 :: u32)" "unat (10 :: u32) \<le> 36" "unat w < unat (10 :: u32) ^ 10" using unat_u32_lt [of w] by simp_all
  obtain ds v1 where d: "itoa_loop w 10 [] = Some ([] @ ds)" "length ds \<le> 10" "ece391_itoa_loop v (buf + word_of_nat 0) w 10 = Some (buf + word_of_nat (0 + length ds), v1)"
    "user_array v1 buf (take 0 bs @ ds @ drop (0 + length ds) bs)" "changes (region buf (length bs)) v v1"
    using user_itoa_loop [OF r a, of 0 "[]"] n by auto
  obtain s where s: "itoa w 10 = Some s" "0 \<notin> set s" using itoa_correct [of 10 w 10] r(3) by auto
  have rev: "s = rev ds" using s(1) d(1) w by (simp add: itoa_def strrev_eq_rev)
  have l: "length ds < length bs" using d(2) n by simp
  obtain v2 where v2: "ust8 v1 (buf + word_of_nat (length ds)) 0 = Some v2" "user_array v2 buf ((ds @ drop (length ds) bs)[length ds := 0])"
    "changes (region buf (length bs)) v1 v2" using user_array_store [OF d(4), of "length ds" 0] l by auto
  let ?t = "drop (Suc (length ds)) bs"
  have u: "(ds @ drop (length ds) bs)[length ds := 0] = ds @ 0 # ?t" using l by (simp add: list_update_append flip: Cons_nth_drop_Suc)
  have len: "length (ds @ 0 # ?t) = length bs" using l by simp
  obtain v' where v': "ece391_strrev buf v2 = Some v'" "user_array v' buf (rev ds @ 0 # ?t)" "changes (region buf (length bs)) v2 v'"
    using user_strrev [OF v2(2) [unfolded u]] s(2) rev unfolding len by auto
  have "ece391_itoa w buf 10 (e, set_vm v k) = Some (e, set_vm v' k)"
    using w d(3) v2(1) v'(1) by (simp add: ece391_itoa_def on_vm_def set_vm_def)
  then show ?thesis using s rev v'(2) len changes_trans [OF changes_trans [OF d(5) v2(3)] v'(3)]
    by (intro exI [of _ s] exI [of _ v'] exI [of _ ?t]) simp
qed


section \<open>A greeting\<close>

abbreviation ask_name :: string where
  "ask_name \<equiv> ''Hi, what'' @ [CHR 0x27] @ ''s your name? ''"

text \<open>A question, the line typed as its answer, and the zero byte the program puts behind it.\<close>

lemma asks:
  assumes at: "prompting ss pid lit buf k" and w: "waits k h con" and q: "q \<in> ss" and ty: "typeable (flag_arr k) scs"
    and e: "e_handler e = key_irq stack" "e_irqs e = scs @ 0x1C # rest" and l: "l = trimmed (flag_arr k) scs"
  shows "\<exists>k1 k2 k3 h'. puts_lit lit q (e, k) = Some (e, k1) \<and>
    ece391_read 0 buf 1023 (e, k1) = Some (int (length (line_result l)), e\<lparr>e_irqs := rest\<rparr>, k2) \<and>
    store_byte (buf + word_of_nat (length (line_result l))) 0 (e\<lparr>e_irqs := rest\<rparr>, k2) = Some (e\<lparr>e_irqs := rest\<rparr>, k3) \<and>
    prompting ss pid lit buf k3 \<and> waits k3 h' (fold con_putc (map of_char q @ chars (flag_arr k) scs @ [10]) con) \<and> cstring (kvm k3) buf (line_result l)"
proof -
  obtain k1 where k1: "puts_lit lit q (e, k) = Some (e, k1)" "prompting ss pid lit buf k1" "waits k1 h (fold con_putc (map of_char q) con)" "shell_frame k k1"
    using prompting_prints [OF at w q, of e] by blast
  have fl: "flag_arr k1 = flag_arr k" using k1(4) by (simp add: shell_frame_def)
  obtain k2 h' where k2: "ece391_read 0 buf 1023 (e, k1) = Some (int (length (line_result l)), e\<lparr>e_irqs := rest\<rparr>, k2)" "prompting ss pid lit buf k2"
    "waits k2 h' (con_putc 10 (fold con_putc (chars (flag_arr k) scs) (fold con_putc (map of_char q) con)))"
    "ld_bytes (kvm k2) buf (length (line_result l)) = Some (line_result l)"
    using prompting_reads [OF k1(2,3) _ e _ array_not_minus_one [OF at], of l] ty l unfolding fl by blast
  have lc: "0 \<notin> set l" "length l \<le> 127" using trimmed_chars [OF ty] l by simp_all
  have "0 \<notin> set (line_result l)" "length (line_result l) < 1024" using line_cmd_sub [of l] lc by (auto simp: line_result_def)
  then obtain k3 where "store_byte (buf + word_of_nat (length (line_result l))) 0 (e\<lparr>e_irqs := rest\<rparr>, k2) = Some (e\<lparr>e_irqs := rest\<rparr>, k3)"
    "prompting ss pid lit buf k3" "waits k3 h' (con_putc 10 (fold con_putc (chars (flag_arr k) scs) (fold con_putc (map of_char q) con)))"
    "cstring (kvm k3) buf (line_result l)" using prompting_ends [OF k2(2-4), of "e\<lparr>e_irqs := rest\<rparr>"] by blast
  then show ?thesis using k1(1) k2(1) by (intro exI [of _ k1] exI [of _ k2] exI [of _ k3] exI [of _ h']) simp
qed

lemma line_result_length: "typeable flags scs \<Longrightarrow> length (line_result (trimmed flags scs)) \<le> 128"
  using trimmed_chars(3) [of flags scs] line_cmd_sub(2) [of "trimmed flags scs"] by (simp add: line_result_def)

text \<open>
  The program \<open>hello\<close> asks for a name, reads the line typed and greets with it; of a line with
  spaces it repeats the first word, because \<open>terminal_read\<close> delivers only that.
\<close>

theorem hello_greets:
  assumes "prompting {ask_name, ''Hello, ''} pid lit buf k" and "waits k h con" and "typeable (flag_arr k) scs"
    and "e_handler e = key_irq stack" and "e_irqs e = scs @ 0x1C # rest"
  shows "\<exists>k'. hello_main lit buf (e, k) = Some (0, e\<lparr>e_irqs := rest\<rparr>, k') \<and>
    displays (mach k') (fold con_putc (map of_char ask_name @ chars (flag_arr k) scs @ [10] @ map of_char ''Hello, '' @
      line_result (trimmed (flag_arr k) scs)) con)"
proof -
  let ?r = "line_result (trimmed (flag_arr k) scs)" and ?e = "e\<lparr>e_irqs := rest\<rparr>" and ?ss = "{ask_name, ''Hello, ''}"
  let ?con = "fold con_putc (map of_char ask_name @ chars (flag_arr k) scs @ [10]) con"
  obtain k1 k2 k3 h' where a: "puts_lit lit ask_name (e, k) = Some (e, k1)" "ece391_read 0 buf 1023 (e, k1) = Some (int (length ?r), ?e, k2)"
    "store_byte (buf + word_of_nat (length ?r)) 0 (?e, k2) = Some (?e, k3)" "prompting ?ss pid lit buf k3" "waits k3 h' ?con" "cstring (kvm k3) buf ?r"
    using asks [OF assms(1,2) insertI1 assms(3-5) refl] by blast
  obtain k4 where k4: "puts_lit lit ''Hello, '' (?e, k3) = Some (?e, k4)" "prompting ?ss pid lit buf k4"
    "waits k4 h' (fold con_putc (map of_char ''Hello, '') ?con)" "agree upage (kvm k3) (kvm k4)" using prompting_prints [OF a(4,5), of "''Hello, ''" ?e] by blast
  have "region buf (Suc (length ?r)) \<subseteq> region buf 1024" by (rule region_mono) (use line_result_length [OF assms(3)] in simp)
  then have up: "region buf (Suc (length ?r)) \<subseteq> upage" using a(4) by (auto simp: prompting_def)
  then have "cstring (kvm k4) buf ?r" using a(6) ld_bytes_agree [OF agree_mono [OF k4(4) up]] by (simp add: cstring_def)
  then obtain k5 where k5: "ece391_fdputs 1 buf (?e, k4) = Some (?e, k5)" "waits k5 h' (fold con_putc ?r (fold con_putc (map of_char ''Hello, '') ?con))"
    using prompting_puts [OF k4(2,3) _ up, of ?e] by blast
  have "hello_main lit buf (e, k) = Some (0, ?e, k5)" using a(1-3) k4(1) k5(1) by (simp add: hello_main_def)
  then show ?thesis using waits_awaits(3) [OF k5(2)] by (intro exI [of _ k5]) simp
qed


section \<open>Counting\<close>

lemma ld_bytes_take:
  assumes "ld_bytes v a (n + m) = Some (xs @ ys)" and "length xs = n"
  shows "ld_bytes v a n = Some xs"
proof -
  obtain as bs where ab: "ld_bytes v a n = Some as" "as @ bs = xs @ ys"
    using assms(1) unfolding ld_bytes_append by (auto split: Option.bind_splits)
  moreover have "length as = length xs" using ld_bytes_length [OF ab(1)] assms(2) by simp
  ultimately show ?thesis by simp
qed

lemma prompting_itoa:
  assumes at: "prompting ss pid lit buf k" and w: "waits k h con" and x: "x \<noteq> 0"
  shows "\<exists>s k'. itoa x 10 = Some s \<and> ece391_itoa x buf 10 (e, k) = Some (e, k') \<and> prompting ss pid lit buf k' \<and> waits k' h con \<and>
    cstring (kvm k') buf s \<and> region buf (Suc (length s)) \<subseteq> upage"
proof -
  have run: "running pid k" and u: "region buf 1024 \<subseteq> upage" using at by (simp_all add: prompting_def)
  have m: "mapped (kvm k) (region buf 1024)" using process_page_mapped [of "kvm k" pid] run u by (auto simp: running_def upage_def intro: mapped_subset)
  obtain bs where bs: "ld_bytes (kvm k) buf 1024 = Some bs" using ld_bytes_mapped [OF m] by blast
  have len: "length bs = 1024" by (rule ld_bytes_length [OF bs])
  have "\<forall>a \<in> region buf 1024. user_access (kvm k) a" using user_access_upage [of "kvm k" pid] run u by (auto simp: running_def)
  then have ua: "user_array (kvm k) buf bs" using m bs len by (simp add: user_array_def)
  obtain s v t where s: "itoa x 10 = Some s" "0 \<notin> set s" "ece391_itoa x buf 10 (e, set_vm (kvm k) k) = Some (e, set_vm v k)"
    "user_array v buf (s @ 0 # t)" "length (s @ 0 # t) = 1024" "changes (region buf 1024) (kvm k) v"
    using user_itoa [OF ua _ x, of e k] len by auto
  have k: "set_vm (kvm k) k = k" by (simp add: set_vm_def)
  have "ld_bytes v buf (Suc (length s) + length t) = Some ((s @ [0]) @ t)" using s(4) by (simp add: user_array_def)
  then have "ld_bytes v buf (Suc (length s)) = Some (s @ [0])"
    by (rule ld_bytes_take) simp
  then have "cstring v buf s" using s(2,5) by (simp add: cstring_def)
  moreover have "region buf (Suc (length s)) \<subseteq> region buf 1024" by (rule region_mono) (use s(5) in simp)
  ultimately show ?thesis using s(1,3) prompting_changes [OF at w s(6) subset_refl] u k by (intro exI [of _ s] exI [of _ "set_vm v k"]) auto
qed

text \<open>The decimal numeral of a number, against which both conversions are read.\<close>

fun digits :: "nat \<Rightarrow> u8 list" where
  "digits n = (if n < 10 then [0x30 + word_of_nat n] else digits (n div 10) @ [0x30 + word_of_nat (n mod 10)])"

declare digits.simps [simp del]

lemma itoa_lookup_decimal: "d < 10 \<Longrightarrow> itoa_lookup ! d = 0x30 + word_of_nat d"
proof -
  have "\<forall>d < 10. itoa_lookup ! d = 0x30 + word_of_nat d" by code_simp
  then show "d < 10 \<Longrightarrow> itoa_lookup ! d = 0x30 + word_of_nat d" by blast
qed

lemma itoa_loop_digits:
  fixes w :: u32
  shows "itoa_loop w 10 acc = Some (acc @ (if w = 0 then [] else rev (digits (unat w))))"
proof (induction "unat w" arbitrary: w acc rule: less_induct)
  case less
  show ?case
  proof (cases "w = 0")
    case True
    then show ?thesis by (subst itoa_loop.simps) simp
  next
    case False
    let ?d = "unat w mod 10" and ?q = "w div 10"
    have u: "unat (w mod 10) = ?d" "unat ?q = unat w div 10" by (simp_all add: unat_mod unat_div)
    have pos: "0 < unat w" using False by (simp add: unat_gt_0)
    have "?d < 10" by (rule mod_less_divisor) simp
    then have lt: "?d < 37" by simp
    have c: "itoa_lookup ! ?d = 0x30 + word_of_nat ?d" by (rule itoa_lookup_decimal) simp
    have "itoa_loop w 10 acc = itoa_loop ?q 10 (acc @ [itoa_lookup ! ?d])"
      using False u(1) lt by (subst itoa_loop.simps) (simp add: word_gt_0)
    also have "\<dots> = Some ((acc @ [itoa_lookup ! ?d]) @ (if ?q = 0 then [] else rev (digits (unat ?q))))"
      by (rule less) (use pos u(2) in simp)
    also have "\<dots> = Some (acc @ rev (digits (unat w)))"
    proof (cases "unat w < 10")
      case True
      then have "unat ?q = 0" using u(2) by simp
      then show ?thesis using True c digits.simps [of "unat w"] by (simp add: unat_eq_0)
    next
      case False
      then have "unat ?q \<noteq> 0" using u(2) by simp
      then have "?q \<noteq> 0" by (metis unat_0)
      then show ?thesis using False c u(2) digits.simps [of "unat w"] by simp
    qed
    finally show ?thesis using False by simp
  qed
qed

lemma itoa_digits: "itoa w 10 = Some (digits (unat w))"
  using itoa_loop_digits [of w "[]"] digits.simps [of 0] by (simp add: itoa_def strrev_eq_rev)

lemma counter_loop_counts:
  assumes "prompting ss pid lit buf k" and "waits k h con" and "line_of '''' \<in> ss" and "i + n < 2 ^ 32"
  shows "\<exists>k'. counter_loop lit buf (word_of_nat i) n (e, k) = Some (e, k') \<and>
    waits k' h (fold con_putc (concat (map (\<lambda>j. digits j @ [10]) [Suc i..<Suc i + n])) con)"
  using assms
proof (induction n arbitrary: i k con)
  case 0
  then show ?case by auto
next
  case (Suc n)
  let ?x = "word_of_nat i + 1 :: u32"
  have x: "?x = word_of_nat (Suc i)" by (simp add: add.commute)
  have un: "unat (word_of_nat (Suc i) :: u32) = Suc i" using Suc.prems(4) by (simp add: unat_word_of_nat_u32 del: of_nat_Suc)
  then have nz: "?x \<noteq> 0" unfolding x by (metis Zero_not_Suc unat_0)
  obtain s k1 where k1: "itoa ?x 10 = Some s" "ece391_itoa ?x buf 10 (e, k) = Some (e, k1)" "prompting ss pid lit buf k1" "waits k1 h con"
    "cstring (kvm k1) buf s" "region buf (Suc (length s)) \<subseteq> upage" using prompting_itoa [OF Suc.prems(1,2) nz, of e] by blast
  have s: "digits (Suc i) = s" using k1(1) itoa_digits [of ?x] un unfolding x by simp
  obtain k2 where k2: "ece391_fdputs 1 buf (e, k1) = Some (e, k2)" "prompting ss pid lit buf k2" "waits k2 h (fold con_putc s con)"
    using prompting_puts [OF k1(3-6), of e] by blast
  obtain k3 where k3: "puts_lit lit (line_of '''') (e, k2) = Some (e, k3)" "prompting ss pid lit buf k3"
    "waits k3 h (fold con_putc (map of_char (line_of '''')) (fold con_putc s con))" using prompting_prints [OF k2(2,3) Suc.prems(3), of e] by blast
  obtain k' where k': "counter_loop lit buf (word_of_nat (Suc i)) n (e, k3) = Some (e, k')"
    "waits k' h (fold con_putc (concat (map (\<lambda>j. digits j @ [10]) [Suc (Suc i)..<Suc (Suc i) + n])) (fold con_putc (map of_char (line_of '''')) (fold con_putc s con)))"
    using Suc.IH [OF k3(2,3) Suc.prems(3), of "Suc i"] Suc.prems(4) by auto
  have "[Suc i..<Suc i + Suc n] = Suc i # [Suc (Suc i)..<Suc (Suc i) + n]" by (simp add: upt_conv_Cons)
  moreover have "counter_loop lit buf (word_of_nat i) (Suc n) (e, k) = Some (e, k')" using k1(2) k2(1) k3(1) k'(1) by (simp add: add.commute [of 1])
  ultimately show ?case using k'(2) s by (intro exI [of _ k']) (simp del: upt_Suc)
qed

abbreviation ask_number :: string where
  "ask_number \<equiv> line_of ''Enter the Test Number: (0): 100, (1): 10000, (2): 100000''"

text \<open>What follows the answer: the numbers from 1 on, each on its line, or a complaint.\<close>

definition counter_output :: "u8 list \<Rightarrow> u8 list" where
  "counter_output r = (if length r > 2 \<or> (length r = 2 \<and> (hd r < 0x30 \<or> 0x32 < hd r)) then map of_char (line_of ''Wrong Choice!'')
     else concat (map (\<lambda>j. digits j @ [10]) [1..<Suc (counter_max (hd (r @ [0])))]))"

lemma counter_output_cases:
  "2 < length r \<or> length r = 2 \<and> (hd (r @ [0]) < 0x30 \<or> 0x32 < hd (r @ [0])) \<Longrightarrow> counter_output r = map of_char (line_of ''Wrong Choice!'')"
  "\<not> (2 < length r \<or> length r = 2 \<and> (hd (r @ [0]) < 0x30 \<or> 0x32 < hd (r @ [0]))) \<Longrightarrow>
     counter_output r = concat (map (\<lambda>j. digits j @ [10]) [Suc 0..<Suc 0 + counter_max (hd (r @ [0]))])"
proof -
  have h: "hd (r @ [0]) = hd r" if "length r = 2" using that by (cases r) simp_all
  let ?bad = "length r > 2 \<or> (length r = 2 \<and> (hd r < 0x30 \<or> 0x32 < hd r))"
  show "counter_output r = map of_char (line_of ''Wrong Choice!'')"
    if "2 < length r \<or> length r = 2 \<and> (hd (r @ [0]) < 0x30 \<or> 0x32 < hd (r @ [0]))"
  proof -
    have "?bad" using that h by metis
    then show ?thesis unfolding counter_output_def by (simp only: if_True)
  qed
  show "counter_output r = concat (map (\<lambda>j. digits j @ [10]) [Suc 0..<Suc 0 + counter_max (hd (r @ [0]))])"
    if "\<not> (2 < length r \<or> length r = 2 \<and> (hd (r @ [0]) < 0x30 \<or> 0x32 < hd (r @ [0])))"
  proof -
    have "\<not> ?bad" using that h by metis
    then show ?thesis unfolding counter_output_def by (simp only: if_False One_nat_def add_Suc add_0)
  qed
qed



theorem hello_greets_witness:
  "\<exists>k' con. hello_main (lit_at 0x08048000 [ask_name, ''Hello, '']) 0x08100000 (shell_env [0x1E, 0x30, 0x1C, 0x23], prompt_sample [ask_name, ''Hello, '']) =
      Some (0, shell_env [0x23], k') \<and> displays (mach (prompt_sample [ask_name, ''Hello, ''])) con \<and>
    displays (mach k') (fold con_putc (map of_char (ask_name @ line_of ''ab'' @ line_of ''Hello, ab'')) con)"
proof -
  let ?ss = "[ask_name, ''Hello, '']" and ?scs = "[0x1E, 0x30] :: u8 list"
  let ?k = "prompt_sample ?ss"
  have ok: "length (lit_bytes ?ss) \<le> 4096" "\<forall>s \<in> set ?ss. 0 \<notin> set (map of_char s :: u8 list) \<and> length s < 2 ^ 31"
    by (simp_all add: lit_bytes_def)
  have at: "prompting {ask_name, ''Hello, ''} 0 (lit_at 0x08048000 ?ss) 0x08100000 ?k" using prompt_sample_ready(1) [OF ok] by simp
  obtain con where con: "waits ?k [] con" using prompt_sample_ready(2) [OF ok] by blast
  have ty: "typeable (flag_arr ?k) ?scs"
    by (simp add: prompt_sample_fields typeable_def typing_def flag_key_def key_char_def char_array_def)
  have ch: "chars (flag_arr ?k) ?scs = [97, 98]" by (simp add: prompt_sample_fields chars_def key_char_def char_array_def)
  then have tr: "line_result (trimmed (flag_arr ?k) ?scs) = [97, 98, 10]" by (simp add: trimmed_def line_result_def line_cmd_def)
  have tx: "map of_char ask_name @ chars (flag_arr ?k) ?scs @ [10] @ map of_char ''Hello, '' @ line_result (trimmed (flag_arr ?k) ?scs) =
      (map of_char (ask_name @ line_of ''ab'' @ line_of ''Hello, ab'') :: u8 list)" unfolding tr ch by simp
  obtain k' where "hello_main (lit_at 0x08048000 ?ss) 0x08100000 (shell_env [0x1E, 0x30, 0x1C, 0x23], ?k) = Some (0, shell_env [0x23], k')"
    "displays (mach k') (fold con_putc (map of_char (ask_name @ line_of ''ab'' @ line_of ''Hello, ab'')) con)"
    using hello_greets [OF at con ty, of "shell_env [0x1E, 0x30, 0x1C, 0x23]" "\<lambda>_. 0" "[0x23]"]
    unfolding tx by (auto simp: shell_env_def)
  with waits_awaits(3) [OF con] show ?thesis by blast
qed



end
