(* ===== verification/Spec2Isabelle.thy ===== *)
theory Spec2Isabelle
  imports System Syserr Pingpong Sigtest Dialog
begin

text \<open>
  A verification library of a small operating system for the PC: the kernel in
  \<open>student-distrib/\<close> and the user programs in \<open>syscalls/\<close> and \<open>fish/\<close>.

  \<^bold>\<open>The program.\<close>  A multiboot loader starts \<open>entry\<close> (\<open>kernel.c\<close>) with the file system image as a
  module.  \<open>entry\<close> fills the descriptor tables, programs the interrupt controllers, the clock and
  the timer, turns on paging and idles.  From then on everything happens in interrupts.  The timer
  interrupt (\<open>pit_handler\<close>) starts a shell in each of three terminals and then switches between
  them; the keyboard interrupt edits the line of the visible terminal; the clock interrupt wakes a
  process that waits in \<open>rtc_read\<close>.  A program enters the kernel with \<open>int 0x80\<close>: it reads and writes
  files, the terminal and the clock, starts another program with \<open>execute\<close> and ends with \<open>halt\<close>.

  \<^bold>\<open>The state.\<close>  One record, \<open>kernel\<close> (theory \<open>Kstate\<close>), holds the global variables of all source
  files; its member \<open>mach\<close> is the machine of theory \<open>Machine\<close>: physical memory behind the page
  tables, a trace of port accesses, the interrupt flag and the globals of the drivers.  An access
  through an unmapped address, an index outside an array and a jump through a null pointer are
  \<open>None\<close>; error returns of the code are values.  Machine integers are words of their width, C's
  \<open>int\<close> variables that stay small are \<open>int\<close> with the wrap-around written out.  The descriptor tables
  and the registers loaded from them are the record \<open>boot_state\<close> of theory \<open>Kernel\<close>.

  \<^bold>\<open>The theories.\<close>  Each models one part and proves what makes it correct.
    \<^item> \<open>Prelude\<close>, \<open>Machine\<close>: shared lemmas on words and regions; loads, stores, what a store changes.
    \<^item> \<open>Lib_Memory\<close>, \<open>Lib_String\<close>, \<open>Console\<close> (\<open>lib.c\<close>): the memory routines agree with byte-wise copies
      and fills; numbers and their digits; output refines an abstract console of 2000 cells.
    \<^item> \<open>Pic\<close>, \<open>Rtc\<close> (\<open>i8259.c\<close>, \<open>rtc.c\<close>): which interrupt lines are enabled, the rate of the clock, the
      end of a wait.
    \<^item> \<open>Paging\<close> (\<open>paging.c\<close>): the layout of the page tables as an invariant; user code reaches only
      the frame of its process and the video pages.
    \<^item> \<open>Filesys\<close>, \<open>Pcb\<close> (\<open>filesys.c\<close>, \<open>pcb.c\<close>): lookup by name, block-wise reads, process ids and
      descriptors.  The allocators are two interpretations of one locale.
    \<^item> \<open>Terminal\<close>, \<open>Schedule\<close>, \<open>Keyboard\<close> (\<open>terminal.c\<close>, \<open>schedule.c\<close>, \<open>keyboard.c\<close>): the three sessions
      survive every switch; the keyboard handler refines a line editor; a typed line reaches the
      process that reads it.
    \<^item> \<open>Execute\<close>, \<open>Halt\<close> (\<open>execute.c\<close>, \<open>halt.c\<close>): loading and starting a program, returning to its parent,
      restarting a shell.
    \<^item> \<open>Scheduler\<close>, \<open>Boot\<close> (\<open>schedule.c\<close>): the ticks, from the first one to the round robin.
    \<^item> \<open>System\<close>: interrupts and user code as a step relation; the invariants of the scheduler and the
      editor, and the isolation of memory, in every reachable state, from the boot loader on.
    \<^item> \<open>Syscall\<close> (\<open>syscall.c\<close>, \<open>syscall_asm.S\<close>): dispatch of the system calls.
    \<^item> \<open>Descriptors\<close>, \<open>Idt\<close>, \<open>Kernel\<close> (\<open>x86_desc.h\<close>, \<open>idt.c\<close>, \<open>kernel.c\<close>): gates and segments, what an
      interrupt reaches, the way from the boot loader to the first shell.
    \<^item> \<open>Userlib\<close>, \<open>Programs\<close>, \<open>Syserr\<close> (\<open>syscalls/\<close>): user programs run on the modelled system calls;
      what they print, and that the error tests pass.
    \<^item> \<open>Shell\<close> (\<open>ece391shell.c\<close>): from the keys of a line to the program it starts, and the transcript of
      a session; the run of a child is an argument.
    \<^item> \<open>Grep\<close> (\<open>ece391grep.c\<close>): the search of the directory in pieces of 1024 bytes prints exactly the
      matching lines.
    \<^item> \<open>Blink\<close>, \<open>Fish\<close> (\<open>fish/\<close>): the linked blink structures refine a list of values; the program
      shows on the mapped screen what its calls draw on an abstract one, and a character alternates
      with its two lengths.
    \<^item> \<open>Pingpong\<close>, \<open>Sigtest\<close> (\<open>ece391pingpong.c\<close>, \<open>ece391sigtest.c\<close>): the rounds of an endless game on the
      clock; a test of signals, which this kernel does not have.
    \<^item> \<open>Dialog\<close> (\<open>ece391hello.c\<close>, \<open>ece391counter.c\<close>): what the two programs print for the line typed; the
      library's \<open>ece391_itoa\<close> leaves in memory the decimal numeral, as the kernel's \<open>itoa\<close> does.

  \<^bold>\<open>The outside.\<close>  What the sources do not determine is an argument: the answers of devices to port
  reads (\<open>device\<close>), the interrupts that arrive while a call waits (a list of events), the addresses
  that the linker chooses, and uninitialised storage (\<open>sysenv\<close>, \<open>boot_env\<close>).  A wait ends when the
  list of events has brought what it waits for; otherwise it has no result.  Loops over arrays are
  structural recursion on the number of steps; loops that may run forever are
  \<open>partial_function (option)\<close>, and the properties state that they return.

  \<^bold>\<open>Not modelled.\<close>  \<open>boot.S\<close> only sets registers and calls \<open>entry\<close>; the state it leaves is the
  hypothesis of the boot property.  \<open>tests.c\<close> is not called by the kernel.  \<open>ece391emulate.c\<close> runs
  the programs on Linux and calls only its libraries.
  Interrupts are taken between steps of the code that waits for them, not inside every instruction:
  handlers of other devices are not interleaved with code that runs with interrupts enabled.
\<close>

end
